(* ===== verification/Prelude.thy ===== *)
theory Prelude
  imports Main "HOL-Library.AList"
begin

text \<open>
  Shared vocabulary of the development.  A Python function that may raise is a function into
  \<open>py_error + 'a\<close>: \<open>Inl\<close> names the class of the exception, \<open>Inr\<close> carries the returned value.
  Sequencing is \<open>rbind\<close> (the first exception wins), a guarded \<open>raise\<close> is \<open>rguard\<close>, and the
  loops \<open>for x in xs\<close> are \<open>rfold\<close> (a state threaded through) and \<open>rmap\<close> (a comprehension
  whose body may raise).  \<open>Diverges\<close> is the value of a loop that exhausts its fuel; every theory
  that uses it proves that it is not reached under the component's invariant.

  Dictionaries whose insertion order matters, or over which a loop iterates, are association
  lists read with \<open>map_of\<close>; \<open>dset\<close> is item assignment and \<open>dget\<close> the lookup that raises
  \<open>KeyError\<close>.
\<close>

section \<open>Exceptions\<close>

datatype py_error =
    AssertionError | KeyError | IndexError | ValueError | TypeError | RuntimeError
  | MemoryError | ZeroDivisionError | NotImplementedError | AttributeError
  | DeviceFactsSchemaError | StaleDeviceFactsError | MalformedDeviceFactsError
  | UnsupportedDeviceFactsSchemaError | Diverges

type_synonym 'a result = "py_error + 'a"

named_theorems result_simps \<open>rewrite rules for computations that may raise\<close>

definition rbind :: "'a result \<Rightarrow> ('a \<Rightarrow> 'b result) \<Rightarrow> 'b result" where
  "rbind m f = (case m of Inl e \<Rightarrow> Inl e | Inr x \<Rightarrow> f x)"

definition rguard :: "bool \<Rightarrow> py_error \<Rightarrow> unit result" where
  "rguard c e = (if c then Inr () else Inl e)"

fun rfold :: "('x \<Rightarrow> 's \<Rightarrow> 's result) \<Rightarrow> 'x list \<Rightarrow> 's \<Rightarrow> 's result" where
  "rfold f [] s = Inr s"
| "rfold f (x # xs) s = rbind (f x s) (rfold f xs)"

fun rmap :: "('x \<Rightarrow> 'y result) \<Rightarrow> 'x list \<Rightarrow> 'y list result" where
  "rmap f [] = Inr []"
| "rmap f (x # xs) = rbind (f x) (\<lambda>y. rbind (rmap f xs) (\<lambda>ys. Inr (y # ys)))"

definition rok :: "'a result \<Rightarrow> bool" where
  "rok m = (case m of Inl _ \<Rightarrow> False | Inr _ \<Rightarrow> True)"

lemma rbind_Inl [simp, result_simps]: "rbind (Inl e) f = Inl e"
  by (simp add: rbind_def)

lemma rbind_Inr [simp, result_simps]: "rbind (Inr x) f = f x"
  by (simp add: rbind_def)

lemma rbind_eq_Inr [result_simps]: "rbind m f = Inr y \<longleftrightarrow> (\<exists>x. m = Inr x \<and> f x = Inr y)"
  by (cases m) auto

lemma rbind_eq_Inl [result_simps]:
  "rbind m f = Inl e \<longleftrightarrow> m = Inl e \<or> (\<exists>x. m = Inr x \<and> f x = Inl e)"
  by (cases m) auto

lemma rbind_cong [fundef_cong]:
  "m = m' \<Longrightarrow> (\<And>x. m' = Inr x \<Longrightarrow> f x = g x) \<Longrightarrow> rbind m f = rbind m' g"
  by (cases m') auto

lemma rbind_assoc: "rbind (rbind m f) g = rbind m (\<lambda>x. rbind (f x) g)"
  by (cases m) auto

lemma rguard_eq_Inr [simp, result_simps]: "rguard c e = Inr u \<longleftrightarrow> c"
  by (simp add: rguard_def)

lemma rguard_True [simp]: "rguard True e = Inr ()"
  by (simp add: rguard_def)

lemma rguard_False [simp]: "rguard False e = Inl e"
  by (simp add: rguard_def)

lemma rguard_eq_Inl [result_simps]: "rguard c e = Inl e' \<longleftrightarrow> \<not> c \<and> e = e'"
  by (auto simp: rguard_def)

lemma rok_simps [simp]: "rok (Inr x)" "\<not> rok (Inl e)"
  by (simp_all add: rok_def)

lemma rok_iff: "rok m \<longleftrightarrow> (\<exists>x. m = Inr x)"
  by (cases m) auto

lemma rfold_append: "rfold f (xs @ ys) s = rbind (rfold f xs s) (rfold f ys)"
  by (induction xs arbitrary: s) (auto simp: rbind_assoc intro!: rbind_cong)

lemma rfold_invariant:
  assumes "rfold f xs s = Inr s'" and "P s"
    and "\<And>x t t'. x \<in> set xs \<Longrightarrow> P t \<Longrightarrow> f x t = Inr t' \<Longrightarrow> P t'"
  shows "P s'"
  using assms
proof (induction xs arbitrary: s)
  case Nil
  then show ?case by simp
next
  case (Cons x xs)
  then obtain t where t: "f x s = Inr t" "rfold f xs t = Inr s'"
    by (auto simp: rbind_eq_Inr)
  have "P t" by (rule Cons.prems(3) [OF _ Cons.prems(2) t(1)]) simp
  moreover have "P t'" if "y \<in> set xs" "P u" "f y u = Inr t'" for y u t'
    using Cons.prems(3) [OF _ that(2,3)] that(1) by simp
  ultimately show ?case
    using Cons.IH [OF t(2)] by blast
qed

lemma rmap_eq_Inr_iff:
  "rmap f xs = Inr ys \<longleftrightarrow> length ys = length xs \<and> (\<forall>i < length xs. f (xs ! i) = Inr (ys ! i))"
proof (induction xs arbitrary: ys)
  case Nil
  then show ?case by auto
next
  case (Cons x xs)
  then show ?case
    by (cases ys) (auto simp: rbind_eq_Inr nth_Cons less_Suc_eq_0_disj split: nat.splits)
qed

lemma rmap_total: "(\<And>x. x \<in> set xs \<Longrightarrow> f x = Inr (g x)) \<Longrightarrow> rmap f xs = Inr (map g xs)"
  by (induction xs) auto

section \<open>Ordered dictionaries\<close>

type_synonym ('k, 'v) dict = "('k \<times> 'v) list"

definition dget :: "('k, 'v) dict \<Rightarrow> 'k \<Rightarrow> 'v result" where
  "dget d k = (case map_of d k of None \<Rightarrow> Inl KeyError | Some v \<Rightarrow> Inr v)"

definition dset :: "'k \<Rightarrow> 'v \<Rightarrow> ('k, 'v) dict \<Rightarrow> ('k, 'v) dict" where
  "dset k v d = AList.update k v d"

definition ddel :: "'k \<Rightarrow> ('k, 'v) dict \<Rightarrow> ('k, 'v) dict" where
  "ddel k d = AList.delete k d"

lemma map_of_dset [simp]: "map_of (dset k v d) = (map_of d)(k \<mapsto> v)"
  by (simp add: dset_def update_conv')

lemma map_of_ddel [simp]: "map_of (ddel k d) = (map_of d)(k := None)"
  by (simp add: ddel_def delete_conv')

lemma dget_eq_Inr [simp, result_simps]: "dget d k = Inr v \<longleftrightarrow> map_of d k = Some v"
  by (auto simp: dget_def split: option.splits)

lemma dget_Some [simp]: "map_of d k = Some v \<Longrightarrow> dget d k = Inr v"
  by simp

lemma dget_None [simp]: "map_of d k = None \<Longrightarrow> dget d k = Inl KeyError"
  by (simp add: dget_def)

lemma keys_dset: "fst ` set (dset k v d) = insert k (fst ` set d)"
  by (simp add: dset_def dom_update)

lemma distinct_dset: "distinct (map fst d) \<Longrightarrow> distinct (map fst (dset k v d))"
  by (simp add: dset_def distinct_update)

section \<open>Lists with Python's index errors\<close>

definition lget :: "'a list \<Rightarrow> nat \<Rightarrow> 'a result" where
  "lget xs i = (if i < length xs then Inr (xs ! i) else Inl IndexError)"

lemma lget_eq_Inr [simp, result_simps]: "lget xs i = Inr x \<longleftrightarrow> i < length xs \<and> xs ! i = x"
  by (auto simp: lget_def)

text \<open>\<open>list(dict.fromkeys(xs))\<close>: the first occurrence of each value, in order.\<close>

fun first_occurrences :: "'a list \<Rightarrow> 'a list" where
  "first_occurrences [] = []"
| "first_occurrences (x # xs) = x # filter (\<lambda>y. y \<noteq> x) (first_occurrences xs)"

lemma set_first_occurrences [simp]: "set (first_occurrences xs) = set xs"
  by (induction xs) auto

lemma distinct_first_occurrences [simp]: "distinct (first_occurrences xs)"
  by (induction xs) auto

end
