(* ===== verification/Helpers.thy ===== *)
theory Helpers
  imports Prelude
begin

text \<open>
  The arithmetic and list helpers of \<open>tinygrad/helpers.py\<close>.  Python integers are \<open>int\<close>;
  \<open>//\<close> and \<open>%\<close> are HOL's \<open>div\<close> and \<open>mod\<close> (both round to minus infinity), with the exception
  for a zero divisor written out where the code can meet it.  The bit tricks are kept as bit
  operations and related to division here.
\<close>

unbundle bit_operations_syntax

section \<open>Bit length\<close>

text \<open>\<open>int.bit_length()\<close>: the number of bits of the absolute value.\<close>

function bit_length :: "int \<Rightarrow> nat" where
  "bit_length n = (if n = 0 then 0 else Suc (bit_length (\<bar>n\<bar> div 2)))"
  by pat_completeness auto
termination
  by (relation "measure (\<lambda>n. nat \<bar>n\<bar>)") auto

declare bit_length.simps [simp del]

lemma bit_length_0 [simp]: "bit_length 0 = 0"
  by (simp add: bit_length.simps)

lemma bit_length_bounds: "0 < n \<Longrightarrow> 0 < bit_length n \<and> 2 ^ (bit_length n - 1) \<le> n \<and> n < 2 ^ bit_length n"
proof (induction n rule: bit_length.induct)
  case (1 n)
  show ?case
  proof (cases "n = 1")
    case True
    then show ?thesis by (simp add: bit_length.simps)
  next
    case False
    with 1 have "0 < n div 2" by simp
    with 1 have IH: "0 < bit_length (n div 2)" "2 ^ (bit_length (n div 2) - 1) \<le> n div 2"
        "n div 2 < 2 ^ bit_length (n div 2)"
      by simp_all
    have bl: "bit_length n = Suc (bit_length (n div 2))"
      using 1 by (subst bit_length.simps) simp
    obtain k where k: "bit_length (n div 2) = Suc k"
      using IH(1) by (cases "bit_length (n div 2)") simp_all
    have "2 ^ k \<le> n div 2" "n div 2 < 2 * 2 ^ k" using IH(2,3) k by simp_all
    then have "2 * 2 ^ k \<le> n" "n < 4 * 2 ^ k" by linarith+
    then show ?thesis using bl k by simp
  qed
qed

lemma bit_length_pos [simp]: "0 < n \<Longrightarrow> 0 < bit_length n"
  using bit_length_bounds by blast

lemma bit_length_lower: "0 < n \<Longrightarrow> 2 ^ (bit_length n - 1) \<le> n"
  using bit_length_bounds by blast

lemma bit_length_upper: "0 \<le> n \<Longrightarrow> n < 2 ^ bit_length n"
  using bit_length_bounds by (cases "n = 0") auto

lemma bit_length_le_iff: "0 \<le> n \<Longrightarrow> bit_length n \<le> k \<longleftrightarrow> n < 2 ^ k"
proof
  assume "0 \<le> n" and "bit_length n \<le> k"
  then have "n < 2 ^ bit_length n" by (simp add: bit_length_upper)
  also have "\<dots> \<le> 2 ^ k" using \<open>bit_length n \<le> k\<close> by simp
  finally show "n < 2 ^ k" .
next
  assume "0 \<le> n" and lt: "n < 2 ^ k"
  show "bit_length n \<le> k"
  proof (cases "n = 0")
    case False
    then have "0 < n" using \<open>0 \<le> n\<close> by simp
    then have "(2::int) ^ (bit_length n - 1) < 2 ^ k"
      using lt by (rule le_less_trans [OF bit_length_lower])
    then have "bit_length n - 1 < k" by simp
    then show ?thesis using bit_length_pos [OF \<open>0 < n\<close>] by simp
  qed simp
qed

lemma bit_length_mono: "0 \<le> m \<Longrightarrow> m \<le> n \<Longrightarrow> bit_length m \<le> bit_length n"
  using bit_length_upper [of n] by (simp add: bit_length_le_iff)

lemma bit_length_eqI: "2 ^ k \<le> n \<Longrightarrow> n < 2 ^ Suc k \<Longrightarrow> bit_length n = Suc k"
proof -
  assume a: "2 ^ k \<le> n" "n < 2 ^ Suc k"
  have "(0::int) < 2 ^ k" by simp
  with a have n: "0 < n" by linarith
  with a have "bit_length n \<le> Suc k" by (simp add: bit_length_le_iff)
  moreover have "\<not> bit_length n \<le> k" using n a by (simp add: bit_length_le_iff)
  ultimately show ?thesis by simp
qed

section \<open>Rounding and division\<close>

text \<open>\<open>round_up\<close> on a divisor that is not zero, and with the exception.\<close>

definition round_up :: "int \<Rightarrow> int \<Rightarrow> int" where
  "round_up num amt = (num + amt - 1) div amt * amt"

definition py_round_up :: "int \<Rightarrow> int \<Rightarrow> int result" where
  "py_round_up num amt = (if amt = 0 then Inl ZeroDivisionError else Inr (round_up num amt))"

definition round_down :: "int \<Rightarrow> int \<Rightarrow> int" where
  "round_down num amt = - round_up (- num) amt"

text \<open>\<open>ceildiv\<close> on Python integers: the branch for symbolic operands does not apply, and
  neither does the conversion from float.\<close>

definition ceildiv :: "int \<Rightarrow> int \<Rightarrow> int" where
  "ceildiv num amt = - (num div - amt)"

definition next_power2 :: "int \<Rightarrow> int" where
  "next_power2 x = (if x = 0 then 1 else 2 ^ bit_length (x - 1))"

definition cdiv :: "int \<Rightarrow> int \<Rightarrow> int" where
  "cdiv x y = (if y \<noteq> 0 then \<bar>x\<bar> div \<bar>y\<bar> * (if x * y < 0 then -1 else 1) else 0)"

definition cmod :: "int \<Rightarrow> int \<Rightarrow> int" where
  "cmod x y = x - cdiv x y * y"

definition floordiv :: "int \<Rightarrow> int \<Rightarrow> int" where
  "floordiv x y = (if y \<noteq> 0 then x div y else 0)"

definition floormod :: "int \<Rightarrow> int \<Rightarrow> int" where
  "floormod x y = x - floordiv x y * y"

lemma round_up_props:
  assumes "0 < amt"
  shows "num \<le> round_up num amt" and "round_up num amt < num + amt" and "amt dvd round_up num amt"
proof -
  let ?q = "(num + amt - 1) div amt"
  have eq: "num + amt - 1 = ?q * amt + (num + amt - 1) mod amt"
    by simp
  have r: "0 \<le> (num + amt - 1) mod amt" "(num + amt - 1) mod amt < amt"
    using assms by simp_all
  show "num \<le> round_up num amt" unfolding round_up_def using eq r by linarith
  show "round_up num amt < num + amt" unfolding round_up_def using eq r by linarith
  show "amt dvd round_up num amt" by (simp add: round_up_def)
qed

lemma round_up_ge: "0 < amt \<Longrightarrow> num \<le> round_up num amt"
  by (rule round_up_props)

lemma round_up_less: "0 < amt \<Longrightarrow> round_up num amt < num + amt"
  by (rule round_up_props)

lemma round_up_dvd [simp]: "amt dvd round_up num amt"
  by (simp add: round_up_def)

lemma round_up_least:
  assumes "0 < amt" "amt dvd m" "num \<le> m"
  shows "round_up num amt \<le> m"
proof -
  obtain k where k: "m = amt * k" using assms(2) by (rule dvdE)
  obtain j where j: "round_up num amt = amt * j" using round_up_dvd by (rule dvdE)
  have "amt * j < amt * (k + 1)"
    using round_up_less [OF assms(1), of num] j k assms(3) by (simp add: algebra_simps)
  then have "j < k + 1" using assms(1) by simp
  then show ?thesis using j k assms(1) by simp
qed

lemma round_up_1 [simp]: "round_up n 1 = n"
  by (simp add: round_up_def)

lemma round_up_id: "0 < amt \<Longrightarrow> amt dvd n \<Longrightarrow> round_up n amt = n"
  by (rule antisym) (auto intro: round_up_least round_up_ge)

lemma round_up_mono:
  assumes "0 < amt" and "a \<le> b"
  shows "round_up a amt \<le> round_up b amt"
  using assms by (auto intro: round_up_least order_trans [OF _ round_up_ge])

lemma round_up_nonneg: "0 < amt \<Longrightarrow> 0 \<le> n \<Longrightarrow> 0 \<le> round_up n amt"
  using round_up_ge [of amt n] by linarith

lemma next_power2_props:
  assumes "0 \<le> x"
  shows "x \<le> next_power2 x" and "\<And>k. x \<le> 2 ^ k \<Longrightarrow> next_power2 x \<le> 2 ^ k"
proof -
  show "x \<le> next_power2 x"
    using bit_length_upper [of "x - 1"] assms by (cases "x = 0") (auto simp: next_power2_def)
  fix k assume "x \<le> 2 ^ k"
  then show "next_power2 x \<le> 2 ^ k"
    using bit_length_le_iff [of "x - 1" k] assms by (cases "x = 0") (auto simp: next_power2_def)
qed

section \<open>Words of a fixed width as integers\<close>

definition lo32 :: "int \<Rightarrow> int" where "lo32 x = x AND 0xFFFFFFFF"
definition hi32 :: "int \<Rightarrow> int" where "hi32 x = drop_bit 32 x"
definition data64 :: "int \<Rightarrow> int \<times> int" where "data64 x = (drop_bit 32 x, x AND 0xFFFFFFFF)"
definition data64_le :: "int \<Rightarrow> int \<times> int" where "data64_le x = (x AND 0xFFFFFFFF, drop_bit 32 x)"

definition to_be32 :: "int \<Rightarrow> int" where
  "to_be32 val = (push_bit 24 (val AND 0xFF) OR push_bit 16 (drop_bit 8 val AND 0xFF)
    OR push_bit 8 (drop_bit 16 val AND 0xFF) OR (drop_bit 24 val AND 0xFF))"

definition to_be64 :: "int \<Rightarrow> int" where
  "to_be64 val = (to_be32 (drop_bit 32 val) OR push_bit 32 (to_be32 (val AND 0xFFFFFFFF)))"

definition getbits :: "int \<Rightarrow> nat \<Rightarrow> nat \<Rightarrow> int" where
  "getbits value start stop = drop_bit start value AND (push_bit (stop + 1 - start) 1 - 1)"

definition i2u :: "nat \<Rightarrow> int \<Rightarrow> int" where
  "i2u bits value = (if 0 \<le> value then value else push_bit bits 1 + value)"

lemma and_mask_take_bit:
  "x AND 0xFF = take_bit 8 (x :: int)" "x AND 0xFFFFFFFF = take_bit 32 (x :: int)"
  by (simp_all add: take_bit_eq_mask mask_eq_exp_minus_1)

lemma lo32_eq: "lo32 x = x mod 2 ^ 32"
  by (simp add: lo32_def and_mask_take_bit take_bit_eq_mod)

lemma hi32_eq: "hi32 x = x div 2 ^ 32"
  by (simp add: hi32_def drop_bit_eq_div)

lemma lo32_hi32: "hi32 x * 2 ^ 32 + lo32 x = x"
  by (simp add: lo32_eq hi32_eq)

lemma bit_to_be32:
  "bit (to_be32 v) n \<longleftrightarrow>
    (if n < 8 then bit v (n + 24) else if n < 16 then bit v (n + 8)
     else if n < 24 then bit v (n - 8) else if n < 32 then bit v (n - 24) else False)"
  by (auto simp: to_be32_def and_mask_take_bit bit_simps add.commute)

lemma to_be32_involution_take: "to_be32 (to_be32 v) = take_bit 32 v"
  by (rule bit_eqI) (auto simp: bit_to_be32 bit_take_bit_iff)

lemma to_be64_bit:
  "bit (to_be64 v) n \<longleftrightarrow> (if n < 32 then bit (to_be32 (drop_bit 32 v)) n
     else bit (to_be32 (take_bit 32 v)) (n - 32))"
  by (auto simp: to_be64_def and_mask_take_bit bit_simps bit_to_be32)

lemma getbits_eq:
  assumes "start \<le> stop"
  shows "getbits v start stop = v div 2 ^ start mod 2 ^ (stop + 1 - start)"
proof -
  have "drop_bit start v AND (push_bit (stop + 1 - start) 1 - 1) = take_bit (stop + 1 - start) (drop_bit start v)"
    by (simp add: take_bit_eq_mask mask_eq_exp_minus_1)
  then show ?thesis by (simp add: getbits_def take_bit_eq_mod drop_bit_eq_div)
qed

lemma i2u_eq_mod: "- (2 ^ n) \<le> v \<Longrightarrow> v < 2 ^ n \<Longrightarrow> i2u n v = v mod 2 ^ n"
proof -
  assume a: "- (2 ^ n) \<le> v" "v < 2 ^ n"
  show ?thesis
  proof (cases "0 \<le> v")
    case False
    with a have "(v + 2 ^ n) mod 2 ^ n = v + 2 ^ n" by (intro mod_pos_pos_trivial) auto
    then show ?thesis using False by (simp add: i2u_def)
  qed (use a in \<open>simp add: i2u_def\<close>)
qed

end
