(* ===== verification/Tiling.thy ===== *)
theory Tiling
  imports Helpers
begin

text \<open>
  The abstract view of the allocator's dictionary \<open>blocks\<close>: a partial map from start
  addresses to blocks that tiles the range from zero to \<open>N\<close> without gaps or overlaps, with the
  neighbour links right in both directions.  Everything here is about maps; the operations of
  the allocator are related to it in the theory of their proofs.
\<close>

datatype blk = Blk (bsz: int) (bnext: "int option") (bprev: "int option") (bfree: bool)

definition block_ok :: "int \<Rightarrow> (int \<Rightarrow> blk option) \<Rightarrow> int \<Rightarrow> blk \<Rightarrow> bool" where
  "block_ok N m a b \<longleftrightarrow> 0 \<le> a \<and> 0 < bsz b \<and> bnext b = Some (a + bsz b) \<and> a + bsz b \<le> N \<and>
     (a + bsz b < N \<longrightarrow> (\<exists>c. m (a + bsz b) = Some c \<and> bprev c = Some a)) \<and>
     (a = 0 \<longrightarrow> bprev b = None) \<and>
     (a \<noteq> 0 \<longrightarrow> (\<exists>p c. bprev b = Some p \<and> m p = Some c \<and> p + bsz c = a))"

definition tiling :: "int \<Rightarrow> (int \<Rightarrow> blk option) \<Rightarrow> bool" where
  "tiling N m \<longleftrightarrow> m 0 \<noteq> None \<and> (\<forall>a b. m a = Some b \<longrightarrow> block_ok N m a b)"

lemma tilingD: "tiling N m \<Longrightarrow> m a = Some b \<Longrightarrow> block_ok N m a b"
  by (simp add: tiling_def)

lemma tiling_basic:
  assumes "tiling N m" "m a = Some b"
  shows "0 \<le> a" "0 < bsz b" "a + bsz b \<le> N" "bnext b = Some (a + bsz b)"
  using tilingD [OF assms] by (simp_all add: block_ok_def)

lemma tiling_next:
  assumes "tiling N m" "m a = Some b" "a + bsz b < N"
  obtains c where "m (a + bsz b) = Some c" "bprev c = Some a"
  using tilingD [OF assms(1,2)] assms(3) by (auto simp: block_ok_def)

lemma tiling_prev:
  assumes "tiling N m" "m a = Some b" "a \<noteq> 0"
  obtains p c where "bprev b = Some p" "m p = Some c" "p + bsz c = a"
  using tilingD [OF assms(1,2)] assms(3) by (auto simp: block_ok_def)

lemma tiling_prev_Some:
  assumes "tiling N m" "m a = Some b" "bprev b = Some p"
  obtains c where "m p = Some c" "p + bsz c = a" "p < a"
proof (cases "a = 0")
  case True
  then show ?thesis using tilingD [OF assms(1,2)] assms(3) by (simp add: block_ok_def)
next
  case False
  with tiling_prev [OF assms(1,2)] assms(3) that tiling_basic(2) [OF assms(1)] show ?thesis
    by (metis less_add_same_cancel1 option.inject)
qed

lemma tiling_end_None:
  assumes "tiling N m" "N \<le> x"
  shows "m x = None"
proof (cases "m x")
  case (Some c)
  with tiling_basic(2,3) [OF assms(1) Some] assms(2) show ?thesis by simp
qed

text \<open>Blocks do not overlap.\<close>

lemma tiling_ordered:
  assumes t: "tiling N m"
  shows "m a = Some ba \<Longrightarrow> m b = Some bb \<Longrightarrow> a < b \<Longrightarrow> a + bsz ba \<le> b"
proof (induction "nat b" arbitrary: a ba b bb rule: less_induct)
  case less
  have a0: "0 \<le> a" using tiling_basic(1) [OF t less.prems(1)] .
  then have "b \<noteq> 0" using less.prems(3) by simp
  then obtain p c where p: "m p = Some c" "p + bsz c = b"
    using tiling_prev [OF t less.prems(2)] by metis
  have pb: "p < b" "0 \<le> p" using p tiling_basic [OF t p(1)] by simp_all
  consider "a = p" | "a < p" | "p < a" by linarith
  then show ?case
  proof cases
    case 1
    then show ?thesis using p less.prems(1) by simp
  next
    case 2
    have "nat p < nat b" using pb by simp
    from less.hyps [OF this less.prems(1) p(1) 2] pb show ?thesis by simp
  next
    case 3
    have "nat a < nat b" using less.prems(3) a0 by simp
    from less.hyps [OF this p(1) less.prems(1) 3] p(2) less.prems(3) show ?thesis by simp
  qed
qed

lemma tiling_inside_None:
  assumes t: "tiling N m" and "m a = Some b" and "a < x" and "x < a + bsz b"
  shows "m x = None"
  using tiling_ordered [OF t assms(2) _ assms(3)] assms(4) by (cases "m x") auto

lemma tiling_disjoint:
  assumes "tiling N m" "m a = Some ba" "m b = Some bb" "a \<noteq> b"
  shows "{a..<a + bsz ba} \<inter> {b..<b + bsz bb} = {}"
  using tiling_ordered [OF assms(1-3)] tiling_ordered [OF assms(1,3,2)] assms(4) by force

text \<open>Every address below \<open>N\<close> lies in a block.\<close>

lemma tiling_covers_upto:
  assumes t: "tiling N m"
  shows "0 \<le> x \<Longrightarrow> x < N \<Longrightarrow> \<exists>a b. m a = Some b \<and> a \<le> x \<and> x < a + bsz b"
proof (induction "nat x" arbitrary: x)
  case 0
  then have "x = 0" by simp
  obtain b where "m 0 = Some b" using t by (auto simp: tiling_def)
  then show ?case using tiling_basic(2) [OF t] \<open>x = 0\<close> by fastforce
next
  case (Suc n)
  have "n = nat (x - 1)" "0 \<le> x - 1" "x - 1 < N" using Suc.hyps(2) Suc.prems by simp_all
  from Suc.hyps(1) [OF this] obtain a b where ab: "m a = Some b" "a \<le> x - 1" "x - 1 < a + bsz b"
    by blast
  show ?case
  proof (cases "x < a + bsz b")
    case True
    then show ?thesis using ab by (intro exI [of _ a] exI [of _ b]) simp
  next
    case False
    then have x: "x = a + bsz b" using ab by simp
    with tiling_next [OF t ab(1)] Suc.prems obtain c where "m x = Some c" by metis
    then show ?thesis using tiling_basic(2) [OF t] by fastforce
  qed
qed

lemma tiling_covers_unique:
  assumes t: "tiling N m" and "0 \<le> x" "x < N"
  shows "\<exists>!a. \<exists>b. m a = Some b \<and> a \<le> x \<and> x < a + bsz b"
proof (rule ex_ex1I)
  show "\<exists>a b. m a = Some b \<and> a \<le> x \<and> x < a + bsz b"
    by (rule tiling_covers_upto [OF assms])
  fix a a' assume a: "\<exists>b. m a = Some b \<and> a \<le> x \<and> x < a + bsz b"
    and a': "\<exists>b. m a' = Some b \<and> a' \<le> x \<and> x < a' + bsz b"
  show "a = a'"
    using a a' tiling_ordered [OF t] by (metis linorder_neqE_linordered_idom order.strict_trans1 linorder_not_less)
qed

section \<open>The map-level operations\<close>

text \<open>\<open>if nxt in self.blocks: self.blocks[nxt] = (.., .., p, ..)\<close>\<close>

definition relink_map :: "int option \<Rightarrow> int \<Rightarrow> (int \<Rightarrow> blk option) \<Rightarrow> int \<Rightarrow> blk option" where
  "relink_map nxt p m = (case nxt of None \<Rightarrow> m | Some n \<Rightarrow>
     (case m n of None \<Rightarrow> m | Some b \<Rightarrow> m(n \<mapsto> Blk (bsz b) (bnext b) (Some p) (bfree b))))"

lemma relink_map_apply:
  "relink_map nxt p m x = (if nxt = Some x then map_option (\<lambda>b. Blk (bsz b) (bnext b) (Some p) (bfree b)) (m x) else m x)"
  by (auto simp: relink_map_def split: option.splits)

definition split_map :: "int \<Rightarrow> int \<Rightarrow> (int \<Rightarrow> blk option) \<Rightarrow> int \<Rightarrow> blk option" where
  "split_map a n m = (case m a of None \<Rightarrow> m | Some b \<Rightarrow>
     relink_map (bnext b) (a + n)
       (m(a \<mapsto> Blk n (Some (a + n)) (bprev b) True, a + n \<mapsto> Blk (bsz b - n) (bnext b) (Some a) True)))"

definition mark_map :: "int \<Rightarrow> bool \<Rightarrow> (int \<Rightarrow> blk option) \<Rightarrow> int \<Rightarrow> blk option" where
  "mark_map a f m = (case m a of None \<Rightarrow> m | Some b \<Rightarrow> m(a \<mapsto> Blk (bsz b) (bnext b) (bprev b) f))"

text \<open>Absorbing the right neighbour: one round of the merge loop, with the link of the block
  after it repaired (the code repairs it once, after the last round).\<close>

definition merge_map :: "int \<Rightarrow> (int \<Rightarrow> blk option) \<Rightarrow> int \<Rightarrow> blk option" where
  "merge_map a m = (case m a of None \<Rightarrow> m | Some b \<Rightarrow> (case m (a + bsz b) of None \<Rightarrow> m | Some c \<Rightarrow>
     relink_map (bnext c) a
       (m(a \<mapsto> Blk (bsz b + bsz c) (bnext c) (bprev b) True, a + bsz b := None))))"

lemma tiling_mark:
  assumes t: "tiling N m"
  shows "tiling N (mark_map a f m)"
proof (cases "m a")
  case None
  then show ?thesis using t by (simp add: mark_map_def)
next
  case (Some b)
  let ?m = "m(a \<mapsto> Blk (bsz b) (bnext b) (bprev b) f)"
  have *: "\<exists>c'. ?m x = Some c' \<and> bsz c' = bsz c \<and> bprev c' = bprev c \<and> bnext c' = bnext c" if "m x = Some c" for x c
    using that Some by auto
  have **: "\<exists>c. m x = Some c \<and> bsz c' = bsz c \<and> bprev c' = bprev c \<and> bnext c' = bnext c" if "?m x = Some c'" for x c'
    using that Some by (auto split: if_splits)
  have "block_ok N ?m x c" if x: "?m x = Some c" for x c
  proof -
    from ** [OF x] obtain c' where c': "m x = Some c'" "bsz c = bsz c'" "bprev c = bprev c'" "bnext c = bnext c'"
      by auto
    from tilingD [OF t c'(1)] show ?thesis
      using c' * unfolding block_ok_def by metis
  qed
  moreover have "?m 0 \<noteq> None" using t by (simp add: tiling_def)
  ultimately show ?thesis using Some by (simp add: mark_map_def tiling_def)
qed

lemma block_okI:
  assumes "0 \<le> a" "0 < bsz b" "bnext b = Some (a + bsz b)" "a + bsz b \<le> N"
    and "a + bsz b < N \<Longrightarrow> \<exists>c. m (a + bsz b) = Some c \<and> bprev c = Some a"
    and "a = 0 \<Longrightarrow> bprev b = None"
    and "a \<noteq> 0 \<Longrightarrow> \<exists>p c. bprev b = Some p \<and> m p = Some c \<and> p + bsz c = a"
  shows "block_ok N m a b"
  using assms by (simp add: block_ok_def)

lemma tiling_split:
  assumes t: "tiling N m" and a: "m a = Some b" and n: "0 < n" "n < bsz b"
  shows "tiling N (split_map a n m)"
proof -
  let ?e = "a + bsz b" and ?m = "split_map a n m"
  note ba = tiling_basic [OF t a]
  have mid: "m (a + n) = None" using tiling_inside_None [OF t a] n by simp
  have ma: "?m a = Some (Blk n (Some (a + n)) (bprev b) True)"
    using a ba n by (simp add: split_map_def relink_map_apply)
  have mn: "?m (a + n) = Some (Blk (bsz b - n) (Some ?e) (Some a) True)"
    using a ba n by (simp add: split_map_def relink_map_apply)
  have me: "?m ?e = map_option (\<lambda>c. Blk (bsz c) (bnext c) (Some (a + n)) (bfree c)) (m ?e)"
    using a ba n by (simp add: split_map_def relink_map_apply)
  have mx: "?m x = m x" if "x \<noteq> a" "x \<noteq> a + n" "x \<noteq> ?e" for x
    using a ba that by (simp add: split_map_def relink_map_apply)
  have keeps: "\<exists>c'. ?m x = Some c' \<and> bsz c' = bsz c" if "m x = Some c" "x \<noteq> a" for x c
    using that mid me mx by (cases "x = a + n"; cases "x = ?e") auto
  have "block_ok N ?m x d" if x: "?m x = Some d" for x d
  proof -
    consider "x = a" | "x = a + n" | "x = ?e" | "x \<noteq> a" "x \<noteq> a + n" "x \<noteq> ?e" by blast
    then show ?thesis
    proof cases
      case 1
      then have d: "d = Blk n (Some (a + n)) (bprev b) True" using x ma by simp
      show ?thesis unfolding 1
      proof (rule block_okI)
        assume "a \<noteq> 0"
        then obtain p c where p: "bprev b = Some p" "m p = Some c" "p + bsz c = a"
          by (rule tiling_prev [OF t a])
        then have "p \<noteq> a" using tiling_basic(2) [OF t p(2)] by auto
        with keeps [OF p(2)] p d show "\<exists>p c. bprev d = Some p \<and> ?m p = Some c \<and> p + bsz c = a" by auto
      next
        assume "a = 0"
        then show "bprev d = None" using tilingD [OF t a] d by (simp add: block_ok_def)
      qed (use d ba n mn in auto)
    next
      case 2
      then have d: "d = Blk (bsz b - n) (Some ?e) (Some a) True" using x mn by simp
      show ?thesis unfolding 2
      proof (rule block_okI)
        assume "a + n + bsz d < N"
        then have "?e < N" using d by simp
        then obtain c where "m ?e = Some c" by (rule tiling_next [OF t a])
        then show "\<exists>c. ?m (a + n + bsz d) = Some c \<and> bprev c = Some (a + n)" using me d by simp
      qed (use d ba n ma in auto)
    next
      case 3
      then obtain c where c: "m ?e = Some c" and d: "d = Blk (bsz c) (bnext c) (Some (a + n)) (bfree c)"
        using x me by auto
      note ca = tiling_basic [OF t c]
      show ?thesis unfolding 3
      proof (rule block_okI)
        assume lt: "?e + bsz d < N"
        then obtain c' where c': "m (?e + bsz c) = Some c'" "bprev c' = Some ?e"
          using tiling_next [OF t c] d by auto
        with lt d n ba ca mx [of "?e + bsz c"] show "\<exists>c. ?m (?e + bsz d) = Some c \<and> bprev c = Some ?e"
          by auto
      qed (use d ba ca n mn in auto)
    next
      case 4
      then have d: "m x = Some d" using mx x by simp
      note da = tiling_basic [OF t d]
      show ?thesis
      proof (rule block_okI)
        assume "x + bsz d < N"
        then obtain c where c: "m (x + bsz d) = Some c" "bprev c = Some x"
          by (rule tiling_next [OF t d])
        have "x + bsz d \<noteq> a + n" using c(1) mid by auto
        moreover have "x + bsz d \<noteq> ?e"
        proof
          assume e: "x + bsz d = ?e"
          then have "?e < N" using \<open>x + bsz d < N\<close> by simp
          then obtain c' where "m ?e = Some c'" "bprev c' = Some a" by (rule tiling_next [OF t a])
          then show False using c e 4(1) by simp
        qed
        moreover have "c = b" if "x + bsz d = a" using that c(1) a by simp
        ultimately show "\<exists>c. ?m (x + bsz d) = Some c \<and> bprev c = Some x"
          using c ma mx by (cases "x + bsz d = a") auto
      next
        assume "x \<noteq> 0"
        then obtain p c where p: "bprev d = Some p" "m p = Some c" "p + bsz c = x"
          by (rule tiling_prev [OF t d])
        have "p \<noteq> a" using p a 4(3) by auto
        with keeps [OF p(2)] p show "\<exists>p c. bprev d = Some p \<and> ?m p = Some c \<and> p + bsz c = x" by auto
      next
        assume "x = 0"
        then show "bprev d = None" using tilingD [OF t d] by (simp add: block_ok_def)
      qed (use da in auto)
    qed
  qed
  moreover have "?m 0 \<noteq> None"
  proof (cases "a = 0")
    case False
    obtain b0 where "m 0 = Some b0" using t by (auto simp: tiling_def)
    then show ?thesis using keeps [of 0 b0] False by auto
  qed (use ma in simp)
  ultimately show ?thesis by (simp add: tiling_def)
qed

lemma tiling_merge:
  assumes t: "tiling N m" and a: "m a = Some b" and e: "m (a + bsz b) = Some c"
  shows "tiling N (merge_map a m)"
proof -
  let ?e = "a + bsz b" and ?m = "merge_map a m"
  let ?e2 = "?e + bsz c"
  note ba = tiling_basic [OF t a] and ca = tiling_basic [OF t e]
  have ma: "?m a = Some (Blk (bsz b + bsz c) (Some ?e2) (bprev b) True)"
    using a e ba ca by (simp add: merge_map_def relink_map_apply)
  have me: "?m ?e = None"
    using a e ba ca by (simp add: merge_map_def relink_map_apply)
  have me2: "?m ?e2 = map_option (\<lambda>d. Blk (bsz d) (bnext d) (Some a) (bfree d)) (m ?e2)"
    using a e ba ca by (simp add: merge_map_def relink_map_apply)
  have mx: "?m x = m x" if "x \<noteq> a" "x \<noteq> ?e" "x \<noteq> ?e2" for x
    using a e ca that by (simp add: merge_map_def relink_map_apply)
  have cprev: "bprev c = Some a"
    using tiling_next [OF t a] e ca by (metis less_add_same_cancel1 linorder_not_le option.inject order_le_less_trans)
  have keeps: "\<exists>d'. ?m x = Some d' \<and> bsz d' = bsz d" if "m x = Some d" "x \<noteq> a" "x \<noteq> ?e" for x d
    using that me2 mx by (cases "x = ?e2") auto
  have "block_ok N ?m x d" if x: "?m x = Some d" for x d
  proof -
    consider "x = a" | "x = ?e2" | "x \<noteq> a" "x \<noteq> ?e" "x \<noteq> ?e2" using me x by force
    then show ?thesis
    proof cases
      case 1
      then have d: "d = Blk (bsz b + bsz c) (Some ?e2) (bprev b) True" using x ma by simp
      show ?thesis unfolding 1
      proof (rule block_okI)
        assume "a + bsz d < N"
        then have "?e2 < N" using d by (simp add: add.assoc)
        then obtain c' where "m ?e2 = Some c'" by (rule tiling_next [OF t e])
        then show "\<exists>c. ?m (a + bsz d) = Some c \<and> bprev c = Some a"
          using me2 d by (simp add: add.assoc)
      next
        assume "a \<noteq> 0"
        then obtain p c' where p: "bprev b = Some p" "m p = Some c'" "p + bsz c' = a"
          by (rule tiling_prev [OF t a])
        have "p < a" using tiling_basic(2) [OF t p(2)] p(3) by simp
        then have "p \<noteq> a" "p \<noteq> ?e" using ba by auto
        with keeps [OF p(2)] p d show "\<exists>p c. bprev d = Some p \<and> ?m p = Some c \<and> p + bsz c = a" by auto
      next
        assume "a = 0"
        then show "bprev d = None" using tilingD [OF t a] d by (simp add: block_ok_def)
      qed (use d ba ca in auto)
    next
      case 2
      then obtain c' where c': "m ?e2 = Some c'" and d: "d = Blk (bsz c') (bnext c') (Some a) (bfree c')"
        using x me2 by auto
      note c2 = tiling_basic [OF t c']
      show ?thesis unfolding 2
      proof (rule block_okI)
        assume lt: "?e2 + bsz d < N"
        then obtain c3 where "m (?e2 + bsz c') = Some c3" "bprev c3 = Some ?e2"
          using tiling_next [OF t c'] d by auto
        with lt d ba ca c2 mx [of "?e2 + bsz c'"] show "\<exists>c. ?m (?e2 + bsz d) = Some c \<and> bprev c = Some ?e2"
          by auto
      qed (use d ba ca c2 ma in auto)
    next
      case 3
      then have d: "m x = Some d" using mx x by simp
      note da = tiling_basic [OF t d]
      show ?thesis
      proof (rule block_okI)
        assume "x + bsz d < N"
        then obtain c' where c': "m (x + bsz d) = Some c'" "bprev c' = Some x"
          by (rule tiling_next [OF t d])
        have "x + bsz d \<noteq> ?e" using c' e cprev 3(1) by auto
        moreover have "x + bsz d \<noteq> ?e2"
        proof
          assume e2: "x + bsz d = ?e2"
          then have "?e2 < N" using \<open>x + bsz d < N\<close> by simp
          then obtain c'' where "m ?e2 = Some c''" "bprev c'' = Some ?e" by (rule tiling_next [OF t e])
          then show False using c' e2 3(2) by simp
        qed
        moreover have "c' = b" if "x + bsz d = a" using that c'(1) a by simp
        ultimately show "\<exists>c. ?m (x + bsz d) = Some c \<and> bprev c = Some x"
          using c' ma mx by (cases "x + bsz d = a") auto
      next
        assume "x \<noteq> 0"
        then obtain p c' where p: "bprev d = Some p" "m p = Some c'" "p + bsz c' = x"
          by (rule tiling_prev [OF t d])
        have "p \<noteq> a" using p a 3(2) by auto
        moreover have "p \<noteq> ?e" using p e 3(3) by auto
        ultimately show "\<exists>p c. bprev d = Some p \<and> ?m p = Some c \<and> p + bsz c = x"
          using keeps [OF p(2)] p by auto
      next
        assume "x = 0"
        then show "bprev d = None" using tilingD [OF t d] by (simp add: block_ok_def)
      qed (use da in auto)
    qed
  qed
  moreover have "?m 0 \<noteq> None"
  proof (cases "a = 0")
    case False
    obtain b0 where "m 0 = Some b0" using t by (auto simp: tiling_def)
    moreover have "?e \<noteq> 0" using ba by simp
    ultimately show ?thesis using keeps [of 0 b0] False by auto
  qed (use ma in simp)
  ultimately show ?thesis by (simp add: tiling_def)
qed

section \<open>Allocated blocks, coalescing\<close>

text \<open>What the client sees: the allocated blocks with their sizes.\<close>

definition allocated :: "(int \<Rightarrow> blk option) \<Rightarrow> int \<Rightarrow> int option" where
  "allocated m a = (case m a of None \<Rightarrow> None | Some b \<Rightarrow> if bfree b then None else Some (bsz b))"

definition free_at :: "(int \<Rightarrow> blk option) \<Rightarrow> int \<Rightarrow> int \<Rightarrow> bool" where
  "free_at m a z \<longleftrightarrow> (\<exists>b. m a = Some b \<and> bfree b \<and> bsz b = z)"

text \<open>No two adjacent free blocks, but for pairs that start in \<open>X\<close>.\<close>

definition coalesced :: "int set \<Rightarrow> (int \<Rightarrow> blk option) \<Rightarrow> bool" where
  "coalesced X m \<longleftrightarrow> (\<forall>a z z'. free_at m a z \<longrightarrow> free_at m (a + z) z' \<longrightarrow> a \<in> X)"

lemma allocated_Some: "allocated m a = Some z \<longleftrightarrow> (\<exists>b. m a = Some b \<and> \<not> bfree b \<and> bsz b = z)"
  by (auto simp: allocated_def split: option.splits)

lemma coalescedD: "coalesced X m \<Longrightarrow> free_at m a z \<Longrightarrow> free_at m (a + z) z' \<Longrightarrow> a \<in> X"
  unfolding coalesced_def by blast

lemma allocated_disjoint:
  assumes "tiling N m" "allocated m a = Some za" "allocated m b = Some zb" "a \<noteq> b"
  shows "{a..<a + za} \<inter> {b..<b + zb} = {}"
  using assms tiling_disjoint by (fastforce simp: allocated_Some)

lemma allocated_in_range:
  assumes "tiling N m" "allocated m a = Some z"
  shows "0 \<le> a" "0 < z" "a + z \<le> N"
  using assms tiling_basic by (force simp: allocated_Some)+

text \<open>When nothing is allocated and nothing is left uncoalesced, one block covers everything.\<close>

lemma all_free_one_block:
  assumes t: "tiling N m" and c: "coalesced {} m" and none: "allocated m = Map.empty"
  shows "m = [0 \<mapsto> Blk N (Some N) None True]"
proof -
  have fr: "bfree b" if "m a = Some b" for a b
    using that none by (metis allocated_Some option.distinct(1))
  obtain b0 where b0: "m 0 = Some b0" using t by (auto simp: tiling_def)
  have "bsz b0 = N"
  proof (rule ccontr)
    assume "bsz b0 \<noteq> N"
    then have "0 + bsz b0 < N" using tiling_basic(3) [OF t b0] by simp
    then obtain c' where "m (0 + bsz b0) = Some c'" by (rule tiling_next [OF t b0])
    then have "free_at m 0 (bsz b0)" "free_at m (0 + bsz b0) (bsz c')"
      using b0 fr by (auto simp: free_at_def)
    then show False using coalescedD [OF c] by blast
  qed
  then have b0': "b0 = Blk N (Some N) None True"
    using tilingD [OF t b0] fr [OF b0] by (cases b0) (simp add: block_ok_def)
  have "m x = None" if "x \<noteq> 0" for x
  proof (cases "m x")
    case (Some d)
    then have "0 < x" "x < N" using tiling_basic [OF t Some] that by auto
    then show ?thesis using tiling_inside_None [OF t b0, of x] b0' by simp
  qed
  then show ?thesis using b0 b0' by auto
qed

lemma split_map_apply:
  assumes t: "tiling N m" and a: "m a = Some b" and n: "0 < n" "n < bsz b"
  shows "split_map a n m x =
    (if x = a then Some (Blk n (Some (a + n)) (bprev b) True)
     else if x = a + n then Some (Blk (bsz b - n) (bnext b) (Some a) True)
     else if x = a + bsz b then map_option (\<lambda>c. Blk (bsz c) (bnext c) (Some (a + n)) (bfree c)) (m x)
     else m x)"
  using tiling_basic [OF t a] a n by (simp add: split_map_def relink_map_apply)

lemma free_at_split:
  assumes t: "tiling N m" and a: "m a = Some b" and n: "0 < n" "n < bsz b"
  shows "free_at (split_map a n m) x z \<longleftrightarrow>
    (if x = a then z = n else if x = a + n then z = bsz b - n else free_at m x z)"
  using assms by (auto simp: free_at_def split_map_apply)

lemma allocated_split:
  assumes t: "tiling N m" and a: "m a = Some b" "bfree b" and n: "0 < n" "n < bsz b"
  shows "allocated (split_map a n m) = allocated m"
proof
  fix x
  have "m (a + n) = None" using tiling_inside_None [OF t a(1)] n by simp
  then show "allocated (split_map a n m) x = allocated m x"
    using split_map_apply [OF t a(1) n, of x] a
    by (auto simp: allocated_def split: option.splits)
qed

lemma coalesced_split:
  assumes t: "tiling N m" and a: "m a = Some b" "bfree b" and n: "0 < n" "n < bsz b"
    and c: "coalesced X m" and X: "a \<notin> X"
  shows "coalesced (insert a X) (split_map a n m)"
  unfolding coalesced_def
proof (intro allI impI)
  fix x z z'
  assume x: "free_at (split_map a n m) x z" and y: "free_at (split_map a n m) (x + z) z'"
  have mid: "m (a + n) = None" using tiling_inside_None [OF t a(1)] n by simp
  have fa: "free_at m a (bsz b)" using a by (auto simp: free_at_def)
  consider "x = a" | "x = a + n" | "x \<noteq> a" "x \<noteq> a + n" by blast
  then show "x \<in> insert a X"
  proof cases
    case 2
    then have z: "z = bsz b - n" using x n by (simp add: free_at_split [OF t a(1) n])
    then have "free_at m (a + bsz b) z'"
      using y 2 n tiling_basic [OF t a(1)] by (simp add: free_at_split [OF t a(1) n])
    then show ?thesis using coalescedD [OF c fa] X by blast
  next
    case 3
    then have x': "free_at m x z" using x by (simp add: free_at_split [OF t a(1) n])
    then obtain d where d: "m x = Some d" "bsz d = z" by (auto simp: free_at_def)
    have "\<exists>z''. free_at m (x + z) z''"
    proof (cases "x + z = a + n")
      case True
      have "x < a \<Longrightarrow> x + z \<le> a" using tiling_ordered [OF t d(1) a(1)] d(2) by simp
      moreover have "a < x \<Longrightarrow> a + bsz b \<le> x" using tiling_ordered [OF t a(1) d(1)] by simp
      ultimately show ?thesis using True n 3(1) tiling_basic(2) [OF t d(1)] d(2) by linarith
    qed (use y fa in \<open>auto simp: free_at_split [OF t a(1) n] split: if_splits\<close>)
    then show ?thesis using coalescedD [OF c x'] by blast
  qed simp
qed

lemma mark_map_apply:
  "m a = Some b \<Longrightarrow> mark_map a f m x = (if x = a then Some (Blk (bsz b) (bnext b) (bprev b) f) else m x)"
  by (simp add: mark_map_def)

lemma allocated_mark_used: "m a = Some b \<Longrightarrow> allocated (mark_map a False m) = (allocated m)(a \<mapsto> bsz b)"
  by (rule ext) (auto simp: allocated_def mark_map_apply)

lemma allocated_mark_free: "m a = Some b \<Longrightarrow> allocated (mark_map a True m) = (allocated m)(a := None)"
  by (rule ext) (auto simp: allocated_def mark_map_apply)

lemma free_at_mark:
  "m a = Some b \<Longrightarrow> free_at (mark_map a f m) x z \<longleftrightarrow> (if x = a then f \<and> z = bsz b else free_at m x z)"
  by (auto simp: free_at_def mark_map_apply)

lemma coalesced_mark_used:
  assumes a: "m a = Some b" and c: "coalesced X m"
    and X: "\<And>x z. x \<in> X \<Longrightarrow> x \<noteq> a \<Longrightarrow> free_at m x z \<Longrightarrow> x + z = a"
  shows "coalesced {} (mark_map a False m)"
  unfolding coalesced_def
proof (intro allI impI)
  fix x z z'
  assume x: "free_at (mark_map a False m) x z" and y: "free_at (mark_map a False m) (x + z) z'"
  then have "x \<noteq> a" "x + z \<noteq> a" "free_at m x z" "free_at m (x + z) z'"
    by (auto simp: free_at_mark [of m a b, OF a] split: if_splits)
  then show "x \<in> {}" using coalescedD [OF c] X by blast
qed

lemma coalesced_mark_free:
  assumes t: "tiling N m" and a: "m a = Some b" and c: "coalesced {} m"
  shows "coalesced (insert a {p. bprev b = Some p}) (mark_map a True m)"
  unfolding coalesced_def
proof (intro allI impI)
  fix x z z'
  assume x: "free_at (mark_map a True m) x z" and y: "free_at (mark_map a True m) (x + z) z'"
  show "x \<in> insert a {p. bprev b = Some p}"
  proof (cases "x = a")
    case False
    then have x': "free_at m x z" using x by (simp add: free_at_mark [of m a b, OF a])
    have "x + z = a" using y coalescedD [OF c x'] by (auto simp: free_at_mark [of m a b, OF a] split: if_splits)
    moreover obtain d where d: "m x = Some d" "bsz d = z" using x' by (auto simp: free_at_def)
    ultimately have "bprev b = Some x"
      using tiling_next [OF t d(1)] a tiling_basic(2,3) [OF t a]
      by (metis add_less_cancel_left less_add_same_cancel1 option.inject order_less_le_trans)
    then show ?thesis by simp
  qed simp
qed

lemma merge_map_apply:
  assumes t: "tiling N m" and a: "m a = Some b" and e: "m (a + bsz b) = Some c"
  shows "merge_map a m x =
    (if x = a then Some (Blk (bsz b + bsz c) (bnext c) (bprev b) True)
     else if x = a + bsz b then None
     else if x = a + bsz b + bsz c then map_option (\<lambda>d. Blk (bsz d) (bnext d) (Some a) (bfree d)) (m x)
     else m x)"
  using tiling_basic [OF t a] tiling_basic [OF t e] a e
  by (simp add: merge_map_def relink_map_apply)

lemma allocated_merge:
  assumes t: "tiling N m" and a: "m a = Some b" "bfree b" and e: "m (a + bsz b) = Some c" "bfree c"
  shows "allocated (merge_map a m) = allocated m"
  by (rule ext) (use merge_map_apply [OF t a(1) e(1)] a e in \<open>auto simp: allocated_def split: option.splits\<close>)

lemma free_at_merge:
  assumes t: "tiling N m" and a: "m a = Some b" and e: "m (a + bsz b) = Some c"
  shows "free_at (merge_map a m) x z \<longleftrightarrow>
    (if x = a then z = bsz b + bsz c else x \<noteq> a + bsz b \<and> free_at m x z)"
  using merge_map_apply [OF t a e] by (auto simp: free_at_def)

lemma coalesced_merge:
  assumes t: "tiling N m" and a: "m a = Some b" "bfree b" and e: "m (a + bsz b) = Some c" "bfree c"
    and co: "coalesced {a, a + bsz b} m"
  shows "coalesced {a} (merge_map a m)"
  unfolding coalesced_def
proof (intro allI impI)
  fix x z z'
  assume x: "free_at (merge_map a m) x z" and y: "free_at (merge_map a m) (x + z) z'"
  note fm = free_at_merge [OF t a(1) e(1)]
  show "x \<in> {a}"
  proof (rule ccontr)
    assume "x \<notin> {a}"
    then have x': "x \<noteq> a" "x \<noteq> a + bsz b" "free_at m x z" using x by (simp_all add: fm)
    have "\<exists>z''. free_at m (x + z) z''"
    proof (cases "x + z = a")
      case True
      then show ?thesis using a by (auto simp: free_at_def)
    next
      case False
      then show ?thesis using y by (auto simp: fm)
    qed
    then show False using coalescedD [OF co x'(3)] x'(1,2) by blast
  qed
qed

end
