(* ===== verification/Tlsf.thy ===== *)
theory Tlsf
  imports Tiling
begin

text \<open>
  The allocators of \<open>tinygrad/runtime/support/memory.py\<close>: the bump allocator and the two-level
  segregated-fit allocator \<open>TLSFAllocator\<close>, from which the memory manager takes physical and
  virtual ranges and the scheduler's memory planner takes arena offsets.

  The state keeps the fields of the Python object: \<open>blocks\<close> is the dictionary from a start
  address to \<open>(sz, next, prev, is_free)\<close>, \<open>storage\<close> the list of default dictionaries of free
  lists and \<open>lv1_entries\<close> the counters per first level.  The two loops of a deallocation take
  as fuel the number of blocks plus one; \<open>tlsf_free_ok\<close> shows that it suffices.
\<close>

section \<open>The bump allocator\<close>

record bump =
  bp_size :: int
  bp_ptr :: int
  bp_base :: int
  bp_wrap :: bool
  bp_wraps :: int

definition bump_init :: "int \<Rightarrow> int \<Rightarrow> bool \<Rightarrow> bump" where
  "bump_init sz base wrap = \<lparr>bp_size = sz, bp_ptr = 0, bp_base = base, bp_wrap = wrap, bp_wraps = 0\<rparr>"

definition bump_alloc :: "bump \<Rightarrow> int \<Rightarrow> int \<Rightarrow> (int \<times> bump) result" where
  "bump_alloc b sz alignment =
    rbind (py_round_up (bp_ptr b) alignment) (\<lambda>p.
    rbind (if p + sz > bp_size b
           then (if \<not> bp_wrap b then Inl RuntimeError
                 else Inr (b\<lparr>bp_ptr := 0, bp_wraps := bp_wraps b + 1\<rparr>))
           else Inr b) (\<lambda>b.
    let res = round_up (bp_ptr b) alignment in Inr (res + bp_base b, b\<lparr>bp_ptr := res + sz\<rparr>)))"

definition bump_inv :: "bump \<Rightarrow> bool" where
  "bump_inv b \<longleftrightarrow> 0 \<le> bp_ptr b \<and> bp_ptr b \<le> bp_size b"

section \<open>The segregated-fit allocator\<close>

record tlsf =
  t_size :: int
  t_base :: int
  t_block_size :: int
  t_l2_cnt :: nat
  storage :: "(int \<Rightarrow> int list) list"
  lv1_entries :: "int list"
  blocks :: "(int, blk) dict"

abbreviation bmap :: "tlsf \<Rightarrow> int \<Rightarrow> blk option" where
  "bmap s \<equiv> map_of (blocks s)"

definition lv1 :: "int \<Rightarrow> nat" where
  "lv1 sz = bit_length sz"

text \<open>\<open>1 << (size.bit_length() - 1)\<close> raises for size zero.\<close>

definition lv2_of :: "nat \<Rightarrow> int \<Rightarrow> int" where
  "lv2_of c sz = (sz - 2 ^ (bit_length sz - 1)) div 2 ^ (bit_length sz - c)"

definition lv2 :: "tlsf \<Rightarrow> int \<Rightarrow> int result" where
  "lv2 s sz = (if sz = 0 then Inl ValueError else Inr (lv2_of (t_l2_cnt s) sz))"

definition prev_arg :: "tlsf \<Rightarrow> int \<Rightarrow> int option \<Rightarrow> int option result" where
  "prev_arg s start prev = (case prev of Some p \<Rightarrow> Inr (Some p)
     | None \<Rightarrow> rbind (dget (blocks s) start) (\<lambda>b. Inr (bprev b)))"

definition insert_block :: "tlsf \<Rightarrow> int \<Rightarrow> int \<Rightarrow> int option \<Rightarrow> tlsf result" where
  "insert_block s start sz prev =
    rbind (prev_arg s start prev) (\<lambda>pv.
    rbind (lget (storage s) (lv1 sz)) (\<lambda>row.
    rbind (lv2 s sz) (\<lambda>k.
    rbind (lget (lv1_entries s) (lv1 sz)) (\<lambda>cnt.
    Inr (s\<lparr>storage := (storage s)[lv1 sz := row(k := row k @ [start])],
           lv1_entries := (lv1_entries s)[lv1 sz := cnt + 1],
           blocks := dset start (Blk sz (Some (start + sz)) pv True) (blocks s)\<rparr>)))))"

definition remove_block :: "tlsf \<Rightarrow> int \<Rightarrow> int \<Rightarrow> int option \<Rightarrow> tlsf result" where
  "remove_block s start sz prev =
    rbind (prev_arg s start prev) (\<lambda>pv.
    rbind (lget (storage s) (lv1 sz)) (\<lambda>row.
    rbind (lv2 s sz) (\<lambda>k.
    rbind (rguard (start \<in> set (row k)) ValueError) (\<lambda>_.
    rbind (lget (lv1_entries s) (lv1 sz)) (\<lambda>cnt.
    Inr (s\<lparr>storage := (storage s)[lv1 sz := row(k := remove1 start (row k))],
           lv1_entries := (lv1_entries s)[lv1 sz := cnt - 1],
           blocks := dset start (Blk sz (Some (start + sz)) pv False) (blocks s)\<rparr>))))))"

text \<open>\<open>if nxt in self.blocks: self.blocks[nxt] = (.., .., p, ..)\<close>\<close>

definition relink :: "tlsf \<Rightarrow> int option \<Rightarrow> int \<Rightarrow> tlsf" where
  "relink s nxt p = (case nxt of None \<Rightarrow> s | Some n \<Rightarrow>
     (case bmap s n of None \<Rightarrow> s
      | Some b \<Rightarrow> s\<lparr>blocks := dset n (Blk (bsz b) (bnext b) (Some p) (bfree b)) (blocks s)\<rparr>))"

definition split_block :: "tlsf \<Rightarrow> int \<Rightarrow> int \<Rightarrow> int \<Rightarrow> tlsf result" where
  "split_block s start sz new_size =
    rbind (dget (blocks s) start) (\<lambda>b.
    let nxt = bnext b in
    rbind (rguard (bfree b) AssertionError) (\<lambda>_.
    rbind (remove_block s start sz None) (\<lambda>s.
    rbind (insert_block s start new_size None) (\<lambda>s.
    rbind (insert_block s (start + new_size) (sz - new_size) (Some start)) (\<lambda>s.
    Inr (relink s nxt (start + new_size)))))))"

fun merge_loop :: "nat \<Rightarrow> tlsf \<Rightarrow> int \<Rightarrow> int \<Rightarrow> int option \<Rightarrow> (tlsf \<times> int option) result" where
  "merge_loop 0 s start sz nxt = Inl Diverges"
| "merge_loop (Suc fuel) s start sz nxt =
    (case nxt of None \<Rightarrow> Inr (s, nxt) | Some n \<Rightarrow>
      (case bmap s n of None \<Rightarrow> Inr (s, nxt) | Some b \<Rightarrow>
        if \<not> bfree b then Inr (s, nxt) else
        rbind (remove_block s start sz None) (\<lambda>s.
        rbind (remove_block s n (bsz b) None) (\<lambda>s.
        rbind (insert_block s start (sz + bsz b) None) (\<lambda>s.
        rbind (dget (blocks s) start) (\<lambda>b1.
        rbind (rguard (bnext b1 = bnext b) AssertionError) (\<lambda>_.
        rbind (dget (blocks s) n) (\<lambda>b2.
        merge_loop fuel (s\<lparr>blocks := ddel n (blocks s)\<rparr>) start (sz + bsz b) (bnext b2)))))))))"

definition merge_right :: "tlsf \<Rightarrow> int \<Rightarrow> tlsf result" where
  "merge_right s start =
    rbind (dget (blocks s) start) (\<lambda>b.
    rbind (rguard (bfree b) AssertionError) (\<lambda>_.
    rbind (merge_loop (Suc (length (blocks s))) s start (bsz b) (bnext b)) (\<lambda>(s, nxt).
    Inr (relink s nxt start))))"

fun go_left :: "nat \<Rightarrow> tlsf \<Rightarrow> int \<Rightarrow> int result" where
  "go_left 0 s start = Inl Diverges"
| "go_left (Suc fuel) s start =
    rbind (dget (blocks s) start) (\<lambda>b.
    case bprev b of None \<Rightarrow> Inr start
    | Some x \<Rightarrow> rbind (dget (blocks s) x) (\<lambda>c.
        if bfree c then go_left fuel s x else Inr start))"

definition merge_block :: "tlsf \<Rightarrow> int \<Rightarrow> tlsf result" where
  "merge_block s start = rbind (go_left (Suc (length (blocks s))) s start) (merge_right s)"

fun find_fit :: "tlsf \<Rightarrow> int \<Rightarrow> nat list \<Rightarrow> (nat \<times> int) option result" where
  "find_fit s sz [] = Inr None"
| "find_fit s sz (l1 # ls) =
    rbind (lget (lv1_entries s) l1) (\<lambda>cnt.
    if cnt = 0 then find_fit s sz ls else
    rbind (if l1 = bit_length sz then lv2 s sz else Inr 0) (\<lambda>k.
    rbind (lget (storage s) l1) (\<lambda>row.
    case List.find (\<lambda>l2. row l2 \<noteq> []) [k..2 ^ t_l2_cnt s - 1] of
      Some l2 \<Rightarrow> Inr (Some (l1, l2))
    | None \<Rightarrow> find_fit s sz ls)))"

text \<open>The size searched for: \<open>1 << (bits - l2_cnt)\<close> raises for a negative shift.\<close>

definition rounded_size :: "tlsf \<Rightarrow> int \<Rightarrow> int \<Rightarrow> int result" where
  "rounded_size s req align =
    (let sz = max (t_block_size s) (req + align - 1) in
     if bit_length sz < t_l2_cnt s then Inl ValueError
     else Inr (round_up sz (2 ^ (bit_length sz - t_l2_cnt s))))"

definition tlsf_alloc :: "tlsf \<Rightarrow> int \<Rightarrow> int \<Rightarrow> (int \<times> tlsf) result" where
  "tlsf_alloc s req_size align =
    (let req = max (t_block_size s) req_size in
    rbind (rounded_size s req align) (\<lambda>sz.
    rbind (find_fit s sz [lv1 sz..<length (storage s)]) (\<lambda>found.
    case found of None \<Rightarrow> Inl MemoryError
    | Some (l1, l2) \<Rightarrow>
      let start = hd ((storage s ! l1) l2) in
      rbind (dget (blocks s) start) (\<lambda>b.
      let nsize = bsz b in
      rbind (rguard (sz \<le> nsize) AssertionError) (\<lambda>_.
      rbind (py_round_up start align) (\<lambda>new_start.
      rbind (if new_start \<noteq> start
             then rbind (split_block s start nsize (new_start - start)) (\<lambda>s.
                  rbind (dget (blocks s) new_start) (\<lambda>c. Inr (s, new_start, bsz c)))
             else Inr (s, start, nsize)) (\<lambda>(s, start, nsize).
      rbind (if req < nsize then split_block s start nsize req else Inr s) (\<lambda>s.
      rbind (remove_block s start req None) (\<lambda>s.
      Inr (start + t_base s, s)))))))))) "

definition tlsf_free :: "tlsf \<Rightarrow> int \<Rightarrow> tlsf result" where
  "tlsf_free s start =
    rbind (dget (blocks s) (start - t_base s)) (\<lambda>b.
    rbind (insert_block s (start - t_base s) (bsz b) None) (\<lambda>s.
    merge_block s (start - t_base s)))"

definition tlsf_init :: "int \<Rightarrow> int \<Rightarrow> int \<Rightarrow> int \<Rightarrow> tlsf result" where
  "tlsf_init sz base block_size lv2_cnt =
    (let s = \<lparr>t_size = sz, t_base = base, t_block_size = block_size, t_l2_cnt = bit_length lv2_cnt,
              storage = replicate (bit_length sz + 1) (\<lambda>_. []),
              lv1_entries = replicate (bit_length sz + 1) 0,
              blocks = [(0, Blk sz None None True)]\<rparr>
     in if 0 < sz then insert_block s 0 sz None else Inr s)"

end
