(* ===== verification/TlsfLists.thy ===== *)
theory TlsfLists
  imports Tlsf
begin

text \<open>
  The free lists and counters of \<open>TLSFAllocator\<close> against its dictionary of blocks: every
  free block is in the list of its size class exactly once and nothing else is, and the counter
  of a first level is the number of its free blocks.  One preservation lemma per operation.
\<close>

definition class_of :: "nat \<Rightarrow> (int \<Rightarrow> blk option) \<Rightarrow> nat \<Rightarrow> int \<Rightarrow> int set" where
  "class_of c m l k = {a. \<exists>z. free_at m a z \<and> bit_length z = l \<and> lv2_of c z = k}"

definition level_of :: "(int \<Rightarrow> blk option) \<Rightarrow> nat \<Rightarrow> int set" where
  "level_of m l = {a. \<exists>z. free_at m a z \<and> bit_length z = l}"

definition lists_ok :: "tlsf \<Rightarrow> bool" where
  "lists_ok s \<longleftrightarrow> length (lv1_entries s) = length (storage s) \<and>
    (\<forall>a z. free_at (bmap s) a z \<longrightarrow> 0 < z \<and> bit_length z < length (storage s)) \<and>
    (\<forall>l k. l < length (storage s) \<longrightarrow> distinct ((storage s ! l) k) \<and>
        set ((storage s ! l) k) = class_of (t_l2_cnt s) (bmap s) l k) \<and>
    (\<forall>l < length (storage s). lv1_entries s ! l = int (card (level_of (bmap s) l)))"

definition same_cfg :: "tlsf \<Rightarrow> tlsf \<Rightarrow> bool" where
  "same_cfg s t \<longleftrightarrow> t_size t = t_size s \<and> t_base t = t_base s \<and> t_block_size t = t_block_size s \<and>
     t_l2_cnt t = t_l2_cnt s \<and> length (storage t) = length (storage s)"

lemma same_cfg_refl [simp]: "same_cfg s s"
  by (simp add: same_cfg_def)

lemma same_cfg_trans: "same_cfg s t \<Longrightarrow> same_cfg t u \<Longrightarrow> same_cfg s u"
  by (simp add: same_cfg_def)

lemma finite_level [simp]: "finite (level_of (bmap s) l)"
proof (rule finite_subset)
  show "level_of (bmap s) l \<subseteq> dom (bmap s)" by (auto simp: level_of_def free_at_def)
qed (rule finite_dom_map_of)

lemma lists_okD:
  assumes "lists_ok s"
  shows "length (lv1_entries s) = length (storage s)"
    and "free_at (bmap s) a z \<Longrightarrow> 0 < z \<and> bit_length z < length (storage s)"
    and "l < length (storage s) \<Longrightarrow> distinct ((storage s ! l) k)"
    and "l < length (storage s) \<Longrightarrow> set ((storage s ! l) k) = class_of (t_l2_cnt s) (bmap s) l k"
    and "l < length (storage s) \<Longrightarrow> lv1_entries s ! l = int (card (level_of (bmap s) l))"
  using assms by (auto simp: lists_ok_def)

lemma lists_ok_cong:
  assumes "lists_ok s" "\<And>a z. free_at (bmap t) a z = free_at (bmap s) a z"
    "storage t = storage s" "lv1_entries t = lv1_entries s" "t_l2_cnt t = t_l2_cnt s"
  shows "lists_ok t"
  using assms by (simp add: lists_ok_def class_of_def level_of_def)

lemma free_at_fun: "free_at m a z \<Longrightarrow> free_at m a z' \<Longrightarrow> z = z'"
  by (auto simp: free_at_def)

lemma prev_arg_None: "bmap s a = Some b \<Longrightarrow> prev_arg s a None = Inr (bprev b)"
  by (simp add: prev_arg_def)

lemma insert_block_ok:
  assumes ok: "lists_ok s" and sz: "0 < sz" "bit_length sz < length (storage s)"
    and nf: "\<And>z. \<not> free_at (bmap s) a z" and pv: "prev_arg s a prev = Inr pv"
  shows "\<exists>s'. insert_block s a sz prev = Inr s' \<and> lists_ok s' \<and> same_cfg s s' \<and>
    bmap s' = (bmap s)(a \<mapsto> Blk sz (Some (a + sz)) pv True)"
proof -
  let ?l = "bit_length sz" and ?c = "t_l2_cnt s"
  let ?k = "lv2_of ?c sz"
  let ?row = "storage s ! ?l"
  let ?s' = "s\<lparr>storage := (storage s)[?l := ?row(?k := ?row ?k @ [a])],
           lv1_entries := (lv1_entries s)[?l := lv1_entries s ! ?l + 1],
           blocks := dset a (Blk sz (Some (a + sz)) pv True) (blocks s)\<rparr>"
  note okD = lists_okD [OF ok]
  have "insert_block s a sz prev = Inr ?s'"
    using sz pv okD(1) by (simp add: insert_block_def lget_def lv1_def lv2_def)
  moreover have m: "bmap ?s' = (bmap s)(a \<mapsto> Blk sz (Some (a + sz)) pv True)" by simp
  have fa: "free_at (bmap ?s') x z \<longleftrightarrow> (if x = a then z = sz else free_at (bmap s) x z)" for x z
    by (auto simp: free_at_def)
  have cl: "class_of ?c (bmap ?s') l k = (if l = ?l \<and> k = ?k then insert a (class_of ?c (bmap s) l k)
      else class_of ?c (bmap s) l k)" for l k
    using nf unfolding class_of_def fa by auto
  have lv: "level_of (bmap ?s') l = (if l = ?l then insert a (level_of (bmap s) l) else level_of (bmap s) l)" for l
    using nf unfolding level_of_def fa by auto
  have na: "a \<notin> class_of ?c (bmap s) l k" "a \<notin> level_of (bmap s) l" for l k
    using nf by (auto simp: class_of_def level_of_def)
  have "lists_ok ?s'"
    unfolding lists_ok_def
  proof (intro conjI allI impI)
    show "length (lv1_entries ?s') = length (storage ?s')" using okD(1) by simp
  next
    fix x z assume "free_at (bmap ?s') x z"
    then show "0 < z" "bit_length z < length (storage ?s')"
      using okD(2) sz unfolding fa by (auto split: if_splits)
  next
    fix l k assume l: "l < length (storage ?s')"
    then show "distinct ((storage ?s' ! l) k)"
      using okD(3,4) [of l k] na(1) [of l k] by (cases "l = ?l"; cases "k = ?k") auto
    show "set ((storage ?s' ! l) k) = class_of (t_l2_cnt ?s') (bmap ?s') l k"
      using l okD(4) [of l k] cl [of l k] by (cases "l = ?l"; cases "k = ?k") auto
  next
    fix l assume l: "l < length (storage ?s')"
    then show "lv1_entries ?s' ! l = int (card (level_of (bmap ?s') l))"
      unfolding lv using okD(1) okD(5) [of l] na(2) by (auto simp: nth_list_update)
  qed
  ultimately show ?thesis by (intro exI [of _ ?s']) (simp add: same_cfg_def)
qed

lemma remove_block_ok:
  assumes ok: "lists_ok s" and b: "bmap s a = Some b" "bfree b" "bsz b = sz"
  shows "\<exists>s'. remove_block s a sz None = Inr s' \<and> lists_ok s' \<and> same_cfg s s' \<and>
    bmap s' = (bmap s)(a \<mapsto> Blk sz (Some (a + sz)) (bprev b) False)"
proof -
  let ?l = "bit_length sz" and ?c = "t_l2_cnt s"
  let ?k = "lv2_of ?c sz"
  let ?row = "storage s ! ?l"
  let ?s' = "s\<lparr>storage := (storage s)[?l := ?row(?k := remove1 a (?row ?k))],
           lv1_entries := (lv1_entries s)[?l := lv1_entries s ! ?l - 1],
           blocks := dset a (Blk sz (Some (a + sz)) (bprev b) False) (blocks s)\<rparr>"
  note okD = lists_okD [OF ok]
  have fab: "free_at (bmap s) a sz" using b by (auto simp: free_at_def)
  note sz = okD(2) [OF fab]
  have ina: "a \<in> class_of ?c (bmap s) ?l ?k" "a \<in> level_of (bmap s) ?l"
    using fab by (auto simp: class_of_def level_of_def)
  then have mem: "a \<in> set (?row ?k)" using okD(4) sz by simp
  have "remove_block s a sz None = Inr ?s'"
    using sz b okD(1) mem by (simp add: remove_block_def lget_def lv1_def lv2_def prev_arg_def)
  moreover have fa: "free_at (bmap ?s') x z \<longleftrightarrow> x \<noteq> a \<and> free_at (bmap s) x z" for x z
    by (auto simp: free_at_def)
  have only: "free_at (bmap s) a z \<Longrightarrow> z = sz" for z using free_at_fun [OF fab] by blast
  have cl: "class_of ?c (bmap ?s') l k = (if l = ?l \<and> k = ?k then class_of ?c (bmap s) l k - {a}
      else class_of ?c (bmap s) l k)" for l k
    using only unfolding class_of_def fa by auto
  have lv: "level_of (bmap ?s') l = (if l = ?l then level_of (bmap s) l - {a} else level_of (bmap s) l)" for l
    using only unfolding level_of_def fa by auto
  have "lists_ok ?s'"
    unfolding lists_ok_def
  proof (intro conjI allI impI)
    show "length (lv1_entries ?s') = length (storage ?s')" using okD(1) by simp
  next
    fix x z assume "free_at (bmap ?s') x z"
    then show "0 < z" "bit_length z < length (storage ?s')"
      using okD(2) unfolding fa by auto
  next
    fix l k assume l: "l < length (storage ?s')"
    then show "distinct ((storage ?s' ! l) k)"
      using okD(3) [of l k] by (cases "l = ?l"; cases "k = ?k") auto
    show "set ((storage ?s' ! l) k) = class_of (t_l2_cnt ?s') (bmap ?s') l k"
      using l okD(3,4) [of l k] cl [of l k] by (cases "l = ?l"; cases "k = ?k") auto
  next
    fix l assume l: "l < length (storage ?s')"
    show "lv1_entries ?s' ! l = int (card (level_of (bmap ?s') l))"
      unfolding lv using l okD(1) okD(5) [of l] card.remove [OF finite_level ina(2)]
      by (cases "l = ?l") simp_all
  qed
  ultimately show ?thesis by (intro exI [of _ ?s']) (simp add: same_cfg_def)
qed

lemma bmap_relink: "bmap (relink s nxt p) = relink_map nxt p (bmap s)"
  by (auto simp: relink_def relink_map_def split: option.splits)

lemma same_cfg_relink [simp]: "same_cfg s (relink s nxt p)"
  by (auto simp: relink_def same_cfg_def split: option.splits)

lemma lists_ok_relink:
  assumes "lists_ok s"
  shows "lists_ok (relink s nxt p)"
proof (rule lists_ok_cong [OF assms])
  show "free_at (bmap (relink s nxt p)) a z = free_at (bmap s) a z" for a z
    unfolding bmap_relink by (auto simp: free_at_def relink_map_apply)
qed (auto simp: relink_def split: option.splits)

lemma lists_ok_delete:
  assumes "lists_ok s" and "\<And>z. \<not> free_at (bmap s) n z"
  shows "lists_ok (s\<lparr>blocks := ddel n (blocks s)\<rparr>)"
proof (rule lists_ok_cong [OF assms(1)])
  show "free_at (bmap (s\<lparr>blocks := ddel n (blocks s)\<rparr>)) a z = free_at (bmap s) a z" for a z
    using assms(2) by (auto simp: free_at_def)
qed simp_all

end
