(* ===== verification/TlsfCorrect.thy ===== *)
theory TlsfCorrect
  imports TlsfLists
begin

text \<open>
  Correctness of \<open>TLSFAllocator\<close>.  The invariant \<open>tlsf_inv\<close> says that the dictionary of blocks
  tiles the managed range, that the free lists and counters index exactly the free blocks, and
  that no two free blocks are adjacent.  Every operation keeps it; seen through \<open>allocated\<close> an
  allocation adds one aligned block that was free and a deallocation removes one.
\<close>

definition cfg_ok :: "tlsf \<Rightarrow> bool" where
  "cfg_ok s \<longleftrightarrow> 0 < t_size s \<and> 1 \<le> t_l2_cnt s \<and> 1 \<le> t_block_size s \<and>
     t_l2_cnt s \<le> bit_length (t_block_size s) \<and> length (storage s) = bit_length (t_size s) + 1"

definition winv :: "tlsf \<Rightarrow> bool" where
  "winv s \<longleftrightarrow> cfg_ok s \<and> lists_ok s \<and> tiling (t_size s) (bmap s)"

definition tlsf_inv :: "tlsf \<Rightarrow> bool" where
  "tlsf_inv s \<longleftrightarrow> winv s \<and> coalesced {} (bmap s)"

abbreviation allocs :: "tlsf \<Rightarrow> int \<Rightarrow> int option" where
  "allocs s \<equiv> allocated (bmap s)"

lemma cfg_ok_same: "same_cfg s t \<Longrightarrow> cfg_ok s \<Longrightarrow> cfg_ok t"
  by (simp add: same_cfg_def cfg_ok_def)

lemma winvD:
  assumes "winv s"
  shows "cfg_ok s" "lists_ok s" "tiling (t_size s) (bmap s)"
  using assms by (simp_all add: winv_def)

lemma block_bits:
  assumes "winv s" "0 < z" "z \<le> t_size s"
  shows "bit_length z < length (storage s)"
  using assms bit_length_mono [of z "t_size s"] by (simp add: winv_def cfg_ok_def)

lemma split_block_ok:
  assumes w: "winv s" and b: "bmap s a = Some b" "bfree b" and n: "0 < n" "n < bsz b"
  shows "\<exists>s'. split_block s a (bsz b) n = Inr s' \<and> winv s' \<and> same_cfg s s' \<and>
    bmap s' = split_map a n (bmap s)"
proof -
  note t = winvD(3) [OF w]
  note tb = tiling_basic [OF t b(1)]
  obtain s1 where s1: "remove_block s a (bsz b) None = Inr s1" "lists_ok s1" "same_cfg s s1"
      "bmap s1 = (bmap s)(a \<mapsto> Blk (bsz b) (Some (a + bsz b)) (bprev b) False)"
    using remove_block_ok [OF winvD(2) [OF w] b refl] by blast
  have "\<not> free_at (bmap s1) a z" for z using s1(4) by (auto simp: free_at_def)
  moreover have "bit_length n < length (storage s1)"
    using block_bits [OF w n(1)] n(2) tb s1(3) by (simp add: same_cfg_def)
  moreover have "prev_arg s1 a None = Inr (bprev b)" using s1(4) by (simp add: prev_arg_None)
  ultimately obtain s2 where s2: "insert_block s1 a n None = Inr s2" "lists_ok s2" "same_cfg s1 s2"
      "bmap s2 = (bmap s1)(a \<mapsto> Blk n (Some (a + n)) (bprev b) True)"
    using insert_block_ok [OF s1(2) n(1)] by blast
  have mid: "bmap s (a + n) = None" using tiling_inside_None [OF t b(1)] n by simp
  then have "\<not> free_at (bmap s2) (a + n) z" for z using s1(4) s2(4) n by (auto simp: free_at_def)
  moreover have "bit_length (bsz b - n) < length (storage s2)"
    using block_bits [OF w, of "bsz b - n"] n tb s1(3) s2(3) by (simp add: same_cfg_def)
  moreover have "prev_arg s2 (a + n) (Some a) = Inr (Some a)" by (simp add: prev_arg_def)
  ultimately obtain s3 where s3: "insert_block s2 (a + n) (bsz b - n) (Some a) = Inr s3" "lists_ok s3"
      "same_cfg s2 s3" "bmap s3 = (bmap s2)(a + n \<mapsto> Blk (bsz b - n) (Some (a + bsz b)) (Some a) True)"
    using insert_block_ok [OF s2(2), of "bsz b - n"] n by fastforce
  let ?s = "relink s3 (bnext b) (a + n)"
  have "split_block s a (bsz b) n = Inr ?s"
    using b s1(1) s2(1) s3(1) by (simp add: split_block_def)
  moreover have m: "bmap ?s = split_map a n (bmap s)"
    using s1(4) s2(4) s3(4) b tb by (simp add: bmap_relink split_map_def)
  moreover have "same_cfg s ?s"
    using s1(3) s2(3) s3(3) by (blast intro: same_cfg_trans same_cfg_relink)
  moreover have "winv ?s"
    using tiling_split [OF t b(1) n] winvD(1) [OF w] \<open>same_cfg s ?s\<close> lists_ok_relink [OF s3(2)]
    unfolding winv_def m by (simp add: cfg_ok_same same_cfg_def)
  ultimately show ?thesis by blast
qed

section \<open>Deallocation\<close>

text \<open>The state inside the merge loop: the block at \<open>a\<close> is free and ends at \<open>nxt\<close>, whose back
  link may be stale; with that link repaired the dictionary is a tiling.\<close>

definition loop_inv :: "tlsf \<Rightarrow> int \<Rightarrow> int \<Rightarrow> int option \<Rightarrow> bool" where
  "loop_inv s a z nxt \<longleftrightarrow> cfg_ok s \<and> lists_ok s \<and> tiling (t_size s) (relink_map nxt a (bmap s)) \<and>
     (\<exists>b. bmap s a = Some b \<and> bfree b \<and> bsz b = z \<and> bnext b = nxt) \<and>
     coalesced (insert a {n. nxt = Some n}) (bmap s)"

lemma free_at_relink: "free_at (relink_map nxt p m) x z = free_at m x z"
  by (auto simp: free_at_def relink_map_apply)

lemma allocated_relink: "allocated (relink_map nxt p m) = allocated m"
  by (rule ext) (auto simp: allocated_def relink_map_apply split: option.splits)

lemma coalesced_relink: "coalesced X (relink_map nxt p m) = coalesced X m"
  by (simp add: coalesced_def free_at_relink)

lemma dom_relink: "dom (relink_map nxt p m) = dom m"
  by (auto simp: relink_map_apply split: if_splits)

lemma relink_map_at: "nxt \<noteq> Some x \<Longrightarrow> relink_map nxt p m x = m x"
  by (simp add: relink_map_apply)

lemma merge_step:
  assumes inv: "loop_inv s a z (Some n)" and c: "bmap s n = Some c" "bfree c"
  shows "\<exists>s1 s2 s3. remove_block s a z None = Inr s1 \<and> remove_block s1 n (bsz c) None = Inr s2 \<and>
    insert_block s2 a (z + bsz c) None = Inr s3 \<and>
    (\<exists>b1. bmap s3 a = Some b1 \<and> bnext b1 = bnext c) \<and>
    (\<exists>b2. bmap s3 n = Some b2 \<and> bnext b2 = bnext c) \<and> same_cfg s s3 \<and>
    loop_inv (s3\<lparr>blocks := ddel n (blocks s3)\<rparr>) a (z + bsz c) (bnext c) \<and>
    allocated ((bmap s3)(n := None)) = allocs s \<and> dom (bmap s3) \<subseteq> dom (bmap s)"
proof -
  let ?m = "relink_map (Some n) a (bmap s)"
  obtain b where b: "bmap s a = Some b" "bfree b" "bsz b = z" "bnext b = Some n"
    and w: "cfg_ok s" "lists_ok s" "tiling (t_size s) ?m" and co: "coalesced {a, n} (bmap s)"
    using inv by (auto simp: loop_inv_def insert_commute)
  have an: "a \<noteq> n"
  proof
    assume "a = n"
    then have "?m a = Some (Blk z (Some n) (Some a) True)" using b by (simp add: relink_map_apply)
    from tiling_basic [OF w(3) this] \<open>a = n\<close> show False by simp
  qed
  have ma: "?m a = Some b" using b an by (simp add: relink_map_apply)
  note tb = tiling_basic [OF w(3) ma]
  have n: "n = a + z" using tb(4) b by simp
  let ?c = "Blk (bsz c) (bnext c) (Some a) True"
  have mn: "?m (a + bsz b) = Some ?c" using c n b by (simp add: relink_map_apply)
  note tc = tiling_basic [OF w(3) mn]
  obtain s1 where s1: "remove_block s a z None = Inr s1" "lists_ok s1" "same_cfg s s1"
      "bmap s1 = (bmap s)(a \<mapsto> Blk z (Some n) (bprev b) False)"
    using remove_block_ok [OF w(2) b(1,2) b(3)] n by blast
  have c1: "bmap s1 n = Some c" using c s1(4) an by simp
  obtain s2 where s2: "remove_block s1 n (bsz c) None = Inr s2" "lists_ok s2" "same_cfg s1 s2"
      "bmap s2 = (bmap s1)(n \<mapsto> Blk (bsz c) (Some (n + bsz c)) (bprev c) False)"
    using remove_block_ok [OF s1(2) c1 c(2) refl] by blast
  have "bit_length (z + bsz c) \<le> bit_length (t_size s)"
    using tb tc b by (intro bit_length_mono) simp_all
  then have bl: "bit_length (z + bsz c) < length (storage s2)"
    using w(1) s1(3) s2(3) by (simp add: cfg_ok_def same_cfg_def)
  moreover have "\<not> free_at (bmap s2) a z'" for z' using s1(4) s2(4) an by (auto simp: free_at_def)
  moreover have "prev_arg s2 a None = Inr (bprev b)" using s1(4) s2(4) an by (simp add: prev_arg_None)
  moreover have "0 < z + bsz c" using tb tc b by simp
  ultimately obtain s3 where s3: "insert_block s2 a (z + bsz c) None = Inr s3" "lists_ok s3" "same_cfg s2 s3"
      "bmap s3 = (bmap s2)(a \<mapsto> Blk (z + bsz c) (Some (a + (z + bsz c))) (bprev b) True)"
    using insert_block_ok [OF s2(2)] by blast
  have nc: "bnext c = Some (n + bsz c)" using tc(4) n b by simp
  let ?s = "s3\<lparr>blocks := ddel n (blocks s3)\<rparr>"
  have cfg: "same_cfg s s3" using s1(3) s2(3) s3(3) by (blast intro: same_cfg_trans)
  have m3: "bmap ?s = (bmap s)(a \<mapsto> Blk (z + bsz c) (bnext c) (bprev b) True, n := None)"
    using s1(4) s2(4) s3(4) nc n by (auto simp: fun_eq_iff)
  have mm: "relink_map (bnext c) a (bmap ?s) = merge_map a ?m"
    unfolding m3
  proof (rule ext)
    fix x
    show "relink_map (bnext c) a ((bmap s)(a \<mapsto> Blk (z + bsz c) (bnext c) (bprev b) True, n := None)) x = merge_map a ?m x"
      unfolding merge_map_apply [OF w(3) ma mn]
      using tb tc b c n nc an by (auto simp: relink_map_apply)
  qed
  have "lists_ok ?s"
    using s1(4) s2(4) s3(4) an by (intro lists_ok_delete [OF s3(2)]) (auto simp: free_at_def)
  moreover have "tiling (t_size s) (merge_map a ?m)" by (rule tiling_merge [OF w(3) ma mn])
  moreover have "coalesced {a} (merge_map a ?m)"
    using co n b c by (intro coalesced_merge [OF w(3) ma b(2) mn]) (simp_all add: coalesced_relink)
  then have "coalesced (insert a {m. bnext c = Some m}) (bmap ?s)"
    unfolding mm [symmetric] coalesced_relink by (auto simp: coalesced_def)
  moreover have "\<exists>b. bmap ?s a = Some b \<and> bfree b \<and> bsz b = z + bsz c \<and> bnext b = bnext c"
    unfolding m3 using an by simp
  ultimately have "loop_inv ?s a (z + bsz c) (bnext c)"
    using cfg w(1) mm cfg_ok_same [OF cfg w(1)] by (simp add: loop_inv_def same_cfg_def cfg_ok_def)
  moreover have "allocated (bmap ?s) = allocs s"
    using allocated_merge [OF w(3) ma b(2) mn] mm by (metis allocated_relink blk.sel(4))
  moreover have "\<exists>b1. bmap s3 a = Some b1 \<and> bnext b1 = bnext c" using s3(4) nc n by simp
  moreover have "\<exists>b2. bmap s3 n = Some b2 \<and> bnext b2 = bnext c" using s3(4) s2(4) an nc by simp
  moreover have "dom (bmap s3) \<subseteq> dom (bmap s)" using s1(4) s2(4) s3(4) b c by auto
  ultimately show ?thesis
    using s1(1) s2(1) s3(1) cfg by (intro exI [of _ s1] exI [of _ s2] exI [of _ s3]) simp
qed

lemma loop_inv_next:
  assumes "loop_inv s a z (Some n)"
  shows "n = a + z" "a < n"
proof -
  let ?m = "relink_map (Some n) a (bmap s)"
  obtain b where b: "bmap s a = Some b" "bsz b = z" "bnext b = Some n" and t: "tiling (t_size s) ?m"
    using assms by (auto simp: loop_inv_def)
  obtain b' where b': "?m a = Some b'" "bsz b' = z" "bnext b' = Some n"
    using b by (cases "n = a") (auto simp: relink_map_apply)
  show "n = a + z" "a < n" using tiling_basic [OF t b'(1)] b' by simp_all
qed

lemma merge_loop_ok:
  "loop_inv s a z nxt \<Longrightarrow> card {x \<in> dom (bmap s). a < x} < fuel \<Longrightarrow>
    \<exists>s' z' nxt'. merge_loop fuel s a z nxt = Inr (s', nxt') \<and> loop_inv s' a z' nxt' \<and> same_cfg s s' \<and>
      allocs s' = allocs s \<and> (\<forall>n c. nxt' = Some n \<longrightarrow> bmap s' n = Some c \<longrightarrow> \<not> bfree c)"
proof (induction fuel arbitrary: s z nxt)
  case (Suc fuel)
  consider (stop) "\<forall>n c. nxt = Some n \<longrightarrow> bmap s n = Some c \<longrightarrow> \<not> bfree c"
    | (go) n c where "nxt = Some n" "bmap s n = Some c" "bfree c" by blast
  then show ?case
  proof cases
    case stop
    then have "merge_loop (Suc fuel) s a z nxt = Inr (s, nxt)"
      by (auto split: option.splits)
    then show ?thesis using Suc.prems stop by auto
  next
    case go
    have inv: "loop_inv s a z (Some n)" using Suc.prems(1) go(1) by simp
    obtain s1 s2 s3 b1 b2 where st: "remove_block s a z None = Inr s1" "remove_block s1 n (bsz c) None = Inr s2"
        "insert_block s2 a (z + bsz c) None = Inr s3" "bmap s3 a = Some b1" "bnext b1 = bnext c"
        "bmap s3 n = Some b2" "bnext b2 = bnext c" "same_cfg s s3"
        "loop_inv (s3\<lparr>blocks := ddel n (blocks s3)\<rparr>) a (z + bsz c) (bnext c)"
        "allocated ((bmap s3)(n := None)) = allocs s" "dom (bmap s3) \<subseteq> dom (bmap s)"
      using merge_step [OF inv go(2,3)] by blast
    let ?s = "s3\<lparr>blocks := ddel n (blocks s3)\<rparr>"
    have "{x \<in> dom (bmap ?s). a < x} \<subset> {x \<in> dom (bmap s). a < x}"
      using st(11) go(2) loop_inv_next(2) [OF inv] by auto
    then have "card {x \<in> dom (bmap ?s). a < x} < card {x \<in> dom (bmap s). a < x}"
      by (intro psubset_card_mono) (auto intro: finite_subset [OF _ finite_dom_map_of])
    then have "card {x \<in> dom (bmap ?s). a < x} < fuel" using Suc.prems(2) by simp
    from Suc.IH [OF st(9) this] obtain s' z' nxt' where
      r: "merge_loop fuel ?s a (z + bsz c) (bnext c) = Inr (s', nxt')" "loop_inv s' a z' nxt'"
         "same_cfg ?s s'" "allocs s' = allocs ?s"
         "\<forall>n c. nxt' = Some n \<longrightarrow> bmap s' n = Some c \<longrightarrow> \<not> bfree c" by blast
    have "merge_loop (Suc fuel) s a z nxt = Inr (s', nxt')"
      using go st(1-7) r(1) by simp
    moreover have "same_cfg s s'" using st(8) r(3) by (simp add: same_cfg_def)
    moreover have "allocs s' = allocs s" using r(4) st(10) by simp
    ultimately show ?thesis using r(2,5) by blast
  qed
qed simp

lemma relink_id:
  assumes t: "tiling N m" and a: "m a = Some b"
  shows "relink_map (bnext b) a m = m"
proof (rule ext)
  fix x
  note tb = tiling_basic [OF t a]
  show "relink_map (bnext b) a m x = m x"
  proof (cases "bnext b = Some x")
    case True
    then have x: "x = a + bsz b" using tb(4) by simp
    show ?thesis
    proof (cases "m x")
      case (Some c)
      have "a + bsz b < N" using tiling_basic [OF t Some] x by simp
      then have "bprev c = Some a" using tiling_next [OF t a] Some x by (metis option.inject)
      then show ?thesis using True Some by (cases c) (simp add: relink_map_apply)
    qed (simp add: relink_map_apply)
  qed (simp add: relink_map_apply)
qed

lemma card_dom_map_of: "card (dom (map_of xs)) \<le> length xs"
  using card_image_le [of "set xs" fst] card_length [of xs] by (simp add: dom_map_of_conv_image_fst)

lemma merge_right_ok:
  assumes w: "winv s" and b: "bmap s a = Some b" "bfree b"
    and co: "coalesced (insert a {n. bnext b = Some n}) (bmap s)"
  shows "\<exists>s'. merge_right s a = Inr s' \<and> tlsf_inv s' \<and> same_cfg s s' \<and> allocs s' = allocs s"
proof -
  have "loop_inv s a (bsz b) (bnext b)"
    using w b co relink_id [OF winvD(3) [OF w] b(1)] by (simp add: loop_inv_def winv_def)
  moreover have "card {x \<in> dom (bmap s). a < x} < Suc (length (blocks s))"
    using card_mono [of "dom (bmap s)" "{x \<in> dom (bmap s). a < x}"] card_dom_map_of [of "blocks s"]
    by (simp add: finite_dom_map_of)
  ultimately obtain s' z' nxt' where
    r: "merge_loop (Suc (length (blocks s))) s a (bsz b) (bnext b) = Inr (s', nxt')" "loop_inv s' a z' nxt'"
       "same_cfg s s'" "allocs s' = allocs s"
       "\<forall>n c. nxt' = Some n \<longrightarrow> bmap s' n = Some c \<longrightarrow> \<not> bfree c"
    using merge_loop_ok by blast
  let ?s = "relink s' nxt' a"
  have "merge_right s a = Inr ?s" using b r(1) by (simp add: merge_right_def)
  moreover have cfg: "same_cfg s ?s" using r(3) same_cfg_relink same_cfg_trans by blast
  moreover have al: "allocs ?s = allocs s" using r(4) by (simp add: bmap_relink allocated_relink)
  moreover have "tlsf_inv ?s"
    unfolding tlsf_inv_def
  proof
    show "winv ?s"
      using r(2) cfg cfg_ok_same [OF cfg winvD(1) [OF w]] lists_ok_relink
      by (simp add: winv_def loop_inv_def bmap_relink) (metis r(3) same_cfg_def)
    show "coalesced {} (bmap ?s)"
      unfolding bmap_relink coalesced_relink
      unfolding coalesced_def
    proof (intro allI impI)
      fix x u v assume x: "free_at (bmap s') x u" and y: "free_at (bmap s') (x + u) v"
      have co': "coalesced (insert a {n. nxt' = Some n}) (bmap s')" using r(2) by (simp add: loop_inv_def)
      have nf: "\<not> free_at (bmap s') n v" if "nxt' = Some n" for n v using r(5) that by (auto simp: free_at_def)
      have "x = a" using coalescedD [OF co' x y] nf x by auto
      moreover obtain b' where b': "bmap s' a = Some b'" "bsz b' = z'" "bnext b' = nxt'"
        using r(2) by (auto simp: loop_inv_def)
      ultimately have u: "u = z'" using x by (auto simp: free_at_def)
      have tt: "tiling (t_size s') (relink_map nxt' a (bmap s'))" using r(2) by (simp add: loop_inv_def)
      obtain b'' where b'': "relink_map nxt' a (bmap s') a = Some b''" "bsz b'' = z'" "bnext b'' = nxt'"
        using b' by (cases "nxt' = Some a") (auto simp: relink_map_apply)
      have "nxt' = Some (a + z')"
        using tiling_basic(4) [OF tt b''(1)] b''(2,3) by simp
      then show "x \<in> {}" using nf y \<open>x = a\<close> u by blast
    qed
  qed
  ultimately show ?thesis by blast
qed

lemma go_left_ok:
  assumes t: "tiling N (bmap s)" and a: "bmap s a = Some b" "bfree b"
    and co: "coalesced (insert a {p. bprev b = Some p}) (bmap s)"
  shows "\<exists>st b'. go_left (Suc (Suc f)) s a = Inr st \<and> bmap s st = Some b' \<and> bfree b' \<and>
    coalesced (insert st {n. bnext b' = Some n}) (bmap s)"
proof (cases "bprev b")
  case None
  then have "go_left (Suc (Suc f)) s a = Inr a" using a by simp
  moreover have "coalesced (insert a {n. bnext b = Some n}) (bmap s)"
    using co None by (auto simp: coalesced_def)
  ultimately show ?thesis using a by blast
next
  case (Some p)
  obtain c where c: "bmap s p = Some c" "p + bsz c = a" "p < a" by (rule tiling_prev_Some [OF t a(1) Some])
  have bc: "bnext c = Some a" using tiling_basic(4) [OF t c(1)] c(2) by simp
  show ?thesis
  proof (cases "bfree c")
    case False
    then have "go_left (Suc (Suc f)) s a = Inr a" using a c Some by simp
    moreover have "coalesced (insert a {n. bnext b = Some n}) (bmap s)"
      unfolding coalesced_def
    proof (intro allI impI)
      fix x z z' assume x: "free_at (bmap s) x z" "free_at (bmap s) (x + z) z'"
      have "x \<noteq> p" using x(1) c(1) False by (auto simp: free_at_def)
      then show "x \<in> insert a {n. bnext b = Some n}" using coalescedD [OF co x] Some by simp
    qed
    ultimately show ?thesis using a by blast
  next
    case True
    have "go_left (Suc f) s p = Inr p"
    proof (cases "bprev c")
      case (Some q)
      obtain d where d: "bmap s q = Some d" "q + bsz d = p" "q < p" by (rule tiling_prev_Some [OF t c(1) Some])
      have "\<not> bfree d"
      proof
        assume "bfree d"
        then have "free_at (bmap s) q (bsz d)" "free_at (bmap s) (q + bsz d) (bsz c)"
          using d c True by (auto simp: free_at_def)
        from coalescedD [OF co this] show False using \<open>bprev b = Some p\<close> d c by auto
      qed
      then show ?thesis using c d Some by simp
    qed (use c in simp)
    then have "go_left (Suc (Suc f)) s a = Inr p" using a c Some True by simp
    moreover have "coalesced (insert p {n. bnext c = Some n}) (bmap s)"
      using co Some bc by (auto simp: coalesced_def)
    ultimately show ?thesis using c True by blast
  qed
qed

lemma tlsf_free_ok:
  assumes inv: "tlsf_inv s" and al: "allocs s a = Some z"
  shows "\<exists>s'. tlsf_free s (a + t_base s) = Inr s' \<and> tlsf_inv s' \<and> same_cfg s s' \<and>
    allocs s' = (allocs s)(a := None)"
proof -
  have w: "winv s" and co: "coalesced {} (bmap s)" using inv by (simp_all add: tlsf_inv_def)
  note t = winvD(3) [OF w]
  obtain b where b: "bmap s a = Some b" "\<not> bfree b" "bsz b = z" using al by (auto simp: allocated_Some)
  note tb = tiling_basic [OF t b(1)]
  have bits: "bit_length (bsz b) < length (storage s)" using block_bits [OF w tb(2)] tb by simp
  have "\<not> free_at (bmap s) a z'" for z' using b by (auto simp: free_at_def)
  then obtain s1 where s1: "insert_block s a (bsz b) None = Inr s1" "lists_ok s1" "same_cfg s s1"
      "bmap s1 = (bmap s)(a \<mapsto> Blk (bsz b) (Some (a + bsz b)) (bprev b) True)"
    using insert_block_ok [OF winvD(2) [OF w] tb(2) bits _ prev_arg_None [OF b(1)]] by blast
  have m1: "bmap s1 = mark_map a True (bmap s)" using s1(4) b tb(4) by (simp add: mark_map_def)
  let ?b = "Blk (bsz b) (Some (a + bsz b)) (bprev b) True"
  have b1: "bmap s1 a = Some ?b" "bfree ?b" using s1(4) by simp_all
  have w1: "winv s1"
    using tiling_mark [OF t, of a True] s1(2,3) winvD(1) [OF w] cfg_ok_same [OF s1(3)] m1
    by (simp add: winv_def same_cfg_def)
  have "coalesced (insert a {p. bprev ?b = Some p}) (bmap s1)"
    using coalesced_mark_free [OF t b(1) co] m1 by simp
  moreover have "length (blocks s1) = Suc (length (blocks s1) - 1)"
    using b1(1) by (cases "blocks s1") auto
  ultimately obtain st b' where st: "go_left (Suc (length (blocks s1))) s1 a = Inr st" "bmap s1 st = Some b'"
      "bfree b'" "coalesced (insert st {n. bnext b' = Some n}) (bmap s1)"
    using go_left_ok [OF winvD(3) [OF w1] b1] by metis
  obtain s' where s': "merge_right s1 st = Inr s'" "tlsf_inv s'" "same_cfg s1 s'" "allocs s' = allocs s1"
    using merge_right_ok [OF w1 st(2-4)] by blast
  have "tlsf_free s (a + t_base s) = Inr s'"
    using b s1(1,3) st(1) s'(1) by (simp add: tlsf_free_def merge_block_def same_cfg_def del: go_left.simps)
  moreover have "allocs s' = (allocs s)(a := None)"
    using s'(4) allocated_mark_free [of "bmap s" a b, OF b(1)] m1 by simp
  ultimately show ?thesis using s' s1(3) same_cfg_trans by blast
qed

end
