(* ===== verification/TlsfAlloc.thy ===== *)
theory TlsfAlloc
  imports TlsfCorrect
begin

text \<open>
  The search of \<open>TLSFAllocator.alloc\<close>: the size is rounded up to a bucket boundary, so that any
  block found in the bucket is large enough; the search visits every bucket that may hold such
  a block, so it fails only when there is none.  Then the splits and the marking.
\<close>

section \<open>Size classes\<close>

lemma lv2_of_bounds:
  assumes "0 < z" "1 \<le> c"
  shows "0 \<le> lv2_of c z" "lv2_of c z < 2 ^ c"
proof -
  let ?b = "bit_length z"
  obtain k where k: "?b = Suc k" using bit_length_pos [OF assms(1)] by (cases ?b) auto
  have z: "2 ^ k \<le> z" "z < 2 * 2 ^ k"
    using bit_length_lower [OF assms(1)] bit_length_upper [of z] assms(1) k by simp_all
  show "0 \<le> lv2_of c z" using z k by (simp add: lv2_of_def pos_imp_zdiv_nonneg_iff)
  have "z - 2 ^ k < 2 ^ c * 2 ^ (Suc k - c)"
  proof -
    have "(2::int) ^ Suc k \<le> 2 ^ (c + (Suc k - c))" by (intro power_increasing) auto
    then show ?thesis using z by (simp add: power_add)
  qed
  then have "(z - 2 ^ k) div 2 ^ (Suc k - c) * 2 ^ (Suc k - c) < 2 ^ c * 2 ^ (Suc k - c)"
    unfolding minus_mod_eq_div_mult [symmetric]
    by (rule le_less_trans [rotated]) simp
  then show "lv2_of c z < 2 ^ c"
    using k by (simp add: lv2_of_def)
qed

lemma lv2_of_mono:
  assumes "sz \<le> z" "bit_length z = bit_length sz"
  shows "lv2_of c sz \<le> lv2_of c z"
  using assms by (simp add: lv2_of_def zdiv_mono1)

lemma good_fit:
  assumes sz0: "0 < sz0" and c: "1 \<le> c" "c \<le> bit_length sz0"
    and sz: "sz = round_up sz0 (2 ^ (bit_length sz0 - c))"
    and z: "0 < z" "bit_length sz \<le> bit_length z"
    and l2: "bit_length z = bit_length sz \<Longrightarrow> lv2_of c sz \<le> lv2_of c z"
  shows "sz \<le> z"
proof -
  obtain k where k: "bit_length sz0 = Suc k" using bit_length_pos [OF sz0] by (cases "bit_length sz0") auto
  define g where "g = (2::int) ^ (Suc k - c)"
  have g: "0 < g" "g dvd 2 ^ k" "g dvd 2 ^ Suc k"
  proof -
    have "(2::int) ^ (Suc k - c) dvd 2 ^ k" using c by (intro le_imp_power_dvd) simp
    moreover have "(2::int) ^ (Suc k - c) dvd 2 ^ Suc k" by (rule le_imp_power_dvd) simp
    ultimately show "0 < g" "g dvd 2 ^ k" "g dvd 2 ^ Suc k" by (simp_all add: g_def)
  qed
  have b0: "2 ^ k \<le> sz0" "sz0 < 2 ^ Suc k"
    using bit_length_lower [OF sz0] bit_length_upper [of sz0] sz0 k by simp_all
  have sz': "sz0 \<le> sz" "g dvd sz" "sz \<le> 2 ^ Suc k"
    using round_up_ge [OF g(1), of sz0] round_up_least [OF g(1) g(3)] b0 k sz by (simp_all add: g_def)
  show ?thesis
  proof (cases "bit_length z = bit_length sz")
    case False
    then have lt: "bit_length sz \<le> bit_length z - 1" using z by simp
    have "sz < 2 ^ bit_length sz" using sz'(1) sz0 by (simp add: bit_length_upper)
    also have "(2::int) ^ bit_length sz \<le> 2 ^ (bit_length z - 1)" using lt by simp
    also have "\<dots> \<le> z" using z(1) by (rule bit_length_lower)
    finally show ?thesis by simp
  next
    case True
    show ?thesis
    proof (cases "sz = 2 ^ Suc k")
      case True
      have "bit_length sz = Suc (Suc k)" unfolding True by (rule bit_length_eqI) simp_all
      then show ?thesis using True bit_length_lower [OF z(1)] \<open>bit_length z = bit_length sz\<close> by simp
    next
      case False
      then have "bit_length sz = Suc k" using sz' b0 by (intro bit_length_eqI) auto
      then have *: "lv2_of c sz = (sz - 2 ^ k) div g" "lv2_of c z = (z - 2 ^ k) div g"
        using \<open>bit_length z = bit_length sz\<close> by (simp_all add: lv2_of_def g_def)
      have "g dvd sz - 2 ^ k" using g(2) sz'(2) by (simp add: dvd_diff)
      then have "sz - 2 ^ k = (sz - 2 ^ k) div g * g" by (simp only: dvd_div_mult_self)
      also have "\<dots> \<le> (z - 2 ^ k) div g * g"
        using l2 [OF \<open>bit_length z = bit_length sz\<close>] * g(1) by (simp add: mult_right_mono)
      also have "\<dots> \<le> z - 2 ^ k" 
        using pos_mod_sign [OF g(1), of "z - 2 ^ k"] by (simp add: minus_mod_eq_div_mult [symmetric])
      finally show ?thesis by simp
    qed
  qed
qed

section \<open>The search\<close>

definition suits :: "tlsf \<Rightarrow> int \<Rightarrow> int \<Rightarrow> bool" where
  "suits s sz z \<longleftrightarrow> bit_length sz \<le> bit_length z \<and>
     (bit_length z = bit_length sz \<longrightarrow> lv2_of (t_l2_cnt s) sz \<le> lv2_of (t_l2_cnt s) z)"

lemma find_eq_Some: "List.find P xs = Some x \<Longrightarrow> x \<in> set xs \<and> P x"
  by (induction xs) (auto split: if_splits)

lemma find_fit_ok:
  assumes ok: "lists_ok s" and sz: "sz \<noteq> 0" and c: "1 \<le> t_l2_cnt s"
  shows "\<forall>l \<in> set ls. bit_length sz \<le> l \<and> l < length (storage s) \<Longrightarrow>
    (find_fit s sz ls = Inr None \<and> (\<forall>a z. free_at (bmap s) a z \<longrightarrow> bit_length z \<in> set ls \<longrightarrow> \<not> suits s sz z)) \<or>
    (\<exists>l1 l2 z. find_fit s sz ls = Inr (Some (l1, l2)) \<and> l1 < length (storage s) \<and> (storage s ! l1) l2 \<noteq> [] \<and>
       free_at (bmap s) (hd ((storage s ! l1) l2)) z \<and> suits s sz z)"
proof (induction ls)
  case Nil
  then show ?case by simp
next
  case (Cons l ls)
  note okD = lists_okD [OF ok]
  have l: "bit_length sz \<le> l" "l < length (storage s)" using Cons.prems by simp_all
  have len: "l < length (lv1_entries s)" using l okD(1) by simp
  note IH = Cons.IH [OF ballI]
  show ?case
  proof (cases "lv1_entries s ! l = 0")
    case True
    then have "level_of (bmap s) l = {}" using okD(5) [OF l(2)] by simp
    then have "\<forall>a z. free_at (bmap s) a z \<longrightarrow> bit_length z \<noteq> l" by (auto simp: level_of_def)
    moreover have "find_fit s sz (l # ls) = find_fit s sz ls" using True len by (simp add: lget_def)
    ultimately show ?thesis using Cons.IH Cons.prems by auto
  next
    case False
    define k where "k = (if l = bit_length sz then lv2_of (t_l2_cnt s) sz else 0)"
    have step: "find_fit s sz (l # ls) = (case List.find (\<lambda>l2. (storage s ! l) l2 \<noteq> []) [k..2 ^ t_l2_cnt s - 1] of
        Some l2 \<Rightarrow> Inr (Some (l, l2)) | None \<Rightarrow> find_fit s sz ls)"
      using False len l sz by (auto simp: lget_def lv2_def k_def)
    show ?thesis
    proof (cases "List.find (\<lambda>l2. (storage s ! l) l2 \<noteq> []) [k..2 ^ t_l2_cnt s - 1]")
      case (Some l2)
      then have l2: "k \<le> l2" "(storage s ! l) l2 \<noteq> []" using find_eq_Some [OF Some] by auto
      then have "hd ((storage s ! l) l2) \<in> class_of (t_l2_cnt s) (bmap s) l l2"
        using okD(4) [OF l(2), of l2] by (metis list.set_sel(1))
      then obtain z where z: "free_at (bmap s) (hd ((storage s ! l) l2)) z" "bit_length z = l"
          "lv2_of (t_l2_cnt s) z = l2" by (auto simp: class_of_def)
      have "suits s sz z" using z l l2 by (auto simp: suits_def k_def)
      then show ?thesis using step Some l z l2 by auto
    next
      case None
      have "\<not> suits s sz z" if f: "free_at (bmap s) a z" and bl: "bit_length z = l" for a z
      proof
        assume su: "suits s sz z"
        have z0: "0 < z" using okD(2) [OF f] by simp
        have "a \<in> set ((storage s ! l) (lv2_of (t_l2_cnt s) z))"
          using f bl okD(4) [OF l(2)] by (auto simp: class_of_def)
        moreover have "lv2_of (t_l2_cnt s) z \<in> set [k..2 ^ t_l2_cnt s - 1]"
          using lv2_of_bounds [OF z0 c] su bl by (auto simp: suits_def k_def)
        ultimately show False using None by (auto simp: find_None_iff)
      qed
      then show ?thesis using step None Cons.IH Cons.prems by auto
    qed
  qed
qed

section \<open>Allocation\<close>

lemma rounded_size_ok:
  assumes cfg: "cfg_ok s" and al: "1 \<le> align" and req: "t_block_size s \<le> req"
  shows "\<exists>sz. rounded_size s req align = Inr sz \<and> 0 < sz \<and> req + align - 1 \<le> sz \<and>
    (\<forall>z. 0 < z \<longrightarrow> suits s sz z \<longrightarrow> sz \<le> z) \<and> (\<forall>z. sz \<le> z \<longrightarrow> suits s sz z)"
proof -
  let ?c = "t_l2_cnt s" and ?base = "max (t_block_size s) (req + align - 1)"
  let ?g = "2 ^ (bit_length ?base - ?c) :: int"
  let ?sz = "round_up ?base ?g"
  have b: "1 \<le> t_block_size s" "1 \<le> ?c" "?c \<le> bit_length (t_block_size s)"
    using cfg by (simp_all add: cfg_ok_def)
  have sz0: "0 < ?base" using b by simp
  have bl: "?c \<le> bit_length ?base"
    by (rule order_trans [OF b(3) bit_length_mono]) (use b in simp_all)
  have ge: "?base \<le> ?sz" by (rule round_up_ge) simp
  have pos: "0 < ?sz" by (rule less_le_trans [OF sz0 ge])
  have "rounded_size s req align = Inr ?sz" using bl by (simp add: rounded_size_def Let_def)
  moreover have "?sz \<le> z" if "0 < z" "suits s ?sz z" for z
    using good_fit [OF sz0 b(2) bl refl that(1)] that(2) by (simp add: suits_def)
  moreover have "suits s ?sz z" if "?sz \<le> z" for z
    using bit_length_mono [OF less_imp_le [OF pos] that] lv2_of_mono [OF that] by (simp add: suits_def)
  moreover have "req + align - 1 \<le> ?sz" by (rule order_trans [OF max.cobounded2 ge])
  ultimately show ?thesis using pos by blast
qed

text \<open>From a free block that is large enough: split off an aligned part, split off the rest,
  mark.\<close>

definition carve :: "tlsf \<Rightarrow> int \<Rightarrow> int \<Rightarrow> int \<Rightarrow> (int \<times> tlsf) result" where
  "carve s req align start =
      rbind (dget (blocks s) start) (\<lambda>b.
      let nsize = bsz b in
      rbind (py_round_up start align) (\<lambda>new_start.
      rbind (if new_start \<noteq> start
             then rbind (split_block s start nsize (new_start - start)) (\<lambda>s.
                  rbind (dget (blocks s) new_start) (\<lambda>c. Inr (s, new_start, bsz c)))
             else Inr (s, start, nsize)) (\<lambda>(s, start, nsize).
      rbind (if req < nsize then split_block s start nsize req else Inr s) (\<lambda>s.
      rbind (remove_block s start req None) (\<lambda>s.
      Inr (start + t_base s, s))))))"

lemma front_split:
  assumes w: "winv s" and b: "bmap s a = Some b" "bfree b" and req: "0 < req" "req \<le> bsz b"
    and co: "coalesced X (bmap s)" and X: "\<And>x. x \<in> X \<Longrightarrow> \<exists>z. free_at (bmap s) x z \<and> x + z = a"
  shows "\<exists>s1 b1. (if req < bsz b then split_block s a (bsz b) req else Inr s) = Inr s1 \<and> winv s1 \<and>
    same_cfg s s1 \<and> bmap s1 a = Some b1 \<and> bfree b1 \<and> bsz b1 = req \<and> allocs s1 = allocs s \<and>
    coalesced (insert a X) (bmap s1) \<and> (\<forall>x \<in> X. \<exists>z. free_at (bmap s1) x z \<and> x + z = a)"
proof (cases "req < bsz b")
  case True
  note t = winvD(3) [OF w] and n = req(1) True
  obtain s1 where s1: "split_block s a (bsz b) req = Inr s1" "winv s1" "same_cfg s s1"
      "bmap s1 = split_map a req (bmap s)"
    using split_block_ok [OF w b n] by blast
  have mid: "bmap s (a + req) = None" using tiling_inside_None [OF t b(1)] n by simp
  have Xs: "x \<noteq> a" "x \<noteq> a + req" if xX: "x \<in> X" for x
  proof -
    obtain z where z: "free_at (bmap s) x z" "x + z = a" using X [OF xX] by blast
    then show "x \<noteq> a" using lists_okD(2) [OF winvD(2) [OF w], of x z] by auto
    show "x \<noteq> a + req" using z(1) mid by (auto simp: free_at_def)
  qed
  have "a \<notin> X" using Xs by blast
  then have "coalesced (insert a X) (bmap s1)"
    unfolding s1(4) by (rule coalesced_split [OF t b n co])
  moreover have "\<exists>z. free_at (bmap s1) x z \<and> x + z = a" if "x \<in> X" for x
    using X [OF that] Xs [OF that] unfolding s1(4) by (simp add: free_at_split [OF t b(1) n])
  moreover have "bmap s1 a = Some (Blk req (Some (a + req)) (bprev b) True)"
    unfolding s1(4) by (simp add: split_map_apply [OF t b(1) n])
  moreover have "allocs s1 = allocs s" unfolding s1(4) by (rule allocated_split [OF t b n])
  ultimately show ?thesis
    using s1(1-3) True
    by (intro exI [of _ s1] exI [of _ "Blk req (Some (a + req)) (bprev b) True"]) simp
next
  case False
  then have "bsz b = req" using req by simp
  moreover have "coalesced (insert a X) (bmap s)" using co by (auto simp: coalesced_def)
  ultimately show ?thesis using False w b X by (intro exI [of _ s] exI [of _ b]) simp
qed

lemma take_front:
  assumes w: "winv s" and b: "bmap s a = Some b" "bfree b" and req: "0 < req" "req \<le> bsz b"
    and co: "coalesced X (bmap s)" and X: "\<And>x. x \<in> X \<Longrightarrow> \<exists>z. free_at (bmap s) x z \<and> x + z = a"
  shows "\<exists>s1 s2. (if req < bsz b then split_block s a (bsz b) req else Inr s) = Inr s1 \<and>
    remove_block s1 a req None = Inr s2 \<and> tlsf_inv s2 \<and> same_cfg s s2 \<and>
    allocs s2 = (allocs s)(a \<mapsto> req)"
proof -
  obtain s1 b1 where s1: "(if req < bsz b then split_block s a (bsz b) req else Inr s) = Inr s1" "winv s1"
      "same_cfg s s1" "bmap s1 a = Some b1" "bfree b1" "bsz b1 = req" "allocs s1 = allocs s"
      "coalesced (insert a X) (bmap s1)" "\<forall>x \<in> X. \<exists>z. free_at (bmap s1) x z \<and> x + z = a"
    using front_split [OF w b req co X] by blast
  note t1 = winvD(3) [OF s1(2)]
  obtain s2 where s2: "remove_block s1 a req None = Inr s2" "lists_ok s2" "same_cfg s1 s2"
      "bmap s2 = (bmap s1)(a \<mapsto> Blk req (Some (a + req)) (bprev b1) False)"
    using remove_block_ok [OF winvD(2) [OF s1(2)] s1(4-6)] by blast
  have m2: "bmap s2 = mark_map a False (bmap s1)"
    using s2(4) s1(4,6) tiling_basic(4) [OF t1 s1(4)] by (simp add: mark_map_def)
  have "coalesced {} (bmap s2)"
    unfolding m2
  proof (rule coalesced_mark_used [OF s1(4) s1(8)])
    show "x + z = a" if "x \<in> insert a X" "x \<noteq> a" "free_at (bmap s1) x z" for x z
      using that s1(9) free_at_fun by blast
  qed
  moreover have "winv s2"
    using tiling_mark [OF t1, of a False] s2(2,3) cfg_ok_same [OF s2(3) winvD(1) [OF s1(2)]] m2
    by (simp add: winv_def same_cfg_def)
  moreover have "allocs s2 = (allocs s)(a \<mapsto> req)"
    unfolding m2 using allocated_mark_used [of "bmap s1" a b1, OF s1(4)] s1(6,7) by simp
  ultimately show ?thesis
    using s1(1) s2(1) same_cfg_trans [OF s1(3) s2(3)] by (simp add: tlsf_inv_def)
qed

lemma carve_ok:
  assumes inv: "tlsf_inv s" and b: "bmap s start = Some b" "bfree b"
    and al: "1 \<le> align" and req: "0 < req" "req + align - 1 \<le> bsz b"
  shows "\<exists>s'. carve s req align start = Inr (round_up start align + t_base s, s') \<and> tlsf_inv s' \<and>
    same_cfg s s' \<and> allocs s' = (allocs s)(round_up start align \<mapsto> req) \<and>
    allocs s (round_up start align) = None"
proof -
  let ?ns = "round_up start align"
  have w: "winv s" and co: "coalesced {} (bmap s)" using inv by (simp_all add: tlsf_inv_def)
  note t = winvD(3) [OF w]
  have ns: "start \<le> ?ns" "?ns < start + align" using al by (simp_all add: round_up_ge round_up_less)
  have py: "py_round_up start align = Inr ?ns" using al by (simp add: py_round_up_def)
  show ?thesis
  proof (cases "?ns = start")
    case True
    have le: "req \<le> bsz b" using req al by simp
    obtain s1 s2 where r: "(if req < bsz b then split_block s start (bsz b) req else Inr s) = Inr s1"
        "remove_block s1 start req None = Inr s2" "tlsf_inv s2" "same_cfg s s2" "allocs s2 = (allocs s)(start \<mapsto> req)"
      using take_front [OF w b req(1) le co] by blast
    have "carve s req align start = Inr (start + t_base s, s2)"
      unfolding carve_def Let_def using b py True r(1,2,4) by (simp add: same_cfg_def)
    then show ?thesis using True r b by (auto simp: allocated_def)
  next
    case False
    let ?d = "?ns - start"
    have d: "0 < ?d" "?d < bsz b" using ns False req by simp_all
    obtain s0 where s0: "split_block s start (bsz b) ?d = Inr s0" "winv s0" "same_cfg s s0"
        "bmap s0 = split_map start ?d (bmap s)"
      using split_block_ok [OF w b d] by blast
    let ?b = "Blk (bsz b - ?d) (bnext b) (Some start) True"
    have mb: "bmap s0 ?ns = Some ?b" "bfree ?b"
      using False unfolding s0(4) by (simp_all add: split_map_apply [OF t b(1) d])
    have co0: "coalesced {start} (bmap s0)"
      unfolding s0(4) using coalesced_split [OF t b d co] by simp
    have X0: "\<exists>z. free_at (bmap s0) x z \<and> x + z = ?ns" if "x \<in> {start}" for x
      using that unfolding s0(4) by (simp add: free_at_split [OF t b(1) d])
    have le: "req \<le> bsz ?b" using req ns by simp
    obtain s1 s2 where r: "(if req < bsz ?b then split_block s0 ?ns (bsz ?b) req else Inr s0) = Inr s1"
        "remove_block s1 ?ns req None = Inr s2" "tlsf_inv s2" "same_cfg s0 s2" "allocs s2 = (allocs s0)(?ns \<mapsto> req)"
      using take_front [OF s0(2) mb req(1) le co0 X0] by blast
    have "allocs s0 = allocs s" unfolding s0(4) by (rule allocated_split [OF t b d])
    moreover have "carve s req align start = Inr (?ns + t_base s, s2)"
      unfolding carve_def Let_def using b py False s0(1,3) mb r(1,2,4)
      by (cases "req < bsz b - ?d") (simp_all add: same_cfg_def)
    moreover have "bmap s ?ns = None" using tiling_inside_None [OF t b(1)] d by simp
    ultimately show ?thesis using r(3-5) s0(3) same_cfg_trans by (auto simp: allocated_def)
  qed
qed

end
