(* ===== verification/TlsfSpec.thy ===== *)
theory TlsfSpec
  imports TlsfAlloc
begin

text \<open>
  What a client of \<open>TLSFAllocator\<close> relies on.  The interface is the locale \<open>range_allocator\<close>:
  it hands out ranges that do not overlap, from an opaque state.  The theory proves the
  contract of the allocator, packages it as an interpretation, and states the properties.
\<close>

lemma alloc_as_carve:
  "tlsf_alloc s req_size align =
    (let req = max (t_block_size s) req_size in
    rbind (rounded_size s req align) (\<lambda>sz.
    rbind (find_fit s sz [lv1 sz..<length (storage s)]) (\<lambda>found.
    case found of None \<Rightarrow> Inl MemoryError
    | Some (l1, l2) \<Rightarrow>
      let start = hd ((storage s ! l1) l2) in
      rbind (dget (blocks s) start) (\<lambda>b.
      rbind (rguard (sz \<le> bsz b) AssertionError) (\<lambda>_. carve s req align start)))))"
  unfolding tlsf_alloc_def carve_def Let_def
  by (intro rbind_cong refl option.case_cong) (auto intro!: rbind_cong split: option.splits)

lemma tlsf_alloc_contract:
  assumes inv: "tlsf_inv s" and al: "1 \<le> align"
  shows "(\<exists>a s'. tlsf_alloc s n align = Inr (a + t_base s, s') \<and> tlsf_inv s' \<and> same_cfg s s' \<and>
      align dvd a \<and> allocs s a = None \<and> allocs s' = (allocs s)(a \<mapsto> max (t_block_size s) n)) \<or>
    (tlsf_alloc s n align = Inl MemoryError \<and>
      (\<exists>sz. rounded_size s (max (t_block_size s) n) align = Inr sz \<and>
        (\<forall>a z. free_at (bmap s) a z \<longrightarrow> z < sz)))"
proof -
  let ?req = "max (t_block_size s) n"
  have w: "winv s" using inv by (simp add: tlsf_inv_def)
  have cfg: "cfg_ok s" and lo: "lists_ok s" using winvD [OF w] by simp_all
  obtain sz where sz: "rounded_size s ?req align = Inr sz" "0 < sz" "?req + align - 1 \<le> sz"
      "\<And>z. 0 < z \<Longrightarrow> suits s sz z \<Longrightarrow> sz \<le> z" "\<And>z. sz \<le> z \<Longrightarrow> suits s sz z"
    using rounded_size_ok [OF cfg al, of ?req] by auto
  let ?ls = "[lv1 sz..<length (storage s)]"
  have ls: "\<forall>l \<in> set ?ls. bit_length sz \<le> l \<and> l < length (storage s)" by (auto simp: lv1_def)
  have c: "1 \<le> t_l2_cnt s" "sz \<noteq> 0" "0 < ?req" using cfg sz(2) by (auto simp: cfg_ok_def)
  from find_fit_ok [OF lo c(2,1) ls] show ?thesis
  proof
    assume "find_fit s sz ?ls = Inr None \<and>
      (\<forall>a z. free_at (bmap s) a z \<longrightarrow> bit_length z \<in> set ?ls \<longrightarrow> \<not> suits s sz z)"
    then have none: "find_fit s sz ?ls = Inr None"
      and un: "\<And>a z. free_at (bmap s) a z \<Longrightarrow> bit_length z \<in> set ?ls \<Longrightarrow> \<not> suits s sz z" by blast+
    have "z < sz" if f: "free_at (bmap s) a z" for a z
    proof (rule ccontr)
      assume "\<not> z < sz"
      then have "suits s sz z" using sz(5) by simp
      then show False using un [OF f] lists_okD(2) [OF lo f] by (auto simp: suits_def lv1_def)
    qed
    then show ?thesis using sz(1) none by (simp add: alloc_as_carve)
  next
    assume "\<exists>l1 l2 z. find_fit s sz ?ls = Inr (Some (l1, l2)) \<and> l1 < length (storage s) \<and>
      (storage s ! l1) l2 \<noteq> [] \<and> free_at (bmap s) (hd ((storage s ! l1) l2)) z \<and> suits s sz z"
    then obtain l1 l2 z b where f: "find_fit s sz ?ls = Inr (Some (l1, l2))"
        "bmap s (hd ((storage s ! l1) l2)) = Some b" "bfree b" "bsz b = z" "suits s sz z"
        "free_at (bmap s) (hd ((storage s ! l1) l2)) z"
      by (auto simp: free_at_def)
    have le: "sz \<le> bsz b" using sz(4) f(4,5) lists_okD(2) [OF lo f(6)] by simp
    then have "?req + align - 1 \<le> bsz b" using sz(3) by simp
    from carve_ok [OF inv f(2,3) al c(3) this] show ?thesis
      using sz(1) f(1,2) le by (auto simp: alloc_as_carve Let_def)
  qed
qed

lemma tlsf_init_ok:
  assumes "0 < sz" "1 \<le> bs" "0 < lv2_cnt" "bit_length lv2_cnt \<le> bit_length bs"
  shows "\<exists>s. tlsf_init sz base bs lv2_cnt = Inr s \<and> tlsf_inv s \<and> t_base s = base \<and> t_size s = sz \<and>
    t_block_size s = bs \<and> allocs s = Map.empty"
proof -
  let ?s = "\<lparr>t_size = sz, t_base = base, t_block_size = bs, t_l2_cnt = bit_length lv2_cnt,
              storage = replicate (bit_length sz + 1) (\<lambda>_. []),
              lv1_entries = replicate (bit_length sz + 1) 0,
              blocks = [(0, Blk sz None None False)]\<rparr>"
  let ?t = "?s\<lparr>blocks := [(0, Blk sz None None True)]\<rparr>"
  have "lists_ok ?s"
    by (auto simp: lists_ok_def class_of_def level_of_def free_at_def simp del: replicate_Suc split: if_splits)
  moreover have "\<not> free_at (bmap ?s) 0 z" for z by (simp add: free_at_def)
  moreover have "prev_arg ?s 0 None = Inr None" by (simp add: prev_arg_def)
  ultimately obtain s' where s': "insert_block ?s 0 sz None = Inr s'" "lists_ok s'" "same_cfg ?s s'"
      "bmap s' = (bmap ?s)(0 \<mapsto> Blk sz (Some (0 + sz)) None True)"
    using insert_block_ok [of ?s sz 0 None None] assms(1) by auto
  have "insert_block ?t 0 sz None = insert_block ?s 0 sz None"
    by (simp add: insert_block_def prev_arg_def dset_def lv2_def)
  then have "tlsf_init sz base bs lv2_cnt = Inr s'" using assms(1) s'(1) by (simp add: tlsf_init_def)
  moreover have m: "bmap s' = [0 \<mapsto> Blk sz (Some sz) None True]" using s'(4) by auto
  moreover have "tiling sz (bmap s')" unfolding m tiling_def using assms(1) by (auto simp: block_ok_def)
  moreover have "coalesced {} (bmap s')"
    unfolding m coalesced_def using assms(1) by (auto simp: free_at_def split: if_splits)
  moreover have "cfg_ok s'" using s'(3) assms bit_length_pos [OF assms(3)] by (simp add: cfg_ok_def same_cfg_def Suc_le_eq)
  moreover have "allocs s' = Map.empty" unfolding m by (auto simp: allocated_def)
  ultimately show ?thesis using s'(2,3) by (simp add: tlsf_inv_def winv_def same_cfg_def)
qed

section \<open>The interface\<close>

locale range_allocator =
  fixes alloc :: "'s \<Rightarrow> int \<Rightarrow> int \<Rightarrow> (int \<times> 's) result"
    and free :: "'s \<Rightarrow> int \<Rightarrow> 's result"
    and inv :: "'s \<Rightarrow> bool"
    and held :: "'s \<Rightarrow> int \<Rightarrow> int option"
    and limits :: "'s \<Rightarrow> int \<times> int"
  assumes alloc_inv: "inv s \<Longrightarrow> 1 \<le> al \<Longrightarrow> alloc s n al = Inr (p, s') \<Longrightarrow> inv s'"
    and alloc_new: "inv s \<Longrightarrow> 1 \<le> al \<Longrightarrow> alloc s n al = Inr (p, s') \<Longrightarrow> held s p = None"
    and alloc_held: "inv s \<Longrightarrow> 1 \<le> al \<Longrightarrow> alloc s n al = Inr (p, s') \<Longrightarrow>
          \<exists>z. n \<le> z \<and> held s' = (held s)(p \<mapsto> z)"
    and alloc_limits: "inv s \<Longrightarrow> 1 \<le> al \<Longrightarrow> alloc s n al = Inr (p, s') \<Longrightarrow> limits s' = limits s"
    and alloc_error: "inv s \<Longrightarrow> 1 \<le> al \<Longrightarrow> alloc s n al = Inl e \<Longrightarrow> e = MemoryError"
    and free_ok: "inv s \<Longrightarrow> held s p = Some z \<Longrightarrow>
          \<exists>s'. free s p = Inr s' \<and> inv s' \<and> held s' = (held s)(p := None) \<and> limits s' = limits s"
    and held_disjoint: "inv s \<Longrightarrow> held s p = Some z \<Longrightarrow> held s q = Some w \<Longrightarrow> p \<noteq> q \<Longrightarrow>
          {p..<p + z} \<inter> {q..<q + w} = {}"
    and held_limits: "inv s \<Longrightarrow> held s p = Some z \<Longrightarrow> fst (limits s) \<le> p \<and> p + z \<le> snd (limits s)"
begin

text \<open>A block just handed out is disjoint from every block held before.\<close>

lemma alloc_fresh_disjoint:
  assumes "inv s" "1 \<le> al" "alloc s n al = Inr (p, s')" "held s q = Some w"
  shows "{p..<p + n} \<inter> {q..<q + w} = {}"
proof -
  obtain z where z: "n \<le> z" "held s' = (held s)(p \<mapsto> z)" using alloc_held [OF assms(1-3)] by blast
  have "p \<noteq> q" using alloc_new [OF assms(1-3)] assms(4) by auto
  then have "held s' p = Some z" "held s' q = Some w" using z assms(4) by simp_all
  from held_disjoint [OF alloc_inv [OF assms(1-3)] this \<open>p \<noteq> q\<close>] z(1) show ?thesis by auto
qed

lemma alloc_free_restores:
  assumes "inv s" "1 \<le> al" "alloc s n al = Inr (p, s')"
  shows "\<exists>s''. free s' p = Inr s'' \<and> inv s'' \<and> held s'' = held s"
proof -
  obtain z where z: "n \<le> z" "held s' = (held s)(p \<mapsto> z)" using alloc_held [OF assms] by blast
  then have "held s' p = Some z" by simp
  from free_ok [OF alloc_inv [OF assms] this] obtain s'' where
    "free s' p = Inr s''" "inv s''" "held s'' = (held s')(p := None)" by blast
  moreover have "(held s')(p := None) = held s" using z alloc_new [OF assms] by (auto simp: fun_eq_iff)
  ultimately show ?thesis by simp
qed

end

definition tlsf_held :: "tlsf \<Rightarrow> int \<Rightarrow> int option" where
  "tlsf_held s p = allocs s (p - t_base s)"

definition tlsf_limits :: "tlsf \<Rightarrow> int \<times> int" where
  "tlsf_limits s = (t_base s, t_base s + t_size s)"

lemma tlsf_held_update:
  "same_cfg s s' \<Longrightarrow> allocs s' = (allocs s)(a := v) \<Longrightarrow> tlsf_held s' = (tlsf_held s)(a + t_base s := v)"
  by (auto simp: tlsf_held_def same_cfg_def fun_eq_iff)

lemma tlsf_alloc_InrD:
  assumes "tlsf_inv s" "1 \<le> al" "tlsf_alloc s n al = Inr (p, s')"
  shows "tlsf_inv s'" "same_cfg s s'" "al dvd p - t_base s" "tlsf_held s p = None"
    "tlsf_held s' = (tlsf_held s)(p \<mapsto> max (t_block_size s) n)"
proof -
  from tlsf_alloc_contract [OF assms(1,2), of n] assms(3) obtain a where
    a: "p = a + t_base s" "tlsf_inv s'" "same_cfg s s'" "al dvd a" "allocs s a = None"
      "allocs s' = (allocs s)(a \<mapsto> max (t_block_size s) n)" by auto
  then show "tlsf_inv s'" "same_cfg s s'" "al dvd p - t_base s" "tlsf_held s p = None"
    "tlsf_held s' = (tlsf_held s)(p \<mapsto> max (t_block_size s) n)"
    using tlsf_held_update [OF a(3,6)] by (simp_all add: tlsf_held_def)
qed

interpretation tlsf: range_allocator tlsf_alloc tlsf_free tlsf_inv tlsf_held tlsf_limits
proof (unfold_locales, goal_cases)
  case (1 s al n p s')
  then show ?case by (rule tlsf_alloc_InrD)
next
  case (2 s al n p s')
  then show ?case by (rule tlsf_alloc_InrD)
next
  case (3 s al n p s')
  then show ?case using tlsf_alloc_InrD(5) [OF 3] max.cobounded2 by blast
next
  case (4 s al n p s')
  then show ?case using tlsf_alloc_InrD(2) [OF 4] by (simp add: tlsf_limits_def same_cfg_def)
next
  case (5 s al n e)
  then show ?case using tlsf_alloc_contract [OF 5(1,2), of n] by auto
next
  case (6 s p z)
  from tlsf_free_ok [OF 6(1) 6(2) [unfolded tlsf_held_def]] obtain s' where
    s': "tlsf_free s p = Inr s'" "tlsf_inv s'" "same_cfg s s'" "allocs s' = (allocs s)(p - t_base s := None)"
    by auto
  then show ?case using tlsf_held_update [OF s'(3,4)] by (simp add: tlsf_limits_def same_cfg_def)
next
  case (7 s p z q w)
  then have "tiling (t_size s) (bmap s)" by (simp add: tlsf_inv_def winv_def)
  from allocated_disjoint [OF this 7(2,3) [unfolded tlsf_held_def]] 7(4) show ?case by force
next
  case (8 s p z)
  then have "tiling (t_size s) (bmap s)" by (simp add: tlsf_inv_def winv_def)
  from allocated_in_range [OF this 8(2) [unfolded tlsf_held_def]] show ?case by (simp add: tlsf_limits_def)
qed

section \<open>Reachable states\<close>

text \<open>A client that builds an allocator, allocates with any positive alignment and frees what it
  holds.\<close>

inductive tlsf_reach :: "tlsf \<Rightarrow> bool" where
  init: "0 < sz \<Longrightarrow> 1 \<le> bs \<Longrightarrow> 0 < lv2_cnt \<Longrightarrow> bit_length lv2_cnt \<le> bit_length bs \<Longrightarrow>
    tlsf_init sz base bs lv2_cnt = Inr s \<Longrightarrow> tlsf_reach s"
| alloc: "tlsf_reach s \<Longrightarrow> 1 \<le> al \<Longrightarrow> tlsf_alloc s n al = Inr (p, s') \<Longrightarrow> tlsf_reach s'"
| free: "tlsf_reach s \<Longrightarrow> tlsf_held s p = Some z \<Longrightarrow> tlsf_free s p = Inr s' \<Longrightarrow> tlsf_reach s'"

lemma tlsf_reach_inv: "tlsf_reach s \<Longrightarrow> tlsf_inv s"
proof (induction rule: tlsf_reach.induct)
  case (init sz bs lv2_cnt base s)
  then show ?case using tlsf_init_ok [OF init(1-4), of base] by auto
next
  case (alloc s al n p s')
  then show ?case by (blast intro: tlsf.alloc_inv)
next
  case (free s p z s')
  then show ?case using tlsf.free_ok [OF free.IH free(2)] by auto
qed

lemma tlsf_start:
  "0 < sz \<Longrightarrow> \<exists>s. tlsf_init sz base 16 16 = Inr s \<and> tlsf_reach s \<and> tlsf_inv s \<and> tlsf_held s = Map.empty"
proof -
  assume sz: "0 < sz"
  have bl: "bit_length 16 = 5" by (simp add: bit_length.simps)
  obtain s where s: "tlsf_init sz base 16 16 = Inr s" "tlsf_inv s" "allocs s = Map.empty"
    using tlsf_init_ok [OF sz, of 16 16 base] by auto
  have "tlsf_reach s" by (rule tlsf_reach.init [OF sz _ _ _ s(1)]) simp_all
  then show ?thesis using s by (auto simp: tlsf_held_def fun_eq_iff)
qed

section \<open>Properties\<close>

text \<open>Property C1. In every state an allocator reaches, every address of the managed range lies in
  exactly one block, every free list holds exactly the free blocks of its size class, once, the
  first-level counters count them, and no two adjacent blocks are free.\<close>

theorem tlsf_reachable_invariant:
  assumes "tlsf_reach s"
  shows "(\<forall>x. 0 \<le> x \<and> x < t_size s \<longrightarrow> (\<exists>!a. \<exists>b. bmap s a = Some b \<and> a \<le> x \<and> x < a + bsz b)) \<and>
    (\<forall>l k. l < length (storage s) \<longrightarrow> distinct ((storage s ! l) k) \<and>
        set ((storage s ! l) k) = class_of (t_l2_cnt s) (bmap s) l k) \<and>
    (\<forall>l < length (storage s). lv1_entries s ! l = int (card (level_of (bmap s) l))) \<and>
    (\<forall>a b c. bmap s a = Some b \<and> bmap s (a + bsz b) = Some c \<longrightarrow> \<not> (bfree b \<and> bfree c))"
proof -
  have inv: "tlsf_inv s" using assms by (rule tlsf_reach_inv)
  then have w: "winv s" and co: "coalesced {} (bmap s)" by (simp_all add: tlsf_inv_def)
  note t = winvD(3) [OF w] and okD = lists_okD [OF winvD(2) [OF w]]
  have "\<not> (bfree b \<and> bfree c)" if "bmap s a = Some b" "bmap s (a + bsz b) = Some c" for a b c
    using that coalescedD [OF co, of a "bsz b" "bsz c"] by (auto simp: free_at_def)
  then show ?thesis using tiling_covers_unique [OF t] okD(3,4,5) by blast
qed

theorem tlsf_reachable_invariant_witness:
  "\<exists>s. tlsf_init 1024 0 16 16 = Inr s \<and> (\<exists>!a. \<exists>b. bmap s a = Some b \<and> a \<le> 5 \<and> 5 < a + bsz b)"
proof -
  obtain s where s: "tlsf_init 1024 0 16 16 = Inr s" "tlsf_reach s"
    using tlsf_start [of 1024 0] by auto
  have "t_size s = 1024" using tlsf_init_ok [of 1024 16 16 0] s(1) by auto
  then show ?thesis using s(1) tlsf_reachable_invariant [OF s(2)] by auto
qed

text \<open>Property C2. Allocation in a reachable state either returns an aligned block that was not held,
  of the requested size (at least the block size), changes nothing else that is held, and keeps
  the invariant; or it raises \<open>MemoryError\<close>, and then no free block is as large as the rounded
  request.  In particular its assertion and the removal from a free list never fail.\<close>

theorem tlsf_alloc_correct:
  assumes "tlsf_reach s" and "1 \<le> align"
  shows "case tlsf_alloc s n align of
      Inr (p, s') \<Rightarrow> tlsf_inv s' \<and> align dvd p - t_base s \<and> tlsf_held s p = None \<and>
        tlsf_held s' = (tlsf_held s)(p \<mapsto> max (t_block_size s) n)
    | Inl e \<Rightarrow> e = MemoryError \<and> (\<exists>sz. rounded_size s (max (t_block_size s) n) align = Inr sz \<and>
        (\<forall>a b. bmap s a = Some b \<and> bfree b \<longrightarrow> bsz b < sz))"
proof (cases "tlsf_alloc s n align")
  case (Inl e)
  from tlsf_alloc_contract [OF tlsf_reach_inv [OF assms(1)] assms(2), of n] Inl
  show ?thesis by (auto simp: free_at_def)
next
  case (Inr r)
  then show ?thesis
    using tlsf_alloc_InrD [OF tlsf_reach_inv [OF assms(1)] assms(2)] by (cases r) simp
qed

theorem tlsf_alloc_correct_witness:
  "\<exists>s p s'. tlsf_init 64 0 16 16 = Inr s \<and> tlsf_alloc s 20 8 = Inr (p, s') \<and> 8 dvd p \<and>
     tlsf_held s' p = Some 20"
proof -
  obtain s where s: "tlsf_init 64 0 16 16 = Inr s" "tlsf_reach s" using tlsf_start [of 64 0] by auto
  have "case tlsf_init 64 0 16 16 of Inr s \<Rightarrow> (case tlsf_alloc s 20 8 of Inr (p, _) \<Rightarrow> p = 0 | Inl _ \<Rightarrow> False) | Inl _ \<Rightarrow> False"
    by code_simp
  then obtain p s' where r: "tlsf_alloc s 20 8 = Inr (p, s')" using s by (auto split: sum.splits prod.splits)
  have cfg: "t_base s = 0" "t_block_size s = 16" using tlsf_init_ok [of 64 16 16 0] s(1) by auto
  have "8 dvd p" "tlsf_held s' p = Some 20"
    using tlsf_alloc_correct [OF s(2), of 8 20] r cfg by simp_all
  then show ?thesis using s(1) r by blast
qed

text \<open>Property C3. Freeing a held block in a reachable state returns (both merge loops end within their
  fuel and no assertion fails), keeps the invariant and removes exactly that block from what is
  held.\<close>

theorem tlsf_free_correct:
  assumes "tlsf_reach s" and "tlsf_held s p = Some z"
  shows "\<exists>s'. tlsf_free s p = Inr s' \<and> tlsf_inv s' \<and> tlsf_held s' = (tlsf_held s)(p := None)"
  using tlsf.free_ok [OF tlsf_reach_inv [OF assms(1)] assms(2)] by blast

theorem tlsf_free_correct_witness:
  "\<exists>s p s' s''. tlsf_init 64 0 16 16 = Inr s \<and> tlsf_alloc s 20 8 = Inr (p, s') \<and> tlsf_free s' p = Inr s''"
proof -
  obtain s where s: "tlsf_init 64 0 16 16 = Inr s" "tlsf_reach s" using tlsf_start [of 64 0] by auto
  have "case tlsf_init 64 0 16 16 of Inr s \<Rightarrow> (case tlsf_alloc s 20 8 of Inr (p, _) \<Rightarrow> p = 0 | Inl _ \<Rightarrow> False) | Inl _ \<Rightarrow> False"
    by code_simp
  then obtain p s' where r: "tlsf_alloc s 20 8 = Inr (p, s')" using s by (auto split: sum.splits prod.splits)
  have al: "1 \<le> (8::int)" by simp
  have "tlsf_held s' p = Some (max (t_block_size s) 20)"
    using tlsf_alloc_InrD(5) [OF tlsf_reach_inv [OF s(2)] al r] by simp
  from tlsf_free_correct [OF tlsf_reach.alloc [OF s(2) al r] this] show ?thesis using s(1) r by blast
qed

text \<open>Property C4. Whatever the client did, two different blocks it holds do not overlap and every block
  lies in the managed range.\<close>

theorem tlsf_no_overlap:
  assumes "tlsf_reach s" and "tlsf_held s p = Some z" and "tlsf_held s q = Some w" and "p \<noteq> q"
  shows "{p..<p + z} \<inter> {q..<q + w} = {} \<and> t_base s \<le> p \<and> p + z \<le> t_base s + t_size s"
proof -
  note inv = tlsf_reach_inv [OF assms(1)]
  show ?thesis
    using tlsf.held_disjoint [OF inv assms(2-4)] tlsf.held_limits [OF inv assms(2)]
    by (simp add: tlsf_limits_def)
qed

theorem tlsf_no_overlap_witness:
  "\<exists>s p s1 q s2. tlsf_init 128 0 16 16 = Inr s \<and> tlsf_alloc s 20 8 = Inr (p, s1) \<and>
     tlsf_alloc s1 20 8 = Inr (q, s2) \<and> {p..<p + 20} \<inter> {q..<q + 20} = {}"
proof -
  obtain s where s: "tlsf_init 128 0 16 16 = Inr s" "tlsf_reach s" using tlsf_start [of 128 0] by auto
  have al: "1 \<le> (8::int)" by simp
  have "case tlsf_init 128 0 16 16 of Inr s \<Rightarrow> (case tlsf_alloc s 20 8 of Inr (p, s) \<Rightarrow>
      (case tlsf_alloc s 20 8 of Inr (q, _) \<Rightarrow> p \<noteq> q | Inl _ \<Rightarrow> False) | Inl _ \<Rightarrow> False) | Inl _ \<Rightarrow> False"
    by code_simp
  then have run: "case tlsf_alloc s 20 8 of Inr (p, s) \<Rightarrow>
      (case tlsf_alloc s 20 8 of Inr (q, _) \<Rightarrow> p \<noteq> q | Inl _ \<Rightarrow> False) | Inl _ \<Rightarrow> False"
    using s by simp
  then obtain p s1 where r1: "tlsf_alloc s 20 8 = Inr (p, s1)" by (auto split: sum.splits)
  with run obtain q s2 where "tlsf_alloc s1 20 8 = Inr (q, s2)" "p \<noteq> q" by (auto split: sum.splits)
  note r = r1 this
  have bs: "t_block_size s = 16" using tlsf_init_ok [of 128 16 16 0] s(1) by auto
  note A = tlsf_alloc_InrD [OF tlsf_reach_inv [OF s(2)] al r(1)]
  note reach1 = tlsf_reach.alloc [OF s(2) al r(1)]
  note B = tlsf_alloc_InrD [OF tlsf_reach_inv [OF reach1] al r(2)]
  note reach2 = tlsf_reach.alloc [OF reach1 al r(2)]
  have "t_block_size s1 = 16" using A(2) bs by (simp add: same_cfg_def)
  then have "tlsf_held s2 p = Some 20" "tlsf_held s2 q = Some 20" using A(5) B(5) bs r(3) by simp_all
  from tlsf_no_overlap [OF reach2 this r(3)] show ?thesis using s(1) r by blast
qed

text \<open>Property C5. Nothing is lost to fragmentation for good: in a reachable state with no block held, the
  dictionary of blocks is the single free block that covers the whole range.\<close>

theorem tlsf_all_freed_is_whole:
  assumes "tlsf_reach s" and "tlsf_held s = Map.empty"
  shows "bmap s = [0 \<mapsto> Blk (t_size s) (Some (t_size s)) None True]"
proof -
  have inv: "winv s" "coalesced {} (bmap s)" using tlsf_reach_inv [OF assms(1)] by (simp_all add: tlsf_inv_def)
  have "allocs s a = None" for a
    using fun_cong [OF assms(2), of "a + t_base s"] by (simp add: tlsf_held_def)
  then have "allocs s = Map.empty" by (simp add: fun_eq_iff)
  from all_free_one_block [OF winvD(3) [OF inv(1)] inv(2) this] show ?thesis .
qed

theorem tlsf_all_freed_is_whole_witness:
  "\<exists>s. tlsf_init 512 4096 16 16 = Inr s \<and> bmap s = [0 \<mapsto> Blk 512 (Some 512) None True]"
proof -
  obtain s where s: "tlsf_init 512 4096 16 16 = Inr s" "tlsf_reach s" "tlsf_held s = Map.empty"
    using tlsf_start [of 512 4096] by auto
  have "t_size s = 512" using tlsf_init_ok [of 512 16 16 4096] s(1) by auto
  then show ?thesis using s(1) tlsf_all_freed_is_whole [OF s(2,3)] by simp
qed

text \<open>The bump allocator, for requests that fit the buffer: the range returned is aligned
  relative to the base and lies in the buffer, the pointer stays within the size, a wrapping
  allocator never raises and counts its wraps, and one that does not wrap raises \<open>RuntimeError\<close>
  exactly when the aligned range does not fit.\<close>

theorem bump_alloc_correct:
  assumes inv: "bump_inv b" and n: "0 \<le> n" "n \<le> bp_size b" and al: "1 \<le> al"
  shows "case bump_alloc b n al of
      Inr (p, b') \<Rightarrow> bump_inv b' \<and> bp_base b \<le> p \<and> p + n \<le> bp_base b + bp_size b \<and> al dvd p - bp_base b \<and>
        bp_size b' = bp_size b \<and> bp_base b' = bp_base b \<and>
        (if round_up (bp_ptr b) al + n \<le> bp_size b then bp_wraps b' = bp_wraps b \<and> bp_base b + bp_ptr b \<le> p
         else bp_wraps b' = bp_wraps b + 1 \<and> p = bp_base b)
    | Inl e \<Rightarrow> e = RuntimeError \<and> \<not> bp_wrap b \<and> bp_size b < round_up (bp_ptr b) al + n"
proof -
  have "0 \<le> round_up (bp_ptr b) al" "bp_ptr b \<le> round_up (bp_ptr b) al"
    using inv al by (simp_all add: bump_inv_def round_up_nonneg round_up_ge)
  moreover have "round_up 0 al = 0" using al by (simp add: round_up_id)
  ultimately show ?thesis
    using assms by (auto simp: bump_alloc_def py_round_up_def Let_def bump_inv_def)
qed

theorem bump_alloc_correct_witness:
  "bump_inv (bump_init 64 100 True) \<and>
   (case bump_alloc (bump_init 64 100 True) 48 16 of Inr (p, b') \<Rightarrow> bump_inv b' \<and> p + 48 \<le> 164 | Inl _ \<Rightarrow> False)"
proof -
  have inv: "bump_inv (bump_init 64 100 True)" by (simp add: bump_inv_def bump_init_def)
  show ?thesis
    using inv bump_alloc_correct [OF inv, of 48 16]
    by (simp add: bump_init_def split: sum.splits prod.splits)
qed

text \<open>A request larger than the buffer is not refused when the allocator wraps: the range returned runs past
  the end, and so does the pointer.\<close>

lemma bump_wrap_overruns:
  "bump_alloc (bump_init 16 0 True) 32 1 = Inr (0, (bump_init 16 0 True)\<lparr>bp_ptr := 32, bp_wraps := 1\<rparr>)
   \<and> \<not> bump_inv ((bump_init 16 0 True)\<lparr>bp_ptr := 32, bp_wraps := 1\<rparr>)"
  by code_simp

end
