(* ===== verification/PyVal.thy ===== *)
theory PyVal
  imports Prelude "HOL-Library.List_Lexorder" "HOL-Library.Char_ord" "HOL-Library.Product_Lexorder"
begin

text \<open>
  Dynamically typed Python values, for the parts of the program that validate their inputs at
  run time (constructors with \<open>isinstance\<close> checks, decoded JSON, probe results).  A \<open>bool\<close> is an
  instance of \<open>int\<close> in Python, so \<open>is_int\<close> accepts it and the validators reject it explicitly, as
  the source does.  Strings are character lists, compared by code point; a dictionary keeps its
  insertion order.
\<close>

datatype pyval =
    PNone | PBool bool | PInt int | PStr string
  | PList "pyval list" | PTuple "pyval list" | PDict "(string \<times> pyval) list"

section \<open>Type tests and truth value\<close>

fun is_bool :: "pyval \<Rightarrow> bool" where
  "is_bool (PBool _) = True" | "is_bool _ = False"

fun is_int :: "pyval \<Rightarrow> bool" where
  "is_int (PInt _) = True" | "is_int (PBool _) = True" | "is_int _ = False"

fun is_str :: "pyval \<Rightarrow> bool" where
  "is_str (PStr _) = True" | "is_str _ = False"

fun is_mapping :: "pyval \<Rightarrow> bool" where
  "is_mapping (PDict _) = True" | "is_mapping _ = False"

fun is_list :: "pyval \<Rightarrow> bool" where
  "is_list (PList _) = True" | "is_list _ = False"

fun as_int :: "pyval \<Rightarrow> int" where
  "as_int (PInt i) = i" | "as_int (PBool b) = (if b then 1 else 0)" | "as_int _ = 0"

fun truthy :: "pyval \<Rightarrow> bool" where
  "truthy PNone = False"
| "truthy (PBool b) = b"
| "truthy (PInt i) = (i \<noteq> 0)"
| "truthy (PStr s) = (s \<noteq> [])"
| "truthy (PList xs) = (xs \<noteq> [])"
| "truthy (PTuple xs) = (xs \<noteq> [])"
| "truthy (PDict d) = (d \<noteq> [])"

definition nonempty_str :: "pyval \<Rightarrow> bool" where
  "nonempty_str v = (is_str v \<and> truthy v)"

fun items :: "pyval \<Rightarrow> (string \<times> pyval) list" where
  "items (PDict d) = d" | "items _ = []"

definition pget :: "pyval \<Rightarrow> string \<Rightarrow> pyval" where
  "pget v k = (case map_of (items v) k of None \<Rightarrow> PNone | Some x \<Rightarrow> x)"

definition pget_default :: "pyval \<Rightarrow> string \<Rightarrow> pyval \<Rightarrow> pyval" where
  "pget_default v k d = (case map_of (items v) k of None \<Rightarrow> d | Some x \<Rightarrow> x)"

text \<open>The subscript \<open>v[k]\<close> of a mapping.\<close>

definition pindex :: "pyval \<Rightarrow> string \<Rightarrow> pyval result" where
  "pindex v k = dget (items v) k"

fun str_of :: "pyval \<Rightarrow> string" where
  "str_of (PStr s) = s" | "str_of _ = []"

section \<open>Equality\<close>

text \<open>Python's \<open>==\<close>: booleans are numbers, dictionaries compare without their order.\<close>

function py_eq :: "pyval \<Rightarrow> pyval \<Rightarrow> bool"
  and py_eqs :: "pyval list \<Rightarrow> pyval list \<Rightarrow> bool"
  and py_eqd :: "(string \<times> pyval) list \<Rightarrow> (string \<times> pyval) list \<Rightarrow> bool" where
  "py_eq a b = (if is_int a \<and> is_int b then as_int a = as_int b else
     (case (a, b) of
        (PNone, PNone) \<Rightarrow> True
      | (PStr s, PStr t) \<Rightarrow> s = t
      | (PList xs, PList ys) \<Rightarrow> py_eqs xs ys
      | (PTuple xs, PTuple ys) \<Rightarrow> py_eqs xs ys
      | (PDict d, PDict e) \<Rightarrow> length d = length e \<and> py_eqd d e
      | _ \<Rightarrow> False))"
| "py_eqs [] ys = (ys = [])"
| "py_eqs (x # xs) ys = (case ys of [] \<Rightarrow> False | y # ys' \<Rightarrow> py_eq x y \<and> py_eqs xs ys')"
| "py_eqd [] e = True"
| "py_eqd (kv # d) e = (case map_of e (fst kv) of None \<Rightarrow> False | Some w \<Rightarrow> py_eq (snd kv) w \<and> py_eqd d e)"
  by pat_completeness auto
termination
  by (relation "measure (\<lambda>x. case x of Inl (a, b) \<Rightarrow> size a
                                   | Inr (Inl (xs, ys)) \<Rightarrow> size_list size xs
                                   | Inr (Inr (d, e)) \<Rightarrow> size_list (size_prod (\<lambda>_. 0) size) d)")
     (auto simp: size_prod_def split: prod.splits)

declare py_eq.simps [simp del]

lemma py_eq_simps [simp]:
  "py_eq PNone v \<longleftrightarrow> v = PNone"
  "py_eq (PStr s) v \<longleftrightarrow> v = PStr s"
  "py_eq v (PStr s) \<longleftrightarrow> v = PStr s"
  "py_eq (PInt i) v \<longleftrightarrow> is_int v \<and> as_int v = i"
  "py_eq v (PInt i) \<longleftrightarrow> is_int v \<and> as_int v = i"
  by (cases v; auto simp: py_eq.simps)+

section \<open>Formatting and parsing of integers\<close>

definition digit_char :: "nat \<Rightarrow> char" where
  "digit_char d = char_of (48 + d)"

fun str_nat :: "nat \<Rightarrow> string" where
  "str_nat n = (if n < 10 then [digit_char n] else str_nat (n div 10) @ [digit_char (n mod 10)])"

declare str_nat.simps [simp del]

definition str_int :: "int \<Rightarrow> string" where
  "str_int i = (if i < 0 then CHR ''-'' # str_nat (nat (- i)) else str_nat (nat i))"

definition char_digit :: "char \<Rightarrow> nat option" where
  "char_digit c = (let n = (of_char c :: nat) in if 48 \<le> n \<and> n < 58 then Some (n - 48) else None)"

text \<open>\<open>digits acc prev s\<close> reads decimal digits; an underscore is allowed between two digits.\<close>

fun digits :: "nat \<Rightarrow> bool \<Rightarrow> string \<Rightarrow> nat option" where
  "digits acc prev [] = (if prev then Some acc else None)"
| "digits acc prev (c # cs) = (case char_digit c of
       Some d \<Rightarrow> digits (10 * acc + d) True cs
     | None \<Rightarrow> if c = CHR ''_'' \<and> prev then digits acc False cs else None)"

definition is_space :: "char \<Rightarrow> bool" where
  "is_space c = (c \<in> set [CHR '' '', char_of (9::nat), char_of (10::nat), char_of (11::nat), char_of (12::nat),
                          char_of (13::nat), char_of (28::nat), char_of (29::nat), char_of (30::nat), char_of (31::nat)])"

definition strip :: "string \<Rightarrow> string" where
  "strip s = rev (dropWhile is_space (rev (dropWhile is_space s)))"

definition int_of_str :: "string \<Rightarrow> int option" where
  "int_of_str s = (case strip s of
       [] \<Rightarrow> None
     | c # cs \<Rightarrow> if c = CHR ''-'' then map_option (\<lambda>n. - int n) (digits 0 False cs)
                else if c = CHR ''+'' then map_option int (digits 0 False cs)
                else map_option int (digits 0 False (c # cs)))"

text \<open>The conversion \<open>int(v)\<close>.\<close>

definition py_int :: "pyval \<Rightarrow> int result" where
  "py_int v = (case v of
       PInt i \<Rightarrow> Inr i
     | PBool b \<Rightarrow> Inr (if b then 1 else 0)
     | PStr s \<Rightarrow> (case int_of_str s of None \<Rightarrow> Inl ValueError | Some i \<Rightarrow> Inr i)
     | _ \<Rightarrow> Inl TypeError)"

lemma char_digit_digit_char [simp]: "d < 10 \<Longrightarrow> char_digit (digit_char d) = Some d"
  by (simp add: char_digit_def digit_char_def Let_def)

lemma digits_append:
  "digits acc p (s @ [digit_char d]) = map_option (\<lambda>n. 10 * n + d) (digits acc True s)"
  if "d < 10" "s \<noteq> []" "\<forall>c \<in> set s. char_digit c \<noteq> None"
  using that
proof (induction s arbitrary: acc p)
  case Nil
  then show ?case by simp
next
  case (Cons c cs)
  then obtain e where "char_digit c = Some e" by auto
  with Cons show ?case by (cases cs) auto
qed

lemma str_nat_digits: "c \<in> set (str_nat n) \<Longrightarrow> char_digit c \<noteq> None"
proof (induction n rule: str_nat.induct)
  case (1 n)
  then show ?case
    by (subst (asm) (2) str_nat.simps) (auto split: if_splits)
qed

lemma str_nat_nonempty [simp]: "str_nat n \<noteq> []"
  by (subst str_nat.simps) simp

lemma digits_prev: "s \<noteq> [] \<Longrightarrow> \<forall>c \<in> set s. char_digit c \<noteq> None \<Longrightarrow> digits acc p s = digits acc q s"
  by (cases s) auto

lemma digits_str_nat: "digits 0 p (str_nat n) = Some n"
proof (induction n arbitrary: p rule: str_nat.induct)
  case (1 n)
  show ?case
  proof (cases "n < 10")
    case True
    then show ?thesis by (subst str_nat.simps) simp
  next
    case False
    have "digits 0 p (str_nat n) = map_option (\<lambda>m. 10 * m + n mod 10) (digits 0 True (str_nat (n div 10)))"
      using False by (subst str_nat.simps) (simp add: digits_append str_nat_digits)
    also have "\<dots> = Some n" using 1 [OF False] by simp
    finally show ?thesis .
  qed
qed

lemma str_nat_inject [simp]: "str_nat m = str_nat n \<longleftrightarrow> m = n"
  by (metis digits_str_nat option.inject)

section \<open>Validators shared by the dataclass constructors\<close>

definition opt_nonneg :: "pyval \<Rightarrow> int option result" where
  "opt_nonneg v = (if v = PNone then Inr None
     else if \<not> is_int v \<or> is_bool v \<or> as_int v < 0 then Inl ValueError else Inr (Some (as_int v)))"

definition opt_pos :: "pyval \<Rightarrow> int option result" where
  "opt_pos v = (if v = PNone then Inr None
     else if \<not> is_int v \<or> is_bool v \<or> as_int v \<le> 0 then Inl ValueError else Inr (Some (as_int v)))"

definition req_pos :: "pyval \<Rightarrow> int result" where
  "req_pos v = (if \<not> is_int v \<or> is_bool v \<or> as_int v \<le> 0 then Inl ValueError else Inr (as_int v))"

definition req_nonneg :: "pyval \<Rightarrow> int result" where
  "req_nonneg v = (if \<not> is_int v \<or> is_bool v \<or> as_int v < 0 then Inl ValueError else Inr (as_int v))"

fun pint_opt :: "int option \<Rightarrow> pyval" where
  "pint_opt None = PNone" | "pint_opt (Some i) = PInt i"

fun pstr_opt :: "string option \<Rightarrow> pyval" where
  "pstr_opt None = PNone" | "pstr_opt (Some s) = PStr s"

lemma pint_opt_simps [simp]:
  "pint_opt x = PNone \<longleftrightarrow> x = None" "PNone = pint_opt x \<longleftrightarrow> x = None"
  "pint_opt x = PInt i \<longleftrightarrow> x = Some i" "PInt i = pint_opt x \<longleftrightarrow> x = Some i"
  by (cases x; auto)+

lemma opt_nonneg_Inr: "opt_nonneg v = Inr x \<longleftrightarrow> v = pint_opt x \<and> (\<forall>i. x = Some i \<longrightarrow> 0 \<le> i)"
  by (cases v; cases x) (auto simp: opt_nonneg_def)

lemma opt_pos_Inr: "opt_pos v = Inr x \<longleftrightarrow> v = pint_opt x \<and> (\<forall>i. x = Some i \<longrightarrow> 0 < i)"
  by (cases v; cases x) (auto simp: opt_pos_def)

lemma req_pos_Inr: "req_pos v = Inr i \<longleftrightarrow> v = PInt i \<and> 0 < i"
  by (cases v) (auto simp: req_pos_def)

lemma req_nonneg_Inr: "req_nonneg v = Inr i \<longleftrightarrow> v = PInt i \<and> 0 \<le> i"
  by (cases v) (auto simp: req_nonneg_def)

lemmas validator_Inr = opt_nonneg_Inr opt_pos_Inr req_pos_Inr req_nonneg_Inr

lemma opt_nonneg_pint_opt [simp]: "(\<forall>i. x = Some i \<longrightarrow> 0 \<le> i) \<Longrightarrow> opt_nonneg (pint_opt x) = Inr x"
  by (simp add: opt_nonneg_Inr)

lemma opt_pos_pint_opt [simp]: "(\<forall>i. x = Some i \<longrightarrow> 0 < i) \<Longrightarrow> opt_pos (pint_opt x) = Inr x"
  by (simp add: opt_pos_Inr)

section \<open>JSON normal form\<close>

text \<open>\<open>json.loads(json.dumps(v, sort_keys=True))\<close>: tuples become lists and the keys of every
  dictionary are sorted.\<close>

lemma size_snd_dict: "kv \<in> set d \<Longrightarrow> size (snd kv) < Suc (size_list (size_prod (\<lambda>x. 0) size) d)"
  for kv :: "string \<times> pyval"
  by (induction d) auto

function json_roundtrip :: "pyval \<Rightarrow> pyval" where
  "json_roundtrip PNone = PNone"
| "json_roundtrip (PBool b) = PBool b"
| "json_roundtrip (PInt i) = PInt i"
| "json_roundtrip (PStr s) = PStr s"
| "json_roundtrip (PList xs) = PList (map json_roundtrip xs)"
| "json_roundtrip (PTuple xs) = PList (map json_roundtrip xs)"
| "json_roundtrip (PDict d) = PDict (sort_key fst (map (\<lambda>kv. (fst kv, json_roundtrip (snd kv))) d))"
  by pat_completeness auto
termination
  by (relation "measure size") (auto simp: less_Suc_eq_le size_list_estimation' size_snd_dict [simplified less_Suc_eq_le])

lemma map_of_filter_key: "map_of xs k = (case filter (\<lambda>kv. fst kv = k) xs of [] \<Rightarrow> None | kv # _ \<Rightarrow> Some (snd kv))"
  by (induction xs) auto

lemma map_of_sort_key: "map_of (sort_key fst xs) k = map_of xs k"
  by (simp add: map_of_filter_key sort_key_stable)

lemma map_of_map_snd: "map_of (map (\<lambda>kv. (fst kv, g (snd kv))) xs) k = map_option g (map_of xs k)"
  by (induction xs) auto

lemma pget_json_roundtrip:
  "is_mapping v \<Longrightarrow> pget (json_roundtrip v) k = json_roundtrip (pget v k)"
  by (cases v) (auto simp: pget_def map_of_sort_key map_of_map_snd split: option.splits)

lemma pstr_opt_eq [simp]: "pstr_opt x = PStr s \<longleftrightarrow> x = Some s"
  by (cases x) auto

section \<open>String helpers\<close>

fun str_join :: "string \<Rightarrow> string list \<Rightarrow> string" where
  "str_join sep [] = []"
| "str_join sep [x] = x"
| "str_join sep (x # y # xs) = x @ sep @ str_join sep (y # xs)"

definition str_startswith :: "string \<Rightarrow> string \<Rightarrow> bool" where
  "str_startswith s p = (take (length p) s = p)"

definition str_tuple :: "string list \<Rightarrow> string" where
  "str_tuple xs = (case xs of [x] \<Rightarrow> ''('' @ x @ '',)'' | _ \<Rightarrow> ''('' @ str_join '', '' xs @ '')'')"

definition str_opt_int :: "int option \<Rightarrow> string" where
  "str_opt_int v = (case v of None \<Rightarrow> ''None'' | Some i \<Rightarrow> str_int i)"

section \<open>Text of a value\<close>

definition hex_digit :: "nat \<Rightarrow> char" where
  "hex_digit d = (if d < 10 then char_of (48 + d) else char_of (87 + d))"

definition hex2 :: "nat \<Rightarrow> string" where
  "hex2 n = [hex_digit (n div 16), hex_digit (n mod 16)]"

text \<open>\<open>repr\<close> of a string: single quotes unless the text holds a single and no double quote.\<close>

definition repr_char :: "char \<Rightarrow> char \<Rightarrow> string" where
  "repr_char q c = (let n = (of_char c :: nat) in
     if c = q \<or> n = 92 then [char_of (92::nat), c]
     else if n = 9 then [char_of (92::nat), CHR ''t''] else if n = 10 then [char_of (92::nat), CHR ''n'']
     else if n = 13 then [char_of (92::nat), CHR ''r'']
     else if n < 32 \<or> (127 \<le> n \<and> n \<le> 160) \<or> n = 173 then [char_of (92::nat), CHR ''x''] @ hex2 n
     else [c])"

definition repr_str :: "string \<Rightarrow> string" where
  "repr_str s = (let q = (if char_of (39::nat) \<in> set s \<and> char_of (34::nat) \<notin> set s then char_of (34::nat)
                          else char_of (39::nat))
     in q # concat (map (repr_char q) s) @ [q])"

function py_repr :: "pyval \<Rightarrow> string" where
  "py_repr PNone = ''None''"
| "py_repr (PBool b) = (if b then ''True'' else ''False'')"
| "py_repr (PInt i) = str_int i"
| "py_repr (PStr s) = repr_str s"
| "py_repr (PList xs) = ''['' @ str_join '', '' (map py_repr xs) @ '']''"
| "py_repr (PTuple xs) = str_tuple (map py_repr xs)"
| "py_repr (PDict d) = ''{'' @ str_join '', '' (map (\<lambda>kv. repr_str (fst kv) @ '': '' @ py_repr (snd kv)) d) @ ''}''"
  by pat_completeness auto
termination
  by (relation "measure size") (auto simp: less_Suc_eq_le size_list_estimation' size_snd_dict [simplified less_Suc_eq_le])

definition py_str :: "pyval \<Rightarrow> string" where
  "py_str v = (case v of PStr s \<Rightarrow> s | _ \<Rightarrow> py_repr v)"

text \<open>\<open>json.dumps(v, sort_keys=True, separators=(",", ":"))\<close>, every character outside the printable
  ASCII range escaped.\<close>

definition json_char :: "char \<Rightarrow> string" where
  "json_char c = (let n = (of_char c :: nat); b = char_of (92::nat) in
     if n = 34 \<or> n = 92 then [b, c]
     else if n = 8 then [b, CHR ''b''] else if n = 9 then [b, CHR ''t''] else if n = 10 then [b, CHR ''n'']
     else if n = 12 then [b, CHR ''f''] else if n = 13 then [b, CHR ''r'']
     else if n < 32 \<or> 126 < n then [b] @ ''u00'' @ hex2 n else [c])"

definition json_str :: "string \<Rightarrow> string" where
  "json_str s = char_of (34::nat) # concat (map json_char s) @ [char_of (34::nat)]"

function json_text :: "pyval \<Rightarrow> string" where
  "json_text PNone = ''null''"
| "json_text (PBool b) = (if b then ''true'' else ''false'')"
| "json_text (PInt i) = str_int i"
| "json_text (PStr s) = json_str s"
| "json_text (PList xs) = ''['' @ str_join '','' (map json_text xs) @ '']''"
| "json_text (PTuple xs) = ''['' @ str_join '','' (map json_text xs) @ '']''"
| "json_text (PDict d) = ''{'' @ str_join '',''
     (map (\<lambda>kv. json_str (fst kv) @ '':'' @ snd kv) (sort_key fst (map (\<lambda>kv. (fst kv, json_text (snd kv))) d))) @ ''}''"
  by pat_completeness auto
termination
  by (relation "measure size") (auto simp: less_Suc_eq_le size_list_estimation' size_snd_dict [simplified less_Suc_eq_le])

section \<open>Iteration over a value\<close>

definition py_iter :: "pyval \<Rightarrow> pyval list result" where
  "py_iter v = (case v of
       PList xs \<Rightarrow> Inr xs | PTuple xs \<Rightarrow> Inr xs
     | PStr s \<Rightarrow> Inr (map (\<lambda>c. PStr [c]) s) | PDict d \<Rightarrow> Inr (map (\<lambda>kv. PStr (fst kv)) d)
     | _ \<Rightarrow> Inl TypeError)"

text \<open>The text of the exception that \<open>int(v)\<close> raises.\<close>

definition py_int_message :: "pyval \<Rightarrow> string" where
  "py_int_message v =
     (let other = (\<lambda>t. ''int() argument must be a string, a bytes-like object or a real number, not ''
            @ repr_str t)
      in case v of
        PStr s \<Rightarrow> ''invalid literal for int() with base 10: '' @ repr_str s
      | PNone \<Rightarrow> other ''NoneType'' | PList _ \<Rightarrow> other ''list'' | PTuple _ \<Rightarrow> other ''tuple'' | PDict _ \<Rightarrow> other ''dict''
      | _ \<Rightarrow> [])"

section \<open>Splitting and suffixes\<close>

text \<open>\<open>s.split(sep)\<close> for a separator of one character.\<close>

fun split_at :: "char \<Rightarrow> string \<Rightarrow> string list" where
  "split_at sep [] = [[]]"
| "split_at sep (c # cs) = (if c = sep then [] # split_at sep cs
     else (case split_at sep cs of [] \<Rightarrow> [[c]] | w # ws \<Rightarrow> (c # w) # ws))"

definition str_endswith :: "string \<Rightarrow> string \<Rightarrow> bool" where
  "str_endswith s p = (length p \<le> length s \<and> drop (length s - length p) s = p)"

text \<open>\<open>s.rsplit(".", 1)[-1]\<close>.\<close>

definition last_component :: "string \<Rightarrow> string" where
  "last_component s = last (split_at CHR ''.'' s)"

lemma split_at_nonempty [simp]: "split_at sep s \<noteq> []"
  by (induction s) (auto split: list.splits)

lemma split_at_without: "sep \<notin> set s \<Longrightarrow> split_at sep s = [s]"
  by (induction s) auto

lemma last_split_at: "sep \<notin> set (last (split_at sep s))"
proof (induction s)
  case Nil
  then show ?case by simp
next
  case (Cons c cs)
  then show ?case by (cases "split_at sep cs") (auto split: if_splits)
qed

lemma last_component_idem [simp]: "last_component (last_component s) = last_component s"
  unfolding last_component_def using last_split_at split_at_without by fastforce

section \<open>Mappings from a value\<close>

text \<open>\<open>dict(v)\<close>: a mapping, or an iterable of pairs.  A pair whose key is not a string is rejected with ValueError,
  as the callers do when they compare the keys with the allowed names.\<close>

definition dict_pair :: "pyval \<Rightarrow> (string \<times> pyval) result" where
  "dict_pair v = rbind (py_iter v) (\<lambda>xs. case xs of [PStr k, w] \<Rightarrow> Inr (k, w) | _ \<Rightarrow> Inl ValueError)"

definition py_dict :: "pyval \<Rightarrow> (string \<times> pyval) list result" where
  "py_dict v = (case v of PDict d \<Rightarrow> Inr d
     | _ \<Rightarrow> rbind (py_iter v) (\<lambda>xs. rfold (\<lambda>x d. rbind (dict_pair x) (\<lambda>kv. Inr (dset (fst kv) (snd kv) d))) xs []))"

text \<open>\<open>getattr(v, "get")\<close> exists on a mapping only.\<close>

definition get_of :: "pyval \<Rightarrow> string \<Rightarrow> pyval \<Rightarrow> pyval result" where
  "get_of v k d = (if is_mapping v then Inr (pget_default v k d) else Inl AttributeError)"

end
