(* ===== verification/MemoryLedger.thy ===== *)
theory MemoryLedger
  imports PyVal
begin

text \<open>
  The allocation ledger of one selected model (\<open>tinygrad/llm/memory_ledger.py\<close>): allocation
  records with their validation, the scanned budget, the admission decision for one candidate,
  and the serialised reports.  The first section fixes the contract of an admission gate
  (locale \<open>fail_closed_gate\<close>): admission requires a known peak and a known budget that covers it.
  The ledger's decision is one instance, the strategy planner of theory PrefillPlan another.
\<close>

section \<open>The contract of a fail-closed gate\<close>

locale fail_closed_gate =
  fixes admits :: "'b \<Rightarrow> 'c \<Rightarrow> bool"
    and budget_of :: "'b \<Rightarrow> int option"
    and peak_of :: "'c \<Rightarrow> int option"
    and complete :: "'c \<Rightarrow> bool"
  assumes gate_iff:
    "admits b c \<longleftrightarrow> complete c \<and> (\<exists>p v. peak_of c = Some p \<and> budget_of b = Some v \<and> p \<le> v)"
begin

lemma unknown_budget_refuses: "budget_of b = None \<Longrightarrow> \<not> admits b c"
  by (simp add: gate_iff)

lemma unknown_peak_refuses: "peak_of c = None \<Longrightarrow> \<not> admits b c"
  by (simp add: gate_iff)

lemma incomplete_refuses: "\<not> complete c \<Longrightarrow> \<not> admits b c"
  by (simp add: gate_iff)

lemma admitted_within: "admits b c \<Longrightarrow> \<exists>p v. peak_of c = Some p \<and> budget_of b = Some v \<and> p \<le> v"
  by (auto simp: gate_iff)

lemma more_budget:
  "admits b c \<Longrightarrow> budget_of b = Some v \<Longrightarrow> budget_of b' = Some w \<Longrightarrow> v \<le> w \<Longrightarrow> admits b' c"
  by (force simp: gate_iff)

end

section \<open>Allocation records\<close>

datatype allocation_kind =
    GGUF_TENSOR | KV_CACHE | RUNTIME_PERSISTENT | PREFILL_ACTIVATION
  | PREFILL_OUTPUT | PREFILL_SCRATCH | CANDIDATE_WORKSPACE

fun kind_value :: "allocation_kind \<Rightarrow> string" where
  "kind_value GGUF_TENSOR = ''gguf_tensor''"
| "kind_value KV_CACHE = ''kv_cache''"
| "kind_value RUNTIME_PERSISTENT = ''runtime_persistent''"
| "kind_value PREFILL_ACTIVATION = ''prefill_activation''"
| "kind_value PREFILL_OUTPUT = ''prefill_output''"
| "kind_value PREFILL_SCRATCH = ''prefill_scratch''"
| "kind_value CANDIDATE_WORKSPACE = ''candidate_workspace''"

record provenance =
  pv_source :: string
  pv_detail :: string

definition mk_provenance :: "string \<Rightarrow> string \<Rightarrow> provenance result" where
  "mk_provenance s d = (if s = [] \<or> d = [] then Inl ValueError else Inr \<lparr>pv_source = s, pv_detail = d\<rparr>)"

definition provenance_to_dict :: "provenance \<Rightarrow> pyval" where
  "provenance_to_dict p = PDict [(''source'', PStr (pv_source p)), (''detail'', PStr (pv_detail p))]"

record ledger_allocation =
  la_name :: string
  la_kind :: allocation_kind
  la_bytes :: "int option"
  la_provenance :: provenance
  la_candidate_id :: "string option"
  la_tensor_name :: "string option"
  la_payload_bytes :: "int option"
  la_alignment :: "int option"
  la_copies :: "int option"

definition falsy_name :: "string option \<Rightarrow> bool" where
  "falsy_name n = (n = None \<or> n = Some [])"

definition aligned_bytes :: "int \<Rightarrow> int \<Rightarrow> int \<Rightarrow> int" where
  "aligned_bytes payload alignment copies = ((payload + alignment - 1) div alignment) * alignment * copies"

definition check_tensor_fields ::
  "string option \<Rightarrow> int option \<Rightarrow> int option \<Rightarrow> int option \<Rightarrow> int option \<Rightarrow> unit result" where
  "check_tensor_fields tensor_name bytes payload alignment copies =
     (if falsy_name tensor_name then Inl ValueError
      else case (payload, alignment, copies) of
             (Some p, Some a, Some c) \<Rightarrow>
               (case bytes of None \<Rightarrow> Inr ()
                | Some b \<Rightarrow> rguard (b = aligned_bytes p a c) ValueError)
           | _ \<Rightarrow> Inr ())"

definition mk_ledger_allocation ::
  "string \<Rightarrow> allocation_kind \<Rightarrow> pyval \<Rightarrow> provenance \<Rightarrow> string option \<Rightarrow> string option
   \<Rightarrow> pyval \<Rightarrow> pyval \<Rightarrow> pyval \<Rightarrow> ledger_allocation result" where
  "mk_ledger_allocation name kind bytes prov candidate_id tensor_name payload alignment copies =
     rbind (rguard (name \<noteq> []) ValueError) (\<lambda>_.
     rbind (opt_nonneg bytes) (\<lambda>b.
     rbind (opt_nonneg payload) (\<lambda>p.
     rbind (opt_pos alignment) (\<lambda>a.
     rbind (opt_pos copies) (\<lambda>c.
     rbind (rguard (\<not> (kind = CANDIDATE_WORKSPACE \<and> falsy_name candidate_id)) ValueError) (\<lambda>_.
     rbind (rguard (\<not> (kind \<noteq> CANDIDATE_WORKSPACE \<and> candidate_id \<noteq> None)) ValueError) (\<lambda>_.
     rbind (if kind = GGUF_TENSOR then check_tensor_fields tensor_name b p a c else Inr ()) (\<lambda>_.
       Inr \<lparr>la_name = name, la_kind = kind, la_bytes = b, la_provenance = prov,
            la_candidate_id = candidate_id, la_tensor_name = tensor_name, la_payload_bytes = p,
            la_alignment = a, la_copies = c\<rparr>))))))))"

text \<open>The class method computes the allocated bytes before the constructor validates its
  arguments: an alignment of zero divides by zero, a value that is not an integer is a type error.\<close>

definition gguf_tensor :: "string \<Rightarrow> pyval \<Rightarrow> pyval \<Rightarrow> pyval \<Rightarrow> provenance \<Rightarrow> ledger_allocation result" where
  "gguf_tensor tensor_name payload alignment copies prov =
     rbind (if PNone \<in> {payload, alignment, copies} then Inr PNone
            else if \<not> is_int payload \<or> \<not> is_int alignment then Inl TypeError
            else if as_int alignment = 0 then Inl ZeroDivisionError
            else if \<not> is_int copies then Inl TypeError
            else Inr (PInt (aligned_bytes (as_int payload) (as_int alignment) (as_int copies)))) (\<lambda>allocated.
       mk_ledger_allocation (''tensor:'' @ tensor_name) GGUF_TENSOR allocated prov None (Some tensor_name)
         payload alignment copies)"

definition allocation_to_dict :: "ledger_allocation \<Rightarrow> pyval" where
  "allocation_to_dict x = PDict
     [(''name'', PStr (la_name x)), (''kind'', PStr (kind_value (la_kind x))),
      (''bytes'', pint_opt (la_bytes x)), (''provenance'', provenance_to_dict (la_provenance x)),
      (''candidate_id'', pstr_opt (la_candidate_id x)), (''tensor_name'', pstr_opt (la_tensor_name x)),
      (''payload_bytes'', pint_opt (la_payload_bytes x)), (''alignment'', pint_opt (la_alignment x)),
      (''copies'', pint_opt (la_copies x))]"

section \<open>Budget, ledger and decision\<close>

record scanned_budget =
  sb_free :: "int option"
  sb_reserve :: "int option"
  sb_provenance :: provenance

definition mk_scanned_budget :: "pyval \<Rightarrow> pyval \<Rightarrow> provenance \<Rightarrow> scanned_budget result" where
  "mk_scanned_budget free reserve prov =
     rbind (opt_nonneg free) (\<lambda>f. rbind (opt_nonneg reserve) (\<lambda>r.
       Inr \<lparr>sb_free = f, sb_reserve = r, sb_provenance = prov\<rparr>))"

definition admitted_bytes :: "scanned_budget \<Rightarrow> int option" where
  "admitted_bytes b = (case (sb_free b, sb_reserve b) of
       (Some f, Some r) \<Rightarrow> Some (max 0 (f - r)) | _ \<Rightarrow> None)"

definition budget_to_dict :: "scanned_budget \<Rightarrow> pyval" where
  "budget_to_dict b = PDict
     [(''free_bytes'', pint_opt (sb_free b)), (''reserve_bytes'', pint_opt (sb_reserve b)),
      (''admitted_bytes'', pint_opt (admitted_bytes b)), (''provenance'', provenance_to_dict (sb_provenance b))]"

record exact_decision =
  ed_candidate_id :: string
  ed_admitted :: bool
  ed_peak_bytes :: "int option"
  ed_budget :: scanned_budget
  ed_allocations :: "ledger_allocation list"
  ed_reasons :: "string list"

definition decision_to_dict :: "exact_decision \<Rightarrow> pyval" where
  "decision_to_dict d = PDict
     [(''candidate_id'', PStr (ed_candidate_id d)), (''admitted'', PBool (ed_admitted d)),
      (''peak_bytes'', pint_opt (ed_peak_bytes d)), (''budget'', budget_to_dict (ed_budget d)),
      (''allocations'', PList (map allocation_to_dict (ed_allocations d))),
      (''reasons'', PList (map PStr (ed_reasons d)))]"

record memory_ledger =
  ml_allocations :: "ledger_allocation list"

definition mk_memory_ledger :: "ledger_allocation list \<Rightarrow> memory_ledger result" where
  "mk_memory_ledger xs = (if distinct (map la_name xs) then Inr \<lparr>ml_allocations = xs\<rparr> else Inl ValueError)"

text \<open>\<open>sum\<close> of byte counts of which some may be unknown.\<close>

fun known_total :: "int option list \<Rightarrow> int option" where
  "known_total [] = Some 0"
| "known_total (None # xs) = None"
| "known_total (Some b # xs) = map_option ((+) b) (known_total xs)"

definition required_kinds :: "allocation_kind list" where
  "required_kinds = [GGUF_TENSOR, KV_CACHE, RUNTIME_PERSISTENT, PREFILL_ACTIVATION, PREFILL_OUTPUT, PREFILL_SCRATCH]"

definition selected_allocations :: "memory_ledger \<Rightarrow> string \<Rightarrow> ledger_allocation list" where
  "selected_allocations ledger cid =
     filter (\<lambda>x. la_candidate_id x \<in> {None, Some cid}) (ml_allocations ledger)"

definition decide :: "memory_ledger \<Rightarrow> scanned_budget \<Rightarrow> string \<Rightarrow> exact_decision" where
  "decide ledger budget cid =
     (let selected = selected_allocations ledger cid;
          unknown = map (\<lambda>x. ''unknown allocation bytes: '' @ la_name x) (filter (\<lambda>x. la_bytes x = None) selected);
          absent = map (\<lambda>k. ''missing exact allocation class: '' @ kind_value k)
                     (filter (\<lambda>k. k \<notin> set (map la_kind selected)) required_kinds);
          workspace = (if list_ex (\<lambda>x. la_kind x = CANDIDATE_WORKSPACE \<and> la_candidate_id x = Some cid) selected then []
                       else [''missing exact allocation class: candidate_workspace['' @ cid @ '']'']);
          no_budget = (if admitted_bytes budget = None then [''scanned-memory budget is unknown''] else []);
          peak = known_total (map la_bytes selected);
          over = (case (peak, admitted_bytes budget) of
                    (Some p, Some b) \<Rightarrow>
                      if p > b then [''exact peak '' @ str_int p @ '' exceeds scanned-memory budget '' @ str_int b
                                     @ '' by '' @ str_int (p - b) @ '' bytes''] else []
                  | _ \<Rightarrow> []);
          reasons = unknown @ absent @ workspace @ no_budget @ over
      in \<lparr>ed_candidate_id = cid, ed_admitted = (reasons = []), ed_peak_bytes = peak, ed_budget = budget,
          ed_allocations = selected, ed_reasons = reasons\<rparr>)"

definition candidates :: "memory_ledger \<Rightarrow> string list" where
  "candidates ledger = sort (remdups (concat (map (\<lambda>x. case la_candidate_id x of None \<Rightarrow> [] | Some c \<Rightarrow> [c])
     (ml_allocations ledger))))"

definition exact_memory_decisions :: "memory_ledger \<Rightarrow> scanned_budget \<Rightarrow> string list \<Rightarrow> exact_decision list" where
  "exact_memory_decisions ledger budget cids = map (decide ledger budget) cids"

section \<open>Well-formed records\<close>

text \<open>The invariant that the validating constructors establish.\<close>

definition allocation_wf :: "ledger_allocation \<Rightarrow> bool" where
  "allocation_wf x \<longleftrightarrow> la_name x \<noteq> []
     \<and> (\<forall>b. la_bytes x = Some b \<longrightarrow> 0 \<le> b) \<and> (\<forall>b. la_payload_bytes x = Some b \<longrightarrow> 0 \<le> b)
     \<and> (\<forall>a. la_alignment x = Some a \<longrightarrow> 0 < a) \<and> (\<forall>c. la_copies x = Some c \<longrightarrow> 0 < c)
     \<and> (la_kind x = CANDIDATE_WORKSPACE \<longleftrightarrow> la_candidate_id x \<noteq> None)
     \<and> la_candidate_id x \<noteq> Some []
     \<and> (la_kind x = GGUF_TENSOR \<longrightarrow> \<not> falsy_name (la_tensor_name x) \<and>
          (\<forall>p a c b. la_payload_bytes x = Some p \<longrightarrow> la_alignment x = Some a \<longrightarrow> la_copies x = Some c \<longrightarrow>
             la_bytes x = Some b \<longrightarrow> b = aligned_bytes p a c))"

definition ledger_wf :: "memory_ledger \<Rightarrow> bool" where
  "ledger_wf l \<longleftrightarrow> distinct (map la_name (ml_allocations l)) \<and> (\<forall>x \<in> set (ml_allocations l). allocation_wf x)"

lemma mk_ledger_allocation_wf:
  "mk_ledger_allocation name kind b prov cid tn p a c = Inr x \<Longrightarrow> allocation_wf x"
  by (auto simp: mk_ledger_allocation_def rbind_eq_Inr validator_Inr allocation_wf_def check_tensor_fields_def
      falsy_name_def split: if_splits option.splits)

lemma mk_ledger_allocation_fields:
  assumes "mk_ledger_allocation name kind b prov cid tn p a c = Inr x"
  shows "la_name x = name" "la_kind x = kind" "pint_opt (la_bytes x) = b" "la_provenance x = prov"
    "la_candidate_id x = cid" "la_tensor_name x = tn" "pint_opt (la_payload_bytes x) = p"
    "pint_opt (la_alignment x) = a" "pint_opt (la_copies x) = c"
  using assms by (auto simp: mk_ledger_allocation_def rbind_eq_Inr validator_Inr)

lemma aligned_bytes_ge:
  assumes "0 < a" "0 < c" "0 \<le> p"
  shows "p * c \<le> aligned_bytes p a c"
proof -
  have "(p + a - 1) mod a < a" using assms(1) by simp
  moreover have "(p + a - 1) div a * a + (p + a - 1) mod a = p + a - 1" by simp
  ultimately have "p \<le> (p + a - 1) div a * a" by linarith
  then show ?thesis using assms(2) by (simp add: aligned_bytes_def mult_right_mono)
qed

lemma aligned_bytes_dvd: "a dvd aligned_bytes p a c"
  by (simp add: aligned_bytes_def)

lemma gguf_tensor_Inr:
  assumes "gguf_tensor tn payload alignment copies prov = Inr x"
  shows "la_name x = ''tensor:'' @ tn" "la_kind x = GGUF_TENSOR" "la_candidate_id x = None"
    "allocation_wf x" "pint_opt (la_payload_bytes x) = payload" "pint_opt (la_alignment x) = alignment"
    "pint_opt (la_copies x) = copies"
    "la_bytes x = (case (la_payload_bytes x, la_alignment x, la_copies x) of
        (Some p, Some a, Some c) \<Rightarrow> Some (aligned_bytes p a c) | _ \<Rightarrow> None)"
proof -
  from assms obtain v where v: "mk_ledger_allocation (''tensor:'' @ tn) GGUF_TENSOR v prov None (Some tn)
      payload alignment copies = Inr x"
    and vb: "v = (if PNone \<in> {payload, alignment, copies} then PNone
       else PInt (aligned_bytes (as_int payload) (as_int alignment) (as_int copies)))"
    by (auto simp: gguf_tensor_def rbind_eq_Inr split: if_splits)
  note f = mk_ledger_allocation_fields [OF v]
  show "la_name x = ''tensor:'' @ tn" "la_kind x = GGUF_TENSOR" "la_candidate_id x = None"
    "pint_opt (la_payload_bytes x) = payload" "pint_opt (la_alignment x) = alignment"
    "pint_opt (la_copies x) = copies"
    by (fact f)+
  show "allocation_wf x" by (rule mk_ledger_allocation_wf [OF v])
  show "la_bytes x = (case (la_payload_bytes x, la_alignment x, la_copies x) of
        (Some p, Some a, Some c) \<Rightarrow> Some (aligned_bytes p a c) | _ \<Rightarrow> None)"
    using f(3) vb f(7-9) [symmetric]
    by (cases "la_payload_bytes x"; cases "la_alignment x"; cases "la_copies x"; cases "la_bytes x") auto
qed

section \<open>The decision\<close>

lemma known_total_None: "known_total xs = None \<longleftrightarrow> None \<in> set xs"
  by (induction xs rule: known_total.induct) auto

lemma known_total_Some: "known_total xs = Some t \<longleftrightarrow> None \<notin> set xs \<and> t = sum_list (map the xs)"
  by (induction xs arbitrary: t rule: known_total.induct) auto

definition ledger_complete :: "ledger_allocation list \<Rightarrow> string \<Rightarrow> bool" where
  "ledger_complete xs cid \<longleftrightarrow> set required_kinds \<subseteq> la_kind ` set xs
     \<and> (\<exists>x \<in> set xs. la_kind x = CANDIDATE_WORKSPACE \<and> la_candidate_id x = Some cid)"

lemma decide_fields [simp]:
  "ed_candidate_id (decide l b cid) = cid" "ed_budget (decide l b cid) = b"
  "ed_allocations (decide l b cid) = selected_allocations l cid"
  "ed_peak_bytes (decide l b cid) = known_total (map la_bytes (selected_allocations l cid))"
  "ed_admitted (decide l b cid) \<longleftrightarrow> ed_reasons (decide l b cid) = []"
  by (simp_all add: decide_def Let_def)

lemma decide_reasons_empty:
  "ed_reasons (decide l b cid) = [] \<longleftrightarrow>
     ledger_complete (selected_allocations l cid) cid
     \<and> (\<exists>p v. known_total (map la_bytes (selected_allocations l cid)) = Some p \<and> admitted_bytes b = Some v \<and> p \<le> v)"
  (is "?L \<longleftrightarrow> ?R")
proof -
  let ?s = "selected_allocations l cid"
  have "filter (\<lambda>x. la_bytes x = None) ?s = [] \<longleftrightarrow> known_total (map la_bytes ?s) \<noteq> None"
    by (simp add: known_total_None filter_empty_conv image_iff) (metis not_None_eq)
  moreover have "filter (\<lambda>k. k \<notin> set (map la_kind ?s)) required_kinds = [] \<longleftrightarrow>
      set required_kinds \<subseteq> la_kind ` set ?s"
    by (auto simp: filter_empty_conv)
  ultimately show ?thesis
    by (cases "admitted_bytes b"; cases "known_total (map la_bytes ?s)")
      (auto simp: decide_def Let_def ledger_complete_def list_ex_iff)
qed

interpretation ledger: fail_closed_gate
  "\<lambda>b c. ed_admitted (decide (fst c) b (snd c))" admitted_bytes
  "\<lambda>c. known_total (map la_bytes (selected_allocations (fst c) (snd c)))"
  "\<lambda>c. ledger_complete (selected_allocations (fst c) (snd c)) (snd c)"
  by unfold_locales (simp add: decide_reasons_empty)

end
