(* ===== verification/DeviceFacts.thy ===== *)
theory DeviceFacts
  imports MemoryLedger
begin

text \<open>
  Facts about the selected device (\<open>tinygrad/llm/device_facts.py\<close>): the capability and probe
  records, the state of a fact set, the canonical hardware identity, the schema check of serialised
  facts, and the scan that runs the two probes.  A probe is an argument: what it returned, or the
  text of the exception it raised.  \<open>sha256\<close> is an argument as well.  The subprocess probes
  (\<open>rocm-smi\<close>, \<open>rocminfo\<close>) and their output parsers are not modelled.
\<close>

definition schema_version :: int where
  "schema_version = 2"

definition queue_modes :: "string list" where
  "queue_modes = [''PM4'', ''AQL'']"

definition valid_queue_mode :: "pyval \<Rightarrow> bool" where
  "valid_queue_mode v = (v \<in> set (map PStr queue_modes))"

section \<open>Records\<close>

definition optional_int :: "pyval \<Rightarrow> int option result" where
  "optional_int v = (if v = PNone then Inr None
     else rbind (py_int v) (\<lambda>i. Inr (if i \<ge> 0 then Some i else None)))"

record device_capabilities =
  cap_wave_size :: "int option"
  cap_max_workgroup_threads :: "int option"
  cap_max_workgroup_dimensions :: "int list option"
  cap_lds_bytes :: "int option"
  cap_lds_allocation_granularity :: "int option"
  cap_global_allocation_granularity :: "int option"

definition capabilities_to_json :: "device_capabilities \<Rightarrow> pyval" where
  "capabilities_to_json c = PDict
     [(''wave_size'', pint_opt (cap_wave_size c)), (''max_workgroup_threads'', pint_opt (cap_max_workgroup_threads c)),
      (''max_workgroup_dimensions'', (case cap_max_workgroup_dimensions c of None \<Rightarrow> PNone | Some d \<Rightarrow> PTuple (map PInt d))),
      (''lds_bytes'', pint_opt (cap_lds_bytes c)),
      (''lds_allocation_granularity'', pint_opt (cap_lds_allocation_granularity c)),
      (''global_allocation_granularity'', pint_opt (cap_global_allocation_granularity c))]"

definition capabilities_from_json :: "pyval \<Rightarrow> device_capabilities result" where
  "capabilities_from_json v =
     (if \<not> is_mapping v then Inl AttributeError
      else (let dims = pget v ''max_workgroup_dimensions'' in
        rbind (optional_int (pget v ''wave_size'')) (\<lambda>ws.
        rbind (optional_int (pget v ''max_workgroup_threads'')) (\<lambda>mt.
        rbind (if dims = PNone then Inr None else rbind (py_iter dims) (\<lambda>xs. rbind (rmap py_int xs) (\<lambda>ys. Inr (Some ys)))) (\<lambda>md.
        rbind (optional_int (pget v ''lds_bytes'')) (\<lambda>lb.
        rbind (optional_int (pget v ''lds_allocation_granularity'')) (\<lambda>lg.
        rbind (optional_int (pget v ''global_allocation_granularity'')) (\<lambda>gg.
          Inr \<lparr>cap_wave_size = ws, cap_max_workgroup_threads = mt, cap_max_workgroup_dimensions = md,
               cap_lds_bytes = lb, cap_lds_allocation_granularity = lg, cap_global_allocation_granularity = gg\<rparr>))))))))"

record probe_record =
  pr_source :: string
  pr_observed_at :: string
  pr_state :: string
  pr_error :: "string option"

definition mk_probe_record :: "string \<Rightarrow> string \<Rightarrow> string \<Rightarrow> string option \<Rightarrow> probe_record result" where
  "mk_probe_record source observed_at state err =
     (if state \<notin> set [''ok'', ''partial'', ''unknown'', ''error''] then Inl ValueError
      else Inr \<lparr>pr_source = source, pr_observed_at = observed_at, pr_state = state, pr_error = err\<rparr>)"

definition probe_to_json :: "probe_record \<Rightarrow> pyval" where
  "probe_to_json p = PDict [(''source'', PStr (pr_source p)), (''observed_at'', PStr (pr_observed_at p)),
     (''state'', PStr (pr_state p)), (''error'', pstr_opt (pr_error p))]"

record device_facts =
  df_selected_device :: string
  df_backend :: "string option"
  df_architecture :: "string option"
  df_total_vram_bytes :: "int option"
  df_free_vram_bytes :: "int option"
  df_capabilities :: device_capabilities
  df_target_probe :: probe_record
  df_memory_probe :: probe_record
  df_errors :: "string list"
  df_schema_version :: int
  df_queue_mode :: "string option"

definition facts_state :: "device_facts \<Rightarrow> string" where
  "facts_state f =
     (if df_errors f \<noteq> [] \<or> pr_state (df_target_probe f) = ''error'' \<or> pr_state (df_memory_probe f) = ''error''
      then ''error''
      else if df_backend f \<noteq> None \<and> df_architecture f \<noteq> None \<and> df_total_vram_bytes f \<noteq> None
              \<and> df_free_vram_bytes f \<noteq> None \<and> (df_backend f = Some ''AMD'' \<longrightarrow> df_queue_mode f \<noteq> None)
      then ''ok'' else ''unknown'')"

definition canonical_hardware :: "device_facts \<Rightarrow> pyval" where
  "canonical_hardware f = PDict
     [(''schema_version'', PInt (df_schema_version f)), (''selected_device'', PStr (df_selected_device f)),
      (''backend'', pstr_opt (df_backend f)), (''architecture'', pstr_opt (df_architecture f)),
      (''queue_mode'', pstr_opt (df_queue_mode f)), (''total_vram_bytes'', pint_opt (df_total_vram_bytes f)),
      (''capabilities'', capabilities_to_json (df_capabilities f))]"

definition canonical_hardware_identity :: "(string \<Rightarrow> string) \<Rightarrow> device_facts \<Rightarrow> string" where
  "canonical_hardware_identity sha256 f = sha256 (json_text (canonical_hardware f))"

definition probe_summary :: "probe_record \<Rightarrow> pyval" where
  "probe_summary p = PDict [(''source'', PStr (pr_source p)), (''state'', PStr (pr_state p)), (''error'', pstr_opt (pr_error p))]"

definition planning_snapshot :: "(string \<Rightarrow> string) \<Rightarrow> device_facts \<Rightarrow> pyval" where
  "planning_snapshot sha256 f = PDict (items (canonical_hardware f) @
     [(''canonical_hardware_identity'', PStr (canonical_hardware_identity sha256 f)),
      (''free_vram_bytes'', pint_opt (df_free_vram_bytes f)), (''state'', PStr (facts_state f)),
      (''target_probe'', probe_summary (df_target_probe f)), (''memory_probe'', probe_summary (df_memory_probe f)),
      (''errors'', PList (map PStr (df_errors f)))])"

definition facts_to_json :: "device_facts \<Rightarrow> pyval" where
  "facts_to_json f = PDict
     [(''schema_version'', PInt (df_schema_version f)), (''selected_device'', PStr (df_selected_device f)),
      (''backend'', pstr_opt (df_backend f)), (''architecture'', pstr_opt (df_architecture f)),
      (''queue_mode'', pstr_opt (df_queue_mode f)), (''total_vram_bytes'', pint_opt (df_total_vram_bytes f)),
      (''free_vram_bytes'', pint_opt (df_free_vram_bytes f)), (''capabilities'', capabilities_to_json (df_capabilities f)),
      (''target_probe'', probe_to_json (df_target_probe f)), (''memory_probe'', probe_to_json (df_memory_probe f)),
      (''errors'', PList (map PStr (df_errors f)))]"

section \<open>Schema check\<close>

definition validate_device_facts_snapshot :: "pyval \<Rightarrow> pyval result" where
  "validate_device_facts_snapshot v =
     (if \<not> is_mapping v then Inl DeviceFactsSchemaError
      else (let raw = pget_default v ''schema_version'' (PInt 1);
                backend = pget v ''backend''; queue_mode = pget v ''queue_mode'' in
        if \<not> is_int raw \<or> is_bool raw then Inl MalformedDeviceFactsError
        else if as_int raw = 1 then Inl StaleDeviceFactsError
        else if as_int raw \<noteq> schema_version then Inl UnsupportedDeviceFactsSchemaError
        else if backend = PStr ''AMD'' \<and> \<not> valid_queue_mode queue_mode then Inl MalformedDeviceFactsError
        else if queue_mode \<noteq> PNone \<and> \<not> valid_queue_mode queue_mode then Inl MalformedDeviceFactsError
        else Inr v))"

section \<open>The scan\<close>

datatype probe_outcome = Returned pyval | Raised string

definition run_probe :: "probe_outcome \<Rightarrow> string \<Rightarrow> string \<Rightarrow> pyval \<times> probe_record" where
  "run_probe outcome source now = (case outcome of
       Returned v \<Rightarrow>
         if is_mapping v then
           (v, \<lparr>pr_source = py_str (pget_default v ''provenance'' (PStr source)), pr_observed_at = now,
                pr_state = (if truthy v then ''ok'' else ''unknown''), pr_error = None\<rparr>)
         else (PDict [], \<lparr>pr_source = source, pr_observed_at = now, pr_state = ''error'',
                          pr_error = Some ''TypeError: probe result is not a mapping''\<rparr>)
     | Raised text \<Rightarrow> (PDict [], \<lparr>pr_source = source, pr_observed_at = now, pr_state = ''error'', pr_error = Some text\<rparr>))"

definition vram_values :: "pyval \<Rightarrow> int option \<times> int option \<times> string list" where
  "vram_values memory =
     (case optional_int (pget memory ''total_vram_bytes'') of
        Inl _ \<Rightarrow> (None, None, [''invalid VRAM probe values: '' @ py_int_message (pget memory ''total_vram_bytes'')])
      | Inr t \<Rightarrow> (case optional_int (pget memory ''free_vram_bytes'') of
            Inl _ \<Rightarrow> (None, None, [''invalid VRAM probe values: '' @ py_int_message (pget memory ''free_vram_bytes'')])
          | Inr f \<Rightarrow> (t, f, [])))"

definition scan_device_facts ::
  "string \<Rightarrow> probe_outcome \<Rightarrow> probe_outcome \<Rightarrow> string \<Rightarrow> device_facts result" where
  "scan_device_facts device target_probe memory_probe now =
     (case run_probe target_probe ''tinygrad-device'' now of (target, target_record) \<Rightarrow>
      case run_probe memory_probe ''rocm-smi'' now of (memory, memory_record) \<Rightarrow>
      case vram_values memory of (tot, free, errors) \<Rightarrow>
        (let exceeds = (case (tot, free) of (Some t, Some f) \<Rightarrow>
                if f > t then [''free VRAM ('' @ str_int f @ '') exceeds total VRAM ('' @ str_int t @ '')''] else []
              | _ \<Rightarrow> []) in
         rbind (capabilities_from_json (pget_default target ''capabilities'' target)) (\<lambda>caps.
           (let backend = pget target ''backend'';
                architecture = pget_default target ''architecture'' (pget target ''arch'');
                mode = pget target ''queue_mode'';
                bad = (if backend = PStr ''AMD'' \<and> \<not> valid_queue_mode mode then
                         [''AMD target probe did not report effective queue mode'']
                       else if mode \<noteq> PNone \<and> \<not> valid_queue_mode mode then
                         [''invalid target queue mode '' @ py_repr mode]
                       else [])
            in Inr \<lparr>df_selected_device = device,
                 df_backend = (if backend = PNone then None else Some (py_str backend)),
                 df_architecture = (if architecture = PNone then None else Some (py_str architecture)),
                 df_total_vram_bytes = tot, df_free_vram_bytes = free, df_capabilities = caps,
                 df_target_probe = target_record, df_memory_probe = memory_record,
                 df_errors = errors @ exceeds @ bad, df_schema_version = schema_version,
                 df_queue_mode = (if bad \<noteq> [] \<or> mode = PNone then None else Some (str_of mode))\<rparr>))))"

section \<open>The scanned memory budget\<close>

text \<open>\<open>scanned_device_memory_budget\<close> of \<open>tinygrad/llm/admission.py\<close>.  The budget is known only when the
  memory probe succeeded and its numbers are consistent.\<close>

definition facts_complete :: "device_facts \<Rightarrow> bool" where
  "facts_complete f = (pr_state (df_memory_probe f) = ''ok'' \<and>
     (case (df_total_vram_bytes f, df_free_vram_bytes f, cap_global_allocation_granularity (df_capabilities f)) of
        (Some t, Some fr, Some a) \<Rightarrow> a > 0 \<and> 0 \<le> fr \<and> fr \<le> t | _ \<Rightarrow> False))"

definition scanned_device_memory_budget :: "device_facts \<Rightarrow> scanned_budget result" where
  "scanned_device_memory_budget f =
     (let complete = facts_complete f;
          t = the (df_total_vram_bytes f); fr = the (df_free_vram_bytes f);
          a = the (cap_global_allocation_granularity (df_capabilities f));
          occupied = max 0 (t - fr);
          reserve = (if complete then Some (((occupied + a - 1) div a) * a) else None) in
      rbind (mk_provenance (pr_source (df_memory_probe f))
        ''live free VRAM minus live occupied-byte disturbance reserve, rounded to scanned allocator granularity'') (\<lambda>prov.
        mk_scanned_budget (if complete then pint_opt (df_free_vram_bytes f) else PNone) (pint_opt reserve) prov))"

section \<open>Lemmas\<close>

lemma round_up_div_ge: "0 < a \<Longrightarrow> x \<le> (x + a - 1) div a * a" for a x :: int
  using aligned_bytes_ge [of a 1 "max x 0"] aligned_bytes_def
  by (smt (verit, ccfv_threshold) div_mod_decomp_int pos_mod_bound)

lemma scanned_budget_known:
  assumes "scanned_device_memory_budget f = Inr b" and "admitted_bytes b = Some v"
  obtains t fr a where "df_total_vram_bytes f = Some t" "df_free_vram_bytes f = Some fr"
    "cap_global_allocation_granularity (df_capabilities f) = Some a" "0 < a" "0 \<le> fr" "fr \<le> t"
    "pr_state (df_memory_probe f) = ''ok''" "sb_free b = Some fr"
    "sb_reserve b = Some ((t - fr + a - 1) div a * a)" "v = max 0 (fr - (t - fr + a - 1) div a * a)"
proof (cases "facts_complete f")
  case True
  then show ?thesis
    using assms that
    by (auto simp: scanned_device_memory_budget_def Let_def rbind_eq_Inr mk_scanned_budget_def admitted_bytes_def
        facts_complete_def validator_Inr max_def split: option.splits)
next
  case False
  then have "sb_free b = None"
    using assms(1) by (auto simp: scanned_device_memory_budget_def Let_def rbind_eq_Inr mk_scanned_budget_def validator_Inr)
  with assms(2) show ?thesis by (simp add: admitted_bytes_def split: option.splits)
qed

end
