(* ===== verification/PrefillPlan.thy ===== *)
theory PrefillPlan
  imports MemoryLedger
begin

text \<open>
  The strategy planner for prefill (\<open>tinygrad/llm/prefill_memory_plan.py\<close>): byte terms with
  provenance, the device facts around the scanned budget, candidates with their invocation coverage,
  the per-candidate decision and the plan.  The decision of one candidate is a second instance of the
  gate contract of theory MemoryLedger.
\<close>

section \<open>Vocabulary\<close>

datatype strategy = FULL_RESIDENT_OVERLAY | BOUNDED_PACKED_TILES | DIRECT_PACKED_FALLBACK | REFUSE

fun strategy_value :: "strategy \<Rightarrow> string" where
  "strategy_value FULL_RESIDENT_OVERLAY = ''FULL_RESIDENT_OVERLAY''"
| "strategy_value BOUNDED_PACKED_TILES = ''BOUNDED_PACKED_TILES''"
| "strategy_value DIRECT_PACKED_FALLBACK = ''DIRECT_PACKED_FALLBACK''"
| "strategy_value REFUSE = ''REFUSE''"

datatype byte_lifetime = PERSISTENT | PREFILL_PEAK | WORKSPACE_LIFETIME | SAFETY_RESERVE

fun lifetime_value :: "byte_lifetime \<Rightarrow> string" where
  "lifetime_value PERSISTENT = ''persistent''"
| "lifetime_value PREFILL_PEAK = ''prefill_peak''"
| "lifetime_value WORKSPACE_LIFETIME = ''candidate_workspace''"
| "lifetime_value SAFETY_RESERVE = ''safety_reserve''"

record byte_term =
  bt_name :: string
  bt_bytes :: "int option"
  bt_provenance :: string
  bt_formula :: string
  bt_lifetime :: byte_lifetime

definition mk_byte_term :: "string \<Rightarrow> pyval \<Rightarrow> string \<Rightarrow> string \<Rightarrow> byte_lifetime \<Rightarrow> byte_term result" where
  "mk_byte_term name bytes prov formula lifetime =
     (if name = [] \<or> prov = [] \<or> formula = [] then Inl ValueError
      else rbind (opt_nonneg bytes) (\<lambda>b. Inr \<lparr>bt_name = name, bt_bytes = b, bt_provenance = prov,
        bt_formula = formula, bt_lifetime = lifetime\<rparr>))"

definition bt_known :: "byte_term \<Rightarrow> bool" where
  "bt_known t = (bt_bytes t \<noteq> None)"

definition byte_term_to_dict :: "byte_term \<Rightarrow> pyval" where
  "byte_term_to_dict t = PDict
     [(''name'', PStr (bt_name t)), (''bytes'', pint_opt (bt_bytes t)), (''provenance'', PStr (bt_provenance t)),
      (''formula'', PStr (bt_formula t)), (''lifetime'', PStr (lifetime_value (bt_lifetime t)))]"

record memory_facts =
  mf_total_bytes :: "int option"
  mf_scanned_budget :: scanned_budget
  mf_safety_reserve :: byte_term
  mf_provenance :: string

definition mk_memory_facts :: "pyval \<Rightarrow> scanned_budget \<Rightarrow> byte_term \<Rightarrow> string \<Rightarrow> memory_facts result" where
  "mk_memory_facts total_bytes budget reserve prov =
     rbind (opt_nonneg total_bytes) (\<lambda>t.
       if bt_lifetime reserve \<noteq> SAFETY_RESERVE then Inl ValueError
       else if prov = [] then Inl ValueError
       else if bt_bytes reserve \<noteq> sb_reserve budget then Inl ValueError
       else Inr \<lparr>mf_total_bytes = t, mf_scanned_budget = budget, mf_safety_reserve = reserve, mf_provenance = prov\<rparr>)"

definition mf_free_bytes :: "memory_facts \<Rightarrow> int option" where
  "mf_free_bytes d = sb_free (mf_scanned_budget d)"

definition memory_facts_to_dict :: "memory_facts \<Rightarrow> pyval" where
  "memory_facts_to_dict d = PDict
     [(''total_bytes'', pint_opt (mf_total_bytes d)), (''free_bytes'', pint_opt (mf_free_bytes d)),
      (''safety_reserve'', byte_term_to_dict (mf_safety_reserve d)), (''provenance'', PStr (mf_provenance d)),
      (''scanned_budget'', budget_to_dict (mf_scanned_budget d))]"

record candidate_coverage =
  cc_candidate_id :: string
  cc_strategy :: strategy
  cc_memory_terms :: "byte_term list"
  cc_required_invocations :: "string list"
  cc_covered_invocations :: "string list"
  cc_supported :: bool
  cc_reasons :: "string list"

definition mk_candidate_coverage ::
  "string \<Rightarrow> strategy \<Rightarrow> byte_term list \<Rightarrow> string list \<Rightarrow> string list \<Rightarrow> bool \<Rightarrow> string list
   \<Rightarrow> candidate_coverage result" where
  "mk_candidate_coverage cid strat terms required covered supported reasons =
     (if cid = [] then Inl ValueError
      else if strat = REFUSE then Inl ValueError
      else if \<not> distinct required then Inl ValueError
      else if \<not> distinct covered then Inl ValueError
      else Inr \<lparr>cc_candidate_id = cid, cc_strategy = strat, cc_memory_terms = terms, cc_required_invocations = required,
                cc_covered_invocations = covered, cc_supported = supported, cc_reasons = reasons\<rparr>)"

definition candidate_coverage_to_dict :: "candidate_coverage \<Rightarrow> pyval" where
  "candidate_coverage_to_dict c = PDict
     [(''candidate_id'', PStr (cc_candidate_id c)), (''strategy'', PStr (strategy_value (cc_strategy c))),
      (''memory_terms'', PList (map byte_term_to_dict (cc_memory_terms c))),
      (''required_invocations'', PList (map PStr (cc_required_invocations c))),
      (''covered_invocations'', PList (map PStr (cc_covered_invocations c))), (''supported'', PBool (cc_supported c)),
      (''reasons'', PList (map PStr (cc_reasons c)))]"

record candidate_decision =
  cd_candidate_id :: string
  cd_strategy :: strategy
  cd_feasible :: bool
  cd_estimated_peak_bytes :: "int option"
  cd_memory_terms :: "byte_term list"
  cd_reasons :: "string list"

definition candidate_decision_to_dict :: "candidate_decision \<Rightarrow> pyval" where
  "candidate_decision_to_dict d = PDict
     [(''candidate_id'', PStr (cd_candidate_id d)), (''strategy'', PStr (strategy_value (cd_strategy d))),
      (''feasible'', PBool (cd_feasible d)), (''estimated_peak_bytes'', pint_opt (cd_estimated_peak_bytes d)),
      (''memory_terms'', PList (map byte_term_to_dict (cd_memory_terms d))),
      (''reasons'', PList (map PStr (cd_reasons d)))]"

record prefill_memory_plan =
  pm_decision :: "strategy option"
  pm_admitted_budget_bytes :: "int option"
  pm_base_peak_bytes :: "int option"
  pm_feasible_strategies :: "strategy list"
  pm_feasible_candidate_ids :: "string list"
  pm_candidate_decisions :: "candidate_decision list"
  pm_reasons :: "string list"
  pm_device :: memory_facts
  pm_base_terms :: "byte_term list"
  pm_override :: "strategy list option"

definition requires_machine_search :: "prefill_memory_plan \<Rightarrow> bool" where
  "requires_machine_search p = (length (pm_feasible_candidate_ids p) > 1)"

definition prefill_plan_to_dict :: "prefill_memory_plan \<Rightarrow> pyval" where
  "prefill_plan_to_dict p = PDict
     [(''schema'', PStr ''tinygrad.prefill_memory_plan.v1''),
      (''decision'', (case pm_decision p of None \<Rightarrow> PNone | Some s \<Rightarrow> PStr (strategy_value s))),
      (''admitted_budget_bytes'', pint_opt (pm_admitted_budget_bytes p)),
      (''base_peak_bytes'', pint_opt (pm_base_peak_bytes p)),
      (''feasible_strategies'', PList (map (\<lambda>x. PStr (strategy_value x)) (pm_feasible_strategies p))),
      (''feasible_candidate_ids'', PList (map PStr (pm_feasible_candidate_ids p))),
      (''candidate_decisions'', PList (map candidate_decision_to_dict (pm_candidate_decisions p))),
      (''reasons'', PList (map PStr (pm_reasons p))), (''device'', memory_facts_to_dict (pm_device p)),
      (''base_terms'', PList (map byte_term_to_dict (pm_base_terms p))),
      (''override'', (case pm_override p of None \<Rightarrow> PNone
          | Some xs \<Rightarrow> PList (map (\<lambda>x. PStr (strategy_value x)) xs)))]"

section \<open>The planner\<close>

definition strategy_order :: "strategy list" where
  "strategy_order = [FULL_RESIDENT_OVERLAY, BOUNDED_PACKED_TILES, DIRECT_PACKED_FALLBACK]"

definition known_sum :: "byte_term list \<Rightarrow> int option" where
  "known_sum ts = known_total (map bt_bytes ts)"

definition missing_coverage :: "candidate_coverage \<Rightarrow> string list" where
  "missing_coverage c = sort (remdups (filter (\<lambda>x. x \<notin> set (cc_covered_invocations c)) (cc_required_invocations c)))"

definition candidate_reasons ::
  "int option \<Rightarrow> byte_term list \<Rightarrow> strategy list option \<Rightarrow> candidate_coverage \<Rightarrow> string list" where
  "candidate_reasons budget bases allowed c =
     (let support = (if cc_supported c then [] else
            if cc_reasons c = [] then [''candidate capability is unsupported''] else cc_reasons c);
          excluded = (case allowed of None \<Rightarrow> [] | Some xs \<Rightarrow>
            if cc_strategy c \<notin> set xs then [''excluded by explicit strategy override''] else []);
          absent = (if missing_coverage c = [] then []
            else [''missing coverage: '' @ str_join '', '' (missing_coverage c)]);
          unknown = sort (map bt_name (filter (\<lambda>x. \<not> bt_known x) (bases @ cc_memory_terms c)));
          unknown_reason = (if unknown = [] then [] else [''unknown memory bytes: '' @ str_join '', '' unknown]);
          no_budget = (if budget = None then [''admitted VRAM budget is unknown''] else []);
          over = (case (known_sum (bases @ cc_memory_terms c), budget) of
              (Some p, Some b) \<Rightarrow> if p > b then [''estimated peak '' @ str_int p @ '' exceeds admitted budget ''
                 @ str_int b @ '' by '' @ str_int (p - b) @ '' bytes''] else []
            | _ \<Rightarrow> [])
      in support @ excluded @ absent @ unknown_reason @ no_budget @ over)"

definition decide_candidate ::
  "int option \<Rightarrow> byte_term list \<Rightarrow> strategy list option \<Rightarrow> candidate_coverage \<Rightarrow> candidate_decision" where
  "decide_candidate budget bases allowed c =
     (let reasons = candidate_reasons budget bases allowed c in
      \<lparr>cd_candidate_id = cc_candidate_id c, cd_strategy = cc_strategy c, cd_feasible = (reasons = []),
       cd_estimated_peak_bytes = known_sum (bases @ cc_memory_terms c), cd_memory_terms = cc_memory_terms c,
       cd_reasons = reasons\<rparr>)"

text \<open>The override argument: one strategy, or an iterable of strategies; both become the sorted
  tuple of the distinct values.\<close>

definition normalize_override :: "strategy list \<Rightarrow> strategy list" where
  "normalize_override xs = sort_key strategy_value (remdups xs)"

definition plan_of ::
  "memory_facts \<Rightarrow> byte_term list \<Rightarrow> candidate_coverage list \<Rightarrow> strategy list option \<Rightarrow> prefill_memory_plan" where
  "plan_of device bases cands allowed =
         (let budget = admitted_bytes (mf_scanned_budget device);
              base_peak = known_sum bases;
              decisions = map (decide_candidate budget bases allowed)
                (sort_key (\<lambda>x. (strategy_value (cc_strategy x), cc_candidate_id x)) cands);
              feasible = filter cd_feasible decisions;
              feasible_strategies = filter (\<lambda>x. list_ex (\<lambda>y. cd_strategy y = x) feasible) strategy_order;
              refusal = (if feasible \<noteq> [] then [] else
                  (if cands = [] then [''no strategy candidates were provided''] else [])
                @ (if budget = None then
                     [''memory safety cannot be proven because the admitted VRAM budget is unknown''] else [])
                @ (case base_peak of
                     None \<Rightarrow> [''memory safety cannot be proven because base residency contains unknown bytes'']
                   | Some p \<Rightarrow> (case budget of None \<Rightarrow> [] | Some b \<Rightarrow>
                       if p > b then [''base residency '' @ str_int p @ '' exceeds admitted budget '' @ str_int b
                         @ '' by '' @ str_int (p - b) @ '' bytes''] else []))
                @ concat (map (\<lambda>x. map (\<lambda>r. cd_candidate_id x @ '': '' @ r) (cd_reasons x)) decisions));
              decision = (case feasible of [] \<Rightarrow> Some REFUSE | [x] \<Rightarrow> Some (cd_strategy x) | _ \<Rightarrow> None);
              deferred = (if length feasible > 1 then
                [''multiple candidates are feasible; performance selection is deferred to machine search''] else [])
          in \<lparr>pm_decision = decision, pm_admitted_budget_bytes = budget, pm_base_peak_bytes = base_peak,
              pm_feasible_strategies = feasible_strategies,
              pm_feasible_candidate_ids = map cd_candidate_id feasible, pm_candidate_decisions = decisions,
              pm_reasons = refusal @ deferred, pm_device = device, pm_base_terms = bases,
              pm_override = allowed\<rparr>)"

definition plan_prefill_memory ::
  "memory_facts \<Rightarrow> byte_term list \<Rightarrow> candidate_coverage list \<Rightarrow> strategy list option \<Rightarrow> prefill_memory_plan result" where
  "plan_prefill_memory device bases cands override =
     (if \<not> distinct (map cc_candidate_id cands) then Inl ValueError
      else
       (let allowed = map_option normalize_override override in
        if (case allowed of None \<Rightarrow> False | Some xs \<Rightarrow> REFUSE \<in> set xs) then Inl ValueError
        else Inr (plan_of device bases cands allowed)))"

section \<open>Feasibility of one candidate\<close>

definition coverage_complete :: "strategy list option \<Rightarrow> candidate_coverage \<Rightarrow> bool" where
  "coverage_complete allowed c \<longleftrightarrow> cc_supported c
     \<and> (\<forall>xs. allowed = Some xs \<longrightarrow> cc_strategy c \<in> set xs)
     \<and> set (cc_required_invocations c) \<subseteq> set (cc_covered_invocations c)"

lemma known_sum_None: "known_sum ts = None \<longleftrightarrow> (\<exists>t \<in> set ts. \<not> bt_known t)"
  by (simp add: known_sum_def known_total_None bt_known_def image_iff) metis

lemma known_sum_Some:
  "known_sum ts = Some p \<longleftrightarrow> (\<forall>t \<in> set ts. bt_known t) \<and> p = (\<Sum>t\<leftarrow>ts. the (bt_bytes t))"
  by (auto simp: known_sum_def known_total_Some bt_known_def image_iff comp_def) (metis not_None_eq)

lemma missing_coverage_empty:
  "missing_coverage c = [] \<longleftrightarrow> set (cc_required_invocations c) \<subseteq> set (cc_covered_invocations c)"
  unfolding missing_coverage_def
  by (auto simp: filter_empty_conv simp flip: set_empty)

lemma candidate_reasons_empty:
  "candidate_reasons b bases allowed c = [] \<longleftrightarrow> coverage_complete allowed c
     \<and> (\<exists>p v. known_sum (bases @ cc_memory_terms c) = Some p \<and> b = Some v \<and> p \<le> v)"
proof -
  have unk: "sort (map bt_name (filter (\<lambda>x. \<not> bt_known x) xs)) = [] \<longleftrightarrow> known_sum xs \<noteq> None" for xs
    by (auto simp: known_sum_None filter_empty_conv simp flip: set_empty)
  show ?thesis
    unfolding candidate_reasons_def Let_def append_is_Nil_conv coverage_complete_def unk missing_coverage_empty
    by (auto simp: unk missing_coverage_empty split: option.splits if_splits)
qed

lemma decide_candidate_fields [simp]:
  "cd_candidate_id (decide_candidate b bases al c) = cc_candidate_id c"
  "cd_strategy (decide_candidate b bases al c) = cc_strategy c"
  "cd_estimated_peak_bytes (decide_candidate b bases al c) = known_sum (bases @ cc_memory_terms c)"
  "cd_reasons (decide_candidate b bases al c) = candidate_reasons b bases al c"
  "cd_feasible (decide_candidate b bases al c) \<longleftrightarrow> candidate_reasons b bases al c = []"
  by (simp_all add: decide_candidate_def Let_def)

text \<open>A candidate of the planner, with the base terms and the override it is judged under.\<close>

datatype planned = Planned (pl_bases: "byte_term list") (pl_allowed: "strategy list option") (pl_cand: candidate_coverage)

interpretation planner: fail_closed_gate
  "\<lambda>b c. cd_feasible (decide_candidate (admitted_bytes b) (pl_bases c) (pl_allowed c) (pl_cand c))" admitted_bytes
  "\<lambda>c. known_sum (pl_bases c @ cc_memory_terms (pl_cand c))"
  "\<lambda>c. coverage_complete (pl_allowed c) (pl_cand c)"
  by unfold_locales (simp add: candidate_reasons_empty)

section \<open>The plan\<close>

lemma plan_prefill_Inr:
  assumes "plan_prefill_memory device bases cands override = Inr p"
  shows "distinct (map cc_candidate_id cands)"
    and "\<forall>xs. override = Some xs \<longrightarrow> REFUSE \<notin> set xs"
    and "pm_candidate_decisions p = map (decide_candidate (admitted_bytes (mf_scanned_budget device)) bases
            (map_option normalize_override override))
          (sort_key (\<lambda>x. (strategy_value (cc_strategy x), cc_candidate_id x)) cands)"
    and "pm_feasible_candidate_ids p = map cd_candidate_id (filter cd_feasible (pm_candidate_decisions p))"
    and "pm_feasible_strategies p =
          filter (\<lambda>x. list_ex (\<lambda>y. cd_strategy y = x) (filter cd_feasible (pm_candidate_decisions p))) strategy_order"
    and "pm_decision p = (case filter cd_feasible (pm_candidate_decisions p) of
            [] \<Rightarrow> Some REFUSE | [x] \<Rightarrow> Some (cd_strategy x) | _ \<Rightarrow> None)"
    and "pm_admitted_budget_bytes p = admitted_bytes (mf_scanned_budget device)"
proof -
  have p: "p = plan_of device bases cands (map_option normalize_override override)"
    and d: "distinct (map cc_candidate_id cands)"
    and r: "\<not> (case map_option normalize_override override of None \<Rightarrow> False | Some xs \<Rightarrow> REFUSE \<in> set xs)"
    using assms by (auto simp: plan_prefill_memory_def Let_def simp del: distinct_map split: if_splits)
  show "distinct (map cc_candidate_id cands)" by (rule d)
  show "\<forall>xs. override = Some xs \<longrightarrow> REFUSE \<notin> set xs" using r by (auto simp: normalize_override_def)
  note f = p plan_of_def Let_def
  show "pm_candidate_decisions p = map (decide_candidate (admitted_bytes (mf_scanned_budget device)) bases
            (map_option normalize_override override))
          (sort_key (\<lambda>x. (strategy_value (cc_strategy x), cc_candidate_id x)) cands)"
    unfolding f by simp
  show "pm_feasible_candidate_ids p = map cd_candidate_id (filter cd_feasible (pm_candidate_decisions p))"
    unfolding f by simp
  show "pm_feasible_strategies p =
          filter (\<lambda>x. list_ex (\<lambda>y. cd_strategy y = x) (filter cd_feasible (pm_candidate_decisions p))) strategy_order"
    unfolding f by (simp only: prefill_memory_plan.simps)
  show "pm_decision p = (case filter cd_feasible (pm_candidate_decisions p) of
            [] \<Rightarrow> Some REFUSE | [x] \<Rightarrow> Some (cd_strategy x) | _ \<Rightarrow> None)"
    unfolding f by (simp only: prefill_memory_plan.simps)
  show "pm_admitted_budget_bytes p = admitted_bytes (mf_scanned_budget device)"
    unfolding f by simp
qed


definition candidate_feasible ::
  "memory_facts \<Rightarrow> byte_term list \<Rightarrow> strategy list option \<Rightarrow> candidate_coverage \<Rightarrow> bool" where
  "candidate_feasible device bases override c \<longleftrightarrow>
     cd_feasible (decide_candidate (admitted_bytes (mf_scanned_budget device)) bases
       (map_option normalize_override override) c)"

lemma feasible_ids:
  assumes "plan_prefill_memory device bases cands override = Inr p"
  shows "set (pm_feasible_candidate_ids p) = {cc_candidate_id c |c. c \<in> set cands \<and> candidate_feasible device bases override c}"
  unfolding plan_prefill_Inr(4) [OF assms] plan_prefill_Inr(3) [OF assms]
  by (fastforce simp: candidate_feasible_def image_iff)

lemma set_normalize_override [simp]: "set (normalize_override xs) = set xs"
  by (simp add: normalize_override_def)

lemma candidate_feasible_iff:
  "candidate_feasible device bases override c \<longleftrightarrow> cc_supported c
     \<and> (\<forall>xs. override = Some xs \<longrightarrow> cc_strategy c \<in> set xs)
     \<and> set (cc_required_invocations c) \<subseteq> set (cc_covered_invocations c)
     \<and> (\<forall>t \<in> set (bases @ cc_memory_terms c). bt_known t)
     \<and> (\<exists>v. admitted_bytes (mf_scanned_budget device) = Some v
            \<and> (\<Sum>t\<leftarrow>bases @ cc_memory_terms c. the (bt_bytes t)) \<le> v)"
  unfolding candidate_feasible_def decide_candidate_fields candidate_reasons_empty coverage_complete_def known_sum_Some
  by (cases override) auto

end
