(* ===== verification/GgufScan.thy ===== *)
theory GgufScan
  imports MemoryLedger
begin

text \<open>
  The metadata-only scan of a model file (\<open>tinygrad/llm/gguf_memory_scan.py\<close>, with the type tables
  of \<open>tinygrad/llm/gguf.py\<close>): runtime geometry, the byte span of every tensor of the file, and the
  construction of the memory ledger.  The file system is read at two places only, and both results
  are arguments here: the file size (\<open>None\<close> when \<open>stat\<close> fails) and the metadata that the loader
  returned.  A path is the string that \<open>str(path)\<close> gives.
\<close>

section \<open>Runtime geometry\<close>

record runtime_geometry =
  rg_num_blocks :: int
  rg_n_kv_heads :: int
  rg_head_dim :: int
  rg_max_context :: int
  rg_prefill_ubatch :: int
  rg_batch_size :: "int option"
  rg_kv_element_bytes :: "int option"
  rg_kv_scale_element_bytes :: "int option"
  rg_kv_scales_per_token :: int
  rg_runtime_persistent_bytes :: "int option"
  rg_peak_prefill_activation_bytes :: "int option"
  rg_peak_prefill_output_bytes :: "int option"
  rg_peak_prefill_scratch_bytes :: "int option"

definition mk_runtime_geometry ::
  "pyval \<Rightarrow> pyval \<Rightarrow> pyval \<Rightarrow> pyval \<Rightarrow> pyval \<Rightarrow> pyval \<Rightarrow> pyval \<Rightarrow> pyval \<Rightarrow> pyval \<Rightarrow> pyval \<Rightarrow> pyval \<Rightarrow> pyval
   \<Rightarrow> pyval \<Rightarrow> runtime_geometry result" where
  "mk_runtime_geometry num_blocks n_kv_heads head_dim max_context prefill_ubatch batch_size kv_element_bytes
       kv_scale_element_bytes kv_scales_per_token persistent activation output scratch =
     rbind (req_pos num_blocks) (\<lambda>nb. rbind (req_pos n_kv_heads) (\<lambda>nh. rbind (req_pos head_dim) (\<lambda>hd.
     rbind (req_pos max_context) (\<lambda>mc. rbind (req_pos prefill_ubatch) (\<lambda>pu.
     rbind (opt_pos batch_size) (\<lambda>bs. rbind (opt_pos kv_element_bytes) (\<lambda>ke.
     rbind (opt_pos kv_scale_element_bytes) (\<lambda>ks. rbind (req_nonneg kv_scales_per_token) (\<lambda>sc.
     rbind (opt_nonneg persistent) (\<lambda>rp. rbind (opt_nonneg activation) (\<lambda>pa.
     rbind (opt_nonneg output) (\<lambda>po. rbind (opt_nonneg scratch) (\<lambda>ps.
       Inr \<lparr>rg_num_blocks = nb, rg_n_kv_heads = nh, rg_head_dim = hd, rg_max_context = mc,
            rg_prefill_ubatch = pu, rg_batch_size = bs, rg_kv_element_bytes = ke,
            rg_kv_scale_element_bytes = ks, rg_kv_scales_per_token = sc, rg_runtime_persistent_bytes = rp,
            rg_peak_prefill_activation_bytes = pa, rg_peak_prefill_output_bytes = po,
            rg_peak_prefill_scratch_bytes = ps\<rparr>)))))))))))))"

definition kv_bytes :: "runtime_geometry \<Rightarrow> int option" where
  "kv_bytes g = (case (rg_batch_size g, rg_kv_element_bytes g) of
     (Some b, Some e) \<Rightarrow>
       (let values = 2 * rg_num_blocks g * b * rg_n_kv_heads g * rg_max_context g * rg_head_dim g * e in
        if rg_kv_scales_per_token g \<noteq> 0 then
          (case rg_kv_scale_element_bytes g of None \<Rightarrow> None
           | Some s \<Rightarrow> Some (values + rg_num_blocks g * b * rg_max_context g * rg_kv_scales_per_token g * s))
        else Some values)
   | _ \<Rightarrow> None)"

definition geometry_wf :: "runtime_geometry \<Rightarrow> bool" where
  "geometry_wf g \<longleftrightarrow> 0 < rg_num_blocks g \<and> 0 < rg_n_kv_heads g \<and> 0 < rg_head_dim g \<and> 0 < rg_max_context g
     \<and> 0 < rg_prefill_ubatch g \<and> 0 \<le> rg_kv_scales_per_token g
     \<and> (\<forall>b. rg_batch_size g = Some b \<longrightarrow> 0 < b) \<and> (\<forall>b. rg_kv_element_bytes g = Some b \<longrightarrow> 0 < b)
     \<and> (\<forall>b. rg_kv_scale_element_bytes g = Some b \<longrightarrow> 0 < b)
     \<and> (\<forall>b. rg_runtime_persistent_bytes g = Some b \<longrightarrow> 0 \<le> b)
     \<and> (\<forall>b. rg_peak_prefill_activation_bytes g = Some b \<longrightarrow> 0 \<le> b)
     \<and> (\<forall>b. rg_peak_prefill_output_bytes g = Some b \<longrightarrow> 0 \<le> b)
     \<and> (\<forall>b. rg_peak_prefill_scratch_bytes g = Some b \<longrightarrow> 0 \<le> b)"

lemma mk_runtime_geometry_wf:
  "mk_runtime_geometry a b c d e f g h i j k l m = Inr x \<Longrightarrow> geometry_wf x"
  by (auto simp: mk_runtime_geometry_def rbind_eq_Inr validator_Inr geometry_wf_def)

lemma kv_bytes_nonneg: "geometry_wf g \<Longrightarrow> kv_bytes g = Some n \<Longrightarrow> 0 \<le> n"
  by (auto simp: kv_bytes_def geometry_wf_def Let_def split: option.splits if_splits
      intro!: add_nonneg_nonneg mult_nonneg_nonneg)

section \<open>Candidate workspaces\<close>

record candidate_workspace =
  cw_candidate_id :: string
  cw_bytes :: "int option"
  cw_detail :: string

definition mk_candidate_workspace :: "string \<Rightarrow> pyval \<Rightarrow> string \<Rightarrow> candidate_workspace result" where
  "mk_candidate_workspace cid bytes detail =
     (if cid = [] \<or> detail = [] then Inl ValueError
      else rbind (opt_nonneg bytes) (\<lambda>b. Inr \<lparr>cw_candidate_id = cid, cw_bytes = b, cw_detail = detail\<rparr>))"

section \<open>Tensor payloads and file spans\<close>

text \<open>The native types with the item size of their dtype, and the block formats with the number of
  elements and of bytes per block.\<close>

definition ggml_native :: "(int, int) dict" where
  "ggml_native = [(0, 4), (1, 2), (24, 1), (25, 2), (26, 4), (27, 8), (28, 8), (30, 2)]"

definition ggml_quant :: "(int, int \<times> int) dict" where
  "ggml_quant = [(2, 32, 18), (3, 32, 20), (6, 32, 22), (7, 32, 24), (8, 32, 34), (12, 256, 144), (13, 256, 176),
     (14, 256, 210), (18, 256, 98), (21, 256, 110), (22, 256, 82), (23, 256, 136), (39, 32, 17), (41, 128, 18)]"

definition payload_bytes :: "int list \<Rightarrow> int \<Rightarrow> int option" where
  "payload_bytes shape ggml_type =
     (let elements = prod_list shape in
      case map_of ggml_native ggml_type of
        Some itemsize \<Rightarrow> Some (elements * itemsize)
      | None \<Rightarrow> (case map_of ggml_quant ggml_type of
          Some blk \<Rightarrow> if elements mod fst blk \<noteq> 0 then None else Some (elements div fst blk * snd blk)
        | None \<Rightarrow> None))"

definition selected_gguf_backing_bytes :: "int option \<Rightarrow> pyval \<Rightarrow> int option result" where
  "selected_gguf_backing_bytes stat_size alignment =
     rbind (opt_pos alignment) (\<lambda>a.
       case a of None \<Rightarrow> Inr None
       | Some al \<Rightarrow> (case stat_size of None \<Rightarrow> Inr None
           | Some sz \<Rightarrow> Inr (Some (((sz + al - 1) div al) * al))))"

record tensor_info =
  ti_name :: string
  ti_dims :: "int list"
  ti_type :: int
  ti_offset :: int

record tensor_span =
  ts_name :: string
  ts_type :: int
  ts_shape :: "int list"
  ts_relative_offset :: int
  ts_absolute_offset :: int
  ts_payload_bytes :: "int option"
  ts_span_bytes :: "int option"

text \<open>The loop over the infos in the order of their offsets: each tensor ends where the next one
  begins, and the last at the end of the file.  The reader unpacks an offset as an integer, so the test of
  its type always succeeds.\<close>

fun span_loop :: "int \<Rightarrow> int option \<Rightarrow> tensor_info list \<Rightarrow> tensor_span list result" where
  "span_loop data_start file_size [] = Inr []"
| "span_loop data_start file_size (t # ts) =
     (if ti_offset t < 0 then Inl ValueError
      else
        (let end_at = (case ts of [] \<Rightarrow> file_size | u # _ \<Rightarrow> Some (data_start + ti_offset u));
             span = map_option (\<lambda>e. e - (data_start + ti_offset t)) end_at;
             payload = payload_bytes (ti_dims t) (ti_type t)
         in if (case span of None \<Rightarrow> False | Some n \<Rightarrow> n < 0) then Inl ValueError
            else if (case (payload, span) of (Some p, Some n) \<Rightarrow> p > n | _ \<Rightarrow> False) then Inl ValueError
            else rbind (span_loop data_start file_size ts) (\<lambda>rest.
              Inr (\<lparr>ts_name = ti_name t, ts_type = ti_type t, ts_shape = rev (ti_dims t),
                    ts_relative_offset = ti_offset t, ts_absolute_offset = data_start + ti_offset t,
                    ts_payload_bytes = payload, ts_span_bytes = span\<rparr> # rest))))"

definition tensor_spans :: "pyval \<Rightarrow> tensor_info list \<Rightarrow> int option \<Rightarrow> tensor_span list result" where
  "tensor_spans data_start infos file_size =
     (if \<not> is_int data_start \<or> as_int data_start < 0 then Inl ValueError
      else (let ordered = sort_key ti_offset infos in
        if \<not> distinct (map ti_name infos) then Inl ValueError
        else span_loop (as_int data_start) file_size ordered))"

section \<open>The scan\<close>

record gguf_metadata =
  gm_kv :: pyval
  gm_data_start :: pyval
  gm_tensor_infos :: "tensor_info list"

record memory_scan =
  ms_model_path :: string
  ms_ledger :: memory_ledger
  ms_tensor_spans :: "tensor_span list"
  ms_metadata :: pyval

definition span_detail :: "string \<Rightarrow> tensor_span \<Rightarrow> string" where
  "span_detail selected s = selected @ ''; ggml_type='' @ str_int (ts_type s) @ ''; shape=''
     @ str_tuple (map str_int (ts_shape s)) @ ''; relative_offset='' @ str_int (ts_relative_offset s)
     @ ''; absolute_offset='' @ str_int (ts_absolute_offset s) @ ''; payload_span='' @ str_opt_int (ts_span_bytes s)"

definition span_allocation :: "string \<Rightarrow> pyval \<Rightarrow> pyval \<Rightarrow> tensor_span \<Rightarrow> ledger_allocation result" where
  "span_allocation selected alignment copies s =
     rbind (mk_provenance ''gguf_load_metadata tensor table'' (span_detail selected s)) (\<lambda>prov.
       gguf_tensor (ts_name s) (pint_opt (ts_payload_bytes s)) alignment copies prov)"

definition runtime_allocations :: "string \<Rightarrow> runtime_geometry \<Rightarrow> ledger_allocation list result" where
  "runtime_allocations selected g =
     rbind (mk_provenance ''runtime/config geometry'' selected) (\<lambda>prov.
     rmap (\<lambda>(name, kind, b). mk_ledger_allocation name kind (pint_opt b) prov None None PNone PNone PNone)
       [(''kv_cache'', KV_CACHE, kv_bytes g),
        (''runtime_persistent'', RUNTIME_PERSISTENT, rg_runtime_persistent_bytes g),
        (''peak_prefill_activations'', PREFILL_ACTIVATION, rg_peak_prefill_activation_bytes g),
        (''peak_prefill_outputs'', PREFILL_OUTPUT, rg_peak_prefill_output_bytes g),
        (''peak_prefill_scratch'', PREFILL_SCRATCH, rg_peak_prefill_scratch_bytes g)])"

definition workspace_allocation :: "string \<Rightarrow> candidate_workspace \<Rightarrow> ledger_allocation result" where
  "workspace_allocation selected c =
     rbind (mk_provenance ''candidate workspace'' (selected @ ''; '' @ cw_detail c)) (\<lambda>prov.
       mk_ledger_allocation (''workspace:'' @ cw_candidate_id c) CANDIDATE_WORKSPACE (pint_opt (cw_bytes c)) prov
         (Some (cw_candidate_id c)) None PNone PNone PNone)"

definition scan_selected_gguf_memory ::
  "string \<Rightarrow> runtime_geometry \<Rightarrow> candidate_workspace list \<Rightarrow> pyval \<Rightarrow> pyval \<Rightarrow> gguf_metadata \<Rightarrow> int option
   \<Rightarrow> memory_scan result" where
  "scan_selected_gguf_memory path g cands alignment copies meta file_size =
     rbind (tensor_spans (gm_data_start meta) (gm_tensor_infos meta) file_size) (\<lambda>spans.
     (let selected = ''selected path='' @ path in
      rbind (rmap (span_allocation selected alignment copies) spans) (\<lambda>tensors.
      rbind (runtime_allocations selected g) (\<lambda>runtime.
      rbind (rmap (workspace_allocation selected) cands) (\<lambda>workspaces.
      rbind (mk_memory_ledger (tensors @ runtime @ workspaces)) (\<lambda>ledger.
        Inr \<lparr>ms_model_path = path, ms_ledger = ledger, ms_tensor_spans = spans, ms_metadata = gm_kv meta\<rparr>))))))"

section \<open>Spans partition the data section\<close>

lemma span_loop_length: "span_loop ds fs ts = Inr ss \<Longrightarrow> length ss = length ts"
  by (induction ts arbitrary: ss) (auto simp: rbind_eq_Inr Let_def split: if_splits)

definition span_of :: "int \<Rightarrow> int option \<Rightarrow> tensor_info list \<Rightarrow> nat \<Rightarrow> int option" where
  "span_of ds fs ts i = (if Suc i < length ts then Some (ti_offset (ts ! Suc i) - ti_offset (ts ! i))
     else map_option (\<lambda>e. e - (ds + ti_offset (ts ! i))) fs)"

text \<open>One entry of the result: the record, and what the loop checked about it.\<close>

definition span_entry_ok :: "int \<Rightarrow> int option \<Rightarrow> tensor_info list \<Rightarrow> nat \<Rightarrow> tensor_span \<Rightarrow> bool" where
  "span_entry_ok ds fs ts i s \<longleftrightarrow>
     ts_name s = ti_name (ts ! i) \<and> ts_type s = ti_type (ts ! i) \<and> ts_shape s = rev (ti_dims (ts ! i))
     \<and> ts_relative_offset s = ti_offset (ts ! i) \<and> ts_absolute_offset s = ds + ti_offset (ts ! i)
     \<and> ts_payload_bytes s = payload_bytes (ti_dims (ts ! i)) (ti_type (ts ! i))
     \<and> ts_span_bytes s = span_of ds fs ts i \<and> 0 \<le> ti_offset (ts ! i)
     \<and> (\<forall>n. ts_span_bytes s = Some n \<longrightarrow> 0 \<le> n \<and> (\<forall>p. ts_payload_bytes s = Some p \<longrightarrow> p \<le> n))"

lemma span_of_Suc: "span_of ds fs (t # ts) (Suc i) = span_of ds fs ts i"
  by (simp add: span_of_def)

lemma span_loop_nth:
  "span_loop ds fs ts = Inr ss \<Longrightarrow> i < length ts \<Longrightarrow> span_entry_ok ds fs ts i (ss ! i)"
proof (induction ts arbitrary: ss i)
  case Nil
  then show ?case by simp
next
  case (Cons t ts)
  have sp: "map_option (\<lambda>e. e - (ds + ti_offset t)) (case ts of [] \<Rightarrow> fs | u # _ \<Rightarrow> Some (ds + ti_offset u))
      = span_of ds fs (t # ts) 0"
    by (cases ts) (simp_all add: span_of_def)
  note step = span_loop.simps(2) [of ds fs t ts, unfolded Let_def sp]
  from Cons.prems(1) obtain rest where rest: "span_loop ds fs ts = Inr rest"
    by (auto simp: step rbind_eq_Inr simp del: span_loop.simps split: if_splits)
  define s where "s = hd ss"
  have ss: "ss = s # rest" and s: "span_entry_ok ds fs (t # ts) 0 s"
    using Cons.prems(1) unfolding step s_def span_entry_ok_def
    by (simp_all add: rest del: span_loop.simps split: if_splits option.splits) auto
  show ?case
  proof (cases i)
    case 0
    with s ss show ?thesis by simp
  next
    case (Suc j)
    with Cons.IH [OF rest] Cons.prems(2) ss show ?thesis
      by (auto simp: span_entry_ok_def span_of_Suc)
  qed
qed

lemma tensor_spans_Inr:
  assumes "tensor_spans d infos fs = Inr ss"
  shows "is_int d" "0 \<le> as_int d" "distinct (map ti_name infos)"
    "span_loop (as_int d) fs (sort_key ti_offset infos) = Inr ss" "length ss = length infos"
  using assms span_loop_length [of "as_int d" fs "sort_key ti_offset infos" ss]
  by (auto simp: tensor_spans_def Let_def split: if_splits)

lemma tensor_spans_entry:
  "tensor_spans d infos fs = Inr ss \<Longrightarrow> i < length ss
    \<Longrightarrow> span_entry_ok (as_int d) fs (sort_key ti_offset infos) i (ss ! i)"
  using span_loop_nth [of "as_int d" fs "sort_key ti_offset infos" ss i] tensor_spans_Inr [of d infos fs ss]
  by simp

lemma tensor_spans_sorted:
  assumes "tensor_spans d infos fs = Inr ss" and "i \<le> j" and "j < length ss"
  shows "ts_absolute_offset (ss ! i) \<le> ts_absolute_offset (ss ! j)"
proof -
  let ?o = "sort_key ti_offset infos"
  have "sorted (map ti_offset ?o)" by simp
  then have "map ti_offset ?o ! i \<le> map ti_offset ?o ! j"
    using assms(2,3) tensor_spans_Inr(5) [OF assms(1)] by (intro sorted_nth_mono) auto
  then show ?thesis
    using tensor_spans_entry [OF assms(1), of i] tensor_spans_entry [OF assms(1), of j] assms
      tensor_spans_Inr(5) [OF assms(1)]
    by (simp add: span_entry_ok_def)
qed

lemma tensor_spans_step:
  assumes "tensor_spans d infos fs = Inr ss" and "Suc i < length ss"
  shows "ts_span_bytes (ss ! i) = Some (ts_absolute_offset (ss ! Suc i) - ts_absolute_offset (ss ! i))"
  using tensor_spans_entry [OF assms(1), of i] tensor_spans_entry [OF assms(1), of "Suc i"] assms(2)
    tensor_spans_Inr(5) [OF assms(1)]
  by (simp add: span_entry_ok_def span_of_def)

lemma tensor_spans_disjoint:
  assumes "tensor_spans d infos fs = Inr ss" and "i < j" and "j < length ss" and "ts_payload_bytes (ss ! i) = Some p"
  shows "ts_absolute_offset (ss ! i) + p \<le> ts_absolute_offset (ss ! j)"
proof -
  have "ts_span_bytes (ss ! i) = Some (ts_absolute_offset (ss ! Suc i) - ts_absolute_offset (ss ! i))"
    using tensor_spans_step [OF assms(1), of i] assms(2,3) by simp
  then have "p \<le> ts_absolute_offset (ss ! Suc i) - ts_absolute_offset (ss ! i)"
    using tensor_spans_entry [OF assms(1), of i] assms by (auto simp: span_entry_ok_def)
  moreover have "ts_absolute_offset (ss ! Suc i) \<le> ts_absolute_offset (ss ! j)"
    using tensor_spans_sorted [OF assms(1), of "Suc i" j] assms(2,3) by simp
  ultimately show ?thesis by simp
qed

lemma tensor_spans_in_file:
  assumes "tensor_spans d infos (Some sz) = Inr ss" and "i < length ss" and "ts_payload_bytes (ss ! i) = Some p"
  shows "ts_absolute_offset (ss ! i) + p \<le> sz"
proof -
  let ?l = "length ss - 1"
  have l: "?l < length ss" using assms(2) by simp
  have "\<not> Suc ?l < length (sort_key ti_offset infos)" using tensor_spans_Inr(5) [OF assms(1)] by simp
  then have last: "ts_span_bytes (ss ! ?l) = Some (sz - ts_absolute_offset (ss ! ?l))"
    using tensor_spans_entry [OF assms(1) l] by (simp only: span_entry_ok_def span_of_def if_False option.map)
  have end_ge: "ts_absolute_offset (ss ! ?l) \<le> sz"
    using tensor_spans_entry [OF assms(1) l] last by (auto simp: span_entry_ok_def)
  show ?thesis
  proof (cases "i = ?l")
    case True
    then show ?thesis using tensor_spans_entry [OF assms(1) l] last assms(3) by (auto simp: span_entry_ok_def)
  next
    case False
    then show ?thesis using tensor_spans_disjoint [OF assms(1) _ l assms(3)] assms(2) end_ge by linarith
  qed
qed

end
