(* ===== verification/Admission.thy ===== *)
theory Admission
  imports DeviceFacts PrefillPlan GgufScan
begin

text \<open>
  Load admission (\<open>tinygrad/llm/admission.py\<close>): the prefill runtime policy and its proof gates, the
  geometry read from the model metadata, the resolution of the context length against the scanned
  budget, the exact plan of one selected route, and the memory plan of the selected model.

  The report of the context resolution carries byte counts where the source prints gigabytes
  (\<open>rp_free_bytes\<close> for \<open>free_gb = free_bytes / 1e9\<close>, and so on): the source divides only to print.
\<close>

section \<open>Prefill runtime policy\<close>

definition concrete_prefill_validated_m :: "int list" where
  "concrete_prefill_validated_m = [512]"

definition executing_strategies :: "string list" where
  "executing_strategies = [''FULL_RESIDENT_OVERLAY'', ''BOUNDED_PACKED_TILES'', ''DIRECT_PACKED_FALLBACK'']"

definition tc_attn_target_requirements :: pyval where
  "tc_attn_target_requirements = PDict [(''backend'', PStr ''AMD''), (''architecture'', PStr ''gfx1100'')]"

definition shared_attention_proof_fields :: "string list" where
  "shared_attention_proof_fields = [''correctness'', ''score_resident'', ''qk_wmma'', ''pv_wmma'',
     ''model_8b_prefill'', ''model_14b_prefill'', ''decode_nonregression_8b'', ''decode_nonregression_14b'']"

text \<open>\<open>getattr(facts, name, None)\<close> for the plain fields of the scanned facts.\<close>

definition facts_attr :: "device_facts \<Rightarrow> string \<Rightarrow> pyval" where
  "facts_attr f name =
     (if name = ''backend'' then pstr_opt (df_backend f)
      else if name = ''architecture'' then pstr_opt (df_architecture f)
      else if name = ''selected_device'' then PStr (df_selected_device f)
      else if name = ''total_vram_bytes'' then pint_opt (df_total_vram_bytes f)
      else if name = ''free_vram_bytes'' then pint_opt (df_free_vram_bytes f)
      else if name = ''schema_version'' then PInt (df_schema_version f)
      else if name = ''queue_mode'' then pstr_opt (df_queue_mode f)
      else if name = ''state'' then PStr (facts_state f)
      else PNone)"

definition requirements_met :: "pyval \<Rightarrow> device_facts \<Rightarrow> bool" where
  "requirements_met requirements f = list_all (\<lambda>kv. py_eq (facts_attr f (fst kv)) (snd kv)) (items requirements)"

definition shared_attention_proven_eligible :: "pyval \<Rightarrow> device_facts \<Rightarrow> bool" where
  "shared_attention_proven_eligible v f =
     (let prf = pget v ''shared_attention_proof'' in
      if \<not> is_mapping prf \<or> pget prf ''status'' \<noteq> PStr ''PASS'' then False
      else if \<not> requirements_met tc_attn_target_requirements f then False
      else (let target = pget prf ''target''; geometry = pget prf ''geometry''; artifact = pget prf ''artifact'';
                artifact_ok = (is_mapping artifact
                  \<and> pget artifact ''schema'' = PStr ''tinygrad.shared_attention_proof.v2''
                  \<and> pget artifact ''status'' = PStr ''PASS'' \<and> pget artifact ''passed'' = PBool True
                  \<and> (case pget artifact ''captures'' of PList xs \<Rightarrow> length xs = 4 | _ \<Rightarrow> False))
            in is_mapping target \<and> py_eq target tc_attn_target_requirements
               \<and> is_mapping geometry \<and> truthy geometry \<and> artifact_ok
               \<and> list_all (\<lambda>field. pget prf field = PBool True) shared_attention_proof_fields))"

definition bounded_packed_projection_proven_eligible :: "pyval \<Rightarrow> device_facts \<Rightarrow> bool" where
  "bounded_packed_projection_proven_eligible v f =
     (let prf = pget v ''bounded_packed_projection_proof'' in
      if \<not> is_mapping prf \<or> pget prf ''status'' \<noteq> PStr ''PASS'' then False
      else if \<not> requirements_met tc_attn_target_requirements f then False
      else py_eq (pget prf ''target'') tc_attn_target_requirements
           \<and> pget prf ''q4_source_owner'' = PStr ''MODEL_PARAMETER''
           \<and> pget prf ''fused_dequant_wmma'' = PBool True \<and> pget prf ''fp16_qkv_outputs'' = PBool True
           \<and> pget prf ''numeric_correctness'' = PBool True \<and> pget prf ''memory_cap'' = PBool True
           \<and> nonempty_str (pget prf ''allocation_owner_identity''))"

fun hashable :: "pyval \<Rightarrow> bool" where
  "hashable (PList _) = False" | "hashable (PDict _) = False"
| "hashable (PTuple xs) = list_all hashable xs" | "hashable _ = True"

definition immutable_prefill_policy :: "pyval \<Rightarrow> pyval result" where
  "immutable_prefill_policy v =
     (let strategy = pget v ''strategy''; candidate_id = pget v ''candidate_id''; routes = pget v ''routes'' in
      if \<not> hashable strategy then Inl TypeError
      else if strategy \<notin> set (map PStr executing_strategies) then Inl ValueError
      else if \<not> nonempty_str candidate_id then Inl ValueError
      else if \<not> is_mapping routes \<or> list_ex (\<lambda>kv. fst kv = [] \<or> \<not> nonempty_str (snd kv)) (items routes) then Inl ValueError
      else Inr (json_roundtrip v))"

text \<open>\<open>dict(v)\<close>: a copy of a mapping, or the dictionary of an iterable of pairs.\<close>

definition dict_of_pairs :: "pyval \<Rightarrow> (string, pyval) dict result" where
  "dict_of_pairs v = rbind (py_iter v) (\<lambda>xs. rfold (\<lambda>x d. rbind (py_iter x) (\<lambda>kw.
     case kw of [PStr k, w] \<Rightarrow> Inr (dset k w d) | _ \<Rightarrow> Inl ValueError)) xs [])"

definition py_dict :: "pyval \<Rightarrow> (string, pyval) dict result" where
  "py_dict v = (case v of PDict d \<Rightarrow> Inr d | _ \<Rightarrow> dict_of_pairs v)"

definition select_prefill_runtime_policy :: "pyval \<Rightarrow> device_facts \<Rightarrow> bool \<Rightarrow> bool option \<Rightarrow> pyval result" where
  "select_prefill_runtime_policy v f workload_reuse tc_attn_override =
     (let target_default = shared_attention_proven_eligible v f in
      rbind (pindex v ''routes'') (\<lambda>r. rbind (py_dict r) (\<lambda>routes.
        immutable_prefill_policy (PDict
          (dset ''prefill_tc_attn'' (PBool (target_default \<and> tc_attn_override \<noteq> Some False))
          (dset ''workload_reuse'' (PBool workload_reuse)
          (dset ''routes'' (PDict routes) (items v))))))))"

definition prefill_policy_strategy :: "pyval option \<Rightarrow> string result" where
  "prefill_policy_strategy policy = (case policy of None \<Rightarrow> Inr ''DIRECT_PACKED_FALLBACK''
     | Some p \<Rightarrow> rbind (pindex p ''strategy'') (\<lambda>s. Inr (py_str s)))"

definition prefill_policy_uses_overlay :: "pyval option \<Rightarrow> bool result" where
  "prefill_policy_uses_overlay policy = rbind (prefill_policy_strategy policy) (\<lambda>s. Inr (s = ''FULL_RESIDENT_OVERLAY''))"

definition prefill_concrete_kv_auto_decision :: "bool \<Rightarrow> bool \<Rightarrow> bool \<times> string" where
  "prefill_concrete_kv_auto_decision workload_reuse prefill_v2_on =
     (if \<not> prefill_v2_on then (False, ''selected prefill representation is off -> concrete-KV moot'')
      else (True, ''prefill-v2 concrete-KV attention is the default execution path; per-start_pos jits compile lazily and cache''))"

definition prefill_v2_validate_ubatch :: "int \<Rightarrow> unit result" where
  "prefill_v2_validate_ubatch ubatch = rguard (ubatch \<in> set concrete_prefill_validated_m) ValueError"

section \<open>Admission inputs\<close>

record admission_inputs =
  ai_requested :: pyval
  ai_trained_ctx :: int
  ai_free_vram :: "int option"
  ai_q4_bytes :: int
  ai_est_fp16 :: int
  ai_num_blocks :: int
  ai_n_heads :: int
  ai_n_kv_heads :: int
  ai_head_dim :: int
  ai_prefill_ubatch :: int
  ai_v2_on :: bool
  ai_resident_fp16_admit :: bool
  ai_model_label :: string
  ai_stream :: string
  ai_rope_dim :: "int option"
  ai_kv_quant_supported :: bool
  ai_kv_quant_disabled :: bool
  ai_live_split_s :: int

text \<open>The metadata: the architecture label, and the numeric keys.\<close>

record model_metadata =
  md_architecture :: "string option"
  md_numbers :: "(string, int) dict"

definition dget_default :: "('k, 'v) dict \<Rightarrow> 'k \<Rightarrow> 'v \<Rightarrow> 'v" where
  "dget_default d k x = (case map_of d k of None \<Rightarrow> x | Some v \<Rightarrow> v)"

definition from_model_metadata ::
  "pyval \<Rightarrow> model_metadata \<Rightarrow> int option \<Rightarrow> int \<Rightarrow> int \<Rightarrow> int \<Rightarrow> bool \<Rightarrow> bool \<Rightarrow> string option \<Rightarrow> string
   \<Rightarrow> bool \<Rightarrow> bool \<Rightarrow> int \<Rightarrow> admission_inputs result" where
  "from_model_metadata requested kv free_vram q4_bytes est_fp16 prefill_ubatch v2_on resident label stream
       quant_supported quant_disabled live_split_s =
     (case md_architecture kv of None \<Rightarrow> Inl KeyError
      | Some arch \<Rightarrow>
        (let d = md_numbers kv in
         rbind (dget d (arch @ ''.attention.head_count'')) (\<lambda>n_heads.
         rbind (dget d (arch @ ''.attention.head_count_kv'')) (\<lambda>n_kv_heads.
         rbind (dget d (arch @ ''.embedding_length'')) (\<lambda>emb.
         rbind (if n_heads = 0 then Inl ZeroDivisionError else Inr (emb div n_heads)) (\<lambda>per_head.
         (let head_dim = dget_default d (arch @ ''.attention.key_length_mla'')
                           (dget_default d (arch @ ''.attention.key_length'') per_head) in
         rbind (dget d (arch @ ''.context_length'')) (\<lambda>trained.
         rbind (dget d (arch @ ''.block_count'')) (\<lambda>blocks.
           Inr \<lparr>ai_requested = requested, ai_trained_ctx = trained, ai_free_vram = free_vram, ai_q4_bytes = q4_bytes,
                ai_est_fp16 = est_fp16,
                ai_num_blocks = blocks - dget_default d (arch @ ''.nextn_predict_layers'') 0,
                ai_n_heads = n_heads, ai_n_kv_heads = n_kv_heads, ai_head_dim = head_dim,
                ai_prefill_ubatch = prefill_ubatch, ai_v2_on = v2_on, ai_resident_fp16_admit = resident,
                ai_model_label = (case label of None \<Rightarrow> arch @ '' selected model''
                   | Some l \<Rightarrow> if l = [] then arch @ '' selected model'' else l),
                ai_stream = stream,
                ai_rope_dim = Some (dget_default d (arch @ ''.rope.dimension_count'') head_dim),
                ai_kv_quant_supported = quant_supported, ai_kv_quant_disabled = quant_disabled,
                ai_live_split_s = live_split_s\<rparr>)))))))))"

record context_terms =
  ct_weights :: int
  ct_kv_per_tok :: int
  ct_prefill_per_tok :: int
  ct_flash_scratch :: int
  ct_kv_scale_per_tok :: int

definition terms_from_inputs :: "admission_inputs \<Rightarrow> bool \<Rightarrow> context_terms" where
  "terms_from_inputs inp resident_fp16 =
     \<lparr>ct_weights = ai_q4_bytes inp + (if resident_fp16 then ai_est_fp16 inp else 0),
      ct_kv_per_tok = 2 * ai_n_kv_heads inp * ai_head_dim inp * 2 * ai_num_blocks inp,
      ct_prefill_per_tok = 4 * ai_n_heads inp * ai_prefill_ubatch inp,
      ct_flash_scratch = ai_n_heads inp * ai_live_split_s inp * (ai_head_dim inp + 2) * 4,
      ct_kv_scale_per_tok = 2 * ai_n_kv_heads inp * 2 * ai_num_blocks inp\<rparr>"

section \<open>Context resolution\<close>

record context_candidate =
  xc_candidate_id :: string
  xc_kv_storage :: string
  xc_bytes_per_token :: int
  xc_exact_context :: bool
  xc_ring_buffer :: bool

definition context_candidate_to_dict :: "context_candidate \<Rightarrow> int \<Rightarrow> bool \<Rightarrow> pyval" where
  "context_candidate_to_dict c capacity supported = PDict
     [(''candidate_id'', PStr (xc_candidate_id c)), (''kv_storage'', PStr (xc_kv_storage c)),
      (''bytes_per_token'', PInt (xc_bytes_per_token c)), (''exact_context'', PBool (xc_exact_context c)),
      (''ring_buffer'', PBool (xc_ring_buffer c)), (''supported'', PBool supported),
      (''capacity_tokens'', PInt (max capacity 0))]"

record context_report =
  rp_free_bytes :: int
  rp_budget_bytes :: int
  rp_weights_bytes :: int
  rp_flash_scratch_bytes :: int
  rp_kv_bytes_per_tok :: int
  rp_prefill_bytes_per_tok :: int
  rp_mc_fp16 :: int
  rp_mc_q8 :: int
  rp_mc_ring :: int
  rp_trained_ctx :: int
  rp_ring :: bool
  rp_context_candidates :: "pyval list"
  rp_mode :: string
  rp_kv_quant :: bool
  rp_max_context :: int
  rp_mc_mem :: int
  rp_banner :: "string option"
  rp_prefill_memory_strategy :: "string option"
  rp_prefill_memory_feasible :: "string list"
  rp_prefill_memory_selection_deferred :: bool

definition ring_banner :: "int \<Rightarrow> string" where
  "ring_banner n = ''STREAMING MODE: fp16 KV window N='' @ str_int n
     @ '' -- generation is unbounded, but content older than the last ~'' @ str_int n
     @ '' tokens (plus 4 sinks) is evicted and forgotten (StreamingLLM). --stream=off to disable.''"

definition capacity :: "int \<Rightarrow> int \<Rightarrow> int \<Rightarrow> int \<Rightarrow> int \<Rightarrow> int" where
  "capacity budget fixed prefill_per_tok trained_ctx kv_pt =
     (let pt = kv_pt + prefill_per_tok in if pt > 0 then (budget - fixed) div pt else trained_ctx)"

definition is_auto :: "pyval \<Rightarrow> bool" where
  "is_auto requested = (requested = PNone \<or> requested = PStr ''auto'')"

definition resolve_max_context_admission ::
  "pyval \<Rightarrow> int \<Rightarrow> scanned_budget \<Rightarrow> int \<Rightarrow> int \<Rightarrow> int \<Rightarrow> int \<Rightarrow> bool \<Rightarrow> int \<Rightarrow> string \<Rightarrow> bool
   \<Rightarrow> (int \<times> bool \<times> context_report) result" where
  "resolve_max_context_admission requested trained_ctx scanned weights_bytes kv_per_tok prefill_per_tok
       flash_scratch_bytes kv_quant_supported scale_per_tok stream ring_supported =
     (let auto = is_auto requested; ring_ok = (ring_supported \<and> stream \<noteq> ''off'') in
      case (sb_free scanned, admitted_bytes scanned) of
        (Some free_bytes, Some budget) \<Rightarrow>
          (let fixed = weights_bytes + flash_scratch_bytes;
               kv_q8_per_tok = kv_per_tok div 2 + scale_per_tok;
               mc = capacity budget fixed prefill_per_tok trained_ctx;
               mc_fp16 = mc kv_per_tok;
               mc_q8 = (if kv_quant_supported then mc kv_q8_per_tok else - 1)
           in rbind (if auto then Inr trained_ctx else py_int requested) (\<lambda>target.
          (let ring_n = (if auto then min mc_fp16 trained_ctx else min (min target mc_fp16) trained_ctx);
               fp16_candidate = \<lparr>xc_candidate_id = ''kv-fp16-exact'', xc_kv_storage = ''fp16'',
                  xc_bytes_per_token = kv_per_tok, xc_exact_context = True, xc_ring_buffer = False\<rparr>;
               q8_candidate = \<lparr>xc_candidate_id = ''kv-q8-exact'', xc_kv_storage = ''q8'',
                  xc_bytes_per_token = kv_q8_per_tok, xc_exact_context = True, xc_ring_buffer = False\<rparr>;
               ring_candidate = \<lparr>xc_candidate_id = ''kv-fp16-ring'', xc_kv_storage = ''fp16'',
                  xc_bytes_per_token = kv_per_tok, xc_exact_context = False, xc_ring_buffer = True\<rparr>;
               report = \<lparr>rp_free_bytes = free_bytes, rp_budget_bytes = budget, rp_weights_bytes = weights_bytes,
                  rp_flash_scratch_bytes = flash_scratch_bytes, rp_kv_bytes_per_tok = kv_per_tok,
                  rp_prefill_bytes_per_tok = prefill_per_tok, rp_mc_fp16 = max mc_fp16 0, rp_mc_q8 = max mc_q8 0,
                  rp_mc_ring = max ring_n 0, rp_trained_ctx = trained_ctx, rp_ring = False,
                  rp_context_candidates = [context_candidate_to_dict fp16_candidate mc_fp16 True,
                    context_candidate_to_dict q8_candidate mc_q8 kv_quant_supported,
                    context_candidate_to_dict ring_candidate ring_n ring_supported],
                  rp_mode = [], rp_kv_quant = False, rp_max_context = 0, rp_mc_mem = 0, rp_banner = None,
                  rp_prefill_memory_strategy = None, rp_prefill_memory_feasible = [],
                  rp_prefill_memory_selection_deferred = False\<rparr>;
               ring_report = report\<lparr>rp_mode := ''ring'', rp_kv_quant := False, rp_ring := True,
                  rp_max_context := ring_n, rp_mc_mem := max ring_n 0, rp_banner := Some (ring_banner ring_n)\<rparr>
           in if stream = ''on'' then
                (if \<not> ring_supported then Inl RuntimeError
                 else if ring_n \<le> 0 then Inl RuntimeError
                 else Inr (ring_n, False, ring_report))
              else if mc_fp16 \<ge> target then
                (let m = min (min target mc_fp16) trained_ctx in
                 Inr (m, False, report\<lparr>rp_mode := (if auto then ''auto'' else ''explicit''), rp_kv_quant := False,
                   rp_max_context := m, rp_mc_mem := max mc_fp16 0\<rparr>))
              else if kv_quant_supported \<and> mc_q8 \<ge> target then
                (let m = min (min target mc_q8) trained_ctx in
                 Inr (m, True, report\<lparr>rp_mode := (if auto then ''auto+q8'' else ''explicit+q8''), rp_kv_quant := True,
                   rp_max_context := m, rp_kv_bytes_per_tok := kv_q8_per_tok, rp_mc_mem := max mc_q8 0\<rparr>))
              else if \<not> auto then Inl RuntimeError
              else if ring_ok \<and> ring_n > 0 then Inr (ring_n, False, ring_report)
              else Inl RuntimeError)))
      | _ \<Rightarrow> Inl RuntimeError)"

record admission_plan =
  ap_max_context :: int
  ap_kv_quant :: bool
  ap_report :: context_report
  ap_weights :: int
  ap_kv_per_tok :: int
  ap_prefill_per_tok :: int
  ap_prefill_memory_plan :: "string option"

definition kv_quant_shape :: "admission_inputs \<Rightarrow> bool" where
  "kv_quant_shape inp = (ai_head_dim inp = 128 \<and> ai_n_kv_heads inp = 8 \<and> ai_n_heads inp mod ai_n_kv_heads inp = 0)"

definition plan_context_admission :: "admission_inputs \<Rightarrow> scanned_budget \<Rightarrow> context_terms \<Rightarrow> admission_plan result" where
  "plan_context_admission inp budget ts =
     (let quant_supported = (ai_kv_quant_supported inp \<and> kv_quant_shape inp \<and> \<not> ai_kv_quant_disabled inp);
          ring_supported = (kv_quant_shape inp \<and>
            (case ai_rope_dim inp of None \<Rightarrow> ai_head_dim inp | Some r \<Rightarrow> r) = ai_head_dim inp);
          scale = (if quant_supported then ct_kv_scale_per_tok ts else 0)
      in rbind (resolve_max_context_admission (ai_requested inp) (ai_trained_ctx inp) budget (ct_weights ts)
                  (ct_kv_per_tok ts) (ct_prefill_per_tok ts) (ct_flash_scratch ts) quant_supported scale
                  (ai_stream inp) ring_supported)
           (\<lambda>(m, q, r). Inr \<lparr>ap_max_context = m, ap_kv_quant = q, ap_report = r, ap_weights = ct_weights ts,
              ap_kv_per_tok = ct_kv_per_tok ts, ap_prefill_per_tok = ct_prefill_per_tok ts,
              ap_prefill_memory_plan = None\<rparr>))"

section \<open>The exact plan of one selected route\<close>

definition admit_exact_selected_model ::
  "memory_ledger \<Rightarrow> scanned_budget \<Rightarrow> string list option \<Rightarrow> exact_decision list result" where
  "admit_exact_selected_model ledger budget cands =
     (let ids = (case cands of None \<Rightarrow> candidates ledger | Some xs \<Rightarrow> xs) in
      if ids = [] then Inl ValueError else Inr (exact_memory_decisions ledger budget ids))"

record exact_plan =
  xp_scan :: memory_scan
  xp_decision :: exact_decision

definition span_to_dict :: "tensor_span \<Rightarrow> pyval" where
  "span_to_dict s = PDict [(''name'', PStr (ts_name s)), (''ggml_type'', PInt (ts_type s)),
     (''shape'', PTuple (map PInt (ts_shape s))), (''relative_offset'', PInt (ts_relative_offset s)),
     (''absolute_offset'', PInt (ts_absolute_offset s)), (''payload_bytes'', pint_opt (ts_payload_bytes s)),
     (''span_bytes'', pint_opt (ts_span_bytes s))]"

definition exact_plan_to_dict :: "exact_plan \<Rightarrow> pyval" where
  "exact_plan_to_dict p = PDict [(''model_path'', PStr (ms_model_path (xp_scan p))),
     (''tensor_spans'', PList (map span_to_dict (ms_tensor_spans (xp_scan p)))),
     (''decision'', decision_to_dict (xp_decision p))]"

definition plan_exact_selected_model_load ::
  "string \<Rightarrow> gguf_metadata \<Rightarrow> int option \<Rightarrow> runtime_geometry \<Rightarrow> pyval \<Rightarrow> device_facts \<Rightarrow> exact_plan result" where
  "plan_exact_selected_model_load path meta file_size geometry route_facts f =
     (let candidate_id = pget route_facts ''candidate_id''; copies = pget route_facts ''resident_copies'';
          workspace = pget route_facts ''candidate_workspace_bytes''; given = pget route_facts ''provenance'';
          detail = (if nonempty_str given then str_of given else ''route did not provide memory-fact provenance'')
      in if \<not> nonempty_str candidate_id then Inl ValueError
         else
           rbind (mk_candidate_workspace (str_of candidate_id) workspace detail) (\<lambda>cw.
           rbind (scan_selected_gguf_memory path geometry [cw]
                    (pint_opt (cap_global_allocation_granularity (df_capabilities f))) copies meta file_size) (\<lambda>scan.
           rbind (scanned_device_memory_budget f) (\<lambda>budget.
           rbind (admit_exact_selected_model (ms_ledger scan) budget (Some [str_of candidate_id])) (\<lambda>decisions.
           rbind (lget decisions 0) (\<lambda>d. Inr \<lparr>xp_scan = scan, xp_decision = d\<rparr>))))))"

section \<open>The memory plan of the selected model\<close>

record selected_memory =
  sm_admission :: admission_plan
  sm_plan :: prefill_memory_plan
  sm_effective :: strategy

definition base_terms :: "admission_inputs \<Rightarrow> context_terms \<Rightarrow> admission_plan \<Rightarrow> byte_term list result" where
  "base_terms inp ts context =
     (let scale = (if ap_kv_quant context then ct_kv_scale_per_tok ts else 0);
          kv = (ct_kv_per_tok ts div (if ap_kv_quant context then 2 else 1) + scale) * ap_max_context context
      in rmap (\<lambda>(name, b, prov, formula, lifetime). mk_byte_term name (PInt b) prov formula lifetime)
        [(''packed_weights'', ai_q4_bytes inp, ''selected GGUF tensor/file inventory'',
          ''sum resident packed allocations'', PERSISTENT),
         (''kv_cache'', kv, ''transformer geometry and admitted context'',
          ''kv_bytes_per_token * admitted_context + scale_bytes'', PERSISTENT),
         (''prefill_activations'', ap_prefill_per_tok context * ap_max_context context, ''prefill workload geometry'',
          ''prefill_bytes_per_token * admitted_context'', PREFILL_PEAK),
         (''flash_scratch'', ct_flash_scratch ts, ''decode/prefill attention geometry'',
          ''n_heads * live_split_s * (head_dim + 2) * sizeof(float32)'', PREFILL_PEAK)])"

definition memory_candidates :: "admission_inputs \<Rightarrow> bool \<Rightarrow> candidate_coverage list result" where
  "memory_candidates inp direct_packed_supported =
     rbind (mk_byte_term ''dense_fp16_overlay'' (PInt (ai_est_fp16 inp)) ''selected GGUF covered tensor inventory''
              ''sum covered tensor elements * sizeof(float16)'' PERSISTENT) (\<lambda>overlay.
     rbind (mk_candidate_coverage ''full-resident-overlay'' FULL_RESIDENT_OVERLAY [overlay] [''prefill''] [''prefill'']
              (ai_v2_on inp) []) (\<lambda>full.
     rbind (mk_candidate_coverage ''direct-packed-baseline'' DIRECT_PACKED_FALLBACK [] [''prefill'']
              (if direct_packed_supported then [''prefill''] else []) direct_packed_supported
              (if direct_packed_supported then [] else [''direct packed coverage is unavailable''])) (\<lambda>direct.
       Inr [full, direct])))"

definition plan_selected_model_memory ::
  "admission_inputs \<Rightarrow> device_facts \<Rightarrow> bool \<Rightarrow> bool option \<Rightarrow> selected_memory result" where
  "plan_selected_model_memory inp f direct_packed_supported overlay_requested =
     rbind (scanned_device_memory_budget f) (\<lambda>budget.
     rbind (mk_byte_term ''runtime_safety_reserve'' (pint_opt (sb_reserve budget)) (pr_source (df_memory_probe f))
              ''align_up(total_vram_bytes - free_vram_bytes, scanned_allocator_granularity)'' SAFETY_RESERVE) (\<lambda>reserve.
     rbind (mk_memory_facts (pint_opt (df_total_vram_bytes f)) budget reserve (pr_source (df_memory_probe f))) (\<lambda>device.
     (let explicit_overlay = (overlay_requested = Some True); ts = terms_from_inputs inp explicit_overlay in
     rbind (plan_context_admission (inp\<lparr>ai_free_vram := df_free_vram_bytes f, ai_resident_fp16_admit := explicit_overlay\<rparr>)
              budget ts) (\<lambda>context.
     rbind (base_terms inp ts context) (\<lambda>base.
     rbind (memory_candidates inp direct_packed_supported) (\<lambda>cands.
     (let override = (if explicit_overlay then Some [FULL_RESIDENT_OVERLAY]
                      else if overlay_requested = Some False then Some [DIRECT_PACKED_FALLBACK] else None) in
     rbind (plan_prefill_memory device base cands override) (\<lambda>plan.
       if pm_decision plan = Some REFUSE then Inl RuntimeError
       else
        (let preferred = (if pm_decision plan = Some FULL_RESIDENT_OVERLAY then FULL_RESIDENT_OVERLAY
                          else DIRECT_PACKED_FALLBACK) in
         rbind (if preferred \<in> set (pm_feasible_strategies plan) then Inr preferred
                else lget (pm_feasible_strategies plan) 0) (\<lambda>effective.
         Inr \<lparr>sm_admission = context\<lparr>
                ap_report := (ap_report context)\<lparr>rp_prefill_memory_strategy := Some (strategy_value effective),
                  rp_prefill_memory_feasible := map strategy_value (pm_feasible_strategies plan),
                  rp_prefill_memory_selection_deferred := (pm_decision plan = None)\<rparr>,
                ap_prefill_memory_plan := Some (json_text (prefill_plan_to_dict plan))\<rparr>,
              sm_plan = plan, sm_effective = effective\<rparr>)))))))))))"

end
