(* ===== verification/LedgerSpec.thy ===== *)
theory LedgerSpec
  imports GgufScan
begin

text \<open>
  What the scan and the ledger guarantee together: the tensor payloads of an accepted table are
  disjoint and lie in the file, the decision is exactly the fail-closed test, and an admitted
  model fits, with every allocation rounded and replicated, between the reserve and the free bytes.
\<close>

section \<open>The shape of the scanned ledger\<close>

definition kind_bytes :: "allocation_kind \<Rightarrow> runtime_geometry \<Rightarrow> int option" where
  "kind_bytes k g = (case k of KV_CACHE \<Rightarrow> kv_bytes g | RUNTIME_PERSISTENT \<Rightarrow> rg_runtime_persistent_bytes g
     | PREFILL_ACTIVATION \<Rightarrow> rg_peak_prefill_activation_bytes g | PREFILL_OUTPUT \<Rightarrow> rg_peak_prefill_output_bytes g
     | PREFILL_SCRATCH \<Rightarrow> rg_peak_prefill_scratch_bytes g | _ \<Rightarrow> None)"

definition geometry_kinds :: "allocation_kind list" where
  "geometry_kinds = [KV_CACHE, RUNTIME_PERSISTENT, PREFILL_ACTIVATION, PREFILL_OUTPUT, PREFILL_SCRATCH]"

lemma pint_opt_inject [simp]: "pint_opt x = pint_opt y \<longleftrightarrow> x = y"
  by (cases x; cases y) auto

lemma mk_ledger_allocation_facts:
  assumes "mk_ledger_allocation name kind (pint_opt b) prov cid tn p a c = Inr x"
  shows "la_name x = name \<and> la_kind x = kind \<and> la_bytes x = b \<and> la_candidate_id x = cid \<and> allocation_wf x"
  using mk_ledger_allocation_fields [OF assms] mk_ledger_allocation_wf [OF assms] by simp

lemma runtime_allocations_Inr:
  assumes "runtime_allocations selected g = Inr xs"
  shows "map la_bytes xs = map (\<lambda>k. kind_bytes k g) geometry_kinds"
    and "map la_kind xs = geometry_kinds" and "\<forall>x \<in> set xs. la_candidate_id x = None \<and> allocation_wf x"
  using assms
  by (auto simp: runtime_allocations_def geometry_kinds_def kind_bytes_def rbind_eq_Inr
      dest!: mk_ledger_allocation_facts)

lemma span_allocation_Inr:
  assumes "span_allocation selected alignment copies s = Inr x"
  shows "la_kind x = GGUF_TENSOR" "la_candidate_id x = None" "allocation_wf x"
    "pint_opt (la_alignment x) = alignment" "pint_opt (la_copies x) = copies"
    "la_bytes x = (case (ts_payload_bytes s, la_alignment x, la_copies x) of
        (Some p, Some a, Some c) \<Rightarrow> Some (aligned_bytes p a c) | _ \<Rightarrow> None)"
proof -
  from assms obtain prov where "gguf_tensor (ts_name s) (pint_opt (ts_payload_bytes s)) alignment copies prov = Inr x"
    by (auto simp: span_allocation_def rbind_eq_Inr)
  note f = gguf_tensor_Inr [OF this]
  show "la_kind x = GGUF_TENSOR" "la_candidate_id x = None" "allocation_wf x"
    "pint_opt (la_alignment x) = alignment" "pint_opt (la_copies x) = copies"
    by (fact f)+
  have "la_payload_bytes x = ts_payload_bytes s" using f(5) by simp
  with f(8) show "la_bytes x = (case (ts_payload_bytes s, la_alignment x, la_copies x) of
        (Some p, Some a, Some c) \<Rightarrow> Some (aligned_bytes p a c) | _ \<Rightarrow> None)"
    by simp
qed

lemma workspace_allocation_Inr:
  assumes "workspace_allocation selected w = Inr x"
  shows "la_name x = ''workspace:'' @ cw_candidate_id w" "la_kind x = CANDIDATE_WORKSPACE"
    "la_bytes x = cw_bytes w" "la_candidate_id x = Some (cw_candidate_id w)" "allocation_wf x"
  using assms by (auto simp: workspace_allocation_def rbind_eq_Inr dest!: mk_ledger_allocation_facts)

lemma filter_unique_key: "distinct (map f xs) \<Longrightarrow> x \<in> set xs \<Longrightarrow> filter (\<lambda>y. f y = f x) xs = [x]"
proof (induction xs)
  case Nil
  then show ?case by simp
next
  case (Cons y ys)
  show ?case
  proof (cases "x = y")
    case True
    with Cons.prems(1) have "filter (\<lambda>z. f z = f y) ys = []" by (simp add: filter_empty_conv image_iff) metis
    with True show ?thesis by simp
  next
    case False
    with Cons.prems have "f y \<noteq> f x" by auto
    with False Cons show ?thesis by auto
  qed
qed

lemma rmap_map: "rmap f xs = Inr ys \<Longrightarrow> (\<And>x y. x \<in> set xs \<Longrightarrow> f x = Inr y \<Longrightarrow> h y = k x) \<Longrightarrow> map h ys = map k xs"
  by (rule nth_equalityI) (auto simp: rmap_eq_Inr_iff)

lemma rmap_all: "rmap f xs = Inr ys \<Longrightarrow> (\<And>x y. x \<in> set xs \<Longrightarrow> f x = Inr y \<Longrightarrow> P y) \<Longrightarrow> \<forall>y \<in> set ys. P y"
  by (metis in_set_conv_nth nth_mem rmap_eq_Inr_iff)

lemma scan_Inr:
  assumes "scan_selected_gguf_memory path g cands alignment copies meta fs = Inr m"
  obtains spans tensors runtime ws where
    "tensor_spans (gm_data_start meta) (gm_tensor_infos meta) fs = Inr spans"
    "ms_tensor_spans m = spans"
    "rmap (span_allocation (''selected path='' @ path) alignment copies) spans = Inr tensors"
    "runtime_allocations (''selected path='' @ path) g = Inr runtime"
    "rmap (workspace_allocation (''selected path='' @ path)) cands = Inr ws"
    "ms_ledger m = \<lparr>ml_allocations = tensors @ runtime @ ws\<rparr>"
    "distinct (map la_name (tensors @ runtime @ ws))"
  using assms by (auto simp: scan_selected_gguf_memory_def rbind_eq_Inr Let_def mk_memory_ledger_def split: if_splits)

lemma scan_ledger_wf:
  assumes "scan_selected_gguf_memory path g cands alignment copies meta fs = Inr m"
  shows "ledger_wf (ms_ledger m)"
proof -
  from assms obtain spans tensors runtime ws where
    t: "rmap (span_allocation (''selected path='' @ path) alignment copies) spans = Inr tensors"
    and r: "runtime_allocations (''selected path='' @ path) g = Inr runtime"
    and w: "rmap (workspace_allocation (''selected path='' @ path)) cands = Inr ws"
    and l: "ms_ledger m = \<lparr>ml_allocations = tensors @ runtime @ ws\<rparr>"
    and d: "distinct (map la_name (tensors @ runtime @ ws))"
    by (rule scan_Inr)
  have "\<forall>x \<in> set tensors. allocation_wf x" by (rule rmap_all [OF t]) (rule span_allocation_Inr)
  moreover have "\<forall>x \<in> set ws. allocation_wf x" by (rule rmap_all [OF w]) (rule workspace_allocation_Inr)
  ultimately show ?thesis using runtime_allocations_Inr(3) [OF r] d unfolding ledger_wf_def l by auto
qed

lemma selected_scan:
  assumes "ms_ledger m = \<lparr>ml_allocations = tensors @ runtime @ ws\<rparr>"
    and "\<forall>x \<in> set (tensors @ runtime). la_candidate_id x = None"
    and "\<forall>x \<in> set ws. la_candidate_id x \<noteq> None"
  shows "selected_allocations (ms_ledger m) cid = tensors @ runtime @ filter (\<lambda>x. la_candidate_id x = Some cid) ws"
proof -
  have "filter (\<lambda>x. la_candidate_id x \<in> {None, Some cid}) (tensors @ runtime) = tensors @ runtime"
    using assms(2) by (simp add: filter_id_conv)
  moreover have "filter (\<lambda>x. la_candidate_id x \<in> {None, Some cid}) ws = filter (\<lambda>x. la_candidate_id x = Some cid) ws"
    using assms(3) by (intro filter_cong) auto
  ultimately show ?thesis by (simp add: selected_allocations_def assms(1))
qed

section \<open>Admission of a scanned model\<close>

definition tensor_bytes :: "int \<Rightarrow> int \<Rightarrow> tensor_span \<Rightarrow> int" where
  "tensor_bytes a c s = aligned_bytes (the (ts_payload_bytes s)) a c"

lemma admitted_tensors:
  assumes t: "rmap (span_allocation selected alignment copies) spans = Inr tensors"
    and known: "None \<notin> set (map la_bytes tensors)" and "tensors \<noteq> []"
  obtains a c where "alignment = PInt a" "copies = PInt c" "0 < a" "0 < c"
    "\<forall>s \<in> set spans. ts_payload_bytes s \<noteq> None"
    "sum_list (map the (map la_bytes tensors)) = (\<Sum>s\<leftarrow>spans. tensor_bytes a c s)"
proof -
  obtain x where x: "x \<in> set tensors" using \<open>tensors \<noteq> []\<close> by (cases tensors) auto
  have facts: "\<forall>x \<in> set tensors. pint_opt (la_alignment x) = alignment \<and> pint_opt (la_copies x) = copies \<and> allocation_wf x"
    by (rule rmap_all [OF t]) (auto dest: span_allocation_Inr)
  have "\<forall>x \<in> set tensors. la_bytes x \<noteq> None \<longrightarrow> la_alignment x \<noteq> None \<and> la_copies x \<noteq> None"
    by (rule rmap_all [OF t]) (auto dest!: span_allocation_Inr(6) split: option.splits)
  then obtain a c where ac: "la_alignment x = Some a" "la_copies x = Some c"
    using x known by (force simp: image_iff)
  then have eq: "alignment = PInt a" "copies = PInt c" and pos: "0 < a" "0 < c"
    using facts x by (auto simp: allocation_wf_def)
  have bytes: "map la_bytes tensors = map (\<lambda>s. map_option (\<lambda>p. aligned_bytes p a c) (ts_payload_bytes s)) spans"
  proof (rule rmap_map [OF t])
    fix s y assume y: "span_allocation selected alignment copies s = Inr y"
    have "pint_opt (la_alignment y) = pint_opt (Some a)" "pint_opt (la_copies y) = pint_opt (Some c)"
      using span_allocation_Inr(4,5) [OF y] eq by simp_all
    then show "la_bytes y = map_option (\<lambda>p. aligned_bytes p a c) (ts_payload_bytes s)"
      using span_allocation_Inr(6) [OF y] by (simp only: pint_opt_inject) (auto split: option.splits)
  qed
  have payload: "\<forall>s \<in> set spans. ts_payload_bytes s \<noteq> None"
    using known unfolding bytes by (auto simp: image_iff)
  then have "map the (map la_bytes tensors) = map (tensor_bytes a c) spans"
    unfolding bytes by (auto simp: tensor_bytes_def)
  then show thesis using that eq pos payload by (metis (no_types))
qed

lemma scan_admission_sound:
  assumes scan: "scan_selected_gguf_memory path g cands alignment copies meta fs = Inr m"
    and adm: "ed_admitted (decide (ms_ledger m) budget cid)"
  obtains a c w f r where "alignment = PInt a" "copies = PInt c" "0 < a" "0 < c"
    "w \<in> set cands" "cw_candidate_id w = cid" "cw_bytes w \<noteq> None"
    "sb_free budget = Some f" "sb_reserve budget = Some r"
    "\<forall>s \<in> set (ms_tensor_spans m). ts_payload_bytes s \<noteq> None"
    "\<forall>k \<in> set geometry_kinds. kind_bytes k g \<noteq> None"
    "(\<Sum>s\<leftarrow>ms_tensor_spans m. tensor_bytes a c s) + (\<Sum>k\<leftarrow>geometry_kinds. the (kind_bytes k g)) + the (cw_bytes w)
      \<le> max 0 (f - r)"
proof -
  from scan obtain spans tensors runtime ws where
    spans: "ms_tensor_spans m = spans"
    and t: "rmap (span_allocation (''selected path='' @ path) alignment copies) spans = Inr tensors"
    and r: "runtime_allocations (''selected path='' @ path) g = Inr runtime"
    and w: "rmap (workspace_allocation (''selected path='' @ path)) cands = Inr ws"
    and l: "ms_ledger m = \<lparr>ml_allocations = tensors @ runtime @ ws\<rparr>"
    and d: "distinct (map la_name (tensors @ runtime @ ws))"
    by (rule scan_Inr)
  let ?sel = "tensors @ runtime @ filter (\<lambda>x. la_candidate_id x = Some cid) ws"
  have tk: "\<forall>x \<in> set tensors. la_kind x = GGUF_TENSOR \<and> la_candidate_id x = None"
    by (rule rmap_all [OF t]) (auto dest: span_allocation_Inr)
  have wk: "\<forall>x \<in> set ws. la_kind x = CANDIDATE_WORKSPACE \<and> (\<exists>w \<in> set cands. la_candidate_id x = Some (cw_candidate_id w)
      \<and> la_bytes x = cw_bytes w) \<and> la_name x = ''workspace:'' @ the (la_candidate_id x)"
  proof (rule rmap_all [OF w])
    fix x y assume "x \<in> set cands" and "workspace_allocation (''selected path='' @ path) x = Inr y"
    then show "la_kind y = CANDIDATE_WORKSPACE \<and> (\<exists>w \<in> set cands. la_candidate_id y = Some (cw_candidate_id w)
      \<and> la_bytes y = cw_bytes w) \<and> la_name y = ''workspace:'' @ the (la_candidate_id y)"
      using workspace_allocation_Inr [of "''selected path='' @ path" x y] by auto
  qed
  note rk = runtime_allocations_Inr [OF r]
  have sel: "selected_allocations (ms_ledger m) cid = ?sel"
    by (rule selected_scan [OF l]) (use tk rk(3) wk in auto)
  from ledger.admitted_within [of "(ms_ledger m, cid)" budget] adm obtain p v where
    p: "known_total (map la_bytes ?sel) = Some p" "admitted_bytes budget = Some v" "p \<le> v"
    by (auto simp: sel)
  have comp: "ledger_complete ?sel cid"
    using ledger.incomplete_refuses [of "(ms_ledger m, cid)" budget] adm by (auto simp: sel)
  then obtain x where x: "x \<in> set ws" "la_candidate_id x = Some cid"
    using tk rk(3) by (auto simp: ledger_complete_def)
  obtain w0 where w0: "w0 \<in> set cands" "cw_candidate_id w0 = cid" "cw_bytes w0 = la_bytes x"
    using wk x by force
  have "distinct (map (\<lambda>x. ''workspace:'' @ the (la_candidate_id x)) ws)"
    using d wk by (auto cong: map_cong)
  then have "distinct (map la_candidate_id ws)"
    by (simp add: distinct_map inj_on_def)
  then have one: "filter (\<lambda>x. la_candidate_id x = Some cid) ws = [x]"
    using filter_unique_key [of la_candidate_id ws x] x by simp
  have kind: "GGUF_TENSOR \<in> la_kind ` set ?sel"
    using comp by (auto simp: ledger_complete_def required_kinds_def)
  have "tensors \<noteq> []"
  proof
    assume "tensors = []"
    then have "GGUF_TENSOR \<in> set (map la_kind runtime)" using kind wk by auto
    then show False by (simp add: rk(2) geometry_kinds_def)
  qed
  moreover have known: "None \<notin> set (map la_bytes ?sel)" and total: "p = sum_list (map the (map la_bytes ?sel))"
    using p(1) unfolding known_total_Some by blast+
  ultimately obtain a c where ac: "alignment = PInt a" "copies = PInt c" "0 < a" "0 < c"
    "\<forall>s \<in> set spans. ts_payload_bytes s \<noteq> None"
    "sum_list (map the (map la_bytes tensors)) = (\<Sum>s\<leftarrow>spans. tensor_bytes a c s)"
    by (auto intro: admitted_tensors [OF t])
  have "map the (map la_bytes runtime) = map (\<lambda>k. the (kind_bytes k g)) geometry_kinds"
    by (simp only: rk(1)) simp
  moreover have "None \<notin> set (map (\<lambda>k. kind_bytes k g) geometry_kinds)"
    using known by (auto simp: rk(1) [symmetric])
  then have "\<forall>k \<in> set geometry_kinds. kind_bytes k g \<noteq> None" by (auto simp: image_iff) (metis not_None_eq)
  moreover obtain f r where "sb_free budget = Some f" "sb_reserve budget = Some r" "v = max 0 (f - r)"
    using p(2) by (auto simp: admitted_bytes_def split: option.splits)
  moreover have "cw_bytes w0 \<noteq> None" using known one w0(3) by auto
  moreover have "p = (\<Sum>s\<leftarrow>spans. tensor_bytes a c s) + sum_list (map the (map la_bytes runtime)) + the (la_bytes x)"
    using total one ac(6) by (simp add: comp_def)
  ultimately show thesis
    using that [OF ac(1-4) w0(1,2)] ac(5) w0(3) p(3) spans by metis
qed

section \<open>Properties\<close>

text \<open>Property C9. The admission decision for a candidate is positive exactly when every selected
  allocation has a known size, all six required allocation classes and the candidate's own
  workspace are present, the free and reserved bytes are known, and the sum of the sizes is at most
  the free bytes less the reserve (never below zero).\<close>

theorem ledger_decision_iff:
  "ed_admitted (decide l b cid) \<longleftrightarrow>
     (\<forall>x \<in> set (selected_allocations l cid). la_bytes x \<noteq> None)
     \<and> set required_kinds \<subseteq> la_kind ` set (selected_allocations l cid)
     \<and> (\<exists>x \<in> set (selected_allocations l cid). la_kind x = CANDIDATE_WORKSPACE \<and> la_candidate_id x = Some cid)
     \<and> (\<exists>f r. sb_free b = Some f \<and> sb_reserve b = Some r
            \<and> (\<Sum>x\<leftarrow>selected_allocations l cid. the (la_bytes x)) \<le> max 0 (f - r))"
proof -
  have adm: "(\<exists>v. admitted_bytes b = Some v \<and> P v) \<longleftrightarrow>
      (\<exists>f r. sb_free b = Some f \<and> sb_reserve b = Some r \<and> P (max 0 (f - r)))" for P
    by (auto simp: admitted_bytes_def split: option.splits)
  have known: "None \<notin> set (map la_bytes xs) \<longleftrightarrow> (\<forall>x \<in> set xs. la_bytes x \<noteq> None)" for xs
    by (auto simp: image_iff) (metis not_None_eq)
  show ?thesis
    by (simp add: decide_reasons_empty known_total_Some known adm ledger_complete_def comp_def del: set_map) blast
qed

definition sample_ledger :: "memory_ledger" where
  "sample_ledger = \<lparr>ml_allocations = map (\<lambda>(n, k, b, c).
     \<lparr>la_name = n, la_kind = k, la_bytes = b, la_provenance = \<lparr>pv_source = ''s'', pv_detail = ''d''\<rparr>,
      la_candidate_id = c, la_tensor_name = Some n, la_payload_bytes = None, la_alignment = None, la_copies = None\<rparr>)
     [(''t'', GGUF_TENSOR, Some 64, None), (''k'', KV_CACHE, Some 32, None), (''p'', RUNTIME_PERSISTENT, Some 0, None),
      (''a'', PREFILL_ACTIVATION, Some 8, None), (''o'', PREFILL_OUTPUT, Some 8, None),
      (''s'', PREFILL_SCRATCH, Some 16, None), (''w'', CANDIDATE_WORKSPACE, Some 72, Some ''c''),
      (''x'', CANDIDATE_WORKSPACE, None, Some ''other'')]\<rparr>"

definition sample_budget :: "int \<Rightarrow> scanned_budget" where
  "sample_budget f = \<lparr>sb_free = Some f, sb_reserve = Some 64, sb_provenance = \<lparr>pv_source = ''s'', pv_detail = ''d''\<rparr>\<rparr>"

lemma ledger_decision_iff_witness:
  "ed_admitted (decide sample_ledger (sample_budget 264) ''c'') \<and> \<not> ed_admitted (decide sample_ledger (sample_budget 263) ''c'')
   \<and> \<not> ed_admitted (decide sample_ledger (sample_budget 264) ''other'')"
  unfolding ledger_decision_iff
  by (simp add: sample_ledger_def sample_budget_def selected_allocations_def required_kinds_def)

text \<open>Property C10. An accepted tensor table describes disjoint payloads: in the order of the spans, a
  payload ends before the next tensor begins, the first does not begin before the data section, and
  when the file size is known every payload ends inside the file.\<close>

theorem gguf_payloads_disjoint_in_file:
  assumes "tensor_spans d infos fs = Inr ss"
  shows "(\<forall>i j p. i < j \<and> j < length ss \<and> ts_payload_bytes (ss ! i) = Some p \<longrightarrow>
            ts_absolute_offset (ss ! i) + p \<le> ts_absolute_offset (ss ! j))
       \<and> (\<forall>s \<in> set ss. as_int d \<le> ts_absolute_offset s)
       \<and> (\<forall>s \<in> set ss. \<forall>p sz. ts_payload_bytes s = Some p \<and> fs = Some sz \<longrightarrow> ts_absolute_offset s + p \<le> sz)"
proof (intro conjI allI ballI impI)
  fix i j p assume "i < j \<and> j < length ss \<and> ts_payload_bytes (ss ! i) = Some p"
  then show "ts_absolute_offset (ss ! i) + p \<le> ts_absolute_offset (ss ! j)"
    using tensor_spans_disjoint [OF assms] by blast
next
  fix s assume "s \<in> set ss"
  then obtain i where "i < length ss" "s = ss ! i" by (auto simp: in_set_conv_nth)
  then show "as_int d \<le> ts_absolute_offset s"
    using tensor_spans_entry [OF assms] by (auto simp: span_entry_ok_def)
next
  fix s p sz assume "s \<in> set ss" and *: "ts_payload_bytes s = Some p \<and> fs = Some sz"
  then obtain i where "i < length ss" "s = ss ! i" by (auto simp: in_set_conv_nth)
  with * show "ts_absolute_offset s + p \<le> sz"
    using tensor_spans_in_file assms by blast
qed

definition sample_infos :: "tensor_info list" where
  "sample_infos =
     [\<lparr>ti_name = ''b'', ti_dims = [256, 2], ti_type = 12, ti_offset = 96\<rparr>,
      \<lparr>ti_name = ''a'', ti_dims = [3, 4], ti_type = 0, ti_offset = 0\<rparr>]"

lemma sample_spans:
  "tensor_spans (PInt 64) sample_infos (Some 448) = Inr
     [\<lparr>ts_name = ''a'', ts_type = 0, ts_shape = [4, 3], ts_relative_offset = 0, ts_absolute_offset = 64,
       ts_payload_bytes = Some 48, ts_span_bytes = Some 96\<rparr>,
      \<lparr>ts_name = ''b'', ts_type = 12, ts_shape = [2, 256], ts_relative_offset = 96, ts_absolute_offset = 160,
       ts_payload_bytes = Some 288, ts_span_bytes = Some 288\<rparr>]"
  by code_simp

lemma gguf_payloads_disjoint_in_file_witness:
  "case tensor_spans (PInt 64) sample_infos (Some 448) of Inl _ \<Rightarrow> False
   | Inr ss \<Rightarrow> length ss = 2 \<and> 64 \<le> ts_absolute_offset (ss ! 0)
       \<and> ts_absolute_offset (ss ! 0) + the (ts_payload_bytes (ss ! 0)) \<le> ts_absolute_offset (ss ! 1)
       \<and> ts_absolute_offset (ss ! 1) + the (ts_payload_bytes (ss ! 1)) \<le> 448"
  using gguf_payloads_disjoint_in_file [OF sample_spans] unfolding sample_spans by (simp add: all_conj_distrib)

text \<open>Property C11. When a scanned model is admitted for a candidate, no fact was missing: the
  allocation alignment and the number of resident copies are known positive integers, every tensor has
  a known payload, every runtime allocation and the workspace of that candidate are known, and the sum
  of all of them (each tensor rounded up to the alignment and multiplied by the copies) is at most the
  scanned free bytes less the reserve.\<close>

theorem scan_admission_fits:
  assumes "scan_selected_gguf_memory path g cands alignment copies meta fs = Inr m"
    and "ed_admitted (decide (ms_ledger m) budget cid)"
  shows "\<exists>a c w f r kv persist act out scr. alignment = PInt a \<and> copies = PInt c \<and> 0 < a \<and> 0 < c
    \<and> w \<in> set cands \<and> cw_candidate_id w = cid \<and> cw_bytes w \<noteq> None
    \<and> sb_free budget = Some f \<and> sb_reserve budget = Some r
    \<and> (\<forall>s \<in> set (ms_tensor_spans m). ts_payload_bytes s \<noteq> None)
    \<and> kv_bytes g = Some kv \<and> rg_runtime_persistent_bytes g = Some persist
    \<and> rg_peak_prefill_activation_bytes g = Some act \<and> rg_peak_prefill_output_bytes g = Some out
    \<and> rg_peak_prefill_scratch_bytes g = Some scr
    \<and> (\<Sum>s\<leftarrow>ms_tensor_spans m. aligned_bytes (the (ts_payload_bytes s)) a c)
       + kv + persist + act + out + scr + the (cw_bytes w) \<le> max 0 (f - r)"
proof -
  from assms obtain a c w f r where *: "alignment = PInt a" "copies = PInt c" "0 < a" "0 < c"
    "w \<in> set cands" "cw_candidate_id w = cid" "cw_bytes w \<noteq> None"
    "sb_free budget = Some f" "sb_reserve budget = Some r"
    "\<forall>s \<in> set (ms_tensor_spans m). ts_payload_bytes s \<noteq> None"
    "\<forall>k \<in> set geometry_kinds. kind_bytes k g \<noteq> None"
    "(\<Sum>s\<leftarrow>ms_tensor_spans m. tensor_bytes a c s) + (\<Sum>k\<leftarrow>geometry_kinds. the (kind_bytes k g)) + the (cw_bytes w)
      \<le> max 0 (f - r)"
    by (rule scan_admission_sound)
  from *(11) obtain kv persist act out scr where k: "kv_bytes g = Some kv" "rg_runtime_persistent_bytes g = Some persist"
    "rg_peak_prefill_activation_bytes g = Some act" "rg_peak_prefill_output_bytes g = Some out"
    "rg_peak_prefill_scratch_bytes g = Some scr"
    by (auto simp: geometry_kinds_def kind_bytes_def)
  have "(\<Sum>k\<leftarrow>geometry_kinds. the (kind_bytes k g)) = kv + persist + act + out + scr"
    by (simp add: geometry_kinds_def kind_bytes_def k)
  then have "(\<Sum>s\<leftarrow>ms_tensor_spans m. aligned_bytes (the (ts_payload_bytes s)) a c)
       + kv + persist + act + out + scr + the (cw_bytes w) \<le> max 0 (f - r)"
    using *(12) by (simp add: tensor_bytes_def)
  with *(1-10) k show ?thesis by blast
qed

definition sample_geometry :: "int option \<Rightarrow> runtime_geometry" where
  "sample_geometry scratch = \<lparr>rg_num_blocks = 2, rg_n_kv_heads = 1, rg_head_dim = 4, rg_max_context = 8,
     rg_prefill_ubatch = 4, rg_batch_size = Some 1, rg_kv_element_bytes = Some 2, rg_kv_scale_element_bytes = None,
     rg_kv_scales_per_token = 0, rg_runtime_persistent_bytes = Some 10, rg_peak_prefill_activation_bytes = Some 20,
     rg_peak_prefill_output_bytes = Some 30, rg_peak_prefill_scratch_bytes = scratch\<rparr>"

definition sample_scan :: "int option \<Rightarrow> memory_scan result" where
  "sample_scan scratch = scan_selected_gguf_memory ''m'' (sample_geometry scratch)
     [\<lparr>cw_candidate_id = ''c'', cw_bytes = Some 100, cw_detail = ''x''\<rparr>] (PInt 32) (PInt 1)
     \<lparr>gm_kv = PNone, gm_data_start = PInt 64, gm_tensor_infos = sample_infos\<rparr> (Some 448)"

lemma sample_scan_runs: "(case sample_scan (Some 40) of Inl _ \<Rightarrow> False
    | Inr m \<Rightarrow> ed_admitted (decide (ms_ledger m) (sample_budget 5000) ''c''))"
  by code_simp

lemma scan_admission_fits_witness:
  "\<exists>m (w :: candidate_workspace). sample_scan (Some 40) = Inr m \<and> cw_candidate_id w = ''c'' \<and> cw_bytes w \<noteq> None
     \<and> (\<forall>s \<in> set (ms_tensor_spans m). ts_payload_bytes s \<noteq> None)"
proof -
  obtain m where m: "sample_scan (Some 40) = Inr m" "ed_admitted (decide (ms_ledger m) (sample_budget 5000) ''c'')"
    using sample_scan_runs by (auto split: sum.splits)
  show ?thesis
    using scan_admission_fits [OF m(1) [unfolded sample_scan_def] m(2)] m(1) by blast
qed

end
