(* ===== verification/AdmissionSpec.thy ===== *)
theory AdmissionSpec
  imports Admission LedgerSpec
begin

text \<open>
  Properties of load admission: the planner's feasible set, overrides, the resolved context length
  and the end-to-end memory plan.  The common pattern is that a positive answer names a state in
  which every byte is known and fits under the scanned budget.
\<close>

section \<open>The context resolution, branch by branch\<close>

lemma resolve_Inr:
  assumes "resolve_max_context_admission requested trained scanned w kv pre flash q8 scale stream ring = Inr (m, q, r)"
  obtains (ring) fr b t where "sb_free scanned = Some fr" "admitted_bytes scanned = Some b"
      "(if is_auto requested then Inr trained else py_int requested) = Inr t" "ring" "0 < m" "\<not> q" "rp_ring r"
      "m = min (min t (capacity b (w + flash) pre trained kv)) trained"
      "stream = ''on'' \<or> is_auto requested \<and> stream \<noteq> ''off'' \<and> capacity b (w + flash) pre trained kv < t
         \<and> (q8 \<longrightarrow> capacity b (w + flash) pre trained (kv div 2 + scale) < t)"
  | (fp16) fr b t where "sb_free scanned = Some fr" "admitted_bytes scanned = Some b"
      "(if is_auto requested then Inr trained else py_int requested) = Inr t" "stream \<noteq> ''on''" "\<not> q" "\<not> rp_ring r"
      "t \<le> capacity b (w + flash) pre trained kv" "m = min t trained"
  | (q8) fr b t where "sb_free scanned = Some fr" "admitted_bytes scanned = Some b"
      "(if is_auto requested then Inr trained else py_int requested) = Inr t" "stream \<noteq> ''on''" "q" "\<not> rp_ring r" "q8"
      "capacity b (w + flash) pre trained kv < t" "t \<le> capacity b (w + flash) pre trained (kv div 2 + scale)"
      "m = min t trained"
proof -
  obtain fr b where fb: "sb_free scanned = Some fr" "admitted_bytes scanned = Some b"
    using assms by (auto simp: resolve_max_context_admission_def Let_def split: option.splits)
  obtain t where t: "(if is_auto requested then Inr trained else py_int requested) = Inr t"
    using assms fb by (cases "(if is_auto requested then Inr trained else py_int requested)")
      (auto simp: resolve_max_context_admission_def Let_def)
  have auto_t: "t = trained" if "is_auto requested" using t that by simp
  define c16 where "c16 = capacity b (w + flash) pre trained kv"
  define c8 where "c8 = capacity b (w + flash) pre trained (kv div 2 + scale)"
  define n where "n = min (min t c16) trained"
  have n: "(if is_auto requested then min c16 trained else min (min t c16) trained) = n"
    using auto_t by (auto simp: n_def)
  note eq = assms [unfolded resolve_max_context_admission_def fb t rbind_Inr Let_def option.case prod.case
      c16_def [symmetric] c8_def [symmetric] n]
  consider "stream = ''on''" | "stream \<noteq> ''on''" "t \<le> c16" | "stream \<noteq> ''on''" "\<not> t \<le> c16" "q8" "t \<le> c8"
    | "stream \<noteq> ''on''" "\<not> t \<le> c16" "\<not> (q8 \<and> t \<le> c8)"
    by blast
  then show thesis
  proof cases
    case 1
    with eq have "ring" "0 < m" "\<not> q" "rp_ring r" "m = n" by (auto split: if_splits)
    then show thesis by (intro ring [OF fb t]) (auto simp: n_def c16_def 1)
  next
    case 2
    with eq have "m = min (min t c16) trained" "\<not> q" "\<not> rp_ring r" by auto
    with 2 show thesis by (intro fp16 [OF fb t]) (auto simp: c16_def)
  next
    case 3
    with eq have "m = min (min t c8) trained" "q" "\<not> rp_ring r" by auto
    with 3 show thesis by (intro q8 [OF fb t]) (auto simp: c16_def c8_def)
  next
    case 4
    with eq have "ring" "0 < m" "\<not> q" "rp_ring r" "m = n" "is_auto requested" "stream \<noteq> ''off''"
      by (auto split: if_splits)
    with 4 show thesis by (intro ring [OF fb t]) (auto simp: n_def c16_def c8_def)
  qed
qed

lemma capacity_fits:
  assumes "0 < kv_pt + pre" and "m \<le> capacity b fixed pre trained kv_pt"
  shows "m * (kv_pt + pre) + fixed \<le> b"
proof -
  have "m * (kv_pt + pre) \<le> (b - fixed) div (kv_pt + pre) * (kv_pt + pre)"
    using assms by (simp add: capacity_def Let_def mult_right_mono)
  also have "\<dots> \<le> b - fixed"
    using assms(1) by (metis add_le_same_cancel1 le_add_same_cancel1 mult.commute minus_mod_eq_mult_div pos_mod_sign diff_ge_0_iff_ge le_diff_eq diff_le_eq order_refl)
  finally show ?thesis by simp
qed

lemma resolve_fits:
  assumes "resolve_max_context_admission requested trained scanned w kv pre flash q8 scale stream ring = Inr (m, q, r)"
    and "admitted_bytes scanned = Some b" and "0 < kv + pre" and "0 < kv div 2 + scale + pre"
  shows "m * ((if q then kv div 2 + scale else kv) + pre) + (w + flash) \<le> b"
  using assms(1)
proof (cases rule: resolve_Inr)
  case (ring fr b' t)
  then show ?thesis using assms(2,3) by (auto intro!: capacity_fits [where trained = trained])
next
  case (fp16 fr b' t)
  then show ?thesis using assms(2,3) by (auto intro!: capacity_fits [where trained = trained])
next
  case (q8 fr b' t)
  then show ?thesis using assms(2,4) by (auto intro!: capacity_fits [where trained = trained])
qed

section \<open>The selected-model plan\<close>

lemma mk_byte_term_Inr:
  "mk_byte_term name b prov formula lt = Inr t \<Longrightarrow> pint_opt (bt_bytes t) = b \<and> bt_lifetime t = lt \<and> bt_name t = name
     \<and> (\<forall>i. bt_bytes t = Some i \<longrightarrow> 0 \<le> i)"
  by (auto simp: mk_byte_term_def rbind_eq_Inr validator_Inr split: if_splits)

lemma mk_byte_term_PInt:
  "name \<noteq> [] \<Longrightarrow> prov \<noteq> [] \<Longrightarrow> formula \<noteq> [] \<Longrightarrow> 0 \<le> b \<Longrightarrow> mk_byte_term name (PInt b) prov formula lt
     = Inr \<lparr>bt_name = name, bt_bytes = Some b, bt_provenance = prov, bt_formula = formula, bt_lifetime = lt\<rparr>"
  by (simp add: mk_byte_term_def opt_nonneg_def)

lemma base_terms_ok:
  assumes "0 \<le> ai_q4_bytes inp" "0 \<le> ct_flash_scratch ts" "0 \<le> ap_prefill_per_tok ctxp" "0 \<le> ap_max_context ctxp"
    and "0 \<le> ct_kv_per_tok ts" "0 \<le> ct_kv_scale_per_tok ts"
  shows "\<exists>base. base_terms inp ts ctxp = Inr base"
proof -
  have "0 \<le> ct_kv_per_tok ts div (if ap_kv_quant ctxp then 2 else 1) + (if ap_kv_quant ctxp then ct_kv_scale_per_tok ts else 0)"
    using assms(5,6) by (auto intro!: add_nonneg_nonneg simp: pos_imp_zdiv_nonneg_iff)
  then have "0 \<le> (ct_kv_per_tok ts div (if ap_kv_quant ctxp then 2 else 1)
      + (if ap_kv_quant ctxp then ct_kv_scale_per_tok ts else 0)) * ap_max_context ctxp"
    using assms(4) by (rule mult_nonneg_nonneg)
  moreover have "0 \<le> ap_prefill_per_tok ctxp * ap_max_context ctxp" using assms(3,4) by simp
  ultimately show ?thesis
    using assms(1,2) by (simp only: base_terms_def Let_def rmap.simps prod.case) (simp add: mk_byte_term_PInt)
qed

lemma memory_candidates_ok: "0 \<le> ai_est_fp16 inp \<Longrightarrow> \<exists>cands. memory_candidates inp direct = Inr cands"
  by (simp add: memory_candidates_def mk_byte_term_PInt mk_candidate_coverage_def)

lemma base_terms_Inr:
  assumes "base_terms inp ts ctxp = Inr base"
  shows "map bt_bytes base = [Some (ai_q4_bytes inp),
      Some ((ct_kv_per_tok ts div (if ap_kv_quant ctxp then 2 else 1)
             + (if ap_kv_quant ctxp then ct_kv_scale_per_tok ts else 0)) * ap_max_context ctxp),
      Some (ap_prefill_per_tok ctxp * ap_max_context ctxp), Some (ct_flash_scratch ts)]"
    and "0 \<le> ai_q4_bytes inp" "0 \<le> ct_flash_scratch ts"
  using assms by (auto simp: base_terms_def Let_def rbind_eq_Inr dest!: mk_byte_term_Inr)

lemma memory_candidates_Inr:
  assumes "memory_candidates inp direct = Inr cands"
  obtains full dir where "cands = [full, dir]" "cc_strategy full = FULL_RESIDENT_OVERLAY"
    "cc_strategy dir = DIRECT_PACKED_FALLBACK" "map bt_bytes (cc_memory_terms full) = [Some (ai_est_fp16 inp)]"
    "cc_memory_terms dir = []" "cc_supported full = ai_v2_on inp" "cc_supported dir = direct"
    "cc_candidate_id full = ''full-resident-overlay''" "cc_candidate_id dir = ''direct-packed-baseline''"
    "0 \<le> ai_est_fp16 inp" "cc_required_invocations full = [''prefill'']" "cc_covered_invocations full = [''prefill'']"
    "cc_required_invocations dir = [''prefill'']" "cc_covered_invocations dir = (if direct then [''prefill''] else [])"
proof -
  from assms obtain ov where "mk_byte_term ''dense_fp16_overlay'' (PInt (ai_est_fp16 inp)) ''selected GGUF covered tensor inventory''
              ''sum covered tensor elements * sizeof(float16)'' PERSISTENT = Inr ov"
    and c: "cands = [\<lparr>cc_candidate_id = ''full-resident-overlay'', cc_strategy = FULL_RESIDENT_OVERLAY, cc_memory_terms = [ov],
        cc_required_invocations = [''prefill''], cc_covered_invocations = [''prefill''], cc_supported = ai_v2_on inp,
        cc_reasons = []\<rparr>,
      \<lparr>cc_candidate_id = ''direct-packed-baseline'', cc_strategy = DIRECT_PACKED_FALLBACK, cc_memory_terms = [],
        cc_required_invocations = [''prefill''], cc_covered_invocations = (if direct then [''prefill''] else []),
        cc_supported = direct, cc_reasons = (if direct then [] else [''direct packed coverage is unavailable''])\<rparr>]"
    by (auto simp: memory_candidates_def rbind_eq_Inr mk_candidate_coverage_def split: if_splits)
  from mk_byte_term_Inr [OF this(1)] show thesis by (intro that [OF c]) auto
qed

lemma decision_in_feasible:
  assumes p: "plan_prefill_memory device bases cands override = Inr p"
    and "\<forall>c \<in> set cands. cc_strategy c \<noteq> REFUSE"
  shows "set (pm_feasible_strategies p) = {cc_strategy c |c. c \<in> set cands \<and> candidate_feasible device bases override c}"
proof -
  have "set strategy_order = - {REFUSE}"
    using strategy.exhaust by (auto simp: strategy_order_def)
  then show ?thesis
    using assms(2) unfolding plan_prefill_Inr(5) [OF p] plan_prefill_Inr(3) [OF p]
    by (fastforce simp: list_ex_iff candidate_feasible_def image_iff)
qed

lemma lget_or_member: "xs \<noteq> [] \<Longrightarrow> \<exists>e. (if x \<in> set xs then Inr x else lget xs 0) = Inr e"
  by (cases xs) (simp_all add: lget_def)

lemma feasible_not_refused:
  assumes p: "plan_prefill_memory device bases cands override = Inr p"
    and "\<forall>c \<in> set cands. cc_strategy c \<noteq> REFUSE" and "c \<in> set cands" and "candidate_feasible device bases override c"
  shows "pm_decision p \<noteq> Some REFUSE"
proof -
  let ?fs = "filter cd_feasible (pm_candidate_decisions p)"
  have "set ?fs = decide_candidate (admitted_bytes (mf_scanned_budget device)) bases (map_option normalize_override override)
      ` {c \<in> set cands. candidate_feasible device bases override c}"
    unfolding plan_prefill_Inr(3) [OF p] by (auto simp: candidate_feasible_def)
  then have "?fs \<noteq> []" "\<forall>d \<in> set ?fs. cd_strategy d \<noteq> REFUSE"
    using assms(2-4) by (auto simp flip: set_empty)
  then show ?thesis
    unfolding plan_prefill_Inr(6) [OF p] by (cases ?fs) (simp_all del: set_filter split: list.splits)
qed

text \<open>The plan's parts, for a successful run.\<close>

lemma plan_selected_Inr:
  assumes "plan_selected_model_memory inp f direct overlay = Inr sm"
  obtains budget reserve device ctxp base cands plan where
    "scanned_device_memory_budget f = Inr budget"
    "mf_scanned_budget device = budget"
    "plan_context_admission (inp\<lparr>ai_free_vram := df_free_vram_bytes f, ai_resident_fp16_admit := (overlay = Some True)\<rparr>)
       budget (terms_from_inputs inp (overlay = Some True)) = Inr ctxp"
    "base_terms inp (terms_from_inputs inp (overlay = Some True)) ctxp = Inr base"
    "memory_candidates inp direct = Inr cands"
    "plan_prefill_memory device base cands (if overlay = Some True then Some [FULL_RESIDENT_OVERLAY]
       else if overlay = Some False then Some [DIRECT_PACKED_FALLBACK] else None) = Inr plan"
    "pm_decision plan \<noteq> Some REFUSE" "sm_plan sm = plan"
    "ap_max_context (sm_admission sm) = ap_max_context ctxp" "ap_kv_quant (sm_admission sm) = ap_kv_quant ctxp"
    "sm_effective sm \<in> set (pm_feasible_strategies plan)"
proof -
  from assms obtain budget reserve device ctxp base cands plan where
    1: "scanned_device_memory_budget f = Inr budget"
    and 2: "mk_memory_facts (pint_opt (df_total_vram_bytes f)) budget reserve (pr_source (df_memory_probe f)) = Inr device"
    and 3: "plan_context_admission (inp\<lparr>ai_free_vram := df_free_vram_bytes f, ai_resident_fp16_admit := (overlay = Some True)\<rparr>)
       budget (terms_from_inputs inp (overlay = Some True)) = Inr ctxp"
    and 4: "base_terms inp (terms_from_inputs inp (overlay = Some True)) ctxp = Inr base"
    and 5: "memory_candidates inp direct = Inr cands"
    and 6: "plan_prefill_memory device base cands (if overlay = Some True then Some [FULL_RESIDENT_OVERLAY]
       else if overlay = Some False then Some [DIRECT_PACKED_FALLBACK] else None) = Inr plan"
    and 7: "pm_decision plan \<noteq> Some REFUSE" "sm_plan sm = plan"
      "ap_max_context (sm_admission sm) = ap_max_context ctxp" "ap_kv_quant (sm_admission sm) = ap_kv_quant ctxp"
    and 8: "sm_effective sm \<in> set (pm_feasible_strategies plan)"
    by (auto simp: plan_selected_model_memory_def Let_def rbind_eq_Inr split: if_splits)
  have "mf_scanned_budget device = budget"
    using 2 by (auto simp: mk_memory_facts_def rbind_eq_Inr split: if_splits)
  then show thesis using that 1 3 4 5 6 7 8 by blast
qed

lemma none_feasible_refused:
  assumes p: "plan_prefill_memory device bases cands override = Inr p"
    and "\<forall>c \<in> set cands. \<not> candidate_feasible device bases override c"
  shows "pm_decision p = Some REFUSE"
proof -
  have "filter cd_feasible (pm_candidate_decisions p) = []"
    using assms(2) unfolding plan_prefill_Inr(3) [OF p] by (auto simp: candidate_feasible_def filter_empty_conv)
  then show ?thesis unfolding plan_prefill_Inr(6) [OF p] by simp
qed

text \<open>The conditions on a model's geometry under which every byte term is a number.\<close>

definition sound_geometry :: "admission_inputs \<Rightarrow> bool" where
  "sound_geometry inp \<longleftrightarrow> 0 \<le> ai_q4_bytes inp \<and> 0 \<le> ai_est_fp16 inp \<and> 0 < ai_num_blocks inp \<and> 0 < ai_n_heads inp
     \<and> 0 < ai_n_kv_heads inp \<and> 0 < ai_head_dim inp \<and> 0 < ai_prefill_ubatch inp \<and> 0 < ai_live_split_s inp"

lemma sound_geometry_terms:
  assumes "sound_geometry inp"
  shows "0 \<le> ct_kv_per_tok (terms_from_inputs inp r)" "0 \<le> ct_prefill_per_tok (terms_from_inputs inp r)"
    "0 < ct_prefill_per_tok (terms_from_inputs inp r)" "0 \<le> ct_flash_scratch (terms_from_inputs inp r)"
    "0 \<le> ct_kv_scale_per_tok (terms_from_inputs inp r)"
    "0 < ct_kv_per_tok (terms_from_inputs inp r) + ct_prefill_per_tok (terms_from_inputs inp r)"
  using assms by (auto simp: sound_geometry_def terms_from_inputs_def intro!: add_pos_pos add_nonneg_nonneg mult_nonneg_nonneg)

text \<open>What the context resolution has settled when the second check begins: the parts of the plan exist and, with
  the overlay among the weights when it is requested, the context fits.\<close>

lemma resolved_parts:
  assumes s: "scanned_device_memory_budget f = Inr budget"
    and c: "plan_context_admission (inp\<lparr>ai_free_vram := df_free_vram_bytes f, ai_resident_fp16_admit := explicit\<rparr>)
           budget (terms_from_inputs inp explicit) = Inr ctxp"
    and "0 \<le> ap_max_context ctxp" and g: "sound_geometry inp"
  obtains reserve device base b where
    "mk_byte_term ''runtime_safety_reserve'' (pint_opt (sb_reserve budget)) (pr_source (df_memory_probe f))
              ''align_up(total_vram_bytes - free_vram_bytes, scanned_allocator_granularity)'' SAFETY_RESERVE = Inr reserve"
    "mk_memory_facts (pint_opt (df_total_vram_bytes f)) budget reserve (pr_source (df_memory_probe f)) = Inr device"
    "mf_scanned_budget device = budget" "base_terms inp (terms_from_inputs inp explicit) ctxp = Inr base"
    "admitted_bytes budget = Some b" "\<forall>t \<in> set base. bt_known t"
    "(\<Sum>t\<leftarrow>base. the (bt_bytes t)) + (if explicit then ai_est_fp16 inp else 0) \<le> b"
proof -
  let ?ts = "terms_from_inputs inp explicit"
  note nn = sound_geometry_terms [OF g, of explicit]
  obtain q8 ring r where res: "resolve_max_context_admission (ai_requested inp) (ai_trained_ctx inp) budget (ct_weights ?ts)
      (ct_kv_per_tok ?ts) (ct_prefill_per_tok ?ts) (ct_flash_scratch ?ts) q8 (if q8 then ct_kv_scale_per_tok ?ts else 0)
      (ai_stream inp) ring = Inr (ap_max_context ctxp, ap_kv_quant ctxp, r)"
    and pre: "ap_prefill_per_tok ctxp = ct_prefill_per_tok ?ts"
    using c by (auto simp: plan_context_admission_def Let_def rbind_eq_Inr)
  obtain b where b: "admitted_bytes budget = Some b"
    using res by (cases rule: resolve_Inr) auto
  have q: "ap_kv_quant ctxp \<Longrightarrow> q8" using res by (cases rule: resolve_Inr) auto
  let ?kv = "ct_kv_per_tok ?ts div (if ap_kv_quant ctxp then 2 else 1) + (if ap_kv_quant ctxp then ct_kv_scale_per_tok ?ts else 0)"
  have fits: "ap_max_context ctxp * (?kv + ct_prefill_per_tok ?ts) + (ct_weights ?ts + ct_flash_scratch ?ts) \<le> b"
    using resolve_fits [OF res b nn(6)] nn q by (auto split: if_splits simp: add_nonneg_pos pos_imp_zdiv_nonneg_iff)
  obtain t fr a where t: "df_total_vram_bytes f = Some t" "df_free_vram_bytes f = Some fr" "0 \<le> fr" "fr \<le> t" "0 < a"
    "sb_reserve budget = Some ((t - fr + a - 1) div a * a)"
    using scanned_budget_known [OF s b] by metis
  have src: "pr_source (df_memory_probe f) \<noteq> []"
    using s by (auto simp: scanned_device_memory_budget_def Let_def rbind_eq_Inr mk_provenance_def split: if_splits)
  have rnn: "0 \<le> (t - fr + a - 1) div a * a" using t by (simp add: pos_imp_zdiv_nonneg_iff)
  obtain reserve where reserve: "mk_byte_term ''runtime_safety_reserve'' (pint_opt (sb_reserve budget)) (pr_source (df_memory_probe f))
              ''align_up(total_vram_bytes - free_vram_bytes, scanned_allocator_granularity)'' SAFETY_RESERVE = Inr reserve"
    "bt_bytes reserve = sb_reserve budget" "bt_lifetime reserve = SAFETY_RESERVE"
    using src rnn t(6) by (simp add: mk_byte_term_def opt_nonneg_def)
  obtain device where device: "mk_memory_facts (pint_opt (df_total_vram_bytes f)) budget reserve (pr_source (df_memory_probe f)) = Inr device"
    "mf_scanned_budget device = budget"
    using reserve src t by (simp add: mk_memory_facts_def opt_nonneg_def)
  obtain base where base: "base_terms inp ?ts ctxp = Inr base"
    using base_terms_ok [of inp ?ts ctxp] assms(3) g nn pre by (auto simp: sound_geometry_def)
  have bytes: "map the (map bt_bytes base) = [ai_q4_bytes inp, ?kv * ap_max_context ctxp,
      ct_prefill_per_tok ?ts * ap_max_context ctxp, ct_flash_scratch ?ts]" and known: "None \<notin> set (map bt_bytes base)"
    unfolding base_terms_Inr(1) [OF base] pre by auto
  have w: "ct_weights ?ts = ai_q4_bytes inp + (if explicit then ai_est_fp16 inp else 0)" by (simp add: terms_from_inputs_def)
  have "(\<Sum>t\<leftarrow>base. the (bt_bytes t)) = sum_list (map the (map bt_bytes base))" by (simp add: comp_def)
  then have "(\<Sum>t\<leftarrow>base. the (bt_bytes t)) + (if explicit then ai_est_fp16 inp else 0) \<le> b"
    unfolding bytes using fits unfolding w by (simp add: algebra_simps)
  moreover have "\<forall>t \<in> set base. bt_known t" using known by (auto simp: bt_known_def image_iff) (metis not_None_eq)
  ultimately show thesis using that [OF reserve(1) device base b] by blast
qed

lemma planned_when_resolved:
  assumes s: "scanned_device_memory_budget f = Inr budget"
    and c: "plan_context_admission (inp\<lparr>ai_free_vram := df_free_vram_bytes f, ai_resident_fp16_admit := (overlay = Some True)\<rparr>)
           budget (terms_from_inputs inp (overlay = Some True)) = Inr ctxp"
    and m: "0 \<le> ap_max_context ctxp" and g: "sound_geometry inp"
  shows "if overlay = Some True \<and> \<not> ai_v2_on inp then plan_selected_model_memory inp f True overlay = Inl RuntimeError
    else \<exists>sm. plan_selected_model_memory inp f True overlay = Inr sm \<and> ap_max_context (sm_admission sm) = ap_max_context ctxp"
proof -
  define explicit where "explicit = (overlay = Some True)"
  define override where "override = (if overlay = Some True then Some [FULL_RESIDENT_OVERLAY]
       else if overlay = Some False then Some [DIRECT_PACKED_FALLBACK] else None)"
  from resolved_parts [OF s c m g] obtain reserve device base b where
    reserve: "mk_byte_term ''runtime_safety_reserve'' (pint_opt (sb_reserve budget)) (pr_source (df_memory_probe f))
              ''align_up(total_vram_bytes - free_vram_bytes, scanned_allocator_granularity)'' SAFETY_RESERVE = Inr reserve"
    and device: "mk_memory_facts (pint_opt (df_total_vram_bytes f)) budget reserve (pr_source (df_memory_probe f)) = Inr device"
      "mf_scanned_budget device = budget"
    and base: "base_terms inp (terms_from_inputs inp explicit) ctxp = Inr base"
    and b: "admitted_bytes budget = Some b" "\<forall>t \<in> set base. bt_known t"
      "(\<Sum>t\<leftarrow>base. the (bt_bytes t)) + (if explicit then ai_est_fp16 inp else 0) \<le> b"
    unfolding explicit_def [symmetric] by metis
  have est: "0 \<le> ai_est_fp16 inp" using g by (simp add: sound_geometry_def)
  obtain cands where cands: "memory_candidates inp True = Inr cands"
    using memory_candidates_ok [OF est] by blast
  from cands obtain full dir where c': "cands = [full, dir]" "cc_strategy full = FULL_RESIDENT_OVERLAY"
    "cc_strategy dir = DIRECT_PACKED_FALLBACK" "map bt_bytes (cc_memory_terms full) = [Some (ai_est_fp16 inp)]"
    "cc_memory_terms dir = []" "cc_supported full = ai_v2_on inp" "cc_supported dir = True"
    "cc_candidate_id full = ''full-resident-overlay''" "cc_candidate_id dir = ''direct-packed-baseline''"
    "cc_required_invocations full = [''prefill'']" "cc_covered_invocations full = [''prefill'']"
    "cc_required_invocations dir = [''prefill'']" "cc_covered_invocations dir = (if True then [''prefill''] else [])"
    by (rule memory_candidates_Inr)
  have ov: "override = None \<or> override = Some [FULL_RESIDENT_OVERLAY] \<or> override = Some [DIRECT_PACKED_FALLBACK]"
    by (simp add: override_def)
  obtain plan where plan: "plan_prefill_memory device base cands override = Inr plan"
    using c'(1,8,9) ov by (auto simp: plan_prefill_memory_def Let_def normalize_override_def)
  have run: "plan_selected_model_memory inp f True overlay =
      (if pm_decision plan = Some REFUSE then Inl RuntimeError
       else (let preferred = (if pm_decision plan = Some FULL_RESIDENT_OVERLAY then FULL_RESIDENT_OVERLAY
                          else DIRECT_PACKED_FALLBACK) in
         rbind (if preferred \<in> set (pm_feasible_strategies plan) then Inr preferred
                else lget (pm_feasible_strategies plan) 0) (\<lambda>effective.
         Inr \<lparr>sm_admission = ctxp\<lparr>
                ap_report := (ap_report ctxp)\<lparr>rp_prefill_memory_strategy := Some (strategy_value effective),
                  rp_prefill_memory_feasible := map strategy_value (pm_feasible_strategies plan),
                  rp_prefill_memory_selection_deferred := (pm_decision plan = None)\<rparr>,
                ap_prefill_memory_plan := Some (json_text (prefill_plan_to_dict plan))\<rparr>,
              sm_plan = plan, sm_effective = effective\<rparr>)))"
    using s c reserve device base cands plan
    by (simp add: plan_selected_model_memory_def Let_def override_def explicit_def del: lget_eq_Inr)
  show ?thesis
  proof (cases "explicit \<and> \<not> ai_v2_on inp")
    case True
    then have "\<forall>x \<in> set cands. \<not> candidate_feasible device base override x"
      using c' by (simp add: candidate_feasible_iff override_def explicit_def)
    then show ?thesis using True run none_feasible_refused [OF plan] by (simp add: explicit_def)
  next
    case False
    define x where "x = (if explicit then full else dir)"
    have "map the (map bt_bytes (cc_memory_terms full)) = [ai_est_fp16 inp]" "None \<notin> set (map bt_bytes (cc_memory_terms full))"
      unfolding c'(4) by simp_all
    then have "(\<Sum>t\<leftarrow>cc_memory_terms full. the (bt_bytes t)) = ai_est_fp16 inp" "\<forall>t \<in> set (cc_memory_terms full). bt_known t"
      by (auto simp: comp_def bt_known_def image_iff) (metis not_None_eq)
    then have "candidate_feasible device base override x"
      using c' b device(2) False by (cases overlay) (auto simp: candidate_feasible_iff x_def override_def explicit_def)
    moreover have "x \<in> set cands" "\<forall>y \<in> set cands. cc_strategy y \<noteq> REFUSE" using c'(1-3) by (auto simp: x_def)
    ultimately have df: "pm_feasible_strategies plan \<noteq> []" "pm_decision plan \<noteq> Some REFUSE"
      using decision_in_feasible [OF plan] feasible_not_refused [OF plan] by (force, blast)
    then obtain e where "(if (if pm_decision plan = Some FULL_RESIDENT_OVERLAY then FULL_RESIDENT_OVERLAY
          else DIRECT_PACKED_FALLBACK) \<in> set (pm_feasible_strategies plan)
        then Inr (if pm_decision plan = Some FULL_RESIDENT_OVERLAY then FULL_RESIDENT_OVERLAY else DIRECT_PACKED_FALLBACK)
        else lget (pm_feasible_strategies plan) 0) = Inr e"
      using lget_or_member [of "pm_feasible_strategies plan"] by metis
    then have "\<exists>sm. plan_selected_model_memory inp f True overlay = Inr sm \<and> ap_max_context (sm_admission sm) = ap_max_context ctxp"
      using run df(2) by (simp add: Let_def del: lget_eq_Inr)
    then show ?thesis using False unfolding explicit_def by (simp only: if_False)
  qed
qed

section \<open>A sample device and model\<close>

definition sample_facts :: device_facts where
  "sample_facts = \<lparr>df_selected_device = ''AMD'', df_backend = Some ''AMD'', df_architecture = Some ''gfx1100'',
     df_total_vram_bytes = Some 100000, df_free_vram_bytes = Some 90000,
     df_capabilities = \<lparr>cap_wave_size = Some 32, cap_max_workgroup_threads = Some 1024,
       cap_max_workgroup_dimensions = None, cap_lds_bytes = Some 65536, cap_lds_allocation_granularity = None,
       cap_global_allocation_granularity = Some 4096\<rparr>,
     df_target_probe = \<lparr>pr_source = ''t'', pr_observed_at = ''now'', pr_state = ''ok'', pr_error = None\<rparr>,
     df_memory_probe = \<lparr>pr_source = ''m'', pr_observed_at = ''now'', pr_state = ''ok'', pr_error = None\<rparr>,
     df_errors = [], df_schema_version = 2, df_queue_mode = Some ''AQL''\<rparr>"

definition sample_inputs :: "pyval \<Rightarrow> admission_inputs" where
  "sample_inputs req = \<lparr>ai_requested = req, ai_trained_ctx = 512, ai_free_vram = None, ai_q4_bytes = 4000,
     ai_est_fp16 = 8000, ai_num_blocks = 2, ai_n_heads = 4, ai_n_kv_heads = 2, ai_head_dim = 8,
     ai_prefill_ubatch = 4, ai_v2_on = True, ai_resident_fp16_admit = False, ai_model_label = ''m'',
     ai_stream = ''auto'', ai_rope_dim = None, ai_kv_quant_supported = False, ai_kv_quant_disabled = False,
     ai_live_split_s = 2\<rparr>"

definition sample_budget_of :: "device_facts \<Rightarrow> scanned_budget" where
  "sample_budget_of f = (case scanned_device_memory_budget f of Inr b \<Rightarrow> b | Inl _ \<Rightarrow> sample_budget 0)"

lemma sample_facts_budget: "scanned_device_memory_budget sample_facts = Inr (sample_budget_of sample_facts)"
  by code_simp

lemma sample_context:
  "(case plan_context_admission ((sample_inputs (PInt 100))\<lparr>ai_free_vram := df_free_vram_bytes sample_facts,
        ai_resident_fp16_admit := False\<rparr>) (sample_budget_of sample_facts) (terms_from_inputs (sample_inputs (PInt 100)) False)
    of Inl _ \<Rightarrow> False | Inr c \<Rightarrow> ap_max_context c = 100)"
  by code_simp

lemma sample_planned:
  "\<exists>sm. plan_selected_model_memory (sample_inputs (PInt 100)) sample_facts True None = Inr sm
     \<and> ap_max_context (sm_admission sm) = 100"
proof -
  obtain c where c: "plan_context_admission ((sample_inputs (PInt 100))\<lparr>ai_free_vram := df_free_vram_bytes sample_facts,
        ai_resident_fp16_admit := False\<rparr>) (sample_budget_of sample_facts) (terms_from_inputs (sample_inputs (PInt 100)) False) = Inr c"
    "ap_max_context c = 100"
    using sample_context by (auto split: sum.splits)
  show ?thesis
    using planned_when_resolved [OF sample_facts_budget, of None "sample_inputs (PInt 100)" c] c
    by (simp add: sample_inputs_def sound_geometry_def)
qed

section \<open>Properties\<close>

text \<open>Property C12. The planner's feasible candidates are exactly the supported ones whose strategy the
  override allows, whose required invocations are covered, whose terms (with the base terms) are all
  known, and whose total is at most the known scanned budget.  The decision is a refusal when there is
  none, the strategy of the only one, and is left to measurement when there are several.\<close>

theorem prefill_plan_decision:
  assumes "plan_prefill_memory device bases cands override = Inr p"
  shows "set (pm_feasible_candidate_ids p) = {cc_candidate_id c |c. c \<in> set cands \<and> cc_supported c
            \<and> (\<forall>xs. override = Some xs \<longrightarrow> cc_strategy c \<in> set xs)
            \<and> set (cc_required_invocations c) \<subseteq> set (cc_covered_invocations c)
            \<and> (\<forall>t \<in> set (bases @ cc_memory_terms c). bt_known t)
            \<and> (\<exists>v. admitted_bytes (mf_scanned_budget device) = Some v
                 \<and> (\<Sum>t\<leftarrow>bases @ cc_memory_terms c. the (bt_bytes t)) \<le> v)}
       \<and> (case pm_feasible_candidate_ids p of
            [] \<Rightarrow> pm_decision p = Some REFUSE
          | [cid] \<Rightarrow> (\<exists>c \<in> set cands. cc_candidate_id c = cid \<and> pm_decision p = Some (cc_strategy c))
          | _ \<Rightarrow> pm_decision p = None)"
proof (rule conjI)
  show "set (pm_feasible_candidate_ids p) = {cc_candidate_id c |c. c \<in> set cands \<and> cc_supported c
            \<and> (\<forall>xs. override = Some xs \<longrightarrow> cc_strategy c \<in> set xs)
            \<and> set (cc_required_invocations c) \<subseteq> set (cc_covered_invocations c)
            \<and> (\<forall>t \<in> set (bases @ cc_memory_terms c). bt_known t)
            \<and> (\<exists>v. admitted_bytes (mf_scanned_budget device) = Some v
                 \<and> (\<Sum>t\<leftarrow>bases @ cc_memory_terms c. the (bt_bytes t)) \<le> v)}"
    unfolding feasible_ids [OF assms] candidate_feasible_iff by blast
next
  let ?fs = "filter cd_feasible (pm_candidate_decisions p)"
  have dec: "set (pm_candidate_decisions p) \<subseteq> decide_candidate (admitted_bytes (mf_scanned_budget device)) bases
      (map_option normalize_override override) ` set cands"
    unfolding plan_prefill_Inr(3) [OF assms] by auto
  show "case pm_feasible_candidate_ids p of
            [] \<Rightarrow> pm_decision p = Some REFUSE
          | [cid] \<Rightarrow> (\<exists>c \<in> set cands. cc_candidate_id c = cid \<and> pm_decision p = Some (cc_strategy c))
          | _ \<Rightarrow> pm_decision p = None"
  proof (cases ?fs)
    case Nil
    then show ?thesis unfolding plan_prefill_Inr(4,6) [OF assms] by simp
  next
    case (Cons d ds)
    then have "d \<in> set ?fs" by simp
    then have "d \<in> set (pm_candidate_decisions p)" by simp
    then obtain c where "c \<in> set cands" "cc_candidate_id c = cd_candidate_id d" "cc_strategy c = cd_strategy d"
      using dec by fastforce
    with Cons show ?thesis unfolding plan_prefill_Inr(4,6) [OF assms] by (cases ds) auto
  qed
qed

definition sample_cands :: "candidate_coverage list" where
  "sample_cands = (case memory_candidates (sample_inputs PNone) True of Inr cs \<Rightarrow> cs | Inl _ \<Rightarrow> [])"

definition sample_device :: "memory_facts" where
  "sample_device = \<lparr>mf_total_bytes = Some 100000, mf_scanned_budget = sample_budget_of sample_facts,
     mf_safety_reserve = \<lparr>bt_name = ''r'', bt_bytes = Some 12288, bt_provenance = ''p'', bt_formula = ''f'',
       bt_lifetime = SAFETY_RESERVE\<rparr>, mf_provenance = ''p''\<rparr>"

definition sample_base :: "byte_term list" where
  "sample_base = [\<lparr>bt_name = ''b'', bt_bytes = Some 70000, bt_provenance = ''p'', bt_formula = ''f'', bt_lifetime = PERSISTENT\<rparr>]"

lemma sample_plan_runs: "rok (plan_prefill_memory sample_device sample_base sample_cands ov)" if "\<forall>xs. ov = Some xs \<longrightarrow> REFUSE \<notin> set xs"
proof -
  have "distinct (map cc_candidate_id sample_cands)" by code_simp
  then show ?thesis using that by (cases ov) (auto simp: plan_prefill_memory_def Let_def normalize_override_def)
qed

lemma prefill_plan_decision_witness:
  "\<exists>p. plan_prefill_memory sample_device sample_base sample_cands None = Inr p
     \<and> ''direct-packed-baseline'' \<in> set (pm_feasible_candidate_ids p)
     \<and> ''full-resident-overlay'' \<notin> set (pm_feasible_candidate_ids p)"
proof -
  obtain p where p: "plan_prefill_memory sample_device sample_base sample_cands None = Inr p"
    using sample_plan_runs [of None] by (auto simp: rok_iff)
  have b: "admitted_bytes (mf_scanned_budget sample_device) = Some 77712" by code_simp
  obtain full dir where c: "sample_cands = [full, dir]" "cc_candidate_id full = ''full-resident-overlay''"
    "cc_candidate_id dir = ''direct-packed-baseline''" "cc_memory_terms dir = []" "cc_supported dir"
    "map bt_bytes (cc_memory_terms full) = [Some 8000]"
    "cc_required_invocations dir = [''prefill'']" "cc_covered_invocations dir = [''prefill'']"
  proof -
    have "memory_candidates (sample_inputs PNone) True = Inr sample_cands"
      using memory_candidates_ok [of "sample_inputs PNone" True] by (auto simp: sample_cands_def sample_inputs_def)
    then show thesis by (rule memory_candidates_Inr) (use that in \<open>simp add: sample_inputs_def\<close>)
  qed
  have full: "(\<Sum>t\<leftarrow>cc_memory_terms full. the (bt_bytes t)) = 8000"
    using arg_cong [OF c(6), of "\<lambda>xs. sum_list (map the xs)"] by (simp add: comp_def)
  note feas = conjunct1 [OF prefill_plan_decision [OF p], unfolded c(1)]
  have "''direct-packed-baseline'' \<in> set (pm_feasible_candidate_ids p)"
    unfolding feas by (intro CollectI exI [of _ dir]) (simp add: c b sample_base_def bt_known_def)
  moreover have "''full-resident-overlay'' \<notin> set (pm_feasible_candidate_ids p)"
    unfolding feas using c(2,3) b full by (auto simp: sample_base_def)
  ultimately show ?thesis using p by blast
qed

text \<open>Property C13. An override restricts and never admits: what is feasible under an override is feasible
  without one, and is of an overriding strategy.\<close>

theorem override_never_bypasses:
  assumes "plan_prefill_memory device bases cands (Some xs) = Inr p"
    and "plan_prefill_memory device bases cands None = Inr q"
  shows "set (pm_feasible_candidate_ids p) = {cid \<in> set (pm_feasible_candidate_ids q).
     \<exists>c \<in> set cands. cc_candidate_id c = cid \<and> cc_strategy c \<in> set xs}"
proof -
  have "inj_on cc_candidate_id (set cands)"
    using plan_prefill_Inr(1) [OF assms(1)] by (simp add: distinct_map)
  then have "c \<in> set cands \<Longrightarrow> d \<in> set cands \<Longrightarrow> cc_candidate_id c = cc_candidate_id d \<Longrightarrow> c = d" for c d
    by (auto dest: inj_onD)
  then show ?thesis
    unfolding feasible_ids [OF assms(1)] feasible_ids [OF assms(2)] candidate_feasible_iff by blast
qed

lemma override_never_bypasses_witness:
  "\<exists>p q. plan_prefill_memory sample_device sample_base sample_cands (Some [FULL_RESIDENT_OVERLAY]) = Inr p
     \<and> plan_prefill_memory sample_device sample_base sample_cands None = Inr q
     \<and> set (pm_feasible_candidate_ids p) \<subseteq> set (pm_feasible_candidate_ids q)"
proof -
  obtain p q where p: "plan_prefill_memory sample_device sample_base sample_cands (Some [FULL_RESIDENT_OVERLAY]) = Inr p"
    and q: "plan_prefill_memory sample_device sample_base sample_cands None = Inr q"
    using sample_plan_runs [of None] sample_plan_runs [of "Some [FULL_RESIDENT_OVERLAY]"] by (auto simp: rok_iff)
  show ?thesis using override_never_bypasses [OF p q] p q by blast
qed

text \<open>Property C14. A resolved context fits: with the KV cost per token of the chosen storage and the prefill
  cost, the whole context plus the weights and the scratch is at most the scanned budget, and the
  context never exceeds the trained one.  It is the whole target unless a ring was chosen, 8-bit storage is used only when
  the 16-bit cache does not reach the target, and an explicit request gets a ring only in streaming mode.\<close>

theorem resolved_context_fits:
  assumes "resolve_max_context_admission requested trained scanned w kv pre flash q8 scale stream ring = Inr (m, q, r)"
    and "0 < kv + pre" and "0 < kv div 2 + scale + pre"
  shows "\<exists>b. admitted_bytes scanned = Some b \<and> m * ((if q then kv div 2 + scale else kv) + pre) + (w + flash) \<le> b
    \<and> m \<le> trained
    \<and> (\<not> rp_ring r \<longrightarrow> (if is_auto requested then m = trained else \<exists>t. py_int requested = Inr t \<and> m = min t trained))
    \<and> (q \<longrightarrow> q8 \<and> capacity b (w + flash) pre trained kv < capacity b (w + flash) pre trained (kv div 2 + scale))
    \<and> (rp_ring r \<longrightarrow> ring \<and> 0 < m \<and> (stream = ''on'' \<or> is_auto requested))"
proof -
  obtain b where b: "admitted_bytes scanned = Some b"
    using assms(1) by (cases rule: resolve_Inr) auto
  have fits: "m * ((if q then kv div 2 + scale else kv) + pre) + (w + flash) \<le> b"
    by (rule resolve_fits [OF assms(1) b assms(2,3)])
  from assms(1) have "m \<le> trained
    \<and> (\<not> rp_ring r \<longrightarrow> (if is_auto requested then m = trained else \<exists>t. py_int requested = Inr t \<and> m = min t trained))
    \<and> (q \<longrightarrow> q8 \<and> capacity b (w + flash) pre trained kv < capacity b (w + flash) pre trained (kv div 2 + scale))
    \<and> (rp_ring r \<longrightarrow> ring \<and> 0 < m \<and> (stream = ''on'' \<or> is_auto requested))"
    by (cases rule: resolve_Inr) (use b in \<open>auto split: if_splits\<close>)
  with b fits show ?thesis by blast
qed

definition sample_resolution :: "(int \<times> bool \<times> context_report) result" where
  "sample_resolution = resolve_max_context_admission PNone 4096 (sample_budget_of sample_facts) 4000 32 8 100 True 2
     ''auto'' True"

lemma sample_resolution_runs: "(case sample_resolution of Inr (m, q, r) \<Rightarrow> q = False \<and> rp_ring r | Inl _ \<Rightarrow> False)"
  by code_simp

lemma sample_costs: "0 < (32::int) + 8" "0 < (32::int) div 2 + 2 + 8"
  by simp_all

lemma resolved_context_fits_witness:
  "\<exists>m q r b. sample_resolution = Inr (m, q, r) \<and> admitted_bytes (sample_budget_of sample_facts) = Some b
     \<and> m * ((if q then 32 div 2 + 2 else 32) + 8) + (4000 + 100) \<le> b \<and> m \<le> 4096"
proof -
  obtain m q r where m: "sample_resolution = Inr (m, q, r)"
    using sample_resolution_runs by (auto split: sum.splits)
  show ?thesis
    using resolved_context_fits [OF m [unfolded sample_resolution_def] sample_costs] m by blast
qed

text \<open>Property C15. When the memory plan of a model succeeds, the effective strategy's whole peak (packed
  weights, KV cache and prefill buffers of the admitted context, scratch, and the dense overlay if that is
  the strategy) is at most the scanned free bytes less the occupied bytes rounded up to the allocator's
  granularity; the strategy obeys the overlay request and is a supported one.\<close>

theorem selected_model_fits:
  assumes "plan_selected_model_memory inp f direct overlay = Inr sm"
  shows "\<exists>t fr a. df_total_vram_bytes f = Some t \<and> df_free_vram_bytes f = Some fr
    \<and> cap_global_allocation_granularity (df_capabilities f) = Some a \<and> 0 < a \<and> 0 \<le> fr \<and> fr \<le> t
    \<and> (let ts = terms_from_inputs inp (overlay = Some True); ctx = ap_max_context (sm_admission sm);
           q = ap_kv_quant (sm_admission sm) in
       ai_q4_bytes inp
       + (ct_kv_per_tok ts div (if q then 2 else 1) + (if q then ct_kv_scale_per_tok ts else 0)) * ctx
       + ct_prefill_per_tok ts * ctx + ct_flash_scratch ts
       + (if sm_effective sm = FULL_RESIDENT_OVERLAY then ai_est_fp16 inp else 0)
       \<le> max 0 (fr - (t - fr + a - 1) div a * a))
    \<and> (overlay = Some True \<longrightarrow> sm_effective sm = FULL_RESIDENT_OVERLAY)
    \<and> (overlay = Some False \<longrightarrow> sm_effective sm = DIRECT_PACKED_FALLBACK)
    \<and> (sm_effective sm = FULL_RESIDENT_OVERLAY \<and> ai_v2_on inp \<or> sm_effective sm = DIRECT_PACKED_FALLBACK \<and> direct)"
  using assms
proof (rule plan_selected_Inr)
  fix budget device base cands plan ctxp
  let ?ts = "terms_from_inputs inp (overlay = Some True)"
  let ?override = "if overlay = Some True then Some [FULL_RESIDENT_OVERLAY]
       else if overlay = Some False then Some [DIRECT_PACKED_FALLBACK] else None"
  assume 1: "scanned_device_memory_budget f = Inr budget" and 2: "mf_scanned_budget device = budget"
    and 3: "plan_context_admission (inp\<lparr>ai_free_vram := df_free_vram_bytes f, ai_resident_fp16_admit := (overlay = Some True)\<rparr>)
       budget ?ts = Inr ctxp"
    and 4: "base_terms inp ?ts ctxp = Inr base"
    and 5: "memory_candidates inp direct = Inr cands"
    and 6: "plan_prefill_memory device base cands ?override = Inr plan"
    and 7: "ap_max_context (sm_admission sm) = ap_max_context ctxp" "ap_kv_quant (sm_admission sm) = ap_kv_quant ctxp"
    and 8: "sm_effective sm \<in> set (pm_feasible_strategies plan)"
  from 5 obtain full dir where c: "cands = [full, dir]" "cc_strategy full = FULL_RESIDENT_OVERLAY"
    "cc_strategy dir = DIRECT_PACKED_FALLBACK" "map bt_bytes (cc_memory_terms full) = [Some (ai_est_fp16 inp)]"
    "cc_memory_terms dir = []" "cc_supported full = ai_v2_on inp" "cc_supported dir = direct"
    by (rule memory_candidates_Inr)
  obtain x where x: "x \<in> set cands" "candidate_feasible device base ?override x" "sm_effective sm = cc_strategy x"
    using decision_in_feasible [OF 6] 8 c(1-3) by auto
  then obtain v where v: "admitted_bytes budget = Some v" "(\<Sum>t\<leftarrow>base @ cc_memory_terms x. the (bt_bytes t)) \<le> v"
    by (auto simp: candidate_feasible_iff 2)
  obtain t fr a where t: "df_total_vram_bytes f = Some t" "df_free_vram_bytes f = Some fr"
    "cap_global_allocation_granularity (df_capabilities f) = Some a" "0 < a" "0 \<le> fr" "fr \<le> t"
    "v = max 0 (fr - (t - fr + a - 1) div a * a)"
    using scanned_budget_known [OF 1 v(1)] by metis
  have pre: "ap_prefill_per_tok ctxp = ct_prefill_per_tok ?ts"
    using 3 by (auto simp: plan_context_admission_def Let_def rbind_eq_Inr)
  have "map the (map bt_bytes base) = [ai_q4_bytes inp,
      (ct_kv_per_tok ?ts div (if ap_kv_quant ctxp then 2 else 1)
             + (if ap_kv_quant ctxp then ct_kv_scale_per_tok ?ts else 0)) * ap_max_context ctxp,
      ct_prefill_per_tok ?ts * ap_max_context ctxp, ct_flash_scratch ?ts]"
    unfolding base_terms_Inr(1) [OF 4] pre by simp
  moreover have "sum_list (map the (map bt_bytes (cc_memory_terms x)))
      = (if sm_effective sm = FULL_RESIDENT_OVERLAY then ai_est_fp16 inp else 0)"
    using x c by auto
  moreover have "(\<Sum>t\<leftarrow>base @ cc_memory_terms x. the (bt_bytes t))
      = sum_list (map the (map bt_bytes base)) + sum_list (map the (map bt_bytes (cc_memory_terms x)))"
    by (simp add: comp_def)
  ultimately have total: "ai_q4_bytes inp
       + (ct_kv_per_tok ?ts div (if ap_kv_quant ctxp then 2 else 1) + (if ap_kv_quant ctxp then ct_kv_scale_per_tok ?ts else 0))
           * ap_max_context ctxp
       + ct_prefill_per_tok ?ts * ap_max_context ctxp + ct_flash_scratch ?ts
       + (if sm_effective sm = FULL_RESIDENT_OVERLAY then ai_est_fp16 inp else 0) \<le> v"
    using v(2) by simp
  have "(overlay = Some True \<longrightarrow> sm_effective sm = FULL_RESIDENT_OVERLAY)
    \<and> (overlay = Some False \<longrightarrow> sm_effective sm = DIRECT_PACKED_FALLBACK)
    \<and> (sm_effective sm = FULL_RESIDENT_OVERLAY \<and> ai_v2_on inp \<or> sm_effective sm = DIRECT_PACKED_FALLBACK \<and> direct)"
    using x c by (auto simp: candidate_feasible_iff)
  with t total show ?thesis unfolding Let_def 7 by blast
qed

lemma selected_model_fits_witness:
  "\<exists>sm. plan_selected_model_memory (sample_inputs (PInt 100)) sample_facts True None = Inr sm
     \<and> ap_max_context (sm_admission sm) = 100
     \<and> (sm_effective sm = FULL_RESIDENT_OVERLAY \<or> sm_effective sm = DIRECT_PACKED_FALLBACK)"
proof -
  obtain sm where sm: "plan_selected_model_memory (sample_inputs (PInt 100)) sample_facts True None = Inr sm"
    "ap_max_context (sm_admission sm) = 100"
    using sample_planned by blast
  show ?thesis using selected_model_fits [OF sm(1)] sm by blast
qed

text \<open>Property C16. The planner's second check never refuses what the context resolution admitted, with one exception.
  For a known budget, supported direct execution, a model with non-negative byte counts and positive geometry,
  and any overlay request, a resolved non-negative context leads to a plan with that context; only a request
  for the overlay of a model that does not support it is refused.\<close>

theorem admitted_context_is_planned:
  assumes "scanned_device_memory_budget f = Inr budget"
    and "plan_context_admission (inp\<lparr>ai_free_vram := df_free_vram_bytes f, ai_resident_fp16_admit := (overlay = Some True)\<rparr>)
           budget (terms_from_inputs inp (overlay = Some True)) = Inr ctxp"
    and "0 \<le> ap_max_context ctxp" and "sound_geometry inp"
  shows "if overlay = Some True \<and> \<not> ai_v2_on inp then plan_selected_model_memory inp f True overlay = Inl RuntimeError
    else \<exists>sm. plan_selected_model_memory inp f True overlay = Inr sm \<and> ap_max_context (sm_admission sm) = ap_max_context ctxp"
  using assms by (rule planned_when_resolved)

lemma sample_overlay_context:
  "(case plan_context_admission ((sample_inputs (PInt 100))\<lparr>ai_free_vram := df_free_vram_bytes sample_facts,
        ai_resident_fp16_admit := True\<rparr>) (sample_budget_of sample_facts) (terms_from_inputs (sample_inputs (PInt 100)) True)
    of Inl _ \<Rightarrow> False | Inr c \<Rightarrow> ap_max_context c = 100)"
  by code_simp

lemma admitted_context_is_planned_witness:
  "\<exists>sm. plan_selected_model_memory (sample_inputs (PInt 100)) sample_facts True (Some True) = Inr sm
     \<and> ap_max_context (sm_admission sm) = 100"
proof -
  obtain c where c: "plan_context_admission ((sample_inputs (PInt 100))\<lparr>ai_free_vram := df_free_vram_bytes sample_facts,
        ai_resident_fp16_admit := True\<rparr>) (sample_budget_of sample_facts) (terms_from_inputs (sample_inputs (PInt 100)) True) = Inr c"
    "ap_max_context c = 100"
    using sample_overlay_context by (auto split: sum.splits)
  then show ?thesis
    using admitted_context_is_planned [OF sample_facts_budget, of "Some True" "sample_inputs (PInt 100)" c]
    by (simp add: sample_inputs_def sound_geometry_def)
qed

text \<open>The prefill policy never enables tensor-core attention without its proof: a selected
  policy holds the flag exactly when the proof record is complete for the scanned device and the
  override does not disable it; the proof is only accepted on an AMD gfx1100 device, and the policy names an
  executing strategy and a candidate.\<close>

lemma policy_requires_proof:
  assumes "select_prefill_runtime_policy v f reuse ov = Inr p"
  shows "pget p ''prefill_tc_attn'' = PBool (shared_attention_proven_eligible v f \<and> ov \<noteq> Some False)
    \<and> (pget p ''prefill_tc_attn'' = PBool True \<longrightarrow> df_backend f = Some ''AMD'' \<and> df_architecture f = Some ''gfx1100'')
    \<and> pget p ''strategy'' \<in> set (map PStr executing_strategies)
    \<and> nonempty_str (pget p ''candidate_id'')"
proof -
  define d where "d rs = PDict (dset ''prefill_tc_attn'' (PBool (shared_attention_proven_eligible v f \<and> ov \<noteq> Some False))
          (dset ''workload_reuse'' (PBool reuse) (dset ''routes'' (PDict rs) (items v))))" for rs
  obtain rs where imm: "immutable_prefill_policy (d rs) = Inr p"
    using assms by (auto simp: select_prefill_runtime_policy_def Let_def rbind_eq_Inr d_def)
  have p: "p = json_roundtrip (d rs)"
    and strat: "pget (d rs) ''strategy'' \<in> set (map PStr executing_strategies)"
    and cand: "nonempty_str (pget (d rs) ''candidate_id'')"
    using imm by (auto simp: immutable_prefill_policy_def Let_def split: if_splits)
  have get: "pget p k = json_roundtrip (pget (d rs) k)" for k
    unfolding p by (rule pget_json_roundtrip) (simp add: d_def)
  have flag: "pget p ''prefill_tc_attn'' = PBool (shared_attention_proven_eligible v f \<and> ov \<noteq> Some False)"
    unfolding get by (simp add: d_def pget_def)
  have "shared_attention_proven_eligible v f \<Longrightarrow> requirements_met tc_attn_target_requirements f"
    by (simp add: shared_attention_proven_eligible_def Let_def split: if_splits)
  moreover have "requirements_met tc_attn_target_requirements f \<Longrightarrow>
      df_backend f = Some ''AMD'' \<and> df_architecture f = Some ''gfx1100''"
    by (simp add: requirements_met_def tc_attn_target_requirements_def facts_attr_def)
  moreover have "pget p ''strategy'' \<in> set (map PStr executing_strategies)"
    unfolding get using strat by auto
  moreover have "nonempty_str (pget p ''candidate_id'')"
    unfolding get using cand by (cases "pget (d rs) ''candidate_id''") (auto simp: nonempty_str_def)
  ultimately show ?thesis using flag by auto
qed

definition sample_policy :: pyval where
  "sample_policy = PDict [(''strategy'', PStr ''BOUNDED_PACKED_TILES''), (''candidate_id'', PStr ''c''),
     (''routes'', PDict [(''i'', PStr ''r'')])]"

lemma policy_requires_proof_witness:
  "\<exists>p. select_prefill_runtime_policy sample_policy sample_facts False None = Inr p
     \<and> pget p ''strategy'' \<in> set (map PStr executing_strategies)"
proof -
  have "rok (select_prefill_runtime_policy sample_policy sample_facts False None)" by code_simp
  then obtain p where p: "select_prefill_runtime_policy sample_policy sample_facts False None = Inr p"
    by (auto simp: rok_iff)
  show ?thesis using policy_requires_proof [OF p] p by blast
qed

end
