(* ===== verification/Registers.thy ===== *)
theory Registers
  imports PyVal
begin

text \<open>
  Register leases: the backend-neutral contracts (\<open>tinygrad/codegen/opt/register_contracts.py\<close>), the
  gfx1100 descriptor and attention loop-state map (\<open>tinygrad/renderer/isa/amd_register_contracts.py\<close>),
  and the virtual lease allocator with the stage-buffer client
  (\<open>tinygrad/renderer/isa/amd_register_allocator.py\<close>).  An \<open>isinstance\<close> check on a parameter that the
  model types by a datatype cannot fail and is not repeated; the integer fields that a caller may
  get wrong are dynamic values.
\<close>

section \<open>Roles, banks and leases\<close>

datatype register_role =
    KERNARG | WORKGROUP_ID | WORKITEM_ID | POINTER | SCALAR_COUNTER | SCALAR_TEMP
  | ACCUMULATOR | FRAGMENT | LDS_PACK | VIRTUAL

fun role_value :: "register_role \<Rightarrow> string" where
  "role_value KERNARG = ''kernarg''" | "role_value WORKGROUP_ID = ''workgroup_id''"
| "role_value WORKITEM_ID = ''workitem_id''" | "role_value POINTER = ''pointer''"
| "role_value SCALAR_COUNTER = ''scalar_counter''" | "role_value SCALAR_TEMP = ''scalar_temp''"
| "role_value ACCUMULATOR = ''accumulator''" | "role_value FRAGMENT = ''fragment''"
| "role_value LDS_PACK = ''lds_pack''" | "role_value VIRTUAL = ''virtual''"

datatype register_bank = SGPR | VGPR

fun bank_value :: "register_bank \<Rightarrow> string" where
  "bank_value SGPR = ''sgpr''" | "bank_value VGPR = ''vgpr''"

text \<open>\<open>RegisterBank(bank)\<close>: the member with that value; a member is itself such a string.\<close>

definition register_bank :: "string \<Rightarrow> register_bank result" where
  "register_bank s = (if s = ''sgpr'' then Inr SGPR else if s = ''vgpr'' then Inr VGPR else Inl ValueError)"

record lease =
  ls_role :: register_role
  ls_bank :: register_bank
  ls_start :: int
  ls_width :: int
  ls_mode :: string
  ls_alignment :: int
  ls_reserved :: bool

definition ls_end :: "lease \<Rightarrow> int" where
  "ls_end l = ls_start l + ls_width l"

definition mk_lease ::
  "register_role \<Rightarrow> register_bank \<Rightarrow> pyval \<Rightarrow> pyval \<Rightarrow> string \<Rightarrow> pyval \<Rightarrow> bool \<Rightarrow> lease result" where
  "mk_lease role bank start width mode alignment reserved =
     rbind (req_nonneg start) (\<lambda>s. rbind (req_nonneg width) (\<lambda>w. rbind (req_nonneg alignment) (\<lambda>a.
       if w \<le> 0 then Inl ValueError
       else if a \<le> 0 \<or> s mod a \<noteq> 0 then Inl ValueError
       else if mode = [] then Inl ValueError
       else Inr \<lparr>ls_role = role, ls_bank = bank, ls_start = s, ls_width = w, ls_mode = mode, ls_alignment = a,
                 ls_reserved = reserved\<rparr>)))"

definition lease_snapshot :: "lease \<Rightarrow> pyval" where
  "lease_snapshot l = PDict [(''role'', PStr (role_value (ls_role l))), (''bank'', PStr (bank_value (ls_bank l))),
     (''start'', PInt (ls_start l)), (''end'', PInt (ls_end l)), (''width'', PInt (ls_width l)),
     (''mode'', PStr (ls_mode l)), (''alignment'', PInt (ls_alignment l)), (''reserved'', PBool (ls_reserved l))]"

section \<open>Descriptor\<close>

record register_descriptor =
  rd_target :: string
  rd_wave_size :: int
  rd_vgpr_count :: int
  rd_sgpr_count :: int
  rd_leases :: "lease list"

definition leases_conflict :: "lease \<Rightarrow> lease \<Rightarrow> bool" where
  "leases_conflict l r = (ls_bank l = ls_bank r \<and> ls_mode l = ls_mode r
     \<and> ls_start l < ls_end r \<and> ls_start r < ls_end l)"

fun validate_overlaps :: "lease list \<Rightarrow> unit result" where
  "validate_overlaps [] = Inr ()"
| "validate_overlaps (l # ls) = (if list_ex (leases_conflict l) ls then Inl ValueError else validate_overlaps ls)"

definition mk_register_descriptor ::
  "string \<Rightarrow> int \<Rightarrow> pyval \<Rightarrow> pyval \<Rightarrow> lease list \<Rightarrow> register_descriptor result" where
  "mk_register_descriptor target wave_size vgpr_count sgpr_count leases =
     (if target = [] then Inl ValueError
      else if wave_size \<notin> {32, 64} then Inl ValueError
      else rbind (req_pos vgpr_count) (\<lambda>v. rbind (req_pos sgpr_count) (\<lambda>s.
        if list_ex (\<lambda>l. ls_end l > (if ls_bank l = VGPR then v else s)) leases then Inl ValueError
        else rbind (validate_overlaps leases) (\<lambda>_.
          Inr \<lparr>rd_target = target, rd_wave_size = wave_size, rd_vgpr_count = v, rd_sgpr_count = s,
               rd_leases = leases\<rparr>))))"

definition descriptor_lease :: "register_descriptor \<Rightarrow> register_role \<Rightarrow> string \<Rightarrow> lease result" where
  "descriptor_lease d role mode =
     (case filter (\<lambda>x. ls_role x = role \<and> ls_mode x = mode) (rd_leases d) of [x] \<Rightarrow> Inr x | _ \<Rightarrow> Inl KeyError)"

definition descriptor_snapshot :: "register_descriptor \<Rightarrow> pyval" where
  "descriptor_snapshot d = PDict [(''target'', PStr (rd_target d)), (''wave_size'', PInt (rd_wave_size d)),
     (''vgpr_count'', PInt (rd_vgpr_count d)), (''sgpr_count'', PInt (rd_sgpr_count d)),
     (''leases'', PList (map lease_snapshot (rd_leases d)))]"

section \<open>The gfx1100 descriptor\<close>

definition gfx1100_register_descriptor :: "register_descriptor result" where
  "gfx1100_register_descriptor =
     rbind (rmap (\<lambda>(role, bank, start, width, mode, alignment).
              mk_lease role bank (PInt start) (PInt width) mode (PInt alignment) True)
        [(KERNARG, SGPR, 0, 2, ''abi'', 2), (WORKGROUP_ID, SGPR, 2, 4, ''abi'', 1), (POINTER, SGPR, 6, 34, ''abi'', 2),
         (SCALAR_COUNTER, SGPR, 40, 24, ''default'', 1), (SCALAR_TEMP, SGPR, 64, 40, ''default'', 1),
         (WORKITEM_ID, VGPR, 0, 1, ''abi'', 1), (VIRTUAL, VGPR, 1, 255, ''no_wmma'', 1),
         (VIRTUAL, VGPR, 1, 199, ''wmma_single_tile'', 1), (ACCUMULATOR, VGPR, 1, 16, ''legacy_accum'', 1),
         (ACCUMULATOR, VGPR, 8, 8, ''wmma_multi_tile'', 8), (FRAGMENT, VGPR, 200, 38, ''wmma_single_tile'', 2),
         (LDS_PACK, VGPR, 232, 4, ''lds_pack'', 2)])
       (\<lambda>leases. mk_register_descriptor ''AMD:gfx1100'' 32 (PInt 256) (PInt 104) leases)"

definition frag_base :: int where "frag_base = 200"
definition wmma_acc_base :: int where "wmma_acc_base = 8"

record loop_state_map =
  lm_acc :: int
  lm_m :: int
  lm_l :: int
  lm_qk_c :: int
  lm_alpha :: int
  lm_lanes :: int
  lm_blocks :: nat

definition default_loop_state_map :: loop_state_map where
  "default_loop_state_map = \<lparr>lm_acc = wmma_acc_base, lm_m = 72, lm_l = 80, lm_qk_c = 88, lm_alpha = 96, lm_lanes = 8,
     lm_blocks = 8\<rparr>"

definition loop_state_base :: "loop_state_map \<Rightarrow> string \<Rightarrow> int \<Rightarrow> int result" where
  "loop_state_base s role block =
     (if role = ''acc'' then
        (if \<not> (0 \<le> block \<and> block < int (lm_blocks s)) then Inl ValueError else Inr (lm_acc s + block * lm_lanes s))
      else if block \<noteq> 0 then Inl ValueError
      else if role = ''m'' then Inr (lm_m s) else if role = ''l'' then Inr (lm_l s)
      else if role = ''qk_c'' then Inr (lm_qk_c s) else if role = ''alpha'' then Inr (lm_alpha s)
      else Inl ValueError)"

datatype span = Span (sp_role: string) (sp_first: int) (sp_last: int)

definition loop_state_spans :: "loop_state_map \<Rightarrow> span list" where
  "loop_state_spans s =
     map (\<lambda>i. Span (''acc'' @ str_nat i) (lm_acc s + int i * lm_lanes s) (lm_acc s + (int i + 1) * lm_lanes s))
       [0..<lm_blocks s]
     @ map (\<lambda>(r, b). Span r b (b + lm_lanes s)) [(''m'', lm_m s), (''l'', lm_l s), (''qk_c'', lm_qk_c s), (''alpha'', lm_alpha s)]"

definition loop_state_top :: "loop_state_map \<Rightarrow> int" where
  "loop_state_top s = Max (set (map sp_last (loop_state_spans s)))"

definition loop_state_runs :: "loop_state_map \<Rightarrow> int" where
  "loop_state_runs s = (loop_state_top s - lm_acc s) div lm_lanes s"

text \<open>The check walks the registers of every span and records their owners.\<close>

definition validate_loop_state :: "loop_state_map \<Rightarrow> loop_state_map result" where
  "validate_loop_state s =
     (if lm_lanes s \<noteq> 8 \<or> lm_acc s \<noteq> wmma_acc_base then Inl ValueError
      else rbind (rfold (\<lambda>sp seen.
              if sp_first sp mod lm_lanes s \<noteq> 0 \<or> sp_last sp > frag_base then Inl ValueError
              else rfold (\<lambda>i seen'. if i \<in> set seen' then Inl ValueError else Inr (seen' @ [i]))
                     [sp_first sp..sp_last sp - 1] seen) (loop_state_spans s) [])
        (\<lambda>seen. if loop_state_top s - lm_acc s \<noteq> int (length seen) then Inl ValueError else Inr s))"

section \<open>Stage buffers\<close>

record stage_buffer_spec =
  sbs_role :: string
  sbs_slots :: int
  sbs_fragments :: int
  sbs_lane_width :: int

definition mk_stage_buffer_spec :: "string \<Rightarrow> pyval \<Rightarrow> pyval \<Rightarrow> pyval \<Rightarrow> stage_buffer_spec result" where
  "mk_stage_buffer_spec role slots fragments lane_width =
     (if role \<notin> set [''A'', ''B''] then Inl ValueError
      else rbind (req_pos slots) (\<lambda>s. rbind (req_pos fragments) (\<lambda>f. rbind (req_pos lane_width) (\<lambda>w.
        if w \<noteq> 16 then Inl ValueError
        else Inr \<lparr>sbs_role = role, sbs_slots = s, sbs_fragments = f, sbs_lane_width = w\<rparr>))))"

definition role_width :: "stage_buffer_spec \<Rightarrow> int" where
  "role_width s = sbs_fragments s * sbs_lane_width s"

definition half_elements :: "stage_buffer_spec \<Rightarrow> int" where
  "half_elements s = sbs_slots s * role_width s"

definition fragment_count :: "stage_buffer_spec \<Rightarrow> int" where
  "fragment_count s = sbs_slots s * sbs_fragments s"

definition packed_vgpr_width :: "stage_buffer_spec \<Rightarrow> int" where
  "packed_vgpr_width s = fragment_count s * (sbs_lane_width s div 2)"

definition half_bytes :: "stage_buffer_spec \<Rightarrow> int" where
  "half_bytes s = half_elements s * 2"

definition stage_buffer_snapshot :: "stage_buffer_spec \<Rightarrow> pyval" where
  "stage_buffer_snapshot s = PDict [(''role'', PStr (sbs_role s)), (''slots'', PInt (sbs_slots s)),
     (''fragments'', PInt (sbs_fragments s)), (''lane_width'', PInt (sbs_lane_width s)),
     (''role_width'', PInt (role_width s)), (''half_elements'', PInt (half_elements s)),
     (''half_bytes'', PInt (half_bytes s)), (''packed_vgpr_width'', PInt (packed_vgpr_width s))]"

section \<open>The lease allocator\<close>

definition role_by_name :: "(string, register_role) dict" where
  "role_by_name = [(''abi'', KERNARG), (''buffer_a'', POINTER), (''buffer_b'', POINTER), (''output'', POINTER),
     (''workgroup_coords'', WORKGROUP_ID), (''loop_counter'', SCALAR_COUNTER), (''fixed_lane_and_address'', WORKITEM_ID),
     (''wmma_fragment_a'', FRAGMENT), (''wmma_fragment_b'', FRAGMENT), (''wmma_accumulator'', ACCUMULATOR),
     (''lds_pack_a'', LDS_PACK), (''lds_pack_b'', LDS_PACK), (''address_scratch'', SCALAR_TEMP)]"

record lease_allocator =
  al_vgpr_capacity :: int
  al_sgpr_capacity :: int
  al_leases :: "lease list"

definition new_allocator :: "int option \<Rightarrow> int option \<Rightarrow> lease_allocator" where
  "new_allocator vgpr sgpr =
     \<lparr>al_vgpr_capacity = (case vgpr of None \<Rightarrow> 256 | Some v \<Rightarrow> v),
      al_sgpr_capacity = (case sgpr of None \<Rightarrow> 104 | Some s \<Rightarrow> s), al_leases = []\<rparr>"

definition capacity_of :: "lease_allocator \<Rightarrow> register_bank \<Rightarrow> int" where
  "capacity_of a b = (if b = VGPR then al_vgpr_capacity a else al_sgpr_capacity a)"

definition bank_leases :: "lease_allocator \<Rightarrow> register_bank \<Rightarrow> lease list" where
  "bank_leases a b = filter (\<lambda>x. ls_bank x = b) (al_leases a)"

definition virtual_pool :: "lease_allocator \<Rightarrow> register_bank \<Rightarrow> int" where
  "virtual_pool a b = fold max (map ls_end (bank_leases a b)) 0"

definition reserve ::
  "string \<Rightarrow> int \<Rightarrow> int \<Rightarrow> string \<Rightarrow> int \<Rightarrow> lease_allocator \<Rightarrow> (lease \<times> lease_allocator) result" where
  "reserve name start count bank align a =
     rbind (register_bank bank) (\<lambda>b.
      (let role = (case map_of role_by_name name of None \<Rightarrow> VIRTUAL | Some r \<Rightarrow> r) in
       if start < 0 \<or> count \<le> 0 then Inl ValueError
       else if start + count > capacity_of a b then Inl ValueError
       else if list_ex (\<lambda>x. ls_bank x = b \<and> start < ls_end x \<and> ls_start x < start + count) (al_leases a) then Inl ValueError
       else rbind (mk_lease role b (PInt start) (PInt count) ''allocator'' (PInt align) True) (\<lambda>l.
         Inr (l, a\<lparr>al_leases := al_leases a @ [l]\<rparr>))))"

definition align_up :: "int \<Rightarrow> int \<Rightarrow> int" where
  "align_up cursor align = (cursor + align - 1) div align * align"

text \<open>The two first-fit loops: where the search stops, and whether it stopped at a gap.\<close>

datatype search = Gap int | Exhausted int

fun first_gap :: "int \<Rightarrow> int \<Rightarrow> int \<Rightarrow> lease list \<Rightarrow> search" where
  "first_gap count align cursor [] = Exhausted (align_up cursor align)"
| "first_gap count align cursor (l # ls) =
     (let c = align_up cursor align in
      if c + count \<le> ls_start l then Gap c else first_gap count align (max c (ls_end l)) ls)"

definition allocate ::
  "string \<Rightarrow> int \<Rightarrow> string \<Rightarrow> int \<Rightarrow> lease_allocator \<Rightarrow> (lease \<times> lease_allocator) result" where
  "allocate name count bank align a =
     rbind (register_bank bank) (\<lambda>b.
       if align \<le> 0 then Inl ValueError
       else (case first_gap count align 0 (sort_key ls_start (bank_leases a b)) of
           Gap c \<Rightarrow> reserve name c count bank align a
         | Exhausted c \<Rightarrow> if c + count > capacity_of a b then Inl ValueError else reserve name c count bank align a))"

fun window_gap :: "int \<Rightarrow> int \<Rightarrow> int \<Rightarrow> int \<Rightarrow> lease list \<Rightarrow> search" where
  "window_gap count align stop cursor [] = Exhausted cursor"
| "window_gap count align stop cursor (l # ls) =
     (if cursor + count \<le> min (ls_start l) stop then Gap cursor
      else window_gap count align stop (align_up (max cursor (ls_end l)) align) ls)"

definition allocate_in_window ::
  "string \<Rightarrow> pyval \<Rightarrow> string \<Rightarrow> int \<Rightarrow> int \<Rightarrow> pyval \<Rightarrow> lease_allocator \<Rightarrow> (lease \<times> lease_allocator) result" where
  "allocate_in_window name count bank start stop align a =
     rbind (register_bank bank) (\<lambda>b.
       if \<not> (0 \<le> start \<and> start < stop \<and> stop \<le> capacity_of a b) then Inl ValueError
       else rbind (req_pos count) (\<lambda>n. rbind (req_pos align) (\<lambda>al.
         case window_gap n al stop (align_up start al)
                (sort_key ls_start (filter (\<lambda>x. ls_end x > start \<and> ls_start x < stop) (bank_leases a b))) of
           Gap c \<Rightarrow> reserve name c n bank al a
         | Exhausted c \<Rightarrow> if c + n > stop then Inl ValueError else reserve name c n bank al a)))"

definition with_fixed_abi :: "lease_allocator result" where
  "with_fixed_abi =
     rbind (rfold (\<lambda>(name, start, count) a.
              rbind (reserve name start count ''sgpr'' (if count = 2 then 2 else 1) a) (\<lambda>r. Inr (snd r)))
        [(''abi'', 0, 4), (''buffer_a'', 4, 2), (''buffer_b'', 6, 2), (''output'', 8, 2), (''workgroup_coords'', 10, 2),
         (''loop_counter'', 16, 1)] (new_allocator None None))
       (\<lambda>a. rbind (reserve ''fixed_lane_and_address'' 0 10 ''vgpr'' 1 a) (\<lambda>r. Inr (snd r)))"

datatype reserved_interval = Reserved (rv_name: string) (rv_start: int) (rv_end: int)

definition specs_by_role :: "stage_buffer_spec list \<Rightarrow> (string, stage_buffer_spec) dict result" where
  "specs_by_role specs = rfold (\<lambda>s d. case map_of d (sbs_role s) of
       Some p \<Rightarrow> if stage_buffer_snapshot p \<noteq> stage_buffer_snapshot s then Inl ValueError else Inr (dset (sbs_role s) s d)
     | None \<Rightarrow> Inr (dset (sbs_role s) s d)) specs []"

definition place_reserved :: "reserved_interval list \<Rightarrow> lease_allocator \<Rightarrow> lease_allocator result" where
  "place_reserved rs a = rfold (\<lambda>r a'. if rv_end r > rv_start r then
       rbind (reserve (rv_name r) (rv_start r) (rv_end r - rv_start r) ''vgpr'' 1 a') (\<lambda>p. Inr (snd p)) else Inr a') rs a"

definition place_stage :: "(string, stage_buffer_spec) dict \<Rightarrow> int \<Rightarrow> int \<Rightarrow> string
   \<Rightarrow> (string, lease) dict \<times> lease_allocator \<Rightarrow> ((string, lease) dict \<times> lease_allocator) result" where
  "place_stage by_role first stop role st = (case map_of by_role role of
       None \<Rightarrow> Inr st
     | Some s \<Rightarrow> rbind (allocate_in_window (''stage_'' @ role) (PInt (packed_vgpr_width s)) ''vgpr'' first stop (PInt 1) (snd st))
         (\<lambda>p. Inr (dset role (fst p) (fst st), snd p)))"

definition allocate_stage_buffer_leases ::
  "stage_buffer_spec list \<Rightarrow> int \<Rightarrow> int \<Rightarrow> reserved_interval list \<Rightarrow> int option \<Rightarrow> (string, lease) dict result" where
  "allocate_stage_buffer_leases specs first stop reserved vgpr_capacity =
     rbind (specs_by_role specs) (\<lambda>by_role.
     rbind (place_reserved (sort_key (\<lambda>r. (rv_start r, rv_end r, rv_name r)) reserved)
              (new_allocator vgpr_capacity None)) (\<lambda>a.
     rbind (rfold (place_stage by_role first stop) [''A'', ''B''] ([], a)) (\<lambda>st. Inr (fst st))))"

end
