(* ===== verification/RegistersSpec.thy ===== *)
theory RegistersSpec
  imports Registers
begin

text \<open>
  Correctness of the lease allocator: the invariant of its leases, first-fit search, the contract of
  an allocator that places intervals (locale \<open>interval_placer\<close>, interpreted by the windowed
  allocation), and the stage-buffer client.
\<close>

section \<open>First-fit search\<close>

definition blocks :: "int \<Rightarrow> int \<Rightarrow> lease \<Rightarrow> bool" where
  "blocks s n x \<longleftrightarrow> s < ls_end x \<and> ls_start x < s + n"

lemma align_up_ge: "0 < a \<Longrightarrow> c \<le> align_up c a"
proof -
  assume "0 < a"
  then have "(c + a - 1) mod a < a" by simp
  moreover have "(c + a - 1) div a * a + (c + a - 1) mod a = c + a - 1" by simp
  ultimately show ?thesis unfolding align_up_def by linarith
qed

lemma align_up_dvd: "a dvd align_up c a"
  by (simp add: align_up_def)

lemma align_up_least: "0 < a \<Longrightarrow> a dvd s \<Longrightarrow> c \<le> s \<Longrightarrow> align_up c a \<le> s"
proof -
  assume a: "0 < a" "a dvd s" "c \<le> s"
  then obtain k where k: "s = a * k" by (auto elim: dvdE)
  have "(c + a - 1) div a \<le> (s + a - 1) div a" using a by (intro zdiv_mono1) auto
  also have "\<dots> = k"
  proof -
    have "s + a - 1 = (a - 1) + k * a" using k by (simp add: algebra_simps)
    then show ?thesis using a(1) by (simp only: div_mult_self1) simp
  qed
  finally show ?thesis using a k by (simp add: align_up_def mult.commute)
qed

text \<open>Every aligned position of \<open>[c, r)\<close> at which \<open>n\<close> registers end by the limit is blocked.\<close>

definition searched :: "int \<Rightarrow> int \<Rightarrow> int \<Rightarrow> int \<Rightarrow> int \<Rightarrow> lease list \<Rightarrow> bool" where
  "searched n align limit c r ls \<longleftrightarrow>
     (\<forall>s. c \<le> s \<and> s < r \<and> align dvd s \<and> s + n \<le> limit \<longrightarrow> (\<exists>x \<in> set ls. blocks s n x))"

definition result_pos :: "search \<Rightarrow> int" where
  "result_pos g = (case g of Gap c \<Rightarrow> c | Exhausted c \<Rightarrow> c)"

lemma first_gap_spec:
  assumes "0 < align" "0 < n" "sorted (map ls_start ls)" "r = result_pos (first_gap n align cur ls)"
  shows "cur \<le> r \<and> align dvd r \<and> (\<forall>x \<in> set ls. \<not> blocks r n x) \<and> searched n align limit cur r ls
    \<and> (\<forall>c. first_gap n align cur ls = Gap c \<longrightarrow> (\<exists>x \<in> set ls. r + n \<le> ls_start x))"
  using assms
proof (induction n align cur ls rule: first_gap.induct)
  case (1 n align cur)
  then have "r = align_up cur align" by (simp add: result_pos_def)
  moreover have "searched n align limit cur (align_up cur align) []"
    unfolding searched_def using 1(1) align_up_least [of align _ cur] by force
  ultimately show ?case using 1(1) by (simp add: align_up_ge align_up_dvd)
next
  case (2 n align cur l ls)
  let ?c = "align_up cur align"
  have c: "cur \<le> ?c" "align dvd ?c" using 2 by (auto simp: align_up_ge align_up_dvd)
  show ?case
  proof (cases "?c + n \<le> ls_start l")
    case True
    with 2 have r: "r = ?c" "first_gap n align cur (l # ls) = Gap ?c" by (auto simp: Let_def result_pos_def)
    have "\<forall>x \<in> set (l # ls). ls_start l \<le> ls_start x" using 2(4) by auto
    then have "\<forall>x \<in> set (l # ls). \<not> blocks ?c n x" using True by (force simp: blocks_def)
    moreover have "searched n align limit cur ?c (l # ls)"
      using 2(2) align_up_least [of align _ cur] by (fastforce simp: searched_def)
    ultimately show ?thesis using r c True by auto
  next
    case False
    then have eq: "first_gap n align cur (l # ls) = first_gap n align (max ?c (ls_end l)) ls" by (simp add: Let_def)
    have ih: "max ?c (ls_end l) \<le> r \<and> align dvd r \<and> (\<forall>x \<in> set ls. \<not> blocks r n x)
        \<and> searched n align limit (max ?c (ls_end l)) r ls
        \<and> (\<forall>c. first_gap n align (max ?c (ls_end l)) ls = Gap c \<longrightarrow> (\<exists>x \<in> set ls. r + n \<le> ls_start x))"
      by (rule "2.IH") (use 2 False eq in auto)
    have "\<exists>x \<in> set (l # ls). blocks s n x"
      if s: "cur \<le> s" "s < r" "align dvd s" "s + n \<le> limit" for s
    proof (cases "max ?c (ls_end l) \<le> s")
      case True
      with ih s show ?thesis by (auto simp: searched_def)
    next
      case out: False
      have "?c \<le> s" using align_up_least [OF 2(2) s(3,1)] .
      with out False have "blocks s n l" by (simp add: blocks_def)
      then show ?thesis by simp
    qed
    then have "searched n align limit cur r (l # ls)" by (simp add: searched_def)
    moreover have "\<not> blocks r n l" using ih by (simp add: blocks_def)
    ultimately show ?thesis using ih c eq by auto
  qed
qed

lemma window_gap_spec:
  assumes "0 < align" "0 < n" "sorted (map ls_start ls)" "align dvd cur" "r = result_pos (window_gap n align limit cur ls)"
  shows "cur \<le> r \<and> align dvd r \<and> (r + n \<le> limit \<longrightarrow> (\<forall>x \<in> set ls. \<not> blocks r n x)) \<and> searched n align limit cur r ls
    \<and> (\<forall>c. window_gap n align limit cur ls = Gap c \<longrightarrow> r + n \<le> limit)"
  using assms
proof (induction n align limit cur ls rule: window_gap.induct)
  case (1 n align limit cur)
  then show ?case by (auto simp: result_pos_def searched_def)
next
  case (2 n align limit cur l ls)
  show ?case
  proof (cases "cur + n \<le> min (ls_start l) limit")
    case True
    with 2 have r: "r = cur" by (auto simp: result_pos_def)
    have "\<forall>x \<in> set (l # ls). ls_start l \<le> ls_start x" using 2(4) by auto
    then have "\<forall>x \<in> set (l # ls). \<not> blocks cur n x" using True by (force simp: blocks_def)
    then show ?thesis using r True 2(5) by (auto simp: searched_def)
  next
    case False
    let ?c = "align_up (max cur (ls_end l)) align"
    have c: "max cur (ls_end l) \<le> ?c" "align dvd ?c" using align_up_ge [OF 2(2)] by (auto simp: align_up_dvd)
    have eq: "window_gap n align limit cur (l # ls) = window_gap n align limit ?c ls"
      using False by (simp only: window_gap.simps if_False)
    have ih: "?c \<le> r \<and> align dvd r \<and> (r + n \<le> limit \<longrightarrow> (\<forall>x \<in> set ls. \<not> blocks r n x))
        \<and> searched n align limit ?c r ls \<and> (\<forall>c. window_gap n align limit ?c ls = Gap c \<longrightarrow> r + n \<le> limit)"
      by (rule "2.IH") (use 2 False c eq in auto)
    have "\<exists>x \<in> set (l # ls). blocks s n x"
      if s: "cur \<le> s" "s < r" "align dvd s" "s + n \<le> limit" for s
    proof (cases "?c \<le> s")
      case True
      with ih s show ?thesis by (auto simp: searched_def)
    next
      case out: False
      have "s < max cur (ls_end l)" using align_up_least [OF 2(2) s(3), of "max cur (ls_end l)"] out by linarith
      then have "blocks s n l" using s False by (auto simp: blocks_def)
      then show ?thesis by simp
    qed
    then have "searched n align limit cur r (l # ls)" by (simp add: searched_def)
    moreover have "\<not> blocks r n l" using ih c by (simp add: blocks_def)
    ultimately show ?thesis using ih c eq by auto
  qed
qed

section \<open>Placing leases\<close>

definition can_place :: "lease_allocator \<Rightarrow> register_bank \<Rightarrow> int \<Rightarrow> int \<Rightarrow> int \<Rightarrow> bool" where
  "can_place a b s n align \<longleftrightarrow> 0 \<le> s \<and> align dvd s \<and> s + n \<le> capacity_of a b
     \<and> (\<forall>x \<in> set (bank_leases a b). \<not> blocks s n x)"

definition allocator_inv :: "lease_allocator \<Rightarrow> bool" where
  "allocator_inv a \<longleftrightarrow>
     (\<forall>x \<in> set (al_leases a). 0 \<le> ls_start x \<and> 0 < ls_width x \<and> ls_end x \<le> capacity_of a (ls_bank x))
     \<and> sorted_wrt (\<lambda>x y. ls_bank x = ls_bank y \<longrightarrow> ls_end x \<le> ls_start y \<or> ls_end y \<le> ls_start x) (al_leases a)"

definition placed_lease :: "string \<Rightarrow> register_bank \<Rightarrow> int \<Rightarrow> int \<Rightarrow> int \<Rightarrow> lease" where
  "placed_lease name b s n align = \<lparr>ls_role = (case map_of role_by_name name of None \<Rightarrow> VIRTUAL | Some r \<Rightarrow> r),
     ls_bank = b, ls_start = s, ls_width = n, ls_mode = ''allocator'', ls_alignment = align, ls_reserved = True\<rparr>"

lemma register_bank_Inr: "register_bank s = Inr b \<longleftrightarrow> s = bank_value b"
  by (cases b) (auto simp: register_bank_def)

lemma register_bank_value [simp]: "register_bank (bank_value b) = Inr b"
  by (simp add: register_bank_Inr)

lemma reserve_spec:
  assumes "0 < align"
  shows "reserve name s n (bank_value b) align a =
    (if 0 < n \<and> can_place a b s n align
     then Inr (placed_lease name b s n align, a\<lparr>al_leases := al_leases a @ [placed_lease name b s n align]\<rparr>)
     else Inl ValueError)"
proof -
  have rb: "register_bank (bank_value b) = Inr b" by (simp add: register_bank_Inr)
  have free: "list_ex (\<lambda>x. ls_bank x = b \<and> s < ls_end x \<and> ls_start x < s + n) (al_leases a)
      \<longleftrightarrow> \<not> (\<forall>x \<in> set (bank_leases a b). \<not> blocks s n x)"
    by (auto simp: list_ex_iff bank_leases_def blocks_def)
  have mk: "0 \<le> s \<Longrightarrow> 0 < n \<Longrightarrow> mk_lease r b (PInt s) (PInt n) ''allocator'' (PInt align) True =
      (if align dvd s then Inr \<lparr>ls_role = r, ls_bank = b, ls_start = s, ls_width = n, ls_mode = ''allocator'',
         ls_alignment = align, ls_reserved = True\<rparr> else Inl ValueError)" for r
    using assms by (simp add: mk_lease_def req_nonneg_def dvd_eq_mod_eq_0)
  show ?thesis
    unfolding reserve_def rb rbind_Inr Let_def free can_place_def
    by (auto simp: mk placed_lease_def)
qed

lemma sorted_wrt_snoc: "sorted_wrt P (xs @ [x]) \<longleftrightarrow> sorted_wrt P xs \<and> (\<forall>y \<in> set xs. P y x)"
  by (simp add: sorted_wrt_append)

lemma reserve_inv:
  assumes "allocator_inv a" "0 < align" "reserve name s n (bank_value b) align a = Inr (l, a')"
  shows "allocator_inv a'" "ls_start l = s" "ls_end l = s + n" "ls_bank l = b" "al_leases a' = al_leases a @ [l]"
    "capacity_of a' = capacity_of a" "0 < n" "can_place a b s n align"
proof -
  have *: "0 < n" "can_place a b s n align" "l = placed_lease name b s n align" "a' = a\<lparr>al_leases := al_leases a @ [l]\<rparr>"
    using assms(3) unfolding reserve_spec [OF assms(2)] by (auto split: if_splits)
  then show l: "ls_start l = s" "ls_end l = s + n" "ls_bank l = b" "al_leases a' = al_leases a @ [l]"
      "0 < n" "can_place a b s n align"
    by (simp_all add: placed_lease_def ls_end_def)
  show cap: "capacity_of a' = capacity_of a" using * by (auto simp: capacity_of_def)
  have "\<forall>x \<in> set (al_leases a). ls_bank x = b \<longrightarrow> ls_end x \<le> s \<or> s + n \<le> ls_start x"
    using *(2) by (auto simp: can_place_def bank_leases_def blocks_def)
  moreover have "0 < ls_width l" using *(1,3) by (simp add: placed_lease_def)
  moreover have "0 \<le> s" "s + n \<le> capacity_of a b" using *(2) by (auto simp: can_place_def)
  ultimately show "allocator_inv a'"
    using assms(1) l by (auto simp: allocator_inv_def cap sorted_wrt_snoc)
qed

lemma allocate_spec:
  assumes inv: "allocator_inv a" and pos: "0 < align" "0 < n"
  shows "case allocate name n (bank_value b) align a of
     Inr (l, a') \<Rightarrow> can_place a b (ls_start l) n align \<and> ls_end l = ls_start l + n \<and> ls_bank l = b
        \<and> (\<forall>s. can_place a b s n align \<longrightarrow> ls_start l \<le> s) \<and> al_leases a' = al_leases a @ [l] \<and> allocator_inv a'
   | Inl e \<Rightarrow> e = ValueError \<and> (\<forall>s. \<not> can_place a b s n align)"
proof -
  let ?ls = "sort_key ls_start (bank_leases a b)"
  define r where "r = result_pos (first_gap n align 0 ?ls)"
  have spec: "0 \<le> r \<and> align dvd r \<and> (\<forall>x \<in> set ?ls. \<not> blocks r n x) \<and> searched n align (capacity_of a b) 0 r ?ls
    \<and> (\<forall>c. first_gap n align 0 ?ls = Gap c \<longrightarrow> (\<exists>x \<in> set ?ls. r + n \<le> ls_start x))"
    by (rule first_gap_spec [OF pos _ r_def]) simp
  have eq: "allocate name n (bank_value b) align a =
      (if r + n \<le> capacity_of a b then reserve name r n (bank_value b) align a else Inl ValueError)"
  proof (cases "first_gap n align 0 ?ls")
    case (Gap c)
    then obtain x where "x \<in> set ?ls" "r + n \<le> ls_start x" using spec by blast
    moreover have "ls_start x \<le> capacity_of a b" if "x \<in> set ?ls"
      using that inv by (force simp: allocator_inv_def bank_leases_def ls_end_def)
    ultimately have "r + n \<le> capacity_of a b" by fastforce
    with Gap pos show ?thesis by (simp add: allocate_def r_def result_pos_def)
  next
    case (Exhausted c)
    with pos show ?thesis by (auto simp: allocate_def r_def result_pos_def)
  qed
  have least: "r \<le> s" if cp: "can_place a b s n align" for s
  proof (rule ccontr)
    assume "\<not> r \<le> s"
    then obtain x where "x \<in> set ?ls" "blocks s n x"
      using spec cp by (auto simp: searched_def can_place_def)
    with cp show False by (auto simp: can_place_def)
  qed
  show ?thesis
  proof (cases "r + n \<le> capacity_of a b")
    case True
    then have cp: "can_place a b r n align" using spec by (auto simp: can_place_def)
    then have res: "reserve name r n (bank_value b) align a = Inr (placed_lease name b r n align,
        a\<lparr>al_leases := al_leases a @ [placed_lease name b r n align]\<rparr>)"
      by (simp add: reserve_spec [OF pos(1)] pos)
    from reserve_inv [OF inv pos(1) res] show ?thesis
      using True cp least eq res by auto
  next
    case False
    have "\<not> can_place a b s n align" for s
      using least [of s] False by (auto simp: can_place_def)
    with False eq show ?thesis by simp
  qed
qed

lemma allocate_in_window_spec:
  assumes inv: "allocator_inv a" and pos: "0 < align" "0 < n"
    and win: "0 \<le> first" "first < stop" "stop \<le> capacity_of a b"
  shows "case allocate_in_window name (PInt n) (bank_value b) first stop (PInt align) a of
     Inr (l, a') \<Rightarrow> can_place a b (ls_start l) n align \<and> first \<le> ls_start l \<and> ls_end l = ls_start l + n
        \<and> ls_end l \<le> stop \<and> ls_bank l = b \<and> al_leases a' = al_leases a @ [l] \<and> allocator_inv a'
        \<and> capacity_of a' = capacity_of a
   | Inl e \<Rightarrow> e = ValueError \<and> (\<forall>s. first \<le> s \<and> s + n \<le> stop \<longrightarrow> \<not> can_place a b s n align)"
proof -
  let ?ls = "sort_key ls_start (filter (\<lambda>x. ls_end x > first \<and> ls_start x < stop) (bank_leases a b))"
  define r where "r = result_pos (window_gap n align stop (align_up first align) ?ls)"
  have spec: "align_up first align \<le> r \<and> align dvd r \<and> (r + n \<le> stop \<longrightarrow> (\<forall>x \<in> set ?ls. \<not> blocks r n x))
    \<and> searched n align stop (align_up first align) r ?ls
    \<and> (\<forall>c. window_gap n align stop (align_up first align) ?ls = Gap c \<longrightarrow> r + n \<le> stop)"
    by (rule window_gap_spec [OF pos _ align_up_dvd r_def]) simp
  have first: "first \<le> r" using spec align_up_ge [OF pos(1), of first] by linarith
  have vals: "req_pos (PInt n) = Inr n" "req_pos (PInt align) = Inr align" using pos by (simp_all add: req_pos_Inr)
  have eq: "allocate_in_window name (PInt n) (bank_value b) first stop (PInt align) a =
      (if r + n \<le> stop then reserve name r n (bank_value b) align a else Inl ValueError)"
    using win spec
    by (cases "window_gap n align stop (align_up first align) ?ls")
      (auto simp: allocate_in_window_def vals r_def result_pos_def)
  show ?thesis
  proof (cases "r + n \<le> stop")
    case True
    have "\<not> blocks r n x" if "x \<in> set (bank_leases a b)" for x
    proof (cases "x \<in> set ?ls")
      case in_window: True
      with spec True show ?thesis by blast
    next
      case False
      with that have "ls_end x \<le> first \<or> stop \<le> ls_start x" by auto
      then show ?thesis using first True by (auto simp: blocks_def)
    qed
    then have cp: "can_place a b r n align" using spec first True win by (auto simp: can_place_def)
    then have res: "reserve name r n (bank_value b) align a = Inr (placed_lease name b r n align,
        a\<lparr>al_leases := al_leases a @ [placed_lease name b r n align]\<rparr>)"
      by (simp add: reserve_spec [OF pos(1)] pos)
    from reserve_inv [OF inv pos(1) res] show ?thesis
      using True cp first eq res by auto
  next
    case False
    have "\<not> can_place a b s n align" if s: "first \<le> s \<and> s + n \<le> stop" for s
    proof
      assume cp: "can_place a b s n align"
      then have "align_up first align \<le> s" using s align_up_least [OF pos(1)] by (auto simp: can_place_def)
      moreover have "s < r" using s False by linarith
      ultimately obtain x where "x \<in> set ?ls" "blocks s n x"
        using spec cp s by (auto simp: searched_def can_place_def)
      then show False using cp by (auto simp: can_place_def)
    qed
    with False eq show ?thesis by auto
  qed
qed

section \<open>Allocators that place intervals\<close>

text \<open>The contract: a placement is non-empty, disjoint from what the state already owns, inside the
  requested window, and is added to it.  A client that places several intervals in a row gets them pairwise disjoint.\<close>

locale interval_placer =
  fixes place :: "'q \<Rightarrow> 's \<Rightarrow> ('l \<times> 's) result"
    and inv :: "'s \<Rightarrow> bool"
    and owned :: "'s \<Rightarrow> 'l set"
    and lo :: "'l \<Rightarrow> int" and hi :: "'l \<Rightarrow> int"
    and within :: "'q \<Rightarrow> 'l \<Rightarrow> bool"
  assumes place_step: "inv st \<Longrightarrow> place q st = Inr (l, st') \<Longrightarrow>
      inv st' \<and> within q l \<and> lo l < hi l \<and> owned st' = insert l (owned st)
      \<and> (\<forall>x \<in> owned st. hi l \<le> lo x \<or> hi x \<le> lo l)"
begin

lemma place_inv: "inv st \<Longrightarrow> place q st = Inr (l, st') \<Longrightarrow> inv st'"
  using place_step by blast

lemma place_owns: "inv st \<Longrightarrow> place q st = Inr (l, st') \<Longrightarrow> owned st' = insert l (owned st)"
  using place_step by blast

lemma place_fresh: "inv st \<Longrightarrow> place q st = Inr (l, st') \<Longrightarrow> x \<in> owned st \<Longrightarrow> hi l \<le> lo x \<or> hi x \<le> lo l"
  using place_step by blast

lemma place_within: "inv st \<Longrightarrow> place q st = Inr (l, st') \<Longrightarrow> within q l \<and> lo l < hi l"
  using place_step by blast

text \<open>Two placements in a row.\<close>

lemma place_twice:
  assumes "inv st" "place q st = Inr (l, st')" "place p st' = Inr (m, st'')"
  shows "hi l \<le> lo m \<or> hi m \<le> lo l" "within p m" "x \<in> owned st \<Longrightarrow> hi m \<le> lo x \<or> hi x \<le> lo m"
  using place_step [OF assms(1,2)] place_step [OF place_inv [OF assms(1,2)] assms(3)] by auto

end

text \<open>A windowed request for vector registers, as the stage buffers make it.\<close>

datatype request = Request (rq_name: string) (rq_width: int) (rq_first: int) (rq_stop: int)

definition vgpr_set :: "lease_allocator \<Rightarrow> lease set" where
  "vgpr_set a = set (bank_leases a VGPR)"

lemma allocate_in_window_Inr:
  assumes "allocator_inv a"
    and "allocate_in_window name (PInt n) (bank_value b) first stop (PInt 1) a = Inr (l, a')"
  shows "allocator_inv a' \<and> 0 < n \<and> first \<le> ls_start l \<and> ls_end l \<le> stop \<and> ls_end l = ls_start l + n \<and> ls_bank l = b
     \<and> al_leases a' = al_leases a @ [l] \<and> (\<forall>x \<in> set (bank_leases a b). ls_end l \<le> ls_start x \<or> ls_end x \<le> ls_start l)"
proof -
  have n: "0 < n" and win: "0 \<le> first" "first < stop" "stop \<le> capacity_of a b"
    using assms(2) by (auto simp: allocate_in_window_def rbind_eq_Inr validator_Inr split: if_splits)
  show ?thesis
    using allocate_in_window_spec [OF assms(1) zero_less_one n win, of name] assms(2) n
    by (auto simp: can_place_def blocks_def)
qed

interpretation vgprs: interval_placer
  "\<lambda>q. allocate_in_window (rq_name q) (PInt (rq_width q)) ''vgpr'' (rq_first q) (rq_stop q) (PInt 1)"
  allocator_inv vgpr_set ls_start ls_end
  "\<lambda>q l. rq_first q \<le> ls_start l \<and> ls_end l \<le> rq_stop q \<and> ls_end l = ls_start l + rq_width q"
proof (unfold_locales, goal_cases)
  case (1 a q l a')
  have "''vgpr'' = bank_value VGPR" by simp
  from allocate_in_window_Inr [OF 1(1) 1(2) [unfolded this]] show ?case
    by (auto simp: vgpr_set_def bank_leases_def)
qed

section \<open>Stage buffers\<close>

lemma new_allocator_inv: "allocator_inv (new_allocator v s)"
  by (simp add: allocator_inv_def new_allocator_def)

lemma place_reserved_Inr:
  "allocator_inv a \<Longrightarrow> place_reserved rs a = Inr a' \<Longrightarrow> allocator_inv a' \<and> vgpr_set a \<subseteq> vgpr_set a'
    \<and> (\<forall>r \<in> set rs. rv_start r < rv_end r \<longrightarrow> (\<exists>x \<in> vgpr_set a'. ls_start x = rv_start r \<and> ls_end x = rv_end r))"
proof (induction rs arbitrary: a)
  case Nil
  then show ?case by (simp add: place_reserved_def)
next
  case (Cons r rs)
  show ?case
  proof (cases "rv_start r < rv_end r")
    case True
    with Cons.prems(2) obtain l b where l: "reserve (rv_name r) (rv_start r) (rv_end r - rv_start r) ''vgpr'' 1 a = Inr (l, b)"
      and b: "place_reserved rs b = Inr a'"
      by (auto simp: place_reserved_def rbind_eq_Inr)
    have "''vgpr'' = bank_value VGPR" by simp
    from reserve_inv [OF Cons.prems(1) zero_less_one l [unfolded this]]
    have "allocator_inv b" "ls_start l = rv_start r" "ls_end l = rv_end r" "vgpr_set b = insert l (vgpr_set a)"
      by (auto simp: vgpr_set_def bank_leases_def)
    with Cons.IH [OF this(1) b] show ?thesis by auto
  next
    case False
    with Cons show ?thesis by (auto simp: place_reserved_def)
  qed
qed

lemma specs_by_role_fold:
  assumes "rfold (\<lambda>s d. case map_of d (sbs_role s) of
       Some p \<Rightarrow> if stage_buffer_snapshot p \<noteq> stage_buffer_snapshot s then Inl ValueError else Inr (dset (sbs_role s) s d)
     | None \<Rightarrow> Inr (dset (sbs_role s) s d)) specs d = Inr d'"
  shows "(\<forall>s \<in> set specs. \<exists>p. map_of d' (sbs_role s) = Some p \<and> stage_buffer_snapshot p = stage_buffer_snapshot s)
    \<and> (\<forall>k p. map_of d k = Some p \<longrightarrow> (\<exists>q. map_of d' k = Some q \<and> stage_buffer_snapshot q = stage_buffer_snapshot p))"
  using assms
proof (induction specs arbitrary: d)
  case Nil
  then show ?case by simp
next
  case (Cons s specs)
  from Cons.prems have step: "rfold (\<lambda>s d. case map_of d (sbs_role s) of
       Some p \<Rightarrow> if stage_buffer_snapshot p \<noteq> stage_buffer_snapshot s then Inl ValueError else Inr (dset (sbs_role s) s d)
     | None \<Rightarrow> Inr (dset (sbs_role s) s d)) specs (dset (sbs_role s) s d) = Inr d'"
    and old: "\<forall>p. map_of d (sbs_role s) = Some p \<longrightarrow> stage_buffer_snapshot p = stage_buffer_snapshot s"
    by (auto split: option.splits if_splits)
  note ih = Cons.IH [OF step]
  have s: "\<exists>p. map_of d' (sbs_role s) = Some p \<and> stage_buffer_snapshot p = stage_buffer_snapshot s"
    using conjunct2 [OF ih] by simp
  have "\<exists>q. map_of d' k = Some q \<and> stage_buffer_snapshot q = stage_buffer_snapshot p" if "map_of d k = Some p" for k p
  proof (cases "k = sbs_role s")
    case True
    with s old that show ?thesis by metis
  next
    case False
    with that conjunct2 [OF ih] show ?thesis by simp
  qed
  with s conjunct1 [OF ih] show ?case by auto
qed

lemma snapshot_width: "stage_buffer_snapshot p = stage_buffer_snapshot s \<Longrightarrow> packed_vgpr_width p = packed_vgpr_width s"
  by (simp add: stage_buffer_snapshot_def)

lemma place_stage_Inr:
  assumes "place_stage by_role first stop role (d, a) = Inr (d', a')" "allocator_inv a"
  shows "allocator_inv a' \<and> (case map_of by_role role of
      None \<Rightarrow> d' = d \<and> a' = a
    | Some s \<Rightarrow> (\<exists>l. d' = dset role l d \<and> first \<le> ls_start l \<and> ls_end l \<le> stop \<and> ls_width l = packed_vgpr_width s
        \<and> vgpr_set a' = insert l (vgpr_set a) \<and> (\<forall>x \<in> vgpr_set a. ls_end l \<le> ls_start x \<or> ls_end x \<le> ls_start l)))"
proof (cases "map_of by_role role")
  case None
  with assms show ?thesis by (simp add: place_stage_def)
next
  case (Some s)
  define q where "q = Request (''stage_'' @ role) (packed_vgpr_width s) first stop"
  from assms Some obtain l where
    l: "allocate_in_window (rq_name q) (PInt (rq_width q)) ''vgpr'' (rq_first q) (rq_stop q) (PInt 1) a = Inr (l, a')"
    and d: "d' = dset role l d"
    by (auto simp: place_stage_def rbind_eq_Inr q_def)
  show ?thesis
    using vgprs.place_step [OF assms(2) l] d Some by (auto simp: q_def ls_end_def)
qed

section \<open>Descriptors\<close>

lemma validate_overlaps_iff: "validate_overlaps ls = Inr u \<longleftrightarrow> sorted_wrt (\<lambda>l r. \<not> leases_conflict l r) ls"
  by (induction ls) (auto simp: list_ex_iff)

lemma mk_register_descriptor_valid:
  assumes "mk_register_descriptor target w v s ls = Inr d"
  shows "rd_leases d = ls \<and> sorted_wrt (\<lambda>l r. \<not> leases_conflict l r) ls
    \<and> list_all (\<lambda>l. ls_end l \<le> (if ls_bank l = VGPR then rd_vgpr_count d else rd_sgpr_count d)) ls"
  using assms
  by (auto simp: mk_register_descriptor_def rbind_eq_Inr validate_overlaps_iff list_ex_iff list_all_iff split: if_splits)

section \<open>Properties\<close>

text \<open>Property C17. Allocation is first fit and complete: for a valid allocator a request is placed at the least aligned
  position where the whole width is free and within the bank, every earlier lease is kept, and the leases stay
  disjoint and in range; the request is refused only if no aligned position could hold it.\<close>

theorem lease_first_fit:
  assumes "allocator_inv a" "0 < align" "0 < n"
  shows "case allocate name n (bank_value b) align a of
     Inr (l, a') \<Rightarrow> can_place a b (ls_start l) n align \<and> ls_end l = ls_start l + n \<and> ls_bank l = b
        \<and> (\<forall>s. can_place a b s n align \<longrightarrow> ls_start l \<le> s) \<and> al_leases a' = al_leases a @ [l] \<and> allocator_inv a'
   | Inl e \<Rightarrow> e = ValueError \<and> (\<forall>s. \<not> can_place a b s n align)"
  using assms by (rule allocate_spec)

definition sample_allocator :: lease_allocator where
  "sample_allocator = (case with_fixed_abi of Inr a \<Rightarrow> a | Inl _ \<Rightarrow> new_allocator None None)"

lemma fixed_abi_leases:
  "map (\<lambda>l. (ls_bank l, ls_start l, ls_width l)) (al_leases sample_allocator) =
     [(SGPR, 0, 4), (SGPR, 4, 2), (SGPR, 6, 2), (SGPR, 8, 2), (SGPR, 10, 2), (SGPR, 16, 1), (VGPR, 0, 10)]"
  by code_simp

lemma sample_allocator_inv: "allocator_inv sample_allocator"
proof -
  have cap: "al_vgpr_capacity sample_allocator = 256" "al_sgpr_capacity sample_allocator = 104" by code_simp+
  let ?P = "\<lambda>x y. fst x = fst y \<longrightarrow> fst (snd x) + snd (snd x) \<le> fst (snd y) \<or> fst (snd y) + snd (snd y) \<le> fst (snd x)"
  let ?t = "\<lambda>l. (ls_bank l, ls_start l, ls_width l)"
  have "sorted_wrt ?P (map ?t (al_leases sample_allocator))" unfolding fixed_abi_leases by simp
  moreover have "\<forall>t \<in> set (map ?t (al_leases sample_allocator)). 0 \<le> fst (snd t) \<and> 0 < snd (snd t)
      \<and> fst (snd t) + snd (snd t) \<le> capacity_of sample_allocator (fst t)"
    unfolding fixed_abi_leases by (simp add: capacity_of_def cap)
  ultimately show ?thesis by (simp add: allocator_inv_def sorted_wrt_map ls_end_def)
qed

lemma lease_first_fit_witness:
  "case allocate ''wmma_accumulator'' 8 (bank_value VGPR) 8 sample_allocator of
     Inr (l, a') \<Rightarrow> ls_start l = 16 \<and> allocator_inv a' | Inl _ \<Rightarrow> False"
proof -
  have "(case allocate ''wmma_accumulator'' 8 (bank_value VGPR) 8 sample_allocator of
     Inr (l, a') \<Rightarrow> ls_start l = 16 | Inl _ \<Rightarrow> False)" by code_simp
  then show ?thesis
    using lease_first_fit [OF sample_allocator_inv, where align = 8 and n = 8 and name = "''wmma_accumulator''" and b = VGPR]
    by (auto split: sum.splits)
qed

text \<open>Property C18. The stage-buffer leases are physical truth: every stage gets a lease of exactly its packed width
  inside the window, the A and B leases do not overlap, and neither overlaps a non-empty reserved interval.\<close>

theorem stage_buffers_disjoint:
  assumes "allocate_stage_buffer_leases specs first stop reserved cap = Inr d"
  shows "(\<forall>s \<in> set specs. sbs_role s \<in> {''A'', ''B''} \<longrightarrow> (\<exists>l. map_of d (sbs_role s) = Some l
            \<and> first \<le> ls_start l \<and> ls_end l \<le> stop \<and> ls_width l = packed_vgpr_width s))
       \<and> (\<forall>la lb. map_of d ''A'' = Some la \<and> map_of d ''B'' = Some lb \<longrightarrow> ls_end la \<le> ls_start lb \<or> ls_end lb \<le> ls_start la)
       \<and> (\<forall>r \<in> set reserved. \<forall>k l. rv_start r < rv_end r \<and> map_of d k = Some l \<longrightarrow>
            rv_end r \<le> ls_start l \<or> ls_end l \<le> rv_start r)"
proof -
  from assms obtain by_role a0 d1 a1 a2 where br: "specs_by_role specs = Inr by_role"
    and a0: "place_reserved (sort_key (\<lambda>r. (rv_start r, rv_end r, rv_name r)) reserved) (new_allocator cap None) = Inr a0"
    and p1: "place_stage by_role first stop ''A'' ([], a0) = Inr (d1, a1)"
    and p2: "place_stage by_role first stop ''B'' (d1, a1) = Inr (d, a2)"
    by (auto simp: allocate_stage_buffer_leases_def rbind_eq_Inr)
  note r = place_reserved_Inr [OF new_allocator_inv a0]
  note i1 = place_stage_Inr [OF p1 conjunct1 [OF r]]
  note i2 = place_stage_Inr [OF p2 conjunct1 [OF i1]]
  have specs: "\<exists>p. map_of by_role (sbs_role s) = Some p \<and> packed_vgpr_width p = packed_vgpr_width s" if "s \<in> set specs" for s
    using specs_by_role_fold [OF br [unfolded specs_by_role_def]] that snapshot_width by blast
  have res: "\<exists>x \<in> vgpr_set a0. ls_start x = rv_start q \<and> ls_end x = rv_end q"
    if "q \<in> set reserved" "rv_start q < rv_end q" for q
    using r that by auto
  have A: "map_of d ''A'' = map_of d1 ''A''" and B1: "map_of d1 ''B'' = None"
    using i1 i2 by (auto split: option.splits)
  have inA: "first \<le> ls_start l \<and> ls_end l \<le> stop \<and> l \<in> vgpr_set a1
      \<and> (\<exists>p. map_of by_role ''A'' = Some p \<and> ls_width l = packed_vgpr_width p)
      \<and> (\<forall>x \<in> vgpr_set a0. ls_end l \<le> ls_start x \<or> ls_end x \<le> ls_start l)" if "map_of d ''A'' = Some l" for l
    using that i1 unfolding A by (auto split: option.splits)
  have inB: "first \<le> ls_start l \<and> ls_end l \<le> stop
      \<and> (\<exists>p. map_of by_role ''B'' = Some p \<and> ls_width l = packed_vgpr_width p)
      \<and> (\<forall>x \<in> vgpr_set a1. ls_end l \<le> ls_start x \<or> ls_end x \<le> ls_start l)" if "map_of d ''B'' = Some l" for l
    using that i2 B1 by (auto split: option.splits)
  have sub: "vgpr_set a0 \<subseteq> vgpr_set a1" using i1 by (auto split: option.splits)
  have gotA: "map_of by_role ''A'' = Some p \<Longrightarrow> \<exists>l. map_of d ''A'' = Some l" for p
    using i1 unfolding A by (auto split: option.splits)
  have gotB: "map_of by_role ''B'' = Some p \<Longrightarrow> \<exists>l. map_of d ''B'' = Some l" for p
    using i2 by (auto split: option.splits)
  have keys: "map_of d k = Some l \<Longrightarrow> k = ''A'' \<or> k = ''B''" for k l
    using i1 i2 by (auto split: option.splits if_splits)
  show ?thesis
  proof (intro conjI ballI allI impI)
    fix s assume s: "s \<in> set specs" and role: "sbs_role s \<in> {''A'', ''B''}"
    obtain p where p: "map_of by_role (sbs_role s) = Some p" "packed_vgpr_width p = packed_vgpr_width s"
      using specs [OF s] by blast
    show "\<exists>l. map_of d (sbs_role s) = Some l \<and> first \<le> ls_start l \<and> ls_end l \<le> stop \<and> ls_width l = packed_vgpr_width s"
      using role p gotA [of p] gotB [of p] inA inB by fastforce
  next
    fix la lb assume "map_of d ''A'' = Some la \<and> map_of d ''B'' = Some lb"
    then show "ls_end la \<le> ls_start lb \<or> ls_end lb \<le> ls_start la" using inA inB by blast
  next
    fix q k l assume q: "q \<in> set reserved" and kl: "rv_start q < rv_end q \<and> map_of d k = Some l"
    obtain x where x: "x \<in> vgpr_set a0" "ls_start x = rv_start q" "ls_end x = rv_end q" using res q kl by blast
    then have "ls_end l \<le> ls_start x \<or> ls_end x \<le> ls_start l"
      using keys [of k l] kl inA [of l] inB [of l] sub by blast
    with x show "rv_end q \<le> ls_start l \<or> ls_end l \<le> rv_start q" by auto
  qed
qed

definition sample_specs :: "stage_buffer_spec list" where
  "sample_specs = [\<lparr>sbs_role = ''A'', sbs_slots = 2, sbs_fragments = 2, sbs_lane_width = 16\<rparr>,
     \<lparr>sbs_role = ''B'', sbs_slots = 1, sbs_fragments = 4, sbs_lane_width = 16\<rparr>]"

lemma stage_buffers_disjoint_witness:
  "\<exists>d la lb. allocate_stage_buffer_leases sample_specs 72 200 [Reserved ''c'' 90 110, Reserved ''e'' 5 5] None = Inr d
     \<and> map_of d ''A'' = Some la \<and> map_of d ''B'' = Some lb \<and> (ls_end la \<le> ls_start lb \<or> ls_end lb \<le> ls_start la)
     \<and> (110 \<le> ls_start la \<or> ls_end la \<le> 90)"
proof -
  have "rok (allocate_stage_buffer_leases sample_specs 72 200 [Reserved ''c'' 90 110, Reserved ''e'' 5 5] None)"
    by code_simp
  then obtain d where d: "allocate_stage_buffer_leases sample_specs 72 200 [Reserved ''c'' 90 110, Reserved ''e'' 5 5] None = Inr d"
    by (auto simp: rok_iff)
  note t = stage_buffers_disjoint [OF d]
  obtain la lb where l: "map_of d ''A'' = Some la" "map_of d ''B'' = Some lb"
    using conjunct1 [OF t] by (auto simp: sample_specs_def)
  with t d show ?thesis by fastforce
qed

text \<open>The shipped gfx1100 descriptor and attention loop-state map pass their own validation: the descriptor's
  leases of a mode and bank never overlap, and the loop-state spans tile registers 8 to 103 below the fragment window.\<close>

theorem gfx1100_layout_valid:
  "(\<exists>d. gfx1100_register_descriptor = Inr d \<and> length (rd_leases d) = 12
      \<and> list_all (\<lambda>l. ls_end l \<le> (if ls_bank l = VGPR then rd_vgpr_count d else rd_sgpr_count d)) (rd_leases d)
      \<and> sorted_wrt (\<lambda>l r. \<not> leases_conflict l r) (rd_leases d))
   \<and> validate_loop_state default_loop_state_map = Inr default_loop_state_map
   \<and> concat (map (\<lambda>s. [sp_first s..sp_last s - 1]) (loop_state_spans default_loop_state_map)) = [8..103]
   \<and> loop_state_top default_loop_state_map = 104 \<and> loop_state_runs default_loop_state_map = 12"
proof -
  have "rok gfx1100_register_descriptor" by code_simp
  then obtain d where d: "gfx1100_register_descriptor = Inr d" by (auto simp: rok_iff)
  have "(case gfx1100_register_descriptor of Inl _ \<Rightarrow> False | Inr d \<Rightarrow> length (rd_leases d) = 12)" by code_simp
  then have "length (rd_leases d) = 12" unfolding d sum.case .
  moreover obtain ls where "mk_register_descriptor ''AMD:gfx1100'' 32 (PInt 256) (PInt 104) ls = Inr d"
    using d unfolding gfx1100_register_descriptor_def rbind_eq_Inr by blast
  from mk_register_descriptor_valid [OF this]
  have "list_all (\<lambda>l. ls_end l \<le> (if ls_bank l = VGPR then rd_vgpr_count d else rd_sgpr_count d)) (rd_leases d)
      \<and> sorted_wrt (\<lambda>l r. \<not> leases_conflict l r) (rd_leases d)"
    by simp
  moreover have "validate_loop_state default_loop_state_map = Inr default_loop_state_map" by code_simp
  moreover have "concat (map (\<lambda>s. [sp_first s..sp_last s - 1]) (loop_state_spans default_loop_state_map)) = [8..103]"
    by code_simp
  moreover have "loop_state_top default_loop_state_map = 104" "loop_state_runs default_loop_state_map = 12" by code_simp+
  ultimately show ?thesis using d by blast
qed

text \<open>The contiguity check of the loop-state map only counts registers: a map whose \<open>m\<close> span lies below
  the reserved window is accepted.\<close>

lemma loop_state_check_misses_window:
  "validate_loop_state (default_loop_state_map\<lparr>lm_m := 0\<rparr>) = Inr (default_loop_state_map\<lparr>lm_m := 0\<rparr>)
   \<and> loop_state_base (default_loop_state_map\<lparr>lm_m := 0\<rparr>) ''m'' 0 = Inr 0
   \<and> lm_acc (default_loop_state_map\<lparr>lm_m := 0\<rparr>) = 8"
  by code_simp

end
