(* ===== verification/Pipeline.thy ===== *)
theory Pipeline
  imports PyVal "HOL-Library.Word"
begin

text \<open>
  Compiler pipeline policies (\<open>tinygrad/codegen/opt/compiler_policies.py\<close>) and the plan types of the
  staged pipeline (\<open>tinygrad/codegen/opt/kernel_pipeline.py\<close>): storage, wait and resource contracts, the
  proof of wait coverage, the wait-counter encoding, the stage-1 plan, the hierarchical lifecycle and the
  scheduler tile loop.  The construction of the UOp graph itself is not modelled here.
\<close>

unbundle bit_operations_syntax

section \<open>Storage, wait and resource policies\<close>

record storage_policy =
  sp_kind :: string
  sp_buffer_count :: int
  sp_slot_bytes :: int
  sp_roles :: "string list"

definition mk_storage_policy :: "string \<Rightarrow> int \<Rightarrow> int \<Rightarrow> string list \<Rightarrow> storage_policy result" where
  "mk_storage_policy kind buffer_count slot_bytes roles =
     (if kind \<notin> set [''lds'', ''global_register_resident''] then Inl ValueError
      else if buffer_count \<notin> {1, 2} then Inl ValueError
      else if slot_bytes < 0 then Inl ValueError
      else if kind = ''lds'' \<and> slot_bytes \<le> 0 then Inl ValueError
      else if kind = ''global_register_resident'' \<and> slot_bytes \<noteq> 0 then Inl ValueError
      else if roles \<noteq> [''A'', ''B''] then Inl ValueError
      else Inr \<lparr>sp_kind = kind, sp_buffer_count = buffer_count, sp_slot_bytes = slot_bytes, sp_roles = roles\<rparr>)"

record wait_policy =
  wp_kind :: string
  wp_scope :: string

definition mk_wait_policy :: "string \<Rightarrow> string \<Rightarrow> wait_policy result" where
  "mk_wait_policy kind scope =
     (if kind \<notin> set [''full_barrier'', ''targeted_vmcnt''] then Inl ValueError
      else if kind = ''full_barrier'' \<and> scope \<noteq> ''workgroup'' then Inl ValueError
      else if kind = ''targeted_vmcnt'' \<and> scope \<noteq> ''per_stage'' then Inl ValueError
      else Inr \<lparr>wp_kind = kind, wp_scope = scope\<rparr>)"

record resource_plan =
  rs_stage :: string
  rs_lds_bytes :: int
  rs_scratch_bytes :: int
  rs_vgpr :: "int option"
  rs_sgpr :: "int option"

definition mk_resource_plan :: "string \<Rightarrow> int \<Rightarrow> int \<Rightarrow> int option \<Rightarrow> int option \<Rightarrow> resource_plan result" where
  "mk_resource_plan stage lds_bytes scratch_bytes vgpr sgpr =
     (if stage \<notin> set [''host_estimate'', ''final_program'', ''pinned_budget''] then Inl ValueError
      else if lds_bytes < 0 \<or> scratch_bytes < 0 then Inl ValueError
      else if stage = ''host_estimate'' \<and> (vgpr \<noteq> None \<or> sgpr \<noteq> None) then Inl ValueError
      else if stage = ''final_program'' \<and> (vgpr = None \<or> sgpr = None) then Inl ValueError
      else if stage = ''pinned_budget'' \<and> vgpr = None then Inl ValueError
      else Inr \<lparr>rs_stage = stage, rs_lds_bytes = lds_bytes, rs_scratch_bytes = scratch_bytes, rs_vgpr = vgpr, rs_sgpr = sgpr\<rparr>)"

record pipeline_policy =
  pp_storage :: storage_policy
  pp_wait :: wait_policy
  pp_resources :: resource_plan
  pp_stages :: int

definition mk_pipeline_policy ::
  "storage_policy \<Rightarrow> wait_policy \<Rightarrow> resource_plan \<Rightarrow> pyval \<Rightarrow> pipeline_policy result" where
  "mk_pipeline_policy storage wait resources stages =
     rbind (req_pos stages) (\<lambda>n.
       if sp_kind storage = ''global_register_resident'' then
         (if sp_slot_bytes storage \<noteq> 0 \<or> rs_lds_bytes resources \<noteq> 0 then Inl ValueError
          else Inr \<lparr>pp_storage = storage, pp_wait = wait, pp_resources = resources, pp_stages = n\<rparr>)
       else if rs_lds_bytes resources < sp_buffer_count storage * sp_slot_bytes storage then Inl ValueError
       else Inr \<lparr>pp_storage = storage, pp_wait = wait, pp_resources = resources, pp_stages = n\<rparr>)"

definition storage_kind :: "pipeline_policy \<Rightarrow> string" where
  "storage_kind p = sp_kind (pp_storage p)"

definition logical_stage_count :: "pipeline_policy \<Rightarrow> int" where
  "logical_stage_count p = pp_stages p"

definition lds_policy ::
  "int \<Rightarrow> int \<Rightarrow> wait_policy option \<Rightarrow> resource_plan option \<Rightarrow> pyval \<Rightarrow> pipeline_policy result" where
  "lds_policy buffer_count slot_bytes wait resources stages =
     rbind (mk_storage_policy ''lds'' buffer_count slot_bytes [''A'', ''B'']) (\<lambda>storage.
     rbind (case wait of None \<Rightarrow> mk_wait_policy ''full_barrier'' ''workgroup'' | Some w \<Rightarrow> Inr w) (\<lambda>w.
     rbind (case resources of
              None \<Rightarrow> mk_resource_plan ''host_estimate'' (sp_buffer_count storage * sp_slot_bytes storage) 0 None None
            | Some r \<Rightarrow> Inr r) (\<lambda>r.
       mk_pipeline_policy storage w r stages)))"

definition register_resident_policy ::
  "pyval \<Rightarrow> wait_policy option \<Rightarrow> resource_plan option \<Rightarrow> pipeline_policy result" where
  "register_resident_policy stages wait resources =
     rbind (mk_storage_policy ''global_register_resident'' 1 0 [''A'', ''B'']) (\<lambda>storage.
     rbind (case wait of None \<Rightarrow> mk_wait_policy ''targeted_vmcnt'' ''per_stage'' | Some w \<Rightarrow> Inr w) (\<lambda>w.
     rbind (case resources of None \<Rightarrow> mk_resource_plan ''host_estimate'' 0 0 None None | Some r \<Rightarrow> Inr r) (\<lambda>r.
       mk_pipeline_policy storage w r stages)))"

section \<open>Wait dependencies and their coverage\<close>

record wait_dependency =
  wd_policy :: wait_policy
  wd_producer :: string
  wd_consumer :: string
  wd_load_group :: string
  wd_producer_stage :: "int option"
  wd_consumer_stage :: "int option"
  wd_scope :: "string option"

definition mk_wait_dependency ::
  "wait_policy \<Rightarrow> string \<Rightarrow> string \<Rightarrow> string \<Rightarrow> pyval \<Rightarrow> pyval \<Rightarrow> string option \<Rightarrow> wait_dependency result" where
  "mk_wait_dependency policy producer consumer load_group producer_stage consumer_stage scope =
     (if producer = [] \<or> consumer = [] \<or> load_group = [] then Inl ValueError
      else rbind (opt_nonneg producer_stage) (\<lambda>p. rbind (opt_nonneg consumer_stage) (\<lambda>c.
        if scope \<noteq> None \<and> scope \<notin> set [Some ''workgroup'', Some ''per_stage''] then Inl ValueError
        else Inr \<lparr>wd_policy = policy, wd_producer = producer, wd_consumer = consumer, wd_load_group = load_group,
                  wd_producer_stage = p, wd_consumer_stage = c, wd_scope = scope\<rparr>)))"

type_synonym edge = "string \<times> int \<times> int"

record wait_coverage =
  wc_passed :: bool
  wc_errors :: "string list"
  wc_covered :: "edge list"

definition edge_value :: "edge \<Rightarrow> pyval" where
  "edge_value e = PTuple [PStr (fst e), PInt (fst (snd e)), PInt (snd (snd e))]"

definition edge_json :: "edge \<Rightarrow> pyval" where
  "edge_json e = PList [PStr (fst e), PInt (fst (snd e)), PInt (snd (snd e))]"

definition coverage_to_json :: "wait_coverage \<Rightarrow> pyval" where
  "coverage_to_json c = PDict [(''passed'', PBool (wc_passed c)), (''errors'', PList (map PStr (wc_errors c))),
     (''covered'', PList (map edge_json (wc_covered c)))]"

definition stage_of :: "pyval \<Rightarrow> int option" where
  "stage_of v = (case v of PInt i \<Rightarrow> if i < 0 then None else Some i | _ \<Rightarrow> None)"

definition edge_parts :: "pyval list \<Rightarrow> edge option" where
  "edge_parts xs = (case xs of
       [PStr g, p, c] \<Rightarrow> (case (g = [], stage_of p, stage_of c) of
           (False, Some i, Some j) \<Rightarrow> Some (g, i, j) | _ \<Rightarrow> None)
     | _ \<Rightarrow> None)"

definition parse_edges :: "pyval list \<Rightarrow> edge list result" where
  "parse_edges rows = rfold (\<lambda>row edges. case row of
       PList xs \<Rightarrow> (case edge_parts xs of
           None \<Rightarrow> Inl ValueError
         | Some e \<Rightarrow> if e \<in> set edges then Inl ValueError else Inr (edges @ [e]))
     | _ \<Rightarrow> Inl ValueError) rows []"

definition coverage_from_json :: "pyval \<Rightarrow> wait_coverage result" where
  "coverage_from_json row =
     (if \<not> is_mapping row then Inl TypeError
      else (let errors = pget_default row ''errors'' (PList []); covered = pget_default row ''covered'' (PList []) in
        case (pget row ''passed'', errors, covered) of
          (PBool passed, PList es, cov) \<Rightarrow>
            (if list_ex (\<lambda>e. \<not> is_str e) es then Inl ValueError
             else (case cov of PList rows \<Rightarrow> rbind (parse_edges rows) (\<lambda>edges.
                       Inr \<lparr>wc_passed = passed, wc_errors = map str_of es, wc_covered = edges\<rparr>)
                   | _ \<Rightarrow> Inl ValueError))
        | _ \<Rightarrow> Inl ValueError))"

text \<open>The required edges are checked one by one; what is malformed or repeated is an error.\<close>

definition required_step :: "pyval \<Rightarrow> edge list \<times> string list \<Rightarrow> edge list \<times> string list" where
  "required_step item st = (case (case item of PTuple xs \<Rightarrow> edge_parts xs | _ \<Rightarrow> None) of
       None \<Rightarrow> (fst st, snd st @ [''invalid required wait edge '' @ py_repr item])
     | Some e \<Rightarrow> if e \<in> set (fst st) then (fst st, snd st @ [''duplicate required wait edge '' @ py_repr item])
                 else (fst st @ [e], snd st))"

definition dependency_step ::
  "pipeline_policy \<Rightarrow> nat \<times> wait_dependency \<Rightarrow> edge list \<times> string list \<Rightarrow> edge list \<times> string list" where
  "dependency_step policy nd st =
     (let loc = ''dependency '' @ str_nat (fst nd); dep = snd nd; targeted = (wp_kind (wd_policy dep) = ''targeted_vmcnt'');
          expected = (if targeted then ''per_stage'' else ''workgroup'');
          e1 = (if wd_policy dep \<noteq> pp_wait policy then [loc @ '': policy does not match pipeline wait policy''] else []);
          e2 = (case wd_scope dep of None \<Rightarrow> [] | Some s \<Rightarrow>
            if s \<noteq> expected then [loc @ '': scope '' @ repr_str s @ '' does not match '' @ repr_str expected] else [])
      in if targeted then
           (case (wd_producer_stage dep, wd_consumer_stage dep) of
              (Some p, Some c) \<Rightarrow>
                (let e3 = (if p \<ge> logical_stage_count policy \<or> c \<ge> logical_stage_count policy then
                       [loc @ '': stage is outside policy range 0..'' @ str_int (logical_stage_count policy - 1)] else []);
                     key = (wd_load_group dep, p, c)
                 in if key \<in> set (fst st) then
                      (fst st, snd st @ e1 @ e2 @ e3 @ [loc @ '': duplicate wait edge '' @ py_repr (edge_value key)])
                    else (fst st @ [key], snd st @ e1 @ e2 @ e3))
            | _ \<Rightarrow> (fst st, snd st @ e1 @ e2 @ [loc @ '': targeted wait requires producer and consumer stages'']))
         else if wd_producer_stage dep \<noteq> None \<or> wd_consumer_stage dep \<noteq> None then
           (fst st, snd st @ e1 @ e2 @ [loc @ '': full barrier wait must not claim stage-specific coverage''])
         else (fst st, snd st @ e1 @ e2))"

definition prove_wait_dependency_coverage ::
  "pipeline_policy \<Rightarrow> wait_dependency list \<Rightarrow> pyval list \<Rightarrow> wait_coverage" where
  "prove_wait_dependency_coverage policy dependencies required =
     (case fold required_step required ([], []) of (keys, errors1) \<Rightarrow>
      case fold (dependency_step policy) (enumerate 0 dependencies) ([], errors1) of (covered, errors2) \<Rightarrow>
        (let absent = sort (filter (\<lambda>e. e \<notin> set covered) keys);
             errors = errors2 @ map (\<lambda>e. ''missing wait coverage for '' @ py_repr (edge_value e)) absent
         in \<lparr>wc_passed = (errors = []), wc_errors = errors, wc_covered = sort covered\<rparr>))"

section \<open>Wait counters\<close>

record wait_count =
  wn_vmcnt :: int
  wn_lgkmcnt :: int
  wn_expcnt :: int

definition counter :: "int \<Rightarrow> pyval \<Rightarrow> int result" where
  "counter most v = (if \<not> is_int v \<or> is_bool v \<or> \<not> (0 \<le> as_int v \<and> as_int v \<le> most) then Inl ValueError else Inr (as_int v))"

definition mk_wait_count :: "pyval \<Rightarrow> pyval \<Rightarrow> pyval \<Rightarrow> wait_count result" where
  "mk_wait_count vmcnt lgkmcnt expcnt =
     rbind (counter 63 vmcnt) (\<lambda>v. rbind (counter 63 lgkmcnt) (\<lambda>l. rbind (counter 7 expcnt) (\<lambda>e.
       Inr \<lparr>wn_vmcnt = v, wn_lgkmcnt = l, wn_expcnt = e\<rparr>)))"

definition simm16 :: "wait_count \<Rightarrow> int" where
  "simm16 w = (push_bit 10 (wn_vmcnt w) OR push_bit 4 (wn_lgkmcnt w)) OR wn_expcnt w"

record wave_lds_fence = wait_count +
  wf_target :: string
  wf_wave_size :: int
  wf_workgroup_size :: int
  wf_scope :: string
  wf_slices :: "(int \<times> int) list"

definition slice_of :: "pyval \<Rightarrow> (int \<times> int) result" where
  "slice_of v = (case v of PTuple [PInt off, PInt sz] \<Rightarrow>
       if off < 0 \<or> sz \<le> 0 then Inl ValueError else Inr (off, off + sz)
     | _ \<Rightarrow> Inl ValueError)"

definition mk_wave_lds_fence ::
  "pyval \<Rightarrow> pyval \<Rightarrow> pyval \<Rightarrow> string \<Rightarrow> int \<Rightarrow> int \<Rightarrow> string \<Rightarrow> pyval list \<Rightarrow> wave_lds_fence result" where
  "mk_wave_lds_fence vmcnt lgkmcnt expcnt target wave_size workgroup_size scope wave_slices =
     rbind (mk_wait_count vmcnt lgkmcnt expcnt) (\<lambda>w.
       if target \<noteq> ''gfx1100'' \<or> wave_size \<noteq> 32 \<or> workgroup_size < wave_size \<or> workgroup_size mod wave_size \<noteq> 0
       then Inl ValueError
       else if (wn_vmcnt w, wn_lgkmcnt w, wn_expcnt w) \<noteq> (63, 0, 7) \<or> scope \<noteq> ''wave'' then Inl ValueError
       else if int (length wave_slices) \<noteq> workgroup_size div wave_size then Inl ValueError
       else rbind (rmap slice_of wave_slices) (\<lambda>slices.
         (let s = sort slices in
          if list_ex (\<lambda>p. snd (fst p) > fst (snd p)) (zip s (tl s)) then Inl ValueError
          else Inr \<lparr>wn_vmcnt = wn_vmcnt w, wn_lgkmcnt = wn_lgkmcnt w, wn_expcnt = wn_expcnt w, wf_target = target,
                    wf_wave_size = wave_size, wf_workgroup_size = workgroup_size, wf_scope = scope, wf_slices = slices\<rparr>)))"

section \<open>Register pipe\<close>

record register_pipe_plan =
  rp_stages :: int
  rp_global_load_bytes :: int
  rp_storage :: storage_policy
  rp_wait :: wait_policy
  rp_resources :: resource_plan

definition mk_register_pipe_plan ::
  "int \<Rightarrow> int \<Rightarrow> storage_policy \<Rightarrow> wait_policy \<Rightarrow> resource_plan \<Rightarrow> register_pipe_plan result" where
  "mk_register_pipe_plan stages global_load_bytes storage wait resources =
     (if stages \<noteq> 2 then Inl ValueError
      else if global_load_bytes \<noteq> 16 then Inl ValueError
      else if sp_kind storage \<noteq> ''global_register_resident'' \<or> sp_buffer_count storage \<noteq> 1 \<or> sp_slot_bytes storage \<noteq> 0
      then Inl ValueError
      else if wp_kind wait \<noteq> ''targeted_vmcnt'' \<or> wp_scope wait \<noteq> ''per_stage'' then Inl ValueError
      else if rs_stage resources \<noteq> ''host_estimate'' \<or> rs_vgpr resources \<noteq> None \<or> rs_sgpr resources \<noteq> None then Inl ValueError
      else Inr \<lparr>rp_stages = stages, rp_global_load_bytes = global_load_bytes, rp_storage = storage, rp_wait = wait,
                rp_resources = resources\<rparr>)"

definition register_pipe_policy :: "register_pipe_plan \<Rightarrow> pipeline_policy result" where
  "register_pipe_policy p = mk_pipeline_policy (rp_storage p) (rp_wait p) (rp_resources p) (PInt (rp_stages p))"

definition register_pipe_coverage :: "register_pipe_plan \<Rightarrow> wait_coverage result" where
  "register_pipe_coverage p =
     rbind (rmap (\<lambda>role. mk_wait_dependency (rp_wait p) (''global_load_'' @ role) ''gemm_consumer'' role (PInt 0) (PInt 1)
              (Some ''per_stage'')) [''A'', ''B'']) (\<lambda>deps.
     rbind (register_pipe_policy p) (\<lambda>policy.
       Inr (prove_wait_dependency_coverage policy deps
         [PTuple [PStr ''A'', PInt 0, PInt 1], PTuple [PStr ''B'', PInt 0, PInt 1]])))"

section \<open>Stage-1 pipeline plan\<close>

record stage1_plan =
  s1_buffer_count :: int
  s1_slot_bytes :: int
  s1_stage_count :: int
  s1_roles :: "string list"

definition mk_stage1_plan :: "pyval \<Rightarrow> pyval \<Rightarrow> int \<Rightarrow> string list \<Rightarrow> stage1_plan result" where
  "mk_stage1_plan buffer_count slot_bytes stage_count roles =
     (if \<not> is_int buffer_count \<or> is_bool buffer_count \<or> as_int buffer_count \<notin> {1, 2} then Inl ValueError
      else if stage_count \<noteq> 1 then Inl ValueError
      else if roles \<noteq> [''A'', ''B''] then Inl ValueError
      else rbind (req_pos slot_bytes) (\<lambda>s.
        Inr \<lparr>s1_buffer_count = as_int buffer_count, s1_slot_bytes = s, s1_stage_count = stage_count, s1_roles = roles\<rparr>))"

definition active_lds_bytes :: "stage1_plan \<Rightarrow> int" where
  "active_lds_bytes p = s1_buffer_count p * s1_slot_bytes p"

definition slot_for_epoch :: "stage1_plan \<Rightarrow> pyval \<Rightarrow> int result" where
  "slot_for_epoch p epoch = rbind (req_nonneg epoch) (\<lambda>e. Inr (e mod s1_buffer_count p))"

definition slot_window :: "stage1_plan \<Rightarrow> pyval \<Rightarrow> (int \<times> int) result" where
  "slot_window p slot =
     (if \<not> is_int slot \<or> is_bool slot \<or> \<not> (0 \<le> as_int slot \<and> as_int slot < s1_buffer_count p) then Inl ValueError
      else Inr (as_int slot * s1_slot_bytes p, (as_int slot + 1) * s1_slot_bytes p))"

definition storage_policy_from_stage1 :: "stage1_plan \<Rightarrow> storage_policy result" where
  "storage_policy_from_stage1 p = mk_storage_policy ''lds'' (s1_buffer_count p) (s1_slot_bytes p) (s1_roles p)"

datatype candidate_pipeline = Stage1Plan stage1_plan | TypedPolicy pipeline_policy | Untyped

definition pipeline_policy_from_candidate :: "candidate_pipeline \<Rightarrow> pipeline_policy result" where
  "pipeline_policy_from_candidate c = (case c of
       Stage1Plan p \<Rightarrow> rbind (storage_policy_from_stage1 p) (\<lambda>s.
         lds_policy (sp_buffer_count s) (sp_slot_bytes s) None None (PInt (s1_stage_count p)))
     | TypedPolicy p \<Rightarrow> Inr p
     | Untyped \<Rightarrow> Inl ValueError)"

section \<open>Scheduler tile loop\<close>

definition pinned_wmma_vgpr_budget :: int where
  "pinned_wmma_vgpr_budget = 192"

definition validate_scheduler_tile_loop_pressure :: "pyval \<Rightarrow> pyval \<Rightarrow> pyval \<Rightarrow> pyval \<Rightarrow> unit result" where
  "validate_scheduler_tile_loop_pressure accumulator fragment reserve budget =
     rbind (req_nonneg accumulator) (\<lambda>a. rbind (req_nonneg fragment) (\<lambda>f. rbind (req_nonneg reserve) (\<lambda>t.
     rbind (req_nonneg budget) (\<lambda>b.
       if b \<noteq> pinned_wmma_vgpr_budget then Inl ValueError
       else (let required = a + f + t in
         if required > b \<or> (t \<noteq> 0 \<and> required = b) then Inl ValueError else Inr ())))))"

definition resource_plan_for_scheduler_tile_loop :: "pyval \<Rightarrow> pyval \<Rightarrow> pyval \<Rightarrow> resource_plan result" where
  "resource_plan_for_scheduler_tile_loop accumulator fragment reserve =
     rbind (validate_scheduler_tile_loop_pressure accumulator fragment reserve (PInt pinned_wmma_vgpr_budget)) (\<lambda>_.
       mk_resource_plan ''pinned_budget'' 0 0 (Some (as_int accumulator + as_int fragment)) None)"

record output_tile_loop =
  ot_tile_count :: int
  ot_loop_id :: int
  ot_accumulator_vgprs :: pyval
  ot_fragment_vgprs :: pyval

definition mk_output_tile_loop :: "pyval \<Rightarrow> pyval \<Rightarrow> pyval \<Rightarrow> pyval \<Rightarrow> output_tile_loop result" where
  "mk_output_tile_loop tile_count loop_id accumulator fragment =
     rbind (req_pos tile_count) (\<lambda>n. rbind (req_nonneg loop_id) (\<lambda>i.
     rbind (validate_scheduler_tile_loop_pressure accumulator fragment (PInt 0) (PInt pinned_wmma_vgpr_budget)) (\<lambda>_.
       Inr \<lparr>ot_tile_count = n, ot_loop_id = i, ot_accumulator_vgprs = accumulator, ot_fragment_vgprs = fragment\<rparr>)))"

definition output_loop_resource_plan :: "output_tile_loop \<Rightarrow> resource_plan result" where
  "output_loop_resource_plan l =
     resource_plan_for_scheduler_tile_loop (ot_accumulator_vgprs l) (ot_fragment_vgprs l) (PInt 0)"

section \<open>Hierarchical lifecycle\<close>

record pipeline_role =
  pr_name :: string
  pr_lifetime :: string

definition mk_pipeline_role :: "string \<Rightarrow> string \<Rightarrow> pipeline_role result" where
  "mk_pipeline_role name lifetime =
     (if name = [] then Inl ValueError
      else if lifetime \<notin> set [''outer_epoch'', ''inner_phase''] then Inl ValueError
      else Inr \<lparr>pr_name = name, pr_lifetime = lifetime\<rparr>)"

record hierarchical_plan =
  hp_persistent :: pipeline_role
  hp_overwriteable :: pipeline_role
  hp_phase_count :: int

definition mk_hierarchical_plan :: "pipeline_role \<Rightarrow> pipeline_role \<Rightarrow> pyval \<Rightarrow> hierarchical_plan result" where
  "mk_hierarchical_plan persistent overwriteable phase_count =
     (if pr_lifetime persistent \<noteq> ''outer_epoch'' then Inl ValueError
      else if pr_lifetime overwriteable \<noteq> ''inner_phase'' then Inl ValueError
      else if pr_name persistent = pr_name overwriteable then Inl ValueError
      else rbind (req_pos phase_count) (\<lambda>n.
        Inr \<lparr>hp_persistent = persistent, hp_overwriteable = overwriteable, hp_phase_count = n\<rparr>))"

datatype lifecycle_op = Produce | Publish | Consume | Release

datatype lifecycle_event = Event (ev_op: lifecycle_op) (ev_role: string) (ev_phase: "int option")

definition phase_events :: "hierarchical_plan \<Rightarrow> int \<Rightarrow> lifecycle_event list" where
  "phase_events plan phase =
     (let p = pr_name (hp_persistent plan); o' = pr_name (hp_overwriteable plan) in
      [Event Produce o' (Some phase), Event Publish o' (Some phase), Event Consume p (Some phase),
       Event Consume o' (Some phase), Event Release o' (Some phase)])"

definition hierarchical_lifecycle_events :: "hierarchical_plan \<Rightarrow> lifecycle_event list" where
  "hierarchical_lifecycle_events plan =
     [Event Produce (pr_name (hp_persistent plan)) None]
     @ concat (map (phase_events plan) [0..hp_phase_count plan - 1])
     @ [Event Release (pr_name (hp_persistent plan)) None]"

end
