(* ===== verification/PipelineSpec.thy ===== *)
theory PipelineSpec
  imports Pipeline
begin

text \<open>
  Properties of the pipeline policies: the wait-coverage proof decides exactly what it claims, the wait
  immediate decodes to its fields, per-wave slices are disjoint, buffer slots tile the LDS window, and the
  hierarchical lifecycle is accepted by a monitor of the storage it describes.
\<close>

unbundle bit_operations_syntax

section \<open>Wait coverage\<close>

definition edge_opt :: "pyval \<Rightarrow> edge option" where
  "edge_opt item = (case item of PTuple xs \<Rightarrow> edge_parts xs | _ \<Rightarrow> None)"

definition targeted :: "wait_dependency \<Rightarrow> bool" where
  "targeted d \<longleftrightarrow> wp_kind (wd_policy d) = ''targeted_vmcnt''"

definition dep_edges :: "wait_dependency \<Rightarrow> edge list" where
  "dep_edges d = (case (wd_producer_stage d, wd_consumer_stage d) of
      (Some p, Some c) \<Rightarrow> if targeted d then [(wd_load_group d, p, c)] else [] | _ \<Rightarrow> [])"

text \<open>What one dependency has to satisfy.\<close>

definition dep_ok :: "pipeline_policy \<Rightarrow> wait_dependency \<Rightarrow> bool" where
  "dep_ok policy d \<longleftrightarrow> wd_policy d = pp_wait policy
     \<and> (\<forall>s. wd_scope d = Some s \<longrightarrow> s = (if targeted d then ''per_stage'' else ''workgroup''))
     \<and> (if targeted d then (\<exists>p c. wd_producer_stage d = Some p \<and> wd_consumer_stage d = Some c
            \<and> p < logical_stage_count policy \<and> c < logical_stage_count policy)
        else wd_producer_stage d = None \<and> wd_consumer_stage d = None)"

lemma required_fold:
  "distinct ks \<Longrightarrow> (snd (fold required_step xs (ks, es)) = [] \<longleftrightarrow>
      es = [] \<and> (\<forall>x \<in> set xs. edge_opt x \<noteq> None) \<and> distinct (ks @ map (the \<circ> edge_opt) xs))
    \<and> (snd (fold required_step xs (ks, es)) = [] \<longrightarrow> fst (fold required_step xs (ks, es)) = ks @ map (the \<circ> edge_opt) xs)"
proof (induction xs arbitrary: ks es)
  case Nil
  then show ?case by auto
next
  case (Cons x xs)
  have step: "required_step x (ks, es) = (case edge_opt x of None \<Rightarrow> (ks, es @ [''invalid required wait edge '' @ py_repr x])
     | Some e \<Rightarrow> if e \<in> set ks then (ks, es @ [''duplicate required wait edge '' @ py_repr x]) else (ks @ [e], es))"
    unfolding required_step_def edge_opt_def fst_conv snd_conv ..
  show ?case
  proof (cases "edge_opt x")
    case None
    with Cons.IH [OF Cons.prems, of "es @ [''invalid required wait edge '' @ py_repr x]"] show ?thesis
      by (simp add: step)
  next
    case (Some e)
    show ?thesis
    proof (cases "e \<in> set ks")
      case True
      with Some Cons.IH [OF Cons.prems, of "es @ [''duplicate required wait edge '' @ py_repr x]"] show ?thesis
        by (simp add: step)
    next
      case False
      with Cons.prems have "distinct (ks @ [e])" by simp
      note ih = Cons.IH [OF this, of es]
      have fs: "fold required_step (x # xs) (ks, es) = fold required_step xs (ks @ [e], es)"
        using Some False by (simp add: step)
      show ?thesis unfolding fs using ih Some False by (cases "es = []") (simp_all del: not_None_eq)
    qed
  qed
qed

text \<open>One step adds errors exactly when the dependency is bad or repeats an edge.\<close>

lemma dependency_step_cases:
  "\<exists>new. snd (dependency_step policy nd (ks, es)) = es @ new
     \<and> (new = [] \<longleftrightarrow> dep_ok policy (snd nd) \<and> (\<forall>e \<in> set (dep_edges (snd nd)). e \<notin> set ks))
     \<and> (new = [] \<longrightarrow> fst (dependency_step policy nd (ks, es)) = ks @ dep_edges (snd nd))"
proof -
  obtain i d where nd: "nd = (i, d)" by (cases nd)
  show ?thesis
  proof (cases "targeted d")
    case True
    then show ?thesis
      by (cases "wd_producer_stage d"; cases "wd_consumer_stage d"; cases "wd_scope d")
        (auto simp: nd dependency_step_def Let_def dep_ok_def dep_edges_def targeted_def not_le)
  next
    case False
    then show ?thesis
      by (cases "wd_producer_stage d"; cases "wd_consumer_stage d"; cases "wd_scope d")
        (auto simp: nd dependency_step_def Let_def dep_ok_def dep_edges_def targeted_def)
  qed
qed

lemma dependency_errors_grow:
  "\<exists>new. snd (fold (dependency_step policy) nds st) = snd st @ new"
proof (induction nds arbitrary: st)
  case Nil
  then show ?case by simp
next
  case (Cons nd nds)
  obtain ks es where st: "st = (ks, es)" by (cases st)
  obtain a where "snd (dependency_step policy nd (ks, es)) = es @ a" using dependency_step_cases by blast
  with Cons.IH [of "dependency_step policy nd (ks, es)"] st show ?case by auto
qed

lemma dependency_fold:
  "distinct ks \<Longrightarrow> (snd (fold (dependency_step policy) nds (ks, es)) = [] \<longleftrightarrow>
      es = [] \<and> (\<forall>nd \<in> set nds. dep_ok policy (snd nd)) \<and> distinct (ks @ concat (map (dep_edges \<circ> snd) nds)))
    \<and> (snd (fold (dependency_step policy) nds (ks, es)) = [] \<longrightarrow>
         fst (fold (dependency_step policy) nds (ks, es)) = ks @ concat (map (dep_edges \<circ> snd) nds))"
proof (induction nds arbitrary: ks es)
  case Nil
  then show ?case by auto
next
  case (Cons nd nds)
  obtain new where new: "snd (dependency_step policy nd (ks, es)) = es @ new"
    "new = [] \<longleftrightarrow> dep_ok policy (snd nd) \<and> (\<forall>e \<in> set (dep_edges (snd nd)). e \<notin> set ks)"
    "new = [] \<longrightarrow> fst (dependency_step policy nd (ks, es)) = ks @ dep_edges (snd nd)"
    using dependency_step_cases by blast
  have de: "distinct (dep_edges (snd nd))" by (simp add: dep_edges_def split: option.splits)
  show ?case
  proof (cases "new = []")
    case True
    then have step: "dependency_step policy nd (ks, es) = (ks @ dep_edges (snd nd), es)"
      using new(1,3) by (metis append_Nil2 prod.collapse)
    have "distinct (ks @ dep_edges (snd nd))" using True new(2) Cons.prems de by auto
    note ih = Cons.IH [OF this, of es]
    have fs: "fold (dependency_step policy) (nd # nds) (ks, es) = fold (dependency_step policy) nds (ks @ dep_edges (snd nd), es)"
      using step by simp
    show ?thesis unfolding fs using ih True new(2) by (cases "es = []") simp_all
  next
    case False
    obtain more where "snd (fold (dependency_step policy) nds (dependency_step policy nd (ks, es))) = (es @ new) @ more"
      using dependency_errors_grow [of policy nds "dependency_step policy nd (ks, es)"] new(1) by auto
    then have "snd (fold (dependency_step policy) (nd # nds) (ks, es)) \<noteq> []" using False by simp
    moreover have "\<not> (dep_ok policy (snd nd) \<and> set ks \<inter> set (dep_edges (snd nd)) = {})" using False new(2) by blast
    ultimately show ?thesis by auto
  qed
qed

lemma concat_enumerate: "concat (map (dep_edges \<circ> snd) (enumerate n deps)) = concat (map dep_edges deps)"
  by (induction deps arbitrary: n) simp_all

lemma ball_enumerate: "(\<forall>nd \<in> set (enumerate n xs). P (snd nd)) \<longleftrightarrow> (\<forall>x \<in> set xs. P x)"
proof -
  have "snd ` set (enumerate n xs) = set xs" by (metis list.set_map map_snd_enumerate)
  then show ?thesis by (metis image_iff)
qed

lemma coverage_passed:
  "wc_passed (prove_wait_dependency_coverage policy deps required) \<longleftrightarrow>
     (\<forall>r \<in> set required. edge_opt r \<noteq> None) \<and> distinct (map (the \<circ> edge_opt) required)
     \<and> (\<forall>d \<in> set deps. dep_ok policy d) \<and> distinct (concat (map dep_edges deps))
     \<and> (\<forall>r \<in> set required. the (edge_opt r) \<in> set (concat (map dep_edges deps)))"
proof -
  let ?r = "fold required_step required ([], [])"
  let ?d = "fold (dependency_step policy) (enumerate 0 deps) ([], snd ?r)"
  have "wc_passed (prove_wait_dependency_coverage policy deps required) \<longleftrightarrow>
      snd ?d = [] \<and> filter (\<lambda>e. e \<notin> set (fst ?d)) (fst ?r) = []"
    by (simp add: prove_wait_dependency_coverage_def Let_def split_beta flip: set_empty)
  moreover have r: "snd ?r = [] \<longleftrightarrow> (\<forall>x \<in> set required. edge_opt x \<noteq> None) \<and> distinct (map (the \<circ> edge_opt) required)"
    "snd ?r = [] \<Longrightarrow> fst ?r = map (the \<circ> edge_opt) required"
    using required_fold [of "[]" required "[]"] by auto
  moreover have d: "snd ?d = [] \<longleftrightarrow> snd ?r = [] \<and> (\<forall>d \<in> set deps. dep_ok policy d) \<and> distinct (concat (map dep_edges deps))"
    "snd ?d = [] \<Longrightarrow> fst ?d = concat (map dep_edges deps)"
    using dependency_fold [of "[]" policy "enumerate 0 deps" "snd ?r"]
    unfolding ball_enumerate concat_enumerate by auto
  ultimately show ?thesis by (auto simp: filter_empty_conv)
qed

section \<open>The lifecycle monitor\<close>

text \<open>The storage that the lifecycle drives: whether the persistent operand is resident, and the state of the slot that is
  overwritten every phase.  A step is refused (\<open>None\<close>) when it would overwrite or consume the wrong contents.\<close>

datatype slot_state = Idle | Filled int | Visible int

datatype storage_state = Storage (st_live: bool) (st_slot: slot_state) (st_eaten: "(string \<times> int) list")

fun monitor_step :: "string \<Rightarrow> string \<Rightarrow> storage_state \<Rightarrow> lifecycle_event \<Rightarrow> storage_state option" where
  "monitor_step p q (Storage live slot eaten) (Event Produce r None) =
     (if r = p \<and> \<not> live \<and> slot = Idle then Some (Storage True slot eaten) else None)"
| "monitor_step p q (Storage live slot eaten) (Event Produce r (Some k)) =
     (if r = q \<and> live \<and> slot = Idle then Some (Storage live (Filled k) eaten) else None)"
| "monitor_step p q (Storage live slot eaten) (Event Publish r (Some k)) =
     (if r = q \<and> slot = Filled k then Some (Storage live (Visible k) eaten) else None)"
| "monitor_step p q (Storage live slot eaten) (Event Consume r (Some k)) =
     (if live \<and> slot = Visible k \<and> (r = p \<or> r = q) \<and> (r, k) \<notin> set eaten then Some (Storage live slot (eaten @ [(r, k)])) else None)"
| "monitor_step p q (Storage live slot eaten) (Event Release r (Some k)) =
     (if r = q \<and> slot = Visible k \<and> (p, k) \<in> set eaten \<and> (q, k) \<in> set eaten then Some (Storage live Idle eaten) else None)"
| "monitor_step p q (Storage live slot eaten) (Event Release r None) =
     (if r = p \<and> live \<and> slot = Idle then Some (Storage False slot eaten) else None)"
| "monitor_step p q s (Event Publish r None) = None"
| "monitor_step p q s (Event Consume r None) = None"

fun monitor_run :: "string \<Rightarrow> string \<Rightarrow> storage_state \<Rightarrow> lifecycle_event list \<Rightarrow> storage_state option" where
  "monitor_run p q s [] = Some s"
| "monitor_run p q s (e # es) = (case monitor_step p q s e of None \<Rightarrow> None | Some t \<Rightarrow> monitor_run p q t es)"

lemma monitor_run_append:
  "monitor_run p q s (xs @ ys) = (case monitor_run p q s xs of None \<Rightarrow> None | Some t \<Rightarrow> monitor_run p q t ys)"
  by (induction xs arbitrary: s) (auto split: option.splits)

definition both_eaten :: "string \<Rightarrow> string \<Rightarrow> int list \<Rightarrow> (string \<times> int) list" where
  "both_eaten p q ks = concat (map (\<lambda>k. [(p, k), (q, k)]) ks)"

lemma set_both_eaten: "set (both_eaten p q ks) = {p, q} \<times> set ks"
  by (auto simp: both_eaten_def)

lemma monitor_phases:
  assumes "pr_name (hp_persistent plan) = p" "pr_name (hp_overwriteable plan) = q" "p \<noteq> q"
  shows "distinct (done @ ks) \<Longrightarrow>
    monitor_run p q (Storage True Idle (both_eaten p q done)) (concat (map (phase_events plan) ks))
      = Some (Storage True Idle (both_eaten p q (done @ ks)))"
proof (induction ks arbitrary: "done")
  case Nil
  then show ?case by simp
next
  case (Cons k ks)
  have k: "(p, k) \<notin> set (both_eaten p q done)" "(q, k) \<notin> set (both_eaten p q done)"
    using Cons.prems by (auto simp: set_both_eaten)
  have "monitor_run p q (Storage True Idle (both_eaten p q done)) (phase_events plan k)
      = Some (Storage True Idle (both_eaten p q (done @ [k])))"
    using k assms by (simp add: phase_events_def both_eaten_def)
  then show ?case using Cons.IH [of "done @ [k]"] Cons.prems by (simp add: monitor_run_append)
qed

section \<open>Slices\<close>

lemma sorted_slices_disjoint:
  fixes s :: "(int \<times> int) list"
  assumes "sorted s" "\<forall>x \<in> set s. fst x < snd x" "\<not> list_ex (\<lambda>p. snd (fst p) > fst (snd p)) (zip s (tl s))"
    and "i < j" "j < length s"
  shows "snd (s ! i) \<le> fst (s ! j)"
proof -
  have "snd (s ! i) \<le> fst (s ! Suc i)"
  proof -
    have "(s ! i, s ! Suc i) \<in> set (zip s (tl s))"
      using assms(4,5) by (auto simp: set_zip nth_tl intro!: exI [of _ i])
    then show ?thesis using assms(3) by (auto simp: list_ex_iff)
  qed
  also have "fst (s ! Suc i) \<le> fst (s ! j)"
  proof -
    have "s ! Suc i \<le> s ! j" using assms(1,4,5) by (intro sorted_nth_mono) auto
    then show ?thesis by (auto simp: less_eq_prod_def)
  qed
  finally show ?thesis .
qed

section \<open>Wait immediates\<close>

lemma simm16_fields:
  assumes "0 \<le> v" "v \<le> 63" "0 \<le> l" "l \<le> 63" "0 \<le> e" "e \<le> (7::int)"
  shows "(push_bit 10 v OR push_bit 4 l) OR e = v * 1024 + l * 16 + e"
proof -
  have e: "e = take_bit 4 e" using assms by (simp add: take_bit_eq_mod)
  have l: "push_bit 4 l = push_bit 4 (take_bit 6 l)" using assms by (simp add: take_bit_eq_mod)
  have 1: "push_bit 4 l OR e = push_bit 4 l + e"
    by (rule disjunctive_add [symmetric]) (subst e, auto simp: bit_simps)
  have "push_bit 10 v OR (push_bit 4 l OR e) = push_bit 10 v + (push_bit 4 l OR e)"
    by (rule disjunctive_add [symmetric]) (subst l, subst e, auto simp: bit_simps)
  then show ?thesis unfolding or.assoc 1 by (simp add: push_bit_eq_mult)
qed

section \<open>Properties\<close>

text \<open>Property C19. A wait-coverage proof passes exactly when the required edges are well formed and distinct, every dependency
  uses the pipeline's wait policy with the matching scope, targeted waits name two stages in range and no edge twice,
  full barriers name none, and every required edge is the edge of some dependency.\<close>

theorem wait_coverage_exact:
  "wc_passed (prove_wait_dependency_coverage policy deps required) \<longleftrightarrow>
     (\<forall>r \<in> set required. edge_opt r \<noteq> None) \<and> distinct (map (the \<circ> edge_opt) required)
     \<and> (\<forall>d \<in> set deps. wd_policy d = pp_wait policy
          \<and> (\<forall>s. wd_scope d = Some s \<longrightarrow> s = (if targeted d then ''per_stage'' else ''workgroup''))
          \<and> (if targeted d then (\<exists>p c. wd_producer_stage d = Some p \<and> wd_consumer_stage d = Some c
                \<and> p < logical_stage_count policy \<and> c < logical_stage_count policy)
             else wd_producer_stage d = None \<and> wd_consumer_stage d = None))
     \<and> distinct (concat (map dep_edges deps))
     \<and> (\<forall>r \<in> set required. the (edge_opt r) \<in> set (concat (map dep_edges deps)))"
  unfolding coverage_passed dep_ok_def by blast

definition sample_pipe :: register_pipe_plan where
  "sample_pipe = \<lparr>rp_stages = 2, rp_global_load_bytes = 16,
     rp_storage = \<lparr>sp_kind = ''global_register_resident'', sp_buffer_count = 1, sp_slot_bytes = 0, sp_roles = [''A'', ''B'']\<rparr>,
     rp_wait = \<lparr>wp_kind = ''targeted_vmcnt'', wp_scope = ''per_stage''\<rparr>,
     rp_resources = \<lparr>rs_stage = ''host_estimate'', rs_lds_bytes = 0, rs_scratch_bytes = 0, rs_vgpr = None, rs_sgpr = None\<rparr>\<rparr>"

definition sample_pipe_policy :: pipeline_policy where
  "sample_pipe_policy = \<lparr>pp_storage = rp_storage sample_pipe, pp_wait = rp_wait sample_pipe,
     pp_resources = rp_resources sample_pipe, pp_stages = 2\<rparr>"

definition sample_dep :: "string \<Rightarrow> int \<Rightarrow> wait_dependency" where
  "sample_dep role c = \<lparr>wd_policy = rp_wait sample_pipe, wd_producer = ''l'', wd_consumer = ''g'', wd_load_group = role,
     wd_producer_stage = Some 0, wd_consumer_stage = Some c, wd_scope = Some ''per_stage''\<rparr>"

lemma wait_coverage_exact_witness:
  "wc_passed (prove_wait_dependency_coverage sample_pipe_policy [sample_dep ''A'' 1, sample_dep ''B'' 1]
      [PTuple [PStr ''B'', PInt 0, PInt 1]])
   \<and> \<not> wc_passed (prove_wait_dependency_coverage sample_pipe_policy [sample_dep ''A'' 1] [PTuple [PStr ''B'', PInt 0, PInt 1]])
   \<and> \<not> wc_passed (prove_wait_dependency_coverage sample_pipe_policy [sample_dep ''A'' 2] [])"
  by (simp add: wait_coverage_exact sample_dep_def sample_pipe_policy_def sample_pipe_def targeted_def dep_edges_def
      edge_opt_def edge_parts_def stage_of_def logical_stage_count_def)

text \<open>A valid register pipe without LDS always has complete wait coverage: its two load groups, and exactly those, are
  covered from stage 0 to stage 1.\<close>

lemma register_pipe_covered:
  assumes "mk_register_pipe_plan stages bytes storage wait resources = Inr p" and "rs_lds_bytes resources = 0"
  shows "\<exists>c. register_pipe_coverage p = Inr c \<and> wc_passed c \<and> wc_covered c = [(''A'', 0, 1), (''B'', 0, 1)]"
proof -
  have p: "p = \<lparr>rp_stages = 2, rp_global_load_bytes = 16, rp_storage = storage, rp_wait = wait, rp_resources = resources\<rparr>"
    and st: "sp_kind storage = ''global_register_resident''" "sp_slot_bytes storage = 0"
    and wt: "wp_kind wait = ''targeted_vmcnt''"
    using assms(1) by (auto simp: mk_register_pipe_plan_def split: if_splits)
  define policy where "policy = \<lparr>pp_storage = storage, pp_wait = wait, pp_resources = resources, pp_stages = 2\<rparr>"
  have pol: "register_pipe_policy p = Inr policy"
    using st assms(2) by (simp add: register_pipe_policy_def mk_pipeline_policy_def p policy_def req_pos_def)
  define dep where "dep role = \<lparr>wd_policy = wait, wd_producer = ''global_load_'' @ role, wd_consumer = ''gemm_consumer'',
    wd_load_group = role, wd_producer_stage = Some 0, wd_consumer_stage = Some 1, wd_scope = Some ''per_stage''\<rparr>" for role
  have deps: "rmap (\<lambda>role. mk_wait_dependency (rp_wait p) (''global_load_'' @ role) ''gemm_consumer'' role (PInt 0) (PInt 1)
              (Some ''per_stage'')) [''A'', ''B''] = Inr [dep ''A'', dep ''B'']"
    by (simp add: mk_wait_dependency_def opt_nonneg_def p dep_def)
  have A: "dependency_step policy (0, dep ''A'') ([], []) = ([(''A'', 0, 1)], [])"
    and B: "dependency_step policy (Suc 0, dep ''B'') ([(''A'', 0, 1)], []) = ([(''A'', 0, 1), (''B'', 0, 1)], [])"
    using wt by (simp_all add: dependency_step_def dep_def policy_def logical_stage_count_def Let_def)
  have R: "fold required_step [PTuple [PStr ''A'', PInt 0, PInt 1], PTuple [PStr ''B'', PInt 0, PInt 1]] ([], [])
      = ([(''A'', 0, 1), (''B'', 0, 1)], [])"
    by (simp add: required_step_def edge_parts_def stage_of_def)
  have S: "sort [(''A'', 0, 1 :: int), (''B'', 0 :: int, 1)] = [(''A'', 0, 1), (''B'', 0, 1)]" by code_simp
  have "prove_wait_dependency_coverage policy [dep ''A'', dep ''B'']
         [PTuple [PStr ''A'', PInt 0, PInt 1], PTuple [PStr ''B'', PInt 0, PInt 1]]
      = \<lparr>wc_passed = True, wc_errors = [], wc_covered = [(''A'', 0, 1), (''B'', 0, 1)]\<rparr>"
    unfolding prove_wait_dependency_coverage_def R prod.case
    by (simp add: A B S Let_def)
  then show ?thesis unfolding register_pipe_coverage_def deps pol rbind_Inr by simp
qed

lemma register_pipe_covered_witness:
  "\<exists>c. register_pipe_coverage sample_pipe = Inr c \<and> wc_passed c"
proof -
  have "mk_register_pipe_plan 2 16 (rp_storage sample_pipe) (rp_wait sample_pipe) (rp_resources sample_pipe) = Inr sample_pipe"
    by code_simp
  from register_pipe_covered [OF this] show ?thesis by (auto simp: sample_pipe_def)
qed

text \<open>Property C20. The wait immediate fits sixteen bits and decodes to its three counters.\<close>

theorem wait_immediate_decodes:
  assumes "mk_wait_count v l e = Inr w"
  shows "0 \<le> simm16 w \<and> simm16 w < 2 ^ 16 \<and> simm16 w div 2 ^ 10 = as_int v
    \<and> simm16 w div 2 ^ 4 mod 2 ^ 6 = as_int l \<and> simm16 w mod 2 ^ 4 = as_int e"
proof -
  have b: "0 \<le> as_int v" "as_int v \<le> 63" "0 \<le> as_int l" "as_int l \<le> 63" "0 \<le> as_int e" "as_int e \<le> 7"
    and w: "w = \<lparr>wn_vmcnt = as_int v, wn_lgkmcnt = as_int l, wn_expcnt = as_int e\<rparr>"
    using assms by (auto simp: mk_wait_count_def rbind_eq_Inr counter_def split: if_splits)
  have s: "simm16 w = as_int v * 1024 + as_int l * 16 + as_int e"
    unfolding simm16_def w using simm16_fields [OF b] by simp
  have "simm16 w div 1024 = as_int v" "simm16 w div 16 = as_int v * 64 + as_int l"
    using s b by (auto intro: int_div_pos_eq)
  moreover have "simm16 w mod 16 = as_int e"
    by (rule int_mod_pos_eq [where q = "as_int v * 64 + as_int l"]) (use s b in auto)
  moreover have "(as_int v * 64 + as_int l) mod 64 = as_int l" using b by simp
  ultimately show ?thesis using s b by simp
qed

lemma wait_immediate_decodes_witness:
  "\<exists>w. mk_wait_count (PInt 63) (PInt 0) (PInt 7) = Inr w \<and> simm16 w div 2 ^ 10 = 63 \<and> simm16 w mod 2 ^ 4 = 7"
proof -
  have "rok (mk_wait_count (PInt 63) (PInt 0) (PInt 7))" by code_simp
  then obtain w where w: "mk_wait_count (PInt 63) (PInt 0) (PInt 7) = Inr w" by (auto simp: rok_iff)
  show ?thesis using wait_immediate_decodes [OF w] w by simp
qed

text \<open>Property C21. An accepted wave fence owns one non-empty LDS slice per wave, and the slices are pairwise disjoint.\<close>

theorem wave_slices_disjoint:
  assumes "mk_wave_lds_fence vm lg ex target wave_size workgroup_size scope slices = Inr f"
  shows "int (length (wf_slices f)) * 32 = workgroup_size
    \<and> (\<forall>x \<in> set (wf_slices f). 0 \<le> fst x \<and> fst x < snd x)
    \<and> (\<forall>i j. i < j \<and> j < length (wf_slices f) \<longrightarrow>
         snd (wf_slices f ! i) \<le> fst (wf_slices f ! j) \<or> snd (wf_slices f ! j) \<le> fst (wf_slices f ! i))"
proof -
  obtain ss where ss: "rmap slice_of slices = Inr ss" "wf_slices f = ss"
    and n: "int (length slices) = workgroup_size div wave_size" "wave_size = 32" "workgroup_size mod wave_size = 0"
    and ok: "\<not> list_ex (\<lambda>p. snd (fst p) > fst (snd p)) (zip (sort ss) (tl (sort ss)))"
    using assms by (auto simp: mk_wave_lds_fence_def rbind_eq_Inr Let_def split: if_splits)
  have pos: "\<forall>x \<in> set ss. 0 \<le> fst x \<and> fst x < snd x"
  proof
    fix x assume "x \<in> set ss"
    then obtain i where "i < length slices" "slice_of (slices ! i) = Inr x"
      using ss(1) by (auto simp: rmap_eq_Inr_iff in_set_conv_nth)
    then show "0 \<le> fst x \<and> fst x < snd x"
      by (auto simp: slice_of_def split: pyval.splits list.splits if_splits)
  qed
  have ord: "snd (sort ss ! i) \<le> fst (sort ss ! j)" if "i < j" "j < length (sort ss)" for i j
    by (rule sorted_slices_disjoint [OF sorted_sort _ ok that]) (simp add: pos)
  have dis: "snd x \<le> fst y \<or> snd y \<le> fst x" if xy: "x \<in> set ss" "y \<in> set ss" "x \<noteq> y" for x y
  proof -
    obtain i where i: "i < length (sort ss)" "sort ss ! i = x" using xy(1) by (metis in_set_conv_nth set_sort)
    obtain j where j: "j < length (sort ss)" "sort ss ! j = y" using xy(2) by (metis in_set_conv_nth set_sort)
    have "i \<noteq> j" using i j xy(3) by blast
    then show ?thesis using ord [of i j] ord [of j i] i j by (metis linorder_neqE_nat)
  qed
  have "sort ss ! i \<noteq> sort ss ! j" if "i < j" "j < length (sort ss)" for i j
  proof
    assume eq: "sort ss ! i = sort ss ! j"
    have "sort ss ! j \<in> set ss" using that(2) by (metis nth_mem set_sort)
    then have "fst (sort ss ! j) < snd (sort ss ! j)" using pos by blast
    then show False using ord [OF that] eq by simp
  qed
  then have "distinct (sort ss)" by (metis distinct_conv_nth linorder_neqE_nat)
  then have dss: "distinct ss" by simp
  have same: "snd (ss ! i) \<le> fst (ss ! j) \<or> snd (ss ! j) \<le> fst (ss ! i)" if "i < j" "j < length ss" for i j
  proof (rule dis)
    show "ss ! i \<noteq> ss ! j" using dss that by (simp add: nth_eq_iff_index_eq)
  qed (use that in simp_all)
  have "length ss = length slices" using ss(1) by (simp add: rmap_eq_Inr_iff)
  then show ?thesis using ss(2) n pos same by auto
qed

lemma wave_slices_disjoint_witness:
  "\<exists>f. mk_wave_lds_fence (PInt 63) (PInt 0) (PInt 7) ''gfx1100'' 32 64 ''wave''
        [PTuple [PInt 512, PInt 512], PTuple [PInt 0, PInt 512]] = Inr f \<and> int (length (wf_slices f)) * 32 = 64"
proof -
  have "rok (mk_wave_lds_fence (PInt 63) (PInt 0) (PInt 7) ''gfx1100'' 32 64 ''wave''
        [PTuple [PInt 512, PInt 512], PTuple [PInt 0, PInt 512]])" by code_simp
  then obtain f where f: "mk_wave_lds_fence (PInt 63) (PInt 0) (PInt 7) ''gfx1100'' 32 64 ''wave''
        [PTuple [PInt 512, PInt 512], PTuple [PInt 0, PInt 512]] = Inr f" by (auto simp: rok_iff)
  show ?thesis using wave_slices_disjoint [OF f] f by blast
qed

text \<open>Property C22. The events of a valid hierarchical plan never overwrite or consume the wrong contents: they run through the
  storage monitor to the end, leave the storage empty, and both operands are consumed once in every phase.\<close>

theorem hierarchical_lifecycle_safe:
  assumes "mk_hierarchical_plan persistent overwriteable phase_count = Inr plan"
  shows "monitor_run (pr_name persistent) (pr_name overwriteable) (Storage False Idle []) (hierarchical_lifecycle_events plan)
    = Some (Storage False Idle (both_eaten (pr_name persistent) (pr_name overwriteable) [0..as_int phase_count - 1]))"
proof -
  have plan: "pr_name (hp_persistent plan) = pr_name persistent" "pr_name (hp_overwriteable plan) = pr_name overwriteable"
      "hp_phase_count plan = as_int phase_count" and ne: "pr_name persistent \<noteq> pr_name overwriteable"
    using assms by (auto simp: mk_hierarchical_plan_def rbind_eq_Inr req_pos_def split: if_splits)
  have "distinct ([] @ [0..as_int phase_count - 1])" by simp
  from monitor_phases [OF plan(1,2) ne this]
  have "monitor_run (pr_name persistent) (pr_name overwriteable) (Storage True Idle [])
      (concat (map (phase_events plan) [0..as_int phase_count - 1]))
    = Some (Storage True Idle (both_eaten (pr_name persistent) (pr_name overwriteable) [0..as_int phase_count - 1]))"
    by (simp add: both_eaten_def)
  then show ?thesis by (simp add: hierarchical_lifecycle_events_def plan monitor_run_append)
qed

lemma hierarchical_lifecycle_safe_witness:
  "\<exists>plan. mk_hierarchical_plan \<lparr>pr_name = ''B'', pr_lifetime = ''outer_epoch''\<rparr> \<lparr>pr_name = ''A'', pr_lifetime = ''inner_phase''\<rparr>
        (PInt 2) = Inr plan
     \<and> monitor_run ''B'' ''A'' (Storage False Idle []) (hierarchical_lifecycle_events plan)
         = Some (Storage False Idle [(''B'', 0), (''A'', 0), (''B'', 1), (''A'', 1)])"
proof -
  have "rok (mk_hierarchical_plan \<lparr>pr_name = ''B'', pr_lifetime = ''outer_epoch''\<rparr>
        \<lparr>pr_name = ''A'', pr_lifetime = ''inner_phase''\<rparr> (PInt 2))" by code_simp
  then obtain plan where p: "mk_hierarchical_plan \<lparr>pr_name = ''B'', pr_lifetime = ''outer_epoch''\<rparr>
        \<lparr>pr_name = ''A'', pr_lifetime = ''inner_phase''\<rparr> (PInt 2) = Inr plan" by (auto simp: rok_iff)
  show ?thesis using hierarchical_lifecycle_safe [OF p] p by (simp add: both_eaten_def upto.simps)
qed

text \<open>The slot windows of a stage-1 plan are consecutive and tile the active LDS bytes; with two buffers consecutive
  epochs use disjoint windows.\<close>

theorem stage1_windows_tile:
  assumes "mk_stage1_plan buffer_count slot_bytes stage_count roles = Inr p" and "0 \<le> e"
  shows "\<exists>s t lo hi. slot_for_epoch p (PInt e) = Inr s \<and> slot_for_epoch p (PInt (e + 1)) = Inr t
     \<and> slot_window p (PInt s) = Inr (lo, hi) \<and> 0 \<le> lo \<and> hi = lo + as_int slot_bytes \<and> hi \<le> active_lds_bytes p
     \<and> (s1_buffer_count p = 2 \<longrightarrow> (\<forall>lo' hi'. slot_window p (PInt t) = Inr (lo', hi') \<longrightarrow> hi \<le> lo' \<or> hi' \<le> lo))"
proof -
  have p: "s1_buffer_count p = 1 \<or> s1_buffer_count p = 2" "s1_slot_bytes p = as_int slot_bytes" "0 < as_int slot_bytes"
    using assms(1) by (auto simp: mk_stage1_plan_def rbind_eq_Inr req_pos_def split: if_splits)
  define s t where st: "s = e mod s1_buffer_count p" "t = (e + 1) mod s1_buffer_count p"
  have s: "0 \<le> s" "s < s1_buffer_count p" using p(1) by (auto simp: st)
  have w: "slot_window p (PInt s) = Inr (s * as_int slot_bytes, (s + 1) * as_int slot_bytes)"
    using s by (simp add: slot_window_def p(2))
  have le: "(s + 1) * as_int slot_bytes \<le> active_lds_bytes p"
    unfolding active_lds_bytes_def p(2) using s(2) p(3) by (intro mult_right_mono) auto
  have alt: "s = 0 \<and> t = 1 \<or> s = 1 \<and> t = 0" if "s1_buffer_count p = 2"
    using that unfolding st by presburger
  have "(s + 1) * as_int slot_bytes \<le> lo' \<or> hi' \<le> s * as_int slot_bytes"
    if "s1_buffer_count p = 2" "slot_window p (PInt t) = Inr (lo', hi')" for lo' hi'
    using alt [OF that(1)] that(2) by (auto simp: slot_window_def p(2) split: if_splits)
  moreover have "slot_for_epoch p (PInt e) = Inr s" "slot_for_epoch p (PInt (e + 1)) = Inr t"
    using assms(2) by (simp_all add: slot_for_epoch_def req_nonneg_def st)
  ultimately show ?thesis using w le s(1) p(3) by (auto simp: distrib_right)
qed

lemma stage1_windows_tile_witness:
  "\<exists>p. mk_stage1_plan (PInt 2) (PInt 8192) 1 [''A'', ''B''] = Inr p \<and> slot_window p (PInt 1) = Inr (8192, 16384)
     \<and> (\<exists>s. slot_for_epoch p (PInt 3) = Inr s)"
proof -
  have "rok (mk_stage1_plan (PInt 2) (PInt 8192) 1 [''A'', ''B''])" by code_simp
  then obtain p where p: "mk_stage1_plan (PInt 2) (PInt 8192) 1 [''A'', ''B''] = Inr p" by (auto simp: rok_iff)
  have "slot_window p (PInt 1) = Inr (8192, 16384)"
    using p by (auto simp: mk_stage1_plan_def req_pos_def slot_window_def)
  then show ?thesis using stage1_windows_tile [OF p, of 3] p by auto
qed

end
