(* ===== verification/DTypes.thy ===== *)
theory DTypes
  imports PyVal Helpers
begin

text \<open>
  Data types (\<open>tinygrad/dtype.py\<close>): the \<open>DType\<close> family and its constants, the promotion lattice,
  lossless casts, integer truncation, the dimensions of an image buffer, and the conversions between
  doubles and the four eight-bit floats.  The instances are interned by their constructor arguments, so
  equality of values is identity of objects.  A Python float is modelled by its 64-bit pattern, as
  \<open>struct.pack('d', x)\<close> gives it; \<open>default_float\<close> is the unconfigured float32.
\<close>

unbundle bit_operations_syntax

section \<open>The types\<close>

datatype addr_space = GLOBAL | LOCAL | REG

datatype dtype =
    DType (priority: int) (bitsize: int) (dname: string) (fmt: "string option") (dcount: int) (scalar_of: "dtype option")
  | PtrDType (priority: int) (bitsize: int) (dname: string) (fmt: "string option") (dcount: int) (scalar_of: "dtype option")
      (ptr_base: dtype) (addrspace: addr_space) (ptr_v: int) (ptr_size: int)
  | ImageDType (priority: int) (bitsize: int) (dname: string) (fmt: "string option") (dcount: int) (scalar_of: "dtype option")
      (ptr_base: dtype) (addrspace: addr_space) (ptr_v: int) (ptr_size: int) (image_shape: "int list")

fun is_image :: "dtype \<Rightarrow> bool" where
  "is_image (ImageDType _ _ _ _ _ _ _ _ _ _ _) = True" | "is_image _ = False"

fun is_ptr :: "dtype \<Rightarrow> bool" where
  "is_ptr (DType _ _ _ _ _ _) = False" | "is_ptr _ = True"

definition new_dtype :: "int \<Rightarrow> int \<Rightarrow> string \<Rightarrow> string option \<Rightarrow> dtype" where
  "new_dtype p b n f = DType p b n f 1 None"

definition itemsize :: "dtype \<Rightarrow> int" where
  "itemsize d = (bitsize d + 7) div 8"

definition dtype_lt :: "dtype \<Rightarrow> dtype \<Rightarrow> bool" where
  "dtype_lt a b = (if priority a \<noteq> priority b then priority a < priority b
     else if bitsize a \<noteq> bitsize b then bitsize a < bitsize b
     else if dname a \<noteq> dname b then dname a < dname b
     else if fmt a \<noteq> fmt b then the (fmt a) < the (fmt b)
     else dcount a < dcount b)"

definition scalar :: "dtype \<Rightarrow> dtype" where
  "scalar d = (case scalar_of d of None \<Rightarrow> d | Some s \<Rightarrow> s)"

definition base :: "dtype \<Rightarrow> dtype" where
  "base d = (if is_ptr d then ptr_base d else d)"

definition vcount :: "dtype \<Rightarrow> int" where
  "vcount d = (if is_ptr d then ptr_v d else dcount d)"

definition dt_void :: dtype where "dt_void = new_dtype (-1) 0 ''void'' None"
definition dt_weakint :: dtype where "dt_weakint = new_dtype 0 800 ''weakint'' None"
definition dt_bool :: dtype where "dt_bool = new_dtype 0 1 ''bool'' (Some ''?'')"
definition dt_int8 :: dtype where "dt_int8 = new_dtype 1 8 ''signed char'' (Some ''b'')"
definition dt_uint8 :: dtype where "dt_uint8 = new_dtype 2 8 ''unsigned char'' (Some ''B'')"
definition dt_int16 :: dtype where "dt_int16 = new_dtype 3 16 ''short'' (Some ''h'')"
definition dt_uint16 :: dtype where "dt_uint16 = new_dtype 4 16 ''unsigned short'' (Some ''H'')"
definition dt_int32 :: dtype where "dt_int32 = new_dtype 5 32 ''int'' (Some ''i'')"
definition dt_uint32 :: dtype where "dt_uint32 = new_dtype 6 32 ''unsigned int'' (Some ''I'')"
definition dt_int64 :: dtype where "dt_int64 = new_dtype 7 64 ''long'' (Some ''q'')"
definition dt_uint64 :: dtype where "dt_uint64 = new_dtype 8 64 ''unsigned long'' (Some ''Q'')"
definition dt_uint128 :: dtype where "dt_uint128 = new_dtype 8 128 ''uint128'' None"
definition dt_uint256 :: dtype where "dt_uint256 = new_dtype 8 256 ''uint256'' None"
definition dt_fp8e4m3 :: dtype where "dt_fp8e4m3 = new_dtype 9 8 ''float8_e4m3'' None"
definition dt_fp8e5m2 :: dtype where "dt_fp8e5m2 = new_dtype 10 8 ''float8_e5m2'' None"
definition dt_fp8e4m3fnuz :: dtype where "dt_fp8e4m3fnuz = new_dtype 9 8 ''float8_e4m3fnuz'' None"
definition dt_fp8e5m2fnuz :: dtype where "dt_fp8e5m2fnuz = new_dtype 10 8 ''float8_e5m2fnuz'' None"
definition dt_float16 :: dtype where "dt_float16 = new_dtype 11 16 ''half'' (Some ''e'')"
definition dt_bfloat16 :: dtype where "dt_bfloat16 = new_dtype 12 16 ''__bf16'' None"
definition dt_float32 :: dtype where "dt_float32 = new_dtype 13 32 ''float'' (Some ''f'')"
definition dt_float64 :: dtype where "dt_float64 = new_dtype 14 64 ''double'' (Some ''d'')"

definition default_float :: dtype where "default_float = dt_float32"
definition default_int :: dtype where "default_int = dt_int32"

definition fp8_ocp :: "dtype list" where "fp8_ocp = [dt_fp8e4m3, dt_fp8e5m2]"
definition fp8_fnuz :: "dtype list" where "fp8_fnuz = [dt_fp8e4m3fnuz, dt_fp8e5m2fnuz]"
definition fp8s :: "dtype list" where "fp8s = fp8_ocp @ fp8_fnuz"
definition floats :: "dtype list" where "floats = fp8s @ [dt_float16, dt_bfloat16, dt_float32, dt_float64]"
definition uints :: "dtype list" where "uints = [dt_uint8, dt_uint16, dt_uint32, dt_uint64]"
definition sints :: "dtype list" where "sints = [dt_int8, dt_int16, dt_int32, dt_int64]"
definition ints :: "dtype list" where "ints = uints @ sints"
definition all_dtypes :: "dtype list" where "all_dtypes = floats @ ints @ [dt_bool, dt_weakint]"

definition is_float :: "dtype \<Rightarrow> bool" where
  "is_float x = (scalar x \<in> set floats \<or> is_image x)"

definition is_int_dtype :: "dtype \<Rightarrow> bool" where
  "is_int_dtype x = (scalar x \<in> set (ints @ [dt_weakint]))"

definition is_unsigned :: "dtype \<Rightarrow> bool" where
  "is_unsigned x = (scalar x \<in> set uints)"

definition is_bool_dtype :: "dtype \<Rightarrow> bool" where
  "is_bool_dtype x = (scalar x = dt_bool)"

text \<open>\<open>INVERSE_DTYPES_DICT\<close>: the attribute names, the last alias of a type winning.\<close>

definition inverse_names :: "(string \<times> string) list" where
  "inverse_names = [(''bool'', ''bool''), (''signed char'', ''char''), (''unsigned char'', ''uchar''), (''short'', ''short''),
     (''unsigned short'', ''ushort''), (''int'', ''int''), (''unsigned int'', ''uint''), (''long'', ''long''),
     (''unsigned long'', ''ulong''), (''float8_e4m3'', ''fp8e4m3''), (''float8_e5m2'', ''fp8e5m2''),
     (''float8_e4m3fnuz'', ''fp8e4m3fnuz''), (''float8_e5m2fnuz'', ''fp8e5m2fnuz''), (''half'', ''half''),
     (''__bf16'', ''bfloat16''), (''float'', ''float''), (''double'', ''double''), (''void'', ''void''), (''weakint'', ''weakint'')]"

definition vec :: "dtype \<Rightarrow> int \<Rightarrow> dtype result" where
  "vec d sz = (case d of
       DType p b n f c s \<Rightarrow>
         if c \<noteq> 1 then Inl AssertionError
         else if sz = 1 \<or> d = dt_void then Inr d
         else rbind (dget inverse_names n) (\<lambda>nm. Inr (DType p (b * sz) (nm @ str_int sz) None sz (Some d)))
     | PtrDType p b n f c s bs sp v z \<Rightarrow>
         if v \<noteq> 1 then Inl AssertionError
         else if sz = 1 then Inr d
         else Inr (PtrDType p b n f c (Some d) bs sp sz z)
     | ImageDType p b n f c s bs sp v z shp \<Rightarrow>
         if v \<noteq> 1 then Inl AssertionError
         else if sz = 1 then Inr d
         else Inr (ImageDType p b n f c (Some d) bs sp sz z shp))"

definition ptr :: "dtype \<Rightarrow> int \<Rightarrow> addr_space \<Rightarrow> dtype result" where
  "ptr d sz space = (case d of
       DType p b n f c s \<Rightarrow> Inr (PtrDType p b n f c None d space 1 sz)
     | PtrDType _ _ _ _ _ _ _ _ _ _ \<Rightarrow> Inl RuntimeError
     | ImageDType _ _ _ _ _ _ _ _ _ _ _ \<Rightarrow> if space \<noteq> GLOBAL then Inl AssertionError else Inr d)"

definition nbytes :: "dtype \<Rightarrow> int result" where
  "nbytes d = (if \<not> is_ptr d then Inl RuntimeError
     else if ptr_size d = -1 then Inl RuntimeError else Inr (ptr_size d * itemsize d))"

definition imageh :: "int list \<Rightarrow> dtype" where
  "imageh shp = ImageDType 100 16 ''imageh'' (Some ''e'') 1 None dt_float32 GLOBAL 1 (prod_list shp) shp"

definition imagef :: "int list \<Rightarrow> dtype" where
  "imagef shp = ImageDType 100 32 ''imagef'' (Some ''f'') 1 None dt_float32 GLOBAL 1 (prod_list shp) shp"

datatype bound = BInt int | BNegInf | BInf | BBool bool

definition dtype_min :: "dtype \<Rightarrow> bound" where
  "dtype_min d = (if is_int_dtype d then BInt (if is_unsigned d then 0 else - (2 ^ nat (bitsize (scalar d) - 1)))
     else if is_float d then BNegInf else BBool False)"

definition dtype_max :: "dtype \<Rightarrow> bound" where
  "dtype_max d = (if is_int_dtype d then (case dtype_min d of BInt m \<Rightarrow> BInt (2 ^ nat (bitsize (scalar d)) - 1 + m) | x \<Rightarrow> x)
     else if is_float d then BInf else BBool True)"

definition finfo :: "dtype \<Rightarrow> (int \<times> int) result" where
  "finfo d = (if \<not> is_float d then Inl ValueError
     else dget [(dt_float16, (5, 10)), (dt_bfloat16, (8, 7)), (dt_float32, (8, 23)), (dt_float64, (11, 52)),
       (dt_fp8e4m3, (4, 3)), (dt_fp8e5m2, (5, 2)), (dt_fp8e4m3fnuz, (4, 3)), (dt_fp8e5m2fnuz, (5, 2))] d)"

text \<open>\<open>max(xs)\<close> keeps the first of equal elements.\<close>

definition max_dtype :: "dtype \<Rightarrow> dtype list \<Rightarrow> dtype" where
  "max_dtype x xs = fold (\<lambda>y m. if dtype_lt m y then y else m) xs x"

fun from_py :: "pyval \<Rightarrow> dtype result" and from_pys :: "pyval list \<Rightarrow> dtype list result" where
  "from_py (PBool _) = Inr dt_bool"
| "from_py (PInt _) = Inr default_int"
| "from_py (PList xs) = rbind (from_pys xs) (\<lambda>ds. case ds of [] \<Rightarrow> Inr default_float | d # r \<Rightarrow> Inr (max_dtype d r))"
| "from_py (PTuple xs) = rbind (from_pys xs) (\<lambda>ds. case ds of [] \<Rightarrow> Inr default_float | d # r \<Rightarrow> Inr (max_dtype d r))"
| "from_py _ = Inl RuntimeError"
| "from_pys [] = Inr []"
| "from_pys (x # xs) = rbind (from_py x) (\<lambda>d. rbind (from_pys xs) (\<lambda>ds. Inr (d # ds)))"

section \<open>The promotion lattice\<close>

definition promo_lattice :: "(dtype \<times> dtype list) list" where
  "promo_lattice =
    [(dt_bool, [dt_weakint]), (dt_weakint, [dt_int8, dt_uint8]), (dt_int8, [dt_int16]), (dt_int16, [dt_int32]),
     (dt_int32, [dt_int64]), (dt_int64, [dt_uint64]), (dt_uint8, [dt_int16, dt_uint16]), (dt_uint16, [dt_int32, dt_uint32]),
     (dt_uint32, [dt_int64, dt_uint64]), (dt_uint64, [dt_fp8e4m3, dt_fp8e5m2, dt_fp8e4m3fnuz, dt_fp8e5m2fnuz]),
     (dt_fp8e4m3, [dt_float16, dt_bfloat16]), (dt_fp8e5m2, [dt_float16, dt_bfloat16]),
     (dt_fp8e4m3fnuz, [dt_float16, dt_bfloat16]), (dt_fp8e5m2fnuz, [dt_float16, dt_bfloat16]),
     (dt_float16, [dt_float32]), (dt_bfloat16, [dt_float32]), (dt_float32, [dt_float64])]"

text \<open>The recursion climbs the lattice, whose longest chain has twelve types; the fuel is never exhausted
  (\<open>recursive_parents_enough\<close>).\<close>

fun recursive_parents :: "nat \<Rightarrow> dtype \<Rightarrow> dtype list result" where
  "recursive_parents 0 d = Inl Diverges"
| "recursive_parents (Suc n) d = (if d = dt_float64 then Inr [dt_float64]
     else rbind (dget promo_lattice d) (\<lambda>ps. rbind (rmap (recursive_parents n) ps) (\<lambda>ss.
       Inr (remdups (concat ss @ [d])))))"

definition lattice_fuel :: nat where "lattice_fuel = 13"

definition get_recursive_parents :: "dtype \<Rightarrow> dtype list result" where
  "get_recursive_parents d = recursive_parents lattice_fuel d"

definition min_dtype :: "dtype \<Rightarrow> dtype list \<Rightarrow> dtype" where
  "min_dtype x xs = fold (\<lambda>y m. if dtype_lt y m then y else m) xs x"

definition common :: "dtype list list \<Rightarrow> dtype list" where
  "common ss = (case ss of [] \<Rightarrow> [] | s # r \<Rightarrow> filter (\<lambda>d. list_all (\<lambda>t. d \<in> set t) r) s)"

text \<open>\<open>set.intersection()\<close> without arguments raises TypeError, \<open>min\<close> of an empty set ValueError.\<close>

definition least_upper_dtype :: "dtype list \<Rightarrow> dtype result" where
  "least_upper_dtype ds = (case filter is_image ds of
       i # _ \<Rightarrow> Inr i
     | [] \<Rightarrow> rbind (rmap (\<lambda>d. get_recursive_parents (scalar d)) ds) (\<lambda>ss.
         if ss = [] then Inl TypeError
         else case common ss of [] \<Rightarrow> Inl ValueError | d # r \<Rightarrow> Inr (min_dtype d r)))"

definition least_upper_float :: "dtype \<Rightarrow> dtype result" where
  "least_upper_float d = (if is_float d then Inr d else least_upper_dtype [d, default_float])"

text \<open>\<open>to_dtype(getenv("SUM_DTYPE", "float32"))\<close> is an argument.\<close>

definition sum_acc_dtype :: "dtype \<Rightarrow> dtype \<Rightarrow> dtype result" where
  "sum_acc_dtype sum_dtype d = (if is_unsigned d then least_upper_dtype [d, dt_uint32]
     else if is_int_dtype d \<or> d = dt_bool then least_upper_dtype [d, dt_int32]
     else least_upper_dtype [d, sum_dtype])"

definition can_lossless_cast :: "dtype \<Rightarrow> dtype \<Rightarrow> bool" where
  "can_lossless_cast d0 d1 = (if d0 = d1 \<or> d0 = dt_bool then True
     else if d1 = dt_weakint then d0 \<in> set ints
     else if d1 = dt_float64 then d0 \<in> set ([dt_float32, dt_float16, dt_bfloat16] @ fp8s
         @ [dt_uint32, dt_uint16, dt_uint8, dt_int32, dt_int16, dt_int8])
     else if d1 = dt_float32 then d0 \<in> set ([dt_float16, dt_bfloat16] @ fp8s @ [dt_uint16, dt_uint8, dt_int16, dt_int8])
     else if d1 = dt_float16 then d0 \<in> set (fp8s @ [dt_uint8, dt_int8])
     else if d1 = dt_uint64 then d0 \<in> set [dt_uint32, dt_uint16, dt_uint8]
     else if d1 = dt_uint32 then d0 \<in> set [dt_uint16, dt_uint8]
     else if d1 = dt_uint16 then d0 \<in> set [dt_uint8]
     else if d1 = dt_int64 then d0 \<in> set [dt_uint32, dt_uint16, dt_uint8, dt_int32, dt_int16, dt_int8]
     else if d1 = dt_int32 then d0 \<in> set [dt_uint16, dt_uint8, dt_int16, dt_int8]
     else if d1 = dt_int16 then d0 \<in> set [dt_uint8, dt_int8]
     else False)"

section \<open>Truncation and storage\<close>

text \<open>\<open>ctypes.c_int8(x).value\<close> and its siblings.\<close>

definition truncate_int :: "dtype \<Rightarrow> int \<Rightarrow> int" where
  "truncate_int d x = (if is_unsigned d then take_bit (nat (bitsize d)) x else signed_take_bit (nat (bitsize d) - 1) x)"

text \<open>\<open>float_to_bf16\<close> on the 32-bit pattern of a finite float: round to nearest, ties to even, on the upper half.\<close>

definition float_to_bf16_bits :: "int \<Rightarrow> int" where
  "float_to_bf16_bits u = (u + 0x7FFF + (drop_bit 16 u AND 1)) AND 0xFFFF0000"

definition storage_fmt_for_dtype :: "dtype \<Rightarrow> string option" where
  "storage_fmt_for_dtype d = (if d = dt_bfloat16 then Some ''H'' else if d \<in> set fp8s then Some ''B'' else fmt d)"

section \<open>Image dimensions\<close>

text \<open>\<open>next((int(p.split('=')[1]) for p in arch.split(',') if p.startswith(...)), 0)\<close>: the configured alignment.\<close>

definition pitch_alignment :: "string \<Rightarrow> int result" where
  "pitch_alignment arch = (case filter (\<lambda>p. str_startswith p ''IMAGE_PITCH_ALIGNMENT='') (split_at CHR '','' arch) of
       [] \<Rightarrow> Inr 0
     | p # _ \<Rightarrow> rbind (lget (split_at CHR ''='' p) 1) (\<lambda>s. case int_of_str s of None \<Rightarrow> Inl ValueError | Some i \<Rightarrow> Inr i))"

definition max_image :: int where "max_image = 16384"

text \<open>The dimensions for an alignment that is not zero; \<open>osx\<close> is the platform flag.\<close>

definition dims_of_rows :: "int \<Rightarrow> int \<Rightarrow> (int \<times> int) list result" where
  "dims_of_rows align q =
     (let ks = [ceildiv q max_image..min q (max_image div align)] in
      if 0 \<in> set ks then Inl ZeroDivisionError
      else Inr (map (\<lambda>k. (q div k, align * k)) (filter (\<lambda>k. q mod k = 0) ks)))"

definition valid_dims :: "bool \<Rightarrow> dtype \<Rightarrow> string \<Rightarrow> (int \<times> int) list result" where
  "valid_dims osx p arch = rbind (pitch_alignment arch) (\<lambda>align.
     if align = 0 then Inr []
     else (let pxls = ptr_size p div 4 in
       if base p \<notin> set [dt_float16, dt_float32] \<or> ptr_size p > 4 * max_image * max_image then Inr []
       else if ptr_size p mod (align * 4) \<noteq> 0 then
         rbind (nbytes p) (\<lambda>nb. if nb mod (if osx then 64 else align) \<noteq> 0 \<or> pxls > max_image then Inr [] else Inr [(1, pxls)])
       else dims_of_rows align (pxls div align)))"

section \<open>Eight-bit floats\<close>

record fp8_config =
  fp_bias :: int
  fp_sig_bits :: nat
  fp_mant_mask :: int
  fp_min_denorm_half :: int
  fp_ovf_threshold :: int
  fp_max_norm :: int
  fp_min_norm :: int

definition fp8_cfg :: "(dtype \<times> fp8_config) list" where
  "fp8_cfg =
    [(dt_fp8e4m3, \<lparr>fp_bias = 7, fp_sig_bits = 4, fp_mant_mask = 0x7, fp_min_denorm_half = 0x3F50000000000000,
        fp_ovf_threshold = 0x407D000000000000, fp_max_norm = 0x7E, fp_min_norm = 0x3F90000000000000\<rparr>),
     (dt_fp8e5m2, \<lparr>fp_bias = 15, fp_sig_bits = 3, fp_mant_mask = 0x3, fp_min_denorm_half = 0x3EE0000000000000,
        fp_ovf_threshold = 0x40EE000000000000 - 1, fp_max_norm = 0x7B, fp_min_norm = 0x3F10000000000000\<rparr>),
     (dt_fp8e4m3fnuz, \<lparr>fp_bias = 8, fp_sig_bits = 4, fp_mant_mask = 0x7, fp_min_denorm_half = 0x3F40000000000000,
        fp_ovf_threshold = 0x406F000000000000 - 1, fp_max_norm = 0x7F, fp_min_norm = 0x3F80000000000000\<rparr>),
     (dt_fp8e5m2fnuz, \<lparr>fp_bias = 16, fp_sig_bits = 3, fp_mant_mask = 0x3, fp_min_denorm_half = 0x3ED0000000000000,
        fp_ovf_threshold = 0x40EE000000000000 - 1, fp_max_norm = 0x7F, fp_min_norm = 0x3F00000000000000\<rparr>)]"

definition double_exp :: "int \<Rightarrow> int" where "double_exp b = drop_bit 52 b AND 0x7FF"
definition double_frac :: "int \<Rightarrow> int" where "double_frac b = take_bit 52 b"
definition double_neg :: "int \<Rightarrow> bool" where "double_neg b = (drop_bit 63 b AND 1 = 1)"
definition is_finite :: "int \<Rightarrow> bool" where "is_finite b = (double_exp b \<noteq> 0x7FF)"
definition is_inf :: "int \<Rightarrow> bool" where "is_inf b = (double_exp b = 0x7FF \<and> double_frac b = 0)"
definition is_nan :: "int \<Rightarrow> bool" where "is_nan b = (double_exp b = 0x7FF \<and> double_frac b \<noteq> 0)"
definition double_zero :: "int \<Rightarrow> bool" where "double_zero b = (b AND 0x7FFFFFFFFFFFFFFF = 0)"

text \<open>The normalised and the denormal rounding of the magnitude.\<close>

definition round_normal :: "fp8_config \<Rightarrow> int \<Rightarrow> int" where
  "round_normal c xbits =
     (let half_ulp = (2 :: int) ^ (52 - fp_sig_bits c);
          exp = (drop_bit 52 xbits AND 0x7FF) - 1023 + fp_bias c;
          mantissa = drop_bit (53 - fp_sig_bits c) xbits AND fp_mant_mask c;
          res = push_bit (fp_sig_bits c - 1) exp OR mantissa;
          round_bits = xbits AND (2 * half_ulp - 1)
      in if round_bits > half_ulp \<or> (round_bits = half_ulp \<and> mantissa AND 1 \<noteq> 0) then res + 1 else res)"

definition round_denormal :: "fp8_config \<Rightarrow> int \<Rightarrow> int" where
  "round_denormal c xbits =
     (let half_ulp = (2 :: int) ^ (52 - fp_sig_bits c);
          exp = (drop_bit 52 xbits AND 0x7FF) - 1023 + fp_bias c;
          shift = nat (1 - exp);
          mantissa = (drop_bit (53 - fp_sig_bits c) xbits AND fp_mant_mask c) OR 2 ^ (fp_sig_bits c - 1);
          res = drop_bit shift mantissa;
          half = push_bit shift half_ulp;
          round_bits = (xbits OR 2 ^ 52) AND (2 * half - 1)
      in if round_bits > half \<or> (round_bits = half \<and> res AND 1 \<noteq> 0) then res + 1 else res)"

text \<open>The body of \<open>float_to_fp8\<close> once the format is looked up: \<open>fnuz\<close>, \<open>e4m3\<close> and \<open>e5m2\<close> say which it is.\<close>

definition encode_fp8 :: "bool \<Rightarrow> bool \<Rightarrow> bool \<Rightarrow> fp8_config \<Rightarrow> int \<Rightarrow> int" where
  "encode_fp8 fnuz e4m3 e5m2 c x =
     (if fnuz \<and> \<not> is_finite x then 0x80
      else if fnuz \<and> double_zero x then 0
      else if e4m3 \<and> \<not> is_finite x then (if \<not> double_neg x then 0x7F else 0xFF)
      else if e5m2 \<and> \<not> is_finite x then (if \<not> double_neg x then 0 else 0x80) OR (if is_inf x then 0x7C else 0x7F)
      else (let sign = push_bit 7 (drop_bit 63 x AND 1); absx = x AND 0x7FFFFFFFFFFFFFFF;
                res = (if absx \<le> fp_min_denorm_half c then 0
                       else if absx > fp_ovf_threshold c then fp_max_norm c
                       else if absx \<ge> fp_min_norm c then round_normal c x
                       else round_denormal c x)
            in if fnuz \<and> res = 0 then 0 else res OR sign))"

definition float_to_fp8 :: "int \<Rightarrow> dtype \<Rightarrow> int result" where
  "float_to_fp8 x d =
     (if d \<notin> set fp8s then Inl AssertionError
      else rbind (dget fp8_cfg d) (\<lambda>c.
        Inr (encode_fp8 (d \<in> set fp8_fnuz) (d = dt_fp8e4m3) (d = dt_fp8e5m2) c x)))"

text \<open>The double \<open>m * 2 ** e\<close> for \<open>0 < m < 2 ** 53\<close> in the normal range; the products in \<open>fp8_to_float\<close> are exact.\<close>

definition double_of :: "int \<Rightarrow> int \<Rightarrow> int" where
  "double_of m e = (e + int (bit_length m) + 1022) * 2 ^ 52 + (m * 2 ^ (53 - bit_length m) - 2 ^ 52)"

definition py_nan :: int where "py_nan = 0x7FF8000000000000"
definition py_inf :: int where "py_inf = 0x7FF0000000000000"
definition sign_bit :: int where "sign_bit = 0x8000000000000000"

definition decode_fp8 :: "bool \<Rightarrow> bool \<Rightarrow> fp8_config \<Rightarrow> int \<Rightarrow> int" where
  "decode_fp8 fnuz e5m2 c x =
     (if fnuz \<and> x = 0x80 then py_nan
      else if x AND 0x7F = 0 then (if x AND 0x80 \<noteq> 0 then sign_bit else 0)
      else (let mant_bits = fp_sig_bits c - 1; exp_bits = 8 - fp_sig_bits c;
                exp_max = (2 :: int) ^ exp_bits - 1; mant_max = (2 :: int) ^ mant_bits - 1;
                sign = drop_bit 7 x AND 1; exp = drop_bit mant_bits x AND exp_max; mantissa = x AND mant_max
            in if \<not> fnuz \<and> exp = exp_max \<and> e5m2 then
                 (if mantissa \<noteq> 0 then py_nan else py_inf) + (if sign \<noteq> 0 then sign_bit else 0)
               else if \<not> fnuz \<and> exp = exp_max \<and> mantissa = mant_max then py_nan
               else (let val = (if exp = 0 then double_of mantissa (1 - fp_bias c - int mant_bits)
                                else double_of (mant_max + 1 + mantissa) (exp - fp_bias c - int mant_bits))
                     in if sign \<noteq> 0 then val + sign_bit else val)))"

definition fp8_to_float :: "int \<Rightarrow> dtype \<Rightarrow> int result" where
  "fp8_to_float x d =
     (if d \<notin> set fp8s then Inl AssertionError
      else rbind (dget fp8_cfg d) (\<lambda>c. Inr (decode_fp8 (d \<in> set fp8_fnuz) (d = dt_fp8e5m2) c x)))"

end
