(* ===== verification/DTypesSpec.thy ===== *)
theory DTypesSpec
  imports DTypes
begin

text \<open>
  Properties of the data types: the least upper type of the promotion lattice, soundness of the
  lossless-cast table, the dimensions of an image, and the round trip of the eight-bit floats.
\<close>

section \<open>The promotion lattice\<close>

definition dtype_key :: "dtype \<Rightarrow> int \<times> int \<times> string" where
  "dtype_key d = (priority d, bitsize d, dname d)"

lemma keys_distinct: "distinct (map dtype_key all_dtypes)"
  by code_simp

text \<open>The height of a type in the lattice bounds the recursion.\<close>

definition lattice_height :: "(string \<times> nat) list" where
  "lattice_height = [(''double'', 0), (''float'', 1), (''half'', 2), (''__bf16'', 2), (''float8_e4m3'', 3), (''float8_e5m2'', 3),
     (''float8_e4m3fnuz'', 3), (''float8_e5m2fnuz'', 3), (''unsigned long'', 4), (''long'', 5), (''unsigned int'', 6),
     (''int'', 6), (''unsigned short'', 7), (''short'', 7), (''unsigned char'', 8), (''signed char'', 8),
     (''weakint'', 9), (''bool'', 10)]"

definition height :: "dtype \<Rightarrow> nat" where
  "height d = (case map_of lattice_height (dname d) of None \<Rightarrow> 0 | Some n \<Rightarrow> n)"

lemma lattice_climbs:
  "list_all (\<lambda>(d, ps). ps \<noteq> [] \<and> list_all (\<lambda>p. height p < height d \<and> p \<in> set all_dtypes) ps) promo_lattice"
  by code_simp

lemma lattice_total:
  "list_all (\<lambda>d. height d < lattice_fuel \<and> (d = dt_float64 \<or> map_of promo_lattice d \<noteq> None)) all_dtypes"
  by code_simp

lemma rmap_ex: "(\<And>x. x \<in> set xs \<Longrightarrow> \<exists>y. f x = Inr y \<and> Q x y) \<Longrightarrow> \<exists>ys. rmap f xs = Inr ys \<and> list_all2 Q xs ys"
proof (induction xs)
  case Nil
  then show ?case by simp
next
  case (Cons x xs)
  then obtain y ys where "f x = Inr y" "Q x y" "rmap f xs = Inr ys" "list_all2 Q xs ys" by (metis list.set_intros)
  then show ?case by simp
qed

lemma recursive_parents_enough:
  "d \<in> set all_dtypes \<Longrightarrow> height d < n \<Longrightarrow>
     \<exists>ps. recursive_parents n d = Inr ps \<and> dt_float64 \<in> set ps \<and> d \<in> set ps \<and> set ps \<subseteq> set all_dtypes"
proof (induction n arbitrary: d)
  case 0
  then show ?case by simp
next
  case (Suc n)
  show ?case
  proof (cases "d = dt_float64")
    case True
    then show ?thesis using Suc.prems by simp
  next
    case False
    then obtain qs where qs: "map_of promo_lattice d = Some qs"
      using lattice_total Suc.prems(1) by (auto simp: list_all_iff)
    then have ok: "qs \<noteq> []" "\<And>q. q \<in> set qs \<Longrightarrow> height q < height d \<and> q \<in> set all_dtypes"
      using lattice_climbs map_of_SomeD [OF qs] by (auto simp: list_all_iff)
    let ?Q = "\<lambda>q ps. dt_float64 \<in> set ps \<and> q \<in> set ps \<and> set ps \<subseteq> set all_dtypes"
    have "\<exists>ss. rmap (recursive_parents n) qs = Inr ss \<and> list_all2 ?Q qs ss"
      by (rule rmap_ex) (use ok(2) Suc.IH Suc.prems(2) in fastforce)
    then obtain ss where ss: "rmap (recursive_parents n) qs = Inr ss" "list_all2 ?Q qs ss" by blast
    obtain s ss' where "ss = s # ss'" using ss(2) ok(1) by (cases ss) auto
    moreover have "dt_float64 \<in> set s" using ss(2) calculation by (cases qs) auto
    moreover have "set t \<subseteq> set all_dtypes" if "t \<in> set ss" for t
      using ss(2) that by (auto simp: list_all2_conv_all_nth in_set_conv_nth)
    ultimately show ?thesis using False qs ss(1) Suc.prems(1) by auto
  qed
qed

lemma scalar_all: "list_all (\<lambda>d. scalar d = d \<and> \<not> is_image d) all_dtypes"
  by code_simp

lemma parents_ok:
  assumes "d \<in> set all_dtypes"
  obtains ps where "get_recursive_parents d = Inr ps" "dt_float64 \<in> set ps" "d \<in> set ps" "set ps \<subseteq> set all_dtypes"
  using recursive_parents_enough [OF assms, of lattice_fuel] lattice_total assms
  unfolding get_recursive_parents_def by (auto simp: list_all_iff)

lemma dtype_lt_key:
  assumes "a \<in> set all_dtypes" "b \<in> set all_dtypes"
  shows "dtype_lt a b \<longleftrightarrow> dtype_key a < dtype_key b"
proof -
  have "a = b" if "dtype_key a = dtype_key b"
    using keys_distinct assms that by (meson distinct_map inj_on_eq_iff)
  then show ?thesis by (auto simp: dtype_lt_def dtype_key_def less_prod_def' split: if_splits)
qed

lemma min_dtype_is_least:
  "set (x # xs) \<subseteq> set all_dtypes \<Longrightarrow>
     min_dtype x xs \<in> set (x # xs) \<and> (\<forall>w \<in> set (x # xs). dtype_key (min_dtype x xs) \<le> dtype_key w)"
proof (induction xs arbitrary: x)
  case Nil
  then show ?case by (simp add: min_dtype_def)
next
  case (Cons y ys)
  define m where "m = (if dtype_lt y x then y else x)"
  have m: "m \<in> {x, y}" "dtype_key m \<le> dtype_key x" "dtype_key m \<le> dtype_key y"
    using Cons.prems by (auto simp: m_def dtype_lt_key)
  have "min_dtype x (y # ys) = min_dtype m ys" by (simp add: min_dtype_def m_def)
  moreover have "set (m # ys) \<subseteq> set all_dtypes" using m(1) Cons.prems by auto
  note ih = Cons.IH [OF this]
  ultimately show ?case using m ih
    by (auto intro: order_trans [of "dtype_key (min_dtype m ys)" "dtype_key m"])
qed

section \<open>Properties\<close>

text \<open>Property C23. Any two scalar types have a least upper type: it lies above both in the promotion lattice, it is smaller in the
  type order than every other common type, and it does not depend on the order of the arguments.\<close>

theorem least_upper_dtype_least:
  assumes "a \<in> set all_dtypes" "b \<in> set all_dtypes"
  shows "\<exists>u pa pb. least_upper_dtype [a, b] = Inr u \<and> least_upper_dtype [b, a] = Inr u
    \<and> get_recursive_parents a = Inr pa \<and> get_recursive_parents b = Inr pb \<and> u \<in> set pa \<inter> set pb
    \<and> (\<forall>w \<in> set pa \<inter> set pb. w = u \<or> dtype_lt u w)"
proof -
  obtain pa where pa: "get_recursive_parents a = Inr pa" "dt_float64 \<in> set pa" "set pa \<subseteq> set all_dtypes"
    using parents_ok [OF assms(1)] by blast
  obtain pb where pb: "get_recursive_parents b = Inr pb" "dt_float64 \<in> set pb" "set pb \<subseteq> set all_dtypes"
    using parents_ok [OF assms(2)] by blast
  have sc: "scalar a = a" "\<not> is_image a" "scalar b = b" "\<not> is_image b"
    using scalar_all assms by (auto simp: list_all_iff)
  have ex: "\<exists>u. least_upper_dtype [x, y] = Inr u \<and> u \<in> set px \<inter> set py
      \<and> (\<forall>w \<in> set px \<inter> set py. dtype_key u \<le> dtype_key w)"
    if p: "get_recursive_parents x = Inr px" "get_recursive_parents y = Inr py" "scalar x = x" "scalar y = y"
       "\<not> is_image x" "\<not> is_image y" and q: "dt_float64 \<in> set px" "dt_float64 \<in> set py" "set px \<subseteq> set all_dtypes" for x y px py
  proof -
    have com: "set (common [px, py]) = set px \<inter> set py" by (auto simp: common_def)
    then obtain d r where dr: "common [px, py] = d # r" using q(1,2) by (cases "common [px, py]") auto
    have "set (d # r) \<subseteq> set all_dtypes" using com dr q(3) by auto
    note least = min_dtype_is_least [OF this]
    have "set (d # r) = set px \<inter> set py" using com dr by simp
    note least = least [unfolded this]
    have "least_upper_dtype [x, y] = Inr (min_dtype d r)" using p by (simp add: least_upper_dtype_def dr)
    then show ?thesis using least by blast
  qed
  obtain u where u: "least_upper_dtype [a, b] = Inr u" "u \<in> set pa \<inter> set pb" "\<forall>w \<in> set pa \<inter> set pb. dtype_key u \<le> dtype_key w"
    using ex [of a pa b pb] pa pb sc by auto
  obtain v where v: "least_upper_dtype [b, a] = Inr v" "v \<in> set pb \<inter> set pa" "\<forall>w \<in> set pb \<inter> set pa. dtype_key v \<le> dtype_key w"
    using ex [of b pb a pa] pa pb sc by auto
  have same: "w = u" if "w \<in> set pa \<inter> set pb" "dtype_key w = dtype_key u" for w
    using keys_distinct u(2) pa(3) that by (metis IntD1 distinct_map inj_on_eq_iff subsetD)
  have "v = u" using u v by (intro same) (auto intro: antisym)
  moreover have "w = u \<or> dtype_lt u w" if "w \<in> set pa \<inter> set pb" for w
  proof -
    have "u \<in> set all_dtypes" "w \<in> set all_dtypes" using u(2) that pa(3) by auto
    then show ?thesis using dtype_lt_key same [OF that] u(3) that by (metis order_le_imp_less_or_eq)
  qed
  ultimately show ?thesis using u v pa pb by blast
qed

lemma least_upper_dtype_least_witness:
  "\<exists>u. least_upper_dtype [dt_int8, dt_uint8] = Inr u \<and> least_upper_dtype [dt_uint8, dt_int8] = Inr u"
proof -
  have "dt_int8 \<in> set all_dtypes" "dt_uint8 \<in> set all_dtypes" by code_simp+
  from least_upper_dtype_least [OF this] show ?thesis by blast
qed

text \<open>The comment on \<open>bfloat16\<close> expects a float for int64 and uint64; the lattice gives uint64, since int64 has the edge to uint64.\<close>

lemma least_upper_of_64_bit_integers: "least_upper_dtype [dt_int64, dt_uint64] = Inr dt_uint64"
  by code_simp

text \<open>What a lossless cast needs: the range of an integer type, or the values 0 and 1 of a truth value, inside the target's
  range or mantissa, a float format inside the target's format.\<close>

definition value_range :: "dtype \<Rightarrow> (int \<times> int) option" where
  "value_range d = (case (dtype_min d, dtype_max d) of
       (BInt lo, BInt hi) \<Rightarrow> Some (lo, hi) | (BBool lo, BBool hi) \<Rightarrow> Some (of_bool lo, of_bool hi) | _ \<Rightarrow> None)"

definition fits_values :: "dtype \<Rightarrow> dtype \<Rightarrow> bool" where
  "fits_values a b = (case value_range a of
       Some (lo, hi) \<Rightarrow> (case value_range b of
           Some (lo', hi') \<Rightarrow> lo' \<le> lo \<and> hi \<le> hi'
         | None \<Rightarrow> (case finfo b of Inr em \<Rightarrow> - (2 ^ nat (snd em + 1)) \<le> lo \<and> hi \<le> 2 ^ nat (snd em + 1) | _ \<Rightarrow> False))
     | None \<Rightarrow> (case (finfo a, finfo b) of
           (Inr em, Inr em') \<Rightarrow> fst em \<le> fst em' \<and> snd em \<le> snd em' | _ \<Rightarrow> False))"

lemma lossless_table:
  "list_all (\<lambda>a. list_all (\<lambda>b. can_lossless_cast a b \<longrightarrow> fits_values a b) all_dtypes) all_dtypes"
  by code_simp

text \<open>Property C24. Whenever the table calls a cast lossless, from a truth value too, every value of the source fits the target:
  truth values and integer ranges are included, integers fit the mantissa, floats have no wider exponent or mantissa.\<close>

theorem lossless_cast_fits:
  assumes "can_lossless_cast a b" "a \<in> set all_dtypes" "b \<in> set all_dtypes"
  shows "fits_values a b"
  using lossless_table assms by (auto simp: list_all_iff)

lemma lossless_cast_fits_witness: "fits_values dt_uint16 dt_int32 \<and> fits_values dt_int32 dt_float64 \<and> fits_values dt_bool dt_fp8e5m2"
proof (intro conjI)
  show "fits_values dt_uint16 dt_int32" by (rule lossless_cast_fits) code_simp+
  show "fits_values dt_int32 dt_float64" by (rule lossless_cast_fits) code_simp+
  show "fits_values dt_bool dt_fp8e5m2" by (rule lossless_cast_fits) code_simp+
qed

section \<open>Image dimensions\<close>

lemma ceildiv_bounds:
  assumes "0 < m" "ceildiv q m \<le> k"
  shows "q \<le> k * m"
proof -
  have "- (q div - m) \<le> k" using assms(2) by (simp add: ceildiv_def)
  moreover have "q = - (q div - m) * m + q mod - m" by (metis minus_mult_commute div_mult_mod_eq)
  moreover have "q mod - m \<le> 0" using assms(1) by (simp add: neg_mod_sign)
  ultimately show ?thesis using assms(1) by (smt (verit) mult_right_mono)
qed

text \<open>Every (height, width) that an image may take holds exactly the pixels of the buffer and stays within the largest
  image in both directions.\<close>

theorem valid_dims_bounds:
  assumes "valid_dims osx p arch = Inr dims" "pitch_alignment arch = Inr align" "0 < align" "0 \<le> ptr_size p"
    and "(h, w) \<in> set dims"
  shows "h * w = ptr_size p div 4 \<and> 0 \<le> h \<and> h \<le> max_image \<and> 0 \<le> w \<and> w \<le> max_image"
proof -
  have "dims \<noteq> []" using assms(5) by auto
  show ?thesis
  proof (cases "ptr_size p mod (align * 4) = 0")
    case False
    then have "(h, w) = (1, ptr_size p div 4) \<and> ptr_size p div 4 \<le> max_image"
      using assms \<open>dims \<noteq> []\<close> by (auto simp: valid_dims_def Let_def rbind_eq_Inr split: if_splits)
    then show ?thesis using assms(4) by (simp add: max_image_def)
  next
    case True
    then obtain q where q: "ptr_size p = align * 4 * q" by blast
    have pix: "ptr_size p div 4 = align * q" using q by simp
    have "dims_of_rows align q = Inr dims"
      using assms \<open>dims \<noteq> []\<close> True pix by (auto simp: valid_dims_def Let_def split: if_splits)
    then obtain k where k: "h = q div k" "w = align * k" "q mod k = 0" "k \<noteq> 0" "ceildiv q max_image \<le> k"
        "k \<le> q" "k \<le> max_image div align"
      using assms(5) by (auto simp: dims_of_rows_def Let_def split: if_splits)
    have q0: "0 \<le> q" using q assms(3,4) by (simp add: zero_le_mult_iff)
    have "q \<le> k * max_image" using ceildiv_bounds [of max_image q k] k(5) by (simp add: max_image_def)
    then have k0: "0 < k" using q0 k(4) by (smt (verit) max_image_def mult_neg_pos)
    have "h \<le> max_image"
      using \<open>q \<le> k * max_image\<close> k(1) k0 zdiv_mono1 [of q "k * max_image" k] by simp
    moreover have "w \<le> max_image"
    proof -
      have "align * k \<le> align * (max_image div align)" using k(7) assms(3) by simp
      also have "\<dots> \<le> max_image" using assms(3) mult_div_mod_eq [of align max_image] pos_mod_sign [of align max_image] by linarith
      finally show ?thesis using k(2) by simp
    qed
    moreover have "h * w = align * q" using k(1,2,3) by (metis ab_semigroup_mult_class.mult_ac(1) mult.commute mult.left_commute mod_0_imp_dvd dvd_mult_div_cancel)
    ultimately show ?thesis using pix k0 q0 k(1,2) assms(3) by (simp add: pos_imp_zdiv_nonneg_iff)
  qed
qed

lemma valid_dims_bounds_witness:
  "pitch_alignment ''gfx,IMAGE_PITCH_ALIGNMENT=64'' = Inr 64
   \<and> (case ptr dt_float32 (4 * 64 * 12) GLOBAL of Inr p \<Rightarrow>
       valid_dims False p ''gfx,IMAGE_PITCH_ALIGNMENT=64'' = Inr [(12, 64), (6, 128), (4, 192), (3, 256), (2, 384), (1, 768)]
       \<and> 3 * 256 = ptr_size p div 4 | _ \<Rightarrow> False)"
proof -
  have a: "pitch_alignment ''gfx,IMAGE_PITCH_ALIGNMENT=64'' = Inr 64" by code_simp
  obtain p where p: "ptr dt_float32 (4 * 64 * 12) GLOBAL = Inr p" "ptr_size p = 4 * 64 * 12"
    by (simp add: ptr_def dt_float32_def new_dtype_def)
  have "the (Some (case ptr dt_float32 (4 * 64 * 12) GLOBAL of Inr p \<Rightarrow> valid_dims False p ''gfx,IMAGE_PITCH_ALIGNMENT=64'' | Inl e \<Rightarrow> Inl e))
      = Inr [(12, 64), (6, 128), (4, 192), (3, 256), (2, 384), (1, 768)]" by code_simp
  then have v: "valid_dims False p ''gfx,IMAGE_PITCH_ALIGNMENT=64'' = Inr [(12, 64), (6, 128), (4, 192), (3, 256), (2, 384), (1, 768)]"
    using p by simp
  show ?thesis using valid_dims_bounds [OF v a, of 3 256] a v p by simp
qed

section \<open>Eight-bit floats\<close>

definition recodes :: "bool \<Rightarrow> bool \<Rightarrow> bool \<Rightarrow> fp8_config \<Rightarrow> int \<Rightarrow> bool" where
  "recodes fnuz e4m3 e5m2 c x =
     (let b = decode_fp8 fnuz e5m2 c x; y = encode_fp8 fnuz e4m3 e5m2 c b
      in y = x \<or> (is_nan b \<and> is_nan (decode_fp8 fnuz e5m2 c y)))"

lemma recodes_e4m3: "list_all (recodes False True False (snd (fp8_cfg ! 0))) [0..255]"
  by code_simp

lemma recodes_e5m2: "list_all (recodes False False True (snd (fp8_cfg ! 1))) [0..255]"
  by code_simp

lemma recodes_e4m3fnuz: "list_all (recodes True False False (snd (fp8_cfg ! 2))) [0..255]"
  by code_simp

lemma recodes_e5m2fnuz: "list_all (recodes True False False (snd (fp8_cfg ! 3))) [0..255]"
  by code_simp

lemma fp8_formats:
  "list_all (\<lambda>d. map_of fp8_cfg d \<noteq> None) fp8s
   \<and> list_all (\<lambda>i. map_of fp8_cfg (fp8s ! i) = Some (snd (fp8_cfg ! i))) [0, 1, 2, 3]
   \<and> map (\<lambda>d. (d \<in> set fp8_fnuz, d = dt_fp8e4m3, d = dt_fp8e5m2)) fp8s
       = [(False, True, False), (False, False, True), (True, False, False), (True, False, False)]"
  by (intro conjI; code_simp)

lemma fp8_recodes:
  assumes "d \<in> set fp8s" "0 \<le> x" "x < 256"
  shows "\<exists>c. map_of fp8_cfg d = Some c \<and> recodes (d \<in> set fp8_fnuz) (d = dt_fp8e4m3) (d = dt_fp8e5m2) c x"
proof -
  have x: "x \<in> set [0..255]" using assms(2,3) by simp
  have len: "length fp8s = 4" by (simp add: fp8s_def fp8_ocp_def fp8_fnuz_def)
  obtain i where i: "i < 4" "d = fp8s ! i" using assms(1) len by (metis in_set_conv_nth)
  have c: "map_of fp8_cfg d = Some (snd (fp8_cfg ! i))"
  proof -
    have "i \<in> set [0, 1, 2, 3]" using i(1) by auto
    then show ?thesis using fp8_formats i(2) unfolding list_all_iff by blast
  qed
  have f: "(d \<in> set fp8_fnuz, d = dt_fp8e4m3, d = dt_fp8e5m2)
      = [(False, True, False), (False, False, True), (True, False, False), (True, False, False)] ! i"
    using fp8_formats i len by (metis (no_types, lifting) nth_map)
  have "i = 0 \<or> i = 1 \<or> i = 2 \<or> i = 3" using i(1) by linarith
  then have "recodes (d \<in> set fp8_fnuz) (d = dt_fp8e4m3) (d = dt_fp8e5m2) (snd (fp8_cfg ! i)) x"
    using f recodes_e4m3 recodes_e5m2 recodes_e4m3fnuz recodes_e5m2fnuz x unfolding list_all_iff by fastforce
  then show ?thesis using c by blast
qed

text \<open>Property C25. Decoding an eight-bit float to a double and encoding it again gives the same code, in all four formats; the codes
  of NaN come back as a code of NaN.\<close>

theorem fp8_roundtrip:
  assumes "d \<in> set fp8s" "0 \<le> x" "x < 256"
  shows "\<exists>b y. fp8_to_float x d = Inr b \<and> float_to_fp8 b d = Inr y
    \<and> (y = x \<or> (is_nan b \<and> (\<exists>b'. fp8_to_float y d = Inr b' \<and> is_nan b')))"
proof -
  obtain c where "map_of fp8_cfg d = Some c" "recodes (d \<in> set fp8_fnuz) (d = dt_fp8e4m3) (d = dt_fp8e5m2) c x"
    using fp8_recodes [OF assms] by blast
  then show ?thesis using assms(1) by (simp add: fp8_to_float_def float_to_fp8_def recodes_def Let_def)
qed

lemma fp8_roundtrip_witness: "\<exists>b. fp8_to_float 0x39 dt_fp8e4m3 = Inr b \<and> float_to_fp8 b dt_fp8e4m3 = Inr 0x39"
proof -
  have d: "dt_fp8e4m3 \<in> set fp8s" by code_simp
  have "case fp8_to_float 0x39 dt_fp8e4m3 of Inr b \<Rightarrow> \<not> is_nan b | Inl _ \<Rightarrow> False" by code_simp
  then show ?thesis using fp8_roundtrip [OF d, of "0x39"] by auto
qed

section \<open>Rounding to bfloat16\<close>

lemma and_top_half: "0 \<le> v \<Longrightarrow> v < 2 ^ 32 \<Longrightarrow> v AND 0xFFFF0000 = v div 2 ^ 16 * (2 :: int) ^ 16"
proof -
  assume v: "0 \<le> v" "v < 2 ^ 32"
  have m: "(0xFFFF0000 :: int) = push_bit 16 (mask 16)" by (simp add: mask_eq_exp_minus_1 push_bit_eq_mult)
  have "take_bit 32 v = v" using v by (simp add: take_bit_int_eq_self)
  then have "bit v n \<Longrightarrow> n < 32" for n by (metis bit_take_bit_iff)
  then have "v AND 0xFFFF0000 = push_bit 16 (drop_bit 16 v)"
    unfolding m by (intro bit_eqI) (fastforce simp: bit_simps)
  then show ?thesis by (simp add: push_bit_eq_mult drop_bit_eq_div)
qed

text \<open>Rounding a finite pattern keeps it within half a unit of the upper sixteen bits; a tie goes to the even neighbour.\<close>

lemma bf16_nearest_even:
  assumes "0 \<le> u" "u + 2 ^ 15 < 2 ^ 32"
  shows "float_to_bf16_bits u mod 2 ^ 16 = 0 \<and> \<bar>float_to_bf16_bits u - u\<bar> \<le> 2 ^ 15
    \<and> (\<bar>float_to_bf16_bits u - u\<bar> = 2 ^ 15 \<longrightarrow> even (float_to_bf16_bits u div 2 ^ 16))"
proof -
  define q t where qt: "q = u div 65536" "t = u mod 65536"
  have u: "u = q * 65536 + t" "0 \<le> t" "t < 65536" "0 \<le> q" using assms(1) by (auto simp: qt pos_imp_zdiv_nonneg_iff)
  have r: "float_to_bf16_bits u = (u + 32767 + q mod 2) div 65536 * 65536"
    unfolding float_to_bf16_bits_def using assms
    by (subst and_top_half) (auto simp: qt and_one_eq drop_bit_eq_div)
  show ?thesis
  proof (cases "t + 32767 + q mod 2 < 65536")
    case True
    then have "(u + 32767 + q mod 2) div 65536 = q" using u by (intro int_div_pos_eq [where r = "t + 32767 + q mod 2"]) auto
    then show ?thesis using r u True by (auto simp: even_iff_mod_2_eq_zero abs_le_iff)
  next
    case False
    then have "(u + 32767 + q mod 2) div 65536 = q + 1"
      using u by (intro int_div_pos_eq [where r = "t + 32767 + q mod 2 - 65536"]) auto
    then show ?thesis using r u False by (auto simp: even_iff_mod_2_eq_zero abs_le_iff; presburger)
  qed
qed

end
