(* ===== verification/UOps.thy ===== *)
theory UOps
  imports DTypes
begin

text \<open>
  The intermediate representation: the operations (\<open>tinygrad/uop/__init__.py\<close>), the node \<open>UOp\<close> and its
  traversal (\<open>tinygrad/uop/ops.py\<close>), and the registers that instruction selection attaches to a node
  (\<open>tinygrad/renderer/isa/__init__.py\<close>).  Nodes are interned by their five fields, so identity of nodes is
  equality of values and a graph is a term whose shared subterms are equal.  The operation is an
  integer enumeration in the source; it is its name here, and \<open>op_value\<close> its number.
\<close>

section \<open>Operations\<close>

type_synonym op = string

definition all_ops :: "op list" where
  "all_ops =
    [
     ''DEFINE_VAR'', ''BIND'', ''SPECIAL'', ''DEFINE_LOCAL'', ''DEFINE_REG'', ''BUFFER'', ''NOOP'', ''REWRITE_ERROR'',
     ''MEMORY_SEMANTIC'', ''SCOPED_VALUE'', ''TILE_GATHER'', ''ROW_SOFTMAX_REPACK'', ''AMD_ROW_SOFTMAX_REPACK'',
     ''AMD_ROW_SOFTMAX_SLOT'', ''AMD_PV_C_LANE'', ''AMD_PACKED_FRAGMENT_LOAD'', ''AMD_ATTENTION_LOOP_STATE'',
     ''AMD_ATTENTION_OUTPUT_DRAIN'', ''AMD_ATTENTION_STATS_DRAIN'', ''PARAM'', ''FUNCTION'', ''CALL'', ''PROGRAM'',
     ''LINEAR'', ''SOURCE'', ''BINARY'', ''SINK'', ''AFTER'', ''GROUP'', ''GEP'', ''STACK'', ''TUPLE'', ''GETTUPLE'',
     ''GETADDR'', ''INDEX'', ''SHRINK'', ''LOAD'', ''STORE'', ''WMMA'', ''SHAPED_WMMA'', ''COMPOSITE_ACCUMULATOR'',
     ''CAST'', ''BITCAST'', ''EXP2'', ''LOG2'', ''SIN'', ''SQRT'', ''RECIPROCAL'', ''NEG'', ''TRUNC'', ''ADD'', ''MUL'',
     ''SHL'', ''SHR'', ''CDIV'', ''MAX'', ''CMOD'', ''CMPLT'', ''CMPNE'', ''CMPEQ'', ''XOR'', ''OR'', ''AND'', ''THREEFRY'',
     ''SUB'', ''FDIV'', ''POW'', ''FLOORDIV'', ''FLOORMOD'', ''WHERE'', ''MULACC'', ''BARRIER'', ''RANGE'', ''IF'', ''END'',
     ''ENDIF'', ''WAIT'', ''CONST'', ''CUSTOM'', ''CUSTOMI'', ''INS'', ''UNIQUE'', ''DEVICE'', ''LUNIQUE'', ''CONTIGUOUS'',
     ''CONTIGUOUS_BACKWARD'', ''DETACH'', ''STAGE'', ''COPY'', ''SLICE'', ''MSELECT'', ''MSTACK'', ''CUSTOM_FUNCTION'',
     ''RESHAPE'', ''PERMUTE'', ''EXPAND'', ''PAD'', ''FLIP'', ''LAYOUT_TRANSFORM'', ''MULTI'', ''REDUCE'', ''ALLREDUCE'',
     ''ATTENTION'', ''REDUCE_SLOT'', ''DEFERRED_REDUCE_OWNER'', ''DEFERRED_REDUCE_SLOT'', ''SCOPED_REDUCE'', ''UNROLL'',
     ''CONTRACT'', ''VCAT'', ''PTRCAT''
    ]"

definition op_value :: "op \<Rightarrow> nat" where
  "op_value x = Suc (length (takeWhile (\<lambda>y. y \<noteq> x) all_ops))"

definition unary_ops :: "op list" where
  "unary_ops =
    [
     ''EXP2'', ''LOG2'', ''SIN'', ''SQRT'', ''RECIPROCAL'', ''NEG'', ''TRUNC''
    ]"

definition binary_ops :: "op list" where
  "binary_ops =
    [
     ''ADD'', ''MUL'', ''CDIV'', ''MAX'', ''CMOD'', ''CMPLT'', ''CMPNE'', ''CMPEQ'', ''XOR'', ''SHL'', ''SHR'', ''OR'',
     ''AND'', ''THREEFRY'', ''SUB'', ''FDIV'', ''POW'', ''FLOORDIV'', ''FLOORMOD''
    ]"

definition ternary_ops :: "op list" where
  "ternary_ops =
    [
     ''WHERE'', ''MULACC''
    ]"

definition alu_ops :: "op list" where
  "alu_ops = unary_ops @ binary_ops @ ternary_ops"

definition broadcastable_ops :: "op list" where
  "broadcastable_ops = binary_ops @ ternary_ops @ [''GROUP'']"

definition elementwise_ops :: "op list" where
  "elementwise_ops = alu_ops @ [''CAST'', ''BITCAST'']"

definition defines_ops :: "op list" where
  "defines_ops =
    [
     ''PARAM'', ''DEFINE_LOCAL'', ''DEFINE_REG''
    ]"

definition irreducible_ops :: "op list" where
  "irreducible_ops =
    [
     ''CONST'', ''DEFINE_VAR'', ''SPECIAL'', ''RANGE''
    ]"

definition movement_ops :: "op list" where
  "movement_ops =
    [
     ''RESHAPE'', ''EXPAND'', ''PERMUTE'', ''PAD'', ''SHRINK'', ''FLIP'', ''LAYOUT_TRANSFORM''
    ]"

definition commutative_ops :: "op list" where
  "commutative_ops =
    [
     ''ADD'', ''MUL'', ''MAX'', ''CMPNE'', ''CMPEQ'', ''XOR'', ''AND'', ''OR''
    ]"

definition associative_ops :: "op list" where
  "associative_ops =
    [
     ''ADD'', ''MUL'', ''AND'', ''OR'', ''MAX''
    ]"

definition idempotent_ops :: "op list" where
  "idempotent_ops =
    [
     ''OR'', ''AND'', ''MAX''
    ]"

definition comparison_ops :: "op list" where
  "comparison_ops =
    [
     ''CMPLT'', ''CMPNE'', ''CMPEQ''
    ]"

definition unsafe_pad_ops :: "op list" where
  "unsafe_pad_ops =
    [
     ''RECIPROCAL'', ''LOG2'', ''EXP2'', ''CDIV'', ''POW'', ''FLOORDIV''
    ]"

section \<open>Owners of allocations\<close>

datatype semantic_class =
    MODEL_PARAMETER | KV_CACHE | RUNTIME_PERSISTENT | RUNTIME_INPUT | RUNTIME_ACTIVATION | RUNTIME_OUTPUT
  | RUNTIME_SCRATCH | PREFILL_ACTIVATION | PREFILL_OUTPUT | PREFILL_SCRATCH | CANDIDATE_WORKSPACE

record memory_owner =
  mo_class :: semantic_class
  mo_candidate :: "string option"

definition mk_memory_owner :: "semantic_class \<Rightarrow> pyval \<Rightarrow> memory_owner result" where
  "mk_memory_owner c candidate =
     (if c = CANDIDATE_WORKSPACE then
        (if \<not> nonempty_str candidate then Inl ValueError
         else Inr \<lparr>mo_class = c, mo_candidate = Some (str_of candidate)\<rparr>)
      else if candidate \<noteq> PNone then Inl ValueError
      else Inr \<lparr>mo_class = c, mo_candidate = None\<rparr>)"

section \<open>Registers\<close>

record register_span =
  span_count :: int
  span_alignment :: int

definition mk_register_span :: "pyval \<Rightarrow> pyval \<Rightarrow> register_span result" where
  "mk_register_span c a =
     (if \<not> is_int c \<or> is_bool c \<or> as_int c < 1 then Inl ValueError
      else if \<not> is_int a \<or> is_bool a \<or> as_int a < 1 then Inl ValueError
      else Inr \<lparr>span_count = as_int c, span_alignment = as_int a\<rparr>)"

text \<open>A register; \<open>r_fixed\<close> marks the subclass \<open>FixedRegisterUse\<close>.\<close>

datatype register = Register (r_name: string) (r_index: int) (r_cons: "register list") (r_span: register_span) (r_fixed: bool)

definition cons_of :: "register \<Rightarrow> register list" where
  "cons_of r = (if r_cons r = [] then [r] else r_cons r)"

section \<open>Nodes\<close>

text \<open>A tag is absent, a tuple of registers, or other metadata of a pass.\<close>

datatype tag = NoTag | RegTag "register list" | MetaTag pyval

datatype uop = UOp (u_op: op) (u_dtype: dtype) (u_src: "uop list") (u_arg: pyval) (u_tag: tag)

definition register_defs :: "uop \<Rightarrow> register list" where
  "register_defs u = (case u_tag u of RegTag rs \<Rightarrow> rs | _ \<Rightarrow> [])"

lemma size_src: "s \<in> set (u_src u) \<Longrightarrow> size s < size u"
  by (cases u) (auto dest!: size_list_estimation' [where f = size, OF _ order_refl])

section \<open>Topological traversal\<close>

definition children :: "bool \<Rightarrow> uop \<Rightarrow> uop list" where
  "children enter_calls u = (if enter_calls \<or> u_op u \<notin> set [''CALL'', ''FUNCTION''] then u_src u else drop 1 (u_src u))"

text \<open>The loop of \<open>toposort\<close>: the head of the list is the top of the stack; \<open>extend\<close> by the reversed sources
  leaves the first source on top.\<close>

partial_function (option) toposort_loop ::
  "(uop \<Rightarrow> bool) \<Rightarrow> bool \<Rightarrow> (uop \<times> bool) list \<Rightarrow> uop list \<Rightarrow> uop list option" where
  "toposort_loop gate enter stack cache = (case stack of
       [] \<Rightarrow> Some cache
     | nv # rest \<Rightarrow>
         (if fst nv \<in> set cache then toposort_loop gate enter rest cache
          else if snd nv then toposort_loop gate enter rest (cache @ [fst nv])
          else if gate (fst nv) then
            toposort_loop gate enter (map (\<lambda>s. (s, False)) (children enter (fst nv)) @ (fst nv, True) # rest) cache
          else toposort_loop gate enter rest cache))"

declare toposort_loop.simps [code]

definition toposort :: "(uop \<Rightarrow> bool) \<Rightarrow> bool \<Rightarrow> uop \<Rightarrow> uop list option" where
  "toposort gate enter u = toposort_loop gate enter [(u, False)] []"

definition backward_slice :: "uop \<Rightarrow> uop list option" where
  "backward_slice u = map_option (filter (\<lambda>v. v \<noteq> u)) (toposort (\<lambda>_. True) True u)"

definition op_in_backward_slice_with_self :: "op list \<Rightarrow> uop \<Rightarrow> bool option" where
  "op_in_backward_slice_with_self ops u =
     (if u_op u \<in> set ops then Some True else map_option (list_ex (\<lambda>x. u_op x \<in> set ops)) (backward_slice u))"

text \<open>\<open>consumer_map_from_toposort\<close>: the consumers of every listed node, in the order of the list.\<close>

definition consumer_map :: "uop list \<Rightarrow> (uop, uop list) dict" where
  "consumer_map lst = fold (\<lambda>u m.
      fold (\<lambda>s m. case map_of m s of None \<Rightarrow> m | Some cs \<Rightarrow> if u \<in> set cs then m else dset s (cs @ [u]) m)
        (u_src u) (dset u [] m)) lst []"

end
