(* ===== verification/Scheduling.thy ===== *)
theory Scheduling
  imports UOps "HOL-Library.List_Lexorder"
begin

text \<open>
  Instruction order: the linearizer (\<open>tinygrad/codegen/late/linearizer.py\<close>), the latency-aware list
  scheduler (\<open>tinygrad/codegen/late/list_scheduler.py\<close>) and the register-pressure scheduler that runs before
  register allocation (\<open>tinygrad/codegen/late/regalloc.py\<close>).  All five schedulers run the same loop: take a node
  from a ready collection, emit it, and release the nodes that waited for it.  The loop is \<open>drain\<close>; what differs
  (the choice, the bookkeeping, the order of the collection) is the scheduler's \<open>policy\<close>.  The loop is bounded by
  the number of nodes, which \<open>SchedulingSpec\<close> proves to be enough.
\<close>

section \<open>Selection\<close>

text \<open>\<open>min(xs, key=f)\<close> and \<open>max(xs, key=f)\<close>: the first extremal element.\<close>

fun first_min :: "('a \<Rightarrow> 'k :: linorder) \<Rightarrow> 'a list \<Rightarrow> 'a" where
  "first_min f [] = undefined"
| "first_min f (x # xs) = fold (\<lambda>y m. if f y < f m then y else m) xs x"

fun first_max :: "('a \<Rightarrow> 'k :: linorder) \<Rightarrow> 'a list \<Rightarrow> 'a" where
  "first_max f [] = undefined"
| "first_max f (x # xs) = fold (\<lambda>y m. if f m < f y then y else m) xs x"

definition max_default :: "int list \<Rightarrow> int" where
  "max_default xs = (case xs of [] \<Rightarrow> 0 | x # r \<Rightarrow> fold max r x)"

definition position :: "uop list \<Rightarrow> uop \<Rightarrow> int" where
  "position block u = int (length (takeWhile (\<lambda>v. v \<noteq> u) block))"

definition contains :: "string \<Rightarrow> string \<Rightarrow> bool" where
  "contains p s = list_ex (\<lambda>i. str_startswith (drop i s) p) [0..<Suc (length s)]"

section \<open>The ready loop\<close>

record ('u, 'x) sched =
  indeg :: "'u \<Rightarrow> int"
  ready :: "'u list"
  extra :: 'x

record ('u, 'x) policy =
  pick :: "('u, 'x) sched \<Rightarrow> 'u"
  issue :: "'u \<Rightarrow> ('u, 'x) sched \<Rightarrow> 'x"
  wake :: "'u \<Rightarrow> 'x \<Rightarrow> 'x"
  push :: "'u \<Rightarrow> 'u list \<Rightarrow> 'u list"

definition release_one :: "('u, 'x) policy \<Rightarrow> 'u \<Rightarrow> ('u, 'x) sched \<Rightarrow> ('u, 'x) sched" where
  "release_one p c s =
     (let d = indeg s c - 1; s' = s\<lparr>indeg := (indeg s)(c := d)\<rparr>
      in if d = 0 then s'\<lparr>ready := push p c (ready s), extra := wake p c (extra s)\<rparr> else s')"

fun drain :: "('u, 'x) policy \<Rightarrow> ('u \<Rightarrow> 'u list) \<Rightarrow> nat \<Rightarrow> ('u, 'x) sched \<Rightarrow> 'u list \<Rightarrow> 'u list option" where
  "drain p cons fuel s out =
     (if ready s = [] then Some out
      else (case fuel of
          0 \<Rightarrow> None
        | Suc n \<Rightarrow> (let u = pick p s in
            drain p cons n (fold (release_one p) (cons u) (s\<lparr>ready := remove1 u (ready s), extra := issue p u s\<rparr>)) (out @ [u]))))"

declare drain.simps [simp del]

section \<open>Dependencies inside a block\<close>

text \<open>The distinct sources inside the block, and the nodes that wait for a node.\<close>

definition in_srcs :: "uop list \<Rightarrow> uop \<Rightarrow> uop list" where
  "in_srcs block u = filter (\<lambda>s. s \<in> set block) (first_occurrences (u_src u))"

definition all_srcs :: "uop list \<Rightarrow> uop \<Rightarrow> uop list" where
  "all_srcs block u = filter (\<lambda>s. s \<in> set block) (u_src u)"

definition consumers :: "(uop \<Rightarrow> uop list) \<Rightarrow> uop list \<Rightarrow> uop \<Rightarrow> uop list" where
  "consumers deps block s = concat (map (\<lambda>u. replicate (count_list (deps u) s) u) block)"

definition run_block :: "(uop, 'x) policy \<Rightarrow> (uop \<Rightarrow> uop list) \<Rightarrow> uop list \<Rightarrow> uop list \<Rightarrow> 'x \<Rightarrow> uop list option" where
  "run_block p deps block first x =
     map_option (\<lambda>out. if length out = length block then out else block)
       (drain p (consumers deps block) (length block) \<lparr>indeg = (\<lambda>u. int (length (deps u))), ready = first, extra = x\<rparr> [])"

definition initially_ready :: "(uop \<Rightarrow> uop list) \<Rightarrow> uop list \<Rightarrow> uop list" where
  "initially_ready deps block = filter (\<lambda>u. deps u = []) block"

section \<open>The latency-aware scheduler\<close>

definition latency :: "uop \<Rightarrow> int" where
  "latency u = (if u_op u = ''LOAD'' then 8
     else if u_op u \<in> set [''CUSTOM'', ''CUSTOMI''] \<and> is_str (u_arg u)
        \<and> (contains ''bpermute'' (str_of (u_arg u)) \<or> contains ''permute'' (str_of (u_arg u)) \<or> contains ''permlane'' (str_of (u_arg u))) then 6
     else 1)"

record cycles =
  cy_clock :: int
  cy_avail :: "uop \<Rightarrow> int"

definition ready_cycle :: "uop list \<Rightarrow> cycles \<Rightarrow> uop \<Rightarrow> int" where
  "ready_cycle block c u = max_default (map (cy_avail c) (in_srcs block u))"

definition latency_policy :: "uop list \<Rightarrow> (uop, cycles) policy" where
  "latency_policy block =
    \<lparr>pick = (\<lambda>s. let now = filter (\<lambda>u. ready_cycle block (extra s) u \<le> cy_clock (extra s)) (ready s)
              in first_min (position block) (if now \<noteq> [] then now else ready s)),
     issue = (\<lambda>u s. let clock = max (cy_clock (extra s)) (ready_cycle block (extra s) u) + 1
              in \<lparr>cy_clock = clock, cy_avail = (cy_avail (extra s))(u := clock + latency u - 1)\<rparr>),
     wake = (\<lambda>c x. x),
     push = (\<lambda>c r. r @ [c])\<rparr>"

definition schedule_block :: "uop list \<Rightarrow> uop list option" where
  "schedule_block block = (if length block \<le> 2 then Some block
     else run_block (latency_policy block) (in_srcs block) block (initially_ready (in_srcs block) block)
       \<lparr>cy_clock = 0, cy_avail = (\<lambda>_. 0)\<rparr>)"

section \<open>The probe that reverses blocks\<close>

definition reverse_policy :: "uop list \<Rightarrow> (uop, unit) policy" where
  "reverse_policy block =
    \<lparr>pick = (\<lambda>s. last (ready s)), issue = (\<lambda>u s. ()), wake = (\<lambda>c x. x),
     push = (\<lambda>c r. sort_key (position block) (r @ [c]))\<rparr>"

definition revtopo :: "uop list \<Rightarrow> uop list option" where
  "revtopo block = run_block (reverse_policy block) (all_srcs block) block
     (sort_key (position block) (initially_ready (all_srcs block) block)) ()"

section \<open>The critical-path scheduler\<close>

text \<open>\<open>lat\<close> is the latency of a node; the heap yields the least \<open>(-cp, index)\<close>.  The finishing times that the loop also
  keeps (\<open>rt\<close>) do not influence the order.\<close>

definition critical_paths :: "(uop \<Rightarrow> int) \<Rightarrow> uop list \<Rightarrow> uop \<Rightarrow> int" where
  "critical_paths lat block = fold (\<lambda>u cp. cp(u := lat u + max_default (map cp (consumers (all_srcs block) block u)))) (rev block) (\<lambda>_. 0)"

definition critical_policy :: "(uop \<Rightarrow> int) \<Rightarrow> uop list \<Rightarrow> (uop, unit) policy" where
  "critical_policy lat block =
    \<lparr>pick = (\<lambda>s. first_min (\<lambda>u. (- critical_paths lat block u, position block u)) (ready s)),
     issue = (\<lambda>u s. ()), wake = (\<lambda>c x. x), push = (\<lambda>c r. c # r)\<rparr>"

definition critical_block :: "(uop \<Rightarrow> int) \<Rightarrow> uop list \<Rightarrow> uop list option" where
  "critical_block lat block = run_block (critical_policy lat block) (all_srcs block) block
     (initially_ready (all_srcs block) block) ()"

section \<open>The register-pressure scheduler\<close>

definition width :: "uop \<Rightarrow> int" where
  "width u = sum_list (map (\<lambda>v. span_count (r_span v)) (register_defs u))"

definition lease_width :: "uop \<Rightarrow> int" where
  "lease_width u = sum_list (map (\<lambda>v. span_count (r_span v))
     (filter (\<lambda>v. r_fixed v \<or> length (cons_of v) = 1) (register_defs u)))"

record pressure =
  pr_remaining :: "uop \<Rightarrow> int"
  pr_generation :: int
  pr_ready_generation :: "uop \<Rightarrow> int"

definition release_gain :: "uop list \<Rightarrow> pressure \<Rightarrow> uop \<Rightarrow> int" where
  "release_gain block x u = sum_list (map width (filter (\<lambda>s. pr_remaining x s = 1) (in_srcs block u)))"

definition pressure_score :: "uop list \<Rightarrow> (uop, pressure) sched \<Rightarrow> uop \<Rightarrow> int list" where
  "pressure_score block s u =
     (let x = extra s; released = release_gain block x u; added = width u;
          unlocked = filter (\<lambda>c. indeg s c = 1) (consumers (in_srcs block) block u);
          follow = remdups (concat (map (in_srcs block) unlocked));
          uses = (\<lambda>v. int (length (filter (\<lambda>c. v \<in> set (in_srcs block c)) unlocked)));
          follow_release = sum_list (map width (filter (\<lambda>v. pr_remaining x v = uses v \<and> \<not> list_ex r_fixed (register_defs v)) follow));
          follow_added = sum_list (map width unlocked);
          lease_deferred = (if unlocked = [] then - lease_width u else 0)
      in [lease_deferred, released - added, released, - added, follow_release - follow_added, follow_release,
          pr_ready_generation x u, - follow_added, int (length unlocked), - position block u])"

definition pressure_policy :: "uop list \<Rightarrow> (uop, pressure) policy" where
  "pressure_policy block =
    \<lparr>pick = (\<lambda>s. first_max (pressure_score block s) (ready s)),
     issue = (\<lambda>u s. let x = extra s in
        x\<lparr>pr_remaining := fold (\<lambda>v r. r(v := r v - 1)) (in_srcs block u) (pr_remaining x), pr_generation := pr_generation x + 1\<rparr>),
     wake = (\<lambda>c x. x\<lparr>pr_ready_generation := (pr_ready_generation x)(c := pr_generation x)\<rparr>),
     push = (\<lambda>c r. r @ [c])\<rparr>"

definition pressure_schedule_block :: "uop list \<Rightarrow> uop list option" where
  "pressure_schedule_block block = (if length block < 3 then Some block
     else run_block (pressure_policy block) (in_srcs block) block (initially_ready (in_srcs block) block)
       \<lparr>pr_remaining = (\<lambda>u. int (length (consumers (in_srcs block) block u))), pr_generation = 0, pr_ready_generation = (\<lambda>_. 0)\<rparr>)"

section \<open>Blocks of a list\<close>

text \<open>A structural node closes the current block and keeps its place.\<close>

definition flush :: "(uop list \<Rightarrow> uop list option) \<Rightarrow> uop list \<Rightarrow> uop list option" where
  "flush sched block = (if block \<noteq> [] then sched block else Some [])"

fun reorder :: "(uop \<Rightarrow> bool) \<Rightarrow> (uop list \<Rightarrow> uop list option) \<Rightarrow> uop list \<Rightarrow> uop list \<Rightarrow> uop list option" where
  "reorder structural sched [] block = flush sched block"
| "reorder structural sched (u # us) block =
     (if structural u then
        Option.bind (flush sched block) (\<lambda>b. map_option (\<lambda>r. b @ u # r) (reorder structural sched us []))
      else reorder structural sched us (block @ [u]))"

definition keep_permutation :: "uop list \<Rightarrow> uop list \<Rightarrow> uop list" where
  "keep_permutation lst out = (if length out \<noteq> length lst \<or> set out \<noteq> set lst then lst else out)"

definition structural_ops :: "op list" where
  "structural_ops = [''RANGE'', ''END'', ''SINK'', ''BARRIER'', ''IF'', ''ENDIF'', ''DEFINE_REG'', ''DEFINE_LOCAL'',
     ''DEFINE_VAR'', ''PARAM'', ''GROUP'', ''AFTER'']"

definition list_schedule :: "uop list \<Rightarrow> uop list option" where
  "list_schedule lst = map_option (keep_permutation lst) (reorder (\<lambda>u. u_op u \<in> set structural_ops) schedule_block lst [])"

definition pressure_structural :: "op list" where
  "pressure_structural = [''RANGE'', ''END'', ''IF'', ''ENDIF'', ''BARRIER'', ''WAIT'', ''DEFINE_REG'', ''DEFINE_LOCAL'',
     ''DEFINE_VAR'', ''PARAM'', ''SINK'']"

text \<open>The pass runs only when two definitions are constrained to the same registers.\<close>

definition constrained_keys :: "uop list \<Rightarrow> (int list \<times> int \<times> int) list" where
  "constrained_keys uops = concat (map (\<lambda>u. map (\<lambda>v. (map r_index (cons_of v), span_count (r_span v), span_alignment (r_span v)))
     (filter (\<lambda>v. \<not> (r_fixed v \<or> length (cons_of v) \<ge> 8)) (register_defs u))) uops)"

definition pressure_schedule :: "uop list \<Rightarrow> uop list option" where
  "pressure_schedule uops = (if distinct (constrained_keys uops) then Some uops
     else map_option (keep_permutation uops)
       (reorder (\<lambda>u. u_op u \<in> set pressure_structural) pressure_schedule_block uops []))"

section \<open>Linearization\<close>

definition op_priority :: "op \<Rightarrow> int" where
  "op_priority x = (if x = ''PARAM'' then -20 else if x = ''DEFINE_VAR'' then -19 else if x = ''DEFINE_REG'' then -18
     else if x = ''DEFINE_LOCAL'' then -17 else if x = ''LOAD'' then -1 else if x = ''STORE'' then 1
     else if x = ''RANGE'' then 5 else if x = ''END'' then -5 else 0)"

text \<open>\<open>run_count\<close> is the product of the trip counts of a node's ranges and \<open>tie\<close> the rank of the remaining key (the extra
  argument and \<open>tuplize\<close>); both come from other parts of the program and are arguments here.\<close>

definition ideal_order :: "(uop \<Rightarrow> int) \<Rightarrow> (uop \<Rightarrow> nat) \<Rightarrow> uop list \<Rightarrow> uop list" where
  "ideal_order run_count tie lst = sort_key (\<lambda>u. (run_count u, op_priority (u_op u), tie u)) lst"

definition out_degree :: "uop list \<Rightarrow> uop \<Rightarrow> int" where
  "out_degree lst v = sum_list (map (\<lambda>u. int (count_list (u_src u) v)) lst)"

definition nearest_policy :: "uop list \<Rightarrow> (uop, unit) policy" where
  "nearest_policy ordered =
    \<lparr>pick = (\<lambda>s. first_min (\<lambda>u. - position ordered u) (ready s)), issue = (\<lambda>u s. ()), wake = (\<lambda>c x. x), push = (\<lambda>c r. c # r)\<rparr>"

definition linear_order :: "(uop \<Rightarrow> int) \<Rightarrow> (uop \<Rightarrow> nat) \<Rightarrow> uop \<Rightarrow> uop list option" where
  "linear_order run_count tie sink = Option.bind (toposort (\<lambda>_. True) True sink) (\<lambda>lst.
     map_option rev (drain (nearest_policy (ideal_order run_count tie lst)) u_src (length lst)
       \<lparr>indeg = out_degree lst, ready = [sink], extra = ()\<rparr> []))"

record schedule_flags =
  sf_list :: bool
  sf_probe :: bool
  sf_modulo :: bool

definition when_flag :: "bool \<Rightarrow> (uop list \<Rightarrow> uop list option) \<Rightarrow> uop list \<Rightarrow> uop list option" where
  "when_flag b f lst = (if b then f lst else Some lst)"

definition linearize :: "schedule_flags \<Rightarrow> (uop \<Rightarrow> int) \<Rightarrow> (uop \<Rightarrow> int) \<Rightarrow> (uop \<Rightarrow> nat) \<Rightarrow> uop \<Rightarrow> uop list option" where
  "linearize flags lat run_count tie sink =
     Option.bind (linear_order run_count tie sink) (\<lambda>l1.
     Option.bind (when_flag (sf_list flags) list_schedule l1) (\<lambda>l2.
     Option.bind (when_flag (sf_probe flags) (\<lambda>l. reorder (\<lambda>u. u_op u \<in> set structural_ops) revtopo l []) l2) (\<lambda>l3.
       when_flag (sf_modulo flags) (\<lambda>l. reorder (\<lambda>u. u_op u \<in> set structural_ops) (critical_block lat) l []) l3)))"

end
