(* ===== verification/UOpsSpec.thy ===== *)
theory UOpsSpec
  imports UOps
begin

text \<open>
  Properties of the node type: the iterative topological sort computes the depth-first order, for every gate.
\<close>

section \<open>Ordered lists\<close>

text \<open>\<open>ordered_by ch xs\<close>: in \<open>xs\<close> every node stands after all of its predecessors \<open>ch\<close>.\<close>

fun ordered_rev :: "('u \<Rightarrow> 'u list) \<Rightarrow> 'u list \<Rightarrow> bool" where
  "ordered_rev ch [] \<longleftrightarrow> True"
| "ordered_rev ch (u # xs) \<longleftrightarrow> set (ch u) \<subseteq> set xs \<and> ordered_rev ch xs"

definition ordered_by :: "('u \<Rightarrow> 'u list) \<Rightarrow> 'u list \<Rightarrow> bool" where
  "ordered_by ch xs \<longleftrightarrow> ordered_rev ch (rev xs)"

lemma ordered_by_Nil [simp]: "ordered_by ch []"
  by (simp add: ordered_by_def)

lemma ordered_by_snoc [simp]: "ordered_by ch (xs @ [u]) \<longleftrightarrow> set (ch u) \<subseteq> set xs \<and> ordered_by ch xs"
  by (auto simp: ordered_by_def)

lemma ordered_by_closed: "ordered_by ch xs \<Longrightarrow> u \<in> set xs \<Longrightarrow> set (ch u) \<subseteq> set xs"
  by (induction xs rule: rev_induct) auto

lemma ordered_by_nth: "ordered_by ch xs \<Longrightarrow> i < length xs \<Longrightarrow> set (ch (xs ! i)) \<subseteq> set (take i xs)"
  by (induction xs rule: rev_induct) (auto simp: nth_append less_Suc_eq)

lemma ordered_byI:
  "(\<And>i. i < length xs \<Longrightarrow> set (ch (xs ! i)) \<subseteq> set (take i xs)) \<Longrightarrow> ordered_by ch xs"
proof (induction xs rule: rev_induct)
  case Nil
  then show ?case by simp
next
  case (snoc x xs)
  have "set (ch (xs ! i)) \<subseteq> set (take i xs)" if "i < length xs" for i
    using snoc.prems [of i] that by (simp add: nth_append)
  moreover have "set (ch x) \<subseteq> set xs" using snoc.prems [of "length xs"] by simp
  ultimately show ?case using snoc.IH by simp
qed

section \<open>The depth-first order\<close>

text \<open>The reference: a node follows the nodes of its sources, each visited once.\<close>

function visit :: "(uop \<Rightarrow> bool) \<Rightarrow> bool \<Rightarrow> uop \<Rightarrow> uop list \<Rightarrow> uop list" where
  "visit gate enter u cache = (if u \<in> set cache \<or> \<not> gate u then cache
     else fold (visit gate enter) (children enter u) cache @ [u])"
  by pat_completeness auto
termination
proof (relation "measure (\<lambda>(gate, enter, u, cache). size u)")
  show "wf (measure (\<lambda>(gate :: uop \<Rightarrow> bool, enter :: bool, u :: uop, cache :: uop list). size u))" by simp
next
  fix gate enter u cache x xa
  assume "x \<in> set (children enter u)"
  then have "x \<in> set (u_src u)" by (auto simp: children_def split: if_splits dest: in_set_dropD)
  then show "((gate, enter, x, xa), gate, enter, u, cache) \<in> measure (\<lambda>(gate, enter, u, cache). size u)"
    by (simp add: size_src)
qed

declare visit.simps [simp del]

lemma children_smaller: "s \<in> set (children enter u) \<Longrightarrow> size s < size u"
  by (auto simp: children_def split: if_splits dest!: in_set_dropD intro: size_src)

definition gated :: "(uop \<Rightarrow> bool) \<Rightarrow> bool \<Rightarrow> uop \<Rightarrow> uop list" where
  "gated gate enter u = filter gate (children enter u)"

definition reach :: "(uop \<Rightarrow> bool) \<Rightarrow> bool \<Rightarrow> uop \<Rightarrow> uop set" where
  "reach gate enter u = {v. gate u \<and> (u, v) \<in> {(a, b). b \<in> set (gated gate enter a)}\<^sup>*}"

lemma reach_child: "s \<in> set (children enter u) \<Longrightarrow> gate u \<Longrightarrow> reach gate enter s \<subseteq> reach gate enter u"
  by (auto simp: reach_def gated_def intro: converse_rtrancl_into_rtrancl)

text \<open>What a visit keeps and adds.\<close>

definition grows :: "(uop \<Rightarrow> bool) \<Rightarrow> bool \<Rightarrow> uop list \<Rightarrow> uop list \<Rightarrow> uop set \<Rightarrow> bool" where
  "grows gate enter cache cache' new \<longleftrightarrow> set cache \<subseteq> set cache' \<and> set cache' \<subseteq> set cache \<union> new
     \<and> (distinct cache \<longrightarrow> distinct cache') \<and> (ordered_by (gated gate enter) cache \<longrightarrow> ordered_by (gated gate enter) cache')"

lemma fold_visit_grows:
  assumes "\<And>s c. s \<in> set xs \<Longrightarrow> grows gate enter c (visit gate enter s c) (reach gate enter s) \<and> (gate s \<longrightarrow> s \<in> set (visit gate enter s c))"
  shows "grows gate enter cache (fold (visit gate enter) xs cache) (\<Union>s \<in> set xs. reach gate enter s)
    \<and> (\<forall>s \<in> set xs. gate s \<longrightarrow> s \<in> set (fold (visit gate enter) xs cache))"
  using assms
proof (induction xs arbitrary: cache)
  case Nil
  then show ?case by (simp add: grows_def)
next
  case (Cons x xs)
  let ?c = "visit gate enter x cache"
  have 1: "grows gate enter cache ?c (reach gate enter x)" "gate x \<longrightarrow> x \<in> set ?c"
    using Cons.prems [of x cache] by auto
  have 2: "grows gate enter ?c (fold (visit gate enter) xs ?c) (\<Union>s \<in> set xs. reach gate enter s)
      \<and> (\<forall>s \<in> set xs. gate s \<longrightarrow> s \<in> set (fold (visit gate enter) xs ?c))"
    using Cons.IH Cons.prems by simp
  show ?case using 1 2 unfolding grows_def by auto
qed

lemma visit_grows:
  "grows gate enter cache (visit gate enter u cache) (reach gate enter u) \<and> (gate u \<longrightarrow> u \<in> set (visit gate enter u cache))"
proof (induction "size u" arbitrary: u cache rule: less_induct)
  case less
  show ?case
  proof (cases "u \<in> set cache \<or> \<not> gate u")
    case True
    then show ?thesis by (auto simp: visit.simps grows_def)
  next
    case False
    let ?d = "fold (visit gate enter) (children enter u) cache"
    have ch: "grows gate enter cache ?d (\<Union>s \<in> set (children enter u). reach gate enter s)"
      "\<forall>s \<in> set (children enter u). gate s \<longrightarrow> s \<in> set ?d"
      using fold_visit_grows [of "children enter u" gate enter cache] less children_smaller by blast+
    have sub: "(\<Union>s \<in> set (children enter u). reach gate enter s) \<subseteq> reach gate enter u - {u}"
    proof -
      have "size w < size u" if "s \<in> set (children enter u)" "w \<in> reach gate enter s" for s w
      proof -
        have "(s, w) \<in> {(a, b). b \<in> set (gated gate enter a)}\<^sup>*" using that(2) by (simp add: reach_def)
        then have "size w \<le> size s"
          by (induction rule: rtrancl_induct) (auto simp: gated_def dest!: children_smaller)
        then show ?thesis using children_smaller [OF that(1)] by simp
      qed
      then show ?thesis using reach_child False by blast
    qed
    have "u \<notin> set ?d" using ch(1) sub False unfolding grows_def by blast
    moreover have "set (gated gate enter u) \<subseteq> set ?d" using ch(2) by (auto simp: gated_def)
    moreover have "u \<in> reach gate enter u" using False by (simp add: reach_def)
    moreover have "set cache \<subseteq> set ?d" "set ?d \<subseteq> set cache \<union> reach gate enter u"
        "distinct cache \<longrightarrow> distinct ?d" "ordered_by (gated gate enter) cache \<longrightarrow> ordered_by (gated gate enter) ?d"
      using ch(1) sub unfolding grows_def by blast+
    ultimately show ?thesis using False
      unfolding visit.simps [of gate enter u cache] grows_def by (simp add: subset_insertI2)
  qed
qed

lemma visit_reach: "set (visit gate enter u []) = reach gate enter u"
proof
  show "set (visit gate enter u []) \<subseteq> reach gate enter u" using visit_grows [of gate enter "[]" u] by (auto simp: grows_def)
next
  have o: "ordered_by (gated gate enter) (visit gate enter u [])" and u: "gate u \<longrightarrow> u \<in> set (visit gate enter u [])"
    using visit_grows [of gate enter "[]" u] by (auto simp: grows_def)
  show "reach gate enter u \<subseteq> set (visit gate enter u [])"
  proof
    fix v assume v: "v \<in> reach gate enter u"
    then have "(u, v) \<in> {(a, b). b \<in> set (gated gate enter a)}\<^sup>*" "gate u" by (auto simp: reach_def)
    then show "v \<in> set (visit gate enter u [])"
      by (induction rule: rtrancl_induct) (use u ordered_by_closed [OF o] in auto)
  qed
qed

section \<open>The iterative traversal\<close>

lemma loop_Nil: "toposort_loop gate enter [] cache = Some cache"
  by (simp add: toposort_loop.simps)

lemma loop_children:
  assumes "\<And>s rest c. s \<in> set xs \<Longrightarrow> toposort_loop gate enter ((s, False) # rest) c = toposort_loop gate enter rest (visit gate enter s c)"
  shows "toposort_loop gate enter (map (\<lambda>s. (s, False)) xs @ rest) cache
    = toposort_loop gate enter rest (fold (visit gate enter) xs cache)"
  using assms by (induction xs arbitrary: cache) auto

lemma loop_visit:
  "toposort_loop gate enter ((u, False) # rest) cache = toposort_loop gate enter rest (visit gate enter u cache)"
proof (induction "size u" arbitrary: u rest cache rule: less_induct)
  case less
  show ?case
  proof (cases "u \<in> set cache \<or> \<not> gate u")
    case True
    then show ?thesis by (auto simp: visit.simps toposort_loop.simps [of gate enter "(u, False) # rest"])
  next
    case False
    let ?d = "fold (visit gate enter) (children enter u) cache"
    have "visit gate enter u cache = ?d @ [u]" using False by (simp add: visit.simps)
    moreover have "u \<notin> set ?d"
    proof
      assume "u \<in> set ?d"
      moreover have "grows gate enter cache ?d (\<Union>s \<in> set (children enter u). reach gate enter s)"
        using fold_visit_grows [of "children enter u"] visit_grows by blast
      ultimately obtain s where s: "s \<in> set (children enter u)" "u \<in> reach gate enter s" using False by (auto simp: grows_def)
      then have "(s, u) \<in> {(a, b). b \<in> set (gated gate enter a)}\<^sup>*" by (simp add: reach_def)
      then have "size u \<le> size s" by (induction rule: rtrancl_induct) (auto simp: gated_def dest!: children_smaller)
      then show False using children_smaller [OF s(1)] by simp
    qed
    moreover have "toposort_loop gate enter (map (\<lambda>s. (s, False)) (children enter u) @ (u, True) # rest) cache
        = toposort_loop gate enter ((u, True) # rest) ?d"
      by (rule loop_children) (use less children_smaller in blast)
    ultimately show ?thesis using False
      by (simp add: toposort_loop.simps [of gate enter "(u, False) # rest"] toposort_loop.simps [of gate enter "(u, True) # rest"])
  qed
qed

section \<open>Properties\<close>

text \<open>Property C26. The iterative topological sort always returns, with the nodes in depth-first order: no node twice, every node after
  its sources, and exactly the nodes reachable through the gate.\<close>

theorem toposort_is_depth_first:
  "\<exists>xs. toposort gate enter u = Some xs \<and> xs = visit gate enter u [] \<and> distinct xs
    \<and> ordered_by (gated gate enter) xs \<and> set xs = reach gate enter u"
  using loop_visit [of gate enter u "[]" "[]"] visit_grows [of gate enter "[]" u] visit_reach [of gate enter u]
  by (simp add: toposort_def loop_Nil grows_def)

lemma memory_owner_candidate:
  assumes "mk_memory_owner c v = Inr w"
  shows "mo_class w = c \<and> (mo_candidate w \<noteq> None \<longleftrightarrow> c = CANDIDATE_WORKSPACE)"
  using assms by (auto simp: mk_memory_owner_def split: if_splits)

end
