(* ===== verification/SchedulingSpec.thy ===== *)
theory SchedulingSpec
  imports Scheduling UOpsSpec "HOL-Library.Multiset"
begin

text \<open>
  Correctness of the schedulers.  \<open>ready_policy\<close> is the contract of a policy (it takes a node out of the ready
  collection and puts one in); under it the ready loop always ends with a topological permutation of the nodes.
  \<open>block_scheduler\<close> is the contract of a scheduler of straight-line blocks; under it the reordering of a whole
  list keeps its structural nodes in place and its dependencies in order.
\<close>

section \<open>The ready loop\<close>

locale ready_policy =
  fixes p :: "('u, 'x) policy"
  assumes pick_ready: "ready s \<noteq> [] \<Longrightarrow> pick p s \<in> set (ready s)"
    and push_adds: "mset (push p c r) = add_mset c (mset r)"
begin

lemma release_all:
  "(\<And>c. c \<in> set cs \<Longrightarrow> int (count_list cs c) \<le> indeg s c) \<Longrightarrow>
     indeg (fold (release_one p) cs s) = (\<lambda>c. indeg s c - int (count_list cs c))
     \<and> mset (ready (fold (release_one p) cs s)) = mset (ready s) + mset_set {c \<in> set cs. indeg s c = int (count_list cs c)}"
proof (induction cs arbitrary: s)
  case Nil
  then show ?case by simp
next
  case (Cons c cs)
  let ?s = "release_one p c s"
  have d: "indeg ?s = (indeg s)(c := indeg s c - 1)" by (simp add: release_one_def Let_def)
  have c: "1 + int (count_list cs c) \<le> indeg s c" using Cons.prems [of c] by simp
  have "int (count_list cs x) \<le> indeg ?s x" if "x \<in> set cs" for x
    using Cons.prems [of x] that by (auto simp: d split: if_splits)
  note ih = Cons.IH [OF this]
  have new: "{x \<in> set (c # cs). indeg s x = int (count_list (c # cs) x)}
      = (if indeg s c = 1 then insert c {x \<in> set cs. indeg ?s x = int (count_list cs x)} else {x \<in> set cs. indeg ?s x = int (count_list cs x)})
      \<and> (indeg s c = 1 \<longrightarrow> c \<notin> {x \<in> set cs. indeg ?s x = int (count_list cs x)})"
  proof (cases "c \<in> set cs")
    case True
    then have "count_list cs c \<noteq> 0" by (simp add: count_list_0_iff)
    then have "indeg s c \<noteq> 1" using c by linarith
    then show ?thesis using True by (auto simp: d)
  next
    case False
    then have "count_list cs c = 0" by (simp add: count_list_0_iff)
    then show ?thesis using False by (auto simp: d)
  qed
  have r: "mset (ready ?s) = mset (ready s) + (if indeg s c = 1 then {#c#} else {#})"
    by (simp add: release_one_def Let_def push_adds)
  show ?case using ih r new by (auto simp: d fun_eq_iff)
qed

end

text \<open>The graph that a loop drains: \<open>waits\<close> counts the pending releases of a node.\<close>

definition waits :: "('u \<Rightarrow> 'u list) \<Rightarrow> 'u list \<Rightarrow> 'u set \<Rightarrow> 'u \<Rightarrow> int" where
  "waits cons nodes emitted c = (\<Sum>u \<in> set nodes - emitted. int (count_list (cons u) c))"

definition preds :: "('u \<Rightarrow> 'u list) \<Rightarrow> 'u list \<Rightarrow> 'u \<Rightarrow> 'u list" where
  "preds cons nodes c = filter (\<lambda>u. c \<in> set (cons u)) nodes"

definition drain_inv :: "('u \<Rightarrow> 'u list) \<Rightarrow> 'u list \<Rightarrow> ('u, 'x) sched \<Rightarrow> 'u list \<Rightarrow> bool" where
  "drain_inv cons nodes s out \<longleftrightarrow> distinct (out @ ready s) \<and> set (out @ ready s) \<subseteq> set nodes
     \<and> (\<forall>c \<in> set nodes. indeg s c = waits cons nodes (set out) c)
     \<and> (\<forall>c \<in> set nodes. c \<in> set (out @ ready s) \<longleftrightarrow> waits cons nodes (set out) c = 0)
     \<and> ordered_by (preds cons nodes) out"

lemma waits_nonneg: "0 \<le> waits cons nodes e c"
  by (simp add: waits_def sum_nonneg)

lemma waits_emit:
  assumes "u \<in> set nodes" "u \<notin> e"
  shows "waits cons nodes (insert u e) c = waits cons nodes e c - int (count_list (cons u) c)"
proof -
  have "set nodes - insert u e = set nodes - e - {u}" by blast
  then show ?thesis using assms by (simp add: waits_def sum_diff1)
qed

lemma waits_zero: "waits cons nodes e c = 0 \<longleftrightarrow> (\<forall>u \<in> set nodes - e. c \<notin> set (cons u))"
  by (simp add: waits_def sum_nonneg_eq_0_iff count_list_0_iff)

lemma waits_ge: "u \<in> set nodes \<Longrightarrow> u \<notin> e \<Longrightarrow> int (count_list (cons u) c) \<le> waits cons nodes e c"
  unfolding waits_def by (rule member_le_sum) auto

context ready_policy
begin

lemma drain_step:
  assumes inv: "drain_inv cons nodes s out" and u: "u \<in> set (ready s)"
    and closed: "\<And>v. v \<in> set nodes \<Longrightarrow> set (cons v) \<subseteq> set nodes"
  shows "drain_inv cons nodes (fold (release_one p) (cons u) (s\<lparr>ready := remove1 u (ready s), extra := x\<rparr>)) (out @ [u])"
proof -
  let ?s = "s\<lparr>ready := remove1 u (ready s), extra := x\<rparr>"
  let ?t = "fold (release_one p) (cons u) ?s"
  note i = inv [unfolded drain_inv_def]
  have un: "u \<in> set nodes" "u \<notin> set out" using i u by auto
  have le: "int (count_list (cons u) c) \<le> indeg ?s c" if "c \<in> set (cons u)" for c
  proof -
    have "c \<in> set nodes" using closed [OF un(1)] that by blast
    then show ?thesis using i waits_ge [OF un, of cons c] by simp
  qed
  note rel = release_all [of "cons u" ?s, OF le]
  have w: "waits cons nodes (set (out @ [u])) c = waits cons nodes (set out) c - int (count_list (cons u) c)" for c
    using waits_emit [OF un, of cons c] by simp
  let ?new = "{c \<in> set (cons u). indeg ?s c = int (count_list (cons u) c)}"
  have new: "c \<in> ?new \<longleftrightarrow> c \<in> set (cons u) \<and> waits cons nodes (set (out @ [u])) c = 0" for c
    using i closed [OF un(1)] w [of c] by auto
  have fresh: "c \<notin> set (out @ ready s)" if "c \<in> set (cons u)" for c
  proof -
    have "c \<in> set nodes" using closed [OF un(1)] that by blast
    moreover have "waits cons nodes (set out) c \<noteq> 0" using un that by (auto simp: waits_zero)
    ultimately show ?thesis using i by blast
  qed
  have m: "mset (ready ?t) = mset (remove1 u (ready s)) + mset_set ?new" using rel by simp
  then have "set_mset (mset (ready ?t)) = set_mset (mset (remove1 u (ready s)) + mset_set ?new)" by (rule arg_cong)
  then have sets: "set (ready ?t) = set (remove1 u (ready s)) \<union> ?new" by (simp del: mset_remove1)
  have drem: "set (remove1 u (ready s)) = set (ready s) - {u}" using i by (simp add: set_remove1_eq)
  have dis: "distinct (ready ?t)"
  proof -
    have "set (remove1 u (ready s)) \<inter> ?new = {}" using fresh drem by auto
    moreover have "distinct (remove1 u (ready s))" using i by simp
    ultimately have "mset (ready ?t) = mset_set (set (remove1 u (ready s)) \<union> ?new)"
      unfolding m by (simp add: mset_set_Union mset_set_set)
    then have "mset (ready ?t) = mset_set (set (ready ?t))" using sets by simp
    then show ?thesis unfolding distinct_count_atmost_1 by (metis List.finite_set count_mset_set(1,3))
  qed
  have d: "distinct ((out @ [u]) @ ready ?t)" using dis i sets drem fresh u un by auto
  have sub: "set ((out @ [u]) @ ready ?t) \<subseteq> set nodes" using i sets drem closed [OF un(1)] un by auto
  have deg: "\<forall>c \<in> set nodes. indeg ?t c = waits cons nodes (set (out @ [u])) c" using i rel w by simp
  have z: "c \<in> set ((out @ [u]) @ ready ?t) \<longleftrightarrow> waits cons nodes (set (out @ [u])) c = 0" if "c \<in> set nodes" for c
  proof (cases "c \<in> set (cons u)")
    case True
    then show ?thesis using fresh [OF True] sets drem new [of c] u by auto
  next
    case False
    then have "count_list (cons u) c = 0" by (simp add: count_list_0_iff)
    then have "waits cons nodes (set (out @ [u])) c = waits cons nodes (set out) c" using w by simp
    then show ?thesis using i that False sets drem u by auto
  qed
  have "waits cons nodes (set out) u = 0" using i u un(1) by auto
  then have "set (preds cons nodes u) \<subseteq> set out" by (auto simp: preds_def waits_zero)
  then have o: "ordered_by (preds cons nodes) (out @ [u])" using i by simp
  show ?thesis unfolding drain_inv_def using d sub deg z o by blast
qed

lemma drain_ends:
  assumes closed: "\<And>v. v \<in> set nodes \<Longrightarrow> set (cons v) \<subseteq> set nodes"
  shows "drain_inv cons nodes s out \<Longrightarrow> length (remdups nodes) \<le> n + length out \<Longrightarrow>
    \<exists>res (t :: ('u, 'x) sched). drain p cons n s out = Some res \<and> drain_inv cons nodes t res \<and> ready t = []"
proof (induction n arbitrary: s out)
  case 0
  have "ready s = []"
  proof -
    have "card (set (out @ ready s)) \<le> card (set nodes)" using 0(1) by (auto simp: drain_inv_def intro: card_mono)
    moreover have "card (set (out @ ready s)) = length out + length (ready s)"
      using 0(1) distinct_card [of "out @ ready s"] by (simp add: drain_inv_def)
    ultimately have "length (ready s) = 0" using 0(2) unfolding length_remdups_card_conv by linarith
    then show ?thesis by simp
  qed
  then show ?case using 0(1) by (intro exI [of _ out] exI [of _ s]) (simp add: drain.simps)
next
  case (Suc n)
  show ?case
  proof (cases "ready s = []")
    case True
    then show ?thesis using Suc.prems by (intro exI [of _ out] exI [of _ s]) (simp add: drain.simps)
  next
    case False
    let ?u = "pick p s"
    note step = drain_step [OF Suc.prems(1) pick_ready [OF False] closed, of "issue p ?u s"]
    obtain res and t :: "('u, 'x) sched" where "drain p cons n (fold (release_one p) (cons ?u) (s\<lparr>ready := remove1 ?u (ready s), extra := issue p ?u s\<rparr>)) (out @ [?u]) = Some res"
        "drain_inv cons nodes t res" "ready t = []"
      using Suc.IH [OF step] Suc.prems(2) by auto
    then show ?thesis using False by (subst drain.simps) (auto simp: Let_def)
  qed
qed

text \<open>The loop drains an acyclic graph completely, in topological order.\<close>

lemma drain_topological:
  fixes rank :: "'u \<Rightarrow> nat"
  assumes d: "distinct nodes" and closed: "\<And>v. v \<in> set nodes \<Longrightarrow> set (cons v) \<subseteq> set nodes"
    and acyclic: "\<And>v c. v \<in> set nodes \<Longrightarrow> c \<in> set (cons v) \<Longrightarrow> rank v < rank c"
    and deg: "\<And>c. c \<in> set nodes \<Longrightarrow> indeg s c = waits cons nodes {} c"
    and start: "distinct (ready s)" "set (ready s) = {c \<in> set nodes. waits cons nodes {} c = 0}"
  shows "\<exists>out. drain p cons (length nodes) s [] = Some out \<and> mset out = mset nodes \<and> ordered_by (preds cons nodes) out"
proof -
  have "drain_inv cons nodes s []" using deg start by (auto simp: drain_inv_def)
  then obtain out and t :: "('u, 'x) sched" where out: "drain p cons (length nodes) s [] = Some out" "drain_inv cons nodes t out" "ready t = []"
    using drain_ends [where nodes = nodes and cons = cons and s = s and out = "[]" and n = "length nodes"] closed length_remdups_leq [of nodes] by auto
  have "c \<in> set out" if "c \<in> set nodes" for c
    using that
  proof (induction "rank c" arbitrary: c rule: less_induct)
    case less
    show ?case
    proof (rule ccontr)
      assume "c \<notin> set out"
      then have "waits cons nodes (set out) c \<noteq> 0" using out(2,3) less.prems by (simp add: drain_inv_def)
      then obtain u where "u \<in> set nodes" "u \<notin> set out" "c \<in> set (cons u)" by (auto simp: waits_zero)
      then show False using less.hyps acyclic by blast
    qed
  qed
  then have "set out = set nodes" "distinct out" using out(2) by (auto simp: drain_inv_def)
  then have "mset out = mset nodes" using d set_eq_iff_mset_eq_distinct by blast
  then show ?thesis using out by (auto simp: drain_inv_def)
qed

end

section \<open>Blocks\<close>

text \<open>A node of a block waits for its sources inside the block.\<close>

lemma set_in_srcs: "set (in_srcs block u) = set (u_src u) \<inter> set block"
  by (auto simp: in_srcs_def)

lemma set_all_srcs: "set (all_srcs block u) = set (u_src u) \<inter> set block"
  by (auto simp: all_srcs_def)

lemma ordered_by_cong: "(\<And>u. u \<in> set xs \<Longrightarrow> set (f u) = set (g u)) \<Longrightarrow> ordered_by f xs = ordered_by g xs"
  by (induction xs rule: rev_induct) auto

lemma count_list_replicate: "count_list (replicate n x) y = (if x = y then n else 0)"
  by (induction n) auto

lemma count_consumers:
  assumes "distinct block"
  shows "count_list (consumers deps block s) c = (if c \<in> set block then count_list (deps c) s else 0)"
  using assms unfolding consumers_def
  by (induction block) (auto simp: count_list_append count_list_0_iff count_list_replicate)

lemma set_consumers: "set (consumers deps block s) = {u \<in> set block. s \<in> set (deps u)}"
  by (auto simp: consumers_def count_list_0_iff)

lemma sum_count_list: "finite A \<Longrightarrow> set xs \<subseteq> A \<Longrightarrow> (\<Sum>x \<in> A. int (count_list xs x)) = int (length xs)"
  by (simp add: sum_count_set flip: of_nat_sum)

lemma block_degrees:
  assumes "distinct block" "set (deps c) \<subseteq> set block" "c \<in> set block"
  shows "waits (consumers deps block) block {} c = int (length (deps c))"
  using assms by (simp add: waits_def count_consumers sum_count_list)

locale block_policy = ready_policy p for p :: "(uop, 'x) policy"
begin

lemma run_block_topological:
  assumes d: "distinct block" and deps: "\<And>u. set (deps u) = set (u_src u) \<inter> set block"
    and first: "mset first = mset (initially_ready deps block)"
  shows "\<exists>out. run_block p deps block first x = Some out \<and> mset out = mset block \<and> ordered_by (in_srcs block) out"
proof -
  let ?s = "\<lparr>indeg = (\<lambda>u. int (length (deps u))), ready = first, extra = x\<rparr>"
  have sub: "set (deps c) \<subseteq> set block" for c using deps by blast
  note w = block_degrees [OF d sub]
  have ex: "\<exists>out. drain p (consumers deps block) (length block) ?s [] = Some out \<and> mset out = mset block
      \<and> ordered_by (preds (consumers deps block) block) out"
  proof (rule drain_topological [OF d, where rank = size])
    show "set (consumers deps block v) \<subseteq> set block" for v by (auto simp: set_consumers)
    show "size v < size c" if "c \<in> set (consumers deps block v)" for v c
    proof -
      have "v \<in> set (deps c)" using that by (simp add: set_consumers)
      then have "v \<in> set (u_src c)" using deps by blast
      then show ?thesis by (rule size_src)
    qed
    show "indeg ?s c = waits (consumers deps block) block {} c" if "c \<in> set block" for c
      using w [OF that] by simp
    have "distinct (initially_ready deps block)" using d by (simp add: initially_ready_def)
    then show "distinct (ready ?s)" using mset_eq_imp_distinct_iff [OF first] by simp
    show "set (ready ?s) = {c \<in> set block. waits (consumers deps block) block {} c = 0}"
      using w mset_eq_setD [OF first] by (auto simp: initially_ready_def)
  qed
  then obtain out where out: "drain p (consumers deps block) (length block) ?s [] = Some out" "mset out = mset block"
      "ordered_by (preds (consumers deps block) block) out" by blast
  have "ordered_by (in_srcs block) out = ordered_by (preds (consumers deps block) block) out"
  proof (rule ordered_by_cong)
    fix u assume "u \<in> set out"
    then have "u \<in> set block" using out(2) mset_eq_setD by blast
    then show "set (in_srcs block u) = set (preds (consumers deps block) block u)"
      using deps by (auto simp: preds_def set_consumers set_in_srcs)
  qed
  then have "ordered_by (in_srcs block) out" using out(3) by blast
  then show ?thesis using out(1,2) mset_eq_length [OF out(2)] by (simp add: run_block_def)
qed

end

text \<open>The policies of the program.\<close>

lemma first_min_in: "xs \<noteq> [] \<Longrightarrow> first_min f xs \<in> set xs"
proof (cases xs)
  case (Cons x ys)
  have "fold (\<lambda>y m. if f y < f m then y else m) ys x \<in> set (x # ys)" for x
    by (induction ys arbitrary: x) (auto split: if_splits)
  then show ?thesis using Cons by simp
qed simp

lemma first_max_in: "xs \<noteq> [] \<Longrightarrow> first_max f xs \<in> set xs"
proof (cases xs)
  case (Cons x ys)
  have "fold (\<lambda>y m. if f m < f y then y else m) ys x \<in> set (x # ys)" for x
    by (induction ys arbitrary: x) (auto split: if_splits)
  then show ?thesis using Cons by simp
qed simp

interpretation latency: block_policy "latency_policy block" for block
proof unfold_locales
  fix s :: "(uop, cycles) sched"
  assume "ready s \<noteq> []"
  then show "pick (latency_policy block) s \<in> set (ready s)"
    using first_min_in [of "filter (\<lambda>u. ready_cycle block (extra s) u \<le> cy_clock (extra s)) (ready s)" "position block"]
      first_min_in [of "ready s" "position block"]
    by (auto simp: latency_policy_def Let_def)
qed (simp add: latency_policy_def)

interpretation reversing: block_policy "reverse_policy block" for block
  by unfold_locales (simp_all add: reverse_policy_def)

interpretation critical: block_policy "critical_policy lat block" for lat block
  by unfold_locales (simp_all add: critical_policy_def first_min_in)

interpretation pressing: block_policy "pressure_policy block" for block
  by unfold_locales (simp_all add: pressure_policy_def first_max_in)

interpretation nearest: block_policy "nearest_policy ordered" for ordered
  by unfold_locales (simp_all add: nearest_policy_def first_min_in)

section \<open>Reordering a list\<close>

lemma ordered_by_append:
  "ordered_by ch xs \<Longrightarrow> (\<And>i. i < length ys \<Longrightarrow> set (ch (ys ! i)) \<subseteq> set xs \<union> set (take i ys)) \<Longrightarrow> ordered_by ch (xs @ ys)"
proof (induction ys rule: rev_induct)
  case Nil
  then show ?case by simp
next
  case (snoc y ys)
  have "set (ch (ys ! i)) \<subseteq> set xs \<union> set (take i ys)" if "i < length ys" for i
    using snoc.prems(2) [of i] that by (simp add: nth_append)
  moreover have "set (ch y) \<subseteq> set xs \<union> set ys" using snoc.prems(2) [of "length ys"] by simp
  ultimately have "ordered_by ch ((xs @ ys) @ [y])" using snoc.IH snoc.prems(1) unfolding ordered_by_snoc by simp
  then show ?case by simp
qed

lemma ordered_by_split: "ordered_by ch (xs @ u # ys) \<Longrightarrow> set (ch u) \<subseteq> set xs"
  using ordered_by_nth [of ch "xs @ u # ys" "length xs"] by simp

locale block_scheduler =
  fixes sched :: "uop list \<Rightarrow> uop list option"
  assumes sched_topological:
    "distinct block \<Longrightarrow> ordered_by (in_srcs block) block \<Longrightarrow>
       \<exists>out. sched block = Some out \<and> mset out = mset block \<and> ordered_by (in_srcs block) out"
begin

text \<open>\<open>pre\<close> are the nodes already written out, \<open>N\<close> the nodes of the whole list.\<close>

lemma flush_topological:
  assumes o: "ordered_by ch (pre @ block @ us)" and d: "distinct (pre @ block @ us)"
    and ch: "\<And>u. set (ch u) = set (u_src u) \<inter> N" and N: "set (pre @ block @ us) \<subseteq> N"
  shows "\<exists>b. flush sched block = Some b \<and> mset b = mset block
    \<and> (\<forall>pre'. set pre' = set pre \<longrightarrow> ordered_by ch pre' \<longrightarrow> ordered_by ch (pre' @ b))"
proof (cases "block = []")
  case True
  then show ?thesis by (simp add: flush_def)
next
  case False
  have before: "set (ch (block ! i)) \<subseteq> set pre \<union> set (take i block)" if "i < length block" for i
    using ordered_by_nth [OF o, of "length pre + i"] that by (simp add: nth_append)
  have "ordered_by (in_srcs block) block"
  proof (rule ordered_byI)
    fix i assume i: "i < length block"
    have "set (in_srcs block (block ! i)) \<subseteq> set (ch (block ! i)) \<inter> set block" using ch N by (auto simp: set_in_srcs)
    moreover have "set pre \<inter> set block = {}" using d by auto
    ultimately show "set (in_srcs block (block ! i)) \<subseteq> set (take i block)" using before [OF i] by blast
  qed
  moreover have "distinct block" using d by simp
  ultimately obtain b where b: "sched block = Some b" "mset b = mset block" "ordered_by (in_srcs block) b"
    using sched_topological by blast
  have sb: "set b = set block" using b(2) by (rule mset_eq_setD)
  have "ordered_by ch (pre' @ b)" if p: "set pre' = set pre" "ordered_by ch pre'" for pre'
  proof (rule ordered_by_append [OF p(2)])
    fix i assume i: "i < length b"
    then obtain j where "j < length block" "b ! i = block ! j" using sb by (metis in_set_conv_nth nth_mem)
    then have "set (ch (b ! i)) \<subseteq> set pre \<union> set block" using before [of j] set_take_subset [of j block] by auto
    moreover have "set (in_srcs block (b ! i)) \<subseteq> set (take i b)" by (rule ordered_by_nth [OF b(3) i])
    ultimately show "set (ch (b ! i)) \<subseteq> set pre' \<union> set (take i b)" using ch p(1) by (auto simp: set_in_srcs)
  qed
  then show ?thesis using b False by (simp add: flush_def)
qed

lemma reorder_from:
  assumes "ordered_by ch (pre @ block @ us)" "distinct (pre @ block @ us)" "set (pre @ block @ us) \<subseteq> N"
    and ch: "\<And>u. set (ch u) = set (u_src u) \<inter> N"
  shows "\<exists>out. reorder structural sched us block = Some out \<and> mset out = mset (block @ us)
    \<and> (\<forall>i < length us. structural (us ! i) \<longrightarrow> out ! (length block + i) = us ! i)
    \<and> (\<forall>pre'. set pre' = set pre \<longrightarrow> ordered_by ch pre' \<longrightarrow> ordered_by ch (pre' @ out))"
  using assms(1-3)
proof (induction us arbitrary: pre block)
  case Nil
  show ?case using flush_topological [OF Nil(1,2) ch Nil(3)] by simp
next
  case (Cons u us)
  show ?case
  proof (cases "structural u")
    case False
    have "\<exists>out. reorder structural sched us (block @ [u]) = Some out \<and> mset out = mset ((block @ [u]) @ us)
      \<and> (\<forall>i < length us. structural (us ! i) \<longrightarrow> out ! (length (block @ [u]) + i) = us ! i)
      \<and> (\<forall>pre'. set pre' = set pre \<longrightarrow> ordered_by ch pre' \<longrightarrow> ordered_by ch (pre' @ out))"
      by (rule Cons.IH) (use Cons.prems in simp_all)
    then show ?thesis using False by (auto simp: nth_Cons split: nat.splits)
  next
    case True
    obtain b where b: "flush sched block = Some b" "mset b = mset block"
        "\<And>pre'. set pre' = set pre \<Longrightarrow> ordered_by ch pre' \<Longrightarrow> ordered_by ch (pre' @ b)"
      using flush_topological [OF Cons.prems(1,2) ch Cons.prems(3)] by blast
    have sb: "set b = set block" "length b = length block" using b(2) mset_eq_setD mset_eq_length by auto
    have "\<exists>out. reorder structural sched us [] = Some out \<and> mset out = mset ([] @ us)
      \<and> (\<forall>i < length us. structural (us ! i) \<longrightarrow> out ! (length ([] :: uop list) + i) = us ! i)
      \<and> (\<forall>pre'. set pre' = set (pre @ block @ [u]) \<longrightarrow> ordered_by ch pre' \<longrightarrow> ordered_by ch (pre' @ out))"
      by (rule Cons.IH) (use Cons.prems in simp_all)
    then obtain r where r: "reorder structural sched us [] = Some r" "mset r = mset us"
        "\<forall>i < length us. structural (us ! i) \<longrightarrow> r ! i = us ! i"
        "\<And>pre'. set pre' = set (pre @ block @ [u]) \<Longrightarrow> ordered_by ch pre' \<Longrightarrow> ordered_by ch (pre' @ r)"
      by auto
    have "ordered_by ch (pre' @ b @ u # r)" if p: "set pre' = set pre" "ordered_by ch pre'" for pre'
    proof -
      have "set (ch u) \<subseteq> set (pre @ block)" by (rule ordered_by_split [where ys = us]) (use Cons.prems(1) in simp)
      then have "ordered_by ch ((pre' @ b) @ [u])" unfolding ordered_by_snoc using b(3) [OF p] p(1) sb(1) by simp
      then have "ordered_by ch (((pre' @ b) @ [u]) @ r)" by (rule r(4) [rotated]) (use p(1) sb(1) in simp)
      then show ?thesis by simp
    qed
    then show ?thesis using True b(1,2) r(1-3) sb(2)
      by (auto simp: nth_append nth_Cons split: nat.splits)
  qed
qed

lemma reorder_topological:
  assumes "distinct lst" "ordered_by (in_srcs lst) lst"
  shows "\<exists>out. reorder structural sched lst [] = Some out \<and> mset out = mset lst
    \<and> (\<forall>i < length lst. structural (lst ! i) \<longrightarrow> out ! i = lst ! i) \<and> ordered_by (in_srcs lst) out"
  using reorder_from [of "in_srcs lst" "[]" "[]" lst "set lst" structural] assms by (simp add: set_in_srcs)

end

interpretation latency_blocks: block_scheduler schedule_block
  by unfold_locales (use latency.run_block_topological in \<open>auto simp: schedule_block_def set_in_srcs\<close>)

interpretation pressure_blocks: block_scheduler pressure_schedule_block
  by unfold_locales (use pressing.run_block_topological in \<open>auto simp: pressure_schedule_block_def set_in_srcs\<close>)

interpretation reverse_blocks: block_scheduler revtopo
  by unfold_locales (use reversing.run_block_topological in \<open>auto simp: revtopo_def set_all_srcs\<close>)

interpretation critical_blocks: block_scheduler "critical_block lat" for lat
  by unfold_locales (use critical.run_block_topological in \<open>auto simp: critical_block_def set_all_srcs\<close>)

lemma keep_permutation_same: "mset out = mset lst \<Longrightarrow> keep_permutation lst out = out"
  using mset_eq_length [of out lst] mset_eq_setD [of out lst] by (simp add: keep_permutation_def)

section \<open>The linear order\<close>

lemma gated_all: "gated (\<lambda>_. True) True u = u_src u"
  by (simp add: gated_def children_def)

lemma reach_all: "reach (\<lambda>_. True) True u = {v. (u, v) \<in> {(a, b). b \<in> set (u_src a)}\<^sup>*}"
  by (simp add: reach_def gated_all)

lemma reach_all_closed: "v \<in> reach (\<lambda>_. True) True u \<Longrightarrow> set (u_src v) \<subseteq> reach (\<lambda>_. True) True u"
  unfolding reach_all by (auto intro: rtrancl_into_rtrancl)

lemma reach_all_parent:
  "v \<in> reach (\<lambda>_. True) True u \<Longrightarrow> v \<noteq> u \<Longrightarrow> \<exists>w \<in> reach (\<lambda>_. True) True u. v \<in> set (u_src w)"
  unfolding reach_all by (auto elim: rtranclE)

lemma reach_all_size: "v \<in> reach (\<lambda>_. True) True u \<Longrightarrow> size v \<le> size u"
proof -
  assume "v \<in> reach (\<lambda>_. True) True u"
  then have "(u, v) \<in> {(a, b). b \<in> set (u_src a)}\<^sup>*" by (simp add: reach_all)
  then show ?thesis by (induction rule: rtrancl_induct) (auto dest: size_src)
qed

lemma ordered_by_rev:
  assumes o: "ordered_by (preds u_src nodes) out" and m: "set out = set nodes" "distinct out"
    and closed: "\<And>u. u \<in> set nodes \<Longrightarrow> set (u_src u) \<subseteq> set nodes"
  shows "ordered_by u_src (rev out)"
proof (rule ordered_byI)
  fix i assume i: "i < length (rev out)"
  define j where "j = length out - Suc i"
  have j: "rev out ! i = out ! j" "j < length out" "set (take i (rev out)) = set (drop (Suc j) out)"
    using i by (auto simp: j_def rev_nth take_rev Suc_diff_Suc)
  show "set (u_src (rev out ! i)) \<subseteq> set (take i (rev out))"
  proof
    fix s assume s: "s \<in> set (u_src (rev out ! i))"
    have "out ! j \<in> set nodes" using j(2) m(1) nth_mem by blast
    moreover have "s \<in> set (u_src (out ! j))" using s unfolding j(1) .
    ultimately have "s \<in> set out" "out ! j \<in> set (preds u_src nodes s)" using closed m(1) by (auto simp: preds_def)
    then obtain k where k: "k < length out" "out ! k = s" by (auto simp: in_set_conv_nth)
    then have "out ! j \<in> set (take k out)"
      using ordered_by_nth [OF o k(1)] \<open>out ! j \<in> set (preds u_src nodes s)\<close> by auto
    then obtain l where "l < k" "out ! l = out ! j" using k(1) by (auto simp: in_set_conv_nth)
    then have "j < k" using m(2) k(1) j(2) by (simp add: nth_eq_iff_index_eq)
    then have "s \<in> set (drop (Suc j) out)" using k by (auto simp: in_set_conv_nth intro!: exI [of _ "k - Suc j"])
    then show "s \<in> set (take i (rev out))" using j(3) by simp
  qed
qed

lemma linear_order_topological:
  "\<exists>out. linear_order run_count tie sink = Some out \<and> distinct out
     \<and> set out = reach (\<lambda>_. True) True sink \<and> ordered_by u_src out"
proof -
  obtain lst where lst: "toposort (\<lambda>_. True) True sink = Some lst" "distinct lst" "set lst = reach (\<lambda>_. True) True sink"
    using toposort_is_depth_first by blast
  let ?s = "\<lparr>indeg = out_degree lst, ready = [sink], extra = ()\<rparr>"
  have sink: "sink \<in> set lst" by (simp add: lst(3) reach_all)
  have w: "waits u_src lst {} c = out_degree lst c" for c
    using lst(2) by (simp add: waits_def out_degree_def sum_list_distinct_conv_sum_set)
  have closed: "set (u_src v) \<subseteq> set lst" if "v \<in> set lst" for v
    using that reach_all_closed unfolding lst(3) by blast
  have ex: "\<exists>out. drain (nearest_policy (ideal_order run_count tie lst)) u_src (length lst) ?s [] = Some out
      \<and> mset out = mset lst \<and> ordered_by (preds u_src lst) out"
  proof (rule nearest.drain_topological [OF lst(2) closed, where rank = "\<lambda>v. size sink - size v"])
    show "size sink - size v < size sink - size c" if "v \<in> set lst" "c \<in> set (u_src v)" for v c
    proof -
      have "size v \<le> size sink" using that(1) lst(3) reach_all_size by blast
      then show ?thesis using size_src [OF that(2)] by simp
    qed
    show "indeg ?s c = waits u_src lst {} c" for c by (simp add: w)
    show "distinct (ready ?s)" by simp
    have "waits u_src lst {} sink = 0"
    proof -
      have "sink \<notin> set (u_src v)" if "v \<in> set lst" for v
      proof
        assume "sink \<in> set (u_src v)"
        then have "size sink < size v" by (rule size_src)
        moreover have "size v \<le> size sink" using that lst(3) reach_all_size by blast
        ultimately show False by simp
      qed
      then show ?thesis by (simp add: waits_zero)
    qed
    moreover have "c = sink" if c: "c \<in> set lst" "waits u_src lst {} c = 0" for c
    proof (rule ccontr)
      assume "c \<noteq> sink"
      then obtain w where "w \<in> set lst" "c \<in> set (u_src w)"
        using c(1) reach_all_parent [of c sink] unfolding lst(3) by blast
      then show False using c(2) unfolding waits_zero by blast
    qed
    ultimately have "{c \<in> set lst. waits u_src lst {} c = 0} = {sink}" using sink by blast
    then show "set (ready ?s) = {c \<in> set lst. waits u_src lst {} c = 0}" by simp
  qed
  then obtain out where out: "drain (nearest_policy (ideal_order run_count tie lst)) u_src (length lst) ?s [] = Some out"
      "mset out = mset lst" "ordered_by (preds u_src lst) out" by blast
  have so: "set out = set lst" using out(2) by (rule mset_eq_setD)
  have "distinct out" using mset_eq_imp_distinct_iff [OF out(2)] lst(2) by simp
  moreover have "ordered_by u_src (rev out)" by (rule ordered_by_rev [OF out(3) so calculation closed])
  ultimately show ?thesis using out(1) so lst(1,3) by (simp add: linear_order_def)
qed

lemma ordered_all:
  assumes "distinct lst" "\<And>u. u \<in> set lst \<Longrightarrow> set (u_src u) \<subseteq> set lst"
  shows "ordered_by (in_srcs lst) lst = ordered_by u_src lst"
  using assms(2) by (intro ordered_by_cong) (auto simp: set_in_srcs)

lemma ordered_closed: "ordered_by u_src lst \<Longrightarrow> u \<in> set lst \<Longrightarrow> set (u_src u) \<subseteq> set lst"
  by (rule ordered_by_closed)

lemma list_schedule_ok:
  assumes "distinct lst" "ordered_by (in_srcs lst) lst"
  shows "\<exists>out. list_schedule lst = Some out \<and> mset out = mset lst \<and> ordered_by (in_srcs lst) out
    \<and> (\<forall>i < length lst. u_op (lst ! i) \<in> set structural_ops \<longrightarrow> out ! i = lst ! i)"
  using latency_blocks.reorder_topological [OF assms, of "\<lambda>u. u_op u \<in> set structural_ops"]
  by (auto simp: list_schedule_def keep_permutation_same)

text \<open>A pass over the whole list that a scheduler of blocks provides.\<close>

definition good_order :: "uop list \<Rightarrow> uop list \<Rightarrow> bool" where
  "good_order l l' \<longleftrightarrow> distinct l' \<and> set l' = set l \<and> ordered_by u_src l'"

lemma pass_good:
  assumes "distinct l" "ordered_by u_src l"
    and "distinct l \<Longrightarrow> ordered_by (in_srcs l) l \<Longrightarrow>
      \<exists>out. f l = Some out \<and> mset out = mset l \<and> ordered_by (in_srcs l) out"
  shows "\<exists>out. when_flag b f l = Some out \<and> good_order l out"
proof (cases b)
  case True
  have "ordered_by (in_srcs l) l = ordered_by u_src l"
    by (rule ordered_all [OF assms(1)]) (rule ordered_by_closed [OF assms(2)])
  then obtain out where out: "f l = Some out" "mset out = mset l" "ordered_by (in_srcs l) out" using assms by blast
  have so: "set out = set l" using out(2) by (rule mset_eq_setD)
  have "ordered_by (in_srcs l) out = ordered_by u_src out"
    using so ordered_by_closed [OF assms(2)] by (intro ordered_by_cong) (auto simp: set_in_srcs)
  then show ?thesis using True out so mset_eq_imp_distinct_iff [OF out(2)] assms(1) by (simp add: when_flag_def good_order_def)
next
  case False
  then show ?thesis using assms by (simp add: when_flag_def good_order_def)
qed

section \<open>Properties\<close>

text \<open>Property C27. The latency-aware list scheduler returns a permutation of its list in which every node still follows its
  sources and every structural node (loop boundary, barrier, definition) keeps its position.\<close>

theorem list_schedule_topological:
  assumes "distinct lst" "ordered_by (in_srcs lst) lst"
  shows "\<exists>out. list_schedule lst = Some out \<and> mset out = mset lst
    \<and> (\<forall>i < length lst. u_op (lst ! i) \<in> set structural_ops \<longrightarrow> out ! i = lst ! i) \<and> ordered_by (in_srcs lst) out"
  using list_schedule_ok [OF assms] by blast

definition leaf :: "op \<Rightarrow> int \<Rightarrow> uop" where
  "leaf x n = UOp x dt_float32 [] (PInt n) NoTag"

definition node :: "op \<Rightarrow> uop list \<Rightarrow> uop" where
  "node x src = UOp x dt_float32 src PNone NoTag"

definition sample_list :: "uop list" where
  "sample_list = (let c = leaf ''CONST'' 1; l = node ''LOAD'' [c]; a = node ''ADD'' [l, c]; b = node ''NEG'' [c]; m = node ''MUL'' [a, b]
     in [c, l, a, b, m, node ''SINK'' [m]])"

lemma list_schedule_topological_witness:
  "\<exists>out. list_schedule sample_list = Some out \<and> mset out = mset sample_list \<and> out ! 5 = sample_list ! 5
     \<and> out ! 2 = sample_list ! 3"
proof -
  have a: "distinct sample_list" "ordered_by (in_srcs sample_list) sample_list"
    unfolding ordered_by_def by code_simp+
  obtain out where out: "list_schedule sample_list = Some out" "mset out = mset sample_list"
      "\<forall>i < length sample_list. u_op (sample_list ! i) \<in> set structural_ops \<longrightarrow> out ! i = sample_list ! i"
    using list_schedule_topological [OF a] by blast
  have "length sample_list = 6 \<and> u_op (sample_list ! 5) \<in> set structural_ops" by code_simp
  moreover have "map_option (\<lambda>l. l ! 2) (list_schedule sample_list) = Some (sample_list ! 3)" by code_simp
  ultimately show ?thesis using out by auto
qed

text \<open>Property C28. The register-pressure scheduler returns a permutation of its list in which every node still follows its sources
  and every structural node keeps its position.\<close>

theorem pressure_schedule_topological:
  assumes "distinct lst" "ordered_by (in_srcs lst) lst"
  shows "\<exists>out. pressure_schedule lst = Some out \<and> mset out = mset lst
    \<and> (\<forall>i < length lst. u_op (lst ! i) \<in> set pressure_structural \<longrightarrow> out ! i = lst ! i) \<and> ordered_by (in_srcs lst) out"
  using pressure_blocks.reorder_topological [OF assms, of "\<lambda>u. u_op u \<in> set pressure_structural"] assms
  by (auto simp: pressure_schedule_def keep_permutation_same)

definition lease :: "int \<Rightarrow> register" where
  "lease n = Register ''v'' n [Register ''r'' 7 [] \<lparr>span_count = 1, span_alignment = 1\<rparr> False] \<lparr>span_count = 1, span_alignment = 1\<rparr> False"

definition sample_instructions :: "uop list" where
  "sample_instructions = (let a = UOp ''INS'' dt_float32 [] (PInt 1) (RegTag [lease 1]); b = UOp ''INS'' dt_float32 [] (PInt 2) (RegTag [lease 2]);
     p = UOp ''INS'' dt_float32 [a] (PInt 3) NoTag; q = UOp ''INS'' dt_float32 [b] (PInt 4) NoTag in [a, b, p, q])"

lemma pressure_schedule_topological_witness:
  "\<exists>out. pressure_schedule sample_instructions = Some out \<and> mset out = mset sample_instructions
     \<and> map u_arg out = [PInt 1, PInt 3, PInt 2, PInt 4]"
proof -
  have a: "distinct sample_instructions" "ordered_by (in_srcs sample_instructions) sample_instructions"
    unfolding ordered_by_def by code_simp+
  have "map_option (map u_arg) (pressure_schedule sample_instructions) = Some [PInt 1, PInt 3, PInt 2, PInt 4]" by code_simp
  then show ?thesis using pressure_schedule_topological [OF a] by auto
qed

text \<open>Property C29. Linearization always returns, whatever the priorities and whichever scheduling passes are switched on: every node
  that the sink depends on occurs exactly once, after all of its sources.\<close>

theorem linearize_topological:
  "\<exists>out. linearize flags lat run_count tie sink = Some out \<and> distinct out
     \<and> set out = reach (\<lambda>_. True) True sink \<and> ordered_by u_src out"
proof -
  obtain l1 where l1: "linear_order run_count tie sink = Some l1" "distinct l1" "set l1 = reach (\<lambda>_. True) True sink" "ordered_by u_src l1"
    using linear_order_topological by blast
  have "\<exists>l2. when_flag (sf_list flags) list_schedule l1 = Some l2 \<and> good_order l1 l2"
    by (rule pass_good [OF l1(2,4)]) (use list_schedule_ok [of l1] in blast)
  then obtain l2 where l2: "when_flag (sf_list flags) list_schedule l1 = Some l2" "good_order l1 l2" by blast
  have o2: "distinct l2" "ordered_by u_src l2" using l2(2) by (simp_all add: good_order_def)
  have "\<exists>l3. when_flag (sf_probe flags) (\<lambda>l. reorder (\<lambda>u. u_op u \<in> set structural_ops) revtopo l []) l2 = Some l3 \<and> good_order l2 l3"
    by (rule pass_good [OF o2]) (use reverse_blocks.reorder_topological [of l2] in blast)
  then obtain l3 where l3: "when_flag (sf_probe flags) (\<lambda>l. reorder (\<lambda>u. u_op u \<in> set structural_ops) revtopo l []) l2 = Some l3"
      "good_order l2 l3" by blast
  have o3: "distinct l3" "ordered_by u_src l3" using l3(2) by (simp_all add: good_order_def)
  have "\<exists>l4. when_flag (sf_modulo flags) (\<lambda>l. reorder (\<lambda>u. u_op u \<in> set structural_ops) (critical_block lat) l []) l3 = Some l4
      \<and> good_order l3 l4"
    by (rule pass_good [OF o3]) (use critical_blocks.reorder_topological [of l3] in blast)
  then obtain l4 where l4: "when_flag (sf_modulo flags) (\<lambda>l. reorder (\<lambda>u. u_op u \<in> set structural_ops) (critical_block lat) l []) l3 = Some l4"
      "good_order l3 l4" by blast
  have "linearize flags lat run_count tie sink = Some l4" unfolding linearize_def using l1(1) l2(1) l3(1) l4(1) by simp
  then show ?thesis using l1(3) l2(2) l3(2) l4(2) by (simp add: good_order_def)
qed

end
