(* ===== verification/ModelFacts.thy ===== *)
theory ModelFacts
  imports PyVal
begin

text \<open>
  Facts about a model (\<open>tinygrad/llm/model_facts.py\<close>): the role vocabulary, the tensor and model records and
  the resolver that gives a weight of a dense Qwen model its role by name and shape.  The metadata
  of the GGUF file is a dynamically typed value; a tensor row is a mapping or a sequence.  The two
  functions that read attributes of a runtime linear take those attributes as arguments.
\<close>

definition qk_route_roles :: "string list" where
  "qk_route_roles = [''ffn_gate_up'', ''ffn_down'', ''attn_qo'', ''attn_kv'', ''lm_head'']"

definition route_role_aliases :: "(string \<times> string) list" where
  "route_role_aliases =
    [(''ffn_gate'', ''ffn_gate_up''), (''ffn_up'', ''ffn_gate_up''), (''ffn_gate_up'', ''ffn_gate_up''),
     (''ffn_gate_shexp'', ''ffn_gate_up''), (''ffn_up_shexp'', ''ffn_gate_up''),
     (''ffn_down'', ''ffn_down''), (''ffn_down_shexp'', ''ffn_down''),
     (''attn_q'', ''attn_qo''), (''attn_output'', ''attn_qo''), (''attn_qo'', ''attn_qo''),
     (''attn_k'', ''attn_kv''), (''attn_v'', ''attn_kv''), (''attn_kv'', ''attn_kv''),
     (''output'', ''lm_head''), (''lm_head'', ''lm_head'')]"

definition ggml_quant_labels :: "(int \<times> string) list" where
  "ggml_quant_labels = [(12, ''Q4_K''), (14, ''Q6_K'')]"

definition strip_weight :: "string \<Rightarrow> string" where
  "strip_weight s = (if str_endswith s ''.weight'' then take (length s - 7) s else s)"

definition normalize_route_role :: "string \<Rightarrow> string" where
  "normalize_route_role v = (case map_of route_role_aliases (last_component (strip_weight v)) of None \<Rightarrow> v | Some r \<Rightarrow> r)"

text \<open>The attributes of a runtime linear that the two functions look at; an absent attribute is empty.\<close>

record linear_attrs =
  la_packed :: bool
  la_q4k :: bool
  la_q6k :: bool
  la_prefill_graph_role :: string
  la_route_role :: string
  la_role :: string
  la_name :: string

definition packed_linear_quant :: "linear_attrs \<Rightarrow> string" where
  "packed_linear_quant l = (if \<not> la_packed l then [] else if la_q4k l then ''Q4_K'' else if la_q6k l then ''Q6_K'' else [])"

definition route_role_for_linear :: "linear_attrs \<Rightarrow> string" where
  "route_role_for_linear l = (case filter (\<lambda>v. v \<noteq> []) [la_prefill_graph_role l, la_route_role l, la_role l] of
       v # _ \<Rightarrow> normalize_route_role v
     | [] \<Rightarrow> (let role = normalize_route_role (la_name l) in if role \<in> set qk_route_roles then role else []))"

section \<open>Records\<close>

record tensor_fact =
  tf_name :: string
  tf_module_path :: string
  tf_ggml_type :: int
  tf_rows :: int
  tf_cols :: int
  tf_quant_label :: string
  tf_role :: "string option"

definition tensor_shape :: "tensor_fact \<Rightarrow> int \<times> int" where
  "tensor_shape t = (tf_rows t, tf_cols t)"

definition tensor_fact_json :: "tensor_fact \<Rightarrow> pyval" where
  "tensor_fact_json t = PDict [(''name'', PStr (tf_name t)), (''module_path'', PStr (tf_module_path t)),
     (''ggml_type'', PInt (tf_ggml_type t)), (''rows'', PInt (tf_rows t)), (''cols'', PInt (tf_cols t)),
     (''quant_label'', PStr (tf_quant_label t)), (''role'', pstr_opt (tf_role t))]"

record role_resolver =
  rr_architecture :: string
  rr_hidden_size :: "int option"
  rr_intermediate_size :: "int option"
  rr_n_heads :: "int option"
  rr_n_kv_heads :: "int option"
  rr_head_dim :: "int option"

record model_facts =
  mf_architecture :: string
  mf_hidden_size :: "int option"
  mf_intermediate_size :: "int option"
  mf_n_heads :: "int option"
  mf_n_kv_heads :: "int option"
  mf_head_dim :: "int option"
  mf_tensors :: "tensor_fact list"

definition tensors_for_role :: "model_facts \<Rightarrow> string \<Rightarrow> tensor_fact list" where
  "tensors_for_role m role = filter (\<lambda>t. tf_role t = Some role) (mf_tensors m)"

definition model_facts_json :: "model_facts \<Rightarrow> pyval" where
  "model_facts_json m = PDict [(''architecture'', PStr (mf_architecture m)), (''hidden_size'', pint_opt (mf_hidden_size m)),
     (''intermediate_size'', pint_opt (mf_intermediate_size m)), (''n_heads'', pint_opt (mf_n_heads m)),
     (''n_kv_heads'', pint_opt (mf_n_kv_heads m)), (''head_dim'', pint_opt (mf_head_dim m)),
     (''tensors'', PList (map tensor_fact_json (mf_tensors m)))]"

section \<open>The resolver\<close>

definition int_or_none :: "pyval \<Rightarrow> int option result" where
  "int_or_none v = (if v = PNone then Inr None else rbind (py_int v) (\<lambda>i. Inr (Some i)))"

definition default_head_dim :: "int option \<Rightarrow> int option \<Rightarrow> int option \<Rightarrow> int option" where
  "default_head_dim head_dim hidden n_heads = (case (head_dim, hidden, n_heads) of
       (None, Some h, Some n) \<Rightarrow> if n \<noteq> 0 then Some (h div n) else None | _ \<Rightarrow> head_dim)"

definition resolver_from_kv :: "pyval \<Rightarrow> role_resolver result" where
  "resolver_from_kv kv =
     (let arch = py_str (pget_default kv ''general.architecture'' (PStr [])) in
      rbind (int_or_none (pget kv (arch @ ''.embedding_length''))) (\<lambda>hidden.
      rbind (int_or_none (pget kv (arch @ ''.attention.head_count''))) (\<lambda>heads.
      rbind (int_or_none (pget_default kv (arch @ ''.attention.head_count_kv'') (pint_opt heads))) (\<lambda>kv_heads.
      rbind (int_or_none (pget kv (arch @ ''.attention.key_length''))) (\<lambda>head_dim.
      rbind (int_or_none (pget kv (arch @ ''.feed_forward_length''))) (\<lambda>inter.
        Inr \<lparr>rr_architecture = arch, rr_hidden_size = hidden, rr_intermediate_size = inter, rr_n_heads = heads,
             rr_n_kv_heads = kv_heads, rr_head_dim = default_head_dim head_dim hidden heads\<rparr>))))))"

definition times_opt :: "int option \<Rightarrow> int option \<Rightarrow> int option" where
  "times_opt a b = (case (a, b) of (Some x, Some y) \<Rightarrow> Some (x * y) | _ \<Rightarrow> None)"

definition kv_size :: "role_resolver \<Rightarrow> int option" where
  "kv_size r = times_opt (rr_n_kv_heads r) (rr_head_dim r)"

definition q_size :: "role_resolver \<Rightarrow> int option" where
  "q_size r = times_opt (rr_n_heads r) (rr_head_dim r)"

definition if_shape :: "int \<Rightarrow> int \<Rightarrow> int option \<Rightarrow> int option \<Rightarrow> string \<Rightarrow> string option" where
  "if_shape rows cols expected_rows expected_cols role =
     (if expected_rows \<noteq> None \<and> Some rows \<noteq> expected_rows then None
      else if expected_cols \<noteq> None \<and> Some cols \<noteq> expected_cols then None
      else Some role)"

text \<open>\<open>".".join(name.rsplit(".", 2)[-2:])\<close>: the last two components.\<close>

definition name_suffix :: "string \<Rightarrow> string" where
  "name_suffix name = (if CHR ''.'' \<in> set name
     then (let parts = split_at CHR ''.'' name in str_join ''.'' (drop (length parts - 2) parts)) else name)"

definition resolve_role :: "role_resolver \<Rightarrow> string \<Rightarrow> int \<Rightarrow> int \<Rightarrow> string option" where
  "resolve_role r name rows cols =
     (let suffix = name_suffix name in
      if \<not> str_startswith (rr_architecture r) ''qwen'' then None
      else if suffix \<in> set [''ffn_gate.weight'', ''ffn_up.weight''] then
        if_shape rows cols (rr_intermediate_size r) (rr_hidden_size r) ''ffn_gate_up''
      else if suffix = ''ffn_down.weight'' then if_shape rows cols (rr_hidden_size r) (rr_intermediate_size r) ''ffn_down''
      else if suffix = ''attn_q.weight'' then if_shape rows cols (q_size r) (rr_hidden_size r) ''attn_qo''
      else if suffix = ''attn_output.weight'' then if_shape rows cols (rr_hidden_size r) (q_size r) ''attn_qo''
      else if suffix \<in> set [''attn_k.weight'', ''attn_v.weight''] then if_shape rows cols (kv_size r) (rr_hidden_size r) ''attn_kv''
      else if suffix = ''output.weight'' \<or> str_endswith name ''lm_head.weight'' then
        if_shape rows cols None (rr_hidden_size r) ''lm_head''
      else None)"

section \<open>Tensor rows\<close>

definition tensor_info_fields :: "pyval \<Rightarrow> (pyval \<times> pyval \<times> pyval) result" where
  "tensor_info_fields row =
     (if is_mapping row then rbind (pindex row ''name'') (\<lambda>name.
        Inr (name, pget_default row ''dims'' (pget row ''shape''), pget_default row ''type'' (pget row ''ggml_type'')))
      else (case row of
          PList (a # b # c # _) \<Rightarrow> Inr (a, b, c)
        | PTuple (a # b # c # _) \<Rightarrow> Inr (a, b, c)
        | PStr (a # b # c # _) \<Rightarrow> Inr (PStr [a], PStr [b], PStr [c])
        | PList _ \<Rightarrow> Inl ValueError | PTuple _ \<Rightarrow> Inl ValueError | PStr _ \<Rightarrow> Inl ValueError
        | _ \<Rightarrow> Inl TypeError))"

definition normalize_tensor_info :: "pyval \<Rightarrow> (string \<times> int list \<times> int) result" where
  "normalize_tensor_info row = rbind (tensor_info_fields row) (\<lambda>(name, dims, typ).
     rbind (py_iter dims) (\<lambda>ds. rbind (rmap py_int ds) (\<lambda>ns. rbind (py_int typ) (\<lambda>t. Inr (py_str name, ns, t)))))"

definition matrix_rows_cols :: "int list \<Rightarrow> int \<times> int" where
  "matrix_rows_cols dims = (case dims of [] \<Rightarrow> (1, 1) | [d] \<Rightarrow> (d, 1) | d # e # _ \<Rightarrow> (e, d))"

text \<open>\<open>name.rsplit(".", 1)[0]\<close>.\<close>

definition without_last :: "string \<Rightarrow> string" where
  "without_last name = str_join ''.'' (butlast (split_at CHR ''.'' name))"

definition module_path :: "string \<Rightarrow> string" where
  "module_path name = (if str_endswith name ''.weight'' then take (length name - 7) name
     else if CHR ''.'' \<in> set name then without_last name else name)"

definition tensor_fact_from_row :: "role_resolver option \<Rightarrow> pyval \<Rightarrow> tensor_fact result" where
  "tensor_fact_from_row resolver row = rbind (normalize_tensor_info row) (\<lambda>(name, dims, typ).
     (case matrix_rows_cols dims of (rows, cols) \<Rightarrow>
        Inr \<lparr>tf_name = name, tf_module_path = module_path name, tf_ggml_type = typ, tf_rows = rows, tf_cols = cols,
             tf_quant_label = (case map_of ggml_quant_labels typ of None \<Rightarrow> ''GGML_TYPE_'' @ str_int typ | Some l \<Rightarrow> l),
             tf_role = (case resolver of None \<Rightarrow> None | Some r \<Rightarrow> resolve_role r name rows cols)\<rparr>))"

definition is_route_weight_row :: "pyval \<Rightarrow> bool result" where
  "is_route_weight_row row = rbind (normalize_tensor_info row) (\<lambda>(name, dims, _).
     Inr (str_endswith name ''.weight'' \<and> length dims = 2))"

text \<open>The comprehension filters and converts row by row.\<close>

definition keep_row :: "role_resolver \<Rightarrow> pyval \<Rightarrow> tensor_fact list \<Rightarrow> tensor_fact list result" where
  "keep_row r row acc = rbind (is_route_weight_row row) (\<lambda>b.
     if b then rbind (tensor_fact_from_row (Some r) row) (\<lambda>t. Inr (acc @ [t])) else Inr acc)"

definition model_facts_from_gguf_metadata :: "pyval \<Rightarrow> pyval \<Rightarrow> model_facts result" where
  "model_facts_from_gguf_metadata kv meta =
     rbind (resolver_from_kv kv) (\<lambda>r.
     rbind (py_iter (pget_default meta ''tensor_infos'' (PTuple []))) (\<lambda>rows.
     rbind (rfold (keep_row r) rows []) (\<lambda>ts.
       Inr \<lparr>mf_architecture = rr_architecture r, mf_hidden_size = rr_hidden_size r,
            mf_intermediate_size = rr_intermediate_size r, mf_n_heads = rr_n_heads r, mf_n_kv_heads = rr_n_kv_heads r,
            mf_head_dim = rr_head_dim r, mf_tensors = ts\<rparr>)))"

end
