(* ===== verification/RoutePlan.thy ===== *)
theory RoutePlan
  imports ModelFacts
begin

text \<open>
  Route policies and route plans (\<open>tinygrad/llm/model_route_plan.py\<close>).  A serialized route policy is validated
  row by row against the routes that the program and the manifest support; a route plan gives every
  packed weight of a model its kernel family and options.  The text of the policy file after \<open>json.loads\<close> is the
  argument \<open>data\<close>; the manifest registry is a dictionary of JSON rows, or absent.
\<close>

section \<open>Supported routes\<close>

definition kind_decode_flash :: string where "kind_decode_flash = ''decode_flash''"
definition kind_q4k_g3 :: string where "kind_q4k_g3 = ''decode_q4k_g3''"
definition kind_q6k_gen :: string where "kind_q6k_gen = ''decode_q6k_generated''"
definition kind_prefill_gen :: string where "kind_prefill_gen = ''prefill_generated''"

type_synonym registry = "(string, pyval) dict"
type_synonym params = "(string \<times> string) list"

text \<open>A route's specification; \<open>ro_env\<close> is the environment of its manifest row, if it has one.\<close>

record route_spec =
  ro_kind :: string
  ro_env :: "(string \<times> pyval) list option"
  ro_compat :: "params list"

definition route_policy_local :: "(string, route_spec) dict" where
  "route_policy_local =
    [(''decode_flash_block_tile_g5_konly'', \<lparr>ro_kind = kind_decode_flash, ro_env = None, ro_compat = [[(''DECODE_LIVE_SPLIT'', ''1'')]]\<rparr>),
     (''decode_flash_live_split_g4_kvboth'', \<lparr>ro_kind = kind_decode_flash, ro_env = None, ro_compat = [[(''DECODE_LIVE_SPLIT'', ''1'')]]\<rparr>),
     (''decode_q4k_g3_generated'', \<lparr>ro_kind = kind_q4k_g3, ro_env = None, ro_compat = [[(''BUBBLEBEAM_FUTURESIGHT'', ''1'')]]\<rparr>),
     (''decode_q6k_coop_generated'', \<lparr>ro_kind = kind_q6k_gen, ro_env = None, ro_compat = [[(''DECODE_Q6K_GENERATED'', ''1'')]]\<rparr>)]"

text \<open>A row of the manifest that concerns decoding or prefill, with its environment and status.\<close>

record manifest_route =
  mr_env :: "(string \<times> pyval) list"
  mr_status :: pyval

definition manifest_row :: "string \<times> pyval \<Rightarrow> (string \<times> manifest_route) list \<Rightarrow> (string \<times> manifest_route) list result" where
  "manifest_row kv acc = rbind (get_of (snd kv) ''workload'' PNone) (\<lambda>w.
     if w \<noteq> PStr ''decode'' \<and> w \<noteq> PStr ''prefill'' then Inr acc
     else rbind (py_dict (pget_default (snd kv) ''env'' (PDict []))) (\<lambda>env.
       Inr (dset (fst kv) \<lparr>mr_env = env, mr_status = pget (snd kv) ''status''\<rparr> acc)))"

definition manifest_routes :: "registry option \<Rightarrow> (string, manifest_route) dict result" where
  "manifest_routes reg = (case reg of None \<Rightarrow> Inr [] | Some rows \<Rightarrow> rfold manifest_row rows [])"

definition shipped :: "manifest_route \<Rightarrow> bool" where
  "shipped m = (mr_status m = PStr ''promoted_default'' \<or> mr_status m = PStr ''default_shipped'')"

definition add_shipped :: "string \<times> manifest_route \<Rightarrow> (string, route_spec) dict \<Rightarrow> (string, route_spec) dict" where
  "add_shipped rm specs = (if \<not> shipped (snd rm) then specs
     else (case map_of specs (fst rm) of
         Some s \<Rightarrow> specs
       | None \<Rightarrow> dset (fst rm) \<lparr>ro_kind = (if str_startswith (fst rm) ''prefill_'' then kind_prefill_gen else kind_decode_flash),
                    ro_env = None, ro_compat = []\<rparr> specs))"

definition add_env :: "string \<times> manifest_route \<Rightarrow> (string, route_spec) dict \<Rightarrow> (string, route_spec) dict" where
  "add_env rm specs = (case map_of specs (fst rm) of
       None \<Rightarrow> specs | Some s \<Rightarrow> dset (fst rm) (s\<lparr>ro_env := Some (mr_env (snd rm))\<rparr>) specs)"

definition qk_route_specs :: "registry option \<Rightarrow> (string, route_spec) dict result" where
  "qk_route_specs reg = rbind (manifest_routes reg) (\<lambda>ms. Inr (fold add_env ms (fold add_shipped ms route_policy_local)))"

definition supported_qk_route_ids :: "registry option \<Rightarrow> string list result" where
  "supported_qk_route_ids reg = rbind (qk_route_specs reg) (\<lambda>s. Inr (map fst s))"

section \<open>Validation of a policy row\<close>

definition str_params :: "(string \<times> pyval) list \<Rightarrow> params" where
  "str_params d = sort (map (\<lambda>kv. (fst kv, py_str (snd kv))) d)"

definition params_allowed :: "route_spec \<Rightarrow> params list" where
  "params_allowed s = str_params (case ro_env s of None \<Rightarrow> [] | Some e \<Rightarrow> e) # map sort (ro_compat s)"

definition validate_route_params :: "route_spec \<Rightarrow> (string \<times> pyval) list \<Rightarrow> unit result" where
  "validate_route_params s params =
     (let allowed = params_allowed s; keys = map fst (concat allowed) in
      if list_ex (\<lambda>kv. fst kv \<notin> set keys) params then Inl ValueError
      else if str_params params \<notin> set allowed then Inl ValueError else Inr ())"

text \<open>Every KeyError, TypeError and ValueError of the conversion becomes a ValueError.\<close>

definition shape_rows_cols :: "pyval \<Rightarrow> (int \<times> int) result" where
  "shape_rows_cols row =
     (let shape = pget_default row ''shape'' (PDict []) in
      case rbind (pindex shape ''rows'') (\<lambda>r. rbind (py_int r) (\<lambda>r. rbind (pindex shape ''cols'') (\<lambda>c. rbind (py_int c) (\<lambda>c. Inr (r, c))))) of
        Inl _ \<Rightarrow> Inl ValueError
      | Inr rc \<Rightarrow> if fst rc \<le> 0 \<or> snd rc \<le> 0 then Inl ValueError else Inr rc)"

function freeze :: "pyval \<Rightarrow> pyval" where
  "freeze (PDict d) = PDict (map (\<lambda>kv. (fst kv, freeze (snd kv))) d)"
| "freeze (PList xs) = PTuple (map freeze xs)"
| "freeze (PTuple xs) = PTuple (map freeze xs)"
| "freeze PNone = PNone"
| "freeze (PBool b) = PBool b"
| "freeze (PInt i) = PInt i"
| "freeze (PStr s) = PStr s"
  by pat_completeness auto
termination
  by (relation "measure size") (auto simp: less_Suc_eq_le size_list_estimation' size_snd_dict [simplified less_Suc_eq_le])

record route_policy =
  rp_provenance :: pyval
  rp_selected :: "(string, pyval) dict"
  rp_q4k_g3 :: "pyval list"
  rp_q6k_gen :: "pyval list"
  rp_prefill_gen :: "pyval list"

definition setdefault :: "'k \<Rightarrow> 'v \<Rightarrow> ('k, 'v) dict \<Rightarrow> ('k, 'v) dict" where
  "setdefault k v d = (if map_of d k = None then dset k v d else d)"

text \<open>A row without a selected route is skipped; an unhashable identifier raises TypeError in the membership test.\<close>

definition selected_spec :: "(string, route_spec) dict \<Rightarrow> pyval \<Rightarrow> (string \<times> route_spec) result" where
  "selected_spec specs rid = (case rid of
       PStr s \<Rightarrow> (case map_of specs s of None \<Rightarrow> Inl ValueError | Some sp \<Rightarrow> Inr (s, sp))
     | PList _ \<Rightarrow> Inl TypeError | PDict _ \<Rightarrow> Inl TypeError | _ \<Rightarrow> Inl ValueError)"

definition file_row :: "string \<Rightarrow> string \<Rightarrow> pyval \<Rightarrow> route_policy \<Rightarrow> route_policy" where
  "file_row kind rid row p =
     (let p' = (if kind = kind_q4k_g3 then p\<lparr>rp_q4k_g3 := rp_q4k_g3 p @ [row]\<rparr>
                else if kind = kind_q6k_gen then p\<lparr>rp_q6k_gen := rp_q6k_gen p @ [row]\<rparr>
                else p\<lparr>rp_prefill_gen := rp_prefill_gen p @ [row]\<rparr>)
      in p'\<lparr>rp_selected := setdefault rid row (rp_selected p')\<rparr>)"

definition policy_row :: "(string, route_spec) dict \<Rightarrow> pyval \<Rightarrow> route_policy \<Rightarrow> route_policy result" where
  "policy_row specs row p = rbind (get_of row ''selected_route'' PNone) (\<lambda>rid.
     if \<not> truthy rid then Inr p
     else rbind (selected_spec specs rid) (\<lambda>(s, sp).
          rbind (py_dict (pget_default row ''route_params'' (PDict []))) (\<lambda>params.
          rbind (validate_route_params sp params) (\<lambda>_.
            if ro_kind sp = kind_decode_flash then Inr (p\<lparr>rp_selected := dset s (freeze row) (rp_selected p)\<rparr>)
            else if ro_kind sp \<in> set [kind_q4k_g3, kind_q6k_gen, kind_prefill_gen] then
              rbind (shape_rows_cols row) (\<lambda>_. Inr (file_row (ro_kind sp) s (freeze row) p))
            else Inr (p\<lparr>rp_selected := dset s (freeze row) (rp_selected p)\<rparr>)))))"

definition load_qk_route_policy :: "pyval \<Rightarrow> registry option \<Rightarrow> route_policy result" where
  "load_qk_route_policy data reg = rbind (get_of data ''schema'' PNone) (\<lambda>schema.
     if schema \<noteq> PStr ''boltbeam.route_policy.v1'' then Inl ValueError
     else rbind (qk_route_specs reg) (\<lambda>specs.
          rbind (py_iter (pget_default data ''routes'' (PList []))) (\<lambda>rows.
            rfold (policy_row specs) rows
              \<lparr>rp_provenance = freeze (PDict (filter (\<lambda>kv. fst kv \<noteq> ''routes'') (items data))), rp_selected = [],
               rp_q4k_g3 = [], rp_q6k_gen = [], rp_prefill_gen = []\<rparr>)))"

section \<open>Queries on a policy\<close>

definition same_shape :: "(string \<times> int) list \<Rightarrow> pyval \<Rightarrow> bool result" where
  "same_shape shape cand = rbind (py_dict (pget_default cand ''shape'' (PDict []))) (\<lambda>ps.
     if set (map fst ps) \<noteq> set (map fst shape) then Inr False
     else rfold (\<lambda>kv b. if \<not> b then Inr False
            else rbind (dget ps (fst kv)) (\<lambda>v. rbind (py_int v) (\<lambda>i. Inr (i = snd kv)))) shape True)"

text \<open>The first candidate with the shape decides; the candidates after it are not looked at.\<close>

definition qk_route_policy_selected :: "string \<Rightarrow> (string \<times> int) list option \<Rightarrow> route_policy option \<Rightarrow> bool result" where
  "qk_route_policy_selected rid shape policy = (case policy of
       None \<Rightarrow> Inr False
     | Some p \<Rightarrow> (case map_of (rp_selected p) rid of
         None \<Rightarrow> Inr False
       | Some row \<Rightarrow> (case shape of
           None \<Rightarrow> Inr True
         | Some sh \<Rightarrow> (let rows = filter (\<lambda>c. pget c ''selected_route'' = PStr rid) (rp_prefill_gen p);
                           cands = (if rows = [] then [row] else rows)
                       in rfold (\<lambda>c found. if found then Inr True else same_shape sh c) cands False))))"

definition row_has_shape :: "int \<Rightarrow> int \<Rightarrow> pyval \<Rightarrow> bool result" where
  "row_has_shape out_features in_features row =
     (let shape = items (pget_default row ''shape'' (PDict [])) in
      case (map_of shape ''rows'', map_of shape ''cols'') of
        (Some r, Some c) \<Rightarrow> rbind (py_int r) (\<lambda>r. if r \<noteq> out_features then Inr False
            else rbind (py_int c) (\<lambda>c. Inr (c = in_features)))
      | _ \<Rightarrow> Inr False)"

definition any_row :: "int \<Rightarrow> int \<Rightarrow> pyval list \<Rightarrow> bool result" where
  "any_row out_features in_features rows =
     rfold (\<lambda>row found. if found then Inr True else row_has_shape out_features in_features row) rows False"

definition selects_q4k_g3 :: "int \<Rightarrow> int \<Rightarrow> route_policy option \<Rightarrow> bool result" where
  "selects_q4k_g3 out_features in_features policy = (case policy of None \<Rightarrow> Inr False
     | Some p \<Rightarrow> any_row out_features in_features (rp_q4k_g3 p))"

definition selects_q6k_generated :: "int \<Rightarrow> int \<Rightarrow> route_policy option \<Rightarrow> bool result" where
  "selects_q6k_generated out_features in_features policy = (case policy of None \<Rightarrow> Inr False
     | Some p \<Rightarrow> any_row out_features in_features (rp_q6k_gen p))"

section \<open>The route plan of a model\<close>

text \<open>A module path and a role are kept as they were given, whatever their type.\<close>

record route_entry =
  re_name :: string
  re_module_path :: pyval
  re_quant_label :: string
  re_rows :: int
  re_cols :: int
  re_role :: pyval
  re_parts :: int
  re_opts :: "string list"
  re_family :: string
  re_kernel_mode :: string

text \<open>This module's \<open>_module_path\<close> keeps a name without the suffix.\<close>

definition default_route :: "string \<Rightarrow> string \<Rightarrow> string \<Rightarrow> int \<Rightarrow> int \<Rightarrow> (int \<times> string list) option" where
  "default_route name quant role rows cols =
     (let family = normalize_route_role role in
      if rows \<le> 0 \<or> cols \<le> 0 \<or> cols mod 256 \<noteq> 0 then None
      else if quant = ''Q4_K'' \<and> family \<in> set [''ffn_gate_up'', ''attn_qo'', ''attn_kv''] then Some (1, [''LOCAL:0:64''])
      else if quant = ''Q4_K'' \<and> family = ''ffn_down'' then Some (4, [''LOCAL:0:32''])
      else if quant = ''Q6_K'' \<and> (family = ''ffn_down'' \<or> family = ''lm_head'' \<or> name = ''output.weight'') then Some (1, [''LOCAL:0:64''])
      else if quant = ''Q6_K'' \<and> family = ''attn_kv'' \<and> last_component (strip_weight name) = ''attn_v'' then Some (4, [''LOCAL:0:32''])
      else None)"

definition truthy_or :: "pyval \<Rightarrow> pyval \<Rightarrow> pyval" where
  "truthy_or a b = (if truthy a then a else b)"

text \<open>\<open>v.rsplit(".", 1)[-1]\<close>, which only a string has.\<close>

definition last_part :: "pyval \<Rightarrow> pyval result" where
  "last_part v = (case v of PStr s \<Rightarrow> Inr (PStr (last_component s)) | _ \<Rightarrow> Inl AttributeError)"

definition primitive_route_entry ::
  "string \<Rightarrow> int \<Rightarrow> int \<Rightarrow> int \<Rightarrow> pyval \<Rightarrow> pyval \<Rightarrow> pyval \<Rightarrow> route_entry option result" where
  "primitive_route_entry name typ rows cols mpath quant_label role =
     (let mpath' = truthy_or mpath (PStr (strip_weight name)) in
      rbind (if truthy role then Inr role else last_part mpath') (\<lambda>role'.
      let quant = truthy_or quant_label (PStr (if typ = 12 then ''Q4_K'' else if typ = 14 then ''Q6_K'' else [])) in
      Inr (case quant of
          PStr q \<Rightarrow> (case default_route name q (py_str role') rows cols of
              None \<Rightarrow> None
            | Some (parts, opts) \<Rightarrow> Some \<lparr>re_name = name, re_module_path = mpath', re_quant_label = q, re_rows = rows,
                re_cols = cols, re_role = role', re_parts = parts, re_opts = opts,
                re_family = (if typ = 12 then ''q4_k_packed_u32'' else ''q6_k_packed_u16''), re_kernel_mode = ''partial''\<rparr>)
        | _ \<Rightarrow> None)))"

text \<open>What the plan builder may be given: an entry made before, which is taken as it is, or the items of a dictionary, or
  the attributes of an object such as a tensor fact.\<close>

datatype plan_record = EntryRecord route_entry | FieldsRecord "(string, pyval) dict"

definition fact_record :: "tensor_fact \<Rightarrow> plan_record" where
  "fact_record t = FieldsRecord (items (tensor_fact_json t))"

definition record_dims :: "pyval \<Rightarrow> pyval \<Rightarrow> pyval \<Rightarrow> (pyval \<times> pyval) result" where
  "record_dims rows cols dims =
     (if (rows = PNone \<or> cols = PNone) \<and> dims \<noteq> PNone
      then rbind (py_iter dims) (\<lambda>ds. Inr (case ds of [d0, d1] \<Rightarrow> (d1, d0) | _ \<Rightarrow> (rows, cols)))
      else Inr (rows, cols))"

definition record_entry :: "plan_record \<Rightarrow> route_entry option result" where
  "record_entry r = (case r of EntryRecord e \<Rightarrow> Inr (Some e)
     | FieldsRecord d \<Rightarrow>
        (let v = PDict d; name = pget_default v ''name'' (pget v ''tensor''); typ = pget_default v ''ggml_type'' (pget v ''typ'') in
         rbind (record_dims (pget v ''rows'') (pget v ''cols'') (pget v ''dims'')) (\<lambda>(rows, cols).
         if name = PNone \<or> typ = PNone \<or> rows = PNone \<or> cols = PNone then Inr None
         else rbind (py_int typ) (\<lambda>t. rbind (py_int rows) (\<lambda>r. rbind (py_int cols) (\<lambda>c.
           primitive_route_entry (py_str name) t r c (pget v ''module_path'') (pget v ''quant_label'') (pget v ''role'')))))))"

text \<open>The fallback reads rows of exactly four fields from the metadata.\<close>

definition entry_list :: "route_entry option \<Rightarrow> route_entry list" where
  "entry_list e = (case e of None \<Rightarrow> [] | Some x \<Rightarrow> [x])"

definition tensor_entry :: "pyval \<Rightarrow> pyval \<Rightarrow> pyval \<Rightarrow> route_entry list result" where
  "tensor_entry name dims typ =
     (if \<not> str_endswith (py_str name) ''.weight'' then Inr []
      else rbind (py_iter dims) (\<lambda>ds. case ds of
          [d0, d1] \<Rightarrow> rbind (py_int typ) (\<lambda>t. rbind (if is_mapping dims then Inl KeyError else py_int d1) (\<lambda>r. rbind (py_int d0) (\<lambda>c.
             rbind (primitive_route_entry (py_str name) t r c PNone PNone PNone) (\<lambda>e. Inr (entry_list e)))))
        | _ \<Rightarrow> Inr []))"

definition meta_entry :: "pyval \<Rightarrow> route_entry list \<Rightarrow> route_entry list result" where
  "meta_entry row acc = rbind (py_iter row) (\<lambda>xs. case xs of
       [name, dims, typ, off] \<Rightarrow> rbind (tensor_entry name dims typ) (\<lambda>es. Inr (acc @ es))
     | _ \<Rightarrow> Inl ValueError)"

definition plan_of_entries :: "route_entry list \<Rightarrow> (string, route_entry) dict" where
  "plan_of_entries es = fold (\<lambda>e. dset (re_name e) e) es []"

definition build_model_route_plan :: "pyval option \<Rightarrow> plan_record list \<Rightarrow> (string, route_entry) dict result" where
  "build_model_route_plan meta records =
     rbind (rmap record_entry records) (\<lambda>found.
     let entries = concat (map entry_list found) in
      case (entries, meta) of
        ([], Some m) \<Rightarrow> rbind (py_iter (pget_default m ''tensor_infos'' (PTuple []))) (\<lambda>rows.
            rbind (rfold meta_entry rows []) (\<lambda>es. Inr (plan_of_entries es)))
      | _ \<Rightarrow> Inr (plan_of_entries entries))"

definition primitive :: "(string, route_entry) dict \<Rightarrow> string \<Rightarrow> route_entry option" where
  "primitive plan name = map_of plan name"

end
