(* ===== verification/RouteSpec.thy ===== *)
theory RouteSpec
  imports RoutePlan
begin

text \<open>
  Properties of route policies and plans: the loader accepts exactly the valid policies, what it selects is
  supported and well shaped, and a plan's entries obey the kernels' shape rules.
\<close>

section \<open>Roles\<close>

lemma aliases_are_roles: "list_all (\<lambda>r. last_component (strip_weight r) = r \<and> map_of route_role_aliases r = Some r) (map snd route_role_aliases)"
  by code_simp

lemma normalize_route_role_idem: "normalize_route_role (normalize_route_role v) = normalize_route_role v"
proof (cases "map_of route_role_aliases (last_component (strip_weight v))")
  case None
  then show ?thesis by (simp add: normalize_route_role_def)
next
  case (Some r)
  then have "r \<in> set (map snd route_role_aliases)" by (force dest: map_of_SomeD)
  then have "last_component (strip_weight r) = r" "map_of route_role_aliases r = Some r"
    using aliases_are_roles unfolding list_all_iff by auto
  then show ?thesis using Some by (simp add: normalize_route_role_def)
qed

lemma resolve_role_shape:
  assumes "resolve_role r name rows cols = Some role"
  shows "role \<in> set qk_route_roles \<and> str_startswith (rr_architecture r) ''qwen''
    \<and> (\<forall>h. rr_hidden_size r = Some h \<longrightarrow> h = rows \<or> h = cols)"
  using assms by (auto simp: resolve_role_def Let_def if_shape_def qk_route_roles_def split: if_splits)

section \<open>Loading a policy\<close>

lemma rfold_rok_iff:
  assumes "\<And>x s. x \<in> set xs \<Longrightarrow> rok (f x s) \<longleftrightarrow> P x"
  shows "rok (rfold f xs s) \<longleftrightarrow> (\<forall>x \<in> set xs. P x)"
  using assms
proof (induction xs arbitrary: s)
  case Nil
  then show ?case by simp
next
  case (Cons x xs)
  have "rok (f x s) \<longleftrightarrow> P x" using Cons.prems by simp
  moreover have "rok (rfold f xs t) \<longleftrightarrow> (\<forall>x \<in> set xs. P x)" for t using Cons by simp
  ultimately show ?case by (cases "f x s") auto
qed

definition kinds_ok :: "(string, route_spec) dict \<Rightarrow> bool" where
  "kinds_ok d \<longleftrightarrow> (\<forall>k v. map_of d k = Some v \<longrightarrow>
     ro_kind v = kind_decode_flash \<or> ro_kind v \<in> set [kind_q4k_g3, kind_q6k_gen, kind_prefill_gen])"

lemma kinds_ok_add: "kinds_ok d \<Longrightarrow> kinds_ok (add_shipped rm d)" "kinds_ok d \<Longrightarrow> kinds_ok (add_env rm d)"
  by (auto simp: kinds_ok_def add_shipped_def add_env_def split: option.splits)

lemma specs_kinds:
  assumes "qk_route_specs reg = Inr specs"
  shows "kinds_ok specs"
proof -
  obtain ms where specs: "specs = fold add_env ms (fold add_shipped ms route_policy_local)"
    using assms by (auto simp: qk_route_specs_def rbind_eq_Inr)
  have "kinds_ok route_policy_local" by (auto simp: kinds_ok_def route_policy_local_def split: if_splits)
  then have "kinds_ok (fold add_shipped ms route_policy_local)"
    by (rule fold_invariant [where Q = "\<lambda>_. True", rotated]) (auto intro: kinds_ok_add)
  then show ?thesis
    unfolding specs by (rule fold_invariant [where Q = "\<lambda>_. True", rotated]) (auto intro: kinds_ok_add)
qed

text \<open>What a row has to satisfy, independently of the rows before it.\<close>

definition valid_row :: "(string, route_spec) dict \<Rightarrow> pyval \<Rightarrow> bool" where
  "valid_row specs row \<longleftrightarrow> is_mapping row \<and> (\<not> truthy (pget row ''selected_route'') \<or>
     (\<exists>s sp params. pget row ''selected_route'' = PStr s \<and> map_of specs s = Some sp
        \<and> py_dict (pget_default row ''route_params'' (PDict [])) = Inr params
        \<and> str_params params \<in> set (params_allowed sp)
        \<and> (ro_kind sp = kind_decode_flash \<or> (\<exists>r c. shape_rows_cols row = Inr (r, c)))))"

lemma str_params_keys: "set (map fst (str_params d)) = set (map fst d)"
  by (auto simp: str_params_def image_comp)

lemma validate_params_Inr: "validate_route_params sp params = Inr u \<longleftrightarrow> str_params params \<in> set (params_allowed sp)"
proof
  assume "validate_route_params sp params = Inr u"
  then show "str_params params \<in> set (params_allowed sp)" by (auto simp: validate_route_params_def Let_def split: if_splits)
next
  assume a: "str_params params \<in> set (params_allowed sp)"
  have "fst kv \<in> set (map fst (concat (params_allowed sp)))" if "kv \<in> set params" for kv
  proof -
    have "fst kv \<in> set (map fst (str_params params))" using that str_params_keys by fastforce
    then show ?thesis using a by fastforce
  qed
  then show "validate_route_params sp params = Inr u" using a by (auto simp: validate_route_params_def Let_def list_ex_iff)
qed

lemma get_of_None: "get_of v k PNone = Inr x \<longleftrightarrow> is_mapping v \<and> x = pget v k"
  by (auto simp: get_of_def pget_default_def pget_def)

lemma selected_spec_Inr: "selected_spec specs rid = Inr (s, sp) \<longleftrightarrow> rid = PStr s \<and> map_of specs s = Some sp"
  by (cases rid) (auto simp: selected_spec_def split: option.splits)

definition row_effect :: "route_spec \<Rightarrow> string \<Rightarrow> pyval \<Rightarrow> route_policy \<Rightarrow> route_policy" where
  "row_effect sp s row p = (if ro_kind sp = kind_decode_flash then p\<lparr>rp_selected := dset s (freeze row) (rp_selected p)\<rparr>
     else file_row (ro_kind sp) s (freeze row) p)"

lemma policy_row_Inr:
  assumes "kinds_ok specs"
  shows "policy_row specs row p = Inr q \<longleftrightarrow> is_mapping row \<and>
    (\<not> truthy (pget row ''selected_route'') \<and> q = p \<or>
     truthy (pget row ''selected_route'') \<and>
     (\<exists>s sp params. pget row ''selected_route'' = PStr s \<and> map_of specs s = Some sp
        \<and> py_dict (pget_default row ''route_params'' (PDict [])) = Inr params \<and> str_params params \<in> set (params_allowed sp)
        \<and> (ro_kind sp = kind_decode_flash \<or> (\<exists>r c. shape_rows_cols row = Inr (r, c))) \<and> q = row_effect sp s row p))"
proof (cases "is_mapping row \<and> truthy (pget row ''selected_route'')")
  case False
  then show ?thesis by (auto simp: policy_row_def rbind_eq_Inr get_of_None)
next
  case True
  let ?rest = "\<lambda>s sp. (if ro_kind sp = kind_decode_flash then Inr (p\<lparr>rp_selected := dset s (freeze row) (rp_selected p)\<rparr>)
            else if ro_kind sp \<in> set [kind_q4k_g3, kind_q6k_gen, kind_prefill_gen] then
              rbind (shape_rows_cols row) (\<lambda>_. Inr (file_row (ro_kind sp) s (freeze row) p))
            else Inr (p\<lparr>rp_selected := dset s (freeze row) (rp_selected p)\<rparr>))"
  have tail: "?rest s sp = Inr q \<longleftrightarrow>
      (ro_kind sp = kind_decode_flash \<or> (\<exists>r c. shape_rows_cols row = Inr (r, c))) \<and> q = row_effect sp s row p"
    if "map_of specs s = Some sp" for s sp
    using assms that by (auto simp: kinds_ok_def row_effect_def rbind_eq_Inr)
  have "policy_row specs row p = Inr q \<longleftrightarrow>
     (\<exists>s sp. selected_spec specs (pget row ''selected_route'') = Inr (s, sp) \<and>
       (\<exists>params. py_dict (pget_default row ''route_params'' (PDict [])) = Inr params
         \<and> str_params params \<in> set (params_allowed sp) \<and> ?rest s sp = Inr q))"
    unfolding policy_row_def using True
    by (simp only: rbind_eq_Inr get_of_None validate_params_Inr split_paired_Ex prod.case if_False if_True simp_thms ex_simps)
  then show ?thesis using True tail unfolding selected_spec_Inr by blast
qed

lemma policy_row_rok: "kinds_ok specs \<Longrightarrow> rok (policy_row specs row p) \<longleftrightarrow> valid_row specs row"
  unfolding rok_iff policy_row_Inr valid_row_def by (cases "truthy (pget row ''selected_route'')") auto

lemma load_rows:
  "load_qk_route_policy data reg = Inr p \<longleftrightarrow> is_mapping data \<and> pget data ''schema'' = PStr ''boltbeam.route_policy.v1''
     \<and> (\<exists>specs rows. qk_route_specs reg = Inr specs \<and> py_iter (pget_default data ''routes'' (PList [])) = Inr rows
        \<and> rfold (policy_row specs) rows \<lparr>rp_provenance = freeze (PDict (filter (\<lambda>kv. fst kv \<noteq> ''routes'') (items data))),
             rp_selected = [], rp_q4k_g3 = [], rp_q6k_gen = [], rp_prefill_gen = []\<rparr> = Inr p)"
  by (auto simp: load_qk_route_policy_def rbind_eq_Inr get_of_None)

text \<open>Every selected row and every shaped row comes from a valid row of the file.\<close>

definition from_rows :: "(string, route_spec) dict \<Rightarrow> pyval list \<Rightarrow> route_policy \<Rightarrow> bool" where
  "from_rows specs rows p \<longleftrightarrow>
     (\<forall>s r. map_of (rp_selected p) s = Some r \<longrightarrow> (\<exists>row sp params. row \<in> set rows \<and> r = freeze row
        \<and> pget row ''selected_route'' = PStr s \<and> map_of specs s = Some sp
        \<and> py_dict (pget_default row ''route_params'' (PDict [])) = Inr params \<and> str_params params \<in> set (params_allowed sp)))
     \<and> (\<forall>r \<in> set (rp_q4k_g3 p @ rp_q6k_gen p @ rp_prefill_gen p). \<exists>row rows' cols. row \<in> set rows \<and> r = freeze row
        \<and> shape_rows_cols row = Inr (rows', cols) \<and> 0 < rows' \<and> 0 < cols)"

lemma shape_positive: "shape_rows_cols row = Inr (r, c) \<Longrightarrow> 0 < r \<and> 0 < c"
  by (auto simp: shape_rows_cols_def Let_def split: sum.splits if_splits)

lemma row_effect_from_rows:
  assumes "from_rows specs rows p" "row \<in> set rows" "pget row ''selected_route'' = PStr s" "map_of specs s = Some sp"
    and "py_dict (pget_default row ''route_params'' (PDict [])) = Inr params" "str_params params \<in> set (params_allowed sp)"
    and "ro_kind sp = kind_decode_flash \<or> (\<exists>r c. shape_rows_cols row = Inr (r, c))"
  shows "from_rows specs rows (row_effect sp s row p)"
proof (cases "ro_kind sp = kind_decode_flash")
  case True
  then show ?thesis using assms unfolding from_rows_def row_effect_def by (simp add: fun_upd_def) metis
next
  case False
  then obtain r c where "shape_rows_cols row = Inr (r, c)" "0 < r" "0 < c" using assms(7) shape_positive by blast
  then show ?thesis using assms(1-6) False unfolding from_rows_def row_effect_def file_row_def setdefault_def Let_def
    by (auto; metis)
qed

section \<open>Properties\<close>

text \<open>Property C30. A route policy is accepted exactly when it has the right schema and each of its rows is valid on its own: it
  selects no route, or a supported one with allowed parameters and, for a shaped kind, positive integer dimensions.\<close>

theorem route_policy_accepts_exactly:
  "rok (load_qk_route_policy data reg) \<longleftrightarrow> is_mapping data \<and> pget data ''schema'' = PStr ''boltbeam.route_policy.v1''
     \<and> (\<exists>specs rows. qk_route_specs reg = Inr specs \<and> py_iter (pget_default data ''routes'' (PList [])) = Inr rows
        \<and> list_all (\<lambda>row. is_mapping row \<and> (\<not> truthy (pget row ''selected_route'') \<or>
            (\<exists>s sp params. pget row ''selected_route'' = PStr s \<and> map_of specs s = Some sp
              \<and> py_dict (pget_default row ''route_params'' (PDict [])) = Inr params
              \<and> str_params params \<in> set (params_allowed sp)
              \<and> (ro_kind sp = kind_decode_flash \<or> (\<exists>r c. shape_rows_cols row = Inr (r, c)))))) rows)"
proof -
  have "rok (rfold (policy_row specs) rows p) \<longleftrightarrow> list_all (valid_row specs) rows" if "qk_route_specs reg = Inr specs" for specs rows p
    using rfold_rok_iff [of rows "policy_row specs" "valid_row specs"] policy_row_rok [OF specs_kinds [OF that]]
    by (simp add: list_all_iff)
  then show ?thesis unfolding valid_row_def rok_iff load_rows by blast
qed

definition sample_policy :: pyval where
  "sample_policy = PDict [(''schema'', PStr ''boltbeam.route_policy.v1''), (''routes'', PList [
     PDict [(''selected_route'', PStr ''decode_q4k_g3_generated''), (''route_params'', PDict [(''BUBBLEBEAM_FUTURESIGHT'', PInt 1)]),
            (''shape'', PDict [(''rows'', PInt 4096), (''cols'', PStr ''1024'')])],
     PDict [(''note'', PNone)]])]"

lemma route_policy_accepts_exactly_witness:
  "rok (load_qk_route_policy sample_policy None) \<and> (\<exists>specs. qk_route_specs None = Inr specs)"
proof -
  have "rok (load_qk_route_policy sample_policy None)" by code_simp
  then show ?thesis using route_policy_accepts_exactly [of sample_policy None] by blast
qed

text \<open>Property C31. Whatever an accepted policy selects is supported: the selected row of a route is a row of the file that names
  this route with allowed parameters, and the rows of the shaped kinds have positive dimensions.\<close>

theorem route_policy_selection_sound:
  assumes "load_qk_route_policy data reg = Inr p"
  shows "\<exists>specs rows. qk_route_specs reg = Inr specs \<and> py_iter (pget_default data ''routes'' (PList [])) = Inr rows
    \<and> (\<forall>s r. map_of (rp_selected p) s = Some r \<longrightarrow> (\<exists>row sp params. row \<in> set rows \<and> r = freeze row
        \<and> pget row ''selected_route'' = PStr s \<and> map_of specs s = Some sp
        \<and> py_dict (pget_default row ''route_params'' (PDict [])) = Inr params \<and> str_params params \<in> set (params_allowed sp)))
    \<and> (\<forall>r \<in> set (rp_q4k_g3 p @ rp_q6k_gen p @ rp_prefill_gen p). \<exists>row rows' cols. row \<in> set rows \<and> r = freeze row
        \<and> shape_rows_cols row = Inr (rows', cols) \<and> 0 < rows' \<and> 0 < cols)"
proof -
  obtain specs rows where sr: "qk_route_specs reg = Inr specs" "py_iter (pget_default data ''routes'' (PList [])) = Inr rows"
    and fold: "rfold (policy_row specs) rows \<lparr>rp_provenance = freeze (PDict (filter (\<lambda>kv. fst kv \<noteq> ''routes'') (items data))),
             rp_selected = [], rp_q4k_g3 = [], rp_q6k_gen = [], rp_prefill_gen = []\<rparr> = Inr p"
    using assms unfolding load_rows by blast
  have "from_rows specs rows p"
  proof (rule rfold_invariant [OF fold])
    show "from_rows specs rows q'" if "row \<in> set rows" "from_rows specs rows q" "policy_row specs row q = Inr q'" for row q q'
      using that row_effect_from_rows unfolding policy_row_Inr [OF specs_kinds [OF sr(1)]] by blast
  qed (simp add: from_rows_def)
  then show ?thesis using sr unfolding from_rows_def by blast
qed

lemma route_policy_selection_sound_witness:
  "\<exists>p. load_qk_route_policy sample_policy None = Inr p \<and> map fst (rp_selected p) = [''decode_q4k_g3_generated'']
     \<and> (\<exists>specs. qk_route_specs None = Inr specs)"
proof -
  have "case load_qk_route_policy sample_policy None of Inl _ \<Rightarrow> False
    | Inr p \<Rightarrow> map fst (rp_selected p) = [''decode_q4k_g3_generated'']" by code_simp
  then obtain p where p: "load_qk_route_policy sample_policy None = Inr p" "map fst (rp_selected p) = [''decode_q4k_g3_generated'']"
    by (cases "load_qk_route_policy sample_policy None") auto
  from route_policy_selection_sound [OF p(1)] have "\<exists>specs. qk_route_specs None = Inr specs" by (elim exE conjE) (rule exI)
  then show ?thesis using p by (intro exI [of _ p] conjI)
qed

section \<open>Route plans\<close>

text \<open>The kernels' rule for an entry: positive dimensions, columns in whole super-blocks of 256, and for each packed
  quantisation the roles that have a kernel, each with its split and its local size.\<close>

definition route_rule :: "route_entry \<Rightarrow> bool" where
  "route_rule e \<longleftrightarrow> 0 < re_rows e \<and> 0 < re_cols e \<and> re_cols e mod 256 = 0 \<and> re_kernel_mode e = ''partial''
     \<and> (let role = normalize_route_role (py_str (re_role e)); options = (re_parts e, re_opts e) in
        re_quant_label e = ''Q4_K'' \<and> (role \<in> set [''ffn_gate_up'', ''attn_qo'', ''attn_kv''] \<and> options = (1, [''LOCAL:0:64''])
             \<or> role = ''ffn_down'' \<and> options = (4, [''LOCAL:0:32'']))
        \<or> re_quant_label e = ''Q6_K'' \<and> ((role = ''ffn_down'' \<or> role = ''lm_head'' \<or> re_name e = ''output.weight'') \<and> options = (1, [''LOCAL:0:64''])
             \<or> role = ''attn_kv'' \<and> last_component (strip_weight (re_name e)) = ''attn_v'' \<and> options = (4, [''LOCAL:0:32''])))"

lemma string_case: "(case v of PStr q \<Rightarrow> f q | _ \<Rightarrow> None) = Some e \<Longrightarrow> \<exists>q. v = PStr q \<and> f q = Some e"
  by (cases v) auto

lemma primitive_route_Inr:
  assumes "primitive_route_entry name typ rows cols mpath quant role = Inr (Some e)"
  shows "re_name e = name \<and> route_rule e"
proof -
  obtain role' q parts opts where "default_route name q (py_str role') rows cols = Some (parts, opts)"
    "re_name e = name" "re_rows e = rows" "re_cols e = cols" "re_role e = role'" "re_quant_label e = q"
    "re_parts e = parts" "re_opts e = opts" "re_kernel_mode e = ''partial''"
    using assms by (auto simp: primitive_route_entry_def Let_def rbind_eq_Inr dest!: string_case split: option.splits)
  then show ?thesis by (auto simp: route_rule_def default_route_def Let_def split: if_splits)
qed

lemma record_entry_ok: "record_entry r = Inr (Some e) \<Longrightarrow> r = EntryRecord e \<or> route_rule e"
  by (cases r) (auto simp: record_entry_def Let_def rbind_eq_Inr dest!: primitive_route_Inr split: if_splits prod.splits)

text \<open>A plan keeps the last of the entries of one name.\<close>

lemma plan_of_entries_lookup: "map_of (plan_of_entries es) = map_of (rev (map (\<lambda>e. (re_name e, e)) es))"
  unfolding plan_of_entries_def by (induction es rule: rev_induct) (simp_all add: fun_eq_iff)

lemma plan_lookup_Some:
  assumes "map_of (plan_of_entries es) name = Some e"
  shows "re_name e = name \<and> e \<in> set es"
  using map_of_SomeD [OF assms [unfolded plan_of_entries_lookup]] by auto

lemma plan_lookup_entry: "e \<in> set es \<Longrightarrow> map_of (plan_of_entries es) (re_name e) \<noteq> None"
  unfolding plan_of_entries_lookup map_of_eq_None_iff by force

lemma pair_case: "(case ds of [a, b] \<Rightarrow> f a b | _ \<Rightarrow> Inr []) = Inr es \<Longrightarrow> es = [] \<or> (\<exists>a b. ds = [a, b] \<and> f a b = Inr es)"
  by (auto split: list.splits)

lemma tensor_entry_ok: "tensor_entry name dims typ = Inr es \<Longrightarrow> e \<in> set es \<Longrightarrow> route_rule e"
  by (auto simp: tensor_entry_def rbind_eq_Inr entry_list_def dest!: pair_case primitive_route_Inr split: if_splits option.splits)

lemma four_case: "(case xs of [a, b, c, d] \<Rightarrow> f a b c d | _ \<Rightarrow> Inl e) = Inr r \<Longrightarrow> \<exists>a b c d. f a b c d = Inr r"
  by (auto split: list.splits)

lemma meta_entry_Inr: "meta_entry row acc = Inr acc' \<Longrightarrow> \<exists>name dims typ es. tensor_entry name dims typ = Inr es \<and> acc' = acc @ es"
  by (auto simp: meta_entry_def rbind_eq_Inr dest!: four_case) blast

lemma meta_entries_ok:
  assumes "rfold meta_entry rows [] = Inr es"
  shows "\<forall>x \<in> set es. route_rule x"
proof (rule rfold_invariant [OF assms])
  show "\<forall>x \<in> set acc'. route_rule x" if "\<forall>x \<in> set acc. route_rule x" "meta_entry row acc = Inr acc'" for row acc acc'
    using that tensor_entry_ok by (auto dest!: meta_entry_Inr)
qed simp

text \<open>A plan is made of the records' entries, or of the metadata when no record has one.\<close>

lemma build_plan_Inr:
  assumes "build_model_route_plan meta records = Inr plan"
  obtains (records) es where "plan = plan_of_entries es" "set es = {e. \<exists>r \<in> set records. record_entry r = Inr (Some e)}"
  | (metadata) es where "plan = plan_of_entries es" "\<forall>r \<in> set records. record_entry r = Inr None" "\<forall>e \<in> set es. route_rule e"
proof -
  from assms obtain found where f: "rmap record_entry records = Inr found"
    and build: "(case (concat (map entry_list found), meta) of
        ([], Some m) \<Rightarrow> rbind (py_iter (pget_default m ''tensor_infos'' (PTuple []))) (\<lambda>rows.
            rbind (rfold meta_entry rows []) (\<lambda>es. Inr (plan_of_entries es)))
      | _ \<Rightarrow> Inr (plan_of_entries (concat (map entry_list found)))) = Inr plan"
    unfolding build_model_route_plan_def Let_def rbind_eq_Inr by blast
  have found: "length found = length records" "\<And>i. i < length records \<Longrightarrow> record_entry (records ! i) = Inr (found ! i)"
    using f by (simp_all add: rmap_eq_Inr_iff)
  have entries: "set (concat (map entry_list found)) = {e. \<exists>r \<in> set records. record_entry r = Inr (Some e)}"
  proof (intro equalityI subsetI)
    fix e assume "e \<in> set (concat (map entry_list found))"
    then have "Some e \<in> set found" by (auto simp: entry_list_def split: option.splits)
    then obtain i where "i < length records" "found ! i = Some e" using found(1) by (auto simp: in_set_conv_nth)
    then show "e \<in> {e. \<exists>r \<in> set records. record_entry r = Inr (Some e)}" using found(2) by force
  next
    fix e assume "e \<in> {e. \<exists>r \<in> set records. record_entry r = Inr (Some e)}"
    then obtain i where "i < length records" "record_entry (records ! i) = Inr (Some e)" by (auto simp: in_set_conv_nth)
    then have "Some e \<in> set found" using found by (metis nth_mem sum.inject(2))
    then show "e \<in> set (concat (map entry_list found))" by (force simp: entry_list_def)
  qed
  show thesis
  proof (cases "concat (map entry_list found) = [] \<and> meta \<noteq> None")
    case True
    then obtain m where n: "concat (map entry_list found) = []" "meta = Some m" by blast
    obtain rows es where es: "rfold meta_entry rows [] = Inr es" "plan = plan_of_entries es"
      using build unfolding n by (auto simp: rbind_eq_Inr)
    have "record_entry r = Inr None" if r: "r \<in> set records" for r
    proof -
      obtain i where "record_entry r = Inr (found ! i)" using r found by (auto simp: in_set_conv_nth)
      moreover have "record_entry r \<noteq> Inr (Some e)" for e using entries True r by auto
      ultimately show ?thesis by (cases "found ! i") auto
    qed
    then show ?thesis using metadata es meta_entries_ok by blast
  next
    case False
    then have "plan = plan_of_entries (concat (map entry_list found))"
      using build by (cases "concat (map entry_list found)"; cases meta) (simp_all del: concat_eq_Nil_conv)
    then show ?thesis using records entries by blast
  qed
qed

text \<open>Property C32. Every entry of a model's route plan is filed under its own name and either is an entry that was handed in
  ready-made or obeys the kernels' rule: positive dimensions, columns in whole super-blocks of 256, and the split and local
  size that its quantisation and role require.  No record that has an entry is lost, and the metadata is read
  only when no record has one.\<close>

theorem route_plan_entries_valid:
  assumes "build_model_route_plan meta records = Inr plan"
  shows "(\<forall>name e. primitive plan name = Some e \<longrightarrow> re_name e = name \<and> (EntryRecord e \<in> set records \<or> route_rule e)
        \<and> ((\<exists>r \<in> set records. record_entry r = Inr (Some e)) \<or> (\<forall>r \<in> set records. record_entry r = Inr None)))
    \<and> (\<forall>r \<in> set records. \<forall>e. record_entry r = Inr (Some e) \<longrightarrow> primitive plan (re_name e) \<noteq> None)"
  using assms
proof (cases rule: build_plan_Inr)
  case (records es)
  then show ?thesis
    using plan_lookup_Some [of es] plan_lookup_entry [of _ es] record_entry_ok unfolding primitive_def by blast
next
  case (metadata es)
  then show ?thesis using plan_lookup_Some [of es] unfolding primitive_def by force
qed

lemma route_plan_entries_valid_witness:
  "\<exists>plan e. build_model_route_plan None [fact_record \<lparr>tf_name = ''blk.0.attn_v.weight'', tf_module_path = ''blk.0.attn_v'',
        tf_ggml_type = 14, tf_rows = 1024, tf_cols = 4096, tf_quant_label = ''Q6_K'', tf_role = None\<rparr>] = Inr plan
     \<and> primitive plan ''blk.0.attn_v.weight'' = Some e \<and> re_parts e = 4 \<and> route_rule e"
proof -
  let ?r = "[fact_record \<lparr>tf_name = ''blk.0.attn_v.weight'', tf_module_path = ''blk.0.attn_v'',
        tf_ggml_type = 14, tf_rows = 1024, tf_cols = 4096, tf_quant_label = ''Q6_K'', tf_role = None\<rparr>]"
  have "case build_model_route_plan None ?r of Inl _ \<Rightarrow> False
    | Inr plan \<Rightarrow> (case primitive plan ''blk.0.attn_v.weight'' of None \<Rightarrow> False | Some e \<Rightarrow> re_parts e = 4)" by code_simp
  then obtain plan e where p: "build_model_route_plan None ?r = Inr plan" "primitive plan ''blk.0.attn_v.weight'' = Some e" "re_parts e = 4"
    by (cases "build_model_route_plan None ?r") (auto split: option.splits)
  moreover have "EntryRecord e \<notin> set ?r" by (simp add: fact_record_def)
  ultimately show ?thesis using route_plan_entries_valid [OF p(1)] by blast
qed

end
