(* ===== verification/Movement.thy ===== *)
theory Movement
  imports Helpers
begin

text \<open>
  The movement operations of \<open>src/tinygrad/mixin/movement.py\<close>, the view indexing of
  \<open>src/tinygrad/mixin/__init__.py\<close>, the shape rules of the movement UOps (\<open>UOp._shape\<close> in
  \<open>src/tinygrad/uop/ops.py\<close>) and the index map of each one (\<open>apply_movement_op\<close> in
  \<open>src/tinygrad/schedule/indexing.py\<close>), on shapes of concrete integers.

  A tensor is the shape it has and the trail of movement UOps between it and its base, the last
  one first, each with the shape it was applied to.  \<open>locate\<close> follows an index of the tensor
  through the trail to the element of the base it reads; \<open>None\<close> is the invalid index of a padded
  region.  The source caches \<open>shape\<close> and computes it on first use; the model computes it, and
  raises its errors, when the UOp is made.
\<close>

section \<open>Python sequences\<close>

definition ndim_range :: "nat \<Rightarrow> int list" where
  "ndim_range n = map int [0..<n]"

definition seq_get :: "'a list \<Rightarrow> int \<Rightarrow> 'a result" where
  "seq_get xs i = (let j = (if i < 0 then i + int (length xs) else i) in
     if 0 \<le> j \<and> j < int (length xs) then Inr (xs ! nat j) else Inl IndexError)"

definition seq_set :: "int \<Rightarrow> 'a \<Rightarrow> 'a list \<Rightarrow> 'a list result" where
  "seq_set i v xs = (let j = (if i < 0 then i + int (length xs) else i) in
     if 0 \<le> j \<and> j < int (length xs) then Inr (xs[nat j := v]) else Inl IndexError)"

definition seq_bound :: "nat \<Rightarrow> int \<Rightarrow> nat" where
  "seq_bound n i = nat (max 0 (min (int n) (if i < 0 then i + int n else i)))"

definition seq_upto :: "'a list \<Rightarrow> int \<Rightarrow> 'a list" where
  "seq_upto xs b = take (seq_bound (length xs) b) xs"

definition seq_from :: "'a list \<Rightarrow> int \<Rightarrow> 'a list" where
  "seq_from xs a = drop (seq_bound (length xs) a) xs"

definition seq_slice :: "'a list \<Rightarrow> int \<Rightarrow> int \<Rightarrow> 'a list" where
  "seq_slice xs a b = drop (seq_bound (length xs) a) (seq_upto xs b)"

definition py_range :: "int \<Rightarrow> int \<Rightarrow> int list" where
  "py_range stop step = map (\<lambda>k. int k * step) [0..<nat (ceildiv stop step)]"

definition argsort :: "int list \<Rightarrow> int list" where
  "argsort x = map int (sort_key (\<lambda>i. x ! i) [0..<length x])"

definition py_ceildiv :: "int \<Rightarrow> int \<Rightarrow> int result" where
  "py_ceildiv num amt = (if amt = 0 then Inl ZeroDivisionError else Inr (ceildiv num amt))"

fun evens :: "'a list \<Rightarrow> 'a list" where
  "evens [] = []" | "evens [x] = [x]" | "evens (x # y # xs) = x # evens xs"

section \<open>Movement UOps\<close>

datatype mop =
    RESHAPE "int list" | EXPAND "int list" | PERMUTE "int list"
  | PAD "(int \<times> int) list" | SHRINK "(int \<times> int) list" | FLIP "bool list" | LAYOUT_TRANSFORM string

fun mop_shape :: "mop \<Rightarrow> int list \<Rightarrow> int list result" where
  "mop_shape (RESHAPE a) ps =
     (if \<not> list_all (\<lambda>x. 0 \<le> x) a then Inl ValueError
      else if prod_list ps \<noteq> prod_list a then Inl ValueError else Inr a)"
| "mop_shape (EXPAND a) ps =
     (if length ps \<noteq> length a \<or> \<not> list_all (\<lambda>(s, ns). s = ns \<or> (s = 1 \<and> 0 \<le> ns)) (zip ps a) then Inl ValueError
      else Inr a)"
| "mop_shape (PERMUTE a) ps =
     (if sort a \<noteq> ndim_range (length ps) then Inl ValueError else Inr (map (\<lambda>i. ps ! nat i) a))"
| "mop_shape (PAD a) ps =
     (if length ps \<noteq> length a \<or> \<not> list_all (\<lambda>(s, o', sz). 0 \<le> sz \<and> 0 \<le> o' \<and> o' + s \<le> sz) (zip ps a)
      then Inl ValueError else Inr (map snd a))"
| "mop_shape (SHRINK a) ps =
     (if length ps \<noteq> length a \<or> \<not> list_all (\<lambda>(s, o', sz). 0 \<le> o' \<and> 0 \<le> sz \<and> o' + sz \<le> s) (zip ps a)
      then Inl ValueError else Inr (map snd a))"
| "mop_shape (FLIP a) ps = (if length ps \<noteq> length a then Inl ValueError else Inr ps)"
| "mop_shape (LAYOUT_TRANSFORM a) ps = (if a \<noteq> ''q4k_lane_partition'' then Inl ValueError else Inr ps)"

text \<open>\<open>_apply_reshape\<close>: the index is combined into one offset, then split again.\<close>

definition combine_axes :: "int list \<Rightarrow> int list \<Rightarrow> int" where
  "combine_axes out_shape idx =
     snd (fold (\<lambda>(s, i) (acc, total). (acc * s, total + acc * i)) (rev (zip out_shape idx)) (1, 0))"

definition split_axes :: "int list \<Rightarrow> int \<Rightarrow> int list" where
  "split_axes in_shape c =
     snd (fold (\<lambda>s (c, axes). (c div s, (c mod s) # axes)) (rev in_shape) (c, []))"

definition pad_valid :: "int list \<Rightarrow> (int \<times> int) list \<Rightarrow> int list \<Rightarrow> bool" where
  "pad_valid ps a idx = list_all (\<lambda>(r, sh, off, sz). (sz = sh \<and> off = 0) \<or> (off \<le> r \<and> r < sh + off))
     (zip idx (zip ps a))"

fun mop_index :: "mop \<Rightarrow> int list \<Rightarrow> int list \<Rightarrow> int list option" where
  "mop_index (SHRINK a) ps idx = Some (map2 (\<lambda>r (off, _). r + off) idx a)"
| "mop_index (PERMUTE a) ps idx = Some (map (\<lambda>p. idx ! nat p) (argsort a))"
| "mop_index (FLIP a) ps idx = Some (map2 (\<lambda>r (s, f). if f then (s - 1) - r else r) idx (zip ps a))"
| "mop_index (EXPAND a) ps idx = Some (map2 (\<lambda>r (s, ns). if s = ns then r else 0) idx (zip ps a))"
| "mop_index (PAD a) ps idx =
     (if pad_valid ps a idx then Some (map2 (\<lambda>r (off, _). r - off) idx a) else None)"
| "mop_index (RESHAPE a) ps idx = Some (split_axes ps (combine_axes a idx))"
| "mop_index (LAYOUT_TRANSFORM a) ps idx = Some idx"

section \<open>Tensors\<close>

record tens =
  shp :: "int list"
  trail :: "(mop \<times> int list) list"

fun locate_in :: "(mop \<times> int list) list \<Rightarrow> int list \<Rightarrow> int list option" where
  "locate_in [] idx = Some idx"
| "locate_in ((m, ps) # ms) idx = (case mop_index m ps idx of None \<Rightarrow> None | Some j \<Rightarrow> locate_in ms j)"

abbreviation locate :: "tens \<Rightarrow> int list \<Rightarrow> int list option" where
  "locate t \<equiv> locate_in (trail t)"

definition base_tens :: "int list \<Rightarrow> tens" where
  "base_tens s = \<lparr> shp = s, trail = [] \<rparr>"

fun empty_arg :: "mop \<Rightarrow> bool" where
  "empty_arg (SHRINK a) = (a = [])" | "empty_arg (PAD a) = (a = [])" | "empty_arg (EXPAND a) = (a = [])"
| "empty_arg _ = False"

definition make_mop :: "mop \<Rightarrow> tens \<Rightarrow> tens result" where
  "make_mop m t =
     (if empty_arg m then rbind (rguard (shp t = []) AssertionError) (\<lambda>_. Inr t)
      else rbind (mop_shape m (shp t)) (\<lambda>s. Inr \<lparr> shp = s, trail = (m, shp t) # trail t \<rparr>))"

text \<open>\<open>ret if ret.shape != self.shape else self\<close>, in the three operations that elide a UOp which
  does not change the shape.\<close>

definition elide :: "tens \<Rightarrow> tens \<Rightarrow> tens" where
  "elide t r = (if shp r = shp t then t else r)"

definition ndim :: "tens \<Rightarrow> nat" where
  "ndim t = length (shp t)"

definition numel :: "tens \<Rightarrow> int" where
  "numel t = prod_list (shp t)"

definition size_of_dim :: "tens \<Rightarrow> int \<Rightarrow> int result" where
  "size_of_dim t dim = seq_get (shp t) dim"

definition resolve_dim :: "nat \<Rightarrow> bool \<Rightarrow> int \<Rightarrow> int result" where
  "resolve_dim n extra dim =
     (let total = int n + (if extra then 1 else 0) in
      if \<not> (- max 1 total \<le> dim \<and> dim \<le> max 1 total - 1) then Inl IndexError
      else Inr (if dim < 0 then dim + total else dim))"

section \<open>Shapes\<close>

definition align_left :: "'a \<Rightarrow> 'a list list \<Rightarrow> 'a list list" where
  "align_left one shapes = (let max_dim = Max (set (map length shapes)) in
     map (\<lambda>s. replicate (max_dim - length s) one @ s) shapes)"

definition transpose_dims :: "int list list \<Rightarrow> nat \<Rightarrow> int list list" where
  "transpose_dims rows n = map (\<lambda>d. map (\<lambda>r. r ! d) rows) [0..<n]"

definition broadcast_shape :: "int list list \<Rightarrow> int list result" where
  "broadcast_shape shapes =
     (let aligned = align_left 1 shapes;
          ret = map (\<lambda>ns. if 0 \<in> set ns then 0 else Max (set ns)) (transpose_dims aligned (length (hd aligned)))
      in if list_all (\<lambda>s. list_all (\<lambda>(a, ns). a = ns \<or> a = 1) (zip s ret)) aligned then Inr ret else Inl IndexError)"

section \<open>Basic operations\<close>

definition reshape_shape :: "int list \<Rightarrow> int option list \<Rightarrow> int list result" where
  "reshape_shape cur arg =
     rbind (rmap (\<lambda>(i, s). case s of Some v \<Rightarrow> Inr v | None \<Rightarrow> lget cur i) (zip [0..<length arg] arg)) (\<lambda>new.
     let c = count_list new (-1) in
     if c > 1 then Inl RuntimeError
     else if c = 0 then Inr new
     else if prod_list new = 0 then Inl ZeroDivisionError
     else Inr (map (\<lambda>s. if s = -1 then (- prod_list cur) div prod_list new else s) new))"

definition reshape :: "int option list \<Rightarrow> tens \<Rightarrow> tens result" where
  "reshape arg t = rbind (reshape_shape (shp t) arg) (\<lambda>new.
     if prod_list (shp t) \<noteq> prod_list new then Inl ValueError
     else rbind (make_mop (RESHAPE new) t) (\<lambda>r. Inr (elide t r)))"

abbreviation reshape_to :: "int list \<Rightarrow> tens \<Rightarrow> tens result" where
  "reshape_to s \<equiv> reshape (map Some s)"

definition broadcast_to :: "int list \<Rightarrow> tens \<Rightarrow> tens result" where
  "broadcast_to new t =
     (if shp t = new then Inr t
      else if length new < ndim t then Inl ValueError
      else let shape = align_left 1 [shp t, new] ! 0 in
        if \<not> list_all (\<lambda>(s, ns). s = ns \<or> s = 1) (zip shape new) then Inl ValueError
        else rbind (reshape_to shape t) (\<lambda>x. rbind (make_mop (EXPAND new) x) (\<lambda>r. Inr (elide x r))))"

definition expand_shape :: "int list \<Rightarrow> int option list \<Rightarrow> int list" where
  "expand_shape cur arg = (let aligned = align_left (Some 1) [map Some cur, arg] in
     map2 (\<lambda>f to. if to = Some (-1) \<or> to = None then the f else the to) (aligned ! 0) (aligned ! 1))"

definition expand :: "int option list \<Rightarrow> tens \<Rightarrow> tens result" where
  "expand arg t = broadcast_to (expand_shape (shp t) arg) t"

definition pad :: "(int \<times> int) option list \<Rightarrow> tens \<Rightarrow> tens result" where
  "pad arg t = (if ndim t \<noteq> length arg then Inl ValueError
     else rbind (make_mop (PAD (map2 (\<lambda>x s. case x of Some (a, b) \<Rightarrow> (a, s + a + b) | None \<Rightarrow> (0, s)) arg (shp t))) t)
       (\<lambda>r. Inr (elide t r)))"

definition shrink :: "(int \<times> int) option list \<Rightarrow> tens \<Rightarrow> tens result" where
  "shrink arg t = (if ndim t \<noteq> length arg then Inl ValueError
     else rbind (make_mop (SHRINK (map2 (\<lambda>x s. case x of Some (a, b) \<Rightarrow> (a, b - a) | None \<Rightarrow> (0, s)) arg (shp t))) t)
       (\<lambda>r. Inr (elide t r)))"

definition permute :: "int list \<Rightarrow> tens \<Rightarrow> tens result" where
  "permute order t = rbind (rmap (resolve_dim (ndim t) False) order) (\<lambda>arg.
     if sort arg \<noteq> ndim_range (ndim t) then Inl RuntimeError
     else if arg \<noteq> ndim_range (ndim t) then make_mop (PERMUTE arg) t else Inr t)"

definition flip :: "int list \<Rightarrow> tens \<Rightarrow> tens result" where
  "flip axis t = rbind (rmap (resolve_dim (ndim t) False) axis) (\<lambda>arg.
     rbind (rguard (list_all (\<lambda>x. 0 \<le> x \<and> x < int (ndim t)) arg) AssertionError) (\<lambda>_.
     if length arg \<noteq> length (first_occurrences arg) then Inl RuntimeError
     else let f = map (\<lambda>i. int i \<in> set arg) [0..<ndim t] in
       if list_ex id f then make_mop (FLIP f) t else Inr t))"

definition layout_transform :: "string \<Rightarrow> tens \<Rightarrow> tens result" where
  "layout_transform name t = make_mop (LAYOUT_TRANSFORM name) t"

section \<open>Derived operations\<close>

definition shrink_to :: "int option list \<Rightarrow> tens \<Rightarrow> tens result" where
  "shrink_to arg t = shrink (map (map_option (\<lambda>ns. (0, ns))) arg) t"

definition pad_to :: "int option list \<Rightarrow> tens \<Rightarrow> tens result" where
  "pad_to arg t = (if length arg \<noteq> ndim t then Inl ValueError
     else make_mop (PAD (map2 (\<lambda>s ns. (0, case ns of None \<Rightarrow> s | Some v \<Rightarrow> v)) (shp t) arg)) t)"

definition squeeze_all :: "tens \<Rightarrow> tens result" where
  "squeeze_all t = reshape_to (filter (\<lambda>d. d \<noteq> 1) (shp t)) t"

definition squeeze :: "int \<Rightarrow> tens \<Rightarrow> tens result" where
  "squeeze dim t = rbind (resolve_dim (ndim t) False dim) (\<lambda>d.
     if ndim t = 0 then Inr t
     else rbind (seq_get (shp t) d) (\<lambda>s. if s \<noteq> 1 then Inr t
       else reshape_to (seq_upto (shp t) d @ seq_from (shp t) (d + 1)) t))"

definition unsqueeze :: "int \<Rightarrow> tens \<Rightarrow> tens result" where
  "unsqueeze dim t = rbind (resolve_dim (ndim t) True dim) (\<lambda>d.
     reshape_to (seq_upto (shp t) d @ [1] @ seq_from (shp t) d) t)"

definition transpose_tens :: "int \<Rightarrow> int \<Rightarrow> tens \<Rightarrow> tens result" where
  "transpose_tens dim0 dim1 t = (let order = ndim_range (ndim t) in
     rbind (seq_get order dim1) (\<lambda>b. rbind (seq_get order dim0) (\<lambda>a.
     rbind (seq_set dim0 b order) (\<lambda>o1. rbind (seq_set dim1 a o1) (\<lambda>o2. permute o2 t)))))"

definition flatten_dims :: "int \<Rightarrow> int \<Rightarrow> tens \<Rightarrow> tens result" where
  "flatten_dims start end' t =
     rbind (resolve_dim (ndim t) False start) (\<lambda>a. rbind (resolve_dim (ndim t) False end') (\<lambda>b.
     reshape_to (seq_upto (shp t) a @ [prod_list (seq_slice (shp t) a (b + 1))] @ seq_from (shp t) (b + 1)) t))"

definition unflatten :: "int \<Rightarrow> int list \<Rightarrow> tens \<Rightarrow> tens result" where
  "unflatten dim sizes t = rbind (resolve_dim (ndim t) False dim) (\<lambda>d.
     reshape_to (seq_upto (shp t) d @ sizes @ seq_from (shp t) (d + 1)) t)"

section \<open>Splitting\<close>

definition equal_sizes :: "int \<Rightarrow> int \<Rightarrow> int list" where
  "equal_sizes dim_sz sz = map (\<lambda>i. min sz (dim_sz - i)) (py_range (max 1 dim_sz) (max 1 sz))"

definition split_slice :: "int \<Rightarrow> int list \<Rightarrow> tens \<Rightarrow> nat \<Rightarrow> tens result" where
  "split_slice d sizes t i = shrink (map (\<lambda>j. if int j = d
       then Some (sum_list (take i sizes), sum_list (take (i + 1) sizes)) else None) [0..<ndim t]) t"

definition split_sizes :: "int list \<Rightarrow> int \<Rightarrow> tens \<Rightarrow> tens list result" where
  "split_sizes sizes dim t = rbind (resolve_dim (ndim t) False dim) (\<lambda>d.
     rbind (seq_get (shp t) d) (\<lambda>dim_sz.
     rbind (rguard (sum_list sizes = dim_sz) AssertionError) (\<lambda>_.
     rmap (split_slice d sizes t) [0..<length sizes])))"

definition split_equal :: "int \<Rightarrow> int \<Rightarrow> tens \<Rightarrow> tens list result" where
  "split_equal sz dim t = rbind (resolve_dim (ndim t) False dim) (\<lambda>d.
     rbind (seq_get (shp t) d) (\<lambda>dim_sz.
     rbind (rguard (sum_list (equal_sizes dim_sz sz) = dim_sz) AssertionError) (\<lambda>_.
     rmap (split_slice d (equal_sizes dim_sz sz) t) [0..<length (equal_sizes dim_sz sz)])))"

definition chunk :: "int \<Rightarrow> int \<Rightarrow> tens \<Rightarrow> tens list result" where
  "chunk chunks dim t = rbind (resolve_dim (ndim t) False dim) (\<lambda>d.
     rbind (seq_get (shp t) d) (\<lambda>dim_sz.
     rbind (rguard (0 < chunks) AssertionError) (\<lambda>_.
     if dim_sz \<noteq> 0 then split_equal (ceildiv dim_sz chunks) d t
     else split_sizes (replicate (nat chunks) 0) d t)))"

end
