(* ===== verification/MovementViews.thy ===== *)
theory MovementViews
  imports Movement
begin

text \<open>
  The movement operations that are compositions of others: \<open>meshgrid\<close>, \<open>diag\<close>, \<open>diagonal\<close>,
  \<open>repeat\<close>, \<open>repeat_interleave\<close>, \<open>roll\<close>, \<open>_pool\<close>, \<open>unfold\<close>, and basic indexing \<open>x[i, a:b:c, None, ...]\<close>
  without index tensors (\<open>_normalize_indices\<close>, \<open>_parse_view_index\<close>, \<open>_apply_view_ops\<close> and the view
  part of \<open>_getitem\<close>), each on the trail it builds.
\<close>

section \<open>Grids and diagonals\<close>

definition meshgrid_basis :: "bool \<Rightarrow> nat \<Rightarrow> nat list" where
  "meshgrid_basis xy n = (if xy then [1, 0] @ [2..<n] else [0..<n])"

definition meshgrid :: "string \<Rightarrow> tens list \<Rightarrow> tens \<Rightarrow> tens list result" where
  "meshgrid indexing args t =
     (if indexing \<noteq> ''ij'' \<and> indexing \<noteq> ''xy'' then Inl RuntimeError
      else if args = [] then Inr [t]
      else let tensors = t # args; basis = meshgrid_basis (indexing = ''xy'') (length tensors) in
        rbind (rmap (\<lambda>(i, x). reshape_to ((-1) # replicate (length args - i) 1) x) (zip basis tensors)) (\<lambda>ts.
        rbind (broadcast_shape (map shp ts)) (\<lambda>out. rmap (broadcast_to out) ts)))"

definition diag :: "tens \<Rightarrow> tens result" where
  "diag t =
     (if ndim t \<noteq> 1 then Inl ValueError
      else rbind (unsqueeze (-1) t) (\<lambda>a. rbind (seq_get (shp t) 0) (\<lambda>n.
        rbind (pad_to [None, Some (1 + n)] a) (\<lambda>b. rbind (flatten_dims 0 (-1) b) (\<lambda>c.
        rbind (shrink_to [Some (n * n)] c) (\<lambda>d. reshape_to [n, n] d))))))"

definition diagonal :: "int \<Rightarrow> int \<Rightarrow> int \<Rightarrow> tens \<Rightarrow> tens result" where
  "diagonal offset dim1 dim2 t =
     rbind (resolve_dim (ndim t) False dim1) (\<lambda>d1. rbind (resolve_dim (ndim t) False dim2) (\<lambda>d2.
     if d1 = d2 then Inl RuntimeError
     else rbind (permute (filter (\<lambda>i. i \<noteq> d1 \<and> i \<noteq> d2) (ndim_range (ndim t)) @ [d1, d2]) t) (\<lambda>x.
       rbind (seq_get (shp x) (-1)) (\<lambda>last1. rbind (seq_get (shp x) (-2)) (\<lambda>last2.
       rbind (if 0 \<le> offset then shrink (replicate (ndim x - 1) None @ [Some (offset, last1)]) x
              else shrink (replicate (ndim x - 2) None @ [Some (- offset, last2), None]) x) (\<lambda>y.
       rbind (seq_get (shp y) (-2)) (\<lambda>h. rbind (seq_get (shp y) (-1)) (\<lambda>w.
       let d = min h w; nones = replicate (ndim y - 2) None in
       if d \<le> 0 then reshape_to (take (ndim y - 2) (shp y) @ [0]) y
       else rbind (shrink_to (nones @ [Some d, Some d]) y) (\<lambda>z.
         rbind (flatten_dims (-2) (-1) z) (\<lambda>z1. rbind (pad_to (nones @ [Some (d * (d + 1))]) z1) (\<lambda>z2.
         rbind (unflatten (-1) [d, d + 1] z2) (\<lambda>z3. rbind (shrink_to (nones @ [None, Some 1]) z3) (\<lambda>z4.
         squeeze (-1) z4)))))))))))))"

section \<open>Repetition\<close>

definition repeat :: "int list \<Rightarrow> tens \<Rightarrow> tens result" where
  "repeat repeats t =
     (let base = align_left 1 [shp t, repeats] ! 0; rs = zip repeats base;
          unsqueezed = concat (map (\<lambda>(r, s). if r = 1 then [s] else [1, s]) rs);
          expanded = concat (map (\<lambda>(r, s). if r = 1 then [s] else [r, s]) rs);
          final = map (\<lambda>(r, s). r * s) rs
      in rbind (reshape_to unsqueezed t) (\<lambda>a. rbind (expand (map Some expanded) a) (\<lambda>b. reshape_to final b)))"

definition interleave_at :: "int \<Rightarrow> int \<Rightarrow> tens \<Rightarrow> tens result" where
  "interleave_at repeats dim x =
     (let s = shp x; pre = seq_upto s (dim + 1); post = seq_from s (dim + 1) in
      rbind (reshape_to (pre @ [1] @ post) x) (\<lambda>a.
      rbind (expand (map Some (pre @ [repeats] @ post)) a) (\<lambda>b.
      rbind (seq_get s dim) (\<lambda>n. reshape_to (seq_upto s dim @ [n * repeats] @ post) b))))"

definition repeat_interleave :: "int \<Rightarrow> int option \<Rightarrow> tens \<Rightarrow> tens result" where
  "repeat_interleave repeats dim t = (case dim of
       None \<Rightarrow> rbind (flatten_dims 0 (-1) t) (interleave_at repeats 0)
     | Some d \<Rightarrow> rbind (resolve_dim (ndim t) False d) (\<lambda>d'. interleave_at repeats d' t))"

definition roll_arg :: "tens \<Rightarrow> int \<times> int \<Rightarrow> (int \<times> int) option list \<Rightarrow> (int \<times> int) option list result" where
  "roll_arg t = (\<lambda>(d, s) arg. rbind (seq_get (shp t) d) (\<lambda>n.
     if n = 0 then Inl ZeroDivisionError
     else let delta = n - s mod n in seq_set d (Some (delta, delta + n)) arg))"

definition roll_dims :: "int list \<Rightarrow> int list \<Rightarrow> tens \<Rightarrow> tens result" where
  "roll_dims shifts dims t = rbind (rmap (resolve_dim (ndim t) False) dims) (\<lambda>ds.
     if length ds \<noteq> length shifts then Inl RuntimeError
     else rbind (rfold (roll_arg t) (zip ds shifts) (replicate (ndim t) None)) (\<lambda>arg.
       rbind (repeat (map (\<lambda>i. if i \<in> set ds then 2 else 1) (ndim_range (ndim t))) t) (shrink arg)))"

definition roll :: "int list \<Rightarrow> int list option \<Rightarrow> tens \<Rightarrow> tens result" where
  "roll shifts dims t = (case dims of
       None \<Rightarrow> rbind (flatten_dims 0 (-1) t) (\<lambda>f. rbind (roll_dims shifts [0] f) (reshape_to (shp t)))
     | Some ds \<Rightarrow> roll_dims shifts ds t)"

section \<open>Windows\<close>

definition pool_factor :: "int \<Rightarrow> int \<Rightarrow> int \<Rightarrow> int \<Rightarrow> int result" where
  "pool_factor out s i d = rbind (py_ceildiv (out * s - d) i) (\<lambda>c. Inr (max 1 c))"

definition pool :: "int list \<Rightarrow> int list \<Rightarrow> int list \<Rightarrow> tens \<Rightarrow> tens result" where
  "pool k s d t =
     (let n = length k; noop = ndim t - n; nones = replicate noop None; i = seq_from (shp t) (- int n);
          ki = zip k (zip d i) in
      rbind (rguard (n \<le> ndim t) AssertionError) (\<lambda>_.
      rbind (rguard (n = length s \<and> length s = length d) AssertionError) (\<lambda>_.
      rbind (rguard (list_all (\<lambda>(k, d, i). d * (k - 1) + 1 \<le> i) ki) AssertionError) (\<lambda>_.
      rbind (rmap (\<lambda>((k, d, i), s). py_ceildiv (i - d * (k - 1)) s) (zip ki s)) (\<lambda>out.
      rbind (rmap (\<lambda>((k, d, i), s, ow). pool_factor ow s i d) (zip ki (zip s out))) (\<lambda>f.
      rbind (rmap (\<lambda>((k, d, i), f). py_ceildiv (k * (i * f + d)) i) (zip ki f)) (\<lambda>reps.
      let span = map (\<lambda>((k, d, i), f). k * (i * f + d)) (zip ki f);
          rows = concat (map (\<lambda>((k, d, i), f). [k, i * f + d]) (zip ki f));
          strided = concat (map (\<lambda>(k, ow, s). [k, ow * s]) (zip k (zip out s)));
          grouped = concat (map (\<lambda>(k, ow, s). [k, ow, s]) (zip k (zip out s)));
          picked = concat (map (\<lambda>(k, ow). [k, ow, 1]) (zip k out));
          final = concat (map (\<lambda>(k, ow). [k, ow]) (zip k out)) in
      rbind (repeat (replicate noop 1 @ reps) t) (\<lambda>x.
      rbind (shrink_to (nones @ map Some span) x) (\<lambda>x1. rbind (reshape (nones @ map Some rows) x1) (\<lambda>x2.
      rbind (shrink_to (nones @ map Some strided) x2) (\<lambda>x3. rbind (reshape (nones @ map Some grouped) x3) (\<lambda>x4.
      rbind (shrink_to (nones @ map Some picked) x4) (\<lambda>x5. rbind (reshape (nones @ map Some final) x5) (\<lambda>x6.
      permute (ndim_range noop @ map (\<lambda>j. int (noop + j * 2 + 1)) [0..<length i]
               @ map (\<lambda>j. int (noop + j * 2)) [0..<length i]) x6))))))))))))))"

definition unfold :: "int \<Rightarrow> int \<Rightarrow> int \<Rightarrow> tens \<Rightarrow> tens result" where
  "unfold dim sz step t =
     (if sz < 0 then Inl RuntimeError else if step \<le> 0 then Inl RuntimeError
      else rbind (seq_get (shp t) dim) (\<lambda>n. if n < sz then Inl RuntimeError
        else rbind (resolve_dim (ndim t) False dim) (\<lambda>d.
          let perm = filter (\<lambda>i. i \<noteq> d) (ndim_range (ndim t)) @ [d] in
          rbind (permute perm t) (\<lambda>x. rbind (pool [sz] [step] [1] x) (permute (argsort perm @ [int (ndim t)]))))))"

section \<open>Indexing\<close>

datatype pyindex = INone | IInt int | ISlice "int option" "int option" "int option" | IEllipsis | IOther

definition is_ellipsis :: "pyindex \<Rightarrow> bool" where "is_ellipsis i = (i = IEllipsis)"
definition is_new_axis :: "pyindex \<Rightarrow> bool" where "is_new_axis i = (i = INone)"

definition normalize_indices :: "nat \<Rightarrow> pyindex list \<Rightarrow> pyindex list result" where
  "normalize_indices n idx =
     (let ell = filter (\<lambda>i. idx ! i = IEllipsis) [0..<length idx] in
      if length ell > 1 then Inl IndexError
      else let num_real = int (length idx) - int (length ell) - int (length (filter is_new_axis idx)) in
        if num_real > int n then Inl IndexError
        else let fill = (if ell \<noteq> [] then hd ell else length idx) in
          Inr (take fill idx @ replicate (nat (int n - num_real)) (ISlice None None None) @ drop (fill + 1) idx))"

text \<open>\<open>slice.indices(size)\<close> of Python.\<close>

definition slice_clamp :: "int \<Rightarrow> int \<Rightarrow> int \<Rightarrow> int \<Rightarrow> int" where
  "slice_clamp len lower upper v = (if v < 0 then max (v + len) lower else min v upper)"

definition slice_indices :: "int option \<Rightarrow> int option \<Rightarrow> int \<Rightarrow> int \<Rightarrow> int \<times> int" where
  "slice_indices start stop step len =
     (let lower = (if step < 0 then -1 else 0); upper = (if step < 0 then len - 1 else len) in
      (case start of None \<Rightarrow> (if step < 0 then upper else lower) | Some v \<Rightarrow> slice_clamp len lower upper v,
       case stop of None \<Rightarrow> (if step < 0 then lower else upper) | Some v \<Rightarrow> slice_clamp len lower upper v))"

record view_index =
  vi_size :: int
  vi_boundary :: "int \<times> int"
  vi_stride :: int
  vi_collapse :: bool

definition slice_view :: "int option \<Rightarrow> int option \<Rightarrow> int option \<Rightarrow> int \<Rightarrow> view_index result" where
  "slice_view start stop step len =
     (if step = Some 0 then Inl ValueError
      else let stride = (case step of None \<Rightarrow> 1 | Some v \<Rightarrow> v); (a, b) = slice_indices start stop stride len;
               bound = (if stride * (b - a) < 0 then (0, 0) else if stride < 0 then (b + 1, a + 1) else (a, b))
        in Inr \<lparr> vi_size = ceildiv (snd bound - fst bound) \<bar>stride\<bar>, vi_boundary = bound, vi_stride = stride,
                 vi_collapse = False \<rparr>)"

fun parse_view_index :: "pyindex \<Rightarrow> int \<Rightarrow> view_index result" where
  "parse_view_index INone len = Inr \<lparr> vi_size = 1, vi_boundary = (0, 1), vi_stride = 1, vi_collapse = False \<rparr>"
| "parse_view_index (IInt i) len =
     (if len \<le> i \<or> i < - len then Inl IndexError
      else let b = (if 0 \<le> i then i else i + len) in
        Inr \<lparr> vi_size = len, vi_boundary = (b, b + 1), vi_stride = 1, vi_collapse = True \<rparr>)"
| "parse_view_index (ISlice start stop step) len = slice_view start stop step len"
| "parse_view_index IEllipsis len = Inl IndexError"
| "parse_view_index IOther len = Inl IndexError"

definition apply_stride :: "int list \<Rightarrow> tens \<Rightarrow> tens result" where
  "apply_stride strides x =
     rbind (pad_to (map2 (\<lambda>s st. Some (round_up s st)) (shp x) strides) x) (\<lambda>y.
     rbind (reshape_to (concat (map2 (\<lambda>s st. [s div st, st]) (shp y) strides)) y) (\<lambda>z.
     rbind (shrink_to (concat (map (\<lambda>s. [Some s, Some 1]) (evens (shp z)))) z) (\<lambda>w.
     reshape_to (evens (shp w)) w)))"

definition apply_view_ops :: "view_index list \<Rightarrow> tens \<Rightarrow> tens result" where
  "apply_view_ops mops t =
     rbind (shrink (map (\<lambda>m. Some (vi_boundary m)) mops) t) (\<lambda>a.
     rbind (flip (map int (filter (\<lambda>i. vi_stride (mops ! i) < 0) [0..<length mops])) a) (\<lambda>x.
     let strides = map (\<lambda>m. \<bar>vi_stride m\<bar>) mops in
     if list_ex (\<lambda>st. st \<noteq> 1) strides then apply_stride strides x else Inr x))"

fun parse_indices :: "int list \<Rightarrow> pyindex list \<Rightarrow> view_index list result" where
  "parse_indices ss [] = Inr []"
| "parse_indices ss (INone # is) = rbind (parse_view_index INone 1) (\<lambda>m. rbind (parse_indices ss is) (\<lambda>ms. Inr (m # ms)))"
| "parse_indices ss (i # is) = (case ss of [] \<Rightarrow> Inl IndexError
     | s # ss' \<Rightarrow> rbind (parse_view_index i s) (\<lambda>m. rbind (parse_indices ss' is) (\<lambda>ms. Inr (m # ms))))"

definition getitem :: "pyindex list \<Rightarrow> tens \<Rightarrow> tens result" where
  "getitem idx t =
     rbind (normalize_indices (ndim t) idx) (\<lambda>ix. rbind (parse_indices (shp t) ix) (\<lambda>parsed.
     let mops = map snd (filter (\<lambda>(i, m). i \<noteq> INone) (zip ix parsed)) in
     rbind (if mops \<noteq> [] then apply_view_ops mops t else Inr t) (\<lambda>x.
     reshape_to (map vi_size (filter (\<lambda>m. \<not> vi_collapse m) parsed)) x)))"

end
