(* ===== verification/MovementSpec.thy ===== *)
theory MovementSpec
  imports MovementViews "HOL-Library.Multiset"
begin

text \<open>
  What the movement operations read.  \<open>valid s idx\<close>: \<open>idx\<close> is an index of a tensor of shape \<open>s\<close>.
  \<open>wf_tens\<close>: every shape of the trail follows from the one before.  \<open>view_map t t' f\<close>: \<open>t'\<close> is well
  formed, and its element \<open>idx\<close> is the element \<open>f idx\<close> of \<open>t\<close>, which is within \<open>t\<close> (or padding).
  One rule per movement UOp gives its \<open>f\<close>, and the rules compose.
\<close>

section \<open>Indices and offsets\<close>

definition valid :: "int list \<Rightarrow> int list \<Rightarrow> bool" where
  "valid s idx = list_all2 (\<lambda>n i. 0 \<le> i \<and> i < n) s idx"

lemma valid_simps [simp]:
  "valid [] idx \<longleftrightarrow> idx = []" "valid s [] \<longleftrightarrow> s = []"
  "valid (n # s) (i # idx) \<longleftrightarrow> 0 \<le> i \<and> i < n \<and> valid s idx"
  by (auto simp: valid_def)

lemma valid_ConsE:
  assumes "valid (n # s) idx" obtains i idx' where "idx = i # idx'" "0 \<le> i" "i < n" "valid s idx'"
  using assms by (auto simp: valid_def list_all2_Cons1)

lemma valid_length: "valid s idx \<Longrightarrow> length idx = length s"
  by (auto simp: valid_def dest: list_all2_lengthD)

lemma valid_nth: "valid s idx \<longleftrightarrow> length idx = length s \<and> (\<forall>k < length s. 0 \<le> idx ! k \<and> idx ! k < s ! k)"
  by (auto simp: valid_def list_all2_conv_all_nth)

lemma valid_pos: "valid s idx \<Longrightarrow> list_all (\<lambda>x. 0 < x) s"
  by (auto simp: valid_nth list_all_length)

abbreviation nonneg_shape :: "int list \<Rightarrow> bool" where "nonneg_shape s \<equiv> list_all (\<lambda>x. 0 \<le> x) s"

lemma prod_list_nonneg_shape: "nonneg_shape s \<Longrightarrow> 0 \<le> prod_list s"
  by (induction s) auto

lemma prod_list_pos: "list_all (\<lambda>x. 0 < x) s \<Longrightarrow> 0 < prod_list (s :: int list)"
  by (induction s) auto

lemma pos_of_prod: "nonneg_shape s \<Longrightarrow> 0 < prod_list s \<Longrightarrow> list_all (\<lambda>x. 0 < x) s"
  by (induction s) (auto simp: zero_less_mult_iff dest: prod_list_nonneg_shape)

lemma combine_axes_Nil [simp]: "combine_axes [] idx = 0" "combine_axes s [] = 0"
  by (simp_all add: combine_axes_def)

lemma combine_state:
  "length idx = length s \<Longrightarrow>
   fst (foldr (\<lambda>(s, i) (acc, total). (acc * s, total + acc * i)) (zip s idx) (1, 0)) = prod_list s"
  for s idx :: "int list"
  by (induction s idx rule: list_induct2') (auto simp: case_prod_unfold)

lemma combine_axes_Cons [simp]:
  "length idx = length s \<Longrightarrow> combine_axes (n # s) (i # idx) = i * prod_list s + combine_axes s idx"
  using combine_state [of idx s] by (simp add: combine_axes_def case_prod_unfold flip: foldr_conv_fold)

lemma split_state:
  "nonneg_shape s \<Longrightarrow> fst (foldr (\<lambda>s (c, axes). (c div s, (c mod s) # axes)) s (c, [])) = c div prod_list s"
proof (induction s)
  case Nil
  then show ?case by simp
next
  case (Cons n s)
  then show ?case
    by (simp add: case_prod_unfold mult.commute [of n] zdiv_zmult2_eq)
qed

lemma split_axes_Nil [simp]: "split_axes [] c = []"
  by (simp add: split_axes_def)

lemma split_axes_Cons [simp]:
  "nonneg_shape s \<Longrightarrow> split_axes (n # s) c = (c div prod_list s) mod n # split_axes s c"
  using split_state [of s c] by (simp add: split_axes_def case_prod_unfold flip: foldr_conv_fold)

lemma length_split_axes [simp]: "length (split_axes s c) = length s"
proof -
  have "length (snd (fold (\<lambda>s (c, axes). (c div s, (c mod s) # axes)) xs (c, ys))) = length xs + length ys"
    for xs ys and c :: int
    by (induction xs arbitrary: c ys) auto
  from this [of "rev s" c "[]"] show ?thesis by (simp add: split_axes_def)
qed

lemma combine_axes_bounds: "valid s idx \<Longrightarrow> 0 \<le> combine_axes s idx \<and> combine_axes s idx < prod_list s"
proof (induction s arbitrary: idx)
  case Nil
  then show ?case by simp
next
  case (Cons n s)
  then obtain i idx' where i: "idx = i # idx'" "0 \<le> i" "i < n" "valid s idx'" by (blast elim: valid_ConsE)
  have p: "0 < prod_list s" using prod_list_pos valid_pos i(4) by blast
  have "(i + 1) * prod_list s \<le> n * prod_list s" using p i(3) by (simp add: mult_right_mono)
  with Cons.IH [OF i(4)] i p show ?case by (simp add: valid_length algebra_simps)
qed

lemma split_axes_shift: "nonneg_shape s \<Longrightarrow> split_axes s (c + k * prod_list s) = split_axes s c"
proof (induction s arbitrary: k)
  case Nil
  then show ?case by simp
next
  case (Cons n s)
  have "split_axes s (c + (k * n) * prod_list s) = split_axes s c" using Cons by simp
  moreover have "(c + k * n * prod_list s) div prod_list s mod n = c div prod_list s mod n"
    by (cases "prod_list s = 0") simp_all
  ultimately show ?case using Cons.prems by (simp add: mult.assoc)
qed

lemma split_combine: "valid s idx \<Longrightarrow> split_axes s (combine_axes s idx) = idx"
proof (induction s arbitrary: idx)
  case Nil
  then show ?case by simp
next
  case (Cons n s)
  then obtain i idx' where i: "idx = i # idx'" "0 \<le> i" "i < n" "valid s idx'" by (blast elim: valid_ConsE)
  have p: "list_all (\<lambda>x. 0 < x) s" using valid_pos i(4) by blast
  then have nn: "nonneg_shape s" by (auto simp: list_all_iff)
  have "(i * prod_list s + combine_axes s idx') div prod_list s = i"
    using combine_axes_bounds [OF i(4)] by (simp add: int_div_pos_eq)
  moreover have "split_axes s (i * prod_list s + combine_axes s idx') = idx'"
    using split_axes_shift [OF nn, of "combine_axes s idx'" i] Cons.IH [OF i(4)] by (simp add: add.commute)
  ultimately show ?case using i nn by (simp add: valid_length)
qed

lemma valid_split_axes: "list_all (\<lambda>x. 0 < x) s \<Longrightarrow> valid s (split_axes s c)"
proof (induction s)
  case Nil
  then show ?case by simp
next
  case (Cons n s)
  then have "nonneg_shape s" by (auto simp: list_all_iff)
  with Cons show ?case by simp
qed

lemma combine_split: "list_all (\<lambda>x. 0 < x) s \<Longrightarrow> 0 \<le> c \<Longrightarrow> combine_axes s (split_axes s c) = c mod prod_list s"
proof (induction s)
  case Nil
  then show ?case by simp
next
  case (Cons n s)
  then have "nonneg_shape s" "0 < prod_list s" by (auto simp: list_all_iff prod_list_pos)
  moreover have "c mod (prod_list s * n) = prod_list s * (c div prod_list s mod n) + c mod prod_list s"
    using \<open>0 < prod_list s\<close> Cons.prems by (intro zmod_zmult2_eq) simp
  ultimately show ?case using Cons by (simp add: mult.commute)
qed

section \<open>Well-formed tensors\<close>

fun linked :: "int list \<Rightarrow> (mop \<times> int list) list \<Rightarrow> bool" where
  "linked s [] = nonneg_shape s"
| "linked s ((m, ps) # ms) = (mop_shape m ps = Inr s \<and> linked ps ms)"

definition wf_tens :: "tens \<Rightarrow> bool" where
  "wf_tens t = linked (shp t) (trail t)"

definition base_shape :: "tens \<Rightarrow> int list" where
  "base_shape t = (case trail t of [] \<Rightarrow> shp t | _ \<Rightarrow> snd (last (trail t)))"

lemma wf_base [simp]: "wf_tens (base_tens s) \<longleftrightarrow> nonneg_shape s"
  by (simp add: wf_tens_def base_tens_def)

lemma perm_nonneg:
  assumes "sort a = ndim_range n" shows "p \<in> set a \<Longrightarrow> 0 \<le> p \<and> p < int n" and "length a = n" and "distinct a"
    and "set a = int ` {..<n}"
proof -
  have "set a = set (ndim_range n)" using assms by (metis set_sort)
  then show "set a = int ` {..<n}" by (auto simp: ndim_range_def)
  then show "p \<in> set a \<Longrightarrow> 0 \<le> p \<and> p < int n" by auto
  show "length a = n" using assms by (metis diff_zero length_map length_sort length_upt ndim_range_def)
  show "distinct a" using assms by (metis distinct_map distinct_sort distinct_upt inj_on_of_nat ndim_range_def)
qed

lemma mop_shape_nonneg: "mop_shape m ps = Inr s \<Longrightarrow> nonneg_shape ps \<Longrightarrow> nonneg_shape s"
proof (induction m ps rule: mop_shape.induct)
  case (3 a ps)
  then have a: "sort a = ndim_range (length ps)" and s: "s = map (\<lambda>i. ps ! nat i) a" by (auto split: if_splits)
  show ?case unfolding s list_all_iff
  proof
    fix x assume "x \<in> set (map (\<lambda>i. ps ! nat i) a)"
    then obtain i where "i \<in> set a" "x = ps ! nat i" by auto
    with perm_nonneg(1) [OF a \<open>i \<in> set a\<close>] 3(2) show "0 \<le> x" by (auto simp: list_all_length)
  qed
qed (auto simp: list_all_length split: if_splits prod.splits; metis snd_conv nth_mem prod.collapse)+

lemma linked_nonneg: "linked s ms \<Longrightarrow> nonneg_shape s"
  by (induction s ms rule: linked.induct) (auto intro: mop_shape_nonneg)

lemma wf_nonneg: "wf_tens t \<Longrightarrow> nonneg_shape (shp t)"
  by (auto simp: wf_tens_def dest: linked_nonneg)

lemma wf_nth: "wf_tens t \<Longrightarrow> k < length (shp t) \<Longrightarrow> 0 \<le> shp t ! k"
  using wf_nonneg by (auto simp: list_all_length)

section \<open>One movement UOp\<close>

lemma map_sort_key_argsort: "map f (sort_key f xs) = sort (map f xs)"
  by (rule properties_for_sort [symmetric]) simp_all

lemma argsort_inverse:
  assumes "sort a = ndim_range n"
  shows "length (argsort a) = n" "k < n \<Longrightarrow> 0 \<le> argsort a ! k \<and> nat (argsort a ! k) < n"
    and "k < n \<Longrightarrow> a ! nat (argsort a ! k) = int k"
proof -
  let ?s = "sort_key (\<lambda>i. a ! i) [0..<length a]"
  have l: "length a = n" by (rule perm_nonneg(2) [OF assms])
  show len: "length (argsort a) = n" by (simp add: argsort_def l)
  have "map (\<lambda>i. a ! i) ?s = sort a" by (simp add: map_sort_key_argsort map_nth)
  then have m: "map (\<lambda>i. a ! i) ?s = ndim_range n" using assms by simp
  show "0 \<le> argsort a ! k \<and> nat (argsort a ! k) < n" if k: "k < n"
  proof -
    have "?s ! k \<in> set ?s" using k l by (intro nth_mem) simp
    then show ?thesis using k l by (simp add: argsort_def)
  qed
  show "a ! nat (argsort a ! k) = int k" if k: "k < n"
  proof -
    have "map (\<lambda>i. a ! i) ?s ! k = int k" using k by (simp add: m ndim_range_def)
    then show ?thesis using k l by (simp add: argsort_def)
  qed
qed

lemma mop_index_valid:
  "mop_shape m ps = Inr s \<Longrightarrow> nonneg_shape ps \<Longrightarrow> valid s idx \<Longrightarrow> mop_index m ps idx = Some j \<Longrightarrow> valid ps j"
proof (induction m ps rule: mop_shape.induct)
  case (1 a ps)
  then have "0 < prod_list ps" by (auto split: if_splits dest: prod_list_pos [OF valid_pos])
  with 1 show ?case by (auto split: if_splits intro!: valid_split_axes pos_of_prod)
next
  case (2 a ps)
  then have l: "length ps = length a" "length idx = length a" "s = a" by (auto simp: valid_nth split: if_splits)
  have j: "j = map2 (\<lambda>r (s, ns). if s = ns then r else 0) idx (zip ps a)" using 2(4) by simp
  have "0 \<le> (if ps ! k = a ! k then idx ! k else 0) \<and> (if ps ! k = a ! k then idx ! k else 0) < ps ! k"
    if k: "k < length a" for k
  proof -
    have "ps ! k = a ! k \<or> ps ! k = 1"
      using 2(1) k l by (auto simp: list_all_length split: if_splits dest!: spec [where x = k])
    moreover have "0 \<le> idx ! k" "idx ! k < a ! k" using 2(3) k l by (auto simp: valid_nth)
    ultimately show ?thesis by auto
  qed
  then show ?case using l by (auto simp: valid_nth j)
next
  case (3 a ps)
  then have a: "sort a = ndim_range (length ps)" and s: "s = map (\<lambda>i. ps ! nat i) a" by (auto split: if_splits)
  note inv = argsort_inverse [OF a]
  show ?case
  proof (unfold valid_nth, intro conjI allI impI)
    show "length j = length ps" using 3 inv(1) by auto
    fix k assume k: "k < length ps"
    let ?p = "nat (argsort a ! k)"
    have p: "?p < length a" using inv(2) [OF k] perm_nonneg(2) [OF a] by simp
    have "j ! k = idx ! ?p" using 3(4) k inv(1) by auto
    moreover have "s ! ?p = ps ! k" using p inv(3) [OF k] by (simp add: s)
    ultimately show "0 \<le> j ! k" "j ! k < ps ! k" using 3(3) p by (auto simp: valid_nth s)
  qed
next
  case (4 a ps)
  then have l: "length ps = length a" "length idx = length a" "s = map snd a"
    by (auto simp: valid_nth split: if_splits)
  have pv: "pad_valid ps a idx" and j: "j = map2 (\<lambda>r (off, _). r - off) idx a" using 4(4) by (auto split: if_splits)
  have "0 \<le> idx ! k - fst (a ! k) \<and> idx ! k - fst (a ! k) < ps ! k" if k: "k < length a" for k
  proof -
    obtain off sz where ak: "a ! k = (off, sz)" by fastforce
    have "(sz = ps ! k \<and> off = 0) \<or> (off \<le> idx ! k \<and> idx ! k < ps ! k + off)"
      using pv k l ak by (auto simp: pad_valid_def list_all_length dest!: spec [where x = k])
    moreover have "0 \<le> idx ! k" "idx ! k < sz" using 4(3) k l ak by (auto simp: valid_nth)
    ultimately show ?thesis by (auto simp: ak)
  qed
  then show ?case using l by (auto simp: valid_nth j case_prod_unfold)
next
  case (5 a ps)
  then have l: "length ps = length a" "length idx = length a" "s = map snd a"
    by (auto simp: valid_nth split: if_splits)
  have j: "j = map2 (\<lambda>r (off, _). r + off) idx a" using 5(4) by auto
  have "0 \<le> idx ! k + fst (a ! k) \<and> idx ! k + fst (a ! k) < ps ! k" if k: "k < length a" for k
  proof -
    obtain off sz where ak: "a ! k = (off, sz)" by fastforce
    have "0 \<le> off \<and> off + sz \<le> ps ! k"
      using 5(1) k l ak by (auto simp: list_all_length split: if_splits dest!: spec [where x = k])
    moreover have "0 \<le> idx ! k" "idx ! k < sz" using 5(3) k l ak by (auto simp: valid_nth)
    ultimately show ?thesis by (auto simp: ak)
  qed
  then show ?case using l by (auto simp: valid_nth j case_prod_unfold)
next
  case (6 a ps)
  then show ?case by (auto simp: valid_nth split: if_splits)
next
  case (7 a ps)
  then show ?case by (auto split: if_splits)
qed

definition view_map :: "tens \<Rightarrow> tens \<Rightarrow> (int list \<Rightarrow> int list option) \<Rightarrow> bool" where
  "view_map t t' f \<longleftrightarrow> wf_tens t' \<and> base_shape t' = base_shape t \<and> (\<forall>idx. valid (shp t') idx \<longrightarrow>
     locate t' idx = Option.bind (f idx) (locate t) \<and> pred_option (valid (shp t)) (f idx))"

lemma view_mapD:
  assumes "view_map t t' f"
  shows "wf_tens t'" "base_shape t' = base_shape t"
    and "valid (shp t') idx \<Longrightarrow> locate t' idx = Option.bind (f idx) (locate t)"
    and "valid (shp t') idx \<Longrightarrow> f idx = Some j \<Longrightarrow> valid (shp t) j"
  using assms by (auto simp: view_map_def)

lemma view_map_refl [simp]: "wf_tens t \<Longrightarrow> view_map t t Some"
  by (simp add: view_map_def)

lemma view_map_trans:
  assumes "view_map t t' f" and "view_map t' t'' g"
  shows "view_map t t'' (\<lambda>idx. Option.bind (g idx) f)"
proof -
  have "locate t'' idx = Option.bind (Option.bind (g idx) f) (locate t) \<and>
        pred_option (valid (shp t)) (Option.bind (g idx) f)" if v: "valid (shp t'') idx" for idx
    using view_mapD(3) [OF assms(2) v] view_mapD(4) [OF assms(2) v]
      view_mapD(3) [OF assms(1)] view_mapD(4) [OF assms(1)]
    by (cases "g idx"; cases "f (the (g idx))") auto
  with assms show ?thesis by (auto simp: view_map_def)
qed

lemma view_map_cong:
  "view_map t t' f \<Longrightarrow> (\<And>idx. valid (shp t') idx \<Longrightarrow> f idx = g idx) \<Longrightarrow> view_map t t' g"
  by (simp add: view_map_def)

lemma view_map_make_mop:
  assumes "wf_tens t" and "make_mop m t = Inr t'"
  shows "mop_shape m (shp t) = Inr (shp t')" and "view_map t t' (mop_index m (shp t))"
proof -
  have both: "mop_shape m (shp t) = Inr (shp t') \<and> view_map t t' (mop_index m (shp t))"
  proof (cases "empty_arg m")
    case True
    then have t: "shp t = []" "t' = t" using assms(2) by (auto simp: make_mop_def rbind_eq_Inr)
    have "mop_index m [] [] = Some [] \<and> mop_shape m [] = Inr []"
      using True by (cases m) (auto simp: pad_valid_def)
    with t assms(1) show ?thesis by (auto intro: view_map_cong [OF view_map_refl])
  next
    case False
    then have s: "mop_shape m (shp t) = Inr (shp t')" and t': "trail t' = (m, shp t) # trail t"
      using assms(2) by (auto simp: make_mop_def rbind_eq_Inr)
    have "base_shape t' = base_shape t" by (simp add: base_shape_def t' split: list.splits)
    moreover have "wf_tens t'" using s assms(1) by (simp add: wf_tens_def t')
    moreover have "pred_option (valid (shp t)) (mop_index m (shp t) idx)" if "valid (shp t') idx" for idx
      using mop_index_valid [OF s wf_nonneg [OF assms(1)] that] by (cases "mop_index m (shp t) idx") auto
    ultimately show ?thesis using s
      by (auto simp: view_map_def t' split: option.splits)
  qed
  then show "mop_shape m (shp t) = Inr (shp t')" and "view_map t t' (mop_index m (shp t))" by auto
qed

lemma make_mop_ok:
  assumes "mop_shape m (shp t) = Inr s" and "wf_tens t"
  obtains t' where "make_mop m t = Inr t'" "shp t' = s" "view_map t t' (mop_index m (shp t))"
proof (cases "empty_arg m")
  case True
  then have "shp t = []" "s = []" using assms(1) by (cases m; auto split: if_splits)+
  with True have "make_mop m t = Inr t" "shp t = s" by (simp_all add: make_mop_def)
  with view_map_make_mop(2) [OF assms(2)] that show ?thesis by blast
next
  case False
  with assms(1) have "make_mop m t = Inr \<lparr> shp = s, trail = (m, shp t) # trail t \<rparr>" by (simp add: make_mop_def)
  with view_map_make_mop(2) [OF assms(2) this] that show ?thesis by fastforce
qed

lemma view_map_elide:
  assumes "wf_tens t" and "view_map t r f"
    and "\<And>idx. shp r = shp t \<Longrightarrow> valid (shp t) idx \<Longrightarrow> f idx = Some idx"
  shows "view_map t (elide t r) f" and "shp (elide t r) = shp r"
  using assms by (auto simp: elide_def intro: view_map_cong [OF view_map_refl])

section \<open>Operations that make one UOp\<close>

lemma reshape_args_Some: "rmap (\<lambda>(i, s). case s of Some v \<Rightarrow> Inr v | None \<Rightarrow> lget cur i)
    (zip [k..<k + length s] (map Some s)) = Inr s"
proof (induction s arbitrary: k)
  case Nil
  then show ?case by simp
next
  case (Cons a s)
  from Cons [of "Suc k"] show ?case by (simp add: upt_conv_Cons del: upt_Suc)
qed

lemma mop_index_fun:
  "mop_index (RESHAPE a) ps = (\<lambda>idx. Some (split_axes ps (combine_axes a idx)))"
  "mop_index (SHRINK i) ps = (\<lambda>idx. Some (map2 (\<lambda>r (off, _). r + off) idx i))"
  "mop_index (PERMUTE a) ps = (\<lambda>idx. Some (map (\<lambda>p. idx ! nat p) (argsort a)))"
  "mop_index (FLIP f) ps = (\<lambda>idx. Some (map2 (\<lambda>r (s, f). if f then (s - 1) - r else r) idx (zip ps f)))"
  "mop_index (EXPAND a) ps = (\<lambda>idx. Some (map2 (\<lambda>r (s, ns). if s = ns then r else 0) idx (zip ps a)))"
  "mop_index (PAD i) ps = (\<lambda>idx. if pad_valid ps i idx then Some (map2 (\<lambda>r (off, _). r - off) idx i) else None)"
  by (rule ext; simp)+

lemma reshape_shape_concrete: "nonneg_shape s \<Longrightarrow> reshape_shape cur (map Some s) = Inr s"
  using reshape_args_Some [of cur 0 s] count_list_0_iff [of s "-1"]
  by (auto simp: reshape_shape_def list_all_iff Let_def)

lemma reshapeD:
  assumes "wf_tens t" and "reshape arg t = Inr t'"
  shows "prod_list (shp t') = prod_list (shp t)" and "reshape_shape (shp t) arg = Inr (shp t')"
    and "view_map t t' (\<lambda>idx. Some (split_axes (shp t) (combine_axes (shp t') idx)))"
proof -
  from assms(2) obtain s r where s: "reshape_shape (shp t) arg = Inr s" "prod_list (shp t) = prod_list s"
    and r: "make_mop (RESHAPE s) t = Inr r" "t' = elide t r"
    by (auto simp: reshape_def rbind_eq_Inr split: if_splits)
  note m = view_map_make_mop [OF assms(1) r(1)]
  have sr: "shp r = s" using m(1) by (simp split: if_splits)
  have e: "view_map t (elide t r) (mop_index (RESHAPE s) (shp t))" and e2: "shp (elide t r) = shp r"
    by (rule view_map_elide [OF assms(1) m(2)]; simp add: sr split_combine)+
  show "prod_list (shp t') = prod_list (shp t)" "reshape_shape (shp t) arg = Inr (shp t')"
    using s by (simp_all add: r e2 sr)
  show "view_map t t' (\<lambda>idx. Some (split_axes (shp t) (combine_axes (shp t') idx)))"
    using e by (simp add: r e2 sr mop_index_fun)
qed

lemma reshape_ok:
  assumes "wf_tens t" and "reshape_shape (shp t) arg = Inr s" and "nonneg_shape s" and "prod_list s = prod_list (shp t)"
  obtains t' where "reshape arg t = Inr t'" "shp t' = s"
    "view_map t t' (\<lambda>idx. Some (split_axes (shp t) (combine_axes s idx)))"
proof -
  obtain r where "make_mop (RESHAPE s) t = Inr r"
    by (rule make_mop_ok [of "RESHAPE s" t s]) (use assms in auto)
  then have r: "reshape arg t = Inr (elide t r)" using assms by (simp add: reshape_def)
  from reshapeD [OF assms(1) r] assms(2) r that show ?thesis by auto
qed

lemmas reshape_to_ok = reshape_ok [OF _ reshape_shape_concrete]

lemma shrink_interval_id: "valid s idx \<Longrightarrow> length a = length s \<Longrightarrow> (\<And>k. k < length s \<Longrightarrow> fst (a ! k) = 0) \<Longrightarrow>
    map2 (\<lambda>r (off, _). r + off) idx a = idx"
  by (rule nth_equalityI) (auto simp: valid_length case_prod_unfold)

lemma pad_interval_id: "valid s idx \<Longrightarrow> length a = length s \<Longrightarrow> (\<And>k. k < length s \<Longrightarrow> a ! k = (0, s ! k)) \<Longrightarrow>
    pad_valid s a idx \<and> map2 (\<lambda>r (off, _). r - off) idx a = idx"
  by (auto simp: pad_valid_def list_all_length valid_length case_prod_unfold intro!: nth_equalityI)

definition shrink_args :: "(int \<times> int) option list \<Rightarrow> int list \<Rightarrow> (int \<times> int) list" where
  "shrink_args arg s = map2 (\<lambda>x s. case x of Some (a, b) \<Rightarrow> (a, b - a) | None \<Rightarrow> (0, s)) arg s"

lemma shrinkD:
  assumes "wf_tens t" and "shrink arg t = Inr t'"
  shows "length arg = ndim t" and "mop_shape (SHRINK (shrink_args arg (shp t))) (shp t) = Inr (shp t')"
    and "view_map t t' (\<lambda>idx. Some (map2 (\<lambda>r (off, _). r + off) idx (shrink_args arg (shp t))))"
proof -
  from assms(2) show l: "length arg = ndim t" by (auto simp: shrink_def split: if_splits)
  from assms(2) obtain r where r: "make_mop (SHRINK (shrink_args arg (shp t))) t = Inr r" "t' = elide t r"
    by (auto simp: shrink_def shrink_args_def rbind_eq_Inr split: if_splits)
  note m = view_map_make_mop [OF assms(1) r(1)]
  have id: "map2 (\<lambda>r (off, _). r + off) idx (shrink_args arg (shp t)) = idx"
    if same: "shp r = shp t" and v: "valid (shp t) idx" for idx
  proof (rule shrink_interval_id [OF v])
    show "length (shrink_args arg (shp t)) = length (shp t)" using l by (simp add: shrink_args_def ndim_def)
    fix k assume "k < length (shp t)"
    then have "0 \<le> fst (shrink_args arg (shp t) ! k) \<and>
               fst (shrink_args arg (shp t) ! k) + snd (shrink_args arg (shp t) ! k) \<le> shp t ! k"
        and "snd (shrink_args arg (shp t) ! k) = shp r ! k"
      using m(1) by (auto simp: list_all_length case_prod_unfold split: if_splits dest!: sym [of "map snd _"])
    with same show "fst (shrink_args arg (shp t) ! k) = 0" by simp
  qed
  have e: "view_map t t' (mop_index (SHRINK (shrink_args arg (shp t))) (shp t))" and e2: "shp t' = shp r"
    unfolding r(2) by (rule view_map_elide [OF assms(1) m(2)]; simp add: id)+
  from m(1) e e2 show "mop_shape (SHRINK (shrink_args arg (shp t))) (shp t) = Inr (shp t')"
    and "view_map t t' (\<lambda>idx. Some (map2 (\<lambda>r (off, _). r + off) idx (shrink_args arg (shp t))))"
    by (simp_all add: mop_index_fun)
qed

definition within :: "int \<Rightarrow> (int \<times> int) option \<Rightarrow> bool" where
  "within n x = (case x of None \<Rightarrow> True | Some (a, b) \<Rightarrow> 0 \<le> a \<and> a \<le> b \<and> b \<le> n)"

lemma shrink_ok:
  assumes "wf_tens t" and "list_all2 within (shp t) arg"
  obtains t' where "shrink arg t = Inr t'" "shp t' = map snd (shrink_args arg (shp t))"
    "view_map t t' (\<lambda>idx. Some (map2 (\<lambda>r (off, _). r + off) idx (shrink_args arg (shp t))))"
proof -
  have l: "length arg = length (shp t)" using assms(2) by (auto dest: list_all2_lengthD)
  have "list_all (\<lambda>(s, o', sz). 0 \<le> o' \<and> 0 \<le> sz \<and> o' + sz \<le> s) (zip (shp t) (shrink_args arg (shp t)))"
    using assms(2) l wf_nth [OF assms(1)]
    by (auto simp: list_all_length list_all2_conv_all_nth shrink_args_def within_def split: option.splits)
  then have "mop_shape (SHRINK (shrink_args arg (shp t))) (shp t) = Inr (map snd (shrink_args arg (shp t)))"
    using l by (auto simp: shrink_args_def)
  from make_mop_ok [OF this assms(1)] obtain r where "make_mop (SHRINK (shrink_args arg (shp t))) t = Inr r"
    "shp r = map snd (shrink_args arg (shp t))" by blast
  then have "shrink arg t = Inr (elide t r)" "shp (elide t r) = map snd (shrink_args arg (shp t))"
    using l by (simp_all add: shrink_def shrink_args_def ndim_def elide_def)
  with shrinkD(3) [OF assms(1)] that show ?thesis by blast
qed

lemma pad_unchanged:
  assumes "mop_shape (PAD a) s = Inr s" and "valid s idx"
  shows "mop_index (PAD a) s idx = Some idx"
proof -
  have l: "length a = length s" and snd: "map snd a = s"
    and all: "\<And>k. k < length s \<Longrightarrow> 0 \<le> fst (a ! k) \<and> fst (a ! k) + s ! k \<le> snd (a ! k)"
    using assms(1) by (auto simp: list_all_length case_prod_unfold split: if_splits)
  have "a ! k = (0, s ! k)" if k: "k < length s" for k
  proof -
    have "snd (a ! k) = s ! k" using arg_cong [OF snd, of "\<lambda>xs. xs ! k"] k l by simp
    with all [OF k] show ?thesis by (metis add_le_same_cancel2 order_antisym prod.collapse)
  qed
  from pad_interval_id [OF assms(2) l this] show ?thesis by simp
qed

lemma padD:
  assumes "wf_tens t" and "pad arg t = Inr t'" shows "\<exists>f. view_map t t' f"
proof -
  from assms(2) obtain a r where r: "make_mop (PAD a) t = Inr r" "t' = elide t r"
    by (auto simp: pad_def rbind_eq_Inr split: if_splits)
  note m = view_map_make_mop [OF assms(1) r(1)]
  have "view_map t t' (mop_index (PAD a) (shp t))" unfolding r(2)
    by (rule view_map_elide(1) [OF assms(1) m(2)]) (use m(1) pad_unchanged in auto)
  then show ?thesis by blast
qed

definition pad_to_args :: "int list \<Rightarrow> int option list \<Rightarrow> (int \<times> int) list" where
  "pad_to_args s arg = map2 (\<lambda>s ns. (0, case ns of None \<Rightarrow> s | Some v \<Rightarrow> v)) s arg"

lemma pad_toD:
  assumes "wf_tens t" and "pad_to arg t = Inr t'"
  shows "view_map t t' (mop_index (PAD (pad_to_args (shp t) arg)) (shp t))"
proof -
  from assms(2) have "make_mop (PAD (pad_to_args (shp t) arg)) t = Inr t'"
    by (auto simp: pad_to_def pad_to_args_def split: if_splits)
  from view_map_make_mop [OF assms(1) this] show ?thesis by simp
qed

definition reaches :: "int \<Rightarrow> int option \<Rightarrow> bool" where
  "reaches n x = (case x of None \<Rightarrow> True | Some v \<Rightarrow> n \<le> v)"

text \<open>Padding at the end: an index within the old shape is unchanged, any other reads padding.\<close>

lemma pad_to_ok:
  assumes "wf_tens t" and "list_all2 reaches (shp t) arg"
  obtains t' where "pad_to arg t = Inr t'" "shp t' = map2 (\<lambda>s ns. case ns of None \<Rightarrow> s | Some v \<Rightarrow> v) (shp t) arg"
    "view_map t t' (\<lambda>idx. if list_all2 (\<lambda>s i. i < s) (shp t) idx then Some idx else None)"
proof -
  have l: "length arg = length (shp t)" using assms(2) by (auto dest: list_all2_lengthD)
  let ?a = "pad_to_args (shp t) arg"
  have la: "length ?a = length (shp t)" using l by (simp add: pad_to_args_def)
  have fst: "fst (?a ! k) = 0" if "k < length (shp t)" for k using that l by (simp add: pad_to_args_def)
  have snd: "map snd ?a = map2 (\<lambda>s ns. case ns of None \<Rightarrow> s | Some v \<Rightarrow> v) (shp t) arg"
    by (simp add: pad_to_args_def case_prod_unfold)
  have ge: "0 \<le> shp t ! k \<and> shp t ! k \<le> snd (?a ! k)" if "k < length (shp t)" for k
    using that l assms(2) wf_nth [OF assms(1) that]
    by (auto simp: pad_to_args_def list_all2_conv_all_nth reaches_def split: option.splits)
  have sh: "mop_shape (PAD ?a) (shp t) = Inr (map snd ?a)"
    using la fst ge by (fastforce simp: list_all_length case_prod_unfold)
  from make_mop_ok [OF sh assms(1)] obtain r where r: "make_mop (PAD ?a) t = Inr r" "shp r = map snd ?a"
    "view_map t r (mop_index (PAD ?a) (shp t))" by blast
  have call: "pad_to arg t = Inr r" using r(1) l by (simp add: pad_to_def pad_to_args_def ndim_def)
  have "mop_index (PAD ?a) (shp t) idx = (if list_all2 (\<lambda>s i. i < s) (shp t) idx then Some idx else None)"
    if v: "valid (shp r) idx" for idx
  proof -
    have li: "length idx = length (shp t)" using v r(2) la by (simp add: valid_nth)
    have rng: "0 \<le> idx ! k \<and> idx ! k < snd (?a ! k)" if "k < length (shp t)" for k
      using v that la by (simp add: valid_nth r(2))
    have "pad_valid (shp t) ?a idx \<longleftrightarrow> list_all2 (\<lambda>s i. i < s) (shp t) idx"
      using li la fst rng by (fastforce simp: pad_valid_def list_all_length list_all2_conv_all_nth case_prod_unfold)
    moreover have "map2 (\<lambda>r (off, _). r - off) idx ?a = idx"
      using li la fst by (intro nth_equalityI) (auto simp: case_prod_unfold)
    ultimately show ?thesis by simp
  qed
  with r(3) have "view_map t r (\<lambda>idx. if list_all2 (\<lambda>s i. i < s) (shp t) idx then Some idx else None)"
    by (auto intro: view_map_cong)
  with call r(2) snd that show ?thesis by simp
qed

lemma broadcast_toD:
  assumes "wf_tens t" and "broadcast_to s t = Inr t'"
  shows "shp t' = s" and "\<exists>f. view_map t t' f"
proof -
  have "shp t' = s \<and> (\<exists>f. view_map t t' f)"
  proof (cases "shp t = s")
    case True
    with assms show ?thesis by (auto simp: broadcast_to_def intro: view_map_refl)
  next
    case False
    with assms(2) obtain p x r where x: "reshape_to p t = Inr x" and r: "make_mop (EXPAND s) x = Inr r" "t' = elide x r"
      by (auto simp: broadcast_to_def rbind_eq_Inr Let_def split: if_splits)
    note vx = reshapeD(3) [OF assms(1) x]
    note m = view_map_make_mop [OF view_mapD(1) [OF vx] r(1)]
    have s: "shp r = s" using m(1) by (auto split: if_splits)
    have e: "view_map x (elide x r) (mop_index (EXPAND s) (shp x))" and e2: "shp (elide x r) = shp r"
      by (rule view_map_elide [OF view_mapD(1) [OF vx] m(2)];
          auto simp: s valid_length intro!: nth_equalityI)+
    from view_map_trans [OF vx e] show ?thesis by (auto simp: r e2 s)
  qed
  then show "shp t' = s" and "\<exists>f. view_map t t' f" by auto
qed

lemma permuteD:
  assumes "wf_tens t" and "permute order t = Inr t'" shows "\<exists>f. view_map t t' f"
  using assms(2) exI [of "view_map t _", OF view_map_make_mop(2) [OF assms(1)]] exI [of "view_map t t", OF view_map_refl [OF assms(1)]]
  by (auto simp: permute_def rbind_eq_Inr split: if_splits)

lemma flipD:
  assumes "wf_tens t" and "flip axis t = Inr t'" shows "\<exists>f. view_map t t' f"
  using assms(2) exI [of "view_map t _", OF view_map_make_mop(2) [OF assms(1)]] exI [of "view_map t t", OF view_map_refl [OF assms(1)]]
  by (auto simp: flip_def rbind_eq_Inr Let_def split: if_splits)

section \<open>Every operation reads from its operand\<close>

named_theorems reads_intro \<open>the operations whose result reads from the operand\<close>

definition reads_from :: "tens \<Rightarrow> tens \<Rightarrow> bool" where
  "reads_from t' t \<longleftrightarrow> (\<exists>f. view_map t t' f)"

lemma reads_from_trans [trans]: "reads_from t'' t' \<Longrightarrow> reads_from t' t \<Longrightarrow> reads_from t'' t"
  unfolding reads_from_def using view_map_trans by blast

lemma reads_from_refl: "wf_tens t \<Longrightarrow> reads_from t t"
  unfolding reads_from_def using view_map_refl by blast

lemma reads_fromD:
  assumes "reads_from t' t" shows "wf_tens t'" and "base_shape t' = base_shape t"
  using assms by (auto simp: reads_from_def dest: view_mapD)

lemma run_rbindE: "rbind m f = Inr y \<Longrightarrow> (\<And>x. m = Inr x \<Longrightarrow> f x = Inr y \<Longrightarrow> P) \<Longrightarrow> P"
  by (auto simp: rbind_eq_Inr)

lemma run_ifE: "(if c then a else b) = Inr y \<Longrightarrow> (a = Inr y \<Longrightarrow> P) \<Longrightarrow> (b = Inr y \<Longrightarrow> P) \<Longrightarrow> P"
  by (auto split: if_splits)

lemma run_InlE: "Inl e = Inr y \<Longrightarrow> P"
  by simp

lemma run_InrE: "Inr x = Inr y \<Longrightarrow> (x = y \<Longrightarrow> P) \<Longrightarrow> P"
  by simp

lemmas run_elims = run_rbindE run_ifE run_InlE run_InrE

text \<open>The rules below carry \<open>reads_from _ t\<close> through one call.\<close>

lemma basic_reads [reads_intro]:
  "reshape a x = Inr y \<Longrightarrow> reads_from x t \<Longrightarrow> reads_from y t"
  "shrink i x = Inr y \<Longrightarrow> reads_from x t \<Longrightarrow> reads_from y t"
  "pad i x = Inr y \<Longrightarrow> reads_from x t \<Longrightarrow> reads_from y t"
  "pad_to a x = Inr y \<Longrightarrow> reads_from x t \<Longrightarrow> reads_from y t"
  "broadcast_to s x = Inr y \<Longrightarrow> reads_from x t \<Longrightarrow> reads_from y t"
  "permute o' x = Inr y \<Longrightarrow> reads_from x t \<Longrightarrow> reads_from y t"
  "flip o' x = Inr y \<Longrightarrow> reads_from x t \<Longrightarrow> reads_from y t"
  "make_mop m x = Inr y \<Longrightarrow> reads_from x t \<Longrightarrow> reads_from y t"
  by (rule reads_from_trans [rotated], assumption, simp add: reads_from_def,
      blast dest: reads_fromD(1) reshapeD(3) shrinkD(3) padD pad_toD broadcast_toD(2) permuteD flipD
        view_map_make_mop(2) view_mapD(1))+

lemma wrapped_reads [reads_intro]:
  "expand a x = Inr y \<Longrightarrow> reads_from x t \<Longrightarrow> reads_from y t"
  "shrink_to a x = Inr y \<Longrightarrow> reads_from x t \<Longrightarrow> reads_from y t"
  "layout_transform n x = Inr y \<Longrightarrow> reads_from x t \<Longrightarrow> reads_from y t"
  by (simp_all add: expand_def shrink_to_def layout_transform_def reads_intro)

lemma derived_reads [reads_intro]:
  "squeeze_all x = Inr y \<Longrightarrow> reads_from x t \<Longrightarrow> reads_from y t"
  "squeeze d x = Inr y \<Longrightarrow> reads_from x t \<Longrightarrow> reads_from y t"
  "unsqueeze d x = Inr y \<Longrightarrow> reads_from x t \<Longrightarrow> reads_from y t"
  "transpose_tens d d' x = Inr y \<Longrightarrow> reads_from x t \<Longrightarrow> reads_from y t"
  "flatten_dims d d' x = Inr y \<Longrightarrow> reads_from x t \<Longrightarrow> reads_from y t"
  "unflatten d s x = Inr y \<Longrightarrow> reads_from x t \<Longrightarrow> reads_from y t"
  "split_slice d' s x k = Inr y \<Longrightarrow> reads_from x t \<Longrightarrow> reads_from y t"
  by (auto simp: squeeze_all_def squeeze_def unsqueeze_def transpose_tens_def flatten_dims_def unflatten_def
      split_slice_def rbind_eq_Inr Let_def split: if_splits intro: reads_intro)

lemma view_reads [reads_intro]:
  "diag x = Inr y \<Longrightarrow> reads_from x t \<Longrightarrow> reads_from y t"
  "diagonal k d d' x = Inr y \<Longrightarrow> reads_from x t \<Longrightarrow> reads_from y t"
  "repeat s x = Inr y \<Longrightarrow> reads_from x t \<Longrightarrow> reads_from y t"
  "interleave_at n' i x = Inr y \<Longrightarrow> reads_from x t \<Longrightarrow> reads_from y t"
  "apply_stride s x = Inr y \<Longrightarrow> reads_from x t \<Longrightarrow> reads_from y t"
  unfolding diag_def diagonal_def repeat_def interleave_at_def apply_stride_def Let_def
  by (elim run_elims; (assumption | erule reads_intro)+)+

lemma composed_reads [reads_intro]:
  "repeat_interleave n' i' x = Inr y \<Longrightarrow> reads_from x t \<Longrightarrow> reads_from y t"
  "roll_dims n d' x = Inr y \<Longrightarrow> reads_from x t \<Longrightarrow> reads_from y t"
  "pool k s s' x = Inr y \<Longrightarrow> reads_from x t \<Longrightarrow> reads_from y t"
  "apply_view_ops ms x = Inr y \<Longrightarrow> reads_from x t \<Longrightarrow> reads_from y t"
proof -
  show "repeat_interleave n' i' x = Inr y \<Longrightarrow> reads_from x t \<Longrightarrow> reads_from y t"
    by (cases i') (simp_all add: repeat_interleave_def, (elim run_elims, (assumption | erule reads_intro)+)+)
  show "roll_dims n d' x = Inr y \<Longrightarrow> reads_from x t \<Longrightarrow> reads_from y t"
    unfolding roll_dims_def by (elim run_elims; (assumption | erule reads_intro)+)
  show "pool k s s' x = Inr y \<Longrightarrow> reads_from x t \<Longrightarrow> reads_from y t"
    unfolding pool_def Let_def by (elim run_elims; (assumption | erule reads_intro)+)
  show "apply_view_ops ms x = Inr y \<Longrightarrow> reads_from x t \<Longrightarrow> reads_from y t"
    unfolding apply_view_ops_def Let_def by (elim run_elims; hypsubst?; (assumption | erule reads_intro)+)
qed

lemma outer_reads [reads_intro]:
  "roll n d x = Inr y \<Longrightarrow> reads_from x t \<Longrightarrow> reads_from y t"
  "unfold i s s' x = Inr y \<Longrightarrow> reads_from x t \<Longrightarrow> reads_from y t"
  "getitem ix x = Inr y \<Longrightarrow> reads_from x t \<Longrightarrow> reads_from y t"
proof -
  show "roll n d x = Inr y \<Longrightarrow> reads_from x t \<Longrightarrow> reads_from y t"
    by (cases d) (simp_all add: roll_def reads_intro, (elim run_elims, (assumption | erule reads_intro)+)+)
  show "unfold i s s' x = Inr y \<Longrightarrow> reads_from x t \<Longrightarrow> reads_from y t"
    unfolding unfold_def Let_def by (elim run_elims; (assumption | erule reads_intro)+)
  show "getitem ix x = Inr y \<Longrightarrow> reads_from x t \<Longrightarrow> reads_from y t"
    unfolding getitem_def Let_def by (elim run_elims; hypsubst?; (assumption | erule reads_intro)+)
qed

end
