(* ===== verification/MovementReads.thy ===== *)
theory MovementReads
  imports MovementSpec
begin

text \<open>
  The properties of the movement operations: every index of a result reads inside the base tensor or
  reads padding; what \<open>diag\<close> reads; and what basic indexing reads, dimension by dimension, against
  Python's own slices.
\<close>

section \<open>Reads stay inside the base\<close>

lemma locate_bounds:
  assumes "linked s ms" and "valid s idx" and "locate_in ms idx = Some j"
  shows "valid (case ms of [] \<Rightarrow> s | _ \<Rightarrow> snd (last ms)) j"
  using assms
proof (induction ms idx arbitrary: s rule: locate_in.induct)
  case (1 idx)
  then show ?case by simp
next
  case (2 m ps ms idx)
  then obtain i where i: "mop_index m ps idx = Some i" "locate_in ms i = Some j"
    by (auto split: option.splits)
  have "mop_shape m ps = Inr s" and l: "linked ps ms" using 2(2) by simp_all
  from mop_index_valid [OF this(1) linked_nonneg [OF l] 2(3) i(1)]
  have "valid (case ms of [] \<Rightarrow> ps | _ \<Rightarrow> snd (last ms)) j" by (rule 2(1) [OF i(1) l _ i(2)])
  then show ?case by (cases ms) auto
qed

lemma reads_from_in_bounds:
  assumes "reads_from t' t" and "wf_tens t" and "valid (shp t') idx" and "locate t' idx = Some j"
  shows "valid (base_shape t) j"
proof -
  from reads_fromD [OF assms(1)] have "linked (shp t') (trail t')" "base_shape t' = base_shape t"
    by (simp_all add: wf_tens_def)
  with locate_bounds [OF this(1) assms(3,4)] show ?thesis by (simp add: base_shape_def)
qed

text \<open>Property C34. Whatever movement operation or basic indexing made a tensor, with whatever arguments it accepted, an index of the result reads padding or an element that lies inside the base tensor.\<close>

theorem movement_reads_in_bounds:
  assumes "Inr r \<in> {reshape a t, expand a t, pad p t, shrink p t, shrink_to a t, pad_to a t, permute o' t, flip o' t,
     squeeze d t, unsqueeze d t, transpose_tens d d' t, flatten_dims d d' t, unflatten d s t, split_slice d s t k,
     diag t, diagonal n d d' t, repeat s t, repeat_interleave n q t, roll s q' t, pool s s' s'' t, unfold d n n' t,
     getitem ix t}"
    and "wf_tens t" and "valid (shp r) idx"
  shows "case locate r idx of None \<Rightarrow> True | Some j \<Rightarrow> valid (base_shape t) j"
proof -
  have "reads_from r t"
    using assms(1) reads_from_refl [OF assms(2)]
    by (elim insertE emptyE) (drule sym, erule reads_intro, assumption)+
  with reads_from_in_bounds [OF _ assms(2,3)] show ?thesis by (auto split: option.splits)
qed

section \<open>The diagonal matrix\<close>

lemma int_less_two [simp]: "0 \<le> (i::int) \<Longrightarrow> i < 1 \<longleftrightarrow> i = 0" by auto

lemma valid_pairE:
  assumes "valid [n, m] idx" obtains i j where "idx = [i, j]" "0 \<le> i" "i < n" "0 \<le> j" "j < m"
  using assms by (auto elim!: valid_ConsE)

lemma valid_singleE:
  assumes "valid [n] idx" obtains i where "idx = [i]" "0 \<le> i" "i < n"
  using assms by (auto elim!: valid_ConsE)

lemma int_div_less: "0 < b \<Longrightarrow> a < n * b \<Longrightarrow> a div b < n" for a b n :: int
proof (rule ccontr)
  assume b: "0 < b" "a < n * b" and "\<not> a div b < n"
  then have "n * b \<le> a div b * b" by (intro mult_right_mono) auto
  also have "\<dots> \<le> a" using b(1) by (simp flip: minus_mod_eq_div_mult)
  finally show False using b(2) by simp
qed

lemma diag_offset:
  assumes "0 \<le> i" "i < n" "0 \<le> j" "j < (n :: int)"
  shows "(i * n + j) mod (n + 1) < 1 \<longleftrightarrow> i = j" and "i = j \<Longrightarrow> (i * n + j) div (n + 1) = i"
proof -
  have e: "i * n + j = (n + 1) * i + (j - i)" "i * n + j = (n + 1) * (i - 1) + (n + 1 + (j - i))"
    by (simp_all add: algebra_simps)
  have "(i * n + j) mod (n + 1) = (if i \<le> j then j - i else n + 1 + (j - i))"
  proof (cases "i \<le> j")
    case True
    then have "(i * n + j) mod (n + 1) = j - i" using assms by (intro int_mod_pos_eq [OF e(1)]) auto
    with True show ?thesis by simp
  next
    case False
    then have "(i * n + j) mod (n + 1) = n + 1 + (j - i)" using assms by (intro int_mod_pos_eq [OF e(2)]) auto
    with False show ?thesis by simp
  qed
  with assms show "(i * n + j) mod (n + 1) < 1 \<longleftrightarrow> i = j" by auto
  show "i = j \<Longrightarrow> (i * n + j) div (n + 1) = i" using assms by (subst e(1)) simp
qed

lemma diag_total:
  assumes wf: "wf_tens t" and sh: "shp t = [n]"
  obtains d where "diag t = Inr d" "shp d = [n, n]"
    "view_map t d (\<lambda>idx. if idx ! 0 = idx ! 1 then Some [idx ! 0] else None)"
proof -
  have n: "0 \<le> n" using wf_nonneg [OF wf] by (simp add: sh)
  obtain a where a: "reshape_to [n, 1] t = Inr a" "shp a = [n, 1]"
      "view_map t a (\<lambda>idx. Some (split_axes (shp t) (combine_axes [n, 1] idx)))"
    by (rule reshape_to_ok [OF wf, of "[n, 1]"]) (use n in \<open>auto simp: sh\<close>)
  note wa = view_mapD(1) [OF a(3)]
  obtain b where b: "pad_to [None, Some (1 + n)] a = Inr b" "shp b = [n, 1 + n]"
      "view_map a b (\<lambda>idx. if list_all2 (\<lambda>s i. i < s) (shp a) idx then Some idx else None)"
    by (rule pad_to_ok [OF wa, of "[None, Some (1 + n)]"]) (use n in \<open>auto simp: a(2) reaches_def\<close>)
  note wb = view_mapD(1) [OF b(3)]
  obtain c where c: "reshape_to [n * (1 + n)] b = Inr c" "shp c = [n * (1 + n)]"
      "view_map b c (\<lambda>idx. Some (split_axes (shp b) (combine_axes [n * (1 + n)] idx)))"
    by (rule reshape_to_ok [OF wb, of "[n * (1 + n)]"]) (use n in \<open>auto simp: b(2)\<close>)
  note wc = view_mapD(1) [OF c(3)]
  obtain d where d: "shrink [Some (0, n * n)] c = Inr d" "shp d = map snd (shrink_args [Some (0, n * n)] (shp c))"
      "view_map c d (\<lambda>idx. Some (map2 (\<lambda>r (off, _). r + off) idx (shrink_args [Some (0, n * n)] (shp c))))"
    by (rule shrink_ok [OF wc, of "[Some (0, n * n)]"]) (use n in \<open>auto simp: c(2) within_def algebra_simps\<close>)
  note wd = view_mapD(1) [OF d(3)]
  have sd: "shp d = [n * n]" by (simp add: d(2) c(2) shrink_args_def)
  obtain e where e: "reshape_to [n, n] d = Inr e" "shp e = [n, n]"
      "view_map d e (\<lambda>idx. Some (split_axes (shp d) (combine_axes [n, n] idx)))"
    by (rule reshape_to_ok [OF wd, of "[n, n]"]) (use n in \<open>auto simp: sd\<close>)
  have fold: "diag t = Inr e"
    using a(1) b(1) c(1) d(1) e(1)
    by (simp add: diag_def unsqueeze_def resolve_dim_def flatten_dims_def shrink_to_def ndim_def sh a(2) b(2)
        seq_get_def seq_upto_def seq_from_def seq_slice_def seq_bound_def)
  note v = view_map_trans [OF view_map_trans [OF view_map_trans [OF view_map_trans [OF a(3) b(3)] c(3)] d(3)] e(3)]
  have "view_map t e (\<lambda>idx. if idx ! 0 = idx ! 1 then Some [idx ! 0] else None)"
  proof (rule view_map_cong [OF v])
    fix idx assume "valid (shp e) idx"
    then obtain i j where ij: "idx = [i, j]" "0 \<le> i" "i < n" "0 \<le> j" "j < n"
      by (auto simp: e(2) elim: valid_pairE)
    have lt: "i * n + j < n * n"
      using combine_axes_bounds [of "[n, n]" "[i, j]"] ij by simp
    have "i * n + j < n * (1 + n)" using lt ij by (simp add: algebra_simps)
    then have "(i * n + j) div (1 + n) < n" "0 \<le> (i * n + j) div (1 + n)"
      using ij by (auto simp: pos_imp_zdiv_nonneg_iff intro: int_div_less)
    then show "Option.bind (Some (split_axes (shp d) (combine_axes [n, n] idx))) (\<lambda>x. Option.bind
        (Some (map2 (\<lambda>r (off, _). r + off) x (shrink_args [Some (0, n * n)] (shp c)))) (\<lambda>x. Option.bind
        (Some (split_axes (shp b) (combine_axes [n * (1 + n)] x))) (\<lambda>x. Option.bind
        (if list_all2 (\<lambda>s i. i < s) (shp a) x then Some x else None)
        (\<lambda>idx. Some (split_axes (shp t) (combine_axes [n, 1] idx)))))) =
      (if idx ! 0 = idx ! 1 then Some [idx ! 0] else None)"
      using ij lt diag_offset [OF ij(2-5)]
      by (auto simp: sh a(2) b(2) c(2) sd shrink_args_def add.commute)
  qed
  with fold e(2) that show ?thesis by blast
qed

section \<open>Strides\<close>

definition pairs2 :: "int list \<Rightarrow> int list \<Rightarrow> int list" where
  "pairs2 as bs = concat (map2 (\<lambda>a b. [a, b]) as bs)"

definition zeros :: "int list \<Rightarrow> int list" where
  "zeros idx = concat (map (\<lambda>i. [i, 0]) idx)"

lemma pairs2_simps [simp]:
  "pairs2 [] bs = []" "pairs2 as [] = []" "pairs2 (a # as) (b # bs) = a # b # pairs2 as bs"
  "zeros [] = []" "zeros (i # idx) = i # 0 # zeros idx"
  by (simp_all add: pairs2_def zeros_def)

lemma length_zeros [simp]: "length (zeros idx) = 2 * length idx"
  by (induction idx) auto

lemma length_pairs2: "length as = length bs \<Longrightarrow> length (pairs2 as bs) = 2 * length bs"
  by (induction as bs rule: list_induct2) auto

lemma evens_pairs2: "length as = length bs \<Longrightarrow> evens (pairs2 as bs) = as"
  by (induction as bs rule: list_induct2) auto

lemma prod_pairs2: "length as = length bs \<Longrightarrow> prod_list (pairs2 as bs) = prod_list (map2 (*) as bs)"
  by (induction as bs rule: list_induct2) auto

lemma valid_pairs2:
  "valid as idx \<Longrightarrow> length as = length bs \<Longrightarrow> list_all (\<lambda>b. 0 < b) bs \<Longrightarrow> valid (pairs2 as bs) (zeros idx)"
proof (induction as idx arbitrary: bs rule: list_induct2')
  case (4 a as i idx)
  then obtain b bs' where "bs = b # bs'" by (cases bs) auto
  with 4 show ?case by simp
qed auto

lemma combine_pairs2:
  "length idx = length as \<Longrightarrow> length as = length bs \<Longrightarrow>
   combine_axes (pairs2 as bs) (zeros idx) = combine_axes (map2 (*) as bs) (map2 (*) idx bs)"
proof (induction idx as arbitrary: bs rule: list_induct2)
  case Nil
  then show ?case by simp
next
  case (Cons i idx a as)
  then obtain b bs' where "bs = b # bs'" by (cases bs) auto
  with Cons show ?case by (simp add: length_pairs2 prod_pairs2)
qed

lemma map2_ones: "length as = n \<Longrightarrow> map2 (*) as (replicate n 1) = (as :: int list)"
  by (induction as arbitrary: n) auto

lemma stride_args:
  "length s = length sts \<Longrightarrow> concat (map2 (\<lambda>s st. [s div st, st]) s sts) = pairs2 (map2 (div) s sts) sts"
  by (induction s sts rule: list_induct2) auto

lemma stride_pick:
  "concat (map (\<lambda>s. [Some s, Some 1]) as) = map Some (pairs2 as (replicate (length as) 1))"
  by (induction as) auto

lemma shrink_to_prefix:
  "length b = length s \<Longrightarrow> shrink_args (map (\<lambda>v. Some (0, v)) b) s = map (\<lambda>v. (0, v)) b"
  by (induction b s rule: list_induct2) (auto simp: shrink_args_def)

lemma map2_add_zero:
  "length idx = length b \<Longrightarrow> map2 (\<lambda>r (off, _). r + off) idx (map (\<lambda>v. (0, v)) b) = (idx :: int list)"
  by (induction idx b rule: list_induct2) auto

lemma shrink_to_ok:
  assumes "wf_tens t" and "list_all2 (\<lambda>n v. 0 \<le> v \<and> v \<le> n) (shp t) b"
  obtains t' where "shrink_to (map Some b) t = Inr t'" "shp t' = b" "view_map t t' Some"
proof -
  have l: "length b = length (shp t)" using assms(2) by (auto dest: list_all2_lengthD)
  have "list_all2 within (shp t) (map (\<lambda>v. Some (0, v)) b)"
    using assms(2) by (auto simp: list_all2_conv_all_nth within_def)
  from shrink_ok [OF assms(1) this] obtain r where r: "shrink (map (\<lambda>v. Some (0, v)) b) t = Inr r"
    "shp r = map snd (map (\<lambda>v. (0 :: int, v)) b)"
    and v: "view_map t r (\<lambda>idx. Some (map2 (\<lambda>r (off, _). r + off) idx (map (\<lambda>v. (0, v)) b)))"
    unfolding shrink_to_prefix [OF l] by blast
  from r(2) have sr: "shp r = b" by (simp add: comp_def)
  from v have "view_map t r Some" by (rule view_map_cong) (simp only: sr valid_length map2_add_zero)
  moreover have "shrink_to (map Some b) t = Inr r" using r(1) by (simp add: shrink_to_def comp_def)
  ultimately show ?thesis using sr that by blast
qed

lemma round_up_div:
  assumes "0 < (st::int)" "0 \<le> s"
  shows "round_up s st div st * st = round_up s st" "0 \<le> round_up s st div st" "s \<le> round_up s st"
    and "i < round_up s st div st \<Longrightarrow> i * st < s"
proof -
  note r = round_up_props [OF assms(1), of s]
  show e: "round_up s st div st * st = round_up s st" using r(3) by simp
  show "0 \<le> round_up s st div st" "s \<le> round_up s st" using r(1) assms by (auto simp: pos_imp_zdiv_nonneg_iff)
  assume "i < round_up s st div st"
  then have "(i + 1) * st \<le> round_up s st div st * st" using assms(1) by (intro mult_right_mono) auto
  with e r(2) show "i * st < s" by (simp add: algebra_simps)
qed

lemma map2_same_length: "length (map2 f xs ys) = min (length xs) (length ys)"
  by simp

lemma apply_stride_total:
  assumes wf: "wf_tens x" and l: "length sts = length (shp x)" and pos: "list_all (\<lambda>st. 0 < st) sts"
  obtains w where "apply_stride sts x = Inr w" "shp w = map2 (\<lambda>s st. round_up s st div st) (shp x) sts"
    "view_map x w (\<lambda>idx. Some (map2 (*) idx sts))"
proof -
  let ?s = "shp x" let ?ru = "map2 (\<lambda>s st. round_up s st) ?s sts" let ?as = "map2 (\<lambda>s st. round_up s st div st) ?s sts"
  note s0 = wf_nth [OF wf]
  have st0: "0 < sts ! k" if "k < length ?s" for k using pos l that by (simp add: list_all_length)
  note ru = round_up_div [OF st0 s0]
  have up: "list_all2 reaches ?s (map Some ?ru)"
    using l ru(3) by (auto simp: list_all2_conv_all_nth reaches_def)
  from pad_to_ok [OF wf up] obtain y where y: "pad_to (map Some ?ru) x = Inr y"
    "shp y = map2 (\<lambda>s ns. case ns of None \<Rightarrow> s | Some v \<Rightarrow> v) ?s (map Some ?ru)"
    and vy: "view_map x y (\<lambda>idx. if list_all2 (\<lambda>s i. i < s) ?s idx then Some idx else None)" by blast
  have sy: "shp y = ?ru" using l by (auto simp: y(2) intro!: nth_equalityI)
  note wy = view_mapD(1) [OF vy]
  let ?p = "pairs2 ?as sts"
  have das: "map2 (div) (shp y) sts = ?as" using l by (auto simp: sy intro!: nth_equalityI)
  have mas: "map2 (*) ?as sts = ?ru" using l ru(1) by (auto intro!: nth_equalityI)
  have las: "length ?as = length sts" using l by simp
  have as0: "\<And>k. k < length ?s \<Longrightarrow> 0 \<le> ?as ! k" using l ru(2) by auto
  have nn: "nonneg_shape (pairs2 as bs)" if "nonneg_shape as" "nonneg_shape bs" "length as = length bs" for as bs
    using that(3,1,2) by (induction as bs rule: list_induct2) auto
  have nas: "nonneg_shape ?as" "nonneg_shape sts" using as0 pos l by (auto simp: list_all_length)
  have z_args: "concat (map2 (\<lambda>s st. [s div st, st]) (shp y) sts) = ?p"
    using stride_args [of "shp y" sts] das l by (simp add: sy)
  have "prod_list ?p = prod_list (shp y)" using prod_pairs2 [OF las] mas by (simp add: sy)
  from reshape_to_ok [OF wy nn [OF nas las] nn [OF nas las] this] obtain z where z: "reshape_to ?p y = Inr z"
    "shp z = ?p" and vz: "view_map y z (\<lambda>idx. Some (split_axes (shp y) (combine_axes ?p idx)))" by blast
  note wz = view_mapD(1) [OF vz]
  let ?q = "pairs2 ?as (replicate (length ?as) 1)"
  have "list_all2 (\<lambda>n v. 0 \<le> v \<and> v \<le> n) (pairs2 as bs) (pairs2 as (replicate (length as) 1))"
    if "nonneg_shape as" "list_all (\<lambda>b. 0 < b) bs" "length as = length bs" for as bs
    using that(3,1,2) by (induction as bs rule: list_induct2) auto
  from this [OF nas(1) pos las] have "list_all2 (\<lambda>n v. 0 \<le> v \<and> v \<le> n) (shp z) ?q" by (simp only: z(2))
  from shrink_to_ok [OF wz this] obtain u where u: "shrink_to (map Some ?q) z = Inr u" "shp u = ?q"
    and vu: "view_map z u Some" by blast
  note wu = view_mapD(1) [OF vu]
  have l1: "length ?as = length (replicate (length ?as) (1::int))" by simp
  have "prod_list ?as = prod_list (shp u)"
    unfolding u(2) prod_pairs2 [OF l1] by (subst map2_ones) simp_all
  from reshape_to_ok [OF wu nas(1) nas(1) this] obtain w where w: "reshape_to ?as u = Inr w" "shp w = ?as"
    and vw: "view_map u w (\<lambda>idx. Some (split_axes (shp u) (combine_axes ?as idx)))" by blast
  have pad_call: "map2 (\<lambda>s st. Some (round_up s st)) (shp x) sts = map Some ?ru" by (simp add: case_prod_unfold)
  have evz: "evens (shp z) = ?as" and evu: "evens (shp u) = ?as"
    using evens_pairs2 [OF las] evens_pairs2 [OF l1] by (simp_all only: z(2) u(2))
  have call: "apply_stride sts x = Inr w"
    unfolding apply_stride_def pad_call y(1) rbind_Inr z_args z(1) evz stride_pick u(1) evu w(1) ..
  note v = view_map_trans [OF view_map_trans [OF view_map_trans [OF vy vz] vu] vw]
  have "view_map x w (\<lambda>idx. Some (map2 (*) idx sts))"
  proof (rule view_map_cong [OF v])
    fix idx assume "valid (shp w) idx"
    then have va: "valid ?as idx" by (simp only: w(2))
    have li: "length idx = length ?as" by (rule valid_length [OF va])
    have "valid ?q (zeros idx)" by (rule valid_pairs2 [OF va l1]) (simp add: list_all_length)
    moreover have "combine_axes ?as idx = combine_axes ?q (zeros idx)"
      unfolding combine_pairs2 [OF li l1] using li by (simp add: map2_ones del: map2_same_length)
    ultimately have 1: "split_axes (shp u) (combine_axes ?as idx) = zeros idx"
      using split_combine [of ?q "zeros idx"] by (simp only: u(2))
    have small: "idx ! k * sts ! k < ?s ! k \<and> 0 \<le> idx ! k * sts ! k" if k: "k < length ?s" for k
    proof -
      have "0 \<le> idx ! k" "idx ! k < round_up (?s ! k) (sts ! k) div sts ! k"
        using va k l by (auto simp: valid_nth)
      then show ?thesis using ru(4) [OF k k, of "idx ! k"] st0 [OF k] by simp
    qed
    have len: "length idx = length ?s" using li l by simp
    have "valid (shp y) (map2 (*) idx sts)"
      unfolding valid_nth sy using small len l ru(3) by (auto intro: order_less_le_trans)
    then have 2: "split_axes (shp y) (combine_axes ?p (zeros idx)) = map2 (*) idx sts"
      unfolding combine_pairs2 [OF li las] mas using split_combine by (simp only: sy)
    have 3: "list_all2 (\<lambda>s i. i < s) ?s (map2 (*) idx sts)"
      using small len l by (auto simp: list_all2_conv_all_nth)
    show "Option.bind (Some (split_axes (shp u) (combine_axes ?as idx))) (\<lambda>x'. Option.bind (Some x')
        (\<lambda>x'. Option.bind (Some (split_axes (shp y) (combine_axes ?p x')))
          (\<lambda>idx. if list_all2 (\<lambda>s i. i < s) ?s idx then Some idx else None))) = Some (map2 (*) idx sts)"
      unfolding 1 by (simp only: 2 3 Option.bind.bind_lunit if_True)
  qed
  with call w(2) that show ?thesis by blast
qed

section \<open>Views\<close>

lemma resolve_dims_id:
  "(\<And>i. i \<in> set is \<Longrightarrow> i < n) \<Longrightarrow> rmap (resolve_dim n False) (map int is) = Inr (map int is)"
proof (induction "is")
  case (Cons a "is")
  from Cons.prems [of a] have "resolve_dim n False (int a) = Inr (int a)" by (auto simp: resolve_dim_def Let_def)
  with Cons show ?case by simp
qed simp

lemma length_first_occurrences: "distinct xs \<Longrightarrow> first_occurrences xs = xs"
  by (induction xs) (auto simp: filter_id_conv)

lemma flip_total:
  assumes wf: "wf_tens t" and n: "n = ndim t"
  obtains x where "flip (map int (filter P [0..<n])) t = Inr x" "shp x = shp t"
    "view_map t x (\<lambda>idx. Some (map2 (\<lambda>r (s, f). if f then (s - 1) - r else r) idx (zip (shp t) (map P [0..<n]))))"
proof -
  let ?ax = "map int (filter P [0..<n])" let ?f = "map P [0..<n]"
  have args: "rmap (resolve_dim n False) ?ax = Inr ?ax" by (rule resolve_dims_id) auto
  have d: "length (first_occurrences ?ax) = length ?ax"
    by (subst length_first_occurrences) (auto simp: distinct_map inj_on_def)
  have f: "map (\<lambda>i. int i \<in> set ?ax) [0..<n] = ?f" by auto
  have range: "list_all (\<lambda>x. 0 \<le> x \<and> x < int n) ?ax" by (auto simp: list_all_iff)
  have call: "flip ?ax t = (if list_ex id ?f then make_mop (FLIP ?f) t else Inr t)"
    using args d range by (simp only: flip_def n [symmetric] rbind_Inr rguard_True f Let_def simp_thms if_False)
  show ?thesis
  proof (cases "list_ex id ?f")
    case True
    have "mop_shape (FLIP ?f) (shp t) = Inr (shp t)" by (simp add: n ndim_def)
    from make_mop_ok [OF this wf] obtain x where "make_mop (FLIP ?f) t = Inr x" "shp x = shp t"
      "view_map t x (mop_index (FLIP ?f) (shp t))" by blast
    with call True that show ?thesis by (simp add: mop_index_fun)
  next
    case False
    have "map2 (\<lambda>r (s, f). if f then (s - 1) - r else r) idx (zip (shp t) ?f) = idx" if "valid (shp t) idx" for idx
      using False that by (intro nth_equalityI) (auto simp: valid_length n ndim_def list_ex_iff split: if_splits)
    then have "view_map t t (\<lambda>idx. Some (map2 (\<lambda>r (s, f). if f then (s - 1) - r else r) idx (zip (shp t) ?f)))"
      by (intro view_map_cong [OF view_map_refl [OF wf]]) simp
    with call False that show ?thesis by simp
  qed
qed

definition fits :: "int \<Rightarrow> view_index \<Rightarrow> bool" where
  "fits n m \<longleftrightarrow> 0 \<le> fst (vi_boundary m) \<and> fst (vi_boundary m) \<le> snd (vi_boundary m) \<and> snd (vi_boundary m) \<le> n
     \<and> vi_stride m \<noteq> 0"

text \<open>The length of the dimension that the view leaves, and the position its \<open>i\<close>-th element comes from.\<close>

definition view_len :: "view_index \<Rightarrow> int" where
  "view_len m = round_up (snd (vi_boundary m) - fst (vi_boundary m)) \<bar>vi_stride m\<bar> div \<bar>vi_stride m\<bar>"

definition view_pos :: "view_index \<Rightarrow> int \<Rightarrow> int" where
  "view_pos m i = (if vi_stride m < 0 then snd (vi_boundary m) - 1 else fst (vi_boundary m)) + i * vi_stride m"

lemma shrink_args_Some:
  "length ms = length s \<Longrightarrow> shrink_args (map (\<lambda>m. Some (b m)) ms) s = map (\<lambda>m. (fst (b m), snd (b m) - fst (b m))) ms"
  by (induction ms s rule: list_induct2) (auto simp: shrink_args_def case_prod_unfold)

lemma stride_one: "round_up n 1 div 1 = n" by (simp add: round_up_def)

lemma apply_view_ops_total:
  assumes wf: "wf_tens t" and fit: "list_all2 fits (shp t) ms"
  obtains x where "apply_view_ops ms t = Inr x" "shp x = map view_len ms"
    "view_map t x (\<lambda>idx. Some (map2 view_pos ms idx))"
proof -
  have l: "length ms = length (shp t)" using fit by (auto dest: list_all2_lengthD)
  let ?w = "\<lambda>m. snd (vi_boundary m) - fst (vi_boundary m)"
  have "list_all2 within (shp t) (map (\<lambda>m. Some (vi_boundary m)) ms)"
    using fit by (auto simp: list_all2_conv_all_nth within_def fits_def split: prod.splits)
  from shrink_ok [OF wf this, unfolded shrink_args_Some [OF l]]
  obtain a where a: "shrink (map (\<lambda>m. Some (vi_boundary m)) ms) t = Inr a" "shp a = map ?w ms"
    and va: "view_map t a (\<lambda>idx. Some (map2 (\<lambda>r (off, _). r + off) idx (map (\<lambda>m. (fst (vi_boundary m), ?w m)) ms)))"
    by (auto simp: comp_def)
  note wa = view_mapD(1) [OF va]
  let ?P = "\<lambda>i. vi_stride (ms ! i) < 0"
  have na: "length ms = ndim a" by (simp add: ndim_def a(2))
  from flip_total [OF wa na, of ?P] obtain x where x: "flip (map int (filter ?P [0..<length ms])) a = Inr x" "shp x = shp a"
    and vx: "view_map a x (\<lambda>idx. Some (map2 (\<lambda>r (s, f). if f then (s - 1) - r else r) idx
        (zip (shp a) (map ?P [0..<length ms]))))" by blast
  note wx = view_mapD(1) [OF vx] and vax = view_map_trans [OF va vx]
  let ?sts = "map (\<lambda>m. \<bar>vi_stride m\<bar>) ms"
  have pos: "list_all (\<lambda>st. 0 < st) ?sts" using fit by (auto simp: list_all_length list_all2_conv_all_nth fits_def)
  have ls: "length ?sts = length (shp x)" by (simp add: x(2) a(2))
  have lens: "map2 (\<lambda>s st. round_up s st div st) (shp x) ?sts = map view_len ms"
    by (rule nth_equalityI) (simp_all add: x(2) a(2) view_len_def)
  have post: "\<exists>w. (if list_ex (\<lambda>st. st \<noteq> 1) ?sts then apply_stride ?sts x else Inr x) = Inr w \<and> shp w = map view_len ms
       \<and> view_map x w (\<lambda>idx. Some (map2 (*) idx ?sts))"
  proof (cases "list_ex (\<lambda>st. st \<noteq> 1) ?sts")
    case True
    with apply_stride_total [OF wx ls pos] show ?thesis unfolding lens by (metis (no_types, lifting))
  next
    case False
    then have one: "\<And>k. k < length ms \<Longrightarrow> \<bar>vi_stride (ms ! k)\<bar> = 1" by (auto simp: list_ex_length)
    have "shp x = map view_len ms"
      by (rule nth_equalityI) (simp_all add: x(2) a(2) view_len_def one stride_one)
    moreover have "view_map x x (\<lambda>idx. Some (map2 (*) idx ?sts))"
      by (rule view_map_cong [OF view_map_refl [OF wx]])
        (auto simp: x(2) a(2) one valid_length intro!: nth_equalityI)
    ultimately show ?thesis using False by auto
  qed
  then obtain w where w: "(if list_ex (\<lambda>st. st \<noteq> 1) ?sts then apply_stride ?sts x else Inr x) = Inr w"
    "shp w = map view_len ms" and vw: "view_map x w (\<lambda>idx. Some (map2 (*) idx ?sts))" by blast
  have call: "apply_view_ops ms t = Inr w"
    by (simp only: apply_view_ops_def a(1) x(1) rbind_Inr Let_def w(1))
  have "view_map t w (\<lambda>idx. Some (map2 view_pos ms idx))"
    by (rule view_map_cong [OF view_map_trans [OF vax vw]])
      (auto simp: a(2) w(2) valid_length view_pos_def abs_if intro!: nth_equalityI)
  with call w(2) that show ?thesis by blast
qed

section \<open>Python slices\<close>

lemma int_div_less_iff: "0 < b \<Longrightarrow> a div b < n \<longleftrightarrow> a < n * b" for a b n :: int
proof
  assume b: "0 < b" and "a div b < n"
  then have "(a div b + 1) * b \<le> n * b" by (intro mult_right_mono) auto
  moreover have "a < (a div b + 1) * b"
    using pos_mod_bound [OF b, of a] by (simp add: distrib_right) (metis add_less_cancel_left div_mult_mod_eq)
  ultimately show "a < n * b" by simp
qed (rule int_div_less)

lemma ceildiv_less_iff: "0 < d \<Longrightarrow> i < ceildiv n d \<longleftrightarrow> i * d < n" for n d i :: int
  using int_div_less_iff [of d "- n" "- i"] by (auto simp: ceildiv_def div_minus_right)

lemma round_up_div_ceildiv: "round_up n d div d = ceildiv n d" if d: "0 < d"
proof (rule ccontr)
  have iff: "i < (n + d - 1) div d \<longleftrightarrow> i * d < n" for i
    using int_div_less_iff [OF d, of "n + d - 1" "i + 1"] by (auto simp: algebra_simps)
  assume "round_up n d div d \<noteq> ceildiv n d"
  then have "(n + d - 1) div d \<noteq> ceildiv n d" using d by (simp add: round_up_def)
  with iff ceildiv_less_iff [OF d, of _ n] show False by (metis less_irrefl linorder_neqE)
qed

definition slice_step :: "int option \<Rightarrow> int" where
  "slice_step step = (case step of None \<Rightarrow> 1 | Some v \<Rightarrow> v)"

text \<open>\<open>in_range a b st i\<close>: \<open>range(a, b, st)\<close> has an \<open>i\<close>-th element.\<close>

definition in_range :: "int \<Rightarrow> int \<Rightarrow> int \<Rightarrow> int \<Rightarrow> bool" where
  "in_range a b st i = (if 0 < st then a + i * st < b else b < a + i * st)"

lemma slice_indices_bounds:
  assumes "0 \<le> len" and "slice_indices start stop st len = (a, b)"
  shows "0 < st \<Longrightarrow> 0 \<le> a \<and> a \<le> len \<and> 0 \<le> b \<and> b \<le> len"
    and "st < 0 \<Longrightarrow> -1 \<le> a \<and> a < len \<and> -1 \<le> b \<and> b < len"
  using assms by (auto simp: slice_indices_def slice_clamp_def Let_def split: option.splits if_splits)

lemma slice_view_correct:
  assumes "0 \<le> len" and "step \<noteq> Some 0" and ab: "slice_indices start stop (slice_step step) len = (a, b)"
  obtains m where "slice_view start stop step len = Inr m" "fits len m" "vi_size m = view_len m" "\<not> vi_collapse m"
    "\<And>i. 0 \<le> i \<Longrightarrow> i < view_len m \<longleftrightarrow> in_range a b (slice_step step) i"
    "\<And>i. 0 \<le> i \<Longrightarrow> i < view_len m \<Longrightarrow> view_pos m i = a + i * slice_step step"
proof -
  let ?st = "slice_step step"
  let ?bd = "if ?st * (b - a) < 0 then (0, 0) else if ?st < 0 then (b + 1, a + 1) else (a, b)"
  let ?m = "\<lparr> vi_size = ceildiv (snd ?bd - fst ?bd) \<bar>?st\<bar>, vi_boundary = ?bd, vi_stride = ?st, vi_collapse = False \<rparr>"
  have nz: "?st \<noteq> 0" using assms(2) by (auto simp: slice_step_def split: option.splits)
  have call: "slice_view start stop step len = Inr ?m"
    using assms(2) ab by (simp add: slice_view_def slice_step_def Let_def)
  note bounds = slice_indices_bounds [OF assms(1) ab]
  have neg: "?st * (b - a) < 0 \<longleftrightarrow> (if 0 < ?st then b < a else a < b)" using nz by (auto simp: mult_less_0_iff)
  have fit: "fits len ?m" using bounds nz assms(1) by (cases "0 < ?st") (auto simp: fits_def neg)
  have len: "view_len ?m = ceildiv (snd ?bd - fst ?bd) \<bar>?st\<bar>" using nz by (simp add: view_len_def round_up_div_ceildiv)
  have lt: "i < view_len ?m \<longleftrightarrow> i * \<bar>?st\<bar> < snd ?bd - fst ?bd" for i
    using nz ceildiv_less_iff [of "\<bar>?st\<bar>" i] by (simp only: len)
  have rng: "i < view_len ?m \<longleftrightarrow> in_range a b ?st i" if i: "0 \<le> i" for i
  proof (cases "0 < ?st")
    case True
    then have "0 \<le> i * ?st" using i by simp
    with True show ?thesis unfolding lt by (auto simp: neg in_range_def)
  next
    case False
    with nz have st: "?st < 0" by simp
    then have "i * ?st \<le> 0" using i by (simp add: mult_nonneg_nonpos)
    with st show ?thesis unfolding lt by (auto simp: neg in_range_def)
  qed
  have pos: "view_pos ?m i = a + i * ?st" if "0 \<le> i" "i < view_len ?m" for i
  proof -
    have "0 \<le> i * \<bar>?st\<bar>" using that(1) by simp
    with that(2) have "\<not> ?st * (b - a) < 0" unfolding lt by (auto split: if_splits)
    then show ?thesis by (simp add: view_pos_def)
  qed
  show ?thesis by (rule that [OF call fit _ _ rng pos]) (simp_all add: len)
qed

section \<open>Basic indexing\<close>

text \<open>The meaning of an index list, dimension by dimension, as Python defines it on nested sequences:
  which index lists are accepted, the shape they give, and the element an index of the result is.\<close>

fun index_ok :: "int list \<Rightarrow> pyindex list \<Rightarrow> bool" where
  "index_ok ss [] = (ss = [])"
| "index_ok ss (INone # ix) = index_ok ss ix"
| "index_ok (s # ss) (IInt i # ix) = (- s \<le> i \<and> i < s \<and> index_ok ss ix)"
| "index_ok (s # ss) (ISlice a b c # ix) = (c \<noteq> Some 0 \<and> index_ok ss ix)"
| "index_ok _ _ = False"

fun range_len :: "int \<times> int \<Rightarrow> int \<Rightarrow> int" where
  "range_len (a, b) st = (if 0 < st then max 0 (ceildiv (b - a) st) else max 0 (ceildiv (a - b) (- st)))"

fun item_shape :: "int list \<Rightarrow> pyindex list \<Rightarrow> int list" where
  "item_shape ss (INone # ix) = 1 # item_shape ss ix"
| "item_shape (s # ss) (IInt i # ix) = item_shape ss ix"
| "item_shape (s # ss) (ISlice a b c # ix) = range_len (slice_indices a b (slice_step c) s) (slice_step c) # item_shape ss ix"
| "item_shape _ _ = []"

fun item_pos :: "int list \<Rightarrow> pyindex list \<Rightarrow> int list \<Rightarrow> int list" where
  "item_pos ss (INone # ix) js = item_pos ss ix (tl js)"
| "item_pos (s # ss) (IInt i # ix) js = (if i < 0 then i + s else i) # item_pos ss ix js"
| "item_pos (s # ss) (ISlice a b c # ix) js =
     (fst (slice_indices a b (slice_step c) s) + hd js * slice_step c) # item_pos ss ix (tl js)"
| "item_pos _ _ _ = []"

definition view_dims :: "pyindex list \<Rightarrow> view_index list \<Rightarrow> view_index list" where
  "view_dims ix ms = map snd (filter (\<lambda>(i, m). i \<noteq> INone) (zip ix ms))"

definition kept_sizes :: "view_index list \<Rightarrow> int list" where
  "kept_sizes ms = map vi_size (filter (\<lambda>m. \<not> vi_collapse m) ms)"

definition parsed_ok :: "int list \<Rightarrow> pyindex list \<Rightarrow> view_index list \<Rightarrow> bool" where
  "parsed_ok ss ix ms \<longleftrightarrow> length ms = length ix \<and> list_all2 fits ss (view_dims ix ms)
     \<and> kept_sizes ms = item_shape ss ix \<and> nonneg_shape (item_shape ss ix)
     \<and> prod_list (item_shape ss ix) = prod_list (map view_len (view_dims ix ms))
     \<and> (\<forall>js. valid (item_shape ss ix) js \<longrightarrow> (\<exists>vi. valid (map view_len (view_dims ix ms)) vi
          \<and> combine_axes (item_shape ss ix) js = combine_axes (map view_len (view_dims ix ms)) vi
          \<and> map2 view_pos (view_dims ix ms) vi = item_pos ss ix js))"

lemma view_dims_simps [simp]:
  "view_dims [] ms = []" "view_dims (i # ix) (m # ms) = (if i = INone then [] else [m]) @ view_dims ix ms"
  by (simp_all add: view_dims_def)

lemma kept_sizes_simps [simp]:
  "kept_sizes [] = []" "kept_sizes (m # ms) = (if vi_collapse m then [] else [vi_size m]) @ kept_sizes ms"
  by (simp_all add: kept_sizes_def)

lemma range_len_iff:
  assumes "st \<noteq> 0" "0 \<le> i" shows "i < range_len (a, b) st \<longleftrightarrow> in_range a b st i"
  using assms ceildiv_less_iff [of st i "b - a"] ceildiv_less_iff [of "- st" i "a - b"]
  by (auto simp: in_range_def less_max_iff_disj)

lemma range_len_eqI: "0 \<le> n \<Longrightarrow> 0 \<le> m \<Longrightarrow> (\<And>i. 0 \<le> i \<Longrightarrow> i < n \<longleftrightarrow> i < (m :: int)) \<Longrightarrow> n = m"
  by (metis linorder_neqE order_less_irrefl)

lemma view_len_nonneg: "fits n m \<Longrightarrow> 0 \<le> view_len m"
  using round_up_div(2) [of "\<bar>vi_stride m\<bar>" "snd (vi_boundary m) - fst (vi_boundary m)"]
  by (auto simp: fits_def view_len_def)

lemma slice_dim:
  assumes "0 \<le> s" and "c \<noteq> Some 0"
  obtains m where "slice_view a b c s = Inr m" "fits s m" "vi_size m = view_len m" "\<not> vi_collapse m"
    "view_len m = range_len (slice_indices a b (slice_step c) s) (slice_step c)"
    "\<And>i. 0 \<le> i \<Longrightarrow> i < view_len m \<Longrightarrow> view_pos m i = fst (slice_indices a b (slice_step c) s) + i * slice_step c"
proof -
  obtain x y where xy: "slice_indices a b (slice_step c) s = (x, y)" by fastforce
  from slice_view_correct [OF assms xy] obtain m where m: "slice_view a b c s = Inr m" "fits s m"
    "vi_size m = view_len m" "\<not> vi_collapse m" and rng: "\<And>i. 0 \<le> i \<Longrightarrow> i < view_len m \<longleftrightarrow> in_range x y (slice_step c) i"
    and pos: "\<And>i. 0 \<le> i \<Longrightarrow> i < view_len m \<Longrightarrow> view_pos m i = x + i * slice_step c" by blast
  have nz: "slice_step c \<noteq> 0" using assms(2) by (auto simp: slice_step_def split: option.splits)
  have "view_len m = range_len (x, y) (slice_step c)"
    by (rule range_len_eqI [OF view_len_nonneg [OF m(2)]]) (use rng range_len_iff [OF nz] in auto)
  with m pos that show ?thesis by (simp add: xy)
qed

lemma parsed_step:
  assumes p: "parsed_ok ss ix ms" and f: "fits s m" and i: "i \<noteq> INone" and c: "\<not> vi_collapse m" and z: "vi_size m = view_len m"
    and sh: "item_shape (s # ss) (i # ix) = view_len m # item_shape ss ix"
    and ps: "\<And>j js. 0 \<le> j \<Longrightarrow> j < view_len m \<Longrightarrow> item_pos (s # ss) (i # ix) (j # js) = view_pos m j # item_pos ss ix js"
  shows "parsed_ok (s # ss) (i # ix) (m # ms)"
  unfolding parsed_ok_def
proof (intro conjI allI impI)
  fix js assume "valid (item_shape (s # ss) (i # ix)) js"
  then obtain j js' where j: "js = j # js'" "0 \<le> j" "j < view_len m" "valid (item_shape ss ix) js'"
    by (auto simp: sh elim: valid_ConsE)
  with p obtain vi where "valid (map view_len (view_dims ix ms)) vi"
    "combine_axes (item_shape ss ix) js' = combine_axes (map view_len (view_dims ix ms)) vi"
    "map2 view_pos (view_dims ix ms) vi = item_pos ss ix js'" by (auto simp: parsed_ok_def)
  with j i p ps [OF j(2,3)] show "\<exists>vi. valid (map view_len (view_dims (i # ix) (m # ms))) vi \<and>
      combine_axes (item_shape (s # ss) (i # ix)) js = combine_axes (map view_len (view_dims (i # ix) (m # ms))) vi \<and>
      map2 view_pos (view_dims (i # ix) (m # ms)) vi = item_pos (s # ss) (i # ix) js"
    by (intro exI [of _ "j # vi"]) (auto simp: sh parsed_ok_def valid_length)
qed (use p f i c z sh view_len_nonneg [OF f] in \<open>auto simp: parsed_ok_def\<close>)

lemma parsed_new_axis:
  assumes p: "parsed_ok ss ix ms" and m: "vi_size m = 1" "\<not> vi_collapse m"
  shows "parsed_ok ss (INone # ix) (m # ms)"
  unfolding parsed_ok_def
proof (intro conjI allI impI)
  fix js assume "valid (item_shape ss (INone # ix)) js"
  then obtain js' where j: "js = 0 # js'" "valid (item_shape ss ix) js'" by (auto elim!: valid_ConsE)
  with p show "\<exists>vi. valid (map view_len (view_dims (INone # ix) (m # ms))) vi \<and>
      combine_axes (item_shape ss (INone # ix)) js = combine_axes (map view_len (view_dims (INone # ix) (m # ms))) vi \<and>
      map2 view_pos (view_dims (INone # ix) (m # ms)) vi = item_pos ss (INone # ix) js"
    by (auto simp: parsed_ok_def valid_length)
qed (use p m in \<open>auto simp: parsed_ok_def\<close>)

lemma parsed_int:
  assumes p: "parsed_ok ss ix ms" and i: "- s \<le> i" "i < s"
  obtains m where "parse_view_index (IInt i) s = Inr m" "parsed_ok (s # ss) (IInt i # ix) (m # ms)"
proof -
  let ?b = "if 0 \<le> i then i else i + s"
  let ?m = "\<lparr> vi_size = s, vi_boundary = (?b, ?b + 1), vi_stride = 1, vi_collapse = True \<rparr>"
  have f: "fits s ?m" "view_len ?m = 1" "view_pos ?m 0 = ?b"
    using i by (auto simp: fits_def view_len_def stride_one view_pos_def)
  have "parsed_ok (s # ss) (IInt i # ix) (?m # ms)"
    unfolding parsed_ok_def
  proof (intro conjI allI impI)
    fix js assume "valid (item_shape (s # ss) (IInt i # ix)) js"
    then have "valid (item_shape ss ix) js" by simp
    with p obtain vi where "valid (map view_len (view_dims ix ms)) vi"
      "combine_axes (item_shape ss ix) js = combine_axes (map view_len (view_dims ix ms)) vi"
      "map2 view_pos (view_dims ix ms) vi = item_pos ss ix js" by (auto simp: parsed_ok_def)
    with f show "\<exists>vi. valid (map view_len (view_dims (IInt i # ix) (?m # ms))) vi \<and>
        combine_axes (item_shape (s # ss) (IInt i # ix)) js
          = combine_axes (map view_len (view_dims (IInt i # ix) (?m # ms))) vi \<and>
        map2 view_pos (view_dims (IInt i # ix) (?m # ms)) vi = item_pos (s # ss) (IInt i # ix) js"
      by (intro exI [of _ "0 # vi"]) (simp add: valid_length)
  qed (use p f in \<open>auto simp: parsed_ok_def\<close>)
  with i that show ?thesis by (simp add: Let_def)
qed

lemma parse_indices_total:
  "index_ok ss ix \<Longrightarrow> nonneg_shape ss \<Longrightarrow> \<exists>ms. parse_indices ss ix = Inr ms \<and> parsed_ok ss ix ms"
proof (induction ss ix rule: index_ok.induct)
  case (1 ss)
  then show ?case by (auto simp: parsed_ok_def)
next
  case (2 ss ix)
  then obtain ms where "parse_indices ss ix = Inr ms" "parsed_ok ss ix ms" by auto
  with parsed_new_axis [OF this(2)] show ?case by simp
next
  case (3 s ss i ix)
  then obtain ms where ms: "parse_indices ss ix = Inr ms" "parsed_ok ss ix ms" by auto
  from 3(2) have "- s \<le> i" "i < s" by simp_all
  from parsed_int [OF ms(2) this] obtain m where "parse_view_index (IInt i) s = Inr m"
    "parsed_ok (s # ss) (IInt i # ix) (m # ms)" by blast
  with ms(1) show ?case by (simp del: parse_view_index.simps)
next
  case (4 s ss a b c ix)
  then obtain ms where ms: "parse_indices ss ix = Inr ms" "parsed_ok ss ix ms" by auto
  from 4 have "0 \<le> s" "c \<noteq> Some 0" by simp_all
  then obtain m where m: "slice_view a b c s = Inr m" "fits s m" "vi_size m = view_len m" "\<not> vi_collapse m"
    "view_len m = range_len (slice_indices a b (slice_step c) s) (slice_step c)"
    "\<And>i. 0 \<le> i \<Longrightarrow> i < view_len m \<Longrightarrow> view_pos m i = fst (slice_indices a b (slice_step c) s) + i * slice_step c"
    by (rule slice_dim) blast
  have "parsed_ok (s # ss) (ISlice a b c # ix) (m # ms)"
    by (rule parsed_step [OF ms(2) m(2) _ m(4,3)]) (simp_all add: m(5,6) del: range_len.simps)
  with ms(1) m(1) show ?case by simp
qed simp_all

lemma getitem_view:
  assumes wf: "wf_tens t" and norm: "normalize_indices (ndim t) idx = Inr ix" and ok: "index_ok (shp t) ix"
  obtains x where "getitem idx t = Inr x" "shp x = item_shape (shp t) ix"
    "\<And>js. valid (shp x) js \<Longrightarrow> locate x js = locate t (item_pos (shp t) ix js)"
proof -
  from parse_indices_total [OF ok wf_nonneg [OF wf]] obtain ms where ms: "parse_indices (shp t) ix = Inr ms"
    and p: "parsed_ok (shp t) ix ms" by blast
  let ?v = "view_dims ix ms"
  have fit: "list_all2 fits (shp t) ?v" using p by (simp add: parsed_ok_def)
  have "\<exists>x. (if ?v \<noteq> [] then apply_view_ops ?v t else Inr t) = Inr x \<and> shp x = map view_len ?v
      \<and> view_map t x (\<lambda>idx. Some (map2 view_pos ?v idx))"
  proof (cases "?v = []")
    case True
    with fit have "shp t = []" by simp
    with True wf show ?thesis by (auto intro: view_map_cong [OF view_map_refl])
  next
    case False
    with apply_view_ops_total [OF wf fit] show ?thesis by metis
  qed
  then obtain x where x: "(if ?v \<noteq> [] then apply_view_ops ?v t else Inr t) = Inr x" "shp x = map view_len ?v"
    and vx: "view_map t x (\<lambda>idx. Some (map2 view_pos ?v idx))" by blast
  let ?s = "item_shape (shp t) ix"
  have s: "kept_sizes ms = ?s" "nonneg_shape ?s" "prod_list ?s = prod_list (shp x)"
    using p x(2) by (simp_all add: parsed_ok_def)
  from reshape_to_ok [OF view_mapD(1) [OF vx] s(2,2,3)] obtain y where y: "reshape_to ?s x = Inr y" "shp y = ?s"
    and vy: "view_map x y (\<lambda>idx. Some (split_axes (shp x) (combine_axes ?s idx)))" by blast
  have call: "getitem idx t = Inr y"
    by (simp only: getitem_def norm ms rbind_Inr Let_def view_dims_def [symmetric] kept_sizes_def [symmetric] x(1) s(1) y(1))
  have "locate y js = locate t (item_pos (shp t) ix js)" if v: "valid (shp y) js" for js
  proof -
    from v y(2) p obtain vi where vi: "valid (shp x) vi" "combine_axes ?s js = combine_axes (shp x) vi"
      "map2 view_pos ?v vi = item_pos (shp t) ix js" by (auto simp: parsed_ok_def x(2))
    have "locate y js = locate x (split_axes (shp x) (combine_axes ?s js))"
      using view_mapD(3) [OF vy v] by simp
    also have "\<dots> = locate x vi" by (simp only: vi(2) split_combine [OF vi(1)])
    also have "\<dots> = locate t (item_pos (shp t) ix js)"
      using view_mapD(3) [OF vx vi(1)] by (simp only: vi(3) Option.bind.bind_lunit)
    finally show ?thesis .
  qed
  with call y(2) that show ?thesis by blast
qed

text \<open>Property C33. Basic indexing reads what Python slicing means: once the ellipsis is expanded and every integer is in range and no step is zero, the call succeeds, its shape holds the length of each slice's range and a 1 for each new axis, and the element at an index is the operand's element at start + i * step in each sliced dimension and at the (wrapped) integer in each indexed one.\<close>

theorem getitem_reads_slices:
  assumes "wf_tens t" and "normalize_indices (ndim t) idx = Inr ix" and "index_ok (shp t) ix"
  shows "\<exists>x. getitem idx t = Inr x \<and> shp x = item_shape (shp t) ix \<and>
    (\<forall>js. valid (shp x) js \<longrightarrow> locate x js = locate t (item_pos (shp t) ix js))"
  using getitem_view [OF assms] by blast

text \<open>\<open>diag\<close> of a vector succeeds, is square, and holds the vector on its diagonal and padding everywhere else.\<close>

theorem diag_reads_diagonal:
  assumes "wf_tens t" and "shp t = [n]"
  shows "\<exists>d. diag t = Inr d \<and> shp d = [n, n] \<and> (\<forall>i j. 0 \<le> i \<and> i < n \<and> 0 \<le> j \<and> j < n \<longrightarrow>
    locate d [i, j] = (if i = j then locate t [i] else None))"
proof -
  obtain d where d: "diag t = Inr d" "shp d = [n, n]"
    and v: "view_map t d (\<lambda>idx. if idx ! 0 = idx ! 1 then Some [idx ! 0] else None)"
    by (rule diag_total [OF assms])
  have "locate d [i, j] = (if i = j then locate t [i] else None)" if "0 \<le> i \<and> i < n \<and> 0 \<le> j \<and> j < n" for i j
    using view_mapD(3) [OF v, of "[i, j]"] that by (simp add: d(2))
  with d show ?thesis by blast
qed

section \<open>The properties at concrete tensors\<close>

lemma movement_reads_in_bounds_witness:
  "case diag (base_tens [3]) of Inl _ \<Rightarrow> False
   | Inr r \<Rightarrow> shp r = [3, 3] \<and> (case locate r [1, 1] of None \<Rightarrow> True | Some j \<Rightarrow> valid (base_shape (base_tens [3])) j)"
proof -
  have "case diag (base_tens [3]) of Inl _ \<Rightarrow> False | Inr r \<Rightarrow> shp r = [3, 3]" by code_simp
  then obtain r where r: "diag (base_tens [3]) = Inr r" "shp r = [3, 3]" by (auto split: sum.splits)
  have "wf_tens (base_tens [3])" "valid (shp r) [1, 1]" by (simp_all add: r(2))
  from movement_reads_in_bounds [OF _ this] r show ?thesis by auto
qed

definition sample_index :: "pyindex list" where
  "sample_index = [ISlice (Some (-1)) None (Some (-2)), INone, IInt (-1)]"

lemma getitem_reads_slices_witness:
  "\<exists>x. getitem sample_index (base_tens [6, 5]) = Inr x \<and> shp x = [3, 1] \<and> locate x [1, 0] = Some [3, 4]"
proof -
  have n: "normalize_indices (ndim (base_tens [6, 5])) sample_index = Inr sample_index" by code_simp
  have ok: "index_ok (shp (base_tens [6, 5])) sample_index" by code_simp
  have s: "item_shape (shp (base_tens [6, 5])) sample_index = [3, 1]" by code_simp
  have p: "locate (base_tens [6, 5]) (item_pos (shp (base_tens [6, 5])) sample_index [1, 0]) = Some [3, 4]" by code_simp
  have wf: "wf_tens (base_tens [6, 5])" by simp
  from getitem_reads_slices [OF wf n ok] obtain x where x: "getitem sample_index (base_tens [6, 5]) = Inr x" "shp x = [3, 1]"
    and l: "\<And>js. valid (shp x) js \<Longrightarrow>
      locate x js = locate (base_tens [6, 5]) (item_pos (shp (base_tens [6, 5])) sample_index js)"
    unfolding s by blast
  have "locate x [1, 0] = Some [3, 4]" using l [of "[1, 0]"] by (simp add: x(2) p)
  with x show ?thesis by blast
qed

lemma diag_reads_diagonal_witness:
  "\<exists>d. diag (base_tens [3]) = Inr d \<and> locate d [1, 1] = Some [1] \<and> locate d [1, 2] = None"
proof -
  have wf: "wf_tens (base_tens [3])" and sh: "shp (base_tens [3]) = [3]" by (simp_all add: base_tens_def wf_tens_def)
  from diag_reads_diagonal [OF wf sh] obtain d where d: "diag (base_tens [3]) = Inr d"
    "\<forall>i j. 0 \<le> i \<and> i < 3 \<and> 0 \<le> j \<and> j < 3 \<longrightarrow> locate d [i, j] = (if i = j then locate (base_tens [3]) [i] else None)"
    by blast
  have "locate d [1, 1] = Some [1]" using d(2) by (simp add: base_tens_def)
  moreover have "locate d [1, 2] = None" using d(2) by simp
  ultimately show ?thesis using d(1) by blast
qed

end
