(* ===== verification/IntRange.thy ===== *)
theory IntRange
  imports DTypes
begin

text \<open>
  The interval analysis \<open>UOp._min_max\<close> (\<open>src/tinygrad/uop/ops.py\<close>) on scalar expressions over integers
  and booleans, and the Python evaluation \<open>exec_alu\<close> of the same operations (\<open>python_alu\<close>).  A
  boolean is 0 or 1, as Python's own arithmetic has it.  Expressions of a float type, whose interval
  is unbounded, are outside the model; so are vectors (\<open>STACK\<close>, \<open>GEP\<close>, \<open>UNROLL\<close>).
\<close>

section \<open>Expressions\<close>

datatype binop = BADD | BSUB | BMUL | BCDIV | BCMOD | BFLOORDIV | BFLOORMOD | BMAX | BAND | BOR | BXOR
  | BSHL | BSHR | BCMPLT | BCMPNE | BCMPEQ

datatype iexpr =
    ICONST dtype int
  | IVAR dtype string int int
  | IRANGE dtype nat iexpr
  | ILEAF dtype nat
  | IBIND iexpr
  | ICAST dtype iexpr
  | IWHERE dtype iexpr iexpr iexpr
  | IBIN binop dtype iexpr iexpr

definition dt_range :: "dtype \<Rightarrow> int \<times> int" where
  "dt_range d = (case (dtype_min d, dtype_max d) of (BInt a, BInt b) \<Rightarrow> (a, b) | _ \<Rightarrow> (0, 1))"

definition min4 :: "int \<Rightarrow> int \<Rightarrow> int \<Rightarrow> int \<Rightarrow> int" where "min4 a b c d = min (min a b) (min c d)"
definition max4 :: "int \<Rightarrow> int \<Rightarrow> int \<Rightarrow> int \<Rightarrow> int" where "max4 a b c d = max (max a b) (max c d)"

definition corners :: "(int \<Rightarrow> int \<Rightarrow> int) \<Rightarrow> int \<times> int \<Rightarrow> int \<times> int \<Rightarrow> int \<times> int" where
  "corners f x y = (min4 (f (fst x) (fst y)) (f (fst x) (snd y)) (f (snd x) (fst y)) (f (snd x) (snd y)),
                    max4 (f (fst x) (fst y)) (f (fst x) (snd y)) (f (snd x) (fst y)) (f (snd x) (snd y)))"

definition py_shift :: "(int \<Rightarrow> nat \<Rightarrow> int) \<Rightarrow> int \<Rightarrow> int \<Rightarrow> int result" where
  "py_shift f x n = (if n < 0 then Inl ValueError else Inr (f x (nat n)))"

definition shl_int :: "int \<Rightarrow> nat \<Rightarrow> int" where "shl_int x n = push_bit n x"
definition shr_int :: "int \<Rightarrow> nat \<Rightarrow> int" where "shr_int x n = drop_bit n x"

definition cmod_range :: "int \<times> int \<Rightarrow> int \<times> int \<Rightarrow> (int \<times> int) option" where
  "cmod_range x y =
     (let (a, b) = x; (c, d) = y in
      if c = d \<and> 0 < c then
        Some (if 0 < a then 0 else if - c < a then a else - (d - 1), if b < 0 then 0 else if b < c then b else c - 1)
      else if 0 < c then Some (if 0 \<le> a then (0, d - 1) else if b \<le> 0 then (- (d - 1), 0) else (- (d - 1), d - 1))
      else if d < 0 then Some (if 0 \<le> a then (0, - c - 1) else if b \<le> 0 then (- (- c - 1), 0) else (- (- c - 1), - c - 1))
      else None)"

definition floormod_range :: "int \<times> int \<Rightarrow> int \<times> int \<Rightarrow> (int \<times> int) option" where
  "floormod_range x y =
     (let (a, b) = x; (c, d) = y in
      if b < a then Some (0, 0)
      else if c = d \<and> 0 < c then Some (if a div c = b div c then (a mod c, b mod c) else (0, c - 1))
      else if c = d \<and> c < 0 then Some (if a div c = b div c then (a mod c, b mod c) else (c + 1, 0))
      else if 0 < c then Some (0, d - 1)
      else if d < 0 then Some (c + 1, 0)
      else None)"

text \<open>The branches of \<open>_min_max\<close> for a binary operation; \<open>None\<close> falls through to the range of the type.\<close>

fun bin_range :: "binop \<Rightarrow> dtype \<Rightarrow> int \<times> int \<Rightarrow> int \<times> int \<Rightarrow> (int \<times> int) option result" where
  "bin_range BADD dt x y = Inr (Some (fst x + fst y, snd x + snd y))"
| "bin_range BSUB dt x y = Inr (Some (fst x - snd y, snd x - fst y))"
| "bin_range BAND dt x y =
     (if is_int_dtype dt \<and> fst y = snd y \<and> 0 \<le> snd y
      then Inr (Some (0, if fst x < 0 then snd y else min (snd x) (snd y)))
      else if dt = dt_bool then Inr (Some (if fst x = 0 then fst x else fst y, if snd x = 0 then snd x else snd y))
      else Inr None)"
| "bin_range BMUL dt x y = Inr (Some (corners (*) x y))"
| "bin_range BSHL dt x y = (if fst y = snd y
      then rbind (py_shift shl_int (fst x) (fst y)) (\<lambda>a. rbind (py_shift shl_int (snd x) (fst y)) (\<lambda>b. Inr (Some (a, b))))
      else Inr None)"
| "bin_range BSHR dt x y = (if fst y = snd y
      then rbind (py_shift shr_int (fst x) (fst y)) (\<lambda>a. rbind (py_shift shr_int (snd x) (fst y)) (\<lambda>b. Inr (Some (a, b))))
      else Inr None)"
| "bin_range BCMOD dt x y = Inr (cmod_range x y)"
| "bin_range BCDIV dt x y = Inr (if 0 < fst y * snd y then Some (corners cdiv x y) else None)"
| "bin_range BFLOORDIV dt x y = Inr (if snd x < fst x then Some (0, 0)
      else if 0 < fst y * snd y then Some (corners (div) x y) else None)"
| "bin_range BFLOORMOD dt x y = Inr (floormod_range x y)"
| "bin_range BXOR dt x y = Inr (if fst y = -1 \<and> snd y = -1 then Some (NOT (snd x), NOT (fst x)) else None)"
| "bin_range BMAX dt x y = Inr (Some (max (fst x) (fst y), max (snd x) (snd y)))"
| "bin_range BCMPLT dt x y = Inr (Some (of_bool (snd x < fst y), of_bool (fst x < snd y)))"
| "bin_range BCMPNE dt x y = Inr (Some (of_bool (snd x < fst y \<or> snd y < fst x),
      of_bool (\<not> (fst x = snd x \<and> snd x = fst y \<and> fst y = snd y))))"
| "bin_range BOR dt x y = Inr (if dt = dt_bool
      then Some (if fst x \<noteq> 0 then fst x else fst y, if snd x \<noteq> 0 then snd x else snd y) else None)"
| "bin_range BCMPEQ dt x y = Inr None"

fun min_max :: "iexpr \<Rightarrow> (int \<times> int) result" where
  "min_max (ICONST dt c) = Inr (c, c)"
| "min_max (IVAR dt name lo hi) = Inr (lo, hi)"
| "min_max (IRANGE dt i e) = rbind (min_max e) (\<lambda>r. Inr (0, snd r - 1))"
| "min_max (ILEAF dt i) = Inr (dt_range dt)"
| "min_max (IBIND e) = min_max e"
| "min_max (ICAST dt e) = (if dt \<in> set (floats @ sints @ [dt_weakint])
     then rbind (min_max e) (\<lambda>r. Inr (max (fst (dt_range dt)) (fst r), min (snd r) (snd (dt_range dt))))
     else Inr (dt_range dt))"
| "min_max (IWHERE dt c a b) = (if is_int_dtype dt
     then rbind (min_max a) (\<lambda>x. rbind (min_max b) (\<lambda>y. Inr (min (fst x) (fst y), max (snd x) (snd y))))
     else Inr (dt_range dt))"
| "min_max (IBIN op dt a b) = rbind (min_max a) (\<lambda>x. rbind (min_max b) (\<lambda>y. rbind (bin_range op dt x y) (\<lambda>r.
     Inr (case r of None \<Rightarrow> dt_range dt | Some r \<Rightarrow> r))))"

section \<open>Evaluation\<close>

fun python_alu :: "binop \<Rightarrow> int \<Rightarrow> int \<Rightarrow> int result" where
  "python_alu BADD x y = Inr (x + y)"
| "python_alu BSUB x y = Inr (x - y)"
| "python_alu BMUL x y = Inr (x * y)"
| "python_alu BCDIV x y = Inr (cdiv x y)"
| "python_alu BCMOD x y = Inr (cmod x y)"
| "python_alu BFLOORDIV x y = Inr (floordiv x y)"
| "python_alu BFLOORMOD x y = Inr (floormod x y)"
| "python_alu BMAX x y = Inr (max x y)"
| "python_alu BAND x y = Inr (x AND y)"
| "python_alu BOR x y = Inr (x OR y)"
| "python_alu BXOR x y = Inr (x XOR y)"
| "python_alu BSHL x y = py_shift shl_int x y"
| "python_alu BSHR x y = py_shift shr_int x y"
| "python_alu BCMPLT x y = Inr (of_bool (x < y))"
| "python_alu BCMPNE x y = Inr (of_bool (x \<noteq> y))"
| "python_alu BCMPEQ x y = Inr (of_bool (x = y))"

text \<open>\<open>exec_alu\<close>: an integer type truncates, \<open>bool\<close> and \<open>weakint\<close> keep the value.\<close>

definition truncated :: "dtype \<Rightarrow> int \<Rightarrow> int" where
  "truncated dt v = (if dt = dt_bool then of_bool (v \<noteq> 0) else if dt \<in> set ints then truncate_int dt v else v)"

definition exec_alu :: "binop \<Rightarrow> dtype \<Rightarrow> int \<Rightarrow> int \<Rightarrow> int result" where
  "exec_alu op dt x y = rbind (python_alu op x y) (\<lambda>v. Inr (truncated dt v))"

record ienv =
  var_val :: "string \<Rightarrow> int"
  range_val :: "nat \<Rightarrow> int"
  leaf_val :: "nat \<Rightarrow> int"

fun ieval :: "ienv \<Rightarrow> iexpr \<Rightarrow> int result" where
  "ieval env (ICONST dt c) = Inr c"
| "ieval env (IVAR dt name lo hi) = Inr (var_val env name)"
| "ieval env (IRANGE dt i e) = Inr (range_val env i)"
| "ieval env (ILEAF dt i) = Inr (leaf_val env i)"
| "ieval env (IBIND e) = ieval env e"
| "ieval env (ICAST dt e) = rbind (ieval env e) (\<lambda>v. Inr (truncated dt v))"
| "ieval env (IWHERE dt c a b) = rbind (ieval env c) (\<lambda>v. rbind (ieval env a) (\<lambda>x. rbind (ieval env b) (\<lambda>y.
     Inr (truncated dt (if v \<noteq> 0 then x else y)))))"
| "ieval env (IBIN op dt a b) = rbind (ieval env a) (\<lambda>x. rbind (ieval env b) (\<lambda>y. exec_alu op dt x y))"

section \<open>Admissible evaluations\<close>

text \<open>Variables and ranges keep their declared bounds, every node has an integer or boolean type, and no
  operation or narrowing cast overflows the type of its node.\<close>

definition in_dt :: "dtype \<Rightarrow> int \<Rightarrow> bool" where
  "in_dt dt v = (fst (dt_range dt) \<le> v \<and> v \<le> snd (dt_range dt))"

definition int_like :: "dtype \<Rightarrow> bool" where
  "int_like dt = (dt \<in> set (ints @ [dt_weakint, dt_bool]))"

definition holds :: "(int \<Rightarrow> bool) \<Rightarrow> int result \<Rightarrow> bool" where
  "holds P r = (case r of Inl _ \<Rightarrow> False | Inr v \<Rightarrow> P v)"

text \<open>The operands of a boolean AND or OR are boolean expressions.\<close>

fun bool_expr :: "iexpr \<Rightarrow> bool" where
  "bool_expr (ICONST dt c) = (c = 0 \<or> c = 1)"
| "bool_expr (IVAR dt name lo hi) = (0 \<le> lo \<and> hi \<le> 1)"
| "bool_expr (IRANGE dt i e) = False"
| "bool_expr (ILEAF dt i) = (dt = dt_bool)"
| "bool_expr (IBIND e) = bool_expr e"
| "bool_expr (ICAST dt e) = (dt = dt_bool)"
| "bool_expr (IWHERE dt c a b) = (dt = dt_bool)"
| "bool_expr (IBIN op dt a b) = (dt = dt_bool \<and> op \<in> {BCMPLT, BCMPNE, BCMPEQ, BAND, BOR})"

fun admissible :: "ienv \<Rightarrow> iexpr \<Rightarrow> bool" where
  "admissible env (ICONST dt c) = True"
| "admissible env (IVAR dt name lo hi) = (lo \<le> var_val env name \<and> var_val env name \<le> hi)"
| "admissible env (IRANGE dt i e) = (admissible env e \<and> 0 \<le> range_val env i \<and> holds (\<lambda>n. range_val env i < n) (ieval env e))"
| "admissible env (ILEAF dt i) = in_dt dt (leaf_val env i)"
| "admissible env (IBIND e) = admissible env e"
| "admissible env (ICAST dt e) = (int_like dt \<and> admissible env e \<and> (dt \<in> set sints \<longrightarrow> holds (in_dt dt) (ieval env e))
     \<and> (dt = dt_weakint \<longrightarrow> holds (in_dt dt) (ieval env e)))"
| "admissible env (IWHERE dt c a b) = (int_like dt \<and> admissible env c \<and> admissible env a \<and> admissible env b
     \<and> holds (\<lambda>v. holds (in_dt dt) (if v \<noteq> 0 then ieval env a else ieval env b)) (ieval env c))"
| "admissible env (IBIN op dt a b) = (int_like dt \<and> admissible env a \<and> admissible env b
     \<and> (op \<in> {BAND, BOR} \<and> dt = dt_bool \<longrightarrow> bool_expr a \<and> bool_expr b)
     \<and> holds (\<lambda>x. holds (\<lambda>y. holds (in_dt dt) (python_alu op x y)) (ieval env b)) (ieval env a))"

end
