(* ===== verification/Decomp.thy ===== *)
theory Decomp
  imports IntRange
begin

text \<open>
  Integer division lowered to what hardware has (\<open>src/tinygrad/uop/decompositions.py\<close>): the search
  for a magic multiplier (\<open>magicgu\<close>), division by a constant as multiply and shift (\<open>fast_idiv\<close>), and
  floor division and floor remainder through the truncating ones (\<open>floordiv_to_idiv\<close>,
  \<open>floormod_to_mod\<close>).  The rewrites build the integer expressions of \<open>IntRange\<close>; the overloaded
  operators of a UOp (\<open>x * m\<close>, \<open>x >> s\<close>, \<open>x < 0\<close>, \<open>c.where(a, b)\<close>, \<open>a - b\<close>) are the functions of the first
  section, and the renderer is the list of data types it supports.
\<close>

section \<open>Operators of a UOp\<close>

fun e_dtype :: "iexpr \<Rightarrow> dtype" where
  "e_dtype (ICONST dt _) = dt" | "e_dtype (IVAR dt _ _ _) = dt" | "e_dtype (IRANGE dt _ _) = dt"
| "e_dtype (ILEAF dt _) = dt" | "e_dtype (IBIND e) = e_dtype e" | "e_dtype (ICAST dt _) = dt"
| "e_dtype (IWHERE dt _ _ _) = dt" | "e_dtype (IBIN _ dt _ _) = dt"

definition const_like :: "iexpr \<Rightarrow> int \<Rightarrow> iexpr" where
  "const_like x c = ICONST (e_dtype x) c"

definition alu :: "binop \<Rightarrow> iexpr \<Rightarrow> iexpr \<Rightarrow> iexpr" where
  "alu op a b = IBIN op (if op \<in> {BCMPLT, BCMPNE, BCMPEQ} then dt_bool else e_dtype b) a b"

definition e_cast :: "dtype \<Rightarrow> iexpr \<Rightarrow> iexpr" where
  "e_cast dt e = (if e_dtype e = dt then e else ICAST dt e)"

definition e_where :: "iexpr \<Rightarrow> iexpr \<Rightarrow> iexpr \<Rightarrow> iexpr" where
  "e_where c a b = IWHERE (e_dtype b) c a b"

definition e_neg :: "iexpr \<Rightarrow> iexpr" where
  "e_neg e = alu BMUL e (const_like e (-1))"

definition e_sub :: "iexpr \<Rightarrow> iexpr \<Rightarrow> iexpr" where
  "e_sub a b = alu BADD a (e_neg b)"

definition is_negative :: "iexpr \<Rightarrow> iexpr" where
  "is_negative x = alu BCMPLT x (const_like x 0)"

section \<open>Magic multipliers\<close>

definition magic_error :: "int \<Rightarrow> nat \<Rightarrow> int" where
  "magic_error d s = d - 1 - (2 ^ s - 1) mod d"

fun magic_loop :: "int \<Rightarrow> int \<Rightarrow> nat list \<Rightarrow> (int \<times> nat) result" where
  "magic_loop nc d [] = Inl AssertionError"
| "magic_loop nc d (s # ss) = (if nc * magic_error d s < 2 ^ s then Inr ((2 ^ s + magic_error d s) div d, s)
     else magic_loop nc d ss)"

definition magicgu :: "int \<Rightarrow> int \<Rightarrow> (int \<times> nat) result" where
  "magicgu vmax d = (if d = 0 then Inl ZeroDivisionError
     else magic_loop ((vmax + 1) div d * d - 1) d [0..<2 * bit_length vmax + 1])"

section \<open>Division by a constant\<close>

definition mul_shift :: "iexpr \<Rightarrow> int \<Rightarrow> nat \<Rightarrow> iexpr" where
  "mul_shift x m s = alu BSHR (alu BMUL x (const_like x m)) (const_like x (int s))"

definition toward_zero :: "bool \<Rightarrow> iexpr \<Rightarrow> iexpr \<Rightarrow> iexpr" where
  "toward_zero uns x q = (if uns then q
     else alu BADD q (e_where (is_negative x) (const_like x 1) (const_like x 0)))"

definition fits_dtype :: "dtype \<Rightarrow> int \<Rightarrow> int \<Rightarrow> int \<Rightarrow> bool" where
  "fits_dtype dt m lo hi = (fst (dt_range dt) \<le> m * lo \<and> m * hi \<le> snd (dt_range dt))"

definition two_factor :: "int \<Rightarrow> int" where
  "two_factor d = d AND (- d)"

definition wider :: "dtype list \<Rightarrow> dtype \<Rightarrow> dtype option" where
  "wider supported dt = (case map_of promo_lattice dt of None \<Rightarrow> None
     | Some ps \<Rightarrow> if is_int_dtype (last ps) \<and> last ps \<in> set supported then Some (last ps) else None)"

definition cast_step :: "dtype list \<Rightarrow> bool \<Rightarrow> iexpr \<Rightarrow> int \<Rightarrow> int \<Rightarrow> int \<times> nat \<Rightarrow> iexpr option" where
  "cast_step supported uns x lo hi = (\<lambda>(m, s). case wider supported (e_dtype x) of None \<Rightarrow> None
     | Some dt \<Rightarrow> if fits_dtype dt m lo hi
         then Some (toward_zero uns x (e_cast (e_dtype x) (mul_shift (e_cast dt x) m s))) else None)"

text \<open>The bounds of \<open>x\<close> clipped to its type.\<close>

definition clipped :: "iexpr \<Rightarrow> (int \<times> int) result" where
  "clipped x = rbind (min_max x) (\<lambda>r. Inr (max (fst r) (fst (dt_range (e_dtype x))), min (snd r) (snd (dt_range (e_dtype x)))))"

function fast_idiv :: "dtype list \<Rightarrow> bool \<Rightarrow> iexpr \<Rightarrow> int \<Rightarrow> iexpr option result" where
  "fast_idiv supported dont_cast x d =
     (if d \<le> 0 then Inl AssertionError
      else rbind (min_max x) (\<lambda>r. rbind (clipped x) (\<lambda>(lo, hi).
        let uns = (0 \<le> fst r \<or> e_dtype x \<in> set uints) in
        if - d < lo \<and> hi < d then Inr (Some (const_like x 0))
        else rbind (magicgu (max hi \<bar>lo\<bar>) d) (\<lambda>(m, s).
          if fits_dtype (e_dtype x) m lo hi then Inr (Some (toward_zero uns x (mul_shift x m s)))
          else
            let after = (if dont_cast then Inr None else Inr (cast_step supported uns x lo hi (m, s))) in
            if 1 < two_factor d
            then rbind (fast_idiv supported True (alu BCDIV x (const_like x (two_factor d))) (d div two_factor d))
              (\<lambda>ret. case ret of Some e \<Rightarrow> Inr (Some e) | None \<Rightarrow> after)
            else after))))"
  by pat_completeness auto
termination
  by (relation "measure (\<lambda>(_, _, _, d). nat d)") (auto simp: int_div_less_self nat_less_iff)

section \<open>Floor division and remainder\<close>

definition same_sign :: "iexpr \<Rightarrow> iexpr \<Rightarrow> bool result" where
  "same_sign a b = rbind (min_max a) (\<lambda>x. rbind (min_max b) (\<lambda>y.
     Inr ((0 \<le> fst x \<and> 0 < fst y) \<or> (snd x \<le> 0 \<and> snd y < 0))))"

definition signs_differ :: "iexpr \<Rightarrow> iexpr \<Rightarrow> iexpr" where
  "signs_differ a b = alu BCMPNE (is_negative a) (is_negative b)"

definition floordiv_to_idiv :: "iexpr \<Rightarrow> iexpr \<Rightarrow> iexpr result" where
  "floordiv_to_idiv a b = rbind (same_sign a b) (\<lambda>same. Inr (if same then alu BCDIV a b
     else let r = alu BCMOD a b in
       e_sub (alu BCDIV a b)
         (e_cast (e_dtype a) (alu BAND (alu BCMPNE r (const_like r 0)) (signs_differ a b)))))"

definition floormod_to_mod :: "iexpr \<Rightarrow> iexpr \<Rightarrow> iexpr result" where
  "floormod_to_mod a b = rbind (same_sign a b) (\<lambda>same. Inr (if same then alu BCMOD a b
     else let r = alu BCMOD a b in
       alu BADD r (e_where (alu BAND (alu BCMPNE r (const_like r 0)) (signs_differ a b)) b (const_like b 0))))"

text \<open>A remainder by a power of two is a mask; the table holds the powers up to \<open>2 ^ 63\<close>.\<close>

definition powers_of_two :: "(int \<times> nat) list" where
  "powers_of_two = map (\<lambda>i. (2 ^ i, i)) [0..<64]"

definition mod_to_and :: "iexpr \<Rightarrow> int \<Rightarrow> iexpr option" where
  "mod_to_and x c = (if map_of powers_of_two c \<noteq> None then Some (alu BAND x (const_like x (c - 1))) else None)"

text \<open>Truncating division of an unsigned operand by a power of two is a shift.\<close>

definition udiv_to_shr :: "iexpr \<Rightarrow> int \<Rightarrow> iexpr option" where
  "udiv_to_shr x c = (case map_of powers_of_two c of None \<Rightarrow> None
     | Some v \<Rightarrow> if v = 0 then None else Some (alu BSHR x (const_like x (int v))))"

end
