(* ===== verification/IntRangeSpec.thy ===== *)
theory IntRangeSpec
  imports IntRange
begin

text \<open>
  Soundness of the interval analysis: an admissible evaluation lies between \<open>vmin\<close> and \<open>vmax\<close>.  One
  lemma per operation bounds the result of the operation by \<open>bin_range\<close> of the operand intervals;
  the theorem is the induction over the expression.
\<close>

section \<open>Intervals\<close>

definition inside :: "int \<times> int \<Rightarrow> int \<Rightarrow> bool" where
  "inside r v \<longleftrightarrow> fst r \<le> v \<and> v \<le> snd r"

named_theorems range_sound \<open>one lemma per operation of the interval analysis\<close>

lemma cdiv_simps:
  "0 < y \<Longrightarrow> cdiv x y = (if x < 0 then - ((- x) div y) else x div y)"
  "y < 0 \<Longrightarrow> cdiv x y = - cdiv x (- y)"
  by (auto simp: cdiv_def mult_less_0_iff zero_less_mult_iff)

lemma mono_corners:
  assumes x: "inside (a, b) x" and y: "inside (c, d) y"
    and mono_x: "\<And>u v w. c \<le> w \<Longrightarrow> w \<le> d \<Longrightarrow> u \<le> v \<Longrightarrow> f u w \<le> f v w"
    and mono_y: "\<And>u. (\<forall>v w. c \<le> v \<and> v \<le> w \<and> w \<le> d \<longrightarrow> f u v \<le> f u w) \<or>
                     (\<forall>v w. c \<le> v \<and> v \<le> w \<and> w \<le> d \<longrightarrow> f u w \<le> f u v)"
  shows "inside (corners f (a, b) (c, d)) (f x y)"
proof -
  have y': "c \<le> y" "y \<le> d" "a \<le> x" "x \<le> b" using x y by (auto simp: inside_def)
  then have "f a y \<le> f x y" "f x y \<le> f b y" using mono_x by auto
  moreover have "min (f a c) (f a d) \<le> f a y" using mono_y [of a] y' by fastforce
  moreover have "f b y \<le> max (f b c) (f b d)" using mono_y [of b] y' by fastforce
  ultimately show ?thesis by (auto simp: inside_def corners_def min4_def max4_def)
qed

lemma mul_corners [range_sound]:
  assumes "inside x u" and "inside y v" shows "inside (corners (*) x y) (u * v)"
proof -
  obtain a b c d where xy: "x = (a, b)" "y = (c, d)" by (metis surj_pair)
  have lin: "min (p * r) (q * r) \<le> u * r \<and> u * r \<le> max (p * r) (q * r)" if "p \<le> u" "u \<le> q" for p q r u :: int
    using that mult_right_mono [of p u r] mult_right_mono [of u q r] mult_right_mono_neg [of p u r]
      mult_right_mono_neg [of u q r] by (cases "0 \<le> r") auto
  have 1: "min (a * v) (b * v) \<le> u * v \<and> u * v \<le> max (a * v) (b * v)"
    by (rule lin) (use assms in \<open>auto simp: inside_def xy\<close>)
  have 2: "min (c * r) (d * r) \<le> v * r \<and> v * r \<le> max (c * r) (d * r)" for r
    by (rule lin) (use assms in \<open>auto simp: inside_def xy\<close>)
  from 1 2 [of a] 2 [of b] show ?thesis
    by (simp add: inside_def corners_def min4_def max4_def xy mult.commute) linarith
qed

lemma negate_corners:
  assumes "\<And>u v. v \<noteq> 0 \<Longrightarrow> f (- u) (- v) = f u v" and "c \<le> d" "d < 0"
  shows "corners f (- b, - a) (- d, - c) = corners f (a, b) (c, d)"
proof -
  have "f (- u) (- v) = f u v" if "v = c \<or> v = d" for u v using that assms by auto
  then show ?thesis by (simp add: corners_def min4_def max4_def min.commute min.left_commute max.commute max.left_commute)
qed

lemma signed_corners:
  assumes x: "inside (a, b) u" and y: "inside (c, d) v" and s: "0 < c * d"
    and neg: "\<And>u v. v \<noteq> 0 \<Longrightarrow> f (- u) (- v) = f u v"
    and mono_x: "\<And>u v w. 0 < w \<Longrightarrow> u \<le> v \<Longrightarrow> f u w \<le> f v w"
    and pos: "\<And>u v w. 0 \<le> u \<Longrightarrow> 0 < v \<Longrightarrow> v \<le> w \<Longrightarrow> f u w \<le> f u v"
    and npos: "\<And>u v w. u < 0 \<Longrightarrow> 0 < v \<Longrightarrow> v \<le> w \<Longrightarrow> f u v \<le> f u w"
  shows "inside (corners f (a, b) (c, d)) (f u v)"
proof -
  have up: "inside (corners f (a, b) (c, d)) (f u v)" if "0 < c" "inside (a, b) u" "inside (c, d) v" for a b c d u v
  proof (rule mono_corners [OF that(2,3)])
    show "f p w \<le> f q w" if "c \<le> w" "w \<le> d" "p \<le> q" for p q w using that \<open>0 < c\<close> mono_x by auto
    show "(\<forall>v w. c \<le> v \<and> v \<le> w \<and> w \<le> d \<longrightarrow> f p v \<le> f p w) \<or> (\<forall>v w. c \<le> v \<and> v \<le> w \<and> w \<le> d \<longrightarrow> f p w \<le> f p v)" for p
      using pos npos \<open>0 < c\<close> by (cases "p < 0") auto
  qed
  from s consider "0 < c" | "c < 0" "d < 0" by (auto simp: zero_less_mult_iff)
  then show ?thesis
  proof cases
    case 1
    with up x y show ?thesis by blast
  next
    case 2
    with x y have "inside (corners f (- b, - a) (- d, - c)) (f (- u) (- v))" by (intro up) (auto simp: inside_def)
    moreover have "f (- u) (- v) = f u v" using neg y 2 by (auto simp: inside_def)
    moreover have "corners f (- b, - a) (- d, - c) = corners f (a, b) (c, d)"
      by (rule negate_corners) (use y 2 neg in \<open>auto simp: inside_def\<close>)
    ultimately show ?thesis by simp
  qed
qed

lemma cdiv_corners [range_sound]:
  assumes "inside x u" "inside y v" "0 < fst y * snd y" shows "inside (corners cdiv x y) (cdiv u v)"
proof -
  obtain a b c d where xy: "x = (a, b)" "y = (c, d)" by (metis surj_pair)
  have up: "cdiv p w \<le> cdiv q w" if "0 < w" "p \<le> q" for p q w
  proof -
    have "0 \<le> (- p) div w" if "p < 0" using that \<open>0 < w\<close> by (simp add: pos_imp_zdiv_nonneg_iff)
    moreover have "0 \<le> q div w" if "0 \<le> q" using that \<open>0 < w\<close> by (simp add: pos_imp_zdiv_nonneg_iff)
    moreover have "p div w \<le> q div w" "(- q) div w \<le> (- p) div w" using that by (auto intro: zdiv_mono1)
    ultimately show ?thesis using that by (auto simp: cdiv_simps)
  qed
  show ?thesis unfolding xy
  proof (rule signed_corners)
    show "cdiv (- p) (- q) = cdiv p q" if "q \<noteq> 0" for p q by (simp add: cdiv_def)
  qed (use assms up in \<open>auto simp: xy cdiv_simps intro: zdiv_mono2\<close>)
qed

lemma div_corners [range_sound]:
  assumes "inside x u" "inside y v" "0 < fst y * snd y" shows "inside (corners (div) x y) (u div v)"
proof -
  obtain a b c d where xy: "x = (a, b)" "y = (c, d)" by (metis surj_pair)
  show ?thesis unfolding xy
    by (rule signed_corners) (use assms in \<open>auto simp: xy intro: zdiv_mono1 zdiv_mono2 zdiv_mono2_neg\<close>)
qed

lemma cmod_simps: "0 < y \<Longrightarrow> cmod x y = (if x < 0 then - ((- x) mod y) else x mod y)"
  "y < 0 \<Longrightarrow> cmod x y = cmod x (- y)"
  using minus_div_mult_eq_mod [of "- x" y] minus_div_mult_eq_mod [of x y] by (auto simp: cmod_def cdiv_simps)

lemma cmod_bounds:
  assumes "0 < y" shows "0 \<le> x \<Longrightarrow> 0 \<le> cmod x y \<and> cmod x y < y \<and> cmod x y \<le> x"
    and "x \<le> 0 \<Longrightarrow> - y < cmod x y \<and> cmod x y \<le> 0 \<and> x \<le> cmod x y"
  using assms pos_mod_bound [OF assms, of "- x"] zmod_le_nonneg_dividend [of "- x" y] pos_mod_sign [OF assms, of "- x"]
    pos_mod_bound [OF assms, of x] zmod_le_nonneg_dividend [of x y] pos_mod_sign [OF assms, of x]
  by (auto simp: cmod_simps)

lemma cmod_range_sound [range_sound]:
  assumes r: "cmod_range x y = Some r" and x: "inside x u" and y: "inside y v"
  shows "inside r (cmod u v)"
proof -
  obtain a b c d where xy: "x = (a, b)" "y = (c, d)" by (metis surj_pair)
  have i: "a \<le> u" "u \<le> b" "c \<le> v" "v \<le> d" using x y by (auto simp: inside_def xy)
  consider "0 < c" | "d < 0" using r by (auto simp: cmod_range_def xy split: if_splits)
  then show ?thesis
  proof cases
    case 1
    then have v: "0 < v" using i by simp
    note b1 = cmod_bounds(1) [OF v, of u] and b2 = cmod_bounds(2) [OF v, of u]
    show ?thesis
    proof (cases "0 \<le> u")
      case True
      with b1 r i 1 show ?thesis by (auto simp: cmod_range_def xy inside_def split: if_splits)
    next
      case False
      with b2 r i 1 show ?thesis by (auto simp: cmod_range_def xy inside_def split: if_splits)
    qed
  next
    case 2
    then have v: "0 < - v" "v < 0" using i by simp_all
    note b1 = cmod_bounds(1) [OF v(1), of u] and b2 = cmod_bounds(2) [OF v(1), of u]
    have "cmod u v = cmod u (- v)" by (rule cmod_simps(2) [OF v(2)])
    with b1 b2 r i 2 show ?thesis by (cases "0 \<le> u") (auto simp: cmod_range_def xy inside_def split: if_splits)
  qed
qed

lemma same_quotient: "a div c = b div c \<Longrightarrow> a \<le> u \<Longrightarrow> u \<le> b \<Longrightarrow> c \<noteq> 0 \<Longrightarrow> a mod c \<le> u mod c \<and> u mod c \<le> b mod c"
  for a b c u :: int
proof -
  assume h: "a div c = b div c" "a \<le> u" "u \<le> b" "c \<noteq> 0"
  have "u div c = a div c"
  proof (cases "0 < c")
    case True
    then show ?thesis using h zdiv_mono1 [OF h(2)] zdiv_mono1 [OF h(3)] by (metis order_antisym)
  next
    case False
    with h(4) have "b div c \<le> u div c" "u div c \<le> a div c"
      using h zdiv_mono1 [of "- b" "- u" "- c"] zdiv_mono1 [of "- u" "- a" "- c"] by simp_all
    with h(1) show ?thesis by simp
  qed
  with h show ?thesis by (simp flip: minus_div_mult_eq_mod)
qed

lemma floormod_range_sound [range_sound]:
  assumes r: "floormod_range x y = Some r" and x: "inside x u" and y: "inside y v"
  shows "inside r (floormod u v)"
proof -
  obtain a b c d where xy: "x = (a, b)" "y = (c, d)" by (metis surj_pair)
  have i: "a \<le> u" "u \<le> b" "c \<le> v" "v \<le> d" using x y by (auto simp: inside_def xy)
  have nz: "v \<noteq> 0" using r i by (auto simp: floormod_range_def xy split: if_splits)
  then have m: "floormod u v = u mod v" by (simp add: floormod_def floordiv_def minus_div_mult_eq_mod)
  show ?thesis
  proof (cases "0 < v")
    case True
    then have "0 \<le> u mod v" "u mod v < d" using i pos_mod_bound [OF True, of u] by (simp, linarith)
    with True r i same_quotient [of a v b u] show ?thesis
      unfolding m by (auto simp: floormod_range_def xy inside_def split: if_splits)
  next
    case False
    with nz have v: "v < 0" by simp
    then have "c + 1 \<le> u mod v" "u mod v \<le> 0" using i neg_mod_bound [OF v, of u] by (linarith, simp)
    with v r i same_quotient [of a v b u] show ?thesis
      unfolding m by (auto simp: floormod_range_def xy inside_def split: if_splits)
  qed
qed

section \<open>The remaining operations\<close>

lemma shift_range_sound:
  assumes "py_shift f a n = Inr p" "py_shift f b n = Inr q" "py_shift f u n = Inr w" "inside (a, b) u"
    and "\<And>x y k. x \<le> y \<Longrightarrow> f x k \<le> f y k"
  shows "inside (p, q) w"
  using assms by (auto simp: py_shift_def inside_def split: if_splits)

lemma shift_mono: "x \<le> y \<Longrightarrow> shl_int x k \<le> shl_int y k" "x \<le> y \<Longrightarrow> shr_int x k \<le> shr_int y k"
  by (auto simp: shl_int_def shr_int_def push_bit_eq_mult drop_bit_eq_div intro: zdiv_mono1)

lemma and_const_range:
  "0 \<le> c \<Longrightarrow> inside (0, c) (u AND c)" "0 \<le> c \<Longrightarrow> 0 \<le> u \<Longrightarrow> u AND c \<le> u" for u c :: int
  by (simp_all add: inside_def AND_upper2 AND_upper1)

lemma bool_cases: "inside (0, 1) v \<Longrightarrow> v = 0 \<or> v = 1" for v by (auto simp: inside_def)

lemma not_range: "inside (a, b) u \<Longrightarrow> inside (NOT b, NOT a) (u XOR -1)" for u :: int
  by (auto simp: inside_def not_int_def)

text \<open>Operands of a boolean operation are boolean.\<close>

definition bool_operand :: "binop \<Rightarrow> dtype \<Rightarrow> int \<times> int \<Rightarrow> int \<Rightarrow> bool" where
  "bool_operand op dt x u \<longleftrightarrow> op \<in> {BAND, BOR} \<and> dt = dt_bool \<longrightarrow> u \<in> {0, 1} \<and> 0 \<le> fst x"

lemma bin_range_sound:
  assumes r: "bin_range op dt x y = Inr (Some r)" and v: "python_alu op u v = Inr w"
    and x: "inside x u" and y: "inside y v" and b: "bool_operand op dt x u" "bool_operand op dt y v"
  shows "inside r w"
proof (cases op)
  case BCDIV
  with r v x y show ?thesis by (auto split: if_splits intro: cdiv_corners)
next
  case BFLOORDIV
  with x have "\<not> snd x < fst x" by (auto simp: inside_def)
  with BFLOORDIV r have s: "0 < fst y * snd y" "r = corners (div) x y" by (auto split: if_splits)
  then have "v \<noteq> 0" using y by (auto simp: inside_def zero_less_mult_iff)
  with BFLOORDIV v s x y show ?thesis by (auto simp: floordiv_def intro: div_corners)
next
  case BAND
  show ?thesis
  proof (cases "is_int_dtype dt \<and> fst y = snd y \<and> 0 \<le> snd y")
    case True
    with y have "v = snd y" by (auto simp: inside_def)
    with True BAND r v x and_const_range [of v u] show ?thesis by (auto simp: inside_def)
  next
    case False
    with BAND r have "dt = dt_bool" "r = (if fst x = 0 then fst x else fst y, if snd x = 0 then snd x else snd y)"
      by (auto split: if_splits)
    with BAND v x y b show ?thesis by (auto simp: bool_operand_def inside_def)
  qed
next
  case BOR
  with r have "dt = dt_bool" "r = (if fst x \<noteq> 0 then fst x else fst y, if snd x \<noteq> 0 then snd x else snd y)"
    by (auto split: if_splits)
  with BOR v x y b show ?thesis by (auto simp: bool_operand_def inside_def)
next
  case BSHL
  with r y have c: "fst y = v" by (auto simp: inside_def split: if_splits)
  from BSHL r c obtain p q where "py_shift shl_int (fst x) v = Inr p" "py_shift shl_int (snd x) v = Inr q" "r = (p, q)"
    by (auto simp: rbind_eq_Inr split: if_splits)
  with BSHL v x show ?thesis using shift_range_sound [of shl_int "fst x" v p "snd x" q u w] shift_mono(1) by simp
next
  case BSHR
  with r y have c: "fst y = v" by (auto simp: inside_def split: if_splits)
  from BSHR r c obtain p q where "py_shift shr_int (fst x) v = Inr p" "py_shift shr_int (snd x) v = Inr q" "r = (p, q)"
    by (auto simp: rbind_eq_Inr split: if_splits)
  with BSHR v x show ?thesis using shift_range_sound [of shr_int "fst x" v p "snd x" q u w] shift_mono(2) by simp
next
  case BXOR
  with r y have "v = -1" "r = (NOT (snd x), NOT (fst x))" by (auto simp: inside_def split: if_splits)
  with BXOR v x not_range [of "fst x" "snd x" u] show ?thesis by simp
next
  case BMUL
  with assms mul_corners [OF x y] show ?thesis by auto
next
  case BCMOD
  with assms cmod_range_sound [OF _ x y] show ?thesis by auto
next
  case BFLOORMOD
  with assms floormod_range_sound [OF _ x y] show ?thesis by auto
qed (use assms in \<open>auto simp: inside_def\<close>)

section \<open>Types\<close>

lemma dt_bool_facts: "\<not> is_int_dtype dt_bool" "dt_bool \<notin> set ints" "dt_bool \<notin> set (floats @ sints @ [dt_weakint])"
  "dt_range dt_bool = (0, 1)" "dt_bool \<noteq> dt_weakint"
  by code_simp+

lemma truncated_bool: "truncated dt_bool v \<in> {0, 1}"
  by (simp add: truncated_def)

lemma in_range_of_dtype:
  assumes "dt \<in> set ints" and "in_dt dt v" shows "truncate_int dt v = v"
proof -
  have "\<forall>dt \<in> set ints. scalar dt = dt \<and> dt_range dt = (if is_unsigned dt then (0, 2 ^ nat (bitsize dt) - 1)
      else (- (2 ^ (nat (bitsize dt) - 1)), 2 ^ (nat (bitsize dt) - 1) - 1)) \<and> 1 < bitsize dt"
    by code_simp
  with assms have "if is_unsigned dt then 0 \<le> v \<and> v < 2 ^ nat (bitsize dt)
      else - (2 ^ (nat (bitsize dt) - 1)) \<le> v \<and> v < 2 ^ (nat (bitsize dt) - 1)"
    by (auto simp: in_dt_def split: if_splits)
  then show ?thesis
    by (auto simp: truncate_int_def take_bit_int_eq_self signed_take_bit_int_eq_self split: if_splits)
qed

lemma truncated_in_range: "int_like dt \<Longrightarrow> in_dt dt v \<Longrightarrow> truncated dt v = v"
  using in_range_of_dtype [of dt v] dt_bool_facts
  by (auto simp: truncated_def in_dt_def int_like_def)

lemma int_like_not_float: "dt \<in> set floats \<Longrightarrow> \<not> int_like dt"
proof -
  have "\<forall>dt \<in> set floats. \<not> int_like dt" by code_simp
  then show "dt \<in> set floats \<Longrightarrow> \<not> int_like dt" by blast
qed

lemma cast_cases: "int_like dt \<Longrightarrow> dt \<in> set (floats @ sints @ [dt_weakint]) \<Longrightarrow> dt \<in> set sints \<or> dt = dt_weakint"
  using int_like_not_float by auto

text \<open>A cast to an unsigned type or to \<open>bool\<close> wraps, so its result is always in the type.\<close>

lemma truncated_uint:
  assumes "int_like dt" and "dt \<notin> set (floats @ sints @ [dt_weakint])"
  shows "inside (dt_range dt) (truncated dt v)"
proof (cases "dt = dt_bool")
  case True
  with truncated_bool [of v] show ?thesis by (auto simp: inside_def dt_bool_facts)
next
  case False
  with assms have u: "dt \<in> set uints" by (auto simp: int_like_def ints_def)
  have "\<forall>dt \<in> set uints. dt \<in> set ints \<and> is_unsigned dt \<and> dt_range dt = (0, 2 ^ nat (bitsize dt) - 1)" by code_simp
  with u False have "truncated dt v = take_bit (nat (bitsize dt)) v" "dt_range dt = (0, 2 ^ nat (bitsize dt) - 1)"
    by (auto simp: truncated_def truncate_int_def)
  then show ?thesis using take_bit_int_less_exp [of "nat (bitsize dt)" v] by (simp add: inside_def)
qed

section \<open>Soundness\<close>

lemma holdsE: "holds P r \<Longrightarrow> (\<And>v. r = Inr v \<Longrightarrow> P v \<Longrightarrow> Q) \<Longrightarrow> Q"
  by (auto simp: holds_def split: sum.splits)

lemma bool_expr_operand:
  "bool_expr e \<Longrightarrow> admissible env e \<Longrightarrow> min_max e = Inr r \<Longrightarrow> ieval env e = Inr v \<Longrightarrow> v \<in> {0, 1} \<and> 0 \<le> fst r"
proof (induction e arbitrary: r v)
  case (IBIN op dt a b)
  then have dt: "dt = dt_bool" and op: "op \<in> {BCMPLT, BCMPNE, BCMPEQ, BAND, BOR}" by simp_all
  from IBIN.prems obtain x y p u w z where m: "min_max a = Inr x" "min_max b = Inr y" "bin_range op dt x y = Inr p"
    and r: "r = (case p of None \<Rightarrow> dt_range dt | Some q \<Rightarrow> q)"
    and e: "ieval env a = Inr u" "ieval env b = Inr w" "v = truncated dt z"
    by (auto simp: rbind_eq_Inr exec_alu_def)
  have "v \<in> {0, 1}" using truncated_bool by (simp add: e dt)
  moreover have "0 \<le> fst r"
  proof (cases "op \<in> {BAND, BOR}")
    case True
    then have ab: "bool_expr a" "bool_expr b" using IBIN.prems(2) dt by auto
    have "0 \<le> fst x" "0 \<le> fst y"
      using IBIN.IH(1) [OF ab(1) _ m(1) e(1)] IBIN.IH(2) [OF ab(2) _ m(2) e(2)] IBIN.prems(2) by auto
    with True m(3) r dt_bool_facts(1) show ?thesis by (auto simp: dt split: if_splits)
  next
    case False
    with op m(3) r dt_bool_facts(4) show ?thesis by (auto simp: dt)
  qed
  ultimately show ?case by blast
next
  case (IWHERE dt c a b)
  then have r: "r = (0, 1)" and "dt = dt_bool" by (auto simp: dt_bool_facts)
  with IWHERE.prems(4) truncated_bool show ?case by (auto simp: rbind_eq_Inr)
next
  case (ICAST dt e)
  then have "r = (0, 1)" and "dt = dt_bool" using dt_bool_facts(3) by (simp_all add: dt_bool_facts(4))
  with ICAST.prems(4) truncated_bool show ?case by (auto simp: rbind_eq_Inr)
next
  case (ILEAF dt i)
  then have "r = (0, 1)" and "dt = dt_bool" by (simp_all add: dt_bool_facts(4))
  with ILEAF.prems show ?case by (auto simp: in_dt_def dt_bool_facts(4))
qed auto

lemma min_max_bounds:
  "admissible env e \<Longrightarrow> min_max e = Inr r \<Longrightarrow> ieval env e = Inr v \<Longrightarrow> inside r v"
proof (induction e arbitrary: r v)
  case (IRANGE dt i e)
  then obtain n q where n: "ieval env e = Inr n" "range_val env i < n" and q: "min_max e = Inr q" "r = (0, snd q - 1)"
    by (auto simp: rbind_eq_Inr elim: holdsE)
  have "inside q n" using IRANGE.IH [OF _ q(1) n(1)] IRANGE.prems(1) by simp
  with n q IRANGE.prems show ?case by (auto simp: inside_def)
next
  case (ILEAF dt i)
  then show ?case by (auto simp: inside_def in_dt_def)
next
  case (ICAST dt e)
  then obtain u where u: "ieval env e = Inr u" "v = truncated dt u" by (auto simp: rbind_eq_Inr)
  have like: "int_like dt" using ICAST.prems(1) by simp
  show ?case
  proof (cases "dt \<in> set (floats @ sints @ [dt_weakint])")
    case True
    with like have "dt \<in> set sints \<or> dt = dt_weakint" by (auto simp: int_like_def cast_cases)
    with ICAST.prems(1) u(1) have fit: "in_dt dt u" by (auto elim: holdsE)
    with like u(2) have "v = u" by (simp add: truncated_in_range)
    with True ICAST fit u show ?thesis by (auto simp: rbind_eq_Inr inside_def in_dt_def)
  next
    case False
    with ICAST.prems(2) have "r = dt_range dt" by simp
    with like u(2) False truncated_uint show ?thesis by (auto simp: inside_def)
  qed
next
  case (IWHERE dt c a b)
  then obtain k x y where e: "ieval env c = Inr k" "ieval env a = Inr x" "ieval env b = Inr y"
    and v: "v = truncated dt (if k \<noteq> 0 then x else y)"
    by (auto simp: rbind_eq_Inr)
  with IWHERE.prems(1) have fit: "in_dt dt (if k \<noteq> 0 then x else y)" by (auto simp: holds_def)
  with IWHERE.prems(1) have v: "v = (if k \<noteq> 0 then x else y)" by (simp add: v truncated_in_range)
  show ?case
  proof (cases "is_int_dtype dt")
    case True
    with IWHERE.prems(2) obtain p q where "min_max a = Inr p" "min_max b = Inr q"
      "r = (min (fst p) (fst q), max (snd p) (snd q))" by (auto simp: rbind_eq_Inr)
    with IWHERE.IH(2,3) IWHERE.prems(1) e v show ?thesis by (fastforce simp: inside_def)
  next
    case False
    with IWHERE.prems(2) fit v show ?thesis by (simp add: inside_def in_dt_def)
  qed
next
  case (IBIN op dt a b)
  from IBIN.prems(2,3) obtain x y p u w z where m: "min_max a = Inr x" "min_max b = Inr y" "bin_range op dt x y = Inr p"
    and r: "r = (case p of None \<Rightarrow> dt_range dt | Some q \<Rightarrow> q)"
    and e: "ieval env a = Inr u" "ieval env b = Inr w" "python_alu op u w = Inr z" and v: "v = truncated dt z"
    by (auto simp: rbind_eq_Inr exec_alu_def)
  from IBIN.prems(1) e have fit: "in_dt dt z" by (simp add: holds_def)
  with IBIN.prems(1) have v: "v = z" by (simp add: v truncated_in_range)
  show ?case
  proof (cases p)
    case None
    with r fit v show ?thesis by (simp add: inside_def in_dt_def)
  next
    case (Some q)
    have "bool_operand op dt x u" "bool_operand op dt y w"
      using IBIN.prems(1) bool_expr_operand [OF _ _ m(1) e(1)] bool_expr_operand [OF _ _ m(2) e(2)]
      by (auto simp: bool_operand_def)
    moreover have "inside x u" "inside y w"
      using IBIN.IH(1) [OF _ m(1) e(1)] IBIN.IH(2) [OF _ m(2) e(2)] IBIN.prems(1) by auto
    ultimately show ?thesis using bin_range_sound [OF _ e(3)] m(3) Some r v by simp
  qed
qed (auto simp: inside_def)

text \<open>Property C35. The interval analysis is sound: whenever an evaluation keeps variables and ranges in their declared bounds and no operation overflows its type, the value of the expression lies between vmin and vmax.\<close>

theorem min_max_sound:
  assumes "admissible env e" and "min_max e = Inr (lo, hi)" and "ieval env e = Inr v"
  shows "lo \<le> v \<and> v \<le> hi"
  using min_max_bounds [OF assms] by (simp add: inside_def)

text \<open>\<open>(r * 4 + 3) // -8\<close> for a range \<open>r < n\<close>, \<open>n\<close> a variable in 1..10.\<close>

definition sample_expr :: iexpr where
  "sample_expr = IBIN BFLOORDIV dt_weakint
     (IBIN BADD dt_weakint (IBIN BMUL dt_weakint (IRANGE dt_weakint 0 (IVAR dt_weakint ''n'' 1 10)) (ICONST dt_weakint 4))
        (ICONST dt_weakint 3)) (ICONST dt_weakint (-8))"

definition sample_env :: ienv where
  "sample_env = \<lparr> var_val = (\<lambda>_. 10), range_val = (\<lambda>_. 9), leaf_val = (\<lambda>_. 0) \<rparr>"

lemma min_max_sound_witness: "min_max sample_expr = Inr (-5, -1) \<and> ieval sample_env sample_expr = Inr (-5) \<and> -5 \<le> (-5::int)"
proof -
  have a: "admissible sample_env sample_expr" and m: "min_max sample_expr = Inr (-5, -1)"
    and v: "ieval sample_env sample_expr = Inr (-5)" by code_simp+
  from min_max_sound [OF a m v] m v show ?thesis by simp
qed

text \<open>Without the hypothesis the bounds can be wrong: an addition of two unsigned bytes that wraps.\<close>

lemma wrapped_sum_outside:
  "\<exists>env e. min_max e = Inr (200, 400) \<and> ieval env e = Inr 144"
proof -
  let ?e = "IBIN BADD dt_uint8 (IVAR dt_uint8 ''a'' 100 200) (IVAR dt_uint8 ''b'' 100 200)"
  let ?env = "\<lparr> var_val = (\<lambda>_. 200), range_val = (\<lambda>_. 0), leaf_val = (\<lambda>_. 0) \<rparr>"
  have "min_max ?e = Inr (200, 400)" "ieval ?env ?e = Inr 144" by code_simp+
  then show ?thesis by blast
qed

end
