(* ===== verification/DecompSpec.thy ===== *)
theory DecompSpec
  imports Decomp IntRangeSpec
begin

text \<open>
  The lowered divisions compute the division they replace: the magic multiplier is found and exact on
  its whole range, \<open>fast_idiv\<close> on a non-negative operand evaluates to the truncating quotient, and floor
  division and remainder survive their lowering for every combination of signs.
\<close>

section \<open>The magic multiplier\<close>

lemma magic_error_bounds: "0 < d \<Longrightarrow> 0 \<le> magic_error d s \<and> magic_error d s < d"
proof -
  assume "0 < d"
  then have "0 \<le> (2 ^ s - 1) mod d" "(2 ^ s - 1) mod d < d" by simp_all
  then show ?thesis unfolding magic_error_def by linarith
qed

lemma magic_divides: "0 < d \<Longrightarrow> d dvd 2 ^ s + magic_error d s"
proof -
  assume "0 < d"
  have "2 ^ s + magic_error d s = (2 ^ s - 1) - (2 ^ s - 1) mod d + d" by (simp add: magic_error_def)
  also have "\<dots> = ((2 ^ s - 1) div d + 1) * d" by (simp add: distrib_right minus_mod_eq_div_mult)
  finally show ?thesis by simp
qed

lemma magic_loop_found:
  "magic_loop nc d ss = Inr (m, s) \<Longrightarrow> nc * magic_error d s < 2 ^ s \<and> m = (2 ^ s + magic_error d s) div d"
  by (induction nc d ss rule: magic_loop.induct) (auto split: if_splits)

lemma magic_loop_total:
  "s \<in> set ss \<Longrightarrow> nc * magic_error d s < 2 ^ s \<Longrightarrow> \<exists>r. magic_loop nc d ss = Inr r"
  by (induction nc d ss rule: magic_loop.induct) auto

lemma multiple_below: "0 < d \<Longrightarrow> d \<le> n \<Longrightarrow> d - 1 \<le> n div d * d - 1 \<and> n div d * d - 1 \<le> n - 1 \<and> n - 1 < n div d * d - 1 + d" for d n :: int
proof -
  assume d: "0 < d" "d \<le> n"
  have "1 * d \<le> n div d * d" using d by (intro mult_right_mono) (auto simp: pos_imp_zdiv_pos_iff int_one_le_iff_zero_less)
  moreover have "n div d * d = n - n mod d" by (simp add: minus_mod_eq_div_mult)
  ultimately show ?thesis using pos_mod_bound [of d n] pos_mod_sign [of d n] d by linarith
qed

text \<open>\<open>e\<close> is the error of the multiplier: the product stays below the next quotient.\<close>

lemma magic_exact:
  fixes x d e :: int
  assumes d: "0 < d" and e: "0 \<le> e" "e < d" and nc: "nc = (vmax + 1) div d * d - 1" "nc * e < 2 ^ s"
    and x: "0 \<le> x" "x \<le> vmax" and big: "d \<le> vmax + 1" and m: "m * d = 2 ^ s + e"
  shows "x * m div 2 ^ s = x div d"
proof -
  let ?q = "x div d" let ?r = "x mod d" let ?p = "2 ^ s :: int"
  have xq: "x = ?q * d + ?r" "0 \<le> ?r" "?r < d" using d by simp_all
  note ncb = multiple_below [OF d big, folded nc(1)]
  have key: "x * e < (d - ?r) * ?p"
  proof (cases "x \<le> nc")
    case True
    then have "x * e \<le> nc * e" using e by (intro mult_right_mono)
    also have "\<dots> < ?p" by (rule nc(2))
    also have "?p \<le> (d - ?r) * ?p" using xq(3) mult_right_mono [of 1 "d - ?r" ?p] by simp
    finally show ?thesis .
  next
    case False
    have "(d - 1) * e \<le> nc * e" using ncb e by (intro mult_right_mono) auto
    then have de: "(d - 1) * e < ?p" using nc(2) by simp
    have xr: "x = nc + 1 + ?r" and r: "?r + 1 \<le> d - 1"
    proof -
      have "(x - (nc + 1)) mod d = ?r" by (simp add: nc(1) mod_diff_eq [symmetric, of x])
      moreover have "0 \<le> x - (nc + 1)" "x - (nc + 1) < d - 1" using False x ncb by auto
      ultimately show "x = nc + 1 + ?r" "?r + 1 \<le> d - 1" by (simp_all add: mod_pos_pos_trivial)
    qed
    have "x * e = nc * e + (?r + 1) * e" by (subst xr) (simp add: algebra_simps)
    also have "\<dots> < ?p + (d - 1 - ?r) * ?p"
    proof -
      have "(?r + 1) * e \<le> (d - 1) * e" using r e by (intro mult_right_mono) auto
      also have "\<dots> \<le> ?p" using de by simp
      also have "?p \<le> (d - 1 - ?r) * ?p" using r mult_right_mono [of 1 "d - 1 - ?r" ?p] by simp
      finally show ?thesis using nc(2) by simp
    qed
    also have "\<dots> = (d - ?r) * ?p" by (simp add: algebra_simps)
    finally show ?thesis .
  qed
  have prod: "x * m * d = ?q * d * ?p + (?r * ?p + x * e)"
  proof -
    have "x * m * d = x * ?p + x * e" by (simp only: mult.assoc m distrib_left)
    also have "x * ?p = ?q * d * ?p + ?r * ?p" by (simp flip: distrib_right)
    finally show ?thesis by simp
  qed
  have "?q * ?p \<le> x * m"
  proof -
    have "?q * ?p * d \<le> x * m * d" unfolding prod using x e xq(2) by (simp add: mult.commute mult.left_commute)
    then show ?thesis using d by simp
  qed
  moreover have "x * m < (?q + 1) * ?p"
  proof -
    have "x * m * d < (?q + 1) * ?p * d" unfolding prod using key by (simp add: algebra_simps)
    then show ?thesis using d by simp
  qed
  ultimately have "x * m = ?p * ?q + (x * m - ?p * ?q)" "0 \<le> x * m - ?p * ?q" "x * m - ?p * ?q < ?p"
    by (simp_all add: algebra_simps)
  then show ?thesis by (rule int_div_pos_eq)
qed

lemma magicgu_exact:
  assumes "magicgu vmax d = Inr (m, s)" and "0 < d" and "d \<le> vmax + 1"
  shows "0 < m" and "\<And>x. 0 \<le> x \<Longrightarrow> x \<le> vmax \<Longrightarrow> x * m div 2 ^ s = x div d"
proof -
  note f = magic_loop_found [of "(vmax + 1) div d * d - 1" d "[0..<2 * bit_length vmax + 1]" m s]
  have e: "0 \<le> magic_error d s" "magic_error d s < d" using magic_error_bounds [OF assms(2)] by auto
  have m: "m * d = 2 ^ s + magic_error d s" "((vmax + 1) div d * d - 1) * magic_error d s < 2 ^ s"
    using f assms(1,2) magic_divides [OF assms(2), of s] by (simp_all add: magicgu_def)
  have "0 < m * d" unfolding m(1) using e(1) by (intro add_pos_nonneg) simp_all
  with assms(2) show "0 < m" by (simp add: zero_less_mult_iff)
  show "x * m div 2 ^ s = x div d" if "0 \<le> x" "x \<le> vmax" for x
    by (rule magic_exact [OF assms(2) e refl m(2) that assms(3) m(1)])
qed

lemma magicgu_total:
  assumes "0 < d" and "d \<le> vmax + 1" and "0 \<le> vmax"
  shows "\<exists>m s. magicgu vmax d = Inr (m, s)"
proof -
  let ?n = "bit_length vmax" let ?nc = "(vmax + 1) div d * d - 1"
  have v: "vmax < 2 ^ ?n" using bit_length_le_iff [OF assms(3), of ?n] by simp
  have nc: "?nc \<le> vmax" "0 \<le> ?nc" using multiple_below [OF assms(1,2)] assms(1) by auto
  have e: "0 \<le> magic_error d (2 * ?n)" "magic_error d (2 * ?n) \<le> vmax"
    using magic_error_bounds [OF assms(1), of "2 * ?n"] assms(2) by auto
  have "?nc * magic_error d (2 * ?n) \<le> vmax * vmax" using nc e by (intro mult_mono) auto
  also have "\<dots> < 2 ^ ?n * 2 ^ ?n" using v assms(3) by (intro mult_strict_mono) auto
  also have "\<dots> = 2 ^ (2 * ?n)" by (simp add: mult_2 power_add)
  finally have "\<exists>r. magic_loop ?nc d [0..<2 * ?n + 1] = Inr r" by (intro magic_loop_total [of "2 * ?n"]) auto
  with assms(1) show ?thesis by (auto simp: magicgu_def)
qed

section \<open>The factor of two\<close>

lemma two_factor_even: "two_factor (2 * c) = 2 * two_factor c"
proof -
  have "push_bit 1 c AND push_bit 1 (- c) = push_bit 1 (c AND - c)" by (simp only: push_bit_and)
  then show ?thesis by (simp add: two_factor_def push_bit_eq_mult mult.commute)
qed

lemma two_factor_odd: "two_factor (2 * c + 1) = 1"
proof -
  have "- (2 * c + 1) = 2 * NOT c + 1" by (simp add: not_int_def)
  then have "two_factor (2 * c + 1) = (1 + 2 * c) AND (1 + 2 * NOT c)" by (simp add: two_factor_def add.commute)
  also have "\<dots> = 1 + 2 * (c AND NOT c)" by (subst and_int_rec) simp
  finally show ?thesis by simp
qed

lemma two_factor_dvd: "0 < d \<Longrightarrow> two_factor d dvd d \<and> 0 < two_factor d"
proof (induction "nat d" arbitrary: d rule: less_induct)
  case less
  show ?case
  proof (cases "even d")
    case True
    then obtain c where "d = 2 * c" by auto
    with less(2) less(1) [of c] show ?thesis by (auto simp: two_factor_even)
  next
    case False
    then obtain c where "d = 2 * c + 1" by (auto elim: oddE)
    then show ?thesis by (simp add: two_factor_odd)
  qed
qed

section \<open>Division by a constant\<close>

lemma dt_range_zero: "int_like dt \<Longrightarrow> fst (dt_range dt) \<le> 0 \<and> 1 \<le> snd (dt_range dt)"
proof -
  have "\<forall>dt \<in> set (ints @ [dt_weakint, dt_bool]). fst (dt_range dt) \<le> 0 \<and> 1 \<le> snd (dt_range dt)" by code_simp
  then show "int_like dt \<Longrightarrow> ?thesis" unfolding int_like_def by blast
qed

lemma wider_int_like: "wider supported dt = Some dt' \<Longrightarrow> int_like dt'"
proof -
  assume "wider supported dt = Some dt'"
  then obtain ps where ps: "map_of promo_lattice dt = Some ps" "is_int_dtype (last ps)" "dt' = last ps"
    by (auto simp: wider_def split: option.splits if_splits)
  have "\<forall>kv \<in> set promo_lattice. is_int_dtype (last (snd kv)) \<longrightarrow> int_like (last (snd kv))" by code_simp
  moreover have "(dt, ps) \<in> set promo_lattice" using ps(1) by (rule map_of_SomeD)
  ultimately have "is_int_dtype (last (snd (dt, ps))) \<longrightarrow> int_like (last (snd (dt, ps)))" by blast
  with ps show "int_like dt'" by simp
qed

lemma in_dt_small: "int_like dt \<Longrightarrow> 0 \<le> v \<Longrightarrow> v \<le> w \<Longrightarrow> in_dt dt w \<Longrightarrow> in_dt dt v"
  using dt_range_zero by (fastforce simp: in_dt_def)

lemma cast_eval:
  assumes "ieval env e = Inr v" and "int_like dt" and "in_dt dt v" shows "ieval env (e_cast dt e) = Inr v"
  using assms by (auto simp: e_cast_def truncated_in_range)

lemma e_dtype_cast [simp]: "e_dtype (e_cast dt e) = dt"
  by (simp add: e_cast_def)

lemma alu_eval:
  assumes "ieval env a = Inr u" "ieval env b = Inr w" "python_alu op u w = Inr z"
    and "int_like (e_dtype (alu op a b))" "in_dt (e_dtype (alu op a b)) z"
  shows "ieval env (alu op a b) = Inr z"
  using assms by (simp add: alu_def exec_alu_def truncated_in_range)

lemma const_like_eval [simp]: "ieval env (const_like x c) = Inr c" "e_dtype (const_like x c) = e_dtype x"
  by (simp_all add: const_like_def)

lemma e_dtype_alu [simp]: "op \<notin> {BCMPLT, BCMPNE, BCMPEQ} \<Longrightarrow> e_dtype (alu op a b) = e_dtype b"
  by (simp add: alu_def)

lemma mul_shift_eval:
  assumes x: "ieval env x = Inr v" "0 \<le> v" and like: "int_like (e_dtype x)" and m: "0 < m"
    and prod: "in_dt (e_dtype x) (v * m)" and q: "v * m div 2 ^ s = v div d" "0 < d"
  shows "ieval env (mul_shift x m s) = Inr (v div d)"
proof -
  have "ieval env (alu BMUL x (const_like x m)) = Inr (v * m)" using x like prod by (intro alu_eval) auto
  moreover have "python_alu BSHR (v * m) (int s) = Inr (v div d)"
    using q(1) by (simp add: py_shift_def shr_int_def drop_bit_eq_div)
  moreover have "in_dt (e_dtype x) (v div d)"
  proof (rule in_dt_small [OF like _ _ prod])
    show "0 \<le> v div d" using x(2) q(2) by (simp add: pos_imp_zdiv_nonneg_iff)
    have "v div d \<le> v" using x(2) q(2) zdiv_mono2 [of v 1 d] by simp
    also have "v * 1 \<le> v * m" using x(2) m by (intro mult_left_mono) auto
    finally show "v div d \<le> v * m" by simp
  qed
  ultimately show ?thesis unfolding mul_shift_def using like by (auto intro: alu_eval [of env _ "v * m"])
qed

lemma clippedD:
  assumes "clipped x = Inr (lo, hi)" and "min_max x = Inr (a, b)"
  shows "lo = max a (fst (dt_range (e_dtype x)))" "hi = min b (snd (dt_range (e_dtype x)))"
  using assms by (auto simp: clipped_def)

lemma cdiv_nonneg: "0 \<le> v \<Longrightarrow> 0 < d \<Longrightarrow> cdiv v d = v div d"
  by (simp add: cdiv_simps)

text \<open>What an evaluation of the operand needs: its value is non-negative by the analysis, admissible and in its type.\<close>

definition idiv_operand :: "ienv \<Rightarrow> iexpr \<Rightarrow> int \<Rightarrow> bool" where
  "idiv_operand env x v \<longleftrightarrow> admissible env x \<and> ieval env x = Inr v \<and> int_like (e_dtype x) \<and> in_dt (e_dtype x) v
     \<and> (case min_max x of Inl _ \<Rightarrow> False | Inr r \<Rightarrow> 0 \<le> fst r)"

lemma idiv_operandD:
  assumes "idiv_operand env x v"
  obtains a b where "min_max x = Inr (a, b)" "0 \<le> a" "a \<le> v" "v \<le> b" "0 \<le> v"
    "ieval env x = Inr v" "int_like (e_dtype x)" "in_dt (e_dtype x) v" "admissible env x"
proof -
  from assms obtain a b where "min_max x = Inr (a, b)" "0 \<le> a"
    by (auto simp: idiv_operand_def split: sum.splits)
  moreover have "a \<le> v \<and> v \<le> b"
    using min_max_bounds [of env x "(a, b)" v] assms calculation by (auto simp: idiv_operand_def inside_def)
  ultimately show ?thesis using assms that by (auto simp: idiv_operand_def)
qed

lemma shifted_operand:
  assumes x: "idiv_operand env x v" and f: "0 < f"
  shows "idiv_operand env (alu BCDIV x (const_like x f)) (v div f)"
proof -
  from x obtain a b where m: "min_max x = Inr (a, b)" "0 \<le> a" "a \<le> v" "v \<le> b" "0 \<le> v"
    "ieval env x = Inr v" "int_like (e_dtype x)" "in_dt (e_dtype x) v" "admissible env x" by (rule idiv_operandD)
  have q: "cdiv v f = v div f" using m f by (simp add: cdiv_nonneg)
  have "in_dt (e_dtype x) (v div f)"
    by (rule in_dt_small [OF m(7) _ _ m(8)]) (use m(5) f zdiv_mono2 [of v 1 f] in \<open>auto simp: pos_imp_zdiv_nonneg_iff\<close>)
  moreover have "0 \<le> cdiv a f" "0 \<le> cdiv b f" using m f by (auto simp: cdiv_nonneg pos_imp_zdiv_nonneg_iff)
  ultimately show ?thesis using m f q
    by (simp add: idiv_operand_def alu_def const_like_def exec_alu_def holds_def corners_def min4_def truncated_in_range)
qed

declare fast_idiv.simps [simp del]

lemma fast_idiv_cases:
  assumes f: "fast_idiv supported dc x d = Inr (Some e)" and r: "min_max x = Inr (a, b)" "0 \<le> a"
  obtains lo hi where "0 < d" "clipped x = Inr (lo, hi)" "hi < d" "e = const_like x 0"
  | lo hi m s where "0 < d" "clipped x = Inr (lo, hi)" "\<not> (- d < lo \<and> hi < d)" "magicgu (max hi \<bar>lo\<bar>) d = Inr (m, s)"
      "fits_dtype (e_dtype x) m lo hi" "e = mul_shift x m s"
  | "0 < d" "1 < two_factor d"
      "fast_idiv supported True (alu BCDIV x (const_like x (two_factor d))) (d div two_factor d) = Inr (Some e)"
  | lo hi m s where "0 < d" "clipped x = Inr (lo, hi)" "\<not> (- d < lo \<and> hi < d)" "magicgu (max hi \<bar>lo\<bar>) d = Inr (m, s)"
      "cast_step supported True x lo hi (m, s) = Some e"
proof -
  from f r obtain lo hi where d: "0 < d" and c: "clipped x = Inr (lo, hi)"
    by (auto simp: fast_idiv.simps [of supported dc x d] rbind_eq_Inr split: if_splits)
  show ?thesis
  proof (cases "- d < lo \<and> hi < d")
    case True
    with f r c d have "e = const_like x 0" by (simp add: fast_idiv.simps [of supported dc x d])
    with True c d that(1) show ?thesis by blast
  next
    case False
    with f r c d obtain m s where ms: "magicgu (max hi \<bar>lo\<bar>) d = Inr (m, s)"
      by (auto simp: fast_idiv.simps [of supported dc x d] rbind_eq_Inr Let_def)
    let ?rec = "fast_idiv supported True (alu BCDIV x (const_like x (two_factor d))) (d div two_factor d)"
    let ?after = "(if dc then Inr None else Inr (cast_step supported True x lo hi (m, s))) :: iexpr option result"
    have eq: "(if fits_dtype (e_dtype x) m lo hi then Inr (Some (mul_shift x m s))
        else if 1 < two_factor d then rbind ?rec (\<lambda>ret. case ret of Some e \<Rightarrow> Inr (Some e) | None \<Rightarrow> ?after) else ?after)
        = Inr (Some e)"
      using f [unfolded fast_idiv.simps [of supported dc x d]] r d
      by (simp add: c ms False [unfolded de_Morgan_conj] Let_def toward_zero_def if_not_P [OF False] cong: if_cong split del: if_split)
    show ?thesis
    proof (cases "fits_dtype (e_dtype x) m lo hi")
      case True
      with eq that(2) [OF d c False ms] show ?thesis by simp
    next
      case no_fit: False
      show ?thesis
      proof (cases "1 < two_factor d \<and> ?rec = Inr (Some e)")
        case True
        with that(3) d show ?thesis by blast
      next
        case no_rec: False
        with eq no_fit have "?after = Inr (Some e)" by (auto simp: rbind_eq_Inr split: if_splits option.splits)
        with that(4) [OF d c False ms] show ?thesis by (auto split: if_splits)
      qed
    qed
  qed
qed

lemma fits_product:
  assumes "fits_dtype dt m lo hi" "0 < m" "lo \<le> v" "v \<le> hi" shows "in_dt dt (v * m)"
proof -
  have "m * lo \<le> v * m" "v * m \<le> m * hi" using assms(2-4) by (simp_all add: mult.commute mult_left_mono)
  with assms(1) show ?thesis by (simp add: fits_dtype_def in_dt_def)
qed

lemma fast_idiv_exact:
  "fast_idiv supported dc x d = Inr (Some e) \<Longrightarrow> idiv_operand env x v \<Longrightarrow> ieval env e = Inr (v div d)"
proof (induction "nat d" arbitrary: dc x d e v rule: less_induct)
  case less
  from idiv_operandD [OF less(3)] obtain a b where m: "min_max x = Inr (a, b)" "0 \<le> a" "a \<le> v" "v \<le> b" "0 \<le> v"
    "ieval env x = Inr v" "int_like (e_dtype x)" "in_dt (e_dtype x) v" "admissible env x" by blast
  have bounds: "0 \<le> lo \<and> lo \<le> v \<and> v \<le> hi" if "clipped x = Inr (lo, hi)" for lo hi
    using clippedD [OF that m(1)] m dt_range_zero [OF m(7)] by (simp add: in_dt_def)
  have exact: "0 < k \<and> v * k div 2 ^ s = v div d"
    if "0 < d" "clipped x = Inr (lo, hi)" "\<not> (- d < lo \<and> hi < d)" "magicgu (max hi \<bar>lo\<bar>) d = Inr (k, s)" for lo hi k s
    using magicgu_exact [OF that(4) that(1)] bounds [OF that(2)] that(1,3) by auto
  from less(2) m(1,2) show ?case
  proof (cases rule: fast_idiv_cases)
    case (1 lo hi)
    with bounds have "v div d = 0" by (intro div_pos_pos_trivial) auto
    with 1 show ?thesis by simp
  next
    case (2 lo hi k s)
    note ex = exact [OF 2(1-4)]
    have "in_dt (e_dtype x) (v * k)" using fits_product [OF 2(5)] ex bounds [OF 2(2)] by blast
    with 2 ex m show ?thesis by (simp add: mul_shift_eval)
  next
    case 3
    have f: "two_factor d dvd d" "0 < two_factor d" using two_factor_dvd [OF 3(1)] by auto
    have "nat (d div two_factor d) < nat d" using 3 by (auto simp: int_div_less_self nat_less_iff)
    from less(1) [OF this 3(3) shifted_operand [OF less(3) f(2)]]
    have "ieval env e = Inr (v div two_factor d div (d div two_factor d))" .
    also have "v div two_factor d div (d div two_factor d) = v div (two_factor d * (d div two_factor d))"
      using f 3(1) by (intro zdiv_zmult2_eq [symmetric]) (simp add: pos_imp_zdiv_nonneg_iff)
    finally show ?thesis using f(1) by simp
  next
    case (4 lo hi k s)
    note ex = exact [OF 4(1-4)]
    from 4(5) obtain dt where dt: "wider supported (e_dtype x) = Some dt" "fits_dtype dt k lo hi"
      "e = e_cast (e_dtype x) (mul_shift (e_cast dt x) k s)"
      by (auto simp: cast_step_def toward_zero_def split: option.splits if_splits)
    note like = wider_int_like [OF dt(1)]
    have prod: "in_dt dt (v * k)" using fits_product [OF dt(2)] ex bounds [OF 4(2)] by blast
    have "v * 1 \<le> v * k" using ex m(5) by (intro mult_left_mono) auto
    then have "in_dt dt v" using in_dt_small [OF like m(5) _ prod] by simp
    from cast_eval [OF m(6) like this] have "ieval env (mul_shift (e_cast dt x) k s) = Inr (v div d)"
      using ex prod like m(5) 4(1) by (intro mul_shift_eval [of env _ v k s d]) auto
    moreover have "in_dt (e_dtype x) (v div d)"
      by (rule in_dt_small [OF m(7) _ _ m(8)])
        (use m(5) 4(1) zdiv_mono2 [of v 1 d] in \<open>auto simp: pos_imp_zdiv_nonneg_iff\<close>)
    ultimately show ?thesis using dt(3) m(7) by (simp add: cast_eval)
  qed
qed

section \<open>Floor division and remainder\<close>

definition needs_fix :: "int \<Rightarrow> int \<Rightarrow> bool" where
  "needs_fix u w \<longleftrightarrow> cmod u w \<noteq> 0 \<and> (u < 0) \<noteq> (w < 0)"

lemma floor_from_trunc_pos:
  assumes w: "0 < w"
  shows "u mod w = cmod u w + (if cmod u w \<noteq> 0 \<and> u < 0 then w else 0)"
proof (cases "u < 0")
  case True
  then have "cmod u w = - ((- u) mod w)" using w by (simp add: cmod_simps)
  moreover have "w \<noteq> u mod w" using pos_mod_bound [OF w, of u] by linarith
  ultimately show ?thesis using True w by (simp add: zmod_zminus1_eq_if)
next
  case False
  with w show ?thesis by (simp add: cmod_simps)
qed

lemma mod_from_cmod: "w \<noteq> 0 \<Longrightarrow> u mod w = cmod u w + (if needs_fix u w then w else 0)"
proof (cases "0 < w")
  case True
  with floor_from_trunc_pos [of w u] show ?thesis by (simp add: needs_fix_def)
next
  case False
  moreover assume "w \<noteq> 0"
  ultimately have w: "0 < - w" "w < 0" by simp_all
  have "u mod w = - ((- u) mod (- w))" by (simp add: mod_minus_right)
  also have "(- u) mod (- w) = cmod (- u) (- w) + (if cmod (- u) (- w) \<noteq> 0 \<and> - u < 0 then - w else 0)"
    by (rule floor_from_trunc_pos [OF w(1)])
  also have "cmod (- u) (- w) = - cmod u w" using w by (auto simp: cmod_simps)
  finally show ?thesis using w cmod_simps(1) [of "- w" 0]
    by (cases "u = 0") (auto simp: needs_fix_def cmod_def cdiv_def)
qed

lemma div_from_cdiv: "w \<noteq> 0 \<Longrightarrow> u div w = cdiv u w - of_bool (needs_fix u w)"
proof -
  assume w: "w \<noteq> 0"
  have "u = cdiv u w * w + cmod u w" by (simp add: cmod_def)
  moreover have "u = u div w * w + u mod w" by simp
  ultimately have "u div w * w + u mod w = cdiv u w * w + cmod u w" by simp
  then have "(u div w) * w = (cdiv u w - of_bool (needs_fix u w)) * w"
    using mod_from_cmod [OF w, of u] by (simp add: left_diff_distrib split: if_splits)
  with w show ?thesis using mult_right_cancel by blast
qed

lemma same_sign_values:
  assumes "same_sign a b = Inr True" "admissible env a" "ieval env a = Inr u" "admissible env b" "ieval env b = Inr w"
  shows "\<not> needs_fix u w \<and> w \<noteq> 0"
proof -
  from assms(1) obtain x y where m: "min_max a = Inr x" "min_max b = Inr y"
    and s: "(0 \<le> fst x \<and> 0 < fst y) \<or> (snd x \<le> 0 \<and> snd y < 0)"
    by (auto simp: same_sign_def rbind_eq_Inr)
  have "inside x u" "inside y w" using min_max_bounds assms m by blast+
  with s show ?thesis by (cases "u = 0") (auto simp: inside_def needs_fix_def cmod_def cdiv_def)
qed

text \<open>Operands of one signed type whose values are in the type.\<close>

definition floor_operands :: "ienv \<Rightarrow> iexpr \<Rightarrow> iexpr \<Rightarrow> int \<Rightarrow> int \<Rightarrow> bool" where
  "floor_operands env a b u w \<longleftrightarrow> admissible env a \<and> admissible env b \<and> ieval env a = Inr u \<and> ieval env b = Inr w
     \<and> e_dtype a = e_dtype b \<and> e_dtype b \<in> set (sints @ [dt_weakint]) \<and> in_dt (e_dtype b) w \<and> w \<noteq> 0"

lemma signed_range: "dt \<in> set (sints @ [dt_weakint]) \<Longrightarrow> int_like dt \<and> fst (dt_range dt) \<le> -1 \<and> 1 \<le> snd (dt_range dt)"
proof -
  have "\<forall>dt \<in> set (sints @ [dt_weakint]). int_like dt \<and> fst (dt_range dt) \<le> -1 \<and> 1 \<le> snd (dt_range dt)" by code_simp
  then show "dt \<in> set (sints @ [dt_weakint]) \<Longrightarrow> ?thesis" by blast
qed

lemma like_bool: "int_like dt_bool" by code_simp

lemma in_bool: "in_dt dt_bool (of_bool c)" by (simp add: in_dt_def dt_bool_facts)

lemma cmp_eval:
  assumes "op \<in> {BCMPLT, BCMPNE, BCMPEQ}" "ieval env a = Inr u" "ieval env b = Inr w" "python_alu op u w = Inr (of_bool c)"
  shows "ieval env (alu op a b) = Inr (of_bool c)"
  using assms by (auto simp: alu_def exec_alu_def truncated_in_range [OF like_bool in_bool])

lemma is_negative_eval: "ieval env a = Inr u \<Longrightarrow> ieval env (is_negative a) = Inr (of_bool (u < 0))"
  unfolding is_negative_def by (rule cmp_eval) auto

lemma signs_differ_eval:
  assumes "ieval env a = Inr u" "ieval env b = Inr w" shows "ieval env (signs_differ a b) = Inr (of_bool ((u < 0) \<noteq> (w < 0)))"
  unfolding signs_differ_def by (rule cmp_eval [OF _ is_negative_eval [OF assms(1)] is_negative_eval [OF assms(2)]]) auto

lemma fix_eval:
  assumes "ieval env a = Inr u" "ieval env b = Inr w" "ieval env r = Inr (cmod u w)"
  shows "ieval env (alu BAND (alu BCMPNE r (const_like r 0)) (signs_differ a b)) = Inr (of_bool (needs_fix u w))"
proof (rule alu_eval [OF _ signs_differ_eval [OF assms(1,2)]])
  show "ieval env (alu BCMPNE r (const_like r 0)) = Inr (of_bool (cmod u w \<noteq> 0))"
    by (rule cmp_eval [OF _ assms(3)]) auto
qed (auto simp: needs_fix_def signs_differ_def alu_def like_bool in_dt_def dt_bool_facts)

lemma cmod_in_dt:
  assumes "dt \<in> set (sints @ [dt_weakint])" "in_dt dt w" "w \<noteq> 0" shows "in_dt dt (cmod u w) \<and> in_dt dt (u mod w)"
proof -
  let ?n = "\<lambda>v. \<bar>v\<bar> < \<bar>w\<bar>"
  have small: "in_dt dt v" if "?n v" for v
  proof -
    have "fst (dt_range dt) = - snd (dt_range dt) - 1"
    proof -
      have "\<forall>dt \<in> set (sints @ [dt_weakint]). fst (dt_range dt) = - snd (dt_range dt) - 1" by code_simp
      with assms(1) show ?thesis by blast
    qed
    with that assms(2) show ?thesis by (auto simp: in_dt_def abs_if split: if_splits)
  qed
  have "?n (u mod w)"
  proof (cases "0 < w")
    case True
    with pos_mod_bound [OF True, of u] pos_mod_sign [OF True, of u] show ?thesis by simp
  next
    case False
    with assms(3) have w: "w < 0" by simp
    with neg_mod_bound [OF w, of u] neg_mod_sign [OF w, of u] show ?thesis by simp
  qed
  moreover have "?n (cmod u w)"
  proof (cases "0 < w")
    case True
    with cmod_bounds [OF True, of u] show ?thesis by (cases "0 \<le> u") auto
  next
    case False
    with assms(3) have w: "0 < - w" by simp
    with cmod_bounds [OF w, of u] cmod_simps(2) [of w u] show ?thesis by (cases "0 \<le> u") auto
  qed
  ultimately show ?thesis using small by blast
qed

lemma floordiv_lowered:
  assumes ops: "floor_operands env a b u w" and e: "floordiv_to_idiv a b = Inr e"
    and q: "in_dt (e_dtype b) (u div w)" "in_dt (e_dtype b) (cdiv u w)"
  shows "ieval env e = Inr (u div w)"
proof -
  from ops have ab: "admissible env a" "admissible env b" "ieval env a = Inr u" "ieval env b = Inr w"
    "e_dtype a = e_dtype b" "e_dtype b \<in> set (sints @ [dt_weakint])" "in_dt (e_dtype b) w" "w \<noteq> 0"
    by (auto simp: floor_operands_def)
  note sr = signed_range [OF ab(6)]
  let ?dt = "e_dtype b"
  have cd: "ieval env (alu BCDIV a b) = Inr (cdiv u w)" by (rule alu_eval [OF ab(3,4)]) (use sr q(2) in auto)
  have cm: "ieval env (alu BCMOD a b) = Inr (cmod u w)"
    by (rule alu_eval [OF ab(3,4)]) (use sr cmod_in_dt [OF ab(6-8)] in auto)
  from e obtain same where same: "same_sign a b = Inr same" by (auto simp: floordiv_to_idiv_def rbind_eq_Inr)
  show ?thesis
  proof (cases same)
    case True
    with same_sign_values [OF _ ab(1,3,2,4)] same have "u div w = cdiv u w" using div_from_cdiv [OF ab(8)] by simp
    with True e same cd show ?thesis by (simp add: floordiv_to_idiv_def)
  next
    case False
    let ?f = "e_cast (e_dtype a) (alu BAND (alu BCMPNE (alu BCMOD a b) (const_like (alu BCMOD a b) 0)) (signs_differ a b))"
    have f: "ieval env ?f = Inr (of_bool (needs_fix u w))"
      by (rule cast_eval [OF fix_eval [OF ab(3,4) cm]]) (use sr ab(5) in \<open>auto simp: in_dt_def\<close>)
    have n: "ieval env (e_neg ?f) = Inr (- of_bool (needs_fix u w))" unfolding e_neg_def
      by (rule alu_eval [OF f, of _ "-1"]) (use sr ab(5) in \<open>auto simp: in_dt_def\<close>)
    have "ieval env (e_sub (alu BCDIV a b) ?f) = Inr (u div w)" unfolding e_sub_def
      by (rule alu_eval [OF cd n]) (use sr ab(5) q(1) div_from_cdiv [OF ab(8)] in \<open>auto simp: e_neg_def\<close>)
    with False e same show ?thesis by (simp add: floordiv_to_idiv_def Let_def)
  qed
qed

lemma floormod_lowered:
  assumes ops: "floor_operands env a b u w" and e: "floormod_to_mod a b = Inr e"
  shows "ieval env e = Inr (u mod w)"
proof -
  from ops have ab: "admissible env a" "admissible env b" "ieval env a = Inr u" "ieval env b = Inr w"
    "e_dtype a = e_dtype b" "e_dtype b \<in> set (sints @ [dt_weakint])" "in_dt (e_dtype b) w" "w \<noteq> 0"
    by (auto simp: floor_operands_def)
  note sr = signed_range [OF ab(6)]
  have cm: "ieval env (alu BCMOD a b) = Inr (cmod u w)"
    by (rule alu_eval [OF ab(3,4)]) (use sr cmod_in_dt [OF ab(6-8)] in auto)
  from e obtain same where same: "same_sign a b = Inr same" by (auto simp: floormod_to_mod_def rbind_eq_Inr)
  show ?thesis
  proof (cases same)
    case True
    with same_sign_values [OF _ ab(1,3,2,4)] same have "u mod w = cmod u w" using mod_from_cmod [OF ab(8)] by simp
    with True e same cm show ?thesis by (simp add: floormod_to_mod_def)
  next
    case False
    let ?c = "alu BAND (alu BCMPNE (alu BCMOD a b) (const_like (alu BCMOD a b) 0)) (signs_differ a b)"
    let ?w = "e_where ?c b (const_like b 0)"
    have "ieval env ?w = Inr (truncated (e_dtype b) (if needs_fix u w then w else 0))"
      using fix_eval [OF ab(3,4) cm] ab(4) by (simp add: e_where_def)
    also have "truncated (e_dtype b) (if needs_fix u w then w else 0) = (if needs_fix u w then w else 0)"
      by (rule truncated_in_range) (use sr ab(7) in \<open>auto simp: in_dt_def\<close>)
    finally have wv: "ieval env ?w = Inr (if needs_fix u w then w else 0)" .
    have "ieval env (alu BADD (alu BCMOD a b) ?w) = Inr (u mod w)"
      by (rule alu_eval [OF cm wv])
        (use sr mod_from_cmod [OF ab(8)] cmod_in_dt [OF ab(6-8)] in \<open>auto simp: e_where_def\<close>)
    with False e same show ?thesis by (simp add: floormod_to_mod_def Let_def)
  qed
qed

section \<open>Properties\<close>

lemma fast_idiv_total:
  "0 < d \<Longrightarrow> idiv_operand env x v \<Longrightarrow> \<exists>r. fast_idiv supported dc x d = Inr r"
proof (induction "nat d" arbitrary: dc x d v rule: less_induct)
  case less
  from idiv_operandD [OF less(3)] obtain a b where m: "min_max x = Inr (a, b)" "0 \<le> a" "a \<le> v" "v \<le> b"
    "int_like (e_dtype x)" "in_dt (e_dtype x) v" by blast
  obtain lo hi where c: "clipped x = Inr (lo, hi)" by (simp add: clipped_def m(1))
  have b: "0 \<le> lo \<and> lo \<le> hi" using clippedD [OF c m(1)] m dt_range_zero [OF m(5)] by (simp add: in_dt_def)
  show ?case
  proof (cases "- d < lo \<and> hi < d")
    case True
    with less(2) show ?thesis by (simp add: fast_idiv.simps [of supported dc x d] m(1) c)
  next
    case False
    with b less(2) have "d \<le> max hi \<bar>lo\<bar> + 1" "0 \<le> max hi \<bar>lo\<bar>" by auto
    then obtain k s where ks: "magicgu (max hi \<bar>lo\<bar>) d = Inr (k, s)" using magicgu_total less(2) by blast
    have f: "0 < two_factor d" using two_factor_dvd [OF less(2)] by simp
    have rec: "\<exists>r. fast_idiv supported True (alu BCDIV x (const_like x (two_factor d))) (d div two_factor d) = Inr r"
      if "1 < two_factor d"
    proof (rule less(1))
      show "nat (d div two_factor d) < nat d" using that less(2) by (auto simp: int_div_less_self nat_less_iff)
      show "0 < d div two_factor d" using two_factor_dvd [OF less(2)] less(2) by (auto simp: pos_imp_zdiv_pos_iff zdvd_imp_le)
      show "idiv_operand env (alu BCDIV x (const_like x (two_factor d))) (v div two_factor d)"
        by (rule shifted_operand [OF less(3) f])
    qed
    with less(2) False show ?thesis
      by (auto simp: fast_idiv.simps [of supported dc x d] m(1) c ks Let_def split: option.splits)
  qed
qed

text \<open>Property C36. Division by a positive constant through multiply and shift is exact: on an operand the analysis knows to be non-negative the search for a multiplier never fails, and whatever expression \<open>fast_idiv\<close> returns (zero, multiply and shift, a smaller division after removing powers of two, or the same in a wider type) evaluates to the truncating quotient.\<close>

theorem fast_idiv_divides:
  assumes "0 < d" and "idiv_operand env x v"
  shows "case fast_idiv supported dont_cast x d of Inl _ \<Rightarrow> False | Inr None \<Rightarrow> True | Inr (Some e) \<Rightarrow> ieval env e = Inr (cdiv v d)"
proof -
  from fast_idiv_total [OF assms] obtain r where r: "fast_idiv supported dont_cast x d = Inr r" by blast
  show ?thesis
  proof (cases r)
    case (Some e)
    have "0 \<le> v" using idiv_operandD [OF assms(2)] by blast
    with Some fast_idiv_exact [OF _ assms(2)] r assms(1) show ?thesis by (simp add: cdiv_nonneg)
  qed (simp add: r)
qed

text \<open>\<open>x // 7\<close> for a 32-bit \<open>x\<close> in 0..1000 at \<open>x = 999\<close>.\<close>

definition sample_dividend :: iexpr where
  "sample_dividend = IVAR dt_int32 ''x'' 0 1000"

definition dividend_env :: ienv where
  "dividend_env = \<lparr> var_val = (\<lambda>_. 999), range_val = (\<lambda>_. 0), leaf_val = (\<lambda>_. 0) \<rparr>"

lemma fast_idiv_divides_witness:
  "\<exists>e. fast_idiv [] False sample_dividend 7 = Inr (Some e) \<and> ieval dividend_env e = Inr 142"
proof -
  have op: "idiv_operand dividend_env sample_dividend 999" and q: "cdiv 999 7 = 142" by code_simp+
  have "case fast_idiv [] False sample_dividend 7 of Inr (Some e) \<Rightarrow> True | _ \<Rightarrow> False" by code_simp
  then obtain e where e: "fast_idiv [] False sample_dividend 7 = Inr (Some e)" by (auto split: sum.splits option.splits)
  have "0 < (7 :: int)" by simp
  from fast_idiv_divides [OF this op, of "[]" False] e q show ?thesis by simp
qed

text \<open>The comment of \<open>magicgu\<close> promises exactness for every positive divisor; it needs \<open>d \<le> vmax + 1\<close>, which its caller ensures.\<close>

lemma magicgu_large_divisor: "magicgu 3 5 = Inr (1, 0) \<and> 3 * 1 div 2 ^ 0 \<noteq> (3 :: int) div 5"
proof -
  have "magicgu 3 5 = Inr (1, 0)" by code_simp
  then show ?thesis by simp
qed

text \<open>Property C37. Floor division and floor remainder keep their value when they are lowered to the truncating operations, whatever the signs of the operands, as long as the quotients themselves fit the type.\<close>

theorem floor_lowering_exact:
  assumes "floor_operands env a b u w" and "in_dt (e_dtype b) (u div w)" and "in_dt (e_dtype b) (cdiv u w)"
    and "floordiv_to_idiv a b = Inr e" and "floormod_to_mod a b = Inr f"
  shows "ieval env e = Inr (floordiv u w) \<and> ieval env f = Inr (floormod u w)"
proof -
  have "floordiv u w = u div w" "floormod u w = u mod w"
    using assms(1) by (simp_all add: floor_operands_def floordiv_def floormod_def minus_div_mult_eq_mod)
  with floordiv_lowered [OF assms(1,4,2,3)] floormod_lowered [OF assms(1,5)] show ?thesis by simp
qed

lemma floor_lowering_exact_witness:
  "\<exists>e f. floordiv_to_idiv (IVAR dt_int32 ''a'' (-100) 100) (IVAR dt_int32 ''b'' (-9) 9) = Inr e
     \<and> floormod_to_mod (IVAR dt_int32 ''a'' (-100) 100) (IVAR dt_int32 ''b'' (-9) 9) = Inr f
     \<and> ieval (dividend_env\<lparr>var_val := (\<lambda>n. if n = ''a'' then 7 else -2)\<rparr>) e = Inr (-4)
     \<and> ieval (dividend_env\<lparr>var_val := (\<lambda>n. if n = ''a'' then 7 else -2)\<rparr>) f = Inr (-1)"
proof -
  let ?a = "IVAR dt_int32 ''a'' (-100) 100" and ?b = "IVAR dt_int32 ''b'' (-9) 9"
  let ?env = "dividend_env\<lparr>var_val := (\<lambda>n. if n = ''a'' then 7 else -2)\<rparr>"
  have ops: "floor_operands ?env ?a ?b 7 (-2)" by code_simp
  have q: "in_dt (e_dtype ?b) (7 div -2)" "in_dt (e_dtype ?b) (cdiv 7 (-2))"
    and v: "floordiv 7 (-2) = -4" "floormod 7 (-2) = -1" by code_simp+
  have "rok (floordiv_to_idiv ?a ?b)" "rok (floormod_to_mod ?a ?b)" by code_simp+
  then obtain e f where ef: "floordiv_to_idiv ?a ?b = Inr e" "floormod_to_mod ?a ?b = Inr f" by (auto simp: rok_iff)
  from floor_lowering_exact [OF ops q ef] ef v show ?thesis by auto
qed

end
