(* ===== verification/Long32.thy ===== *)
theory Long32
  imports "HOL-Library.Word" "HOL-Library.Signed_Division"
begin

text \<open>
  64-bit integers on 32-bit hardware and the counter-based random generator, both from
  \<open>src/tinygrad/uop/decompositions.py\<close>: \<open>l2i\<close> replaces an operation on \<open>long\<close> or \<open>ulong\<close> by operations on
  the low and the high half, \<open>threefry2x32\<close> mixes two counters under a key.  The UOps they build are
  read as the word operations they stand for: the data type \<open>dtypes.int\<close> (\<open>sg\<close> true) or
  \<open>dtypes.uint\<close> of a half only matters where the operation looks at the sign, in comparisons and in the
  floor division that \<open>shr\<close> stands for.  Shift counts are constants, as \<open>shl\<close> and \<open>shr\<close> require.
\<close>

unbundle bit_operations_syntax

type_synonym half = "32 word"
type_synonym halves = "half \<times> half"

section \<open>Shifts by multiplication and floor division\<close>

definition shl :: "half \<Rightarrow> nat \<Rightarrow> half" where
  "shl x n = x * 2 ^ n"

definition shr :: "bool \<Rightarrow> half \<Rightarrow> nat \<Rightarrow> half" where
  "shr sg x n = (if sg then signed_drop_bit n x else drop_bit n x)"

definition unpack32 :: "half \<Rightarrow> halves" where
  "unpack32 v = (v AND 0xFFFF, shr False v 16)"

section \<open>Operations on halves\<close>

definition l2i_add :: "halves \<Rightarrow> halves \<Rightarrow> halves" where
  "l2i_add = (\<lambda>(a0, a1) (b0, b1). let low = a0 + b0 in (low, a1 + b1 + of_bool (low < a0)))"

definition l2i_sub :: "halves \<Rightarrow> halves \<Rightarrow> halves" where
  "l2i_sub = (\<lambda>(a0, a1) (b0, b1). (a0 - b0, a1 - b1 - of_bool (a0 < b0)))"

definition l2i_neg :: "halves \<Rightarrow> halves" where
  "l2i_neg a = l2i_sub (0, 0) a"

definition l2i_cast_int :: "bool \<Rightarrow> half \<Rightarrow> halves" where
  "l2i_cast_int sg x = (x, if sg \<and> x <s 0 then -1 else 0)"

definition l2i_shl :: "bool \<Rightarrow> halves \<Rightarrow> nat \<Rightarrow> halves" where
  "l2i_shl sg = (\<lambda>(a0, a1) n. let m = n mod 32; lo = shl a0 m; hi = shl a1 m OR shr sg (shr sg a0 1) (31 - m) in
     (if 32 \<le> n then 0 else lo, if 32 \<le> n then lo else hi))"

definition l2i_shr :: "bool \<Rightarrow> halves \<Rightarrow> nat \<Rightarrow> halves" where
  "l2i_shr sg = (\<lambda>(a0, a1) n. let m = n mod 32; lo = shr sg a0 m OR shl (shl a1 1) (31 - m); hi = shr sg a1 m in
     (if 32 \<le> n then hi else lo, if 32 \<le> n then 0 else hi))"

definition l2i_mul :: "halves \<Rightarrow> halves \<Rightarrow> halves" where
  "l2i_mul = (\<lambda>(a0, a1) (b0, b1).
     let (a00, a01) = unpack32 a0; (b00, b01) = unpack32 b0;
         mid = l2i_add (shl (a00 * b01) 16, shr False (a00 * b01) 16) (shl (a01 * b00) 16, shr False (a01 * b00) 16)
     in l2i_add mid (a00 * b00, a01 * b01 + a0 * b1 + a1 * b0))"

definition l2i_cmplt :: "bool \<Rightarrow> halves \<Rightarrow> halves \<Rightarrow> bool" where
  "l2i_cmplt sg = (\<lambda>(a0, a1) (b0, b1). (if sg then a1 <s b1 else a1 < b1) \<or> (a1 = b1 \<and> a0 < b0))"

definition l2i_cmpeq :: "halves \<Rightarrow> halves \<Rightarrow> bool" where
  "l2i_cmpeq = (\<lambda>(a0, a1) (b0, b1). a0 = b0 \<and> a1 = b1)"

definition l2i_cmpne :: "halves \<Rightarrow> halves \<Rightarrow> bool" where
  "l2i_cmpne = (\<lambda>(a0, a1) (b0, b1). a0 \<noteq> b0 \<or> a1 \<noteq> b1)"

definition l2i_bitwise :: "(half \<Rightarrow> half \<Rightarrow> half) \<Rightarrow> halves \<Rightarrow> halves \<Rightarrow> halves" where
  "l2i_bitwise f = (\<lambda>(a0, a1) (b0, b1). (f a0 b0, f a1 b1))"

definition l2i_where :: "bool \<Rightarrow> halves \<Rightarrow> halves \<Rightarrow> halves" where
  "l2i_where c a b = (if c then fst a else fst b, if c then snd a else snd b)"

definition l2i_max :: "bool \<Rightarrow> halves \<Rightarrow> halves \<Rightarrow> halves" where
  "l2i_max sg a b = l2i_where (l2i_cmplt sg a b) b a"

section \<open>Division\<close>

text \<open>One round of the restoring division, for bit \<open>i\<close>; the state is the quotient and the remainder.\<close>

definition div_round :: "halves \<Rightarrow> halves \<Rightarrow> nat \<Rightarrow> halves \<times> halves \<Rightarrow> halves \<times> halves" where
  "div_round a b i = (\<lambda>(q, r).
     let r1 = l2i_shl False r 1;
         r2 = (fst r1 OR (fst (l2i_shr False a i) AND 1), snd r1);
         cond = (\<not> l2i_cmplt False r2 b);
         diff = l2i_sub r2 b;
         bit = shl (of_bool cond) (i mod 32);
         q' = (if i < 32 then (fst q OR bit, snd q) else (fst q, snd q OR bit))
     in (q', l2i_where cond diff r2))"

definition udivmod :: "halves \<Rightarrow> halves \<Rightarrow> halves \<times> halves" where
  "udivmod a b = fold (div_round a b) (rev [0..<64]) ((0, 0), (0, 0))"

definition sign_of :: "halves \<Rightarrow> bool" where
  "sign_of a = (snd a <s 0)"

definition l2i_cdiv :: "bool \<Rightarrow> halves \<Rightarrow> halves \<Rightarrow> halves" where
  "l2i_cdiv sg a b = (if sg
     then let q = fst (udivmod (l2i_where (sign_of a) (l2i_neg a) a) (l2i_where (sign_of b) (l2i_neg b) b))
          in l2i_where (sign_of a \<noteq> sign_of b) (l2i_neg q) q
     else fst (udivmod a b))"

definition l2i_cmod :: "bool \<Rightarrow> halves \<Rightarrow> halves \<Rightarrow> halves" where
  "l2i_cmod sg a b = (if sg
     then let r = snd (udivmod (l2i_where (sign_of a) (l2i_neg a) a) (l2i_where (sign_of b) (l2i_neg b) b))
          in l2i_where (sign_of a) (l2i_neg r) r
     else snd (udivmod a b))"

section \<open>Threefry\<close>

definition rotl :: "half \<Rightarrow> nat \<Rightarrow> half" where
  "rotl x r = x * 2 ^ r + x div 2 ^ (32 - r)"

definition rotations :: "nat \<Rightarrow> nat list" where
  "rotations i = (if i mod 2 = 0 then [13, 15, 26, 6] else [17, 29, 16, 24])"

definition mix :: "nat \<Rightarrow> halves \<Rightarrow> halves" where
  "mix r = (\<lambda>(x0, x1). let s = x0 + x1 in (s, s XOR rotl x1 r))"

definition key_schedule :: "halves \<Rightarrow> nat \<Rightarrow> half" where
  "key_schedule key k = [snd key, (fst key XOR snd key) XOR 0x1BD11BDA, fst key] ! (k mod 3)"

definition inject_key :: "halves \<Rightarrow> nat \<Rightarrow> halves \<Rightarrow> halves" where
  "inject_key key i = (\<lambda>(x0, x1). (x0 + key_schedule key i, x1 + key_schedule key (i + 1) + of_nat i + 1))"

definition threefry_round :: "halves \<Rightarrow> nat \<Rightarrow> halves \<Rightarrow> halves" where
  "threefry_round key i x = inject_key key i (fold mix (rotations i) x)"

definition split64 :: "64 word \<Rightarrow> halves" where
  "split64 x = (ucast (x AND 0xFFFFFFFF), ucast (x div 2 ^ 32 AND 0xFFFFFFFF))"

definition threefry2x32 :: "64 word \<Rightarrow> 64 word \<Rightarrow> 64 word" where
  "threefry2x32 x key =
     (let k = split64 key; x' = split64 x;
          r = fold (threefry_round k) [0..<5] (fst x' + key_schedule k 2, snd x' + key_schedule k 0)
      in (ucast (snd r) * 2 ^ 32) OR ucast (fst r))"

end
