(* ===== verification/Long32Spec.thy ===== *)
theory Long32Spec
  imports Long32 Helpers
begin

text \<open>
  The operations on halves are the operations of the 64-bit number they stand for (\<open>joined\<close>): bit by bit
  for shifts and bit operations, in the ring of 64-bit words for sums and products, on the signed and
  unsigned values for comparisons, and by an invariant over the 64 rounds for division.  The random
  generator is injective under every key because every step of it is.
\<close>

unbundle bit_operations_syntax

section \<open>Two halves as one 64-bit word\<close>

definition joined :: "halves \<Rightarrow> 64 word" where
  "joined a = ucast (fst a) OR push_bit 32 (ucast (snd a))"

lemma bit_joined: "bit (joined a) n = (if n < 32 then bit (fst a) n else n < 64 \<and> bit (snd a) (n - 32))"
  by (auto simp: joined_def bit_simps dest: bit_imp_le_length)

lemma joined_add: "joined a = ucast (fst a) + 2 ^ 32 * ucast (snd a)"
proof -
  have "ucast (fst a) OR push_bit 32 (ucast (snd a)) = ucast (fst a) + push_bit 32 (ucast (snd a) :: 64 word)"
    by (rule disjunctive_add [symmetric]) (auto simp: bit_simps dest: bit_imp_le_length)
  then show ?thesis by (simp add: joined_def push_bit_eq_mult mult.commute)
qed

lemma uint_joined: "uint (joined a) = uint (fst a) + 2 ^ 32 * uint (snd a)"
proof -
  have "0 \<le> uint (fst a)" "uint (fst a) < 2 ^ 32" "0 \<le> uint (snd a)" "uint (snd a) < 2 ^ 32"
    using uint_bounded [of "fst a"] uint_bounded [of "snd a"] by simp_all
  then show ?thesis
    by (simp add: joined_add uint_word_ariths uint_up_ucast is_up)
qed

lemma joined_inject: "joined a = joined b \<longleftrightarrow> a = b"
proof
  assume e: "joined a = joined b"
  have "fst a = fst b" "snd a = snd b"
  proof (rule bit_word_eqI)
    fix n assume "n < LENGTH(32)" then show "bit (fst a) n = bit (fst b) n"
      using bit_joined [of a n] bit_joined [of b n] e by simp
  next
    show "snd a = snd b"
    proof (rule bit_word_eqI)
      fix n assume "n < LENGTH(32)" then show "bit (snd a) n = bit (snd b) n"
        using bit_joined [of a "n + 32"] bit_joined [of b "n + 32"] e by simp
    qed
  qed
  then show "a = b" by (simp add: prod_eq_iff)
qed simp

lemma hi_cong: "k mod 2 ^ 32 = l mod 2 ^ 32 \<Longrightarrow> 2 ^ 32 * word_of_int k = (2 ^ 32 * word_of_int l :: 64 word)"
proof -
  assume a: "k mod 2 ^ 32 = l mod (2 ^ 32 :: int)"
  have m: "take_bit 64 (2 ^ 32 * z) = 2 ^ 32 * (z mod 2 ^ 32)" for z :: int
    by (simp add: take_bit_eq_mod mult_mod_right)
  have "word_of_int (2 ^ 32 * k) = (word_of_int (2 ^ 32 * l) :: 64 word)"
    unfolding word_of_int_eq_iff using a by (simp only: m len_num0 len_num1 len_bit0 len_bit1 len_of_numeral_defs) (simp add: m [simplified])
  then show ?thesis by simp
qed

lemma ucast_int: "ucast x = (word_of_int (uint x) :: 64 word)" for x :: half
  by (rule ucast_eq)

lemma hi_add: "2 ^ 32 * ucast (x + y) = (2 ^ 32 * (ucast x + ucast y) :: 64 word)" for x y :: half
  unfolding ucast_int wi_homs by (rule hi_cong) (simp add: uint_word_ariths)

lemma hi_sub: "2 ^ 32 * ucast (x - y) = (2 ^ 32 * (ucast x - ucast y) :: 64 word)" for x y :: half
  unfolding ucast_int wi_homs by (rule hi_cong) (simp add: uint_word_ariths)

lemma hi_mul: "2 ^ 32 * ucast (x * y) = (2 ^ 32 * (ucast x * ucast y) :: 64 word)" for x y :: half
  unfolding ucast_int wi_homs by (rule hi_cong) (simp add: uint_word_ariths)

lemma lo_add: "ucast (x + y) = (ucast x + ucast y - 2 ^ 32 * of_bool (x + y < x) :: 64 word)" for x y :: half
proof -
  have b: "0 \<le> uint x" "uint x < 2 ^ 32" "0 \<le> uint y" "uint y < 2 ^ 32"
    using uint_bounded [of x] uint_bounded [of y] by simp_all
  have "uint (x + y) = uint x + uint y - 2 ^ 32 * of_bool (x + y < x)"
    using b by (auto simp: uint_plus_if' word_less_def split: if_splits)
  then have "ucast (x + y) = (word_of_int (uint x + uint y - 2 ^ 32 * of_bool (x + y < x)) :: 64 word)"
    unfolding ucast_int by simp
  also have "\<dots> = ucast x + ucast y - 2 ^ 32 * of_bool (x + y < x)"
    unfolding ucast_int by (cases "x + y < x") simp_all
  finally show ?thesis .
qed

lemma lo_sub: "ucast (x - y) = (ucast x - ucast y + 2 ^ 32 * of_bool (x < y) :: 64 word)" for x y :: half
proof -
  have b: "0 \<le> uint x" "uint x < 2 ^ 32" "0 \<le> uint y" "uint y < 2 ^ 32"
    using uint_bounded [of x] uint_bounded [of y] by simp_all
  have "uint (x - y) = uint x - uint y + 2 ^ 32 * of_bool (x < y)"
    using b by (auto simp: uint_sub_if' word_less_def split: if_splits)
  then have "ucast (x - y) = (word_of_int (uint x - uint y + 2 ^ 32 * of_bool (x < y)) :: 64 word)"
    unfolding ucast_int by simp
  also have "\<dots> = ucast x - ucast y + 2 ^ 32 * of_bool (x < y)"
    unfolding ucast_int by (cases "x < y") simp_all
  finally show ?thesis .
qed

lemma hi_bool: "ucast (of_bool c :: half) = (of_bool c :: 64 word)"
  by (cases c) simp_all

lemma add_joined: "joined (l2i_add a b) = joined a + joined b"
  by (cases a; cases b) (simp add: l2i_add_def joined_add Let_def hi_add lo_add hi_bool distrib_left)

lemma sub_joined: "joined (l2i_sub a b) = joined a - joined b"
  by (cases a; cases b) (simp add: l2i_sub_def joined_add Let_def hi_sub lo_sub hi_bool right_diff_distrib)

lemma neg_joined: "joined (l2i_neg a) = - joined a"
proof -
  have "joined (0, 0) = 0" by (simp add: joined_def)
  then show ?thesis by (simp add: l2i_neg_def sub_joined)
qed

lemma bitwise_joined:
  "joined (l2i_bitwise (AND) a b) = (joined a AND joined b)"
  "joined (l2i_bitwise (OR) a b) = (joined a OR joined b)"
  "joined (l2i_bitwise (XOR) a b) = (joined a XOR joined b)"
  by (rule bit_word_eqI, cases a, cases b, simp add: bit_joined l2i_bitwise_def bit_simps)+

lemma bit_shl: "bit (shl x n) m = (n \<le> m \<and> m < 32 \<and> bit x (m - n))"
proof -
  have "shl x n = push_bit n x" by (simp add: shl_def push_bit_eq_mult)
  then show ?thesis by (auto simp: bit_simps)
qed

lemma bit_shr: "bit (shr False x n) m = bit x (n + m)"
  by (simp add: shr_def bit_simps)

lemma bit_high: "32 \<le> n \<Longrightarrow> \<not> bit (x :: half) n"
  by (auto dest: bit_imp_le_length)

lemma shl_joined: "n < 64 \<Longrightarrow> joined (l2i_shl False a n) = push_bit n (joined a)"
proof (cases a, rule bit_word_eqI)
  fix a0 a1 m assume a: "a = (a0, a1)" and n: "n < 64" and "m < LENGTH(64)"
  then have m: "m < 64" by simp
  show "bit (joined (l2i_shl False a n)) m = bit (push_bit n (joined a)) m"
  proof (cases "32 \<le> n")
    case True
    then have "n mod 32 = n - 32" using n by (simp add: mod_if)
    then show ?thesis using True m by (auto simp: a l2i_shl_def bit_joined bit_shl bit_high Let_def bit_simps)
  next
    case False
    have "bit (joined (l2i_shl False a n)) m = (if m < 32 then n \<le> m \<and> bit a0 (m - n)
        else n \<le> m - 32 \<and> bit a1 (m - 32 - n) \<or> bit a0 (1 + (31 - n + (m - 32))))"
      using False m by (auto simp: a l2i_shl_def bit_joined bit_shl bit_shr bit_high Let_def bit_simps)
    moreover have "1 + (31 - n + (m - 32)) = m - n" if "\<not> m < 32" using False that by simp
    moreover have "m - 32 - n = m - n - 32" by simp
    ultimately show ?thesis using False m
      by (cases "m - n < 32") (auto simp: a bit_joined bit_high bit_simps)
  qed
qed

lemma shr_joined: "n < 64 \<Longrightarrow> joined (l2i_shr False a n) = drop_bit n (joined a)"
proof (cases a, rule bit_word_eqI)
  fix a0 a1 m assume a: "a = (a0, a1)" and n: "n < 64" and "m < LENGTH(64)"
  then have m: "m < 64" by simp
  show "bit (joined (l2i_shr False a n)) m = bit (drop_bit n (joined a)) m"
  proof (cases "32 \<le> n")
    case True
    then have "n mod 32 = n - 32" using n by (simp add: mod_if)
    moreover have "n - 32 + m = n + m - 32" using True by simp
    moreover have "32 \<le> n + m - 32 \<or> n + m < 64" by linarith
    ultimately show ?thesis using True m by (auto simp: a l2i_shr_def bit_joined bit_high Let_def bit_simps bit_shr)
  next
    case False
    have "bit (joined (l2i_shr False a n)) m = (if m < 32 then bit a0 (n + m) \<or> 32 \<le> m + n \<and> bit a1 (n + m - 32)
        else bit a1 (n + (m - 32)))"
      using False m by (auto simp: a l2i_shr_def bit_joined bit_shl bit_shr bit_high Let_def bit_simps ac_simps)
    moreover have "n + (m - 32) = n + m - 32" if "\<not> m < 32" using that by simp
    moreover have "32 \<le> n + m - 32 \<or> n + m < 64" by linarith
    ultimately show ?thesis using False m
      by (cases "n + m < 32") (auto simp: a bit_joined bit_high bit_simps)
  qed
qed

section \<open>Multiplication\<close>

lemma unpack32_parts: "fst (unpack32 x) = take_bit 16 x" "snd (unpack32 x) = drop_bit 16 x"
proof -
  have "(0xFFFF :: half) = mask 16" by (simp add: mask_eq_exp_minus_1)
  then show "fst (unpack32 x) = take_bit 16 x" by (simp only: unpack32_def fst_conv take_bit_eq_mask)
  show "snd (unpack32 x) = drop_bit 16 x" by (simp add: unpack32_def shr_def)
qed

lemma unpack32_sum:
  "ucast x = (ucast (fst (unpack32 x)) + 2 ^ 16 * ucast (snd (unpack32 x)) :: 64 word)"
proof -
  have "ucast x = (ucast (fst (unpack32 x)) OR push_bit 16 (ucast (snd (unpack32 x))) :: 64 word)"
    by (rule bit_word_eqI)
      (auto simp: unpack32_parts bit_simps dest: bit_imp_le_length)
  also have "\<dots> = ucast (fst (unpack32 x)) + push_bit 16 (ucast (snd (unpack32 x)))"
    by (rule disjunctive_add [symmetric]) (auto simp: unpack32_parts bit_simps)
  finally show ?thesis by (simp add: push_bit_eq_mult mult.commute)
qed

lemma unpack32_small: "uint (fst (unpack32 x)) < 2 ^ 16" "uint (snd (unpack32 x)) < 2 ^ 16"
proof -
  show "uint (fst (unpack32 x)) < 2 ^ 16"
    using take_bit_int_less_exp [of 16 "uint x"] by (simp only: unpack32_parts unsigned_take_bit_eq)
  have "drop_bit 16 (take_bit 32 (uint x)) < 2 ^ 16"
    by (simp only: drop_bit_take_bit) (use take_bit_int_less_exp [of 16 "drop_bit 16 (uint x)"] in simp)
  then show "uint (snd (unpack32 x)) < 2 ^ 16"
    unfolding unpack32_parts by (simp only: unsigned_drop_bit_eq len_of_numeral_defs len_num1 len_num0 len_bit0) simp
qed

lemma small_product: "uint u < 2 ^ 16 \<Longrightarrow> uint v < 2 ^ 16 \<Longrightarrow> ucast (u * v) = (ucast u * ucast v :: 64 word)" for u v :: half
proof -
  assume b: "uint u < 2 ^ 16" "uint v < 2 ^ 16"
  have "uint u * uint v < 2 ^ 16 * 2 ^ 16" using b by (intro mult_strict_mono) auto
  then have "uint (u * v) = uint u * uint v" by (simp add: uint_word_ariths)
  then show ?thesis by (simp only: ucast_int wi_homs)
qed

lemma middle_product: "joined (shl p 16, shr False p 16) = 2 ^ 16 * ucast p"
proof -
  have "joined (shl p 16, shr False p 16) = push_bit 16 (ucast p)"
    by (rule bit_word_eqI) (auto simp: bit_joined bit_shl bit_shr bit_simps bit_high)
  then show ?thesis by (simp add: push_bit_eq_mult mult.commute)
qed

lemma half_products:
  fixes s h :: "64 word"
  assumes "s * s = h" "h * h = 0" "s * h = z" "z * s = 0"
  shows "(u + s * v + h * y) * (u' + s * v' + h * y') =
    s * (u * v') + s * (v * u') + (u * u' + h * (v * v' + (u + s * v) * y' + y * (u' + s * v')))"
proof -
  have [simp]: "s * (s * x) = h * x" "h * (h * x) = 0" for x using assms by (simp_all flip: mult.assoc)
  show ?thesis by (simp add: algebra_simps)
qed

lemma mul_joined: "joined (l2i_mul a b) = joined a * joined b"
proof -
  obtain a0 a1 b0 b1 where ab: "a = (a0, a1)" "b = (b0, b1)" by (cases a; cases b)
  obtain u v u' v' where un: "unpack32 a0 = (u, v)" "unpack32 b0 = (u', v')" by (cases "unpack32 a0"; cases "unpack32 b0")
  note sm = unpack32_small [of a0, unfolded un fst_conv snd_conv] unpack32_small [of b0, unfolded un fst_conv snd_conv]
  have a0: "ucast a0 = (ucast u + 2 ^ 16 * ucast v :: 64 word)" "ucast b0 = (ucast u' + 2 ^ 16 * ucast v' :: 64 word)"
    using unpack32_sum [of a0] unpack32_sum [of b0] un by simp_all
  have "joined (l2i_mul a b) = 2 ^ 16 * (ucast u * ucast v') + 2 ^ 16 * (ucast v * ucast u')
      + (ucast u * ucast u' + 2 ^ 32 * (ucast v * ucast v' + ucast a0 * ucast b1 + ucast a1 * ucast b0))"
    unfolding ab un l2i_mul_def prod.case Let_def add_joined middle_product
    using sm by (simp add: small_product hi_add hi_mul hi_add [simplified] hi_mul [simplified] distrib_left joined_add)
  also have "\<dots> = joined a * joined b"
    unfolding ab joined_add fst_conv snd_conv a0
    by (rule half_products [symmetric, where z = "2 ^ 48"]) simp_all
  finally show ?thesis .
qed

section \<open>Comparisons\<close>

lemma uint_half: "0 \<le> uint x" "uint x < 2 ^ 32" for x :: half
  using uint_bounded [of x] by simp_all

lemma sint_by_bit: "sint w = uint w - 2 ^ LENGTH('a) * of_bool (bit w (LENGTH('a) - 1))" for w :: "'a :: len word"
proof -
  have "take_bit LENGTH('a) (uint w) = uint w" by transfer simp
  then show ?thesis using signed_take_bit_eq_take_bit_minus [of "LENGTH('a) - 1" "uint w"]
    by (simp add: sint_uint bit_uint_iff)
qed

lemma sint_joined: "sint (joined a) = uint (fst a) + 2 ^ 32 * sint (snd a)"
  by (simp add: sint_by_bit uint_joined bit_joined)

lemma split_less:
  fixes x y u v :: int
  assumes "0 \<le> x" "x < m" "0 \<le> y" "y < m"
  shows "x + m * u < y + m * v \<longleftrightarrow> u < v \<or> u = v \<and> x < y"
proof -
  have less: "x + m * u < y + m * v" if "u < v" "x < m" "0 \<le> x" "0 \<le> y" for x y u v :: int
  proof -
    have "m * (u + 1) \<le> m * v" using that by (intro mult_left_mono) auto
    then show ?thesis using that by (simp add: distrib_left)
  qed
  show ?thesis using assms less [of u v x y] less [of v u y x] by (cases u v rule: linorder_cases) auto
qed

lemma cmplt_joined: "l2i_cmplt sg a b = (if sg then joined a <s joined b else joined a < joined b)"
  using split_less [OF uint_half [of "fst a"] uint_half [of "fst b"], of "uint (snd a)" "uint (snd b)"]
    split_less [OF uint_half [of "fst a"] uint_half [of "fst b"], of "sint (snd a)" "sint (snd b)"]
    signed_word_eqI [of "snd a" "snd b"] word_uint_eqI [of "snd a" "snd b"]
  by (cases a; cases b) (auto simp: l2i_cmplt_def word_sless_alt word_less_def sint_joined uint_joined)

lemma cmpeq_joined: "l2i_cmpeq a b \<longleftrightarrow> joined a = joined b" "l2i_cmpne a b \<longleftrightarrow> joined a \<noteq> joined b"
  by (auto simp: joined_inject l2i_cmpeq_def l2i_cmpne_def split: prod.splits)

lemma where_joined: "joined (l2i_where c a b) = (if c then joined a else joined b)"
  by (simp add: l2i_where_def)

lemma max_joined:
  "joined (l2i_max True a b) = (if joined a <s joined b then joined b else joined a)"
  "joined (l2i_max False a b) = max (joined a) (joined b)"
  by (simp_all add: l2i_max_def where_joined cmplt_joined max_def) (use linorder_less_linear in fastforce)

lemma negative_bit: "x <s 0 \<longleftrightarrow> bit x 31" for x :: half
  using bit_last_iff [of x] by (simp add: word_sless_alt)

lemma cast_joined: "joined (l2i_cast_int sg x) = (if sg then scast x else ucast x)"
proof (rule bit_word_eqI)
  fix n assume "n < LENGTH(64)"
  then show "bit (joined (l2i_cast_int sg x)) n = bit (if sg then scast x else ucast x :: 64 word) n"
    by (cases n "31 :: nat" rule: linorder_cases)
      (auto simp: l2i_cast_int_def bit_joined negative_bit bit_simps min_def bit_high)
qed

section \<open>Division\<close>

lemma low_or: "joined (x OR (w AND 1), y) = (joined (x, y) OR ucast (w AND 1))"
  by (rule bit_word_eqI) (auto simp: bit_joined bit_simps bit_high)

lemma low_bit: "ucast (fst a AND 1) = (joined a AND 1)"
  by (rule bit_word_eqI) (auto simp: bit_joined bit_simps)

lemma quotient_bit:
  assumes "i < 64"
  shows "joined (if i < 32 then (fst q OR shl (of_bool c) (i mod 32), snd q) else (fst q, snd q OR shl (of_bool c) (i mod 32)))
    = (joined q OR push_bit i (of_bool c))"
proof (rule bit_word_eqI)
  fix m assume "m < LENGTH(64)"
  then show "bit (joined (if i < 32 then (fst q OR shl (of_bool c) (i mod 32), snd q) else (fst q, snd q OR shl (of_bool c) (i mod 32)))) m
    = bit (joined q OR push_bit i (of_bool c)) m"
    using assms by (cases "i < 32") (auto simp: bit_joined bit_shl bit_simps mod_if)
qed

lemma div_round_joined:
  fixes a b q r :: halves and i :: nat
  defines "r2 \<equiv> push_bit 1 (joined r) OR (drop_bit i (joined a) AND 1)"
  assumes "i < 64" "div_round a b i (q, r) = (q', r')"
  shows "joined q' = (joined q OR push_bit i (of_bool (joined b \<le> r2)))"
    and "joined r' = (if joined b \<le> r2 then r2 - joined b else r2)"
  using assms(2,3)
  by (auto simp: div_round_def Let_def cmplt_joined sub_joined where_joined low_or low_bit
      shl_joined shr_joined quotient_bit r2_def not_less simp del: push_bit_Suc)

lemma append_bit: "push_bit 1 r OR (x AND 1) = 2 * r + x mod 2" for r x :: "64 word"
proof -
  have "push_bit 1 r OR (x AND 1) = push_bit 1 r + (x AND 1)"
    by (rule disjunctive_add [symmetric], subst bit_push_bit_iff) (auto simp: bit_simps)
  then show ?thesis by (simp add: and_one_eq)
qed

text \<open>One round on integers: the remainder takes the next bit, the quotient the outcome of the comparison.\<close>

lemma division_step:
  fixes A B :: int
  assumes B: "0 < B" and A: "0 \<le> A"
  shows "A div 2 ^ i = 2 * (A div 2 ^ Suc i) + A div 2 ^ i mod 2"
    and "A div 2 ^ i div B = 2 * (A div 2 ^ Suc i div B) + of_bool (B \<le> 2 * (A div 2 ^ Suc i mod B) + A div 2 ^ i mod 2)" (is ?quot)
    and "A div 2 ^ i mod B = 2 * (A div 2 ^ Suc i mod B) + A div 2 ^ i mod 2
      - B * of_bool (B \<le> 2 * (A div 2 ^ Suc i mod B) + A div 2 ^ i mod 2)" (is ?rem)
proof -
  let ?h = "A div 2 ^ Suc i" let ?t = "A div 2 ^ i mod 2"
  have "?h = A div (2 ^ i * 2)" by (simp add: mult.commute)
  then have "?h = A div 2 ^ i div 2" by (simp only: zdiv_zmult2_eq)
  then show e: "A div 2 ^ i = 2 * ?h + ?t" by simp
  let ?r = "2 * (?h mod B) + ?t" let ?c = "of_bool (B \<le> ?r) :: int"
  have "?h = B * (?h div B) + ?h mod B" by (rule mult_div_mod_eq [symmetric])
  moreover have "B * (2 * (?h div B) + ?c) = 2 * (B * (?h div B)) + B * ?c" by (simp only: distrib_left mult.left_commute)
  ultimately have split: "A div 2 ^ i = B * (2 * (?h div B) + ?c) + (?r - B * ?c)"
    using e by linarith
  have "0 \<le> ?h mod B" "?h mod B < B" using B by simp_all
  then have "0 \<le> ?r - B * ?c" "?r - B * ?c < B" by (auto simp: pos_mod_sign)
  then show ?quot ?rem using split by (simp_all add: int_div_pos_eq int_mod_pos_eq)
qed

lemma uint_small: "0 \<le> k \<Longrightarrow> k < 2 ^ 64 \<Longrightarrow> uint (word_of_int k :: 64 word) = k"
  by (simp add: uint_word_of_int)

lemma quotient_or:
  fixes w :: "64 word"
  assumes "uint w = 2 ^ Suc i * k"
  shows "(w OR push_bit i (of_bool c)) = word_of_int (2 ^ i * (2 * k + of_bool c))"
proof -
  have w: "w = push_bit (Suc i) (word_of_int k)"
  proof -
    have "w = word_of_int (2 ^ Suc i * k)" using assms word_of_int_uint [of w] by metis
    then show ?thesis by (simp add: push_bit_eq_mult mult.commute del: push_bit_Suc)
  qed
  have "(w OR push_bit i (of_bool c)) = w + push_bit i (of_bool c)"
    unfolding w by (rule disjunctive_add [symmetric]) (auto simp: bit_simps simp del: push_bit_Suc)
  also have "\<dots> = word_of_int (2 ^ i * (2 * k + of_bool c))"
    unfolding w by (cases c) (simp_all add: push_bit_eq_mult algebra_simps del: push_bit_Suc)
  finally show ?thesis .
qed

lemma word_bit_value: "drop_bit i w mod 2 = word_of_int (uint w div 2 ^ i mod 2)" for w :: "'a :: len word"
proof -
  have "uint w div 2 ^ i mod 2 = of_bool (bit w i)"
    by (simp add: bit_iff_odd_drop_bit [symmetric] mod_2_eq_odd bit_uint_iff flip: drop_bit_eq_div)
      (use bit_imp_le_length in blast)
  moreover have "drop_bit i w mod 2 = of_bool (bit w i)" by (simp add: bit_iff_odd_drop_bit mod_2_eq_odd)
  ultimately show ?thesis by simp
qed

lemma div_round_step:
  fixes a b :: halves
  defines "A \<equiv> uint (joined a)" and "B \<equiv> uint (joined b)"
  assumes i: "i < 64" and b: "0 < B"
    and q: "uint (joined q) = 2 ^ Suc i * (A div 2 ^ Suc i div B)"
    and r: "uint (joined r) = A div 2 ^ Suc i mod B"
    and step: "div_round a b i (q, r) = (q', r')"
  shows "uint (joined q') = 2 ^ i * (A div 2 ^ i div B) \<and> uint (joined r') = A div 2 ^ i mod B"
proof -
  let ?h = "A div 2 ^ Suc i" let ?t = "A div 2 ^ i mod 2" let ?r = "2 * (?h mod B) + ?t"
  let ?r2 = "push_bit 1 (joined r) OR (drop_bit i (joined a) AND 1)"
  have A: "0 \<le> A" "A < 2 ^ 64" using uint_bounded [of "joined a"] by (simp_all add: A_def)
  note ds = division_step [OF b A(1), of i]
  have r2: "uint ?r2 = ?r"
  proof -
    have "?h \<le> A div 2" using A zdiv_mono2 [of A 2 "2 ^ Suc i"] by simp
    moreover have "?h mod B \<le> ?h" using A b by (intro zmod_le_nonneg_dividend) (simp add: pos_imp_zdiv_nonneg_iff)
    moreover have "A div 2 < 2 ^ 63" "2 * 2 ^ 63 = (2 ^ 64 :: int)" using A by simp_all
    moreover have "0 \<le> ?t" "?t < 2" "0 \<le> ?h mod B" using b by simp_all
    ultimately have "?r < 2 ^ 64" "0 \<le> ?r" using A by linarith+
    moreover have "?r2 = 2 * joined r + drop_bit i (joined a) mod 2" by (rule append_bit)
    moreover have "2 * joined r + drop_bit i (joined a) mod 2 = word_of_int ?r"
      using word_of_int_uint [of "joined r"] word_bit_value [of i "joined a"] r by (simp add: A_def)
    ultimately show ?thesis by (simp only: uint_small)
  qed
  have le: "joined b \<le> ?r2 \<longleftrightarrow> B \<le> ?r" by (simp only: word_le_def r2 B_def)
  have "joined q' = word_of_int (2 ^ i * (2 * (?h div B) + of_bool (B \<le> ?r)))"
    using div_round_joined(1) [OF i step] quotient_or [OF q, of "B \<le> ?r"] by (simp only: le)
  then have q': "joined q' = word_of_int (2 ^ i * (A div 2 ^ i div B))" by (simp only: ds(2))
  have "2 ^ i * (A div 2 ^ i div B) \<le> 2 ^ i * (A div 2 ^ i)"
    using A b zdiv_mono2 [of "A div 2 ^ i" 1 B] by (intro mult_left_mono) (auto simp: pos_imp_zdiv_nonneg_iff)
  also have "\<dots> \<le> A" by (subst minus_mod_eq_mult_div [symmetric]) simp
  finally have "2 ^ i * (A div 2 ^ i div B) < 2 ^ 64" using A by simp
  moreover have "0 \<le> A div 2 ^ i div B" using A b by (simp add: pos_imp_zdiv_nonneg_iff)
  ultimately have uq: "uint (joined q') = 2 ^ i * (A div 2 ^ i div B)"
    unfolding q' by (intro uint_small) simp_all
  have "uint (joined r') = ?r - B * of_bool (B \<le> ?r)"
    using div_round_joined(2) [OF i step] le r2 by (cases "B \<le> ?r") (auto simp: uint_sub_if' B_def)
  then show ?thesis using uq ds(3) by simp
qed

lemma udivmod_joined:
  assumes "joined b \<noteq> 0"
  shows "joined (fst (udivmod a b)) = joined a div joined b \<and> joined (snd (udivmod a b)) = joined a mod joined b"
proof -
  let ?A = "uint (joined a)" let ?B = "uint (joined b)"
  have b: "0 < ?B" using assms by (simp add: word_neq_0_conv word_less_def)
  have inv: "let (q, r) = fold (div_round a b) (rev [64 - n..<64]) ((0, 0), (0, 0))
    in uint (joined q) = 2 ^ (64 - n) * (?A div 2 ^ (64 - n) div ?B) \<and> uint (joined r) = ?A div 2 ^ (64 - n) mod ?B"
    if "n \<le> 64" for n
    using that
  proof (induction n)
    case 0
    have "joined (0, 0) = 0" by (simp add: joined_def)
    moreover have "?A div 2 ^ 64 = 0" using uint_bounded [of "joined a"] by simp
    ultimately show ?case by simp
  next
    case (Suc n)
    then have s: "Suc (64 - Suc n) = 64 - n" and l: "64 - Suc n < 64" by simp_all
    have "[64 - Suc n..<64] = (64 - Suc n) # [64 - n..<64]" using l s upt_conv_Cons by metis
    then have e: "rev [64 - Suc n..<64] = rev [64 - n..<64] @ [64 - Suc n]" by simp
    obtain q r where qr: "fold (div_round a b) (rev [64 - n..<64]) ((0, 0), (0, 0)) = (q, r)"
      by (rule prod.exhaust)
    obtain q' r' where st: "div_round a b (64 - Suc n) (q, r) = (q', r')" by (rule prod.exhaust)
    have "uint (joined q) = 2 ^ (64 - n) * (?A div 2 ^ (64 - n) div ?B)" "uint (joined r) = ?A div 2 ^ (64 - n) mod ?B"
      using Suc.IH Suc.prems qr by simp_all
    from div_round_step [OF l b, unfolded s, OF this st]
    show ?case by (simp only: e fold_append comp_apply fold_simps qr st prod.case Let_def simp_thms)
  qed
  show ?thesis using inv [of 64] by (auto simp: udivmod_def uint_div uint_mod word_uint_eq_iff case_prod_beta Let_def)
qed

lemma cdiv_zero [simp]: "cdiv 0 y = 0" by (simp add: cdiv_def)

lemma cmod_by_abs:
  assumes "y \<noteq> 0"
  shows "cmod x y = (if x < 0 then - (\<bar>x\<bar> mod \<bar>y\<bar>) else \<bar>x\<bar> mod \<bar>y\<bar>)"
proof -
  have d: "\<bar>x\<bar> mod \<bar>y\<bar> = \<bar>x\<bar> - \<bar>x\<bar> div \<bar>y\<bar> * \<bar>y\<bar>" by (simp add: minus_div_mult_eq_mod)
  show ?thesis unfolding d using assms
    by (cases "x = 0"; cases "0 < x"; cases "0 < y") (auto simp: cmod_def cdiv_def mult_less_0_iff)
qed

lemma sint_zero: "sint w = 0 \<longleftrightarrow> w = 0" for w :: "'a :: len word"
  using signed_word_eqI [of w 0] by auto

lemma sign_joined: "sign_of a \<longleftrightarrow> sint (joined a) < 0"
proof (cases "sint (snd a) < 0")
  case True
  then have "2 ^ 32 * sint (snd a) \<le> 2 ^ 32 * (- 1)" by (intro mult_left_mono) auto
  then have "uint (fst a) + 2 ^ 32 * sint (snd a) < 0" using uint_half [of "fst a"] by linarith
  then show ?thesis using True by (simp add: sign_of_def word_sless_alt sint_joined)
next
  case False
  then have "0 \<le> 2 ^ 32 * sint (snd a)" by simp
  then have "\<not> uint (fst a) + 2 ^ 32 * sint (snd a) < 0" using uint_half [of "fst a"] by linarith
  then show ?thesis using False by (simp add: sign_of_def word_sless_alt sint_joined)
qed

lemma abs_joined:
  fixes a :: halves
  defines "m \<equiv> l2i_where (sign_of a) (l2i_neg a) a"
  shows "uint (joined m) = \<bar>sint (joined a)\<bar>"
proof -
  have "- (2 ^ 63) \<le> sint (joined a)" "sint (joined a) < 2 ^ 63"
    using sint_ge [of "joined a"] sint_lt [of "joined a"] by simp_all
  then have "0 \<le> \<bar>sint (joined a)\<bar>" "\<bar>sint (joined a)\<bar> < 2 ^ 64" by auto
  moreover have "joined m = word_of_int \<bar>sint (joined a)\<bar>"
    using of_int_sint [of "joined a"] by (auto simp: m_def where_joined neg_joined sign_joined)
  ultimately show ?thesis by (simp only: uint_small)
qed

lemma signed_parts:
  fixes a b :: halves
  defines "p \<equiv> udivmod (l2i_where (sign_of a) (l2i_neg a) a) (l2i_where (sign_of b) (l2i_neg b) b)"
  assumes "joined b \<noteq> 0"
  shows "joined (fst p) = word_of_int (\<bar>sint (joined a)\<bar> div \<bar>sint (joined b)\<bar>)"
    and "joined (snd p) = word_of_int (\<bar>sint (joined a)\<bar> mod \<bar>sint (joined b)\<bar>)"
proof -
  let ?b = "l2i_where (sign_of b) (l2i_neg b) b"
  have "sint (joined b) \<noteq> 0" using assms by (simp add: sint_zero)
  then have "joined ?b \<noteq> 0" using abs_joined [of b] by auto
  from udivmod_joined [OF this, of "l2i_where (sign_of a) (l2i_neg a) a"]
  show "joined (fst p) = word_of_int (\<bar>sint (joined a)\<bar> div \<bar>sint (joined b)\<bar>)"
    "joined (snd p) = word_of_int (\<bar>sint (joined a)\<bar> mod \<bar>sint (joined b)\<bar>)"
    by (simp_all add: p_def abs_joined [symmetric] uint_div [symmetric] uint_mod [symmetric])
qed

lemma cdiv_joined:
  assumes "joined b \<noteq> 0"
  shows "joined (l2i_cdiv True a b) = word_of_int (cdiv (sint (joined a)) (sint (joined b)))"
    and "joined (l2i_cmod True a b) = word_of_int (cmod (sint (joined a)) (sint (joined b)))"
proof -
  let ?x = "sint (joined a)" let ?y = "sint (joined b)"
  have "?y \<noteq> 0" using assms by (simp add: sint_zero)
  then have "cdiv ?x ?y = (if (?x < 0) \<noteq> (?y < 0) then - (\<bar>?x\<bar> div \<bar>?y\<bar>) else \<bar>?x\<bar> div \<bar>?y\<bar>)"
    by (auto simp: cdiv_def mult_less_0_iff)
  then show "joined (l2i_cdiv True a b) = word_of_int (cdiv ?x ?y)"
    using signed_parts(1) [OF assms, of a]
    by (auto simp: l2i_cdiv_def Let_def where_joined neg_joined sign_joined)
  show "joined (l2i_cmod True a b) = word_of_int (cmod ?x ?y)"
    using signed_parts(2) [OF assms, of a]
    by (auto simp: l2i_cmod_def Let_def where_joined neg_joined sign_joined cmod_by_abs [OF \<open>?y \<noteq> 0\<close>])
qed

section \<open>Shifts of signed numbers\<close>

text \<open>
  For \<open>dtypes.int\<close> halves the shifts are not those of a 64-bit number: the bits that move between the
  halves are sign-extended, and a right shift by 32 or more fills with zeros.
\<close>

lemma signed_shifts_differ:
  "joined (l2i_shl True (0x80000000, 0) 1) \<noteq> push_bit 1 (joined (0x80000000, 0))"
  "joined (l2i_shr True (0x80000000, 0) 1) \<noteq> signed_drop_bit 1 (joined (0x80000000, 0))"
  "joined (l2i_shr True (0, -1) 32) \<noteq> signed_drop_bit 32 (joined (0, -1))"
  by code_simp+

section \<open>The random generator\<close>

lemma rotl_rotation: "0 < r \<Longrightarrow> r < 32 \<Longrightarrow> rotl x r = word_rotl r x"
proof -
  assume r: "0 < r" "r < 32"
  have "rotl x r = push_bit r x + drop_bit (32 - r) x"
    by (simp add: rotl_def push_bit_eq_mult drop_bit_eq_div)
  also have "\<dots> = push_bit r x OR drop_bit (32 - r) x"
    by (rule disjunctive_add) (auto simp: bit_simps dest: bit_imp_le_length)
  also have "\<dots> = word_rotl r x"
  proof (rule bit_word_eqI)
    fix n assume "n < LENGTH(32)"
    then have n: "n < 32" by simp
    have "(n + (32 - r)) mod 32 = (if n < r then 32 - r + n else n - r)" using r n by (auto simp: mod_if)
    then show "bit (push_bit r x OR drop_bit (32 - r) x) n = bit (word_rotl r x) n"
      using r n bit_high [of "32 - r + n" x] by (auto simp: bit_simps bit_word_rotl_iff)
  qed
  finally show ?thesis .
qed

lemma rotl_inject: "0 < r \<Longrightarrow> r < 32 \<Longrightarrow> rotl x r = rotl y r \<longleftrightarrow> x = y"
  by (metis rotl_rotation word_rot_lr)

lemma xor_inject: "(s XOR u) = (s XOR v) \<longleftrightarrow> u = v" for s u v :: half
proof
  assume "(s XOR u) = (s XOR v)"
  then have "(s XOR (s XOR u)) = (s XOR (s XOR v))" by simp
  then show "u = v" by (simp flip: xor.assoc)
qed simp

lemma mix_inject: "0 < r \<Longrightarrow> r < 32 \<Longrightarrow> mix r x = mix r y \<longleftrightarrow> x = y"
  by (cases x; cases y) (auto simp: mix_def Let_def xor_inject rotl_inject)

lemma mixes_inject: "list_all (\<lambda>r. 0 < r \<and> r < 32) rs \<Longrightarrow> fold mix rs x = fold mix rs y \<longleftrightarrow> x = y"
  by (induction rs arbitrary: x y) (auto simp: mix_inject)

lemma round_inject: "threefry_round k i x = threefry_round k i y \<longleftrightarrow> x = y"
proof -
  have "list_all (\<lambda>r. 0 < r \<and> r < 32) (rotations i)" by (simp add: rotations_def)
  then have "fold mix (rotations i) x = fold mix (rotations i) y \<longleftrightarrow> x = y" by (rule mixes_inject)
  moreover have "inject_key k i u = inject_key k i v \<longleftrightarrow> u = v" for u v
    by (cases u; cases v) (simp add: inject_key_def)
  ultimately show ?thesis by (simp add: threefry_round_def)
qed

lemma rounds_inject: "fold (threefry_round k) is x = fold (threefry_round k) is y \<longleftrightarrow> x = y"
  by (induction "is" arbitrary: x y) (auto simp: round_inject)

lemma joined_split: "joined (split64 x) = x"
proof -
  have m: "(0xFFFFFFFF :: 64 word) = mask 32" by (simp add: mask_eq_exp_minus_1)
  have "split64 x = (ucast (take_bit 32 x), ucast (take_bit 32 (drop_bit 32 x)))"
    by (simp only: split64_def m take_bit_eq_mask drop_bit_eq_div)
  note e = this
  show ?thesis unfolding e by (rule bit_word_eqI) (auto simp: bit_joined bit_simps)
qed

lemma threefry_joined: "threefry2x32 x key = joined (fold (threefry_round (split64 key)) [0..<5]
    (fst (split64 x) + key_schedule (split64 key) 2, snd (split64 x) + key_schedule (split64 key) 0))"
  by (simp only: threefry2x32_def joined_def Let_def push_bit_eq_mult or.commute)

lemma threefry_inject: "threefry2x32 x key = threefry2x32 y key \<longleftrightarrow> x = y"
proof -
  have "threefry2x32 x key = threefry2x32 y key \<longleftrightarrow> split64 x = split64 y"
    unfolding threefry_joined joined_inject rounds_inject by (simp add: prod_eq_iff)
  then show ?thesis using joined_split [of x] joined_split [of y] by metis
qed

section \<open>Properties\<close>

text \<open>Property C38.  The operations on halves are the 64-bit operations: addition, subtraction, negation,
multiplication, the bit operations, signed and unsigned comparison, equality, maximum, the extension of an
\<open>int\<close> or a \<open>uint\<close>, and, for \<open>uint\<close> halves, the shifts by less than 64.\<close>

theorem l2i_equals_64_bit:
  assumes "n < 64"
  shows "joined (l2i_add a b) = joined a + joined b \<and> joined (l2i_sub a b) = joined a - joined b
    \<and> joined (l2i_neg a) = - joined a \<and> joined (l2i_mul a b) = joined a * joined b
    \<and> joined (l2i_bitwise (AND) a b) = (joined a AND joined b) \<and> joined (l2i_bitwise (OR) a b) = (joined a OR joined b)
    \<and> joined (l2i_bitwise (XOR) a b) = (joined a XOR joined b)
    \<and> (l2i_cmplt True a b = (joined a <s joined b)) \<and> (l2i_cmplt False a b = (joined a < joined b))
    \<and> (l2i_cmpeq a b = (joined a = joined b)) \<and> (l2i_cmpne a b = (joined a \<noteq> joined b))
    \<and> joined (l2i_max True a b) = (if joined a <s joined b then joined b else joined a)
    \<and> joined (l2i_max False a b) = max (joined a) (joined b)
    \<and> joined (l2i_cast_int True x) = scast x \<and> joined (l2i_cast_int False x) = ucast x
    \<and> joined (l2i_shl False a n) = push_bit n (joined a) \<and> joined (l2i_shr False a n) = drop_bit n (joined a)"
  using assms
  by (simp add: add_joined sub_joined neg_joined mul_joined bitwise_joined cmplt_joined cmpeq_joined
      max_joined cast_joined shl_joined shr_joined)

lemma l2i_equals_64_bit_witness:
  "joined (l2i_mul (0xFFFFFFFF, 3) (5, 7)) = joined (0xFFFFFFFF, 3) * joined (5, 7)
    \<and> joined (l2i_shl False (0xFFFFFFFF, 3) 33) = push_bit 33 (joined (0xFFFFFFFF, 3))"
proof -
  have "(33 :: nat) < 64" by simp
  from l2i_equals_64_bit [OF this, of "(0xFFFFFFFF, 3)" "(5, 7)"] show ?thesis by blast
qed

text \<open>Property C39.  Division and remainder by a divisor other than zero, computed by 64 rounds of shift and
subtract, are those of the 64-bit number: the quotient and the remainder of \<open>ulong\<close>, and for \<open>long\<close> the quotient
rounded towards zero with a remainder that has the sign of the dividend, wrapped to 64 bits.\<close>

theorem l2i_division:
  assumes "b \<noteq> (0, 0)"
  shows "joined (l2i_cdiv False a b) = joined a div joined b \<and> joined (l2i_cmod False a b) = joined a mod joined b
    \<and> joined (l2i_cdiv True a b) = word_of_int (cdiv (sint (joined a)) (sint (joined b)))
    \<and> joined (l2i_cmod True a b) = word_of_int (cmod (sint (joined a)) (sint (joined b)))"
proof -
  have "joined (0, 0) = 0" by (simp add: joined_def)
  then have b: "joined b \<noteq> 0" using assms joined_inject [of b "(0, 0)"] by simp
  show ?thesis using udivmod_joined [OF b, of a] by (simp add: cdiv_joined [OF b] l2i_cdiv_def [of False] l2i_cmod_def [of False])
qed

lemma l2i_division_witness:
  "joined (l2i_cmod True (-7, -1) (3, 0)) = word_of_int (cmod (sint (joined (-7, -1))) (sint (joined (3, 0))))"
proof -
  have "((3, 0) :: halves) \<noteq> (0, 0)" by simp
  from l2i_division [OF this, of "(-7, -1)"] show ?thesis by blast
qed

text \<open>Property C40.  Under every key the generator is a permutation of the 64-bit counters: different counters
give different random words.\<close>

theorem threefry_distinct: "threefry2x32 x key = threefry2x32 y key \<longleftrightarrow> x = y"
  by (rule threefry_inject)

end
