(* ===== verification/MemPlan.thy ===== *)
theory MemPlan
  imports UOps Tlsf "HOL-Library.Product_Lexorder"
begin

text \<open>
  The memory planner (\<open>tinygrad/schedule/memory.py\<close>): the buffers a schedule uses get a lifetime, and one
  \<open>TLSFAllocator\<close> per lane (a device and whether copies touch the buffer) replays the lifetimes as
  allocations and releases; the offsets it hands out become slices of one arena per lane.  A schedule is
  the list of its items (\<open>linear.src\<close>).  Whether the allocator of a device can hand out sub-buffers
  (\<open>hasattr(Device[d].allocator, "_offset")\<close>) is the argument \<open>has_offset\<close>.  The collectors of the memory
  manifest, the flag that disables the planner and the substitution of the slices are not modelled.
\<close>

section \<open>The device of a node\<close>

text \<open>A \<open>ParamArg\<close> and the options of a stage are represented by their attributes; \<open>None\<close> is a device like
  any other value.  \<open>recursive_property\<close> computes the value of every source first.\<close>

definition first_device :: "pyval list \<Rightarrow> pyval" where
  "first_device ds = (case List.find (\<lambda>d. d \<noteq> PNone) ds of None \<Rightarrow> PNone | Some d \<Rightarrow> d)"

text \<open>The subscript of a tuple: a negative index counts from the end.\<close>

definition list_index :: "'a list \<Rightarrow> int \<Rightarrow> 'a result" where
  "list_index xs i = (if 0 \<le> i then lget xs (nat i)
     else if - int (length xs) \<le> i then lget xs (nat (int (length xs) + i)) else Inl IndexError)"

definition device_of :: "op \<Rightarrow> pyval \<Rightarrow> pyval list \<Rightarrow> pyval result" where
  "device_of op arg ds =
     (if op = ''PARAM'' then Inr (pget arg ''device'')
      else if op = ''DEVICE'' then Inr arg
      else if op = ''STAGE'' then Inr (pget arg ''device'')
      else if op = ''AFTER'' then lget ds 0
      else if op = ''MSELECT'' then rbind (lget ds 0) (\<lambda>d.
        case d of PTuple xs \<Rightarrow> (if is_int arg then list_index xs (as_int arg) else Inl TypeError)
        | _ \<Rightarrow> Inl AssertionError)
      else if op = ''MSTACK'' then Inr (PTuple ds)
      else if op = ''BUFFER'' \<and> is_mapping arg then Inr (pget arg ''device'')
      else if op \<in> set [''COPY'', ''BUFFER'', ''ALLREDUCE''] then lget ds 1
      else Inr (first_device ds))"

fun device :: "uop \<Rightarrow> pyval result" where
  "device (UOp op dt src arg tag) = rbind (rmap (\<lambda>d. d) (map device src)) (device_of op arg)"

section \<open>The buffers of an item\<close>

fun collect_bufs :: "uop \<Rightarrow> uop list" where
  "collect_bufs (UOp op dt src arg tag) =
     (if op = ''BUFFER'' then [UOp op dt src arg tag]
      else if op = ''MEMORY_SEMANTIC'' \<and> length src = 1 then concat (map collect_bufs src)
      else if op \<in> set [''MSELECT'', ''MSTACK''] then concat (map collect_bufs src)
      else [])"

definition devices :: "pyval \<Rightarrow> string list result" where
  "devices d = (case d of PStr s \<Rightarrow> Inr [s]
     | PTuple xs \<Rightarrow> rmap (\<lambda>x. if is_str x then Inr (str_of x) else Inl AttributeError) xs
     | _ \<Rightarrow> Inl TypeError)"

definition plannable_device :: "(string \<Rightarrow> bool) \<Rightarrow> string \<Rightarrow> bool" where
  "plannable_device has_offset d \<longleftrightarrow> take 4 d \<noteq> ''DISK'' \<and> take 6 d \<noteq> ''TINYFS'' \<and> has_offset d"

definition can_plan :: "(string \<Rightarrow> bool) \<Rightarrow> uop set \<Rightarrow> uop \<Rightarrow> bool result" where
  "can_plan has_offset held b =
     (if b \<in> held then Inr False
      else rbind (device b) (\<lambda>d. rbind (devices d) (\<lambda>ds. Inr (list_all (plannable_device has_offset) ds))))"

definition item_bufs :: "(string \<Rightarrow> bool) \<Rightarrow> uop set \<Rightarrow> uop \<Rightarrow> uop list result" where
  "item_bufs has_offset held si =
     rbind (rmap (\<lambda>b. rbind (can_plan has_offset held b) (\<lambda>c. Inr (b, c))) (concat (map collect_bufs (drop 1 (u_src si)))))
       (\<lambda>bs. Inr (map fst (filter snd bs)))"

definition is_copy :: "uop \<Rightarrow> bool result" where
  "is_copy si = rbind (lget (u_src si) 0) (\<lambda>s. Inr (u_op s = ''COPY''))"

section \<open>Lifetimes\<close>

record lifetimes =
  lt_first :: "(uop, int) dict"
  lt_last :: "(uop, int) dict"
  lt_copy :: "uop list"

definition note_buf :: "int \<Rightarrow> uop \<Rightarrow> lifetimes \<Rightarrow> lifetimes" where
  "note_buf i b l = l\<lparr>lt_first := (if map_of (lt_first l) b = None then dset b i (lt_first l) else lt_first l),
     lt_last := dset b i (lt_last l)\<rparr>"

definition note_item :: "(string \<Rightarrow> bool) \<Rightarrow> uop set \<Rightarrow> nat \<times> uop \<Rightarrow> lifetimes \<Rightarrow> lifetimes result" where
  "note_item has_offset held = (\<lambda>(i, si) l.
     rbind (item_bufs has_offset held si) (\<lambda>bufs.
     rbind (is_copy si) (\<lambda>copy.
     let l = fold (note_buf (int i)) bufs l in
     Inr (if copy then l\<lparr>lt_copy := lt_copy l @ bufs\<rparr> else l))))"

definition lifetimes_of :: "(string \<Rightarrow> bool) \<Rightarrow> uop set \<Rightarrow> uop list \<Rightarrow> lifetimes result" where
  "lifetimes_of has_offset held sis =
     rfold (note_item has_offset held) (enumerate 0 sis) \<lparr>lt_first = [], lt_last = [], lt_copy = []\<rparr>"

section \<open>Placing the buffers\<close>

type_synonym lane_key = "pyval \<times> int"

definition lane_key :: "lifetimes \<Rightarrow> uop \<Rightarrow> lane_key result" where
  "lane_key l b = rbind (device b) (\<lambda>d. Inr (d, if b \<in> set (lt_copy l) then 1 else 0))"

definition raw_bytes :: "uop \<Rightarrow> int result" where
  "raw_bytes b = (if is_int (u_arg b) then Inr (as_int (u_arg b) * itemsize (u_dtype b)) else Inl TypeError)"

definition block_bytes :: int where "block_bytes = 256"

text \<open>A planned buffer with what the source looks up for it.\<close>

record planned_buf =
  pb_buf :: uop
  pb_lane :: lane_key
  pb_raw :: int
  pb_first :: int
  pb_close :: int

definition pb_bytes :: "planned_buf \<Rightarrow> int" where
  "pb_bytes p = round_up (pb_raw p) block_bytes"

definition planned_buf_of :: "lifetimes \<Rightarrow> uop \<times> int \<Rightarrow> planned_buf result" where
  "planned_buf_of l = (\<lambda>(b, first).
     rbind (dget (lt_last l) b) (\<lambda>last_use.
     rbind (lane_key l b) (\<lambda>lane.
     rbind (raw_bytes b) (\<lambda>raw.
     Inr \<lparr>pb_buf = b, pb_lane = lane, pb_raw = raw, pb_first = first,
          pb_close = last_use + 1 + (if b \<in> set (lt_copy l) then last_use - first + 1 else 0)\<rparr>))))"

text \<open>Releases of a step come before its allocations: \<open>False < True\<close>.\<close>

type_synonym event = "int \<times> bool \<times> planned_buf"

definition events :: "planned_buf list \<Rightarrow> event list" where
  "events ps = sort_key (\<lambda>(t, opening, p). (t, opening))
     (map (\<lambda>p. (pb_first p, True, p)) ps @ map (\<lambda>p. (pb_close p, False, p)) ps)"

record placing =
  pl_offsets :: "(uop, int) dict"
  pl_peaks :: "(lane_key, int \<times> tlsf) dict"

definition lane_state :: "int \<Rightarrow> placing \<Rightarrow> lane_key \<Rightarrow> (int \<times> tlsf) result" where
  "lane_state total_memory st k = (case map_of (pl_peaks st) k of Some x \<Rightarrow> Inr x
     | None \<Rightarrow> rbind (tlsf_init total_memory 0 block_bytes 32) (\<lambda>a. Inr (0, a)))"

definition place_event :: "int \<Rightarrow> event \<Rightarrow> placing \<Rightarrow> placing result" where
  "place_event total_memory = (\<lambda>(t, opening, p) st.
     rbind (lane_state total_memory st (pb_lane p)) (\<lambda>(peak, a).
     rbind (if opening
            then rbind (tlsf_alloc a (pb_bytes p) 1) (\<lambda>(o', a'). Inr (dset (pb_buf p) o' (pl_offsets st), a'))
            else rbind (dget (pl_offsets st) (pb_buf p)) (\<lambda>o'. rbind (tlsf_free a o') (\<lambda>a'. Inr (pl_offsets st, a'))))
       (\<lambda>(offs, a').
     rbind (dget offs (pb_buf p)) (\<lambda>o'.
     Inr \<lparr>pl_offsets = offs, pl_peaks = dset (pb_lane p) (max peak (o' + pb_raw p), a') (pl_peaks st)\<rparr>))))"

record memory_plan =
  mp_bufs :: "planned_buf list"
  mp_offsets :: "(uop, int) dict"
  mp_arenas :: "(lane_key, int) dict"

definition planned_bufs :: "(string \<Rightarrow> bool) \<Rightarrow> uop set \<Rightarrow> uop list \<Rightarrow> planned_buf list result" where
  "planned_bufs has_offset held sis =
     rbind (lifetimes_of has_offset held sis) (\<lambda>l. rmap (planned_buf_of l) (lt_first l))"

definition memory_plan_rewrite :: "(string \<Rightarrow> bool) \<Rightarrow> uop set \<Rightarrow> uop list \<Rightarrow> memory_plan result" where
  "memory_plan_rewrite has_offset held sis =
     rbind (planned_bufs has_offset held sis) (\<lambda>ps.
     rbind (rfold (place_event (sum_list (map pb_bytes ps) * 2)) (events ps) \<lparr>pl_offsets = [], pl_peaks = []\<rparr>) (\<lambda>st.
     Inr \<lparr>mp_bufs = ps, mp_offsets = pl_offsets st,
          mp_arenas = map (\<lambda>(k, peak, a). (k, round_up peak block_bytes)) (pl_peaks st)\<rparr>))"

end
