(* ===== verification/MemPlanSpec.thy ===== *)
theory MemPlanSpec
  imports MemPlan TlsfSpec
begin

text \<open>
  The planner against the contract of its allocator (\<open>range_allocator\<close>): the invariant \<open>place_inv\<close> of the replay
  says that every open buffer holds its range in the allocator of its lane and that two buffers that were open
  together are disjoint; the sort of the events puts a buffer's release after every use and before the
  allocations of the same step.
\<close>

section \<open>Replaying events\<close>

text \<open>After the events \<open>pre\<close> a buffer is live when it was opened and not closed.\<close>

definition opened :: "event list \<Rightarrow> planned_buf \<Rightarrow> bool" where
  "opened pre p \<longleftrightarrow> (\<exists>t. (t, True, p) \<in> set pre)"

definition closed :: "event list \<Rightarrow> planned_buf \<Rightarrow> bool" where
  "closed pre p \<longleftrightarrow> (\<exists>t. (t, False, p) \<in> set pre)"

definition live :: "event list \<Rightarrow> planned_buf \<Rightarrow> bool" where
  "live pre p \<longleftrightarrow> opened pre p \<and> \<not> closed pre p"

definition fresh_event :: "event list \<Rightarrow> event \<Rightarrow> bool" where
  "fresh_event pre e = (case e of (t, opening, p) \<Rightarrow>
     if opening then \<forall>q. opened pre q \<longrightarrow> pb_buf q \<noteq> pb_buf p
     else live pre p)"

definition in_order :: "event list \<Rightarrow> bool" where
  "in_order evs \<longleftrightarrow> (\<forall>pre e post. evs = pre @ e # post \<longrightarrow> fresh_event pre e)
     \<and> (\<forall>p q. opened evs p \<longrightarrow> opened evs q \<longrightarrow> pb_buf p = pb_buf q \<longrightarrow> p = q)"

definition disjoint_at :: "(uop, int) dict \<Rightarrow> planned_buf \<Rightarrow> planned_buf \<Rightarrow> bool" where
  "disjoint_at offs p q \<longleftrightarrow> (\<exists>a b. map_of offs (pb_buf p) = Some a \<and> map_of offs (pb_buf q) = Some b
     \<and> {a..<a + pb_bytes p} \<inter> {b..<b + pb_bytes q} = {})"

definition placed_in :: "placing \<Rightarrow> bool \<Rightarrow> planned_buf \<Rightarrow> bool" where
  "placed_in st alive p \<longleftrightarrow> (\<exists>o' peak a. map_of (pl_offsets st) (pb_buf p) = Some o'
     \<and> map_of (pl_peaks st) (pb_lane p) = Some (peak, a) \<and> 0 \<le> o' \<and> o' + pb_raw p \<le> peak
     \<and> (alive \<longrightarrow> (\<exists>z. pb_bytes p \<le> z \<and> tlsf_held a o' = Some z)))"

definition lanes_ok :: "placing \<Rightarrow> bool" where
  "lanes_ok st \<longleftrightarrow> (\<forall>k peak a. map_of (pl_peaks st) k = Some (peak, a) \<longrightarrow> tlsf_inv a \<and> fst (tlsf_limits a) = 0)"

definition place_inv :: "event list \<Rightarrow> placing \<Rightarrow> bool" where
  "place_inv pre st \<longleftrightarrow> lanes_ok st
     \<and> (\<forall>p. opened pre p \<longrightarrow> placed_in st (live pre p) p)
     \<and> (\<forall>p q. live pre p \<longrightarrow> live pre q \<longrightarrow> p \<noteq> q \<longrightarrow> pb_lane p = pb_lane q \<longrightarrow>
          map_of (pl_offsets st) (pb_buf p) \<noteq> map_of (pl_offsets st) (pb_buf q))
     \<and> (\<forall>pre1 t p post1 q. pre = pre1 @ (t, True, p) # post1 \<longrightarrow> live pre1 q \<longrightarrow> pb_lane q = pb_lane p \<longrightarrow>
          disjoint_at (pl_offsets st) p q)"

lemma opened_snoc: "opened (pre @ [(t, opening, p)]) q \<longleftrightarrow> opened pre q \<or> opening \<and> q = p"
  by (auto simp: opened_def)

lemma closed_snoc: "closed (pre @ [(t, opening, p)]) q \<longleftrightarrow> closed pre q \<or> \<not> opening \<and> q = p"
  by (auto simp: closed_def)

lemma lane_state_ok:
  assumes "0 < total_memory" "lanes_ok st"
  shows "\<exists>peak a. lane_state total_memory st k = Inr (peak, a) \<and> tlsf_inv a \<and> fst (tlsf_limits a) = 0
    \<and> (map_of (pl_peaks st) k = Some (peak, a) \<or> map_of (pl_peaks st) k = None)"
proof (cases "map_of (pl_peaks st) k")
  case None
  have "bit_length 32 \<le> bit_length 256" by (simp add: bit_length.simps)
  then show ?thesis
    using None tlsf_init_ok [OF assms(1), of 256 32 0] by (auto simp: lane_state_def block_bytes_def tlsf_limits_def)
next
  case (Some x)
  then obtain peak a where "map_of (pl_peaks st) k = Some (peak, a)" by (cases x) simp
  moreover from this have "tlsf_inv a \<and> fst (tlsf_limits a) = 0" using assms(2) unfolding lanes_ok_def by blast
  ultimately show ?thesis by (simp add: lane_state_def)
qed

lemma open_step:
  assumes total: "0 < total_memory" and inv: "place_inv pre st" and fresh: "fresh_event pre (t, True, p)"
    and not_closed: "\<not> closed pre p"
  shows "case place_event total_memory (t, True, p) st of Inl e \<Rightarrow> e = MemoryError
    | Inr st' \<Rightarrow> place_inv (pre @ [(t, True, p)]) st'"
proof -
  have lanes: "lanes_ok st" using inv by (simp add: place_inv_def)
  obtain peak a where ls: "lane_state total_memory st (pb_lane p) = Inr (peak, a)" and a: "tlsf_inv a" "fst (tlsf_limits a) = 0"
    and pk: "map_of (pl_peaks st) (pb_lane p) = Some (peak, a) \<or> map_of (pl_peaks st) (pb_lane p) = None"
    using lane_state_ok [OF total lanes] by blast
  show ?thesis
  proof (cases "tlsf_alloc a (pb_bytes p) 1")
    case (Inl e)
    then show ?thesis using tlsf.alloc_error [OF a(1) _ Inl] by (simp add: place_event_def ls)
  next
    case (Inr r)
    then obtain o' a' where al: "tlsf_alloc a (pb_bytes p) 1 = Inr (o', a')" by (cases r) simp
    have one: "(1 :: int) \<le> 1" by simp
    obtain z where z: "pb_bytes p \<le> z" "tlsf_held a' = (tlsf_held a)(o' \<mapsto> z)" using tlsf.alloc_held [OF a(1) one al] by blast
    note new = tlsf.alloc_new [OF a(1) one al] and inv' = tlsf.alloc_inv [OF a(1) one al] and lim' = tlsf.alloc_limits [OF a(1) one al]
    have held': "tlsf_held a' o' = Some z" using z by simp
    have pos: "0 \<le> o'" using tlsf.held_limits [OF inv' held'] lim' a(2) by simp
    let ?st = "\<lparr>pl_offsets = dset (pb_buf p) o' (pl_offsets st), pl_peaks = dset (pb_lane p) (max peak (o' + pb_raw p), a') (pl_peaks st)\<rparr>"
    have ev: "place_event total_memory (t, True, p) st = Inr ?st" by (simp add: place_event_def ls al)
    have other: "opened pre q \<Longrightarrow> pb_buf q \<noteq> pb_buf p" for q using fresh by (simp add: fresh_event_def)
    have "lanes_ok ?st" using lanes inv' lim' a(2) by (auto simp: lanes_ok_def)
    moreover have was: "\<exists>o2 pk2 a2. map_of (pl_offsets st) (pb_buf q) = Some o2 \<and> map_of (pl_offsets ?st) (pb_buf q) = Some o2
        \<and> map_of (pl_peaks st) (pb_lane q) = Some (pk2, a2) \<and> 0 \<le> o2 \<and> o2 + pb_raw q \<le> pk2
        \<and> (pb_lane q = pb_lane p \<longrightarrow> pk2 = peak \<and> a2 = a)
        \<and> (live pre q \<longrightarrow> (\<exists>z2. pb_bytes q \<le> z2 \<and> tlsf_held a2 o2 = Some z2 \<and> (pb_lane q = pb_lane p \<longrightarrow> o2 \<noteq> o')))"
      if "opened pre q" for q
    proof -
      have "placed_in st (live pre q) q" using inv that by (simp add: place_inv_def)
      then obtain o2 pk2 a2 where o2: "map_of (pl_offsets st) (pb_buf q) = Some o2"
          "map_of (pl_peaks st) (pb_lane q) = Some (pk2, a2)" "0 \<le> o2" "o2 + pb_raw q \<le> pk2"
          "live pre q \<longrightarrow> (\<exists>z2. pb_bytes q \<le> z2 \<and> tlsf_held a2 o2 = Some z2)"
        unfolding placed_in_def by blast
      moreover have "pk2 = peak \<and> a2 = a" if "pb_lane q = pb_lane p" using pk o2(2) that by simp
      moreover have "o2 \<noteq> o'" if "pb_lane q = pb_lane p" "live pre q"
        using o2(5) that new \<open>pb_lane q = pb_lane p \<Longrightarrow> pk2 = peak \<and> a2 = a\<close> by auto
      ultimately show ?thesis using other [OF that] by auto
    qed
    have placed: "placed_in ?st (live (pre @ [(t, True, p)]) q) q" if "opened (pre @ [(t, True, p)]) q" for q
    proof (cases "q = p")
      case True
      then show ?thesis using pos held' z by (auto simp: placed_in_def)
    next
      case False
      then have o: "opened pre q" using that by (simp add: opened_snoc)
      have l: "live (pre @ [(t, True, p)]) q = live pre q" using False by (simp add: live_def opened_snoc closed_snoc)
      show ?thesis unfolding l
        using was [OF o] z(2) by (cases "pb_lane q = pb_lane p") (fastforce simp: placed_in_def)+
    qed
    have live_old: "live pre q" if "live (pre @ [(t, True, p)]) q" "q \<noteq> p" for q
      using that by (simp add: live_def opened_snoc closed_snoc)
    have offs_ne: "map_of (pl_offsets ?st) (pb_buf q) \<noteq> map_of (pl_offsets ?st) (pb_buf q')"
      if l: "live (pre @ [(t, True, p)]) q" "live (pre @ [(t, True, p)]) q'" "q \<noteq> q'" "pb_lane q = pb_lane q'" for q q'
    proof -
      have new_ne: "map_of (pl_offsets ?st) (pb_buf r) \<noteq> Some o'" if "live pre r" "pb_lane r = pb_lane p" for r
        using was [of r] that by (auto simp: live_def)
      have p_at: "map_of (pl_offsets ?st) (pb_buf p) = Some o'" by simp
      consider "q = p" "q' \<noteq> p" | "q' = p" "q \<noteq> p" | "q \<noteq> p" "q' \<noteq> p" using l(3) by blast
      then show ?thesis
      proof cases
        case 1
        then show ?thesis using new_ne [OF live_old [OF l(2)]] l(4) p_at by auto
      next
        case 2
        then show ?thesis using new_ne [OF live_old [OF l(1)]] l(4) p_at by auto
      next
        case 3
        have "live pre q" "live pre q'" using live_old l 3 by blast+
        moreover from this have "map_of (pl_offsets st) (pb_buf q) \<noteq> map_of (pl_offsets st) (pb_buf q')"
          using inv l(3,4) unfolding place_inv_def by blast
        ultimately show ?thesis using was [of q] was [of q'] by (auto simp: live_def)
      qed
    qed
    have disj: "disjoint_at (pl_offsets ?st) p' q"
      if d: "pre @ [(t, True, p)] = pre1 @ (t', True, p') # post1" "live pre1 q" "pb_lane q = pb_lane p'" for pre1 t' p' post1 q
    proof (cases post1 rule: rev_cases)
      case Nil
      then have e: "pre1 = pre" "p' = p" using d(1) by auto
      obtain o2 z2 where q: "map_of (pl_offsets ?st) (pb_buf q) = Some o2" "pb_bytes q \<le> z2" "tlsf_held a o2 = Some z2"
        using was [of q] d(2,3) e by (auto simp: live_def)
      have "{o'..<o' + pb_bytes p} \<inter> {o2..<o2 + z2} = {}"
        by (rule tlsf.alloc_fresh_disjoint [OF a(1) one al q(3)])
      moreover have "{o2..<o2 + pb_bytes q} \<subseteq> {o2..<o2 + z2}" using q(2) by auto
      ultimately have "{o'..<o' + pb_bytes p} \<inter> {o2..<o2 + pb_bytes q} = {}" by blast
      then show ?thesis unfolding disjoint_at_def e(2) using q(1) by auto
    next
      case (snoc post2 e)
      then have p2: "pre = pre1 @ (t', True, p') # post2" using d(1) by auto
      have "disjoint_at (pl_offsets st) p' q" using inv p2 d(2,3) unfolding place_inv_def by blast
      moreover have "opened pre p'" "opened pre q" using d(2) by (auto simp: p2 opened_def live_def)
      ultimately show ?thesis using was [of p'] was [of q] unfolding disjoint_at_def by fastforce
    qed
    show ?thesis using \<open>lanes_ok ?st\<close> placed offs_ne disj by (simp add: ev place_inv_def)
  qed
qed

lemma close_step:
  assumes inv: "place_inv pre st" and fresh: "fresh_event pre (t, False, p)"
  shows "\<exists>st'. place_event total_memory (t, False, p) st = Inr st' \<and> place_inv (pre @ [(t, False, p)]) st'"
proof -
  have lv: "live pre p" using fresh by (simp add: fresh_event_def)
  have lanes: "lanes_ok st" and placed: "opened pre q \<Longrightarrow> placed_in st (live pre q) q" for q
    using inv by (simp_all add: place_inv_def)
  obtain o' peak a z where off: "map_of (pl_offsets st) (pb_buf p) = Some o'"
      and pk: "map_of (pl_peaks st) (pb_lane p) = Some (peak, a)" and pos: "0 \<le> o'" "o' + pb_raw p \<le> peak"
      and held: "tlsf_held a o' = Some z"
    using placed [of p] lv by (auto simp: live_def placed_in_def)
  have a: "tlsf_inv a" "fst (tlsf_limits a) = 0" using lanes pk unfolding lanes_ok_def by blast+
  obtain a' where a': "tlsf_free a o' = Inr a'" "tlsf_inv a'" "tlsf_held a' = (tlsf_held a)(o' := None)" "tlsf_limits a' = tlsf_limits a"
    using tlsf.free_ok [OF a(1) held] by blast
  let ?st = "\<lparr>pl_offsets = pl_offsets st, pl_peaks = dset (pb_lane p) (max peak (o' + pb_raw p), a') (pl_peaks st)\<rparr>"
  have ev: "place_event total_memory (t, False, p) st = Inr ?st"
    by (simp add: place_event_def lane_state_def pk off a'(1))
  have ok: "lanes_ok ?st" using lanes a' a by (auto simp: lanes_ok_def)
  have live_iff: "live (pre @ [(t, False, p)]) q \<longleftrightarrow> live pre q \<and> q \<noteq> p" for q
    by (auto simp: live_def opened_snoc closed_snoc)
  have placed': "placed_in ?st (live (pre @ [(t, False, p)]) q) q" if o: "opened pre q" for q
  proof -
    obtain o2 pk2 a2 where o2: "map_of (pl_offsets st) (pb_buf q) = Some o2"
        "map_of (pl_peaks st) (pb_lane q) = Some (pk2, a2)" "0 \<le> o2" "o2 + pb_raw q \<le> pk2"
        "live pre q \<longrightarrow> (\<exists>z2. pb_bytes q \<le> z2 \<and> tlsf_held a2 o2 = Some z2)"
      using placed [OF o] unfolding placed_in_def by blast
    show ?thesis
    proof (cases "pb_lane q = pb_lane p")
      case True
      then have e: "pk2 = peak" "a2 = a" using o2(2) pk by simp_all
      have "o2 \<noteq> o'" if "live pre q" "q \<noteq> p"
      proof -
        have "map_of (pl_offsets st) (pb_buf q) \<noteq> map_of (pl_offsets st) (pb_buf p)"
          using inv that lv True unfolding place_inv_def by blast
        then show ?thesis using o2(1) off by simp
      qed
      then show ?thesis using o2 e True a'(3) by (auto simp: placed_in_def live_iff)
    next
      case False
      then show ?thesis using o2 by (auto simp: placed_in_def live_iff)
    qed
  qed
  have disj: "disjoint_at (pl_offsets ?st) p' q"
    if "pre @ [(t, False, p)] = pre1 @ (t', True, p') # post1" "live pre1 q" "pb_lane q = pb_lane p'" for pre1 t' p' post1 q
  proof (cases post1 rule: rev_cases)
    case Nil
    then show ?thesis using that(1) by auto
  next
    case (snoc post2 e)
    then have p2: "pre = pre1 @ (t', True, p') # post2" using that(1) by auto
    have "disjoint_at (pl_offsets st) p' q" using inv p2 that(2,3) unfolding place_inv_def by blast
    then show ?thesis by simp
  qed
  have ne: "map_of (pl_offsets ?st) (pb_buf q) \<noteq> map_of (pl_offsets ?st) (pb_buf q')"
    if "live (pre @ [(t, False, p)]) q" "live (pre @ [(t, False, p)]) q'" "q \<noteq> q'" "pb_lane q = pb_lane q'" for q q'
    using that inv unfolding live_iff place_inv_def by simp
  have "place_inv (pre @ [(t, False, p)]) ?st"
    unfolding place_inv_def opened_snoc using ok placed' ne disj by blast
  then show ?thesis using ev by blast
qed

lemma replay:
  assumes total: "0 < total_memory" and ord: "\<And>pre e post. evs = pre @ e # post \<Longrightarrow> fresh_event pre e"
    and clo: "\<And>pre t p post. evs = pre @ (t, True, p) # post \<Longrightarrow> \<not> closed pre p"
  shows "case rfold (place_event total_memory) evs \<lparr>pl_offsets = [], pl_peaks = []\<rparr> of Inl e \<Rightarrow> e = MemoryError
    | Inr st \<Rightarrow> place_inv evs st"
  using ord clo
proof (induction evs rule: rev_induct)
  case Nil
  then show ?case by (simp add: place_inv_def lanes_ok_def live_def opened_def)
next
  case (snoc e evs)
  have IH: "case rfold (place_event total_memory) evs \<lparr>pl_offsets = [], pl_peaks = []\<rparr> of Inl e \<Rightarrow> e = MemoryError | Inr st \<Rightarrow> place_inv evs st"
    by (rule snoc.IH) (use snoc.prems in auto)
  obtain t up p where e: "e = (t, up, p)" by (cases e) auto
  have fr: "fresh_event evs e" and nc: "up \<Longrightarrow> \<not> closed evs p" using snoc.prems e by auto
  show ?case
  proof (cases "rfold (place_event total_memory) evs \<lparr>pl_offsets = [], pl_peaks = []\<rparr>")
    case (Inl err)
    then show ?thesis using IH by (simp add: rfold_append)
  next
    case (Inr st)
    then have inv: "place_inv evs st" using IH by simp
    show ?thesis
    proof (cases up)
      case True
      then have "fresh_event evs (t, True, p)" using fr e by simp
      from open_step [OF total inv this nc [OF True]] show ?thesis
        using Inr True by (auto simp: rfold_append e split: sum.splits)
    next
      case False
      then have "fresh_event evs (t, False, p)" using fr e by simp
      from close_step [OF inv this, of total_memory] show ?thesis
        using Inr False by (auto simp: rfold_append e)
    qed
  qed
qed

section \<open>The order of the events\<close>

abbreviation event_key :: "event \<Rightarrow> int \<times> bool" where
  "event_key e \<equiv> (fst e, fst (snd e))"

lemma events_key: "events ps = sort_key event_key (map (\<lambda>p. (pb_first p, True, p)) ps @ map (\<lambda>p. (pb_close p, False, p)) ps)"
proof -
  have "(\<lambda>(t, up, p). (t, up)) = event_key" by auto
  then show ?thesis by (simp only: events_def)
qed

lemma set_events: "set (events ps) = (\<lambda>p. (pb_first p, True, p)) ` set ps \<union> (\<lambda>p. (pb_close p, False, p)) ` set ps"
  by (simp add: events_key)

lemma distinct_events: "distinct ps \<Longrightarrow> distinct (events ps)"
  by (auto simp: events_key distinct_map inj_on_def)

lemma sorted_events: "sorted (map event_key (events ps))"
  by (simp add: events_key)

text \<open>An event with a smaller key stands before one with a larger key.\<close>

lemma earlier_event:
  assumes "events ps = pre @ e # post" "d \<in> set (events ps)" "event_key d < event_key e"
  shows "d \<in> set pre"
proof -
  have "sorted (map event_key pre @ event_key e # map event_key post)" using sorted_events [of ps] assms(1) by simp
  then have "\<forall>x \<in> set post. event_key e \<le> event_key x" by (simp add: sorted_append)
  then show ?thesis using assms by auto
qed

lemma later_event:
  assumes "events ps = pre @ e # post" "event_key e < event_key d"
  shows "d \<notin> set pre"
proof
  assume "d \<in> set pre"
  moreover have "sorted (map event_key pre @ event_key e # map event_key post)" using sorted_events [of ps] assms(1) by simp
  ultimately have "event_key d \<le> event_key e" by (simp add: sorted_append)
  then show False using assms(2) by (metis leD)
qed

section \<open>Lifetimes\<close>

definition covers_uses :: "(int \<times> uop) set \<Rightarrow> lifetimes \<Rightarrow> bool" where
  "covers_uses U l \<longleftrightarrow> distinct (map fst (lt_first l))
     \<and> (\<forall>b. map_of (lt_first l) b = None \<longleftrightarrow> map_of (lt_last l) b = None)
     \<and> (\<forall>b f g. map_of (lt_first l) b = Some f \<longrightarrow> map_of (lt_last l) b = Some g \<longrightarrow> f \<le> g)
     \<and> (\<forall>i b. (i, b) \<in> U \<longrightarrow> (\<exists>f g. map_of (lt_first l) b = Some f \<and> map_of (lt_last l) b = Some g \<and> f \<le> i \<and> i \<le> g))"

definition before :: "int \<Rightarrow> lifetimes \<Rightarrow> bool" where
  "before i l \<longleftrightarrow> (\<forall>b g. map_of (lt_last l) b = Some g \<longrightarrow> g \<le> i)"

lemma covers_last:
  assumes "covers_uses U l" "map_of (lt_first l) b = Some f"
  shows "\<exists>g. map_of (lt_last l) b = Some g \<and> f \<le> g"
proof (cases "map_of (lt_last l) b")
  case None
  then have "map_of (lt_first l) b = None" using assms(1) unfolding covers_uses_def by blast
  then show ?thesis using assms(2) by simp
next
  case (Some g)
  then have "f \<le> g" using assms unfolding covers_uses_def by blast
  then show ?thesis using Some by blast
qed

lemma note_buf_covers:
  assumes "covers_uses U l" "before i l"
  shows "covers_uses (insert (i, b) U) (note_buf i b l) \<and> before i (note_buf i b l)"
proof -
  obtain f where f: "map_of (lt_first (note_buf i b l)) b = Some f" "f \<le> i"
  proof (cases "map_of (lt_first l) b")
    case None
    then show ?thesis using that by (simp add: note_buf_def)
  next
    case (Some f)
    then have "f \<le> i" using covers_last [OF assms(1)] assms(2) unfolding before_def by (meson order_trans)
    then show ?thesis using that Some by (simp add: note_buf_def)
  qed
  have other: "map_of (lt_first (note_buf i b l)) c = map_of (lt_first l) c" "map_of (lt_last (note_buf i b l)) c = map_of (lt_last l) c"
    if "c \<noteq> b" for c using that by (simp_all add: note_buf_def)
  have last: "map_of (lt_last (note_buf i b l)) b = Some i" by (simp add: note_buf_def)
  have "distinct (map fst (lt_first (note_buf i b l)))"
    using assms(1) by (simp add: note_buf_def covers_uses_def distinct_dset)
  moreover have "map_of (lt_first (note_buf i b l)) c = None \<longleftrightarrow> map_of (lt_last (note_buf i b l)) c = None" for c
    using assms(1) f last other [of c] by (cases "c = b") (auto simp: covers_uses_def)
  moreover have "x \<le> g" if "map_of (lt_first (note_buf i b l)) c = Some x" "map_of (lt_last (note_buf i b l)) c = Some g" for c x g
    using assms(1) f last other [of c] that by (cases "c = b") (auto simp: covers_uses_def)
  moreover have "\<exists>x g. map_of (lt_first (note_buf i b l)) c = Some x \<and> map_of (lt_last (note_buf i b l)) c = Some g \<and> x \<le> j \<and> j \<le> g"
    if u: "(j, c) \<in> insert (i, b) U" for j c
  proof (cases "(j, c) \<in> U")
    case True
    then obtain x g where x: "map_of (lt_first l) c = Some x" "map_of (lt_last l) c = Some g" "x \<le> j" "j \<le> g"
      using assms(1) unfolding covers_uses_def by blast
    show ?thesis
    proof (cases "c = b")
      case True
      then have "g \<le> i" using assms(2) x(2) unfolding before_def by blast
      then show ?thesis using True x last by (simp add: note_buf_def)
    next
      case False
      then show ?thesis using x other by simp
    qed
  next
    case False
    then show ?thesis using u f last by auto
  qed
  moreover have "before i (note_buf i b l)" using assms(2) by (auto simp: before_def note_buf_def)
  ultimately show ?thesis unfolding covers_uses_def by blast
qed

lemma note_bufs_cover:
  "covers_uses U l \<Longrightarrow> before i l \<Longrightarrow>
     covers_uses (Pair i ` set bs \<union> U) (fold (note_buf i) bs l) \<and> before i (fold (note_buf i) bs l)"
proof (induction bs arbitrary: U l)
  case (Cons b bs)
  from note_buf_covers [OF Cons.prems] have "covers_uses (insert (i, b) U) (note_buf i b l)" "before i (note_buf i b l)" by blast+
  from Cons.IH [OF this] show ?case by (simp add: insert_commute)
qed simp

definition uses :: "(string \<Rightarrow> bool) \<Rightarrow> uop set \<Rightarrow> uop list \<Rightarrow> (int \<times> uop) set" where
  "uses has_offset held sis = {(int i, b) | i b bufs. i < length sis \<and> item_bufs has_offset held (sis ! i) = Inr bufs \<and> b \<in> set bufs}"

lemma lifetimes_cover:
  assumes "lifetimes_of has_offset held sis = Inr l"
  shows "covers_uses (uses has_offset held sis) l"
proof -
  have "covers_uses (uses has_offset held sis) l \<and> before (int (length sis)) l"
    using assms
  proof (induction sis arbitrary: l rule: rev_induct)
    case Nil
    then show ?case by (auto simp: lifetimes_of_def covers_uses_def before_def uses_def)
  next
    case (snoc si sis)
    obtain l1 where l1: "lifetimes_of has_offset held sis = Inr l1" and n: "note_item has_offset held (length sis, si) l1 = Inr l"
      using snoc.prems by (auto simp: lifetimes_of_def enumerate_append_eq rfold_append rbind_eq_Inr)
    note IH = snoc.IH [OF l1]
    obtain bufs where b: "item_bufs has_offset held si = Inr bufs"
      using n by (auto simp: note_item_def rbind_eq_Inr)
    let ?l = "fold (note_buf (int (length sis))) bufs l1"
    have l: "lt_first l = lt_first ?l" "lt_last l = lt_last ?l"
      using n b by (auto simp: note_item_def rbind_eq_Inr Let_def split: if_splits)
    have u: "uses has_offset held (sis @ [si]) = Pair (int (length sis)) ` set bufs \<union> uses has_offset held sis"
      using b by (auto simp: uses_def nth_append less_Suc_eq)
    have "covers_uses (uses has_offset held (sis @ [si])) ?l" "before (int (length sis)) ?l"
      using note_bufs_cover [of _ l1 "int (length sis)" bufs] IH unfolding u by blast+
    moreover have "covers_uses U l = covers_uses U ?l" "before i l = before i ?l" for U i
      unfolding covers_uses_def before_def l by (rule refl)+
    ultimately have "covers_uses (uses has_offset held (sis @ [si])) l" "before (int (length sis)) l" by simp_all
    then show ?case by (fastforce simp: before_def)
  qed
  then show ?thesis ..
qed

lemma planned_bufs_ok:
  assumes "planned_bufs has_offset held sis = Inr ps"
  shows "distinct (map pb_buf ps)" "\<And>p. p \<in> set ps \<Longrightarrow> pb_first p < pb_close p"
    "\<And>i b. (i, b) \<in> uses has_offset held sis \<Longrightarrow> \<exists>p \<in> set ps. pb_buf p = b \<and> pb_first p \<le> i \<and> i < pb_close p"
proof -
  obtain l where l: "lifetimes_of has_offset held sis = Inr l" and ps: "rmap (planned_buf_of l) (lt_first l) = Inr ps"
    using assms by (auto simp: planned_bufs_def rbind_eq_Inr)
  note covers = lifetimes_cover [OF l]
  note cov = covers [unfolded covers_uses_def]
  have len: "length ps = length (lt_first l)" and at: "i < length ps \<Longrightarrow> planned_buf_of l (lt_first l ! i) = Inr (ps ! i)" for i
    using ps by (auto simp: rmap_eq_Inr_iff)
  have fields: "pb_buf (ps ! i) = fst (lt_first l ! i) \<and> pb_first (ps ! i) = snd (lt_first l ! i)
      \<and> (\<exists>g. map_of (lt_last l) (fst (lt_first l ! i)) = Some g \<and> g < pb_close (ps ! i))" if "i < length ps" for i
  proof -
    obtain b f where bf: "lt_first l ! i = (b, f)" by (cases "lt_first l ! i")
    have "(b, f) \<in> set (lt_first l)" using that len bf by (metis nth_mem)
    then have "map_of (lt_first l) b = Some f" using cov by simp
    then obtain g where g: "map_of (lt_last l) b = Some g" "f \<le> g" using covers_last [OF covers] by blast
    note i = that
    have "\<exists>lane raw. ps ! i = \<lparr>pb_buf = b, pb_lane = lane, pb_raw = raw, pb_first = f,
        pb_close = g + 1 + (if b \<in> set (lt_copy l) then g - f + 1 else 0)\<rparr>"
      using at [OF i] unfolding planned_buf_of_def bf by (auto simp: rbind_eq_Inr g(1) simp del: split_paired_Ex) (metis surj_pair)+
    then show ?thesis using g bf by auto
  qed
  have first: "map pb_buf ps = map fst (lt_first l)"
    using fields len by (intro nth_equalityI) auto
  then show "distinct (map pb_buf ps)" using cov by simp
  have entry: "\<exists>g. map_of (lt_first l) (pb_buf p) = Some (pb_first p) \<and> map_of (lt_last l) (pb_buf p) = Some g \<and> g < pb_close p"
    if "p \<in> set ps" for p
  proof -
    obtain i where i: "i < length ps" "p = ps ! i" using \<open>p \<in> set ps\<close> by (auto simp: in_set_conv_nth)
    have "lt_first l ! i \<in> set (lt_first l)" using i len by simp
    then have "(pb_buf p, pb_first p) \<in> set (lt_first l)" using fields [OF i(1)] i(2) by simp
    then have "map_of (lt_first l) (pb_buf p) = Some (pb_first p)" using cov by simp
    then show ?thesis using fields [OF i(1)] i(2) by auto
  qed
  show "pb_first p < pb_close p" if "p \<in> set ps" for p
    using entry [OF that] covers_last [OF covers] by fastforce
  show "\<exists>p \<in> set ps. pb_buf p = b \<and> pb_first p \<le> i \<and> i < pb_close p" if u: "(i, b) \<in> uses has_offset held sis" for i b
  proof -
    obtain f g where fg: "map_of (lt_first l) b = Some f" "map_of (lt_last l) b = Some g" "f \<le> i" "i \<le> g"
      using cov u by blast
    then have "b \<in> set (map fst (lt_first l))" by (metis map_of_eq_None_iff option.distinct(1) set_map)
    then obtain p where p: "p \<in> set ps" "pb_buf p = b" using first by (metis imageE set_map)
    then show ?thesis using entry [OF p(1)] fg by auto
  qed
qed

section \<open>The plan\<close>

lemma pb_bytes_ge: "pb_raw p \<le> pb_bytes p"
  unfolding pb_bytes_def block_bytes_def by (rule round_up_ge) simp

lemma events_fresh:
  assumes d: "distinct (map pb_buf ps)" and pos: "\<And>p. p \<in> set ps \<Longrightarrow> pb_first p < pb_close p"
    and e: "events ps = pre @ e # post"
  shows "fresh_event pre e" and "e = (t, True, p) \<Longrightarrow> \<not> closed pre p"
proof -
  have dist: "distinct (events ps)" using d by (simp add: distinct_events distinct_map)
  have inj: "p = q" if "p \<in> set ps" "q \<in> set ps" "pb_buf p = pb_buf q" for p q
    using d that by (simp add: distinct_map inj_on_def)
  have mem: "x \<in> set pre \<Longrightarrow> x \<in> set (events ps)" for x by (simp add: e)
  have open_at: "t' = pb_first q \<and> q \<in> set ps" if "(t', True, q) \<in> set (events ps)" for t' q
    using that by (auto simp: set_events)
  have close_at: "t' = pb_close q \<and> q \<in> set ps" if "(t', False, q) \<in> set (events ps)" for t' q
    using that by (auto simp: set_events)
  have self: "e \<in> set (events ps)" by (simp add: e)
  show nc: "\<not> closed pre p" if "e = (t, True, p)"
  proof
    assume "closed pre p"
    then obtain t' where c: "(t', False, p) \<in> set pre" by (auto simp: closed_def)
    have "t' = pb_close p" "t = pb_first p" "p \<in> set ps" using close_at [OF mem [OF c]] open_at self that by auto
    then have "event_key e < event_key (t', False, p)" using pos that by simp
    then show False using later_event [OF e] c by blast
  qed
  show "fresh_event pre e"
  proof -
    obtain t up p where tup: "e = (t, up, p)" by (cases e) auto
    show ?thesis
    proof (cases up)
      case True
      have "pb_buf q \<noteq> pb_buf p" if o: "opened pre q" for q
      proof
        assume b: "pb_buf q = pb_buf p"
        obtain t' where q: "(t', True, q) \<in> set pre" using o by (auto simp: opened_def)
        have "q = p" using inj [OF _ _ b] open_at [OF mem [OF q]] open_at self tup True by auto
        then have "e \<in> set pre" using q open_at [OF mem [OF q]] open_at self tup True by auto
        then show False using dist by (simp add: e)
      qed
      then show ?thesis using tup True by (simp add: fresh_event_def)
    next
      case False
      have p: "t = pb_close p" "p \<in> set ps" using close_at self tup False by auto
      have "event_key (pb_first p, True, p) < event_key e" using pos [OF p(2)] p(1) tup by simp
      moreover have "(pb_first p, True, p) \<in> set (events ps)" using p(2) by (simp add: set_events)
      ultimately have "opened pre p" using earlier_event [OF e] unfolding opened_def by blast
      moreover have "\<not> closed pre p"
      proof
        assume "closed pre p"
        then obtain t' where c: "(t', False, p) \<in> set pre" by (auto simp: closed_def)
        then have "t' = t" using close_at [OF mem [OF c]] p(1) by simp
        then show False using c dist tup False by (auto simp: e)
      qed
      ultimately show ?thesis using tup False by (simp add: fresh_event_def live_def)
    qed
  qed
qed

lemma plan_run:
  assumes pb: "planned_bufs has_offset held sis = Inr ps" and sizes: "list_all (\<lambda>p. 0 < pb_raw p) ps"
  shows "case rfold (place_event (sum_list (map pb_bytes ps) * 2)) (events ps) \<lparr>pl_offsets = [], pl_peaks = []\<rparr> of
      Inl e \<Rightarrow> e = MemoryError | Inr st \<Rightarrow> place_inv (events ps) st"
proof (cases ps)
  case Nil
  then show ?thesis by (simp add: events_def place_inv_def lanes_ok_def opened_def live_def)
next
  case (Cons p qs)
  have "0 < pb_bytes q" if "q \<in> set ps" for q
    using sizes that pb_bytes_ge [of q] by (auto simp: list_all_iff)
  then have "0 < sum_list (map pb_bytes ps) * 2"
    using Cons sum_list_nonneg [of "map pb_bytes qs"] by (fastforce simp: less_imp_le)
  then show ?thesis
    by (rule replay) (rule events_fresh [OF planned_bufs_ok(1,2) [OF pb]], (assumption | rule refl)+)+
qed

lemma overlapping_lifetimes:
  assumes pb: "planned_bufs has_offset held sis = Inr ps" and inv: "place_inv (events ps) st"
    and pq: "p \<in> set ps" "q \<in> set ps" "p \<noteq> q" "pb_lane p = pb_lane q"
    and life: "pb_first p < pb_close q" "pb_first q < pb_close p"
  shows "disjoint_at (pl_offsets st) p q"
proof -
  have dist: "distinct (events ps)"
    using planned_bufs_ok(1) [OF pb] by (simp add: distinct_events distinct_map)
  have later: "disjoint_at (pl_offsets st) p q"
    if ev: "events ps = pre @ (pb_first p, True, p) # post" and o: "opened pre q"
      and lane: "pb_lane q = pb_lane p" and l: "pb_first p < pb_close q" for pre post p q
  proof -
    have "\<not> closed pre q"
    proof
      assume "closed pre q"
      then obtain t where c: "(t, False, q) \<in> set pre" by (auto simp: closed_def)
      then have "(t, False, q) \<in> set (events ps)" by (simp add: ev)
      then have "t = pb_close q" by (auto simp: set_events)
      then have "event_key (pb_first p, True, p) < event_key (t, False, q)" using l by simp
      then show False using later_event [OF ev] c by blast
    qed
    then have "live pre q" using o by (simp add: live_def)
    then show ?thesis using inv ev lane unfolding place_inv_def by blast
  qed
  have sym: "disjoint_at (pl_offsets st) q p \<Longrightarrow> disjoint_at (pl_offsets st) p q"
    by (auto simp: disjoint_at_def)
  have "(pb_first p, True, p) \<in> set (events ps)" "(pb_first q, True, q) \<in> set (events ps)"
    using pq by (auto simp: set_events)
  then obtain pre post where pre: "events ps = pre @ (pb_first p, True, p) # post" by (meson split_list)
  show ?thesis
  proof (cases "(pb_first q, True, q) \<in> set pre")
    case True
    then show ?thesis using later [OF pre] pq(4) life(1) by (auto simp: opened_def)
  next
    case False
    then have "(pb_first q, True, q) \<in> set post"
      using \<open>(pb_first q, True, q) \<in> set (events ps)\<close> pq(3) by (auto simp: pre)
    then obtain mid post2 where "post = mid @ (pb_first q, True, q) # post2" by (meson split_list)
    then have "events ps = (pre @ (pb_first p, True, p) # mid) @ (pb_first q, True, q) # post2" by (simp add: pre)
    from later [OF this _ pq(4) life(2)] show ?thesis by (auto simp: opened_def intro!: sym)
  qed
qed

lemma plan_arena: "map_of ps k = Some (peak, a) \<Longrightarrow>
    map_of (map (\<lambda>(k, peak, a). (k, round_up peak block_bytes)) ps) k = Some (round_up peak block_bytes)"
  by (induction ps) auto

lemma used_span:
  assumes pb: "planned_bufs has_offset held sis = Inr ps" and p: "p \<in> set ps" and u: "(i, pb_buf p) \<in> uses has_offset held sis"
  shows "pb_first p \<le> i \<and> i < pb_close p"
proof -
  obtain q where q: "q \<in> set ps" "pb_buf q = pb_buf p" "pb_first q \<le> i" "i < pb_close q"
    using planned_bufs_ok(3) [OF pb u] by blast
  have "q = p" using planned_bufs_ok(1) [OF pb] p q(1,2) by (auto simp: distinct_map dest: inj_onD)
  then show ?thesis using q by simp
qed

section \<open>Properties\<close>

text \<open>Property C6.  The planner either runs out of memory or places every buffer that the schedule uses inside the
arena of its lane, and two buffers of a lane share no byte if one of them is used at a step that lies between two
uses of the other (or at one of them); in particular no release and no lookup of the replay fails.\<close>

theorem memory_plan_safe:
  assumes "planned_bufs has_offset held sis = Inr ps" and "list_all (\<lambda>p. 0 < pb_raw p) ps"
  shows "case memory_plan_rewrite has_offset held sis of Inl e \<Rightarrow> e = MemoryError
    | Inr plan \<Rightarrow> (\<forall>(i, b) \<in> uses has_offset held sis. b \<in> pb_buf ` set ps)
      \<and> (\<forall>p \<in> set ps. \<exists>start n. map_of (mp_offsets plan) (pb_buf p) = Some start
          \<and> map_of (mp_arenas plan) (pb_lane p) = Some n \<and> 0 \<le> start \<and> start + pb_raw p \<le> n)
      \<and> (\<forall>p q i j k. p \<in> set ps \<and> q \<in> set ps \<and> p \<noteq> q \<and> pb_lane p = pb_lane q \<and> i \<le> j \<and> j \<le> k
          \<and> (i, pb_buf p) \<in> uses has_offset held sis \<and> (k, pb_buf p) \<in> uses has_offset held sis
          \<and> (j, pb_buf q) \<in> uses has_offset held sis \<longrightarrow> disjoint_at (mp_offsets plan) p q)"
proof (cases "rfold (place_event (sum_list (map pb_bytes ps) * 2)) (events ps) \<lparr>pl_offsets = [], pl_peaks = []\<rparr>")
  case (Inl e)
  then show ?thesis using plan_run [OF assms] by (simp add: memory_plan_rewrite_def assms(1))
next
  case (Inr st)
  then have inv: "place_inv (events ps) st" using plan_run [OF assms] by simp
  let ?plan = "\<lparr>mp_bufs = ps, mp_offsets = pl_offsets st, mp_arenas = map (\<lambda>(k, peak, a). (k, round_up peak block_bytes)) (pl_peaks st)\<rparr>"
  have run: "memory_plan_rewrite has_offset held sis = Inr ?plan" by (simp add: memory_plan_rewrite_def assms(1) Inr)
  have arena: "\<exists>start n. map_of (mp_offsets ?plan) (pb_buf p) = Some start \<and> map_of (mp_arenas ?plan) (pb_lane p) = Some n
      \<and> 0 \<le> start \<and> start + pb_raw p \<le> n" if "p \<in> set ps" for p
  proof -
    have "opened (events ps) p" using that by (auto simp: opened_def set_events)
    then obtain start peak a where p: "map_of (pl_offsets st) (pb_buf p) = Some start" "map_of (pl_peaks st) (pb_lane p) = Some (peak, a)"
        "0 \<le> start" "start + pb_raw p \<le> peak"
      using inv unfolding place_inv_def placed_in_def by blast
    have "peak \<le> round_up peak block_bytes" unfolding block_bytes_def by (rule round_up_ge) simp
    then show ?thesis using p plan_arena [OF p(2)] by simp
  qed
  have disj: "disjoint_at (mp_offsets ?plan) p q"
    if "p \<in> set ps" "q \<in> set ps" "p \<noteq> q" "pb_lane p = pb_lane q" "i \<le> j" "j \<le> k" "(i, pb_buf p) \<in> uses has_offset held sis"
      "(k, pb_buf p) \<in> uses has_offset held sis" "(j, pb_buf q) \<in> uses has_offset held sis" for p q i j k
    using used_span [OF assms(1) that(1,7)] used_span [OF assms(1) that(1,8)] used_span [OF assms(1) that(2,9)]
      overlapping_lifetimes [OF assms(1) inv that(1-4)] that(5,6) by simp
  have "\<forall>(i, b) \<in> uses has_offset held sis. b \<in> pb_buf ` set ps" using planned_bufs_ok(3) [OF assms(1)] by fast
  with arena disj show ?thesis unfolding run sum.case by blast
qed

definition example_buf :: "int \<Rightarrow> int \<Rightarrow> uop" where
  "example_buf i n = UOp ''BUFFER'' dt_int8 [UOp ''UNIQUE'' dt_void [] (PInt i) NoTag, UOp ''DEVICE'' dt_void [] (PStr ''AMD'') NoTag]
     (PInt n) NoTag"

lemma example_allocs:
  "rok (rbind (tlsf_init 1536 0 block_bytes 32) (\<lambda>a. rbind (tlsf_alloc a 512 1) (\<lambda>(x, a). tlsf_alloc a 256 1)))"
  by code_simp

lemma example_replay:
  "\<exists>a0 x a1 y a2 a3 a4. tlsf_init 1536 0 block_bytes 32 = Inr a0 \<and> tlsf_alloc a0 512 1 = Inr (x, a1)
     \<and> tlsf_alloc a1 256 1 = Inr (y, a2) \<and> tlsf_free a2 x = Inr a3 \<and> tlsf_free a3 y = Inr a4"
proof -
  obtain a0 x a1 y a2 where a: "tlsf_init 1536 0 block_bytes 32 = Inr a0" "tlsf_alloc a0 512 1 = Inr (x, a1)"
      "tlsf_alloc a1 256 1 = Inr (y, a2)"
    using example_allocs by (auto simp: rok_iff rbind_eq_Inr)
  have one: "(1 :: int) \<le> 1" and bl: "bit_length 32 \<le> bit_length 256" by (simp_all add: bit_length.simps)
  have i0: "tlsf_inv a0" using tlsf_init_ok [of 1536 256 32 0] bl a(1) by (auto simp: block_bytes_def)
  note i1 = tlsf.alloc_inv [OF i0 one a(2)] note i2 = tlsf.alloc_inv [OF i1 one a(3)]
  obtain z w where zw: "tlsf_held a1 = (tlsf_held a0)(x \<mapsto> z)" "tlsf_held a2 = (tlsf_held a1)(y \<mapsto> w)"
    using tlsf.alloc_held [OF i0 one a(2)] tlsf.alloc_held [OF i1 one a(3)] by blast
  have "y \<noteq> x" using tlsf.alloc_new [OF i1 one a(3)] zw(1) by auto
  then have "tlsf_held a2 x = Some z" using zw by simp
  from tlsf.free_ok [OF i2 this] obtain a3 where a3: "tlsf_free a2 x = Inr a3" "tlsf_inv a3" "tlsf_held a3 = (tlsf_held a2)(x := None)"
    by blast
  have "tlsf_held a3 y = Some w" using a3(3) zw \<open>y \<noteq> x\<close> by simp
  from tlsf.free_ok [OF a3(2) this] show ?thesis using a a3(1) by blast
qed

definition example_schedule :: "uop list" where
  "example_schedule = [UOp ''CALL'' dt_void [UOp ''PROGRAM'' dt_void [] PNone NoTag, example_buf 1 300, example_buf 2 100] PNone NoTag]"

lemma example_planned:
  "planned_bufs (\<lambda>_. True) {} example_schedule = Inr
     [\<lparr>pb_buf = example_buf 1 300, pb_lane = (PStr ''AMD'', 0), pb_raw = 300, pb_first = 0, pb_close = 1\<rparr>,
      \<lparr>pb_buf = example_buf 2 100, pb_lane = (PStr ''AMD'', 0), pb_raw = 100, pb_first = 0, pb_close = 1\<rparr>]"
  by code_simp

lemma replay_two:
  assumes "pb_lane p = pb_lane q" "pb_buf p \<noteq> pb_buf q" "pb_bytes p = 512" "pb_bytes q = 256"
    "pb_first p = 0" "pb_first q = 0" "pb_close p = 1" "pb_close q = 1"
  shows "rok (rfold (place_event 1536) (events [p, q]) \<lparr>pl_offsets = [], pl_peaks = []\<rparr>)"
proof -
  obtain a0 x a1 y a2 a3 a4 where a: "tlsf_init 1536 0 block_bytes 32 = Inr a0" "tlsf_alloc a0 512 1 = Inr (x, a1)"
      "tlsf_alloc a1 256 1 = Inr (y, a2)" "tlsf_free a2 x = Inr a3" "tlsf_free a3 y = Inr a4"
    using example_replay by blast
  have "events [p, q] = [(0, True, p), (0, True, q), (1, False, p), (1, False, q)]"
    using assms by (simp add: events_def)
  then show ?thesis using assms a by (simp add: place_event_def lane_state_def rok_iff)
qed

lemma memory_plan_safe_witness:
  "\<exists>ps plan. planned_bufs (\<lambda>_. True) {} example_schedule = Inr ps \<and> memory_plan_rewrite (\<lambda>_. True) {} example_schedule = Inr plan
     \<and> map pb_buf ps = [example_buf 1 300, example_buf 2 100]
     \<and> (\<forall>p \<in> set ps. \<exists>start n. map_of (mp_offsets plan) (pb_buf p) = Some start
          \<and> map_of (mp_arenas plan) (pb_lane p) = Some n \<and> 0 \<le> start \<and> start + pb_raw p \<le> n)"
proof -
  let ?p = "\<lparr>pb_buf = example_buf 1 300, pb_lane = (PStr ''AMD'', 0), pb_raw = 300, pb_first = 0, pb_close = 1\<rparr>"
  let ?q = "\<lparr>pb_buf = example_buf 2 100, pb_lane = (PStr ''AMD'', 0), pb_raw = 100, pb_first = 0, pb_close = 1\<rparr>"
  have bytes: "pb_bytes ?p = 512" "pb_bytes ?q = 256" by (simp_all add: pb_bytes_def block_bytes_def round_up_def)
  have "example_buf 1 300 \<noteq> example_buf 2 100" by (simp add: example_buf_def)
  then have "rok (rfold (place_event 1536) (events [?p, ?q]) \<lparr>pl_offsets = [], pl_peaks = []\<rparr>)"
    by (intro replay_two) (simp_all only: bytes planned_buf.simps simp_thms)
  then have "rok (memory_plan_rewrite (\<lambda>_. True) {} example_schedule)"
    by (auto simp: memory_plan_rewrite_def example_planned bytes rok_iff)
  then obtain plan where plan: "memory_plan_rewrite (\<lambda>_. True) {} example_schedule = Inr plan" by (auto simp: rok_iff)
  have "list_all (\<lambda>p. 0 < pb_raw p) [?p, ?q]" by simp
  from memory_plan_safe [OF example_planned this] show ?thesis
    unfolding example_planned plan sum.case by force
qed

end
