(* ===== verification/Regalloc.thy ===== *)
theory Regalloc
  imports Scheduling
begin

text \<open>
  Linear-scan register allocation (\<open>LinearScanRegallocContext\<close> in \<open>tinygrad/codegen/late/regalloc.py\<close>): live
  ranges from one backward pass, then one forward pass that gives every virtual register a physical base
  register, evicts the value with the furthest next use, spills it to a stack slot, and makes the registers at
  the end of a loop agree with those at its start.  What the pass reads of a node is extracted once into an
  \<open>ins\<close>; the renderer's \<open>is_two_address\<close> and \<open>is_rematerializable\<close> are arguments.  The environment variables that
  enable the experimental rematerialisation of addresses and the diagnostics have their default, 0.
\<close>

section \<open>What the allocator reads of a node\<close>

definition pseudo_ops :: "op list" where
  "pseudo_ops = [''CONST'', ''NOOP'', ''AFTER'', ''BARRIER'', ''WAIT'', ''GROUP'']"

definition rewrite_ops :: "op list" where
  "rewrite_ops = [''INS'', ''RANGE'', ''END'', ''DEFINE_REG'', ''DEFINE_LOCAL'', ''PARAM'', ''DEFINE_VAR'', ''SPECIAL''] @ pseudo_ops"

text \<open>\<open>UOp.reg\<close>, when it is a register.\<close>

fun reg_of :: "uop \<Rightarrow> register option result" where
  "reg_of (UOp op dt src arg tag) =
     (if op \<in> set [''NOOP'', ''AFTER''] \<and> src \<noteq> [] then hd (map reg_of src)
      else case tag of RegTag [] \<Rightarrow> Inl IndexError | RegTag (r # rs) \<Rightarrow> Inr (Some r) | _ \<Rightarrow> Inr None)"

record ins =
  in_op :: op
  in_defs :: "register list"
  in_srcs :: "register option list"
  in_live :: "register option list"
  in_bytes :: int
  in_local :: "int result"
  in_two_address :: bool
  in_remat :: bool

definition spill_bytes :: "dtype \<Rightarrow> int" where
  "spill_bytes dt = (if is_ptr dt then 8 else itemsize (scalar dt) * dcount dt)"

definition ins_of :: "(uop \<Rightarrow> bool) \<Rightarrow> (uop \<Rightarrow> bool) \<Rightarrow> uop \<Rightarrow> ins result" where
  "ins_of two_address remat u =
     rbind (if u_op u \<in> set pseudo_ops then Inr [] else rmap reg_of (u_src u)) (\<lambda>srcs.
     rbind (if u_op u \<in> set pseudo_ops then Inr [] else
              rmap reg_of (filter (\<lambda>s. u_op u \<noteq> ''END'' \<or> u_op s = ''RANGE'') (first_occurrences (u_src u)))) (\<lambda>lv.
     Inr \<lparr>in_op = u_op u, in_defs = register_defs u, in_srcs = srcs, in_live = lv, in_bytes = spill_bytes (u_dtype u),
          in_local = nbytes (u_dtype u), in_two_address = two_address u, in_remat = remat u\<rparr>))"

definition check_selected :: "uop list \<Rightarrow> unit result" where
  "check_selected uops = rguard (list_all (\<lambda>u. u_op u \<in> set rewrite_ops \<or> u_op u = ''SINK'') uops) RuntimeError"

abbreviation in_pseudo :: "ins \<Rightarrow> bool" where
  "in_pseudo x \<equiv> in_op x \<in> set pseudo_ops"

section \<open>Live ranges\<close>

type_synonym ranges = "(register, nat list) dict"

definition add_point :: "nat \<Rightarrow> register option \<Rightarrow> ranges \<Rightarrow> ranges" where
  "add_point i rv lr = (case rv of None \<Rightarrow> lr
     | Some v \<Rightarrow> if r_fixed v then lr
         else dset v (i # (case map_of lr v of None \<Rightarrow> [] | Some xs \<Rightarrow> xs)) lr)"

text \<open>The latest end among the loops that start before the last use of a value and end after it.\<close>

definition loop_ends :: "ranges \<Rightarrow> register option list \<Rightarrow> nat \<Rightarrow> nat list result" where
  "loop_ends lr loops l =
     rbind (rmap (\<lambda>rg. case rg of None \<Rightarrow> Inl KeyError | Some v \<Rightarrow> dget lr v) loops) (\<lambda>rs.
     Inr (map last (filter (\<lambda>xs. hd xs \<le> l \<and> l < last xs) rs)))"

definition extend_range :: "register option list \<Rightarrow> register \<Rightarrow> ranges \<Rightarrow> ranges result" where
  "extend_range loops v lr = (case map_of lr v of None \<Rightarrow> Inr lr
     | Some xs \<Rightarrow> rbind (loop_ends lr loops (last xs)) (\<lambda>ends.
         Inr (case ends of [] \<Rightarrow> lr | e # es \<Rightarrow> let n = fold max es e in if n = 0 then lr else dset v (xs @ [n]) lr)))"

definition range_step :: "nat \<times> ins \<Rightarrow> ranges \<times> register option list \<Rightarrow> (ranges \<times> register option list) result" where
  "range_step = (\<lambda>(i, x) (lr, loops).
     if in_pseudo x then Inr (lr, loops) else
     rbind (rfold (extend_range loops) (in_defs x) (fold (add_point i) (map Some (in_defs x) @ in_live x) lr)) (\<lambda>lr.
     Inr (lr, if in_op x = ''RANGE'' then loops @ [case in_defs x of [] \<Rightarrow> None | r # _ \<Rightarrow> Some r] else loops)))"

definition live_ranges :: "ins list \<Rightarrow> ranges result" where
  "live_ranges xs = rbind (rfold range_step (rev (enumerate 0 xs)) ([], [])) (\<lambda>(lr, loops). Inr lr)"

definition candidate_pressure :: "ranges \<Rightarrow> register \<Rightarrow> int" where
  "candidate_pressure lr r =
     (\<Sum>(v, xs) \<leftarrow> lr. int (count_list (cons_of v) r) * (1000000 div int (length (cons_of v))))"

section \<open>The state of the forward pass\<close>

record ralloc =
  ra_live :: "(register, register) dict"
  ra_spills :: "(register, int) dict"
  ra_stack :: int
  ra_locals :: "(nat \<times> int) list"
  ra_remats :: "((nat \<times> register) \<times> register) list"
  ra_remat_before :: "(nat \<times> register) list"
  ra_reals :: "((nat \<times> register) \<times> register) list"
  ra_before :: "(nat \<times> register \<times> register) list"
  ra_pinned :: "register list"
  ra_live_ins :: "(register, register) dict list"

definition empty_ralloc :: ralloc where
  "empty_ralloc = \<lparr>ra_live = [], ra_spills = [], ra_stack = 0, ra_locals = [], ra_remats = [], ra_remat_before = [],
     ra_reals = [], ra_before = [], ra_pinned = [], ra_live_ins = []\<rparr>"

definition set_live :: "register \<Rightarrow> register \<Rightarrow> ralloc \<Rightarrow> ralloc" where
  "set_live v r st = st\<lparr>ra_live := dset v r (ra_live st)\<rparr>"

definition set_real :: "nat \<Rightarrow> register \<Rightarrow> register \<Rightarrow> ralloc \<Rightarrow> ralloc" where
  "set_real i v r st = st\<lparr>ra_reals := dset (i, v) r (ra_reals st)\<rparr>"

text \<open>\<open>{r.index: r for r in cons}[k]\<close>: the last register with that index.\<close>

definition by_index :: "register list \<Rightarrow> int \<Rightarrow> register result" where
  "by_index rs k = (case List.find (\<lambda>r. r_index r = k) (rev rs) of None \<Rightarrow> Inl KeyError | Some r \<Rightarrow> Inr r)"

definition reg_span :: "register \<Rightarrow> nat" where
  "reg_span v = nat (span_count (r_span v))"

definition physical_slots :: "register \<Rightarrow> register \<Rightarrow> register list result" where
  "physical_slots v b = rmap (\<lambda>j. by_index (cons_of v) (r_index b + int j)) [0..<reg_span v]"

definition occupied :: "ralloc \<Rightarrow> (register \<times> register) list result" where
  "occupied st = rbind (rmap (\<lambda>(v, b). rbind (physical_slots v b) (\<lambda>slots. Inr (map (\<lambda>s. (s, v)) slots))) (ra_live st))
     (\<lambda>ps. Inr (rev (concat ps)))"

definition next_use :: "ranges \<Rightarrow> nat \<Rightarrow> nat \<Rightarrow> register \<Rightarrow> int result" where
  "next_use lr n i v = rbind (dget lr v) (\<lambda>js.
     Inr (case List.find (\<lambda>j. i \<le> j) js of None \<Rightarrow> int n | Some j \<Rightarrow> int (j - i)))"

definition pick_max :: "('a \<Rightarrow> (int \<times> int) result) \<Rightarrow> 'a list \<Rightarrow> 'a result" where
  "pick_max score xs = rbind (rmap (\<lambda>x. rbind (score x) (\<lambda>k. Inr (x, k))) xs) (\<lambda>ps.
     if ps = [] then Inl ValueError else Inr (fst (first_max snd ps)))"

definition evict :: "register list \<Rightarrow> ralloc \<Rightarrow> ralloc" where
  "evict vs st = st\<lparr>ra_live := fold ddel vs (ra_live st)\<rparr>"

definition alloc_single :: "ranges \<Rightarrow> nat \<Rightarrow> register list \<Rightarrow> nat \<Rightarrow> ralloc \<Rightarrow> (register \<times> ralloc) result" where
  "alloc_single lr n cons i st =
     rbind (occupied st) (\<lambda>occ.
     rbind (pick_max (\<lambda>r. case map_of occ r of None \<Rightarrow> Inr (int n, - candidate_pressure lr r)
         | Some v \<Rightarrow> if v \<in> set (ra_pinned st) then Inr (-1, 0)
             else rbind (next_use lr n i v) (\<lambda>d. Inr (d, - candidate_pressure lr r))) cons) (\<lambda>r.
     Inr (r, case map_of occ r of None \<Rightarrow> st | Some v \<Rightarrow> evict [v] st)))"

text \<open>The candidates of a wide value: aligned runs inside the pool.\<close>

definition span_slots :: "register list \<Rightarrow> nat \<Rightarrow> int \<Rightarrow> register \<Rightarrow> register list option" where
  "span_slots cons span alignment r =
     (if r_index r mod alignment = 0 then
        (case rmap (\<lambda>j. by_index cons (r_index r + int j)) [0..<span] of Inl _ \<Rightarrow> None | Inr slots \<Rightarrow> Some slots)
      else None)"

definition owners :: "(register \<times> register) list \<Rightarrow> register list \<Rightarrow> register list" where
  "owners occ slots = first_occurrences (List.map_filter (map_of occ) slots)"

definition alloc_span :: "ranges \<Rightarrow> nat \<Rightarrow> register list \<Rightarrow> nat \<Rightarrow> nat \<Rightarrow> int \<Rightarrow> ralloc \<Rightarrow> (register \<times> ralloc) result" where
  "alloc_span lr n cons i span alignment st =
     rbind (occupied st) (\<lambda>occ.
     let candidates = List.map_filter (\<lambda>r. map_option (Pair r) (span_slots cons span alignment r)) cons in
     if candidates = [] then Inl RuntimeError else
     rbind (pick_max (\<lambda>(r, slots). let ev = owners occ slots in
         if list_ex (\<lambda>v. v \<in> set (ra_pinned st)) ev then Inr (-1, 0)
         else rbind (rmap (next_use lr n i) ev) (\<lambda>ds.
           Inr (case ds of [] \<Rightarrow> int n | d # rest \<Rightarrow> fold min rest d, - sum_list (map (candidate_pressure lr) slots)))) candidates)
       (\<lambda>(r, slots). let ev = owners occ slots in
         if list_ex (\<lambda>v. v \<in> set (ra_pinned st)) ev then Inl RuntimeError
         else Inr (r, evict ev st)))"

definition alloc :: "ranges \<Rightarrow> nat \<Rightarrow> register list \<Rightarrow> nat \<Rightarrow> register \<Rightarrow> ralloc \<Rightarrow> (register \<times> ralloc) result" where
  "alloc lr n cons i v st =
     (if reg_span v = 1 then alloc_single lr n cons i st
      else alloc_span lr n cons i (reg_span v) (span_alignment (r_span v)) st)"

section \<open>Loading a value back\<close>

record alloc_ctx =
  cx_ins :: "ins list"
  cx_lr :: ranges

definition cx_n :: "alloc_ctx \<Rightarrow> nat" where
  "cx_n c = length (cx_ins c)"

definition vdef :: "alloc_ctx \<Rightarrow> register \<Rightarrow> ins result" where
  "vdef c v = rbind (dget (cx_lr c) v) (\<lambda>js. rbind (lget js 0) (\<lambda>j. lget (cx_ins c) j))"

definition stack_slot :: "alloc_ctx \<Rightarrow> register \<Rightarrow> ralloc \<Rightarrow> ralloc result" where
  "stack_slot c v st =
     (if map_of (ra_spills st) v \<noteq> None then Inr st
      else if reg_span v > 1 then Inl RuntimeError
      else rbind (vdef c v) (\<lambda>d. let sz = in_bytes d in
        if sz = 0 then Inl ZeroDivisionError
        else let off = ra_stack st + (sz - ra_stack st mod sz) mod sz in
          Inr (st\<lparr>ra_spills := dset v off (ra_spills st), ra_stack := off + sz\<rparr>)))"

definition pin :: "register \<Rightarrow> ralloc \<Rightarrow> ralloc" where
  "pin v st = st\<lparr>ra_pinned := v # ra_pinned st\<rparr>"

definition unpin :: "register list \<Rightarrow> ralloc \<Rightarrow> ralloc" where
  "unpin vs st = st\<lparr>ra_pinned := filter (\<lambda>v. v \<notin> set vs) (ra_pinned st)\<rparr>"

text \<open>A value is either recomputed from its sources, which must stay in registers meanwhile, or loaded from
  its stack slot.  The recursion follows definitions; the fuel is the number of instructions plus one.\<close>

fun fill :: "nat \<Rightarrow> alloc_ctx \<Rightarrow> nat \<Rightarrow> register list option \<Rightarrow> bool \<Rightarrow> register \<Rightarrow> ralloc \<Rightarrow> (register \<times> ralloc) result" where
  "fill 0 c i cons emit v st = Inl Diverges"
| "fill (Suc fuel) c i cons emit v st =
     rbind (vdef c v) (\<lambda>d.
     let pool = (case cons of None \<Rightarrow> cons_of v | Some rs \<Rightarrow> rs) in
     if in_remat d then
       rbind (rfold (\<lambda>s st. case s of None \<Rightarrow> Inr st | Some sv \<Rightarrow>
           rbind (if map_of (ra_live st) sv = None
                  then rbind (fill fuel c i None False sv st) (\<lambda>(r, st). Inr (set_live sv r st)) else Inr st) (\<lambda>st.
           rbind (dget (ra_live st) sv) (\<lambda>r. Inr (pin sv (set_real i sv r st))))) (in_srcs d) st) (\<lambda>st.
       rbind (alloc (cx_lr c) (cx_n c) pool i v st) (\<lambda>(r, st).
       let st = unpin (List.map_filter (\<lambda>s. s) (in_srcs d)) st in
       Inr (r, st\<lparr>ra_remats := dset (i, v) r (ra_remats st),
                  ra_remat_before := (if emit then ra_remat_before st @ [(i, v)] else ra_remat_before st)\<rparr>)))
     else
       rbind (stack_slot c v st) (\<lambda>st.
       rbind (alloc (cx_lr c) (cx_n c) pool i v st) (\<lambda>(r, st).
       Inr (r, st\<lparr>ra_before := ra_before st @ [(i, v, r)]\<rparr>))))"

definition load :: "alloc_ctx \<Rightarrow> nat \<Rightarrow> register list option \<Rightarrow> bool \<Rightarrow> register \<Rightarrow> ralloc \<Rightarrow> ralloc result" where
  "load c i cons emit v st = rbind (fill (Suc (cx_n c)) c i cons emit v st) (\<lambda>(r, st). Inr (set_live v r st))"

definition ensure_live :: "alloc_ctx \<Rightarrow> nat \<Rightarrow> register \<Rightarrow> ralloc \<Rightarrow> ralloc result" where
  "ensure_live c i v st = (if map_of (ra_live st) v = None then load c i None False v st else Inr st)"

section \<open>One instruction\<close>

definition use_src :: "alloc_ctx \<Rightarrow> nat \<Rightarrow> register option \<Rightarrow> ralloc \<Rightarrow> ralloc result" where
  "use_src c i s st = (case s of None \<Rightarrow> Inr st
     | Some v \<Rightarrow> if r_fixed v then Inr st
         else rbind (ensure_live c i v st) (\<lambda>st. rbind (dget (ra_live st) v) (\<lambda>r. Inr (set_real i v r st))))"

text \<open>A two-address instruction overwrites its first source, so the pool starts with that register and
  leaves out those of the sources.\<close>

definition def_pool :: "ins \<Rightarrow> nat \<Rightarrow> register \<Rightarrow> ralloc \<Rightarrow> register list result" where
  "def_pool x j v st =
     (if in_two_address x \<and> j = 0 then
        (case map (\<lambda>s. case s of None \<Rightarrow> None | Some u \<Rightarrow> map_of (ra_live st) u) (in_srcs x) of
           [] \<Rightarrow> Inl IndexError
         | u0 # us \<Rightarrow> Inr ((case u0 of Some r \<Rightarrow> if r \<in> set (cons_of v) then [r] else [] | None \<Rightarrow> [])
             @ filter (\<lambda>r. Some r \<notin> set (u0 # us)) (cons_of v)))
      else Inr (cons_of v))"

definition define_reg :: "alloc_ctx \<Rightarrow> nat \<Rightarrow> ins \<Rightarrow> nat \<times> register \<Rightarrow> ralloc \<Rightarrow> ralloc result" where
  "define_reg c i x = (\<lambda>(j, v) st.
     rbind (dget (cx_lr c) v) (\<lambda>js. rbind (lget js 0) (\<lambda>first.
     rbind (rguard (first = i) AssertionError) (\<lambda>_.
     rbind (def_pool x j v st) (\<lambda>pool.
     rbind (alloc (cx_lr c) (cx_n c) pool (if in_op x \<noteq> ''RANGE'' then i + 1 else i) v st) (\<lambda>(r, st).
     Inr (set_real i v r (set_live v r st))))))))"

definition alloc_local :: "nat \<Rightarrow> ins \<Rightarrow> ralloc \<Rightarrow> ralloc result" where
  "alloc_local i x st = (if in_op x = ''DEFINE_LOCAL''
     then rbind (in_local x) (\<lambda>sz. Inr (st\<lparr>ra_locals := ra_locals st @ [(i, ra_stack st)], ra_stack := ra_stack st + sz\<rparr>))
     else Inr st)"

definition loop_end :: "alloc_ctx \<Rightarrow> ins \<Rightarrow> nat result" where
  "loop_end c x = (case in_defs x of [] \<Rightarrow> Inl KeyError | v # _ \<Rightarrow> rbind (dget (cx_lr c) v) (\<lambda>js. Inr (last js)))"

definition used_in_loop :: "alloc_ctx \<Rightarrow> nat \<Rightarrow> nat \<Rightarrow> ralloc \<Rightarrow> (register \<times> nat list) list result" where
  "used_in_loop c i e st =
     rbind (rmap (\<lambda>v. rbind (dget (cx_lr c) v) (\<lambda>js. Inr (v, js))) (first_occurrences (map fst (ra_live st) @ map fst (ra_spills st))))
       (\<lambda>vs. Inr (filter (\<lambda>(v, js). list_ex (\<lambda>l. i \<le> l \<and> l < e) js) vs))"

definition loop_key :: "nat \<Rightarrow> register \<times> nat list \<Rightarrow> nat \<times> nat \<times> string \<times> int" where
  "loop_key i = (\<lambda>(v, js). (case List.find (\<lambda>l. i \<le> l) js of None \<Rightarrow> 0 | Some l \<Rightarrow> l - i, hd js, r_name v, r_index v))"

definition enter_loop_value :: "alloc_ctx \<Rightarrow> nat \<Rightarrow> register \<times> nat list \<Rightarrow> (register, register) dict \<times> ralloc \<Rightarrow>
    ((register, register) dict \<times> ralloc) result" where
  "enter_loop_value c i = (\<lambda>(v, js) (live_in, st).
     if set (cons_of v) \<subseteq> snd ` set live_in then Inr (live_in, st)
     else rbind (ensure_live c i v st) (\<lambda>st. rbind (dget (ra_live st) v) (\<lambda>r. Inr (dset v r live_in, st))))"

definition enter_loop :: "alloc_ctx \<Rightarrow> nat \<Rightarrow> ins \<Rightarrow> ralloc \<Rightarrow> ralloc result" where
  "enter_loop c i x st =
     (if in_op x \<noteq> ''RANGE'' then Inr st else
      rbind (loop_end c x) (\<lambda>e.
      rbind (used_in_loop c i e st) (\<lambda>vs.
      rbind (rfold (enter_loop_value c i) (sort_key (loop_key i) vs) ([], st)) (\<lambda>(live_in, st).
      Inr (st\<lparr>ra_live_ins := live_in # ra_live_ins st\<rparr>)))))"

definition restore_value :: "alloc_ctx \<Rightarrow> nat \<Rightarrow> register \<times> register \<Rightarrow> ralloc \<Rightarrow> ralloc result" where
  "restore_value c i = (\<lambda>(v, r) st.
     if map_of (ra_live st) v = Some r then Inr st
     else rbind (physical_slots v r) (\<lambda>slots. load c i (Some slots) True v st))"

definition leave_loop :: "alloc_ctx \<Rightarrow> nat \<Rightarrow> ins \<Rightarrow> ralloc \<Rightarrow> ralloc result" where
  "leave_loop c i x st =
     (if in_op x \<noteq> ''END'' then Inr st else
      case ra_live_ins st of [] \<Rightarrow> Inl IndexError
      | live_in # rest \<Rightarrow> rfold (restore_value c i) live_in (st\<lparr>ra_live_ins := rest\<rparr>))"

definition alloc_ins :: "alloc_ctx \<Rightarrow> nat \<times> ins \<Rightarrow> ralloc \<Rightarrow> ralloc result" where
  "alloc_ins c = (\<lambda>(i, x) st.
     if in_pseudo x then Inr st else
     rbind (if in_op x = ''END'' then Inr st else rfold (use_src c i) (in_srcs x) st) (\<lambda>st.
     rbind (rfold (define_reg c i x) (enumerate 0 (in_defs x)) st) (\<lambda>st.
     rbind (alloc_local i x st) (\<lambda>st.
     rbind (enter_loop c i x st) (leave_loop c i x)))))"

definition linear_scan :: "ins list \<Rightarrow> ralloc result" where
  "linear_scan xs = rbind (live_ranges xs) (\<lambda>lr.
     rfold (alloc_ins \<lparr>cx_ins = xs, cx_lr = lr\<rparr>) (enumerate 0 xs) empty_ralloc)"

definition regalloc :: "(uop \<Rightarrow> bool) \<Rightarrow> (uop \<Rightarrow> bool) \<Rightarrow> uop list \<Rightarrow> ralloc result" where
  "regalloc two_address remat uops =
     rbind (check_selected uops) (\<lambda>_. rbind (rmap (ins_of two_address remat) uops) linear_scan)"

end
