(* ===== verification/RegallocCode.thy ===== *)
theory RegallocCode
  imports Regalloc
begin

text \<open>
  The code that the allocation stands for (\<open>regalloc_rewrite\<close> and \<open>remat\<close> in \<open>tinygrad/codegen/late/regalloc.py\<close>):
  fills before an instruction, its operands and definitions in physical registers, spills after it, and the
  stack pointer adjusted at the two ends.  \<open>ISARenderer.fill\<close>, \<open>spill\<close> and \<open>stack_pointer\<close> belong to the back
  end; here they are the constructors \<open>Fill\<close>, \<open>Spill\<close>, \<open>Frame\<close>, \<open>PushFrame\<close> and \<open>PopFrame\<close>.
\<close>

datatype emit =
    Fill int register
  | Spill int register
  | Again nat "register option list" register
  | PushFrame int
  | PopFrame int
  | Instr nat "register option list" "register list"
  | Frame nat int "register list"

definition def_index :: "alloc_ctx \<Rightarrow> register \<Rightarrow> nat result" where
  "def_index c v = rbind (dget (cx_lr c) v) (\<lambda>js. lget js 0)"

abbreviation has_real :: "ralloc \<Rightarrow> nat \<Rightarrow> bool" where
  "has_real st i \<equiv> list_ex (\<lambda>p. fst (fst p) = i) (ra_reals st)"

text \<open>The recomputation of \<open>v\<close> before instruction \<open>i\<close>, with those of its sources that are recomputed too.\<close>

fun remat :: "nat \<Rightarrow> alloc_ctx \<Rightarrow> ralloc \<Rightarrow> nat \<Rightarrow> register \<Rightarrow> emit list result" where
  "remat 0 c st i v = Inl Diverges"
| "remat (Suc fuel) c st i v =
     rbind (def_index c v) (\<lambda>k. rbind (vdef c v) (\<lambda>d.
     rbind (rmap (\<lambda>s. case s of None \<Rightarrow> Inr ([], None)
         | Some sv \<Rightarrow> (case map_of (ra_remats st) (i, sv) of
             Some r \<Rightarrow> rbind (remat fuel c st i sv) (\<lambda>es. Inr (es, Some r))
           | None \<Rightarrow> Inr ([], Some (case map_of (ra_reals st) (i, sv) of Some r \<Rightarrow> r | None \<Rightarrow> sv)))) (in_srcs d)) (\<lambda>srcs.
     rbind (dget (ra_remats st) (i, v)) (\<lambda>r.
     Inr (concat (map fst srcs) @ [Again k (map snd srcs) r])))))"

text \<open>The register that a source is read from, and what has to be emitted for it.  A source that was never
  spilled is the rewritten definition, whose tag is the register given to it there.\<close>

definition operand :: "alloc_ctx \<Rightarrow> ralloc \<Rightarrow> nat \<Rightarrow> register option \<Rightarrow> (emit list \<times> register option) result" where
  "operand c st i s = (case s of None \<Rightarrow> Inr ([], None) | Some v \<Rightarrow>
     if r_fixed v then Inr ([], Some v)
     else if has_real st i \<and> map_of (ra_spills st) v \<noteq> None then rbind (dget (ra_reals st) (i, v)) (\<lambda>r. Inr ([], Some r))
     else if map_of (ra_remats st) (i, v) \<noteq> None then
       rbind (remat (Suc (cx_n c)) c st i v) (\<lambda>es. rbind (dget (ra_remats st) (i, v)) (\<lambda>r. Inr (es, Some r)))
     else rbind (def_index c v) (\<lambda>d. rbind (dget (ra_reals st) (d, v)) (\<lambda>r. Inr ([], Some r))))"

definition fills_at :: "ralloc \<Rightarrow> nat \<Rightarrow> emit list result" where
  "fills_at st i = rmap (\<lambda>(k, v, r). rbind (dget (ra_spills st) v) (\<lambda>off. Inr (Fill off r))) (filter (\<lambda>e. fst e = i) (ra_before st))"

definition remats_at :: "alloc_ctx \<Rightarrow> ralloc \<Rightarrow> nat \<Rightarrow> emit list result" where
  "remats_at c st i = rbind (rmap (remat (Suc (cx_n c)) c st i)
     (first_occurrences (map snd (filter (\<lambda>e. fst e = i) (ra_remat_before st))))) (\<lambda>es. Inr (concat es))"

text \<open>A node that the rewrite rules do not match, or that they leave as it is, emits nothing here.\<close>

definition rewrite_ins :: "alloc_ctx \<Rightarrow> ralloc \<Rightarrow> nat \<times> ins \<Rightarrow> (emit list \<times> emit list \<times> emit list) result" where
  "rewrite_ins c st = (\<lambda>(i, x).
     if in_pseudo x \<or> in_op x \<notin> set rewrite_ops then Inr ([], [], []) else
     rbind (rmap (operand c st i) (in_srcs x)) (\<lambda>srcs.
     rbind (rmap (\<lambda>v. dget (ra_reals st) (i, v)) (in_defs x)) (\<lambda>defs.
     rbind (if in_op x = ''DEFINE_LOCAL'' then rbind (dget (ra_locals st) i) (\<lambda>off. Inr (Frame i off defs))
            else Inr (Instr i (map snd srcs) defs)) (\<lambda>nx.
     rbind (remats_at c st i) (\<lambda>again.
     rbind (fills_at st i) (\<lambda>fills.
     rbind (rmap (\<lambda>v. case map_of (ra_spills st) v of None \<Rightarrow> Inr [] | Some off \<Rightarrow> rbind (lget defs 0) (\<lambda>r. Inr [Spill off r])) (in_defs x)) (\<lambda>after.
     let before = fills @ concat (map fst srcs) @ again;
         before = (if 0 < ra_stack st \<and> i = 0 then PushFrame (ra_stack st) # before
                   else if 0 < ra_stack st \<and> int i = int (cx_n c) - 2 then before @ [PopFrame (ra_stack st)] else before) in
     Inr (before, [nx], concat after))))))))"

definition compile_regs :: "ins list \<Rightarrow> (emit list \<times> emit list \<times> emit list) list result" where
  "compile_regs xs = rbind (live_ranges xs) (\<lambda>lr. let c = \<lparr>cx_ins = xs, cx_lr = lr\<rparr> in
     rbind (rfold (alloc_ins c) (enumerate 0 xs) empty_ralloc) (\<lambda>st. rmap (rewrite_ins c st) (enumerate 0 xs)))"

end
