(* ===== verification/RegallocRanges.thy ===== *)
theory RegallocRanges
  imports Regalloc
begin

text \<open>
  The programs that the allocator is proved for, and what the backward pass computes for them: every range
  is sorted, starts at the definition, holds every use, and its other points are ends of loops.
\<close>

section \<open>Programs\<close>

definition defs_at :: "ins \<Rightarrow> register list" where
  "defs_at x = (if in_pseudo x then [] else in_defs x)"

definition virtuals :: "register option list \<Rightarrow> register list" where
  "virtuals rs = filter (\<lambda>v. \<not> r_fixed v) (List.map_filter (\<lambda>r. r) rs)"

definition live_at :: "ins \<Rightarrow> register list" where
  "live_at x = (if in_pseudo x then [] else virtuals (in_live x))"

definition operands :: "ins \<Rightarrow> register list" where
  "operands x = (if in_pseudo x \<or> in_op x = ''END'' then [] else virtuals (in_srcs x))"

text \<open>The virtual registers that the lowered instruction reads; an \<open>END\<close> reads its loop counter only,
  and a \<open>DEFINE_LOCAL\<close> becomes an address in the frame.\<close>

definition reads :: "ins \<Rightarrow> register list" where
  "reads x = (if in_pseudo x \<or> in_op x = ''DEFINE_LOCAL'' then []
     else virtuals (if in_op x = ''END'' then filter (\<lambda>s. s \<in> set (in_live x)) (in_srcs x) else in_srcs x))"

definition all_defs :: "ins list \<Rightarrow> register list" where
  "all_defs xs = concat (map defs_at xs)"

text \<open>The loops that are open before an instruction, innermost first; \<open>None\<close> when an \<open>END\<close> has no loop.\<close>

fun open_loops :: "ins list \<Rightarrow> nat \<Rightarrow> nat list option" where
  "open_loops xs 0 = Some []"
| "open_loops xs (Suc i) = (case open_loops xs i of None \<Rightarrow> None
     | Some ls \<Rightarrow> if in_op (xs ! i) = ''RANGE'' then Some (i # ls)
         else if in_op (xs ! i) = ''END'' then (case ls of [] \<Rightarrow> None | l # ls' \<Rightarrow> Some ls') else Some ls)"

definition loop_reg :: "ins \<Rightarrow> register" where
  "loop_reg x = hd (in_defs x)"

definition structured :: "ins list \<Rightarrow> bool" where
  "structured xs \<longleftrightarrow> open_loops xs (length xs) \<noteq> None
     \<and> (\<forall>i < length xs. in_op (xs ! i) = ''RANGE'' \<longrightarrow> length (in_defs (xs ! i)) = 1)
     \<and> (\<forall>i < length xs. in_op (xs ! i) = ''END'' \<longrightarrow> in_defs (xs ! i) = []
          \<and> (case open_loops xs i of Some (l # ls) \<Rightarrow> live_at (xs ! i) = [loop_reg (xs ! l)] \<and> reads (xs ! i) = [loop_reg (xs ! l)] | _ \<Rightarrow> False))
     \<and> (\<forall>d < length xs. in_op (xs ! d) = ''RANGE'' \<longrightarrow> (\<exists>e < length xs. d < e \<and> in_op (xs ! e) = ''END''
          \<and> loop_reg (xs ! d) \<in> set (live_at (xs ! e)) \<and> (\<forall>i < length xs. loop_reg (xs ! d) \<in> set (live_at (xs ! i)) \<longrightarrow> i \<le> e)))"

text \<open>An instruction has room for its operands when the pool of each is larger than the number of the other
  operands whose pools overlap it; a definition that must avoid the operands needs room beside them too.\<close>

definition overlap :: "register \<Rightarrow> register \<Rightarrow> bool" where
  "overlap v w \<longleftrightarrow> list_ex (\<lambda>r. r \<in> set (cons_of w)) (cons_of v)"

definition roomy :: "ins \<Rightarrow> bool" where
  "roomy x \<longleftrightarrow> (\<forall>v \<in> set (operands x). length (filter (\<lambda>w. w \<noteq> v \<and> overlap v w) (operands x)) < length (cons_of v))
     \<and> (in_two_address x \<or> in_op x = ''RANGE'' \<longrightarrow>
          (\<forall>v \<in> set (defs_at x). length (filter (overlap v) (operands x)) < length (cons_of v)))"

text \<open>The program ends with an instruction outside the loops that defines nothing (a return), and a \<open>SINK\<close>;
  it does not begin with a pseudo node, before which no frame would be pushed.\<close>

definition ends_well :: "ins list \<Rightarrow> bool" where
  "ends_well xs \<longleftrightarrow> 3 \<le> length xs
     \<and> (\<forall>i < length xs. if i = length xs - 1 then in_op (xs ! i) = ''SINK'' else in_op (xs ! i) \<in> set rewrite_ops)
     \<and> open_loops xs (length xs - 2) = Some [] \<and> in_op (xs ! (length xs - 2)) \<noteq> ''RANGE''
     \<and> defs_at (xs ! (length xs - 2)) = [] \<and> \<not> in_pseudo (xs ! 0) \<and> \<not> in_pseudo (xs ! (length xs - 2))"

text \<open>Single assignment, every operand defined before, single registers from pools with pairwise different
  indices, and no rematerialisation.\<close>

definition well_formed :: "ins list \<Rightarrow> bool" where
  "well_formed xs \<longleftrightarrow> structured xs \<and> distinct (all_defs xs)
     \<and> (\<forall>v \<in> set (all_defs xs). \<not> r_fixed v \<and> reg_span v = 1 \<and> distinct (map r_index (cons_of v)))
     \<and> (\<forall>i < length xs. \<forall>v \<in> set (live_at (xs ! i)). \<exists>d < i. v \<in> set (defs_at (xs ! d)))
     \<and> (\<forall>x \<in> set xs. in_op x \<noteq> ''END'' \<longrightarrow> set (operands x) = set (live_at x))
     \<and> (\<forall>x \<in> set xs. roomy x) \<and> ends_well xs
     \<and> (\<forall>x \<in> set xs. \<not> in_remat x \<and> 0 < in_bytes x \<and> length (defs_at x) \<le> 1)
     \<and> (\<forall>x \<in> set xs. in_op x = ''DEFINE_LOCAL'' \<longrightarrow> (case in_local x of Inr n \<Rightarrow> 0 \<le> n | Inl _ \<Rightarrow> False))
     \<and> (\<forall>x \<in> set xs. in_op x = ''END'' \<longrightarrow> set (virtuals (in_srcs x)) \<subseteq> set (all_defs xs))
     \<and> (\<forall>x \<in> set xs. in_two_address x \<longrightarrow> in_srcs x \<noteq> [] \<and> in_op x \<noteq> ''RANGE'')"

lemma pseudo_facts: "''RANGE'' \<notin> set pseudo_ops" "''END'' \<notin> set pseudo_ops" "''DEFINE_LOCAL'' \<notin> set pseudo_ops"
  by (simp_all add: pseudo_ops_def)

section \<open>Ranges\<close>

text \<open>What holds of the ranges once the instructions from \<open>k\<close> on have been seen.\<close>

definition points :: "ins \<Rightarrow> register set" where
  "points x = set (defs_at x) \<union> set (live_at x)"

definition range_ok :: "ins list \<Rightarrow> nat \<Rightarrow> register \<Rightarrow> nat list \<Rightarrow> bool" where
  "range_ok xs k v js \<longleftrightarrow> js \<noteq> [] \<and> sorted js \<and> v \<in> points (xs ! hd js)
     \<and> (\<forall>j \<in> set js. k \<le> j \<and> j < length xs \<and> (v \<in> points (xs ! j) \<or> in_op (xs ! j) = ''END''))"

definition ranges_from :: "ins list \<Rightarrow> nat \<Rightarrow> register set \<Rightarrow> ranges \<Rightarrow> bool" where
  "ranges_from xs k W lr \<longleftrightarrow>
     (\<forall>v js. map_of lr v = Some js \<longrightarrow> range_ok xs k v js)
     \<and> (\<forall>i < length xs. k < i \<longrightarrow> (\<forall>v \<in> points (xs ! i). \<exists>js. map_of lr v = Some js \<and> i \<in> set js))
     \<and> (\<forall>v \<in> W. \<exists>js. map_of lr v = Some js \<and> k \<in> set js)"

definition loops_from :: "ins list \<Rightarrow> ranges \<Rightarrow> register option list \<Rightarrow> bool" where
  "loops_from xs lr loops \<longleftrightarrow> (\<forall>rg \<in> set loops. \<exists>v js. rg = Some v \<and> map_of lr v = Some js \<and> js \<noteq> []
     \<and> last js < length xs \<and> in_op (xs ! last js) = ''END'')"

lemma sorted_last: "sorted xs \<Longrightarrow> x \<in> set xs \<Longrightarrow> x \<le> last xs" for xs :: "nat list"
  by (induction xs) auto

lemma add_point_ranges:
  assumes "ranges_from xs i W lr" and "i < length xs" and "\<not> r_fixed v \<Longrightarrow> v \<in> points (xs ! i)"
  shows "ranges_from xs i (if r_fixed v then W else insert v W) (add_point i (Some v) lr)"
proof (cases "r_fixed v")
  case True
  then show ?thesis using assms(1) by (simp add: add_point_def)
next
  case False
  let ?old = "case map_of lr v of None \<Rightarrow> [] | Some xs \<Rightarrow> xs"
  have m: "map_of (add_point i (Some v) lr) = (map_of lr)(v \<mapsto> i # ?old)" using False by (simp add: add_point_def)
  have "range_ok xs i v (i # ?old)"
    using assms False by (cases "map_of lr v") (auto simp: ranges_from_def range_ok_def)
  then show ?thesis
    using assms(1) False unfolding ranges_from_def m by (fastforce split: if_splits option.splits)
qed

lemma add_point_loops: "loops_from xs lr loops \<Longrightarrow> loops_from xs (add_point i rv lr) loops"
  unfolding loops_from_def add_point_def by (fastforce split: option.splits)

lemma add_points_ranges:
  assumes "ranges_from xs i W lr" "i < length xs" "\<forall>v. Some v \<in> set vs \<and> \<not> r_fixed v \<longrightarrow> v \<in> points (xs ! i)" "loops_from xs lr loops"
  shows "ranges_from xs i ({v. Some v \<in> set vs \<and> \<not> r_fixed v} \<union> W) (fold (add_point i) vs lr)
    \<and> loops_from xs (fold (add_point i) vs lr) loops"
  using assms
proof (induction vs arbitrary: W lr)
  case Nil
  then show ?case by simp
next
  case (Cons rv vs)
  show ?case
  proof (cases rv)
    case None
    then have "add_point i rv lr = lr" by (simp add: add_point_def)
    then show ?thesis using Cons None by auto
  next
    case (Some v)
    have "ranges_from xs i (if r_fixed v then W else insert v W) (add_point i rv lr)"
      unfolding Some by (rule add_point_ranges) (use Cons.prems Some in auto)
    moreover have "loops_from xs (add_point i rv lr) loops" using Cons.prems(4) by (rule add_point_loops)
    ultimately have "ranges_from xs i ({v. Some v \<in> set vs \<and> \<not> r_fixed v} \<union> (if r_fixed v then W else insert v W)) (fold (add_point i) (rv # vs) lr)
      \<and> loops_from xs (fold (add_point i) (rv # vs) lr) loops"
      using Cons.IH [OF _ Cons.prems(2)] Cons.prems(3) by simp
    moreover have "{w. Some w \<in> set (rv # vs) \<and> \<not> r_fixed w} \<union> W
        = {v. Some v \<in> set vs \<and> \<not> r_fixed v} \<union> (if r_fixed v then W else insert v W)" using Some by auto
    ultimately show ?thesis by simp
  qed
qed

lemma loop_ends_ok:
  assumes "loops_from xs lr loops"
  shows "\<exists>ends. loop_ends lr loops l = Inr ends \<and> (\<forall>e \<in> set ends. l < e \<and> e < length xs \<and> in_op (xs ! e) = ''END'')"
proof -
  have "rmap (\<lambda>rg. case rg of None \<Rightarrow> Inl KeyError | Some v \<Rightarrow> dget lr v) loops = Inr (map (\<lambda>rg. the (map_of lr (the rg))) loops)"
    by (rule rmap_total) (use assms in \<open>force simp: loops_from_def\<close>)
  then show ?thesis using assms by (force simp: loop_ends_def loops_from_def)
qed

lemma fold_max_mem: "fold max es e \<in> set (e # es)" for e :: nat
  using Max_in [of "set (e # es)"] by (simp only: Max.set_eq_fold finite_set) simp

lemma dset_ranges:
  assumes "ranges_from xs i W lr" "map_of lr v = Some js" "range_ok xs i v (js @ [n])"
  shows "ranges_from xs i W (dset v (js @ [n]) lr)"
proof -
  have grow: "\<exists>js'. map_of (dset v (js @ [n]) lr) w = Some js' \<and> j \<in> set js'"
    if "\<exists>js'. map_of lr w = Some js' \<and> j \<in> set js'" for w j
    using that assms(2) by (cases "w = v") auto
  have "range_ok xs i w js'" if "map_of (dset v (js @ [n]) lr) w = Some js'" for w js'
    using that assms by (cases "w = v") (auto simp: ranges_from_def)
  then show ?thesis using assms(1) grow unfolding ranges_from_def by blast
qed

lemma dset_loops:
  assumes "loops_from xs lr loops" "n < length xs" "in_op (xs ! n) = ''END''"
  shows "loops_from xs (dset v (js @ [n]) lr) loops"
  unfolding loops_from_def
proof
  fix rg assume "rg \<in> set loops"
  then obtain w js' where w: "rg = Some w" "map_of lr w = Some js'" "js' \<noteq> []" "last js' < length xs" "in_op (xs ! last js') = ''END''"
    using assms(1) unfolding loops_from_def by blast
  show "\<exists>w js'. rg = Some w \<and> map_of (dset v (js @ [n]) lr) w = Some js' \<and> js' \<noteq> [] \<and> last js' < length xs
      \<and> in_op (xs ! last js') = ''END''"
    using w assms(2,3) by (cases "w = v") auto
qed

lemma extend_range_ranges:
  assumes "ranges_from xs i W lr" "loops_from xs lr loops"
  shows "\<exists>lr'. extend_range loops v lr = Inr lr' \<and> ranges_from xs i W lr' \<and> loops_from xs lr' loops"
proof (cases "map_of lr v")
  case None
  then show ?thesis using assms by (simp add: extend_range_def)
next
  case (Some js)
  obtain ends where ends: "loop_ends lr loops (last js) = Inr ends" "\<forall>e \<in> set ends. last js < e \<and> e < length xs \<and> in_op (xs ! e) = ''END''"
    using loop_ends_ok [OF assms(2)] by blast
  have ok: "range_ok xs i v js" using assms(1) Some by (simp add: ranges_from_def)
  show ?thesis
  proof (cases ends)
    case Nil
    then show ?thesis using Some ends assms by (simp add: extend_range_def)
  next
    case (Cons e es)
    let ?n = "fold max es e"
    have n: "last js < ?n" "?n < length xs" "in_op (xs ! ?n) = ''END''" using fold_max_mem [of es e] ends(2) Cons by blast+
    have "range_ok xs i v (js @ [?n])"
    proof -
      have js: "js \<noteq> []" "sorted js" "v \<in> points (xs ! hd js)"
          "\<And>j. j \<in> set js \<Longrightarrow> i \<le> j \<and> j < length xs \<and> (v \<in> points (xs ! j) \<or> in_op (xs ! j) = ''END'')"
        using ok by (simp_all add: range_ok_def)
      have "j \<le> ?n" if "j \<in> set js" for j using sorted_last [OF js(2) that] n(1) by simp
      moreover have "i \<le> ?n" using js(4) [of "last js"] js(1) n(1) by simp
      ultimately show ?thesis using js n by (auto simp: range_ok_def sorted_append)
    qed
    moreover have r: "extend_range loops v lr = Inr (dset v (js @ [?n]) lr)"
      using Some ends Cons n by (simp add: extend_range_def Let_def)
    ultimately show ?thesis using dset_ranges [OF assms(1) Some] dset_loops [OF assms(2) n(2,3)] by simp
  qed
qed

lemma extend_ranges:
  assumes "ranges_from xs i W lr" "loops_from xs lr loops"
  shows "\<exists>lr'. rfold (extend_range loops) vs lr = Inr lr' \<and> ranges_from xs i W lr' \<and> loops_from xs lr' loops"
  using assms
proof (induction vs arbitrary: lr)
  case (Cons v vs)
  then show ?case using extend_range_ranges [OF Cons.prems, of v] by (metis rbind_Inr rfold.simps(2))
qed simp

lemma all_defs_nth: "i < length xs \<Longrightarrow> v \<in> set (defs_at (xs ! i)) \<Longrightarrow> v \<in> set (all_defs xs)"
  by (auto simp: all_defs_def)

lemma def_unique:
  assumes "distinct (all_defs xs)" "i < length xs" "j < length xs" "v \<in> set (defs_at (xs ! i))" "v \<in> set (defs_at (xs ! j))"
  shows "i = j"
  using assms
proof (induction xs arbitrary: i j)
  case (Cons x xs)
  have all: "u \<in> set (all_defs xs)" if "u \<in> set (defs_at (xs ! k))" "k < length xs" for u k
    using that by (rule all_defs_nth [rotated])
  have apart: "distinct (all_defs xs)" "set (defs_at x) \<inter> set (all_defs xs) = {}" using Cons.prems(1) by (auto simp: all_defs_def)
  show ?case
  proof (cases i; cases j)
    fix i' j' assume "i = Suc i'" "j = Suc j'"
    then show ?thesis using Cons.IH [OF apart(1), of i' j'] Cons.prems by simp
  qed (use Cons.prems apart all in \<open>auto simp: less_Suc_eq_0_disj\<close>)
qed simp

text \<open>Every range of a well-formed program, seen from an instruction that uses or defines the register.\<close>

lemma wf_program:
  assumes "well_formed xs"
  shows "structured xs" "distinct (all_defs xs)"
    "\<And>v. v \<in> set (all_defs xs) \<Longrightarrow> \<not> r_fixed v \<and> reg_span v = 1 \<and> distinct (map r_index (cons_of v))"
    "\<And>i v. i < length xs \<Longrightarrow> v \<in> set (live_at (xs ! i)) \<Longrightarrow> \<exists>d < i. v \<in> set (defs_at (xs ! d))"
    "\<And>i. i < length xs \<Longrightarrow> in_op (xs ! i) \<noteq> ''END'' \<Longrightarrow> set (operands (xs ! i)) = set (live_at (xs ! i))"
    "\<And>i. i < length xs \<Longrightarrow> roomy (xs ! i)"
    "\<And>i. i < length xs \<Longrightarrow> \<not> in_remat (xs ! i) \<and> 0 < in_bytes (xs ! i) \<and> length (defs_at (xs ! i)) \<le> 1"
    "\<And>i. i < length xs \<Longrightarrow> in_op (xs ! i) = ''DEFINE_LOCAL'' \<Longrightarrow> (case in_local (xs ! i) of Inr n \<Rightarrow> 0 \<le> n | Inl _ \<Rightarrow> False)"
    "\<And>i. i < length xs \<Longrightarrow> in_two_address (xs ! i) \<Longrightarrow> in_srcs (xs ! i) \<noteq> [] \<and> in_op (xs ! i) \<noteq> ''RANGE''"
    "\<And>i. i < length xs \<Longrightarrow> in_op (xs ! i) = ''END'' \<Longrightarrow> set (virtuals (in_srcs (xs ! i))) \<subseteq> set (all_defs xs)"
    "ends_well xs"
proof -
  note w = assms [unfolded well_formed_def]
  show "structured xs" "distinct (all_defs xs)" "ends_well xs" using w by simp_all
  have a: "\<forall>v \<in> set (all_defs xs). \<not> r_fixed v \<and> reg_span v = 1 \<and> distinct (map r_index (cons_of v))" using w by (elim conjE)
  show "\<not> r_fixed v \<and> reg_span v = 1 \<and> distinct (map r_index (cons_of v))" if "v \<in> set (all_defs xs)" for v by (rule bspec [OF a that])
  have b: "\<forall>i < length xs. \<forall>v \<in> set (live_at (xs ! i)). \<exists>d < i. v \<in> set (defs_at (xs ! d))" using w by (elim conjE)
  show "\<exists>d < i. v \<in> set (defs_at (xs ! d))" if "i < length xs" "v \<in> set (live_at (xs ! i))" for i v by (rule b [rule_format, OF that])
  have c: "\<forall>x \<in> set xs. in_op x \<noteq> ''END'' \<longrightarrow> set (operands x) = set (live_at x)" using w by (elim conjE)
  show "set (operands (xs ! i)) = set (live_at (xs ! i))" if "i < length xs" "in_op (xs ! i) \<noteq> ''END''" for i
    by (rule c [rule_format, OF nth_mem [OF that(1)] that(2)])
  have d: "\<forall>x \<in> set xs. roomy x" using w by (elim conjE)
  show "roomy (xs ! i)" if "i < length xs" for i by (rule bspec [OF d nth_mem [OF that]])
  have e: "\<forall>x \<in> set xs. \<not> in_remat x \<and> 0 < in_bytes x \<and> length (defs_at x) \<le> 1" using w by (elim conjE)
  show "\<not> in_remat (xs ! i) \<and> 0 < in_bytes (xs ! i) \<and> length (defs_at (xs ! i)) \<le> 1" if "i < length xs" for i
    by (rule bspec [OF e nth_mem [OF that]])
  have f: "\<forall>x \<in> set xs. in_op x = ''DEFINE_LOCAL'' \<longrightarrow> (case in_local x of Inr n \<Rightarrow> 0 \<le> n | Inl _ \<Rightarrow> False)" using w by (elim conjE)
  show "case in_local (xs ! i) of Inr n \<Rightarrow> 0 \<le> n | Inl _ \<Rightarrow> False" if "i < length xs" "in_op (xs ! i) = ''DEFINE_LOCAL''" for i
    by (rule mp [OF bspec [OF f nth_mem [OF that(1)]] that(2)])
  have h: "\<forall>x \<in> set xs. in_two_address x \<longrightarrow> in_srcs x \<noteq> [] \<and> in_op x \<noteq> ''RANGE''" using w by (elim conjE)
  show "in_srcs (xs ! i) \<noteq> [] \<and> in_op (xs ! i) \<noteq> ''RANGE''" if "i < length xs" "in_two_address (xs ! i)" for i
    by (rule mp [OF bspec [OF h nth_mem [OF that(1)]] that(2)])
  have j: "\<forall>x \<in> set xs. in_op x = ''END'' \<longrightarrow> set (virtuals (in_srcs x)) \<subseteq> set (all_defs xs)" using w by (elim conjE)
  show "set (virtuals (in_srcs (xs ! i))) \<subseteq> set (all_defs xs)" if "i < length xs" "in_op (xs ! i) = ''END''" for i
    by (rule mp [OF bspec [OF j nth_mem [OF that(1)]] that(2)])
qed

lemma ranges_shift: "ranges_from xs (Suc i) (points (xs ! Suc i)) lr \<Longrightarrow> ranges_from xs i {} lr"
proof -
  assume a: "ranges_from xs (Suc i) (points (xs ! Suc i)) lr"
  have ok: "range_ok xs i v js" if "map_of lr v = Some js" for v js
  proof -
    have "range_ok xs (Suc i) v js" using a that unfolding ranges_from_def by blast
    then show ?thesis unfolding range_ok_def by (auto dest: Suc_leD)
  qed
  have pt: "\<exists>js. map_of lr v = Some js \<and> j \<in> set js" if "j < length xs" "i < j" "v \<in> points (xs ! j)" for j v
  proof (cases "j = Suc i")
    case True
    then show ?thesis using a that(3) unfolding ranges_from_def by blast
  next
    case False
    then have "Suc i < j" using that(2) by simp
    then show ?thesis using a that unfolding ranges_from_def by blast
  qed
  show ?thesis unfolding ranges_from_def using ok pt by blast
qed

lemma in_live_virtuals: "v \<in> set (virtuals rs) \<longleftrightarrow> Some v \<in> set rs \<and> \<not> r_fixed v"
  by (force simp: virtuals_def List.map_filter_def image_iff)

lemma loop_last_use:
  assumes wf: "well_formed xs" and i: "i < length xs" "in_op (xs ! i) = ''RANGE''"
    and lr: "ranges_from xs i (points (xs ! i)) lr"
  shows "\<exists>js. map_of lr (loop_reg (xs ! i)) = Some js \<and> js \<noteq> [] \<and> last js < length xs \<and> in_op (xs ! last js) = ''END''"
proof -
  let ?v = "loop_reg (xs ! i)"
  note w = wf_program [OF wf]
  obtain e where e: "e < length xs" "i < e" "in_op (xs ! e) = ''END''" "?v \<in> set (live_at (xs ! e))"
      "\<And>j. j < length xs \<Longrightarrow> ?v \<in> set (live_at (xs ! j)) \<Longrightarrow> j \<le> e"
    using w(1) i unfolding structured_def by blast
  have "in_defs (xs ! i) \<noteq> []" using w(1) i unfolding structured_def by force
  then have v: "?v \<in> set (defs_at (xs ! i))" using i pseudo_facts by (auto simp: defs_at_def loop_reg_def)
  have "?v \<in> points (xs ! e)" using e(4) by (simp add: points_def)
  then obtain js where js: "map_of lr ?v = Some js" "e \<in> set js"
    using lr e(1,2) unfolding ranges_from_def by blast
  have ok: "range_ok xs i ?v js" using lr js(1) unfolding ranges_from_def by blast
  then have l: "js \<noteq> []" "e \<le> last js" "last js < length xs" "?v \<in> points (xs ! last js) \<or> in_op (xs ! last js) = ''END''"
    using js(2) sorted_last [of js e] by (auto simp: range_ok_def)
  have "in_op (xs ! last js) = ''END''" if "?v \<in> points (xs ! last js)"
  proof (cases "?v \<in> set (defs_at (xs ! last js))")
    case True
    then have "last js = i" using def_unique [OF w(2) l(3) i(1)] v by blast
    then show ?thesis using e(2) l(2) by simp
  next
    case False
    then have "last js \<le> e" using that e(5) [OF l(3)] by (simp add: points_def)
    then have "last js = e" using l(2) by simp
    then show ?thesis using e(3) by simp
  qed
  then show ?thesis using js(1) l by blast
qed

lemma range_step_ok:
  assumes wf: "well_formed xs" and i: "i < length xs" and lr: "ranges_from xs i {} lr" and loops: "loops_from xs lr loops"
  shows "\<exists>lr' loops'. range_step (i, xs ! i) (lr, loops) = Inr (lr', loops') \<and> ranges_from xs i (points (xs ! i)) lr' \<and> loops_from xs lr' loops'"
proof (cases "in_pseudo (xs ! i)")
  case True
  then show ?thesis using lr loops by (simp add: range_step_def points_def defs_at_def live_at_def)
next
  case False
  note w = wf_program [OF wf]
  let ?vs = "map Some (in_defs (xs ! i)) @ in_live (xs ! i)"
  have "\<not> r_fixed v" if "v \<in> set (in_defs (xs ! i))" for v
    using w(3) [OF all_defs_nth [OF i]] that False by (simp add: defs_at_def)
  then have p: "{v. Some v \<in> set ?vs \<and> \<not> r_fixed v} = points (xs ! i)"
    using False by (auto simp: points_def defs_at_def live_at_def in_live_virtuals)
  have a: "ranges_from xs i (points (xs ! i)) (fold (add_point i) ?vs lr)" "loops_from xs (fold (add_point i) ?vs lr) loops"
    using add_points_ranges [OF lr i _ loops, of ?vs] p by auto
  obtain lr' where lr': "rfold (extend_range loops) (in_defs (xs ! i)) (fold (add_point i) ?vs lr) = Inr lr'"
      "ranges_from xs i (points (xs ! i)) lr'" "loops_from xs lr' loops"
    using extend_ranges [OF a] by blast
  show ?thesis
  proof (cases "in_op (xs ! i) = ''RANGE''")
    case True
    have "length (in_defs (xs ! i)) = 1" using w(1) i True unfolding structured_def by blast
    then have d: "in_defs (xs ! i) = [loop_reg (xs ! i)]" by (cases "in_defs (xs ! i)") (auto simp: loop_reg_def)
    have "loops_from xs lr' (loops @ [Some (loop_reg (xs ! i))])"
      using lr'(3) loop_last_use [OF wf i True lr'(2)] by (auto simp: loops_from_def)
    then show ?thesis using lr' False True d by (simp add: range_step_def)
  next
    case False
    then show ?thesis using lr' \<open>\<not> in_pseudo (xs ! i)\<close> by (simp add: range_step_def)
  qed
qed

lemma range_steps_ok:
  assumes "well_formed xs" "k \<le> length xs"
  shows "\<exists>lr loops. rfold range_step (rev (map (\<lambda>i. (i, xs ! i)) [k..<length xs])) ([], []) = Inr (lr, loops)
    \<and> loops_from xs lr loops \<and> (if k < length xs then ranges_from xs k (points (xs ! k)) lr else lr = [])"
  using assms(2)
proof (induction "length xs - k" arbitrary: k)
  case 0
  then show ?case by (simp add: loops_from_def)
next
  case (Suc m)
  then have k: "k < length xs" by simp
  obtain lr loops where IH: "rfold range_step (rev (map (\<lambda>i. (i, xs ! i)) [Suc k..<length xs])) ([], []) = Inr (lr, loops)"
      "loops_from xs lr loops" "if Suc k < length xs then ranges_from xs (Suc k) (points (xs ! Suc k)) lr else lr = []"
  proof -
    have "m = length xs - Suc k" "Suc k \<le> length xs" using Suc.hyps(2) k by simp_all
    from Suc.hyps(1) [OF this] show ?thesis using that by blast
  qed
  have "ranges_from xs k {} lr"
  proof (cases "Suc k < length xs")
    case True
    then show ?thesis using IH(3) ranges_shift by simp
  next
    case False
    then show ?thesis using IH(3) k by (auto simp: ranges_from_def)
  qed
  from range_step_ok [OF assms(1) k this IH(2)] show ?case
    using IH(1) k by (auto simp: upt_conv_Cons rfold_append)
qed

definition all_ranges :: "ins list \<Rightarrow> ranges \<Rightarrow> bool" where
  "all_ranges xs lr \<longleftrightarrow> (\<forall>v js. map_of lr v = Some js \<longrightarrow> range_ok xs 0 v js)
     \<and> (\<forall>i < length xs. \<forall>v \<in> points (xs ! i). \<exists>js. map_of lr v = Some js \<and> i \<in> set js)"

lemma range_mem:
  assumes lr: "all_ranges xs lr" and i: "i < length xs" "in_op (xs ! i) \<noteq> ''END''" and js: "map_of lr v = Some js"
  shows "i \<in> set js \<longleftrightarrow> v \<in> points (xs ! i)"
proof
  assume "i \<in> set js"
  moreover have "range_ok xs 0 v js" using lr js unfolding all_ranges_def by blast
  ultimately show "v \<in> points (xs ! i)" using i(2) unfolding range_ok_def by auto
next
  assume "v \<in> points (xs ! i)"
  then obtain js' where "map_of lr v = Some js'" "i \<in> set js'" using lr i(1) unfolding all_ranges_def by blast
  then show "i \<in> set js" using js by simp
qed

lemma live_ranges_ok:
  assumes "well_formed xs"
  shows "\<exists>lr. live_ranges xs = Inr lr \<and> all_ranges xs lr"
proof -
  have e: "enumerate 0 xs = map (\<lambda>i. (i, xs ! i)) [0..<length xs]"
    by (rule nth_equalityI) (auto simp: nth_enumerate_eq)
  obtain lr loops where r: "rfold range_step (rev (map (\<lambda>i. (i, xs ! i)) [0..<length xs])) ([], []) = Inr (lr, loops)"
      "if 0 < length xs then ranges_from xs 0 (points (xs ! 0)) lr else lr = []"
    using range_steps_ok [OF assms, of 0] by auto
  have "all_ranges xs lr"
  proof (cases "0 < length xs")
    case True
    then have a: "ranges_from xs 0 (points (xs ! 0)) lr" using r(2) by simp
    have "\<exists>js. map_of lr v = Some js \<and> i \<in> set js" if "i < length xs" "v \<in> points (xs ! i)" for i v
      using a that unfolding ranges_from_def by (cases i) auto
    then show ?thesis using a unfolding all_ranges_def ranges_from_def by blast
  next
    case False
    then show ?thesis using r(2) by (simp add: all_ranges_def)
  qed
  then show ?thesis using r(1) by (simp add: live_ranges_def e)
qed

lemma range_starts:
  assumes wf: "well_formed xs" and lr: "all_ranges xs lr" and d: "d < length xs" "v \<in> set (defs_at (xs ! d))"
  shows "\<exists>js. map_of lr v = Some (d # js) \<and> sorted (d # js)"
proof -
  note w = wf_program [OF wf]
  obtain js where js: "map_of lr v = Some js" "d \<in> set js" using lr d unfolding all_ranges_def points_def by blast
  then have ok: "js \<noteq> []" "sorted js" "v \<in> points (xs ! hd js)" "hd js < length xs"
    using lr unfolding all_ranges_def range_ok_def by (auto intro: hd_in_set)
  have "hd js = d"
  proof (cases "v \<in> set (defs_at (xs ! hd js))")
    case True
    then show ?thesis using def_unique [OF w(2) ok(4) d(1)] d(2) by blast
  next
    case False
    then obtain d' where "d' < hd js" "v \<in> set (defs_at (xs ! d'))" using ok(3,4) w(4) by (auto simp: points_def)
    moreover from this have "d' = d" using def_unique [OF w(2) _ d(1)] d(2) ok(4) by simp
    moreover have "hd js \<le> d" using ok(1,2) js(2) by (cases js) auto
    ultimately show ?thesis by simp
  qed
  then show ?thesis using js ok by (cases js) auto
qed

end
