(* ===== verification/RegallocFrame.thy ===== *)
theory RegallocFrame
  imports RegallocRanges
begin

text \<open>
  The stack frame of the allocator: the slot of a spilled value is aligned to its size, and no two slots or
  local arrays overlap.
\<close>

definition slot_bytes :: "ins list \<Rightarrow> register \<Rightarrow> int" where
  "slot_bytes xs v = (case List.find (\<lambda>x. v \<in> set (defs_at x)) xs of None \<Rightarrow> 0 | Some x \<Rightarrow> in_bytes x)"

definition local_bytes :: "ins list \<Rightarrow> nat \<Rightarrow> int" where
  "local_bytes xs i = (case lget xs i of Inl _ \<Rightarrow> 0 | Inr x \<Rightarrow> (case in_local x of Inl _ \<Rightarrow> 0 | Inr n \<Rightarrow> n))"

definition areas :: "ins list \<Rightarrow> (register, int) dict \<Rightarrow> (nat \<times> int) list \<Rightarrow> (int \<times> int) list" where
  "areas xs sp lo = map (\<lambda>(v, off). (off, slot_bytes xs v)) sp @ map (\<lambda>(i, off). (off, local_bytes xs i)) lo"

definition apart :: "int \<times> int \<Rightarrow> int \<times> int \<Rightarrow> bool" where
  "apart a b \<longleftrightarrow> fst a + snd a \<le> fst b \<or> fst b + snd b \<le> fst a"

definition frame_ok :: "ins list \<Rightarrow> (register, int) dict \<Rightarrow> int \<Rightarrow> (nat \<times> int) list \<Rightarrow> bool" where
  "frame_ok xs sp n lo \<longleftrightarrow> 0 \<le> n \<and> distinct (map fst sp)
     \<and> (\<forall>(v, off) \<in> set sp. v \<in> set (all_defs xs) \<and> 0 < slot_bytes xs v \<and> slot_bytes xs v dvd off)
     \<and> (\<forall>(off, sz) \<in> set (areas xs sp lo). 0 \<le> off \<and> 0 \<le> sz \<and> off + sz \<le> n)
     \<and> sorted_wrt apart (areas xs sp lo)"

lemma frame_empty: "frame_ok xs [] 0 []"
  by (simp add: frame_ok_def areas_def)

lemma frame_okD:
  assumes "frame_ok xs sp n lo"
  shows "0 \<le> n" "distinct (map fst sp)"
    "\<And>v off. (v, off) \<in> set sp \<Longrightarrow> v \<in> set (all_defs xs) \<and> 0 < slot_bytes xs v \<and> slot_bytes xs v dvd off"
    "\<And>off sz. (off, sz) \<in> set (areas xs sp lo) \<Longrightarrow> 0 \<le> off \<and> 0 \<le> sz \<and> off + sz \<le> n"
    "sorted_wrt apart (areas xs sp lo)"
  using assms unfolding frame_ok_def by fast+

lemma slot_bytes_def_at:
  assumes wf: "well_formed xs" and d: "d < length xs" "v \<in> set (defs_at (xs ! d))"
  shows "slot_bytes xs v = in_bytes (xs ! d)"
proof -
  obtain x where x: "List.find (\<lambda>x. v \<in> set (defs_at x)) xs = Some x"
    using d by (cases "List.find (\<lambda>x. v \<in> set (defs_at x)) xs") (auto simp: find_None_iff)
  then obtain k where "k < length xs" "x = xs ! k" "v \<in> set (defs_at (xs ! k))" by (auto simp: find_Some_iff)
  moreover from this have "k = d" using def_unique [OF wf_program(2) [OF wf]] d by blast
  ultimately show ?thesis using x by (simp add: slot_bytes_def)
qed

text \<open>A new area at or above the old end of the frame overlaps nothing.\<close>

lemma areas_above:
  assumes f: "frame_ok xs sp n lo" and n: "n \<le> off"
  shows "\<forall>a \<in> set (areas xs sp lo). apart a (off, sz) \<and> apart (off, sz) a"
  using frame_okD(4) [OF f] n by (fastforce simp: apart_def)

lemma frame_spill:
  assumes f: "frame_ok xs sp n lo" and v: "v \<in> set (all_defs xs)" "v \<notin> fst ` set sp" and sz: "slot_bytes xs v = sz" "0 < sz"
  shows "frame_ok xs (sp @ [(v, n + (sz - n mod sz) mod sz)]) (n + (sz - n mod sz) mod sz + sz) lo"
proof -
  let ?off = "n + (sz - n mod sz) mod sz"
  note F = frame_okD [OF f]
  have ge: "n \<le> ?off" using sz(2) by simp
  have "?off mod sz = (n + (sz - n mod sz)) mod sz" by (rule mod_add_right_eq)
  also have "n + (sz - n mod sz) = sz * (n div sz + 1)" using mult_div_mod_eq [of sz n] by (simp add: algebra_simps)
  also have "\<dots> mod sz = 0" by simp
  finally have "sz dvd ?off" by (simp only: dvd_eq_mod_eq_0)
  note above = areas_above [OF f ge, of sz]
  have "sorted_wrt apart (areas xs (sp @ [(v, ?off)]) lo)"
    using F(5) above sz(1) by (simp add: areas_def sorted_wrt_append ball_Un)
  moreover have "0 \<le> a \<and> 0 \<le> b \<and> a + b \<le> ?off + sz" if "(a, b) \<in> set (areas xs (sp @ [(v, ?off)]) lo)" for a b
  proof (cases "(a, b) = (?off, sz)")
    case True
    then show ?thesis using F(1) ge sz(2) by simp
  next
    case False
    then have "(a, b) \<in> set (areas xs sp lo)" using that sz(1) by (auto simp: areas_def)
    then have "0 \<le> a \<and> 0 \<le> b \<and> a + b \<le> n" by (rule F(4))
    then show ?thesis using ge sz(2) by linarith
  qed
  moreover have "w \<in> set (all_defs xs) \<and> 0 < slot_bytes xs w \<and> slot_bytes xs w dvd o'" if "(w, o') \<in> set (sp @ [(v, ?off)])" for w o'
    using that F(3) v(1) sz \<open>sz dvd ?off\<close> by auto
  moreover have "distinct (map fst (sp @ [(v, ?off)]))" using F(2) v(2) by simp
  moreover have "0 \<le> ?off + sz" using F(1) ge sz(2) by simp
  ultimately show ?thesis unfolding frame_ok_def by blast
qed

lemma frame_local:
  assumes f: "frame_ok xs sp n lo" and sz: "local_bytes xs i = sz" "0 \<le> sz"
  shows "frame_ok xs sp (n + sz) (lo @ [(i, n)])"
proof -
  note F = frame_okD [OF f]
  have e: "areas xs sp (lo @ [(i, n)]) = areas xs sp lo @ [(n, sz)]" using sz(1) by (simp add: areas_def)
  have "sorted_wrt apart (areas xs sp (lo @ [(i, n)]))"
    using F(5) areas_above [OF f order_refl, of sz] by (simp add: e sorted_wrt_append)
  moreover have "0 \<le> a \<and> 0 \<le> b \<and> a + b \<le> n + sz" if "(a, b) \<in> set (areas xs sp (lo @ [(i, n)]))" for a b
    using that F(1) F(4) [of a b] sz(2) by (auto simp: e)
  moreover have "0 \<le> n + sz" using F(1) sz(2) by simp
  ultimately show ?thesis using F(2,3) unfolding frame_ok_def by blast
qed

lemma slots_differ:
  assumes f: "frame_ok xs sp n lo" and v: "map_of sp v = Some a" and w: "map_of sp w = Some b" and ne: "v \<noteq> w"
  shows "a \<noteq> b"
proof -
  note F = frame_okD [OF f]
  let ?g = "\<lambda>(v, off). (off, slot_bytes xs v)"
  have m: "(v, a) \<in> set sp" "(w, b) \<in> set sp" using v w by (auto dest: map_of_SomeD)
  then obtain j k where j: "j < length sp" "sp ! j = (v, a)" and k: "k < length sp" "sp ! k = (w, b)" by (auto simp: in_set_conv_nth)
  have s: "sorted_wrt (\<lambda>p q. apart (?g p) (?g q)) sp" using F(5) by (simp add: areas_def sorted_wrt_append sorted_wrt_map)
  have pos: "0 < slot_bytes xs v" "0 < slot_bytes xs w" using F(3) m by blast+
  have "j \<noteq> k" using j k ne by auto
  then consider "j < k" | "k < j" by linarith
  then show ?thesis
  proof cases
    case 1
    then have "apart (a, slot_bytes xs v) (b, slot_bytes xs w)" using sorted_wrt_nth_less [OF s 1 k(1)] j(2) k(2) by simp
    then show ?thesis using pos by (auto simp: apart_def)
  next
    case 2
    then have "apart (b, slot_bytes xs w) (a, slot_bytes xs v)" using sorted_wrt_nth_less [OF s 2 j(1)] j(2) k(2) by simp
    then show ?thesis using pos by (auto simp: apart_def)
  qed
qed

end
