(* ===== verification/RegallocLive.thy ===== *)
theory RegallocLive
  imports RegallocFrame
begin

text \<open>
  One allocation: the chosen register comes from the pool, its owner leaves, and no operand of the current
  instruction is the owner when the pool has a register that no operand owns.
\<close>

abbreviation live_map :: "ralloc \<Rightarrow> register \<Rightarrow> register option" where
  "live_map st \<equiv> map_of (ra_live st)"

definition good_state :: "ins list \<Rightarrow> ralloc \<Rightarrow> bool" where
  "good_state xs st \<longleftrightarrow> distinct (map fst (ra_live st)) \<and> ra_pinned st = []
     \<and> ra_remats st = [] \<and> ra_remat_before st = []
     \<and> frame_ok xs (ra_spills st) (ra_stack st) (ra_locals st)
     \<and> (\<forall>v r. live_map st v = Some r \<longrightarrow> v \<in> set (all_defs xs) \<and> r \<in> set (cons_of v))
     \<and> (\<forall>v w r. live_map st v = Some r \<longrightarrow> live_map st w = Some r \<longrightarrow> v = w)"

text \<open>The map of live registers after \<open>v\<close> took register \<open>r\<close>, whose owner leaves.\<close>

definition put :: "register \<Rightarrow> register \<Rightarrow> (register \<Rightarrow> register option) \<Rightarrow> register \<Rightarrow> register option" where
  "put v r L = (\<lambda>w. if w = v then Some r else if L w = Some r then None else L w)"

lemma by_index_self: "distinct (map r_index rs) \<Longrightarrow> r \<in> set rs \<Longrightarrow> by_index rs (r_index r) = Inr r"
proof -
  assume d: "distinct (map r_index rs)" and r: "r \<in> set rs"
  obtain s where s: "List.find (\<lambda>s. r_index s = r_index r) (rev rs) = Some s"
    using r by (cases "List.find (\<lambda>s. r_index s = r_index r) (rev rs)") (auto simp: find_None_iff)
  then have "s \<in> set rs" "r_index s = r_index r" by (auto simp: find_Some_iff) (metis nth_mem set_rev length_rev)
  then have "s = r" using d r by (auto simp: distinct_map dest: inj_onD)
  then show ?thesis using s by (simp add: by_index_def)
qed

lemma slots_self:
  assumes wf: "well_formed xs" and v: "v \<in> set (all_defs xs)" and r: "r \<in> set (cons_of v)"
  shows "physical_slots v r = Inr [r]"
proof -
  have "reg_span v = 1" "distinct (map r_index (cons_of v))" using wf_program(3) [OF wf v] by simp_all
  then show ?thesis using by_index_self [OF _ r] by (simp add: physical_slots_def)
qed

lemma occupied_ok:
  assumes wf: "well_formed xs" and g: "good_state xs st"
  shows "\<exists>occ. occupied st = Inr occ \<and> (\<forall>r v. map_of occ r = Some v \<longleftrightarrow> live_map st v = Some r)"
proof -
  let ?ps = "map (\<lambda>(v, r). (r, v)) (ra_live st)"
  have keys: "distinct (map fst (ra_live st))" using g by (simp add: good_state_def)
  have mem: "(v, r) \<in> set (ra_live st) \<longleftrightarrow> live_map st v = Some r" for v r using keys by simp
  have inj: "v = w" if "(v, r) \<in> set (ra_live st)" "(w, r) \<in> set (ra_live st)" for v w r
    using g that mem unfolding good_state_def by blast
  have "distinct (map snd (ra_live st))"
    using distinct_map [of fst "ra_live st"] keys inj by (auto simp: distinct_map inj_on_def)
  then have "distinct (map fst ?ps)" by (simp add: comp_def case_prod_beta)
  then have d: "distinct (map fst (rev ?ps))" by (metis distinct_rev rev_map)
  have "rmap (\<lambda>(v, b). rbind (physical_slots v b) (\<lambda>slots. Inr (map (\<lambda>s. (s, v)) slots))) (ra_live st)
      = Inr (map (\<lambda>(v, r). [(r, v)]) (ra_live st))"
  proof (rule rmap_total)
    fix p assume p: "p \<in> set (ra_live st)"
    obtain v r where vr: "p = (v, r)" by (cases p)
    then have "v \<in> set (all_defs xs)" "r \<in> set (cons_of v)" using g mem p unfolding good_state_def by blast+
    then show "(case p of (v, b) \<Rightarrow> rbind (physical_slots v b) (\<lambda>slots. Inr (map (\<lambda>s. (s, v)) slots))) = Inr (case p of (v, r) \<Rightarrow> [(r, v)])"
      using slots_self [OF wf] vr by simp
  qed
  moreover have "concat (map (\<lambda>(v, r). [(r, v)]) l) = map (\<lambda>(v, r). (r, v)) l" for l :: "(register \<times> register) list"
    by (induction l) auto
  ultimately have occ: "occupied st = Inr (rev ?ps)" by (simp add: occupied_def)
  have "map_of (rev ?ps) r = Some v \<longleftrightarrow> live_map st v = Some r" for r v
    using map_of_eq_Some_iff [OF d, of r v] mem [of v r] by auto
  then show ?thesis using occ by blast
qed

lemma first_max_fold:
  "fold (\<lambda>y m. if f m < f y then y else m) xs x \<in> set (x # xs)
   \<and> (\<forall>y \<in> set (x # xs). f y \<le> f (fold (\<lambda>y m. if f m < f y then y else m) xs x))" for f :: "'a \<Rightarrow> 'k :: linorder"
proof (induction xs arbitrary: x)
  case (Cons a xs)
  let ?m = "if f x < f a then a else x"
  have "f x \<le> f ?m" "f a \<le> f ?m" by auto
  then show ?case using Cons.IH [of ?m] by (auto intro: order_trans split: if_splits)
qed simp

lemma first_max_props: "xs \<noteq> [] \<Longrightarrow> first_max f xs \<in> set xs \<and> (\<forall>y \<in> set xs. f y \<le> f (first_max f xs))" for f :: "'a \<Rightarrow> 'k :: linorder"
  using first_max_fold [of f "tl xs" "hd xs"] by (cases xs) simp_all

lemma pick_max_ok:
  assumes "xs \<noteq> []" and "\<And>x. x \<in> set xs \<Longrightarrow> score x = Inr (g x)"
  shows "\<exists>x \<in> set xs. pick_max score xs = Inr x \<and> (\<forall>y \<in> set xs. g y \<le> g x)"
proof -
  let ?ps = "map (\<lambda>x. (x, g x)) xs"
  have "rmap (\<lambda>x. rbind (score x) (\<lambda>k. Inr (x, k))) xs = Inr ?ps"
    by (rule rmap_total) (simp add: assms(2))
  then have e: "pick_max score xs = Inr (fst (first_max snd ?ps))" using assms(1) by (simp add: pick_max_def)
  have "first_max snd ?ps \<in> set ?ps" "\<forall>y \<in> set ?ps. snd y \<le> snd (first_max snd ?ps)"
    using first_max_props [of ?ps snd] assms(1) by simp_all
  then obtain x where "x \<in> set xs" "first_max snd ?ps = (x, g x)" "\<forall>y \<in> set xs. g y \<le> g x" by auto
  then show ?thesis using e by auto
qed

lemma evict_map: "distinct (map fst (ra_live st)) \<Longrightarrow> live_map (evict [v] st) = (live_map st)(v := None) \<and> distinct (map fst (ra_live (evict [v] st)))"
  by (simp add: evict_def ddel_def distinct_delete delete_conv')

lemma next_use_at:
  assumes "map_of lr v = Some js" "sorted js"
  shows "\<exists>d. next_use lr n i v = Inr d \<and> 0 \<le> d \<and> (i \<in> set js \<longrightarrow> d = 0) \<and> (i \<notin> set js \<longrightarrow> 0 < n \<longrightarrow> 0 < d)"
proof (cases "List.find (\<lambda>j. i \<le> j) js")
  case None
  then have "i \<notin> set js" by (auto simp: find_None_iff)
  then show ?thesis using None assms by (simp add: next_use_def)
next
  case (Some j)
  then obtain k where k: "k < length js" "js ! k = j" "i \<le> j" "\<And>l. l < k \<Longrightarrow> \<not> i \<le> js ! l" by (auto simp: find_Some_iff)
  have "j = i" if m: "i \<in> set js"
  proof -
    obtain l where l: "l < length js" "js ! l = i" using m by (auto simp: in_set_conv_nth)
    then have "k \<le> l" using k(4) [of l] by fastforce
    then have "j \<le> i" using assms(2) k(2) l by (auto simp: sorted_iff_nth_mono)
    then show ?thesis using k(3) by simp
  qed
  moreover have "j \<noteq> i" if "i \<notin> set js" using that k(1,2) by auto
  ultimately show ?thesis using Some assms(1) k(3) by (auto simp: next_use_def)
qed

lemma all_defsD: "v \<in> set (all_defs xs) \<Longrightarrow> \<exists>d < length xs. v \<in> set (defs_at (xs ! d))"
  by (auto simp: all_defs_def) (metis in_set_conv_nth)

text \<open>The registers that instruction \<open>i\<close> must keep.\<close>

definition busy :: "ins list \<Rightarrow> nat \<Rightarrow> register set" where
  "busy xs i = set (operands (xs ! i)) \<union> set (defs_at (xs ! i))"

lemma busy_points: "well_formed xs \<Longrightarrow> i < length xs \<Longrightarrow> in_op (xs ! i) \<noteq> ''END'' \<Longrightarrow> busy xs i = points (xs ! i)"
  using wf_program(5) [of xs i] by (auto simp: busy_def points_def)

lemma alloc_ok:
  assumes wf: "well_formed xs" and lr: "all_ranges xs lr" and g: "good_state xs st" and v: "v \<in> set (all_defs xs)"
    and pool: "pool \<noteq> []"
  shows "\<exists>r \<in> set pool. \<exists>st'. alloc lr (length xs) pool i v st = Inr (r, st')
    \<and> st' = st\<lparr>ra_live := ra_live st'\<rparr> \<and> distinct (map fst (ra_live st'))
    \<and> live_map st' = (\<lambda>w. if live_map st w = Some r then None else live_map st w)
    \<and> (\<forall>k < length xs. in_op (xs ! k) \<noteq> ''END'' \<longrightarrow> k = i \<longrightarrow>
         (\<exists>r0 \<in> set pool. \<forall>w \<in> busy xs k. live_map st w \<noteq> Some r0) \<longrightarrow> (\<forall>w \<in> busy xs k. live_map st w \<noteq> Some r))"
proof -
  let ?n = "length xs"
  obtain occ where occ: "occupied st = Inr occ" "\<And>r w. map_of occ r = Some w \<longleftrightarrow> live_map st w = Some r"
    using occupied_ok [OF wf g] by blast
  have pins: "ra_pinned st = []" and keys: "distinct (map fst (ra_live st))" using g by (simp_all add: good_state_def)
  let ?d = "\<lambda>w. case next_use lr ?n i w of Inr d \<Rightarrow> d | Inl _ \<Rightarrow> 0"
  let ?g = "\<lambda>r. (case map_of occ r of None \<Rightarrow> int ?n | Some w \<Rightarrow> ?d w, - candidate_pressure lr r)"
  have next_ok: "\<exists>d. next_use lr ?n i w = Inr d \<and> (i < ?n \<longrightarrow> in_op (xs ! i) \<noteq> ''END'' \<longrightarrow> (d = 0 \<longleftrightarrow> w \<in> busy xs i) \<and> 0 \<le> d)"
    if "live_map st w = Some r" for w r
  proof -
    have "w \<in> set (all_defs xs)" using g that unfolding good_state_def by blast
    then obtain d where d: "d < ?n" "w \<in> set (defs_at (xs ! d))" using all_defsD by blast
    obtain js where js: "map_of lr w = Some js" "sorted js" using range_starts [OF wf lr d] by auto
    have inj: "i \<in> set js \<longleftrightarrow> w \<in> busy xs i" if "i < ?n" "in_op (xs ! i) \<noteq> ''END''"
      using range_mem [OF lr that js(1)] busy_points [OF wf that] by simp
    obtain u where u: "next_use lr ?n i w = Inr u" "0 \<le> u" "i \<in> set js \<longrightarrow> u = 0" "i \<notin> set js \<longrightarrow> 0 < ?n \<longrightarrow> 0 < u"
      using next_use_at [OF js, of ?n i] by blast
    have "u = 0 \<longleftrightarrow> i \<in> set js" if "i < ?n" using u(3,4) that by (cases "i \<in> set js") auto
    then show ?thesis using u inj by blast
  qed
  have score: "(case map_of occ r of None \<Rightarrow> Inr (int ?n, - candidate_pressure lr r)
      | Some w \<Rightarrow> if w \<in> set (ra_pinned st) then Inr (-1, 0)
          else rbind (next_use lr ?n i w) (\<lambda>d. Inr (d, - candidate_pressure lr r))) = Inr (?g r)" for r
  proof (cases "map_of occ r")
    case (Some w)
    then have "live_map st w = Some r" using occ(2) by blast
    then obtain d where "next_use lr ?n i w = Inr d" using next_ok by blast
    then show ?thesis using Some pins by simp
  qed simp
  have "\<exists>r \<in> set pool. pick_max (\<lambda>r. case map_of occ r of None \<Rightarrow> Inr (int ?n, - candidate_pressure lr r)
      | Some w \<Rightarrow> if w \<in> set (ra_pinned st) then Inr (-1, 0)
          else rbind (next_use lr ?n i w) (\<lambda>d. Inr (d, - candidate_pressure lr r))) pool = Inr r \<and> (\<forall>y \<in> set pool. ?g y \<le> ?g r)"
    by (rule pick_max_ok [OF pool, of _ ?g]) (rule score)
  then obtain r where r: "r \<in> set pool" "pick_max (\<lambda>r. case map_of occ r of None \<Rightarrow> Inr (int ?n, - candidate_pressure lr r)
      | Some w \<Rightarrow> if w \<in> set (ra_pinned st) then Inr (-1, 0)
          else rbind (next_use lr ?n i w) (\<lambda>d. Inr (d, - candidate_pressure lr r))) pool = Inr r" "\<forall>y \<in> set pool. ?g y \<le> ?g r"
    by blast
  let ?st = "case map_of occ r of None \<Rightarrow> st | Some w \<Rightarrow> evict [w] st"
  have a: "alloc lr ?n pool i v st = Inr (r, ?st)"
    using wf_program(3) [OF wf v] r(2) by (simp add: alloc_def alloc_single_def occ(1))
  have "live_map ?st = (\<lambda>w. if live_map st w = Some r then None else live_map st w) \<and> distinct (map fst (ra_live ?st)) \<and> ?st = st\<lparr>ra_live := ra_live ?st\<rparr>"
  proof (cases "map_of occ r")
    case None
    then show ?thesis using occ(2) [of r] keys by (auto simp: fun_eq_iff)
  next
    case (Some w)
    then have "live_map st w = Some r" using occ(2) by blast
    then have "live_map st u = Some r \<longleftrightarrow> u = w" for u using g unfolding good_state_def by blast
    then show ?thesis using Some evict_map [OF keys, of w] by (auto simp: fun_eq_iff evict_def)
  qed
  moreover have "\<forall>w \<in> busy xs i. live_map st w \<noteq> Some r"
    if k: "i < ?n" "in_op (xs ! i) \<noteq> ''END''" "r0 \<in> set pool" "\<forall>w \<in> busy xs i. live_map st w \<noteq> Some r0" for r0
  proof
    fix w assume w: "w \<in> busy xs i"
    show "live_map st w \<noteq> Some r"
    proof
      assume l: "live_map st w = Some r"
      have "map_of occ r = Some w" using occ(2) l by blast
      then have "fst (?g r) = 0" using next_ok [OF l] k(1,2) w by auto
      moreover have "0 < fst (?g r0)"
      proof (cases "map_of occ r0")
        case None
        have "0 < ?n" using k(1) by linarith
        then show ?thesis using None by simp
      next
        case (Some u)
        then have l0: "live_map st u = Some r0" using occ(2) by blast
        then have "u \<notin> busy xs i" using k(4) by blast
        then show ?thesis using next_ok [OF l0] k(1,2) Some by auto
      qed
      ultimately have "\<not> ?g r0 \<le> ?g r" by (simp add: less_eq_prod_def)
      then show False using r(3) k(3) by blast
    qed
  qed
  ultimately show ?thesis using r(1) a by blast
qed

text \<open>A pool that is larger than the number of registers \<open>ws\<close> whose pools overlap it has one that none of them owns.\<close>

lemma free_of:
  assumes wf: "well_formed xs" and v: "v \<in> set (all_defs xs)" and g: "good_state xs st"
    and room: "length (filter (overlap v) ws) < length (cons_of v)"
  shows "\<exists>r0 \<in> set (cons_of v). \<forall>w \<in> set ws. live_map st w \<noteq> Some r0"
proof (rule ccontr)
  assume "\<not> ?thesis"
  then have own: "\<exists>w \<in> set ws. live_map st w = Some r" if "r \<in> set (cons_of v)" for r using that by blast
  let ?ws = "set (filter (overlap v) ws)"
  have "set (cons_of v) \<subseteq> (\<lambda>w. the (live_map st w)) ` ?ws"
  proof
    fix r assume r: "r \<in> set (cons_of v)"
    obtain w where w: "w \<in> set ws" "live_map st w = Some r" using own [OF r] by blast
    then have "r \<in> set (cons_of w)" using g unfolding good_state_def by blast
    then have "w \<in> ?ws" using w(1) r by (auto simp: overlap_def list_ex_iff)
    then show "r \<in> (\<lambda>w. the (live_map st w)) ` ?ws" using w(2) by force
  qed
  then have "card (set (cons_of v)) \<le> card ((\<lambda>w. the (live_map st w)) ` ?ws)" by (intro card_mono) auto
  also have "\<dots> \<le> card ?ws" by (rule card_image_le) simp
  also have "\<dots> \<le> length (filter (overlap v) ws)" by (rule card_length)
  finally have "card (set (cons_of v)) < length (cons_of v)" using room by simp
  moreover have "distinct (cons_of v)" using wf_program(3) [OF wf v] by (simp add: distinct_map)
  ultimately show False by (simp add: distinct_card)
qed

text \<open>Before the definitions of an instruction are allocated, the operands are its only busy registers.\<close>

definition no_defs :: "ins list \<Rightarrow> nat \<Rightarrow> ralloc \<Rightarrow> bool" where
  "no_defs xs i st \<longleftrightarrow> (\<forall>w \<in> set (defs_at (xs ! i)). live_map st w = None)"

lemma free_operand:
  assumes wf: "well_formed xs" and i: "i < length xs" and g: "good_state xs st" and nd: "no_defs xs i st"
    and v: "v \<in> set (operands (xs ! i))" "v \<in> set (all_defs xs)" "live_map st v = None"
  shows "\<exists>r0 \<in> set (cons_of v). \<forall>w \<in> busy xs i. live_map st w \<noteq> Some r0"
proof -
  have "length (filter (overlap v) (filter (\<lambda>w. w \<noteq> v) (operands (xs ! i)))) < length (cons_of v)"
    using wf_program(6) [OF wf i] v(1) by (simp add: roomy_def conj_commute)
  from free_of [OF wf v(2) g this] obtain r0 where r0: "r0 \<in> set (cons_of v)"
      "\<forall>w \<in> set (filter (\<lambda>w. w \<noteq> v) (operands (xs ! i))). live_map st w \<noteq> Some r0" by blast
  then have "live_map st w \<noteq> Some r0" if "w \<in> busy xs i" for w
    using that v(3) nd by (cases "w = v") (auto simp: busy_def no_defs_def)
  then show ?thesis using r0(1) by blast
qed

lemma free_definition:
  assumes wf: "well_formed xs" and i: "i < length xs" and g: "good_state xs st" and nd: "no_defs xs i st"
    and v: "v \<in> set (defs_at (xs ! i))" "in_two_address (xs ! i) \<or> in_op (xs ! i) = ''RANGE''"
  shows "\<exists>r0 \<in> set (cons_of v). \<forall>w \<in> busy xs i. live_map st w \<noteq> Some r0"
proof -
  have a: "v \<in> set (all_defs xs)" by (rule all_defs_nth [OF i v(1)])
  have "length (filter (overlap v) (operands (xs ! i))) < length (cons_of v)"
    using wf_program(6) [OF wf i] v by (simp add: roomy_def)
  from free_of [OF wf a g this] show ?thesis using nd by (auto simp: busy_def no_defs_def)
qed

lemma good_put:
  assumes g: "good_state xs st" and st': "distinct (map fst (ra_live st'))" "live_map st' = (\<lambda>w. if live_map st w = Some r then None else live_map st w)"
    and pins: "ra_pinned st' = []" "ra_remats st' = []" "ra_remat_before st' = []" and frame: "frame_ok xs (ra_spills st') (ra_stack st') (ra_locals st')" and v: "v \<in> set (all_defs xs)" "r \<in> set (cons_of v)"
  shows "good_state xs (set_live v r st') \<and> live_map (set_live v r st') = put v r (live_map st)"
proof -
  have e: "live_map (set_live v r st') = put v r (live_map st)" by (auto simp: set_live_def put_def st'(2) fun_eq_iff)
  have "distinct (map fst (ra_live (set_live v r st')))" using st'(1) by (simp add: set_live_def distinct_dset)
  then show ?thesis using g v pins frame unfolding good_state_def e by (auto simp: put_def set_live_def split: if_splits)
qed

definition puts :: "(register \<times> register) list \<Rightarrow> (register \<Rightarrow> register option) \<Rightarrow> register \<Rightarrow> register option" where
  "puts ld L = fold (\<lambda>(v, r). put v r) ld L"

lemma puts_append: "puts (a @ b) L = puts b (puts a L)" by (simp add: puts_def)

lemma puts_simps [simp]: "puts [] L = L" "puts [(v, r)] L = put v r L" by (simp_all add: puts_def)

text \<open>What a phase of instruction \<open>i\<close> does to the state: it loads \<open>ld\<close>, whose values have stack slots afterwards.\<close>

definition effect :: "ins list \<Rightarrow> nat \<Rightarrow> ralloc \<Rightarrow> ralloc \<Rightarrow> (register \<times> register) list \<Rightarrow> bool" where
  "effect xs i st st' ld \<longleftrightarrow> good_state xs st' \<and> live_map st' = puts ld (live_map st)
     \<and> ra_before st' = ra_before st @ map (\<lambda>(v, r). (i, v, r)) ld
     \<and> dom (map_of (ra_spills st')) = dom (map_of (ra_spills st)) \<union> fst ` set ld
     \<and> map_of (ra_spills st) \<subseteq>\<^sub>m map_of (ra_spills st')
     \<and> (\<forall>(v, r) \<in> set ld. v \<in> set (all_defs xs) \<and> r \<in> set (cons_of v))
     \<and> (\<forall>k v. k \<noteq> i \<longrightarrow> map_of (ra_reals st') (k, v) = map_of (ra_reals st) (k, v))
     \<and> ra_live_ins st' = ra_live_ins st \<and> ra_locals st' = ra_locals st"

lemma effect_refl: "good_state xs st \<Longrightarrow> effect xs i st st []"
  by (simp add: effect_def)

lemma effect_trans: "effect xs i st st1 a \<Longrightarrow> effect xs i st1 st2 b \<Longrightarrow> effect xs i st st2 (a @ b)"
  unfolding effect_def by (auto simp: puts_append intro: map_le_trans)

lemma effect_good: "effect xs i st st' ld \<Longrightarrow> good_state xs st'" by (simp add: effect_def)

definition ctx_of :: "ins list \<Rightarrow> ranges \<Rightarrow> alloc_ctx" where
  "ctx_of xs lr = \<lparr>cx_ins = xs, cx_lr = lr\<rparr>"

lemma vdef_ok:
  assumes wf: "well_formed xs" and lr: "all_ranges xs lr" and v: "v \<in> set (all_defs xs)"
  shows "\<exists>d < length xs. vdef (ctx_of xs lr) v = Inr (xs ! d) \<and> \<not> in_remat (xs ! d) \<and> 0 < in_bytes (xs ! d)
    \<and> slot_bytes xs v = in_bytes (xs ! d)"
proof -
  obtain d where d: "d < length xs" "v \<in> set (defs_at (xs ! d))" using all_defsD [OF v] by blast
  obtain js where "map_of lr v = Some (d # js)" using range_starts [OF wf lr d] by blast
  then have "vdef (ctx_of xs lr) v = Inr (xs ! d)" using d(1) by (simp add: vdef_def ctx_of_def dget_def lget_def)
  then show ?thesis using d(1) wf_program(7) [OF wf d(1)] slot_bytes_def_at [OF wf d] by blast
qed

lemma dset_new: "v \<notin> fst ` set l \<Longrightarrow> dset v r l = l @ [(v, r)]"
  by (induction l) (auto simp: dset_def)

lemma stack_slot_ok:
  assumes wf: "well_formed xs" and lr: "all_ranges xs lr" and v: "v \<in> set (all_defs xs)"
    and f: "frame_ok xs (ra_spills st) (ra_stack st) (ra_locals st)"
  shows "\<exists>st1. stack_slot (ctx_of xs lr) v st = Inr st1 \<and> ra_live st1 = ra_live st \<and> ra_reals st1 = ra_reals st
    \<and> ra_before st1 = ra_before st \<and> ra_pinned st1 = ra_pinned st
    \<and> ra_remats st1 = ra_remats st \<and> ra_remat_before st1 = ra_remat_before st \<and> ra_locals st1 = ra_locals st \<and> ra_live_ins st1 = ra_live_ins st
    \<and> dom (map_of (ra_spills st1)) = insert v (dom (map_of (ra_spills st)))
    \<and> map_of (ra_spills st) \<subseteq>\<^sub>m map_of (ra_spills st1) \<and> frame_ok xs (ra_spills st1) (ra_stack st1) (ra_locals st1)"
proof (cases "map_of (ra_spills st) v")
  case None
  obtain d where d: "vdef (ctx_of xs lr) v = Inr (xs ! d)" "0 < in_bytes (xs ! d)" "slot_bytes xs v = in_bytes (xs ! d)"
    using vdef_ok [OF wf lr v] by blast
  let ?sz = "in_bytes (xs ! d)"
  let ?off = "ra_stack st + (?sz - ra_stack st mod ?sz) mod ?sz"
  let ?st = "st\<lparr>ra_spills := dset v ?off (ra_spills st), ra_stack := ?off + ?sz\<rparr>"
  have nv: "v \<notin> fst ` set (ra_spills st)" using None by (simp add: map_of_eq_None_iff)
  have "frame_ok xs (ra_spills ?st) (ra_stack ?st) (ra_locals ?st)"
    using frame_spill [OF f v nv d(3,2)] dset_new [OF nv] by simp
  moreover have "stack_slot (ctx_of xs lr) v st = Inr ?st"
    using None d(1,2) wf_program(3) [OF wf v] by (simp add: stack_slot_def Let_def)
  ultimately show ?thesis using None by (intro exI [of _ ?st]) (auto simp: map_le_def)
next
  case (Some off)
  then show ?thesis using f by (intro exI [of _ st]) (auto simp: stack_slot_def insert_absorb domI)
qed

lemma load_ok:
  assumes wf: "well_formed xs" and lr: "all_ranges xs lr" and g: "good_state xs st" and v: "v \<in> set (all_defs xs)"
    and pool: "(case cons of None \<Rightarrow> cons_of v | Some rs \<Rightarrow> rs) = pool" "pool \<noteq> []" "set pool \<subseteq> set (cons_of v)"
  shows "\<exists>r \<in> set pool. \<exists>st'. load (ctx_of xs lr) i cons emit v st = Inr st' \<and> effect xs i st st' [(v, r)]
    \<and> ra_reals st' = ra_reals st
    \<and> (i < length xs \<longrightarrow> in_op (xs ! i) \<noteq> ''END'' \<longrightarrow>
         (\<exists>r0 \<in> set pool. \<forall>w \<in> busy xs i. live_map st w \<noteq> Some r0) \<longrightarrow> (\<forall>w \<in> busy xs i. live_map st w \<noteq> Some r))"
proof -
  let ?c = "ctx_of xs lr"
  obtain d where d: "vdef ?c v = Inr (xs ! d)" "\<not> in_remat (xs ! d)" using vdef_ok [OF wf lr v] by blast
  have f: "frame_ok xs (ra_spills st) (ra_stack st) (ra_locals st)" using g by (simp add: good_state_def)
  obtain st1 where st1: "stack_slot ?c v st = Inr st1" "ra_live st1 = ra_live st" "ra_reals st1 = ra_reals st"
      "ra_before st1 = ra_before st" "ra_pinned st1 = ra_pinned st"
      "ra_remats st1 = ra_remats st" "ra_remat_before st1 = ra_remat_before st" "ra_locals st1 = ra_locals st" "ra_live_ins st1 = ra_live_ins st"
      "dom (map_of (ra_spills st1)) = insert v (dom (map_of (ra_spills st)))"
      "map_of (ra_spills st) \<subseteq>\<^sub>m map_of (ra_spills st1)" "frame_ok xs (ra_spills st1) (ra_stack st1) (ra_locals st1)"
    using stack_slot_ok [OF wf lr v f] by blast
  have g1: "good_state xs st1" using g st1 by (simp add: good_state_def)
  obtain r st2 where r: "r \<in> set pool" "alloc lr (length xs) pool i v st1 = Inr (r, st2)" "st2 = st1\<lparr>ra_live := ra_live st2\<rparr>"
      "distinct (map fst (ra_live st2))" "live_map st2 = (\<lambda>w. if live_map st1 w = Some r then None else live_map st1 w)"
      "i < length xs \<longrightarrow> in_op (xs ! i) \<noteq> ''END'' \<longrightarrow> (\<exists>r0 \<in> set pool. \<forall>w \<in> busy xs i. live_map st1 w \<noteq> Some r0) \<longrightarrow>
         (\<forall>w \<in> busy xs i. live_map st1 w \<noteq> Some r)"
    using alloc_ok [OF wf lr g1 v pool(2), of i] by blast
  let ?st3 = "st2\<lparr>ra_before := ra_before st2 @ [(i, v, r)]\<rparr>"
  have l: "load ?c i cons emit v st = Inr (set_live v r ?st3)"
    using d st1(1) r(2) pool(1) by (simp add: load_def cx_n_def ctx_of_def)
  have same: "ra_reals st2 = ra_reals st1" "ra_before st2 = ra_before st1" "ra_pinned st2 = ra_pinned st1"
      "ra_live_ins st2 = ra_live_ins st1" "ra_spills st2 = ra_spills st1"
      "ra_stack st2 = ra_stack st1" "ra_locals st2 = ra_locals st1"
      "ra_remats st2 = ra_remats st1" "ra_remat_before st2 = ra_remat_before st1"
    using r(3) by (metis ralloc.surjective ralloc.update_convs(1) ralloc.select_convs)+
  have "good_state xs (set_live v r ?st3) \<and> live_map (set_live v r ?st3) = put v r (live_map st)"
    using good_put [OF g1, of ?st3 r v] r(1,4,5) v pool(3) same g1 st1(2) by (auto simp: good_state_def)
  then have "effect xs i st (set_live v r ?st3) [(v, r)]"
    using same st1 v r(1) pool(3) by (auto simp: effect_def set_live_def)
  then show ?thesis using l r(1,6) st1 same by (auto simp: set_live_def)
qed

section \<open>Operands\<close>

lemma operand_not_def:
  assumes wf: "well_formed xs" and i: "i < length xs" and v: "v \<in> set (operands (xs ! i))"
  shows "v \<notin> set (defs_at (xs ! i))"
proof
  assume d: "v \<in> set (defs_at (xs ! i))"
  have "in_op (xs ! i) \<noteq> ''END''" using v by (auto simp: operands_def split: if_splits)
  then have "v \<in> set (live_at (xs ! i))" using wf_program(5) [OF wf i] v by blast
  then obtain k where "k < i" "v \<in> set (defs_at (xs ! k))" using wf_program(4) [OF wf i] by blast
  then show False using def_unique [OF wf_program(2) [OF wf] _ i, of k v] d i by simp
qed

lemma puts_dom: "puts ld L x \<noteq> None \<Longrightarrow> L x \<noteq> None \<or> x \<in> fst ` set ld"
proof (induction ld arbitrary: L)
  case (Cons p ld)
  obtain v r where p: "p = (v, r)" by (cases p)
  have "put v r L x \<noteq> None \<or> x \<in> fst ` set ld" using Cons p by (simp add: puts_def)
  then show ?case using p by (auto simp: put_def split: if_splits)
qed simp

lemma no_defs_effect:
  assumes wf: "well_formed xs" and i: "i < length xs" and e: "effect xs i st st' ld" and ld: "fst ` set ld \<subseteq> set (operands (xs ! i))"
    and nd: "no_defs xs i st"
  shows "no_defs xs i st'"
  unfolding no_defs_def
proof
  fix w assume w: "w \<in> set (defs_at (xs ! i))"
  have "w \<notin> fst ` set ld" using operand_not_def [OF wf i] ld w by blast
  then show "live_map st' w = None" using puts_dom [of ld "live_map st" w] e nd w unfolding effect_def no_defs_def by auto
qed

lemma good_real: "good_state xs (set_real i v r st) \<longleftrightarrow> good_state xs st"
  by (simp add: set_real_def good_state_def)

lemma effect_real: "effect xs i st st1 ld \<Longrightarrow> effect xs i st (set_real i v r st1) ld"
  by (simp add: effect_def good_real) (simp add: set_real_def)

lemma put_other: "L w \<noteq> Some r \<Longrightarrow> w \<noteq> v \<Longrightarrow> put v r L w = L w"
  by (simp add: put_def)

lemma busy_defs: "well_formed xs \<Longrightarrow> i < length xs \<Longrightarrow> in_op (xs ! i) \<noteq> ''END'' \<Longrightarrow> w \<in> busy xs i \<Longrightarrow> w \<in> set (all_defs xs)"
proof -
  assume wf: "well_formed xs" and i: "i < length xs" "in_op (xs ! i) \<noteq> ''END''" and w: "w \<in> busy xs i"
  show "w \<in> set (all_defs xs)"
  proof (cases "w \<in> set (defs_at (xs ! i))")
    case True
    then show ?thesis by (rule all_defs_nth [OF i(1)])
  next
    case False
    then have "w \<in> set (live_at (xs ! i))" using w wf_program(5) [OF wf i] by (simp add: busy_def)
    then obtain d where "d < i" "w \<in> set (defs_at (xs ! d))" using wf_program(4) [OF wf i(1)] by blast
    then show ?thesis using all_defs_nth [of d xs w] i(1) by simp
  qed
qed

text \<open>A use puts its register into the state, keeps the other busy registers, and records where it is.\<close>

definition keeps :: "ins list \<Rightarrow> nat \<Rightarrow> ralloc \<Rightarrow> ralloc \<Rightarrow> bool" where
  "keeps xs i st st' \<longleftrightarrow> (\<forall>w \<in> busy xs i. \<forall>r. live_map st w = Some r \<longrightarrow> live_map st' w = Some r
     \<and> (map_of (ra_reals st) (i, w) = Some r \<longrightarrow> map_of (ra_reals st') (i, w) = Some r))"

lemma keeps_trans: "keeps xs i st st1 \<Longrightarrow> keeps xs i st1 st2 \<Longrightarrow> keeps xs i st st2"
  unfolding keeps_def by blast

lemma use_src_ok:
  assumes wf: "well_formed xs" and lr: "all_ranges xs lr" and g: "good_state xs st"
    and i: "i < length xs" "in_op (xs ! i) \<noteq> ''END''" and s: "\<And>v. s = Some v \<Longrightarrow> \<not> r_fixed v \<Longrightarrow> v \<in> set (operands (xs ! i))"
    and nd: "no_defs xs i st"
  shows "\<exists>st' ld. use_src (ctx_of xs lr) i s st = Inr st' \<and> effect xs i st st' ld \<and> keeps xs i st st'
    \<and> fst ` set ld \<subseteq> set (virtuals [s])
    \<and> (\<forall>v. s = Some v \<longrightarrow> \<not> r_fixed v \<longrightarrow> (\<exists>r. live_map st' v = Some r \<and> map_of (ra_reals st') (i, v) = Some r))"
proof (cases "\<exists>v. s = Some v \<and> \<not> r_fixed v")
  case False
  then have "use_src (ctx_of xs lr) i s st = Inr st" by (auto simp: use_src_def split: option.splits)
  then show ?thesis using False effect_refl [OF g] by (fastforce simp: keeps_def)
next
  case True
  then obtain v where v: "s = Some v" "\<not> r_fixed v" by blast
  then have o: "v \<in> set (operands (xs ! i))" using s by blast
  then have b: "v \<in> busy xs i" by (simp add: busy_def)
  have a: "v \<in> set (all_defs xs)" using busy_defs [OF wf i b] .
  show ?thesis
  proof (cases "live_map st v")
    case None
    have ne: "cons_of v \<noteq> []" by (simp add: cons_of_def)
    obtain r st1 where r: "r \<in> set (cons_of v)" "load (ctx_of xs lr) i None False v st = Inr st1" "effect xs i st st1 [(v, r)]"
        "ra_reals st1 = ra_reals st" "\<forall>w \<in> busy xs i. live_map st w \<noteq> Some r"
      using load_ok [OF wf lr g a _ ne, of None i False] free_operand [OF wf i(1) g nd o a None] i by auto
    let ?st = "set_real i v r st1"
    have lv: "live_map st1 = put v r (live_map st)" using r(3) by (simp add: effect_def)
    have "use_src (ctx_of xs lr) i s st = Inr ?st" using v None r(2) lv by (simp add: use_src_def ensure_live_def put_def)
    moreover have "effect xs i st ?st [(v, r)]" using r(3) by (rule effect_real)
    moreover have "keeps xs i st ?st" unfolding keeps_def
    proof (intro ballI allI impI)
      fix w r' assume w: "w \<in> busy xs i" "live_map st w = Some r'"
      then have "w \<noteq> v" "live_map st w \<noteq> Some r" using None r(5) by auto
      then show "live_map ?st w = Some r' \<and> (map_of (ra_reals st) (i, w) = Some r' \<longrightarrow> map_of (ra_reals ?st) (i, w) = Some r')"
        using w(2) lv r(4) by (simp add: set_real_def put_other)
    qed
    moreover have "live_map ?st v = Some r \<and> map_of (ra_reals ?st) (i, v) = Some r" by (simp add: set_real_def lv put_def)
    moreover have "v \<in> set (virtuals [s])" using v by (simp add: in_live_virtuals)
    ultimately show ?thesis using v by fastforce
  next
    case (Some r)
    let ?st = "set_real i v r st"
    have "use_src (ctx_of xs lr) i s st = Inr ?st" using v Some by (simp add: use_src_def ensure_live_def)
    moreover have "effect xs i st ?st []" using effect_real [OF effect_refl [OF g]] .
    moreover have "keeps xs i st ?st" using Some by (auto simp: keeps_def set_real_def)
    moreover have "live_map ?st v = Some r \<and> map_of (ra_reals ?st) (i, v) = Some r" using Some by (simp add: set_real_def)
    ultimately show ?thesis using v by fastforce
  qed
qed

lemma uses_ok:
  assumes wf: "well_formed xs" and lr: "all_ranges xs lr" and i: "i < length xs" "in_op (xs ! i) \<noteq> ''END''"
  shows "good_state xs st \<Longrightarrow> no_defs xs i st \<Longrightarrow> set (virtuals ss) \<subseteq> set (operands (xs ! i)) \<Longrightarrow>
    \<exists>st' ld. rfold (use_src (ctx_of xs lr) i) ss st = Inr st' \<and> effect xs i st st' ld \<and> keeps xs i st st'
    \<and> fst ` set ld \<subseteq> set (virtuals ss)
    \<and> (\<forall>v \<in> set (virtuals ss). \<exists>r. live_map st' v = Some r \<and> map_of (ra_reals st') (i, v) = Some r)"
proof (induction ss arbitrary: st)
  case Nil
  then show ?case using effect_refl by (fastforce simp: keeps_def virtuals_def List.map_filter_def)
next
  case (Cons s ss)
  have vs: "set (virtuals (s # ss)) = set (virtuals [s]) \<union> set (virtuals ss)" by (auto simp: in_live_virtuals)
  obtain st1 ld1 where 1: "use_src (ctx_of xs lr) i s st = Inr st1" "effect xs i st st1 ld1" "keeps xs i st st1"
      "fst ` set ld1 \<subseteq> set (virtuals [s])"
      "\<forall>v. s = Some v \<longrightarrow> \<not> r_fixed v \<longrightarrow> (\<exists>r. live_map st1 v = Some r \<and> map_of (ra_reals st1) (i, v) = Some r)"
  proof -
    have "v \<in> set (operands (xs ! i))" if "s = Some v" "\<not> r_fixed v" for v
      using that Cons.prems(3) by (auto simp: in_live_virtuals)
    from use_src_ok [OF wf lr Cons.prems(1) i this Cons.prems(2)] show ?thesis using that by blast
  qed
  obtain st2 ld2 where 2: "rfold (use_src (ctx_of xs lr) i) ss st1 = Inr st2" "effect xs i st1 st2 ld2" "keeps xs i st1 st2"
      "fst ` set ld2 \<subseteq> set (virtuals ss)"
      "\<forall>v \<in> set (virtuals ss). \<exists>r. live_map st2 v = Some r \<and> map_of (ra_reals st2) (i, v) = Some r"
  proof -
    have "fst ` set ld1 \<subseteq> set (operands (xs ! i))" using 1(4) Cons.prems(3) vs by blast
    from Cons.IH [OF effect_good [OF 1(2)] no_defs_effect [OF wf i(1) 1(2) this Cons.prems(2)]] show ?thesis using Cons.prems(3) vs that by auto
  qed
  have "\<exists>r. live_map st2 v = Some r \<and> map_of (ra_reals st2) (i, v) = Some r" if "v \<in> set (virtuals (s # ss))" for v
  proof (cases "v \<in> set (virtuals ss)")
    case True
    then show ?thesis using 2(5) by blast
  next
    case False
    then have "s = Some v" "\<not> r_fixed v" using that vs by (auto simp: in_live_virtuals)
    moreover have "v \<in> busy xs i" using that Cons.prems(3) by (auto simp: busy_def)
    ultimately show ?thesis using 1(5) 2(3) unfolding keeps_def by blast
  qed
  moreover have "rfold (use_src (ctx_of xs lr) i) (s # ss) st = Inr st2" using 1(1) 2(1) by simp
  moreover have "fst ` set (ld1 @ ld2) \<subseteq> set (virtuals (s # ss))" using 1(4) 2(4) vs by (auto simp: image_Un)
  ultimately show ?case
    using effect_trans [OF 1(2) 2(2)] keeps_trans [OF 1(3) 2(3)] by blast
qed

section \<open>Definitions\<close>

text \<open>The definition of a two-address instruction takes the register of the first source, or one that no source has.\<close>

definition def_apart :: "ins \<Rightarrow> (register \<Rightarrow> register option) \<Rightarrow> (register \<times> register) list \<Rightarrow> bool" where
  "def_apart x L ds \<longleftrightarrow> (in_two_address x \<longrightarrow> (\<forall>(v, r) \<in> set ds.
     (\<exists>u \<in> set (operands x). hd (in_srcs x) = Some u \<and> L u = Some r) \<or> (\<forall>u \<in> set (operands x). L u \<noteq> Some r)))"

lemma def_apart_Nil [simp]: "def_apart x L []"
  by (simp add: def_apart_def)

definition def_effect :: "ins list \<Rightarrow> nat \<Rightarrow> ralloc \<Rightarrow> ralloc \<Rightarrow> (register \<times> register) list \<Rightarrow> bool" where
  "def_effect xs i st st' ds \<longleftrightarrow> good_state xs st' \<and> live_map st' = puts ds (live_map st)
     \<and> ra_before st' = ra_before st \<and> ra_spills st' = ra_spills st \<and> ra_live_ins st' = ra_live_ins st
     \<and> ra_locals st' = ra_locals st
     \<and> (\<forall>(v, r) \<in> set ds. r \<in> set (cons_of v)) \<and> def_apart (xs ! i) (live_map st) ds
     \<and> map_of (ra_reals st') = (\<lambda>(k, v). if k = i \<and> v \<in> fst ` set ds then map_of (rev ds) v else map_of (ra_reals st) (k, v))"

lemma def_pool_ok:
  assumes wf: "well_formed xs" and g: "good_state xs st" and i: "i < length xs" "\<not> in_pseudo (xs ! i)" "in_op (xs ! i) \<noteq> ''END''"
    and v: "v \<in> set (defs_at (xs ! i))" and nd: "no_defs xs i st"
  shows "\<exists>pool. def_pool (xs ! i) 0 v st = Inr pool \<and> pool \<noteq> [] \<and> set pool \<subseteq> set (cons_of v)
    \<and> (\<not> in_two_address (xs ! i) \<longrightarrow> pool = cons_of v) \<and> (\<forall>r \<in> set pool. def_apart (xs ! i) (live_map st) [(v, r)])"
proof (cases "in_two_address (xs ! i)")
  case False
  then show ?thesis by (auto simp: def_pool_def cons_of_def def_apart_def)
next
  case True
  let ?us = "map (\<lambda>s. case s of None \<Rightarrow> None | Some u \<Rightarrow> live_map st u) (in_srcs (xs ! i))"
  obtain r0 where r0: "r0 \<in> set (cons_of v)" "\<forall>w \<in> busy xs i. live_map st w \<noteq> Some r0"
    using free_definition [OF wf i(1) g nd v] True by blast
  have op: "u \<in> set (operands (xs ! i))" if "Some u \<in> set (in_srcs (xs ! i))" "live_map st u = Some r" for u r
  proof -
    have "\<not> r_fixed u" using that g wf_program(3) [OF wf] unfolding good_state_def by blast
    then show ?thesis using that(1) i(2,3) by (simp add: operands_def in_live_virtuals)
  qed
  have "Some r0 \<notin> set ?us"
  proof
    assume "Some r0 \<in> set ?us"
    then obtain u where u: "Some u \<in> set (in_srcs (xs ! i))" "live_map st u = Some r0" by (auto split: option.splits)
    then have "u \<in> busy xs i" using op by (simp add: busy_def)
    then show False using r0(2) u(2) by blast
  qed
  obtain s0 ss where s: "in_srcs (xs ! i) = s0 # ss" using True wf_program(9) [OF wf i(1)] by (cases "in_srcs (xs ! i)") auto
  let ?u0 = "case s0 of None \<Rightarrow> None | Some u \<Rightarrow> live_map st u"
  let ?pool = "(case ?u0 of Some r \<Rightarrow> if r \<in> set (cons_of v) then [r] else [] | None \<Rightarrow> []) @ filter (\<lambda>r. Some r \<notin> set ?us) (cons_of v)"
  have "def_pool (xs ! i) 0 v st = Inr ?pool" using True s by (simp add: def_pool_def)
  moreover have "?pool \<noteq> []" using r0(1) \<open>Some r0 \<notin> set ?us\<close> by (auto simp: filter_empty_conv)
  moreover have "set ?pool \<subseteq> set (cons_of v)" by (auto split: option.splits)
  moreover have "def_apart (xs ! i) (live_map st) [(v, r)]" if r: "r \<in> set ?pool" for r
  proof (cases "?u0 = Some r")
    case True
    then obtain u where u: "s0 = Some u" "live_map st u = Some r" by (auto split: option.splits)
    then have "u \<in> set (operands (xs ! i))" using op [of u r] s by simp
    then show ?thesis using u s by (auto simp: def_apart_def)
  next
    case False
    then have n: "Some r \<notin> set ?us" using r by (auto split: option.splits if_splits)
    have "live_map st u \<noteq> Some r" if "u \<in> set (operands (xs ! i))" for u
    proof
      assume "live_map st u = Some r"
      moreover have "Some u \<in> set (in_srcs (xs ! i))" using that i(2,3) by (simp add: operands_def in_live_virtuals)
      ultimately show False using n by force
    qed
    then show ?thesis by (auto simp: def_apart_def)
  qed
  ultimately show ?thesis using True by blast
qed

lemma define_ok:
  assumes wf: "well_formed xs" and lr: "all_ranges xs lr" and g: "good_state xs st"
    and i: "i < length xs" "\<not> in_pseudo (xs ! i)" "in_op (xs ! i) \<noteq> ''END''" and v: "v \<in> set (defs_at (xs ! i))"
    and nd: "no_defs xs i st"
  shows "\<exists>st' r. define_reg (ctx_of xs lr) i (xs ! i) (0, v) st = Inr st' \<and> def_effect xs i st st' [(v, r)]
    \<and> (in_op (xs ! i) = ''RANGE'' \<longrightarrow> (\<forall>w \<in> busy xs i. live_map st w \<noteq> Some r))"
proof -
  have a: "v \<in> set (all_defs xs)" by (rule all_defs_nth [OF i(1) v])
  obtain js where js: "map_of lr v = Some (i # js)" using range_starts [OF wf lr i(1) v] by blast
  obtain pool where pool: "def_pool (xs ! i) 0 v st = Inr pool" "pool \<noteq> []" "set pool \<subseteq> set (cons_of v)"
      "\<not> in_two_address (xs ! i) \<longrightarrow> pool = cons_of v" "\<forall>r \<in> set pool. def_apart (xs ! i) (live_map st) [(v, r)]"
    using def_pool_ok [OF wf g i v nd] by blast
  let ?k = "if in_op (xs ! i) \<noteq> ''RANGE'' then i + 1 else i"
  obtain r st2 where r: "r \<in> set pool" "alloc lr (length xs) pool ?k v st = Inr (r, st2)" "st2 = st\<lparr>ra_live := ra_live st2\<rparr>"
      "distinct (map fst (ra_live st2))" "live_map st2 = (\<lambda>w. if live_map st w = Some r then None else live_map st w)"
      "\<forall>k < length xs. in_op (xs ! k) \<noteq> ''END'' \<longrightarrow> k = ?k \<longrightarrow>
         (\<exists>r0 \<in> set pool. \<forall>w \<in> busy xs k. live_map st w \<noteq> Some r0) \<longrightarrow> (\<forall>w \<in> busy xs k. live_map st w \<noteq> Some r)"
    using alloc_ok [OF wf lr g a pool(2), of ?k] by blast
  let ?st = "set_real i v r (set_live v r st2)"
  have e: "define_reg (ctx_of xs lr) i (xs ! i) (0, v) st = Inr ?st"
    using js pool(1) r(2) by (simp add: define_reg_def ctx_of_def cx_n_def dget_def lget_def)
  have same: "ra_reals st2 = ra_reals st" "ra_before st2 = ra_before st" "ra_pinned st2 = ra_pinned st"
      "ra_live_ins st2 = ra_live_ins st" "ra_spills st2 = ra_spills st"
      "ra_stack st2 = ra_stack st" "ra_locals st2 = ra_locals st"
      "ra_remats st2 = ra_remats st" "ra_remat_before st2 = ra_remat_before st"
    using r(3) by (metis ralloc.surjective ralloc.update_convs(1) ralloc.select_convs)+
  have "good_state xs (set_live v r st2) \<and> live_map (set_live v r st2) = put v r (live_map st)"
    by (rule good_put [OF g r(4,5) _ _ _ _ a]) (use r(1) pool(3) same g in \<open>auto simp: good_state_def\<close>)
  then have "def_effect xs i st ?st [(v, r)]"
    using same r(1) pool(3,5) by (auto simp: def_effect_def set_real_def set_live_def good_state_def fun_eq_iff)
  moreover have "\<forall>w \<in> busy xs i. live_map st w \<noteq> Some r" if "in_op (xs ! i) = ''RANGE''"
    using r(6) i(1,3) that pool(4) wf_program(9) [OF wf i(1)] free_definition [OF wf i(1) g nd v] by auto
  ultimately show ?thesis using e by blast
qed

lemma def_effect_refl: "good_state xs st \<Longrightarrow> def_effect xs i st st []"
  by (simp add: def_effect_def)

lemma def_effect_good: "def_effect xs i st st' ds \<Longrightarrow> good_state xs st'" by (simp add: def_effect_def)

lemma defines_ok:
  assumes wf: "well_formed xs" and lr: "all_ranges xs lr"
    and i: "i < length xs" "\<not> in_pseudo (xs ! i)" "in_op (xs ! i) \<noteq> ''END''" and g: "good_state xs st" and nd: "no_defs xs i st"
  shows "\<exists>st' ds. rfold (define_reg (ctx_of xs lr) i (xs ! i)) (enumerate 0 (in_defs (xs ! i))) st = Inr st' \<and> def_effect xs i st st' ds
      \<and> map fst ds = in_defs (xs ! i)
      \<and> (in_op (xs ! i) = ''RANGE'' \<longrightarrow> length (in_defs (xs ! i)) = 1 \<longrightarrow> (\<forall>w \<in> busy xs i. live_map st w \<noteq> Some (snd (hd ds))))"
proof -
  have d: "defs_at (xs ! i) = in_defs (xs ! i)" using i(2) by (simp add: defs_at_def)
  have "length (in_defs (xs ! i)) \<le> 1" using wf_program(7) [OF wf i(1)] d by simp
  then consider "in_defs (xs ! i) = []" | v where "in_defs (xs ! i) = [v]" by (cases "in_defs (xs ! i)") auto
  then show ?thesis
  proof cases
    case 1
    then show ?thesis using def_effect_refl [OF g] by fastforce
  next
    case 2
    then obtain st' r where "define_reg (ctx_of xs lr) i (xs ! i) (0, v) st = Inr st'" "def_effect xs i st st' [(v, r)]"
        "in_op (xs ! i) = ''RANGE'' \<longrightarrow> (\<forall>w \<in> busy xs i. live_map st w \<noteq> Some r)"
      using define_ok [OF wf lr g i _ nd, of v] d by auto
    then show ?thesis using 2 by (intro exI [of _ st'] exI [of _ "[(v, r)]"]) simp
  qed
qed

end
