(* ===== verification/RegallocLoops.thy ===== *)
theory RegallocLoops
  imports RegallocLive
begin

text \<open>
  The registers of a loop: the values recorded at its start are the live values that the body uses, and
  restoring them at its end brings every one of them that is live after the start back to its register.
\<close>

section \<open>The start of a loop\<close>

definition entered :: "ins list \<Rightarrow> nat \<Rightarrow> ralloc \<Rightarrow> register set \<Rightarrow> (register, register) dict \<Rightarrow> ralloc \<Rightarrow> (register \<times> register) list \<Rightarrow> bool" where
  "entered xs i st P live_in st' ld \<longleftrightarrow> effect xs i st st' ld \<and> ra_reals st' = ra_reals st
     \<and> fst ` set live_in \<subseteq> P \<and> distinct (map fst live_in)
     \<and> (\<forall>(v, r) \<in> set live_in. v \<in> set (all_defs xs) \<and> r \<in> set (cons_of v) \<and> (live_map st' v = None \<or> live_map st' v = Some r))
     \<and> (\<forall>v r. v \<notin> fst ` set live_in \<longrightarrow> live_map st' v = Some r \<longrightarrow> r \<notin> snd ` set live_in)
     \<and> (\<forall>v \<in> P. v \<in> fst ` set live_in \<or> live_map st' v = None)
     \<and> (\<forall>A v r B w. live_in = A @ (v, r) # B \<longrightarrow> (w, r) \<in> set B \<longrightarrow> live_map st' v = None)
     \<and> (\<forall>w \<in> busy xs i. \<forall>r. live_map st w = Some r \<longrightarrow> live_map st' w = Some r)
     \<and> (\<forall>b \<in> busy xs i. \<forall>s. live_map st b = Some s \<longrightarrow> (\<forall>(w, r) \<in> set ld. w \<noteq> b \<and> r \<noteq> s))
     \<and> fst ` set ld \<subseteq> P \<and> dom (live_map st') \<subseteq> dom (live_map st) \<union> P"

lemma enteredD:
  assumes "entered xs i st P live_in st' ld"
  shows "effect xs i st st' ld" "ra_reals st' = ra_reals st" "fst ` set live_in \<subseteq> P" "distinct (map fst live_in)"
    "\<And>v r. (v, r) \<in> set live_in \<Longrightarrow> v \<in> set (all_defs xs) \<and> r \<in> set (cons_of v) \<and> (live_map st' v = None \<or> live_map st' v = Some r)"
    "\<And>v r. v \<notin> fst ` set live_in \<Longrightarrow> live_map st' v = Some r \<Longrightarrow> r \<notin> snd ` set live_in"
    "\<And>v. v \<in> P \<Longrightarrow> v \<in> fst ` set live_in \<or> live_map st' v = None"
    "\<And>A v r B w. live_in = A @ (v, r) # B \<Longrightarrow> (w, r) \<in> set B \<Longrightarrow> live_map st' v = None"
    "\<And>w r. w \<in> busy xs i \<Longrightarrow> live_map st w = Some r \<Longrightarrow> live_map st' w = Some r"
    "\<And>b s w r. b \<in> busy xs i \<Longrightarrow> live_map st b = Some s \<Longrightarrow> (w, r) \<in> set ld \<Longrightarrow> w \<noteq> b \<and> r \<noteq> s"
    "fst ` set ld \<subseteq> P" "dom (live_map st') \<subseteq> dom (live_map st) \<union> P"
proof -
  have E: "effect xs i st st' ld \<and> ra_reals st' = ra_reals st \<and> fst ` set live_in \<subseteq> P \<and> distinct (map fst live_in)"
    using assms by (simp add: entered_def)
  then show "effect xs i st st' ld" "ra_reals st' = ra_reals st" "fst ` set live_in \<subseteq> P" "distinct (map fst live_in)" by simp_all
  have "\<forall>(v, r) \<in> set live_in. v \<in> set (all_defs xs) \<and> r \<in> set (cons_of v) \<and> (live_map st' v = None \<or> live_map st' v = Some r)"
    using assms by (simp add: entered_def)
  then show "v \<in> set (all_defs xs) \<and> r \<in> set (cons_of v) \<and> (live_map st' v = None \<or> live_map st' v = Some r)"
    if "(v, r) \<in> set live_in" for v r using that by blast
  have a: "\<forall>v r. v \<notin> fst ` set live_in \<longrightarrow> live_map st' v = Some r \<longrightarrow> r \<notin> snd ` set live_in"
    using assms unfolding entered_def by (elim conjE)
  show "r \<notin> snd ` set live_in" if "v \<notin> fst ` set live_in" "live_map st' v = Some r" for v r by (rule a [rule_format, OF that])
  have b: "\<forall>v \<in> P. v \<in> fst ` set live_in \<or> live_map st' v = None" using assms unfolding entered_def by (elim conjE)
  show "v \<in> fst ` set live_in \<or> live_map st' v = None" if "v \<in> P" for v by (rule b [rule_format, OF that])
  have c: "\<forall>A v r B w. live_in = A @ (v, r) # B \<longrightarrow> (w, r) \<in> set B \<longrightarrow> live_map st' v = None"
    using assms unfolding entered_def by (elim conjE)
  show "live_map st' v = None" if "live_in = A @ (v, r) # B" "(w, r) \<in> set B" for A v r B w by (rule c [rule_format, OF that])
  have "\<forall>w \<in> busy xs i. \<forall>r. live_map st w = Some r \<longrightarrow> live_map st' w = Some r" using assms by (simp add: entered_def)
  then show "live_map st' w = Some r" if "w \<in> busy xs i" "live_map st w = Some r" for w r using that by blast
  have "\<forall>b \<in> busy xs i. \<forall>s. live_map st b = Some s \<longrightarrow> (\<forall>(w, r) \<in> set ld. w \<noteq> b \<and> r \<noteq> s)"
    using assms by (simp add: entered_def)
  then show "w \<noteq> b \<and> r \<noteq> s" if "b \<in> busy xs i" "live_map st b = Some s" "(w, r) \<in> set ld" for b s w r using that by blast
  show "fst ` set ld \<subseteq> P" "dom (live_map st') \<subseteq> dom (live_map st) \<union> P" using assms by (simp_all add: entered_def)
qed

lemma entered_empty: "good_state xs st \<Longrightarrow> entered xs i st {} [] st []"
  by (simp add: entered_def effect_refl)

lemma last_entry:
  "l @ [(u, s)] = A @ (v, r) # B \<Longrightarrow> (A = l \<and> v = u \<and> r = s \<and> B = []) \<or> (\<exists>B'. l = A @ (v, r) # B' \<and> B = B' @ [(u, s)])"
  by (cases B rule: rev_cases) auto

text \<open>The recorded list grows by a register that is live in the new state; nothing else comes to life.\<close>

lemma entered_extend:
  assumes e: "entered xs i st P live_in st' ld" and v: "v \<notin> P" "v \<in> set (all_defs xs)" "r \<in> set (cons_of v)"
    and eff: "effect xs i st st2 ld2" "ra_reals st2 = ra_reals st'" "fst ` set ld2 \<subseteq> insert v (fst ` set ld)"
    and live: "live_map st2 v = Some r"
    and shrink: "\<And>w. w \<noteq> v \<Longrightarrow> (live_map st2 w = None \<or> live_map st2 w = live_map st' w) \<and> live_map st2 w \<noteq> Some r"
    and busy: "\<And>w s. w \<in> busy xs i \<Longrightarrow> live_map st' w = Some s \<Longrightarrow> live_map st2 w = Some s"
    and apart: "\<And>b s u t. b \<in> busy xs i \<Longrightarrow> live_map st' b = Some s \<Longrightarrow> (u, t) \<in> set ld2 - set ld \<Longrightarrow> u \<noteq> b \<and> t \<noteq> s"
  shows "entered xs i st (insert v P) (dset v r live_in) st2 ld2"
proof -
  note E = enteredD [OF e]
  have nk: "v \<notin> fst ` set live_in" using E(3) v(1) by blast
  have kv: "w \<noteq> v" if "(w, s) \<in> set live_in" for w s using nk that by force
  have "entered xs i st (insert v P) (live_in @ [(v, r)]) st2 ld2"
    unfolding entered_def
  proof (intro conjI)
    show "effect xs i st st2 ld2" by (rule eff(1))
    show "ra_reals st2 = ra_reals st" using eff(2) E(2) by simp
    show "fst ` set (live_in @ [(v, r)]) \<subseteq> insert v P" using E(3) by auto
    show "distinct (map fst (live_in @ [(v, r)]))" using E(4) nk by simp
    show "\<forall>(w, s) \<in> set (live_in @ [(v, r)]). w \<in> set (all_defs xs) \<and> s \<in> set (cons_of w) \<and> (live_map st2 w = None \<or> live_map st2 w = Some s)"
    proof (clarify)
      fix w s assume "(w, s) \<in> set (live_in @ [(v, r)])"
      then consider "(w, s) \<in> set live_in" | "w = v" "s = r" by auto
      then show "w \<in> set (all_defs xs) \<and> s \<in> set (cons_of w) \<and> (live_map st2 w = None \<or> live_map st2 w = Some s)"
      proof cases
        case 1
        then have "w \<in> set (all_defs xs)" "s \<in> set (cons_of w)" "live_map st' w = None \<or> live_map st' w = Some s"
          using E(5) [OF 1] by simp_all
        then show ?thesis using shrink [OF kv [OF 1]] by auto
      next
        case 2
        then show ?thesis using v(2,3) live by simp
      qed
    qed
    show "\<forall>w s. w \<notin> fst ` set (live_in @ [(v, r)]) \<longrightarrow> live_map st2 w = Some s \<longrightarrow> s \<notin> snd ` set (live_in @ [(v, r)])"
    proof (intro allI impI)
      fix w s assume w: "w \<notin> fst ` set (live_in @ [(v, r)])" "live_map st2 w = Some s"
      then have "w \<noteq> v" "w \<notin> fst ` set live_in" by auto
      then have "live_map st' w = Some s" "s \<noteq> r" using shrink [of w] w(2) by auto
      then show "s \<notin> snd ` set (live_in @ [(v, r)])" using E(6) [OF \<open>w \<notin> fst ` set live_in\<close>] by auto
    qed
    show "\<forall>w \<in> insert v P. w \<in> fst ` set (live_in @ [(v, r)]) \<or> live_map st2 w = None"
    proof
      fix w assume "w \<in> insert v P"
      then show "w \<in> fst ` set (live_in @ [(v, r)]) \<or> live_map st2 w = None"
        using E(7) [of w] shrink [of w] by (cases "w = v") auto
    qed
    show "\<forall>A u s B w. live_in @ [(v, r)] = A @ (u, s) # B \<longrightarrow> (w, s) \<in> set B \<longrightarrow> live_map st2 u = None"
    proof (intro allI impI)
      fix A u s B w assume ab: "live_in @ [(v, r)] = A @ (u, s) # B" "(w, s) \<in> set B"
      from last_entry [OF ab(1)] ab(2) obtain B' where b: "live_in = A @ (u, s) # B'" "B = B' @ [(v, r)]" by auto
      then have m: "(u, s) \<in> set live_in" by simp
      then have u: "live_map st' u = None \<or> live_map st' u = Some s" "u \<noteq> v" using E(5) [OF m] kv [OF m] by simp_all
      consider "(w, s) \<in> set B'" | "s = r" using ab(2) b(2) by auto
      then show "live_map st2 u = None"
      proof cases
        case 1
        then have "live_map st' u = None" using E(8) [OF b(1)] by blast
        then show ?thesis using shrink [OF u(2)] by auto
      next
        case 2
        then show ?thesis using shrink [OF u(2)] u(1) by auto
      qed
    qed
    show "\<forall>w \<in> busy xs i. \<forall>s. live_map st w = Some s \<longrightarrow> live_map st2 w = Some s"
    proof (intro ballI allI impI)
      fix w s assume w: "w \<in> busy xs i" "live_map st w = Some s"
      then have "live_map st' w = Some s" by (rule E(9))
      then show "live_map st2 w = Some s" using busy w(1) by blast
    qed
    show "\<forall>b \<in> busy xs i. \<forall>s. live_map st b = Some s \<longrightarrow> (\<forall>(u, t) \<in> set ld2. u \<noteq> b \<and> t \<noteq> s)"
    proof (intro ballI allI impI, clarify)
      fix b s u t assume b: "b \<in> busy xs i" "live_map st b = Some s" and u: "(u, t) \<in> set ld2"
      show "u \<noteq> b \<and> t \<noteq> s"
      proof (cases "(u, t) \<in> set ld")
        case True
        then show ?thesis by (rule E(10) [OF b])
      next
        case False
        have "live_map st' b = Some s" by (rule E(9) [OF b])
        then show ?thesis using apart [OF b(1)] u False by blast
      qed
    qed
    have "fst ` set ld \<subseteq> P" by (rule E(11))
    then show "fst ` set ld2 \<subseteq> insert v P" using eff(3) by blast
    have "dom (live_map st2) \<subseteq> insert v (dom (live_map st'))" using shrink by force
    moreover have "dom (live_map st') \<subseteq> dom (live_map st) \<union> P" by (rule E(12))
    ultimately show "dom (live_map st2) \<subseteq> dom (live_map st) \<union> insert v P" by blast
  qed
  then show ?thesis using dset_new [OF nk] by simp
qed

lemma entered_record:
  assumes e: "entered xs i st P live_in st' ld" and v: "v \<notin> P" "live_map st' v = Some r"
  shows "entered xs i st (insert v P) (dset v r live_in) st' ld"
proof -
  have g: "good_state xs st'" and eff: "effect xs i st st' ld" using e by (simp_all add: entered_def effect_def)
  have "live_map st' w \<noteq> Some r" if "w \<noteq> v" for w using g v(2) that unfolding good_state_def by blast
  moreover have "v \<in> set (all_defs xs)" "r \<in> set (cons_of v)" using g v(2) unfolding good_state_def by blast+
  ultimately show ?thesis by (intro entered_extend [OF e v(1) _ _ eff]) (use v(2) in auto)
qed

lemma entered_load:
  assumes wf: "well_formed xs" and lr: "all_ranges xs lr" and i: "i < length xs" "in_op (xs ! i) \<noteq> ''END''"
    and e: "entered xs i st P live_in st' ld" and v: "v \<notin> P" "live_map st' v = None" "v \<in> set (all_defs xs)"
    and room: "\<exists>r0 \<in> set (cons_of v). \<forall>w \<in> busy xs i. live_map st' w \<noteq> Some r0"
  shows "\<exists>st2 r. load (ctx_of xs lr) i None False v st' = Inr st2 \<and> live_map st2 v = Some r
    \<and> entered xs i st (insert v P) (dset v r live_in) st2 (ld @ [(v, r)])"
proof -
  have g: "good_state xs st'" and eff: "effect xs i st st' ld" using e by (simp_all add: entered_def effect_def)
  have ne: "cons_of v \<noteq> []" by (simp add: cons_of_def)
  obtain r st2 where r: "r \<in> set (cons_of v)" "load (ctx_of xs lr) i None False v st' = Inr st2" "effect xs i st' st2 [(v, r)]"
      "ra_reals st2 = ra_reals st'" "\<forall>w \<in> busy xs i. live_map st' w \<noteq> Some r"
    using load_ok [OF wf lr g v(3) _ ne, of None i False] room i by auto
  have L: "live_map st2 = put v r (live_map st')" using r(3) by (simp add: effect_def)
  have "entered xs i st (insert v P) (dset v r live_in) st2 (ld @ [(v, r)])"
  proof (rule entered_extend [OF e v(1,3) r(1) effect_trans [OF eff r(3)] r(4)])
    show "fst ` set (ld @ [(v, r)]) \<subseteq> insert v (fst ` set ld)" by auto
    show "live_map st2 v = Some r" by (simp add: L put_def)
    show "(live_map st2 w = None \<or> live_map st2 w = live_map st' w) \<and> live_map st2 w \<noteq> Some r" if "w \<noteq> v" for w
      using that by (auto simp: L put_def)
    show "live_map st2 w = Some s" if "w \<in> busy xs i" "live_map st' w = Some s" for w s
      using that r(5) v(2) by (auto simp: L put_def)
    show "u \<noteq> b \<and> t \<noteq> s" if "b \<in> busy xs i" "live_map st' b = Some s" "(u, t) \<in> set (ld @ [(v, r)]) - set ld" for b s u t
      using that r(5) v(2) by auto
  qed
  then show ?thesis using r(2) by (auto simp: L put_def)
qed

lemma entered_skip:
  assumes e: "entered xs i st P live_in st' ld" and v: "v \<notin> P" "set (cons_of v) \<subseteq> snd ` set live_in"
  shows "entered xs i st (insert v P) live_in st' ld"
proof -
  note E = enteredD [OF e]
  have "good_state xs st'" using E(1) by (rule effect_good)
  then have cons: "r \<in> set (cons_of v)" if "live_map st' v = Some r" for r using that unfolding good_state_def by blast
  have "v \<notin> fst ` set live_in" using E(3) v(1) by blast
  then have "live_map st' v = None" using E(6) [of v] cons v(2) by (cases "live_map st' v") auto
  then have "\<forall>w \<in> insert v P. w \<in> fst ` set live_in \<or> live_map st' w = None" using E(7) by simp
  moreover have "fst ` set live_in \<subseteq> insert v P" "fst ` set ld \<subseteq> insert v P" "dom (live_map st') \<subseteq> dom (live_map st) \<union> insert v P"
    using E(3,11,12) by auto
  ultimately show ?thesis using e unfolding entered_def by (elim conjE) (intro conjI)
qed

text \<open>A value is loaded only when its pool has a register that is not recorded.  The registers of the
  instruction itself are recorded first, so the load leaves them alone.\<close>

definition covered :: "ins list \<Rightarrow> nat \<Rightarrow> ralloc \<Rightarrow> (register, register) dict \<Rightarrow> bool" where
  "covered xs i st live_in \<longleftrightarrow> (\<forall>w \<in> busy xs i. \<exists>s. live_map st w = Some s \<and> s \<in> snd ` set live_in)"

lemma covered_mono: "covered xs i st l \<Longrightarrow> snd ` set l \<subseteq> snd ` set l' \<Longrightarrow> covered xs i st l'"
  unfolding covered_def by (meson subsetD)

lemma enter_value_ok:
  assumes wf: "well_formed xs" and lr: "all_ranges xs lr" and i: "i < length xs" "in_op (xs ! i) \<noteq> ''END''"
    and e: "entered xs i st P live_in st' ld" and v: "v \<notin> P" "v \<in> set (all_defs xs)"
    and room: "live_map st' v \<noteq> None \<or> covered xs i st live_in"
  shows "\<exists>live_in2 st2 ld2. enter_loop_value (ctx_of xs lr) i (v, js) (live_in, st') = Inr (live_in2, st2)
    \<and> entered xs i st (insert v P) live_in2 st2 ld2 \<and> snd ` set live_in \<subseteq> snd ` set live_in2
    \<and> (\<forall>s. live_map st' v = Some s \<longrightarrow> s \<in> snd ` set live_in2)"
proof (cases "set (cons_of v) \<subseteq> snd ` set live_in")
  case True
  note e2 = entered_skip [OF e v(1) True]
  have "good_state xs st'" using enteredD(1) [OF e] by (rule effect_good)
  then have "s \<in> snd ` set live_in" if "live_map st' v = Some s" for s using True that unfolding good_state_def by blast
  then show ?thesis using e2 True by (auto simp: enter_loop_value_def)
next
  case False
  note E = enteredD [OF e]
  have "v \<notin> fst ` set live_in" using E(3) v(1) by blast
  then have new: "set (dset v r live_in) = insert (v, r) (set live_in)" for r by (simp add: dset_new)
  show ?thesis
  proof (cases "live_map st' v")
    case None
    obtain r0 where r0: "r0 \<in> set (cons_of v)" "r0 \<notin> snd ` set live_in" using False by blast
    have "live_map st' w \<noteq> Some r0" if w: "w \<in> busy xs i" for w
    proof -
      have "covered xs i st live_in" using room None by simp
      then obtain s where s: "live_map st w = Some s" "s \<in> snd ` set live_in" using w unfolding covered_def by blast
      then show ?thesis using E(9) [OF w s(1)] r0(2) by auto
    qed
    then have "\<exists>r0 \<in> set (cons_of v). \<forall>w \<in> busy xs i. live_map st' w \<noteq> Some r0" using r0(1) by auto
    from entered_load [OF wf lr i e v(1) None v(2) this]
    obtain st2 r where l: "load (ctx_of xs lr) i None False v st' = Inr st2" "live_map st2 v = Some r"
        "entered xs i st (insert v P) (dset v r live_in) st2 (ld @ [(v, r)])" by blast
    moreover from this have "enter_loop_value (ctx_of xs lr) i (v, js) (live_in, st') = Inr (dset v r live_in, st2)"
      using False None by (simp add: enter_loop_value_def ensure_live_def)
    moreover have "snd ` set live_in \<subseteq> snd ` set (dset v r live_in)" by (auto simp: new)
    ultimately show ?thesis using None by (intro exI [of _ "dset v r live_in"] exI [of _ st2] exI [of _ "ld @ [(v, r)]"]) simp
  next
    case (Some r)
    then have "enter_loop_value (ctx_of xs lr) i (v, js) (live_in, st') = Inr (dset v r live_in, st')"
      using False by (simp add: enter_loop_value_def ensure_live_def)
    moreover have "snd ` set live_in \<subseteq> snd ` set (dset v r live_in)" "r \<in> snd ` set (dset v r live_in)" by (auto simp: new)
    ultimately show ?thesis using entered_record [OF e v(1) Some] Some by auto
  qed
qed

lemma enter_values_ok:
  assumes wf: "well_formed xs" and lr: "all_ranges xs lr" and i: "i < length xs" "in_op (xs ! i) \<noteq> ''END''"
  shows "entered xs i st P live_in st' ld \<Longrightarrow> distinct (map fst vs) \<Longrightarrow> fst ` set vs \<inter> P = {} \<Longrightarrow> fst ` set vs \<subseteq> set (all_defs xs) \<Longrightarrow>
    (\<forall>v \<in> fst ` set vs. v \<in> busy xs i \<and> live_map st v \<noteq> None) \<or> covered xs i st live_in \<Longrightarrow>
    \<exists>live_in2 st2 ld2. rfold (enter_loop_value (ctx_of xs lr) i) vs (live_in, st') = Inr (live_in2, st2)
    \<and> entered xs i st (P \<union> fst ` set vs) live_in2 st2 ld2 \<and> snd ` set live_in \<subseteq> snd ` set live_in2
    \<and> (\<forall>v \<in> fst ` set vs. v \<in> busy xs i \<longrightarrow> (\<forall>s. live_map st v = Some s \<longrightarrow> s \<in> snd ` set live_in2))"
proof (induction vs arbitrary: P live_in st' ld)
  case Nil
  then show ?case by auto
next
  case (Cons p vs)
  obtain v js where p: "p = (v, js)" by (cases p)
  have v: "v \<notin> P" "v \<in> set (all_defs xs)" using Cons.prems p by auto
  note keep = enteredD(9) [OF Cons.prems(1)]
  have room: "live_map st' v \<noteq> None \<or> covered xs i st live_in"
  proof (cases "covered xs i st live_in")
    case False
    then have "v \<in> busy xs i" "live_map st v \<noteq> None" using Cons.prems(5) p by auto
    then show ?thesis using keep [of v] by auto
  qed simp
  obtain l1 s1 d1 where 1: "enter_loop_value (ctx_of xs lr) i p (live_in, st') = Inr (l1, s1)" "entered xs i st (insert v P) l1 s1 d1"
      "snd ` set live_in \<subseteq> snd ` set l1" "\<forall>s. live_map st' v = Some s \<longrightarrow> s \<in> snd ` set l1"
    using enter_value_ok [OF wf lr i Cons.prems(1) v room] p by blast
  have "distinct (map fst vs)" "fst ` set vs \<inter> insert v P = {}" "fst ` set vs \<subseteq> set (all_defs xs)" using Cons.prems p by auto
  moreover have "(\<forall>v \<in> fst ` set vs. v \<in> busy xs i \<and> live_map st v \<noteq> None) \<or> covered xs i st l1"
    using Cons.prems(5) covered_mono [OF _ 1(3)] by auto
  ultimately obtain l2 s2 d2 where 2: "rfold (enter_loop_value (ctx_of xs lr) i) vs (l1, s1) = Inr (l2, s2)"
      "entered xs i st (insert v P \<union> fst ` set vs) l2 s2 d2" "snd ` set l1 \<subseteq> snd ` set l2"
      "\<forall>v \<in> fst ` set vs. v \<in> busy xs i \<longrightarrow> (\<forall>s. live_map st v = Some s \<longrightarrow> s \<in> snd ` set l2)"
    using Cons.IH [OF 1(2)] by metis
  have "rfold (enter_loop_value (ctx_of xs lr) i) (p # vs) (live_in, st') = Inr (l2, s2)" using 1(1) 2(1) by simp
  moreover have "P \<union> fst ` set (p # vs) = insert v P \<union> fst ` set vs" using p by auto
  moreover have "s \<in> snd ` set l2" if "v \<in> busy xs i" "live_map st v = Some s" for s
    using keep [OF that] 1(4) 2(3) by blast
  ultimately show ?case using 2 1(3) p by (intro exI [of _ l2] exI [of _ s2] exI [of _ d2]) auto
qed

text \<open>The whole record, when the values of the instruction itself come first.\<close>

lemma enter_all_ok:
  assumes wf: "well_formed xs" and lr: "all_ranges xs lr" and i: "i < length xs" "in_op (xs ! i) \<noteq> ''END''" and g: "good_state xs st"
    and vs: "vs = A @ B" "distinct (map fst vs)" "fst ` set vs \<subseteq> set (all_defs xs)"
    and busy: "busy xs i = fst ` set A" "\<And>v. v \<in> busy xs i \<Longrightarrow> live_map st v \<noteq> None"
  shows "\<exists>live_in st' ld. rfold (enter_loop_value (ctx_of xs lr) i) vs ([], st) = Inr (live_in, st') \<and> entered xs i st (fst ` set vs) live_in st' ld"
proof -
  have A: "distinct (map fst A)" "distinct (map fst B)" "fst ` set B \<inter> fst ` set A = {}" "fst ` set A \<subseteq> set (all_defs xs)" "fst ` set B \<subseteq> set (all_defs xs)"
    using vs by auto
  have "(\<forall>v \<in> fst ` set A. v \<in> busy xs i \<and> live_map st v \<noteq> None) \<or> covered xs i st []" using busy by blast
  then obtain l1 s1 d1 where 1: "rfold (enter_loop_value (ctx_of xs lr) i) A ([], st) = Inr (l1, s1)" "entered xs i st (fst ` set A) l1 s1 d1"
      "\<forall>v \<in> fst ` set A. v \<in> busy xs i \<longrightarrow> (\<forall>s. live_map st v = Some s \<longrightarrow> s \<in> snd ` set l1)"
    using enter_values_ok [OF wf lr i entered_empty [OF g] A(1) _ A(4)] by auto
  have "covered xs i st l1" unfolding covered_def
  proof
    fix w assume w: "w \<in> busy xs i"
    then obtain s where "live_map st w = Some s" using busy(2) by blast
    moreover from this have "s \<in> snd ` set l1" using 1(3) [rule_format, of w s] w busy(1) by simp
    ultimately show "\<exists>s. live_map st w = Some s \<and> s \<in> snd ` set l1" by simp
  qed
  then obtain l2 s2 d2 where "rfold (enter_loop_value (ctx_of xs lr) i) B (l1, s1) = Inr (l2, s2)"
      "entered xs i st (fst ` set A \<union> fst ` set B) l2 s2 d2"
    using enter_values_ok [OF wf lr i 1(2) A(2,3,5)] by blast
  then show ?thesis using 1(1) vs(1) by (auto simp: rfold_append image_Un)
qed

section \<open>The end of a loop\<close>

text \<open>After the values of a suffix of the record have been restored, every entry whose register no later
  entry took is back in its register, and a value outside the record kept its register.\<close>

definition settled :: "(register, register) dict \<Rightarrow> (register \<Rightarrow> register option) \<Rightarrow> bool" where
  "settled live_in L \<longleftrightarrow> (\<forall>A v r B. live_in = A @ (v, r) # B \<longrightarrow> r \<notin> snd ` set B \<longrightarrow> L v = Some r)"

lemma restore_ok:
  assumes wf: "well_formed xs" and lr: "all_ranges xs lr" and g: "good_state xs st" and v: "v \<in> set (all_defs xs)" "r \<in> set (cons_of v)"
  shows "\<exists>st' ld. restore_value (ctx_of xs lr) i (v, r) st = Inr st' \<and> effect xs i st st' ld \<and> ra_reals st' = ra_reals st
    \<and> fst ` set ld \<subseteq> {v} \<and> live_map st' v = Some r
    \<and> (\<forall>w s. w \<noteq> v \<longrightarrow> s \<noteq> r \<longrightarrow> live_map st' w = Some s \<longleftrightarrow> live_map st w = Some s)"
proof (cases "live_map st v = Some r")
  case True
  then show ?thesis using effect_refl [OF g] by (intro exI [of _ st] exI [of _ "[]"]) (simp add: restore_value_def)
next
  case False
  obtain st2 where 1: "load (ctx_of xs lr) i (Some [r]) True v st = Inr st2" "effect xs i st st2 [(v, r)]" "ra_reals st2 = ra_reals st"
    using load_ok [OF wf lr g v(1), of "Some [r]" "[r]" i True] v(2) by auto
  have "restore_value (ctx_of xs lr) i (v, r) st = Inr st2"
    using False slots_self [OF wf v] 1(1) by (simp add: restore_value_def)
  moreover have "live_map st2 = put v r (live_map st)" using 1(2) by (simp add: effect_def)
  ultimately show ?thesis using 1(2,3) by (intro exI [of _ st2] exI [of _ "[(v, r)]"]) (auto simp: put_def)
qed

lemma restores_ok:
  assumes wf: "well_formed xs" and lr: "all_ranges xs lr"
  shows "good_state xs st \<Longrightarrow> \<forall>(v, r) \<in> set live_in. v \<in> set (all_defs xs) \<and> r \<in> set (cons_of v) \<Longrightarrow> distinct (map fst live_in) \<Longrightarrow>
    \<exists>st' ld. rfold (restore_value (ctx_of xs lr) i) live_in st = Inr st' \<and> effect xs i st st' ld \<and> ra_reals st' = ra_reals st
    \<and> fst ` set ld \<subseteq> fst ` set live_in \<and> settled live_in (live_map st')
    \<and> (\<forall>w s. w \<notin> fst ` set live_in \<longrightarrow> s \<notin> snd ` set live_in \<longrightarrow> live_map st' w = Some s \<longleftrightarrow> live_map st w = Some s)"
proof (induction live_in arbitrary: st)
  case Nil
  then show ?case using effect_refl by (fastforce simp: settled_def)
next
  case (Cons p live_in)
  obtain v r where p: "p = (v, r)" by (cases p)
  obtain s1 d1 where 1: "restore_value (ctx_of xs lr) i (v, r) st = Inr s1" "effect xs i st s1 d1" "ra_reals s1 = ra_reals st"
      "fst ` set d1 \<subseteq> {v}" "live_map s1 v = Some r" "\<And>w s. w \<noteq> v \<Longrightarrow> s \<noteq> r \<Longrightarrow> live_map s1 w = Some s \<longleftrightarrow> live_map st w = Some s"
    using restore_ok [OF wf lr Cons.prems(1), of v r i] Cons.prems(2) p by auto
  obtain s2 d2 where 2: "rfold (restore_value (ctx_of xs lr) i) live_in s1 = Inr s2" "effect xs i s1 s2 d2" "ra_reals s2 = ra_reals s1"
      "fst ` set d2 \<subseteq> fst ` set live_in" "settled live_in (live_map s2)"
      "\<And>w s. w \<notin> fst ` set live_in \<Longrightarrow> s \<notin> snd ` set live_in \<Longrightarrow> live_map s2 w = Some s \<longleftrightarrow> live_map s1 w = Some s"
    using Cons.IH [OF effect_good [OF 1(2)]] Cons.prems(2,3) p by auto
  have v: "v \<notin> fst ` set live_in" using Cons.prems(3) p by simp
  have "settled (p # live_in) (live_map s2)"
    unfolding settled_def
  proof (intro allI impI)
    fix A w s B assume a: "p # live_in = A @ (w, s) # B" "s \<notin> snd ` set B"
    show "live_map s2 w = Some s"
    proof (cases A)
      case Nil
      then show ?thesis using a p v 1(5) 2(6) by simp
    next
      case (Cons a A')
      then show ?thesis using a 2(5) unfolding settled_def by simp
    qed
  qed
  moreover have "live_map s2 w = Some s \<longleftrightarrow> live_map st w = Some s"
    if "w \<notin> fst ` set (p # live_in)" "s \<notin> snd ` set (p # live_in)" for w s
    using that p 1(6) 2(6) by simp
  moreover have "rfold (restore_value (ctx_of xs lr) i) (p # live_in) st = Inr s2" using 1(1) 2(1) p by simp
  moreover have "fst ` set (d1 @ d2) \<subseteq> fst ` set (p # live_in)" using 1(4) 2(4) p by auto
  ultimately show ?case using effect_trans [OF 1(2) 2(2)] 1(3) 2(3) by metis
qed

text \<open>An entry that is live after the start of the loop is live in its register after its end.\<close>

lemma settled_entered:
  assumes e: "entered xs i st P live_in st' ld" and s: "settled live_in L" and v: "v \<in> fst ` set live_in" "live_map st' v = Some r"
  shows "L v = Some r"
proof -
  note E = enteredD [OF e]
  obtain s where m: "(v, s) \<in> set live_in" using v(1) by auto
  then have sr: "s = r" using E(5) [OF m] v(2) by simp
  obtain A B where ab: "live_in = A @ (v, r) # B" using m sr split_list by fast
  have "r \<notin> snd ` set B" using E(8) [OF ab] v(2) by auto
  then show ?thesis using s ab unfolding settled_def by blast
qed

end
