(* ===== verification/RegallocStep.thy ===== *)
theory RegallocStep
  imports RegallocLoops
begin

text \<open>
  One instruction of the forward pass, and the whole pass: every instruction of a well-formed program is
  allocated, and \<open>step_ok\<close> states what that does to the map of live registers, the fills and the records.
\<close>

section \<open>Open loops\<close>

lemma open_loops_less: "open_loops xs j = Some ls \<Longrightarrow> l \<in> set ls \<Longrightarrow> l < j"
proof (induction j arbitrary: ls)
  case (Suc j)
  then show ?case by (auto split: option.splits if_splits list.splits simp: less_SucI)
qed simp

lemma open_loops_head: "open_loops xs j = Some (l # ls) \<Longrightarrow> l < j \<and> in_op (xs ! l) = ''RANGE'' \<and> open_loops xs l = Some ls"
proof (induction j arbitrary: l ls rule: less_induct)
  case (less j)
  show ?case
  proof (cases j)
    case 0
    then show ?thesis using less.prems by simp
  next
    case (Suc k)
    obtain ms where ms: "open_loops xs k = Some ms" using less.prems Suc by (auto split: option.splits)
    consider "in_op (xs ! k) = ''RANGE''" | "in_op (xs ! k) = ''END''" | "in_op (xs ! k) \<noteq> ''RANGE''" "in_op (xs ! k) \<noteq> ''END''" by blast
    then show ?thesis
    proof cases
      case 1
      then show ?thesis using less.prems Suc ms by auto
    next
      case 2
      then obtain m where m: "ms = m # l # ls" using less.prems Suc ms by (auto split: list.splits)
      have "m < k" "open_loops xs m = Some (l # ls)" using less.IH [of k m "l # ls"] Suc ms m by auto
      then show ?thesis using less.IH [of m l ls] Suc by auto
    next
      case 3
      then have "open_loops xs k = Some (l # ls)" using less.prems Suc ms by simp
      then show ?thesis using less.IH [of k l ls] Suc by auto
    qed
  qed
qed

lemma open_loops_down: "open_loops xs (Suc j) = Some ls \<Longrightarrow> l \<in> set ls \<Longrightarrow> l < j \<Longrightarrow> \<exists>ms. open_loops xs j = Some ms \<and> l \<in> set ms"
  by (auto split: option.splits if_splits list.splits)

lemma open_loops_between:
  "open_loops xs j = Some ls \<Longrightarrow> l \<in> set ls \<Longrightarrow> l < i \<Longrightarrow> i \<le> j \<Longrightarrow> \<exists>ms. open_loops xs i = Some ms \<and> l \<in> set ms"
proof (induction j arbitrary: ls)
  case (Suc j)
  show ?case
  proof (cases "i = Suc j")
    case True
    then show ?thesis using Suc.prems by blast
  next
    case False
    then show ?thesis using Suc open_loops_down [OF Suc.prems(1,2)] by auto
  qed
qed simp

lemma open_loops_prefix: "open_loops xs j \<noteq> None \<Longrightarrow> i \<le> j \<Longrightarrow> open_loops xs i \<noteq> None"
proof (induction j)
  case (Suc j)
  then show ?case by (cases "i = Suc j") (auto split: option.splits)
qed simp

section \<open>What an instruction does\<close>

definition unused_in :: "ins list \<Rightarrow> nat \<Rightarrow> nat \<Rightarrow> register \<Rightarrow> bool" where
  "unused_in xs l e v \<longleftrightarrow> (\<forall>p < length xs. l \<le> p \<longrightarrow> p \<le> e \<longrightarrow> v \<notin> points (xs ! p))"

text \<open>The record of the loop that starts at \<open>i\<close>, against the live registers after the start.\<close>

definition recorded :: "ins list \<Rightarrow> nat \<Rightarrow> (register, register) dict \<Rightarrow> (register \<Rightarrow> register option) \<Rightarrow> bool" where
  "recorded xs i live_in L \<longleftrightarrow> distinct (map fst live_in)
     \<and> (\<forall>(v, r) \<in> set live_in. v \<in> set (all_defs (take (Suc i) xs)) \<and> r \<in> set (cons_of v))
     \<and> (\<forall>L' v r. settled live_in L' \<longrightarrow> v \<in> fst ` set live_in \<longrightarrow> L v = Some r \<longrightarrow> L' v = Some r)
     \<and> loop_reg (xs ! i) \<in> fst ` set live_in
     \<and> (\<forall>v r. v \<notin> fst ` set live_in \<longrightarrow> L v = Some r \<longrightarrow> (\<forall>e < length xs. in_op (xs ! e) = ''END'' \<longrightarrow> live_at (xs ! e) = [loop_reg (xs ! i)] \<longrightarrow> unused_in xs i e v))"

definition loops_ok :: "ins list \<Rightarrow> nat \<Rightarrow> ralloc \<Rightarrow> ralloc \<Rightarrow> bool" where
  "loops_ok xs i st st' \<longleftrightarrow>
     (if in_op (xs ! i) = ''RANGE'' then (\<exists>live_in. ra_live_ins st' = live_in # ra_live_ins st \<and> recorded xs i live_in (live_map st'))
        \<and> (\<forall>v \<in> set (operands (xs ! i)). live_map st' v = map_of (ra_reals st') (i, v))
      else if in_op (xs ! i) = ''END'' then \<exists>live_in. ra_live_ins st = live_in # ra_live_ins st' \<and> settled live_in (live_map st')
      else ra_live_ins st' = ra_live_ins st)"

text \<open>The instruction loads \<open>ld1\<close>, reads, writes \<open>ds\<close> and loads \<open>ld2\<close>; the loads of \<open>ld2\<close> leave alone the
  registers of the operands and of the definition, so that they can be emitted before the instruction.\<close>

definition clear_of :: "(register \<times> register) list \<Rightarrow> register \<Rightarrow> register \<Rightarrow> bool" where
  "clear_of ld v r \<longleftrightarrow> (\<forall>(w, s) \<in> set ld. w \<noteq> v \<and> s \<noteq> r)"

definition moves_ok :: "ins list \<Rightarrow> nat \<Rightarrow> ralloc \<Rightarrow> ralloc \<Rightarrow> (register \<times> register) list \<Rightarrow> (register \<times> register) list
    \<Rightarrow> (register \<times> register) list \<Rightarrow> bool" where
  "moves_ok xs i st st' ld1 ds ld2 \<longleftrightarrow> live_map st' = puts ld2 (puts ds (puts ld1 (live_map st)))
     \<and> ra_before st' = ra_before st @ map (\<lambda>(v, r). (i, v, r)) (ld1 @ ld2)
     \<and> dom (map_of (ra_spills st')) = dom (map_of (ra_spills st)) \<union> fst ` set (ld1 @ ld2)
     \<and> map_of (ra_spills st) \<subseteq>\<^sub>m map_of (ra_spills st')
     \<and> map fst ds = defs_at (xs ! i)
     \<and> (\<forall>(v, r) \<in> set ds. map_of (ra_reals st') (i, v) = Some r \<and> clear_of ld2 v r)
     \<and> (\<forall>v \<in> set (operands (xs ! i)). \<exists>r. puts ld1 (live_map st) v = Some r \<and> map_of (ra_reals st') (i, v) = Some r \<and> clear_of ld2 v r)
     \<and> def_apart (xs ! i) (\<lambda>v. map_of (ra_reals st') (i, v)) ds"

definition step_ok :: "ins list \<Rightarrow> nat \<Rightarrow> ralloc \<Rightarrow> ralloc \<Rightarrow> bool" where
  "step_ok xs i st st' \<longleftrightarrow> good_state xs st'
     \<and> (\<exists>ld1 ds ld2. moves_ok xs i st st' ld1 ds ld2 \<and> fst ` set (ld1 @ ld2) \<subseteq> set (all_defs (take i xs)))
     \<and> (\<forall>k v. k \<noteq> i \<or> in_pseudo (xs ! i) \<or> in_op (xs ! i) = ''END'' \<longrightarrow> map_of (ra_reals st') (k, v) = map_of (ra_reals st) (k, v))
     \<and> loops_ok xs i st st'
     \<and> map fst (ra_locals st') = map fst (ra_locals st) @ (if in_op (xs ! i) = ''DEFINE_LOCAL'' then [i] else [])"

lemma step_okI:
  assumes "good_state xs st'" "moves_ok xs i st st' ld1 ds ld2" "fst ` set (ld1 @ ld2) \<subseteq> set (all_defs (take i xs))"
    and "\<And>k v. k \<noteq> i \<or> in_pseudo (xs ! i) \<or> in_op (xs ! i) = ''END'' \<Longrightarrow> map_of (ra_reals st') (k, v) = map_of (ra_reals st) (k, v)"
    and "loops_ok xs i st st'"
    and "map fst (ra_locals st') = map fst (ra_locals st) @ (if in_op (xs ! i) = ''DEFINE_LOCAL'' then [i] else [])"
  shows "step_ok xs i st st'"
  unfolding step_ok_def using assms by blast

lemma pseudo_not: "in_pseudo x \<Longrightarrow> in_op x \<noteq> ''RANGE'' \<and> in_op x \<noteq> ''END'' \<and> in_op x \<noteq> ''DEFINE_LOCAL''"
  using pseudo_facts by metis

lemma step_pseudo:
  assumes g: "good_state xs st" and i: "in_pseudo (xs ! i)"
  shows "\<exists>st'. alloc_ins c (i, xs ! i) st = Inr st' \<and> step_ok xs i st st'"
proof -
  have "moves_ok xs i st st [] [] []" using i by (simp add: moves_ok_def defs_at_def operands_def)
  moreover have "loops_ok xs i st st" using pseudo_not [OF i] by (simp add: loops_ok_def)
  ultimately have "step_ok xs i st st" using g pseudo_not [OF i] by (intro step_okI) auto
  then show ?thesis using i by (simp add: alloc_ins_def)
qed

text \<open>Before instruction \<open>i\<close>, the live and the spilled values were defined earlier.\<close>

definition known_before :: "ins list \<Rightarrow> nat \<Rightarrow> ralloc \<Rightarrow> bool" where
  "known_before xs i st \<longleftrightarrow> (\<forall>v. live_map st v \<noteq> None \<or> v \<in> dom (map_of (ra_spills st)) \<longrightarrow> v \<in> set (all_defs (take i xs)))"

lemma knownD: "known_before xs i st \<Longrightarrow> live_map st v \<noteq> None \<or> v \<in> dom (map_of (ra_spills st)) \<Longrightarrow> v \<in> set (all_defs (take i xs))"
  unfolding known_before_def by (elim allE impE) auto

lemma known_no_defs:
  assumes wf: "well_formed xs" and i: "i < length xs" and k: "known_before xs i st"
  shows "no_defs xs i st"
  unfolding no_defs_def
proof
  fix w assume w: "w \<in> set (defs_at (xs ! i))"
  have "w \<notin> set (all_defs (take i xs))"
  proof
    assume "w \<in> set (all_defs (take i xs))"
    then obtain d where "d < length (take i xs)" "w \<in> set (defs_at (take i xs ! d))" using all_defsD by blast
    then have "d < i" "w \<in> set (defs_at (xs ! d))" by simp_all
    then show False using def_unique [OF wf_program(2) [OF wf] _ i _ w, of d] i by simp
  qed
  then show "live_map st w = None" using knownD [OF k, of w] by blast
qed

lemma all_defs_take_mono: "i \<le> j \<Longrightarrow> set (all_defs (take i xs)) \<subseteq> set (all_defs (take j xs))"
  using set_take_subset_set_take [of i j xs] by (auto simp: all_defs_def)

lemma all_defs_take_Suc: "i < length xs \<Longrightarrow> set (all_defs (take (Suc i) xs)) = set (all_defs (take i xs)) \<union> set (defs_at (xs ! i))"
  by (auto simp: all_defs_def take_Suc_conv_app_nth)

lemma all_defs_take: "v \<in> set (all_defs (take i xs)) \<Longrightarrow> v \<in> set (all_defs xs)"
  by (auto simp: all_defs_def dest: in_set_takeD)

lemma operand_known:
  assumes wf: "well_formed xs" and i: "i < length xs"
  shows "v \<in> set (live_at (xs ! i)) \<Longrightarrow> v \<in> set (all_defs (take i xs))"
    and "v \<in> set (operands (xs ! i)) \<Longrightarrow> v \<in> set (all_defs (take i xs))"
proof -
  show a: "v \<in> set (all_defs (take i xs))" if l: "v \<in> set (live_at (xs ! i))" for v
  proof -
    obtain d where d: "d < i" "v \<in> set (defs_at (xs ! d))" using wf_program(4) [OF wf i l] by blast
    have "xs ! d \<in> set (take i xs)" using d(1) i by (auto simp: in_set_conv_nth intro!: exI [of _ d])
    then show ?thesis using d(2) by (auto simp: all_defs_def)
  qed
  show "v \<in> set (all_defs (take i xs))" if "v \<in> set (operands (xs ! i))"
  proof -
    have "in_op (xs ! i) \<noteq> ''END''" using that by (auto simp: operands_def split: if_splits)
    then show ?thesis using wf_program(5) [OF wf i] that a by blast
  qed
qed

lemma known_step:
  assumes s: "step_ok xs i st st'" and k: "known_before xs i st" and i: "i < length xs"
  shows "known_before xs (Suc i) st'"
proof -
  obtain ld1 ds ld2 where m: "moves_ok xs i st st' ld1 ds ld2" "fst ` set (ld1 @ ld2) \<subseteq> set (all_defs (take i xs))"
    using s unfolding step_ok_def by blast
  have "map fst ds = defs_at (xs ! i)" using m(1) by (simp add: moves_ok_def)
  then have d: "fst ` set ds = set (defs_at (xs ! i))" by (metis set_map)
  have e: "live_map st' = puts (ld1 @ ds @ ld2) (live_map st)" using m(1) by (simp add: moves_ok_def puts_append)
  have sp: "dom (map_of (ra_spills st')) = dom (map_of (ra_spills st)) \<union> fst ` set (ld1 @ ld2)" using m(1) by (simp add: moves_ok_def)
  show ?thesis
    unfolding known_before_def
  proof (intro allI impI)
    fix v assume "live_map st' v \<noteq> None \<or> v \<in> dom (map_of (ra_spills st'))"
    then consider "live_map st v \<noteq> None" | "v \<in> fst ` set (ld1 @ ld2)" | "v \<in> fst ` set ds" | "v \<in> dom (map_of (ra_spills st))"
      using puts_dom [of "ld1 @ ds @ ld2" "live_map st" v] e sp by auto
    then show "v \<in> set (all_defs (take (Suc i) xs))"
      unfolding all_defs_take_Suc [OF i] using k m(2) d by cases (auto simp: known_before_def)
  qed
qed

section \<open>Instructions outside loops' ends\<close>

lemma moves_plain:
  assumes 1: "effect xs i st st1 ld1" and 2: "def_effect xs i st1 st2 ds" and vs: "map fst ds = defs_at (xs ! i)"
    and ops: "\<forall>v \<in> set (operands (xs ! i)). \<exists>r. live_map st1 v = Some r \<and> map_of (ra_reals st1) (i, v) = Some r"
    and fresh: "\<And>v. v \<in> set (operands (xs ! i)) \<Longrightarrow> v \<notin> set (defs_at (xs ! i))"
    and d1: "length (defs_at (xs ! i)) \<le> 1"
  shows "moves_ok xs i st st2 ld1 ds []"
proof -
  have real: "map_of (ra_reals st2) (i, v) = (if v \<in> fst ` set ds then map_of (rev ds) v else map_of (ra_reals st1) (i, v))" for v
    using 2 by (simp add: def_effect_def)
  have k: "fst ` set ds = set (defs_at (xs ! i))" using vs by (metis set_map)
  have "length ds \<le> 1" using d1 vs by (metis length_map)
  then have "map_of (rev ds) v = Some r" if "(v, r) \<in> set ds" for v r using that by (cases ds) auto
  then have "\<forall>(v, r) \<in> set ds. map_of (ra_reals st2) (i, v) = Some r" using real by force
  moreover have "\<forall>v \<in> set (operands (xs ! i)). \<exists>r. live_map st1 v = Some r \<and> map_of (ra_reals st2) (i, v) = Some r"
    using ops real k fresh by simp
  moreover have "def_apart (xs ! i) (\<lambda>v. map_of (ra_reals st2) (i, v)) ds"
  proof -
    have "map_of (ra_reals st2) (i, u) = live_map st1 u" if "u \<in> set (operands (xs ! i))" for u
      using ops real [of u] k fresh [OF that] that by auto
    then show ?thesis using 2 unfolding def_effect_def def_apart_def by (elim conjE) (simp cong: conj_cong)
  qed
  ultimately show ?thesis using 1 2 vs unfolding moves_ok_def effect_def def_effect_def by (auto simp: clear_of_def)
qed

text \<open>The uses and the definitions of an instruction other than \<open>END\<close>.\<close>

lemma use_and_define:
  assumes wf: "well_formed xs" and lr: "all_ranges xs lr" and i: "i < length xs" "\<not> in_pseudo (xs ! i)" "in_op (xs ! i) \<noteq> ''END''"
    and g: "good_state xs st" and nd: "no_defs xs i st"
  shows "\<exists>st1 ld1 st2 ds. rfold (use_src (ctx_of xs lr) i) (in_srcs (xs ! i)) st = Inr st1
    \<and> rfold (define_reg (ctx_of xs lr) i (xs ! i)) (enumerate 0 (in_defs (xs ! i))) st1 = Inr st2
    \<and> effect xs i st st1 ld1 \<and> def_effect xs i st1 st2 ds \<and> fst ` set ld1 \<subseteq> set (operands (xs ! i)) \<and> map fst ds = defs_at (xs ! i)
    \<and> (\<forall>v \<in> set (operands (xs ! i)). \<exists>r. live_map st1 v = Some r \<and> map_of (ra_reals st1) (i, v) = Some r)
    \<and> (in_op (xs ! i) = ''RANGE'' \<longrightarrow> length ds = 1 \<longrightarrow> (\<forall>w \<in> busy xs i. live_map st1 w \<noteq> Some (snd (hd ds))))"
proof -
  have o: "operands (xs ! i) = virtuals (in_srcs (xs ! i))" using i by (simp add: operands_def)
  have d: "defs_at (xs ! i) = in_defs (xs ! i)" using i by (simp add: defs_at_def)
  have "set (virtuals (in_srcs (xs ! i))) \<subseteq> set (operands (xs ! i))" using o by simp
  from uses_ok [OF wf lr i(1,3) g nd this]
  obtain st1 ld1 where 1: "rfold (use_src (ctx_of xs lr) i) (in_srcs (xs ! i)) st = Inr st1" "effect xs i st st1 ld1"
      "fst ` set ld1 \<subseteq> set (operands (xs ! i))"
      "\<forall>v \<in> set (operands (xs ! i)). \<exists>r. live_map st1 v = Some r \<and> map_of (ra_reals st1) (i, v) = Some r"
    unfolding o by blast
  obtain st2 ds where 2: "rfold (define_reg (ctx_of xs lr) i (xs ! i)) (enumerate 0 (in_defs (xs ! i))) st1 = Inr st2"
      "def_effect xs i st1 st2 ds" "map fst ds = in_defs (xs ! i)"
      "in_op (xs ! i) = ''RANGE'' \<longrightarrow> length (in_defs (xs ! i)) = 1 \<longrightarrow> (\<forall>w \<in> busy xs i. live_map st1 w \<noteq> Some (snd (hd ds)))"
    using defines_ok [OF wf lr i effect_good [OF 1(2)] no_defs_effect [OF wf i(1) 1(2,3) nd]] by blast
  have "length ds = length (in_defs (xs ! i))" using 2(3) by (metis length_map)
  then show ?thesis using 1 2 d by (intro exI [of _ st1] exI [of _ ld1] exI [of _ st2] exI [of _ ds]) simp
qed

lemma effects_reals:
  assumes "effect xs i st st1 ld1" "def_effect xs i st1 st2 ds" "k \<noteq> i"
  shows "map_of (ra_reals st2) (k, v) = map_of (ra_reals st) (k, v)"
  using assms unfolding effect_def def_effect_def by auto

lemma local_ok:
  assumes wf: "well_formed xs" and i: "i < length xs" and g: "good_state xs st"
  shows "\<exists>st'. alloc_local i (xs ! i) st = Inr st' \<and> good_state xs st' \<and> ra_live st' = ra_live st \<and> ra_before st' = ra_before st
    \<and> ra_spills st' = ra_spills st \<and> ra_reals st' = ra_reals st \<and> ra_live_ins st' = ra_live_ins st
    \<and> (in_op (xs ! i) \<noteq> ''DEFINE_LOCAL'' \<longrightarrow> st' = st)
    \<and> map fst (ra_locals st') = map fst (ra_locals st) @ (if in_op (xs ! i) = ''DEFINE_LOCAL'' then [i] else [])"
proof (cases "in_op (xs ! i) = ''DEFINE_LOCAL''")
  case True
  then obtain n where n: "in_local (xs ! i) = Inr n" "0 \<le> n"
    using wf_program(8) [OF wf i] by (cases "in_local (xs ! i)") auto
  have "local_bytes xs i = n" using i n by (simp add: local_bytes_def lget_def)
  moreover have "frame_ok xs (ra_spills st) (ra_stack st) (ra_locals st)" using g by (simp add: good_state_def)
  ultimately have "frame_ok xs (ra_spills st) (ra_stack st + n) (ra_locals st @ [(i, ra_stack st)])" using n(2) by (intro frame_local)
  then show ?thesis using True n(1) g by (simp add: alloc_local_def good_state_def)
next
  case False
  then show ?thesis using g by (simp add: alloc_local_def)
qed

lemma step_plain:
  assumes wf: "well_formed xs" and lr: "all_ranges xs lr" and i: "i < length xs" "\<not> in_pseudo (xs ! i)"
      "in_op (xs ! i) \<noteq> ''END''" "in_op (xs ! i) \<noteq> ''RANGE''" and g: "good_state xs st" and known: "known_before xs i st"
  shows "\<exists>st'. alloc_ins (ctx_of xs lr) (i, xs ! i) st = Inr st' \<and> step_ok xs i st st'"
proof -
  obtain st1 ld1 st2 ds where u: "rfold (use_src (ctx_of xs lr) i) (in_srcs (xs ! i)) st = Inr st1"
      "rfold (define_reg (ctx_of xs lr) i (xs ! i)) (enumerate 0 (in_defs (xs ! i))) st1 = Inr st2"
      "effect xs i st st1 ld1" "def_effect xs i st1 st2 ds" "fst ` set ld1 \<subseteq> set (operands (xs ! i))" "map fst ds = defs_at (xs ! i)"
      "\<forall>v \<in> set (operands (xs ! i)). \<exists>r. live_map st1 v = Some r \<and> map_of (ra_reals st1) (i, v) = Some r"
    using use_and_define [OF wf lr i(1-3) g known_no_defs [OF wf i(1) known]] by blast
  obtain st3 where l: "alloc_local i (xs ! i) st2 = Inr st3" "good_state xs st3" "ra_live st3 = ra_live st2" "ra_before st3 = ra_before st2"
      "ra_spills st3 = ra_spills st2" "ra_reals st3 = ra_reals st2" "ra_live_ins st3 = ra_live_ins st2"
      "map fst (ra_locals st3) = map fst (ra_locals st2) @ (if in_op (xs ! i) = ''DEFINE_LOCAL'' then [i] else [])"
    using local_ok [OF wf i(1) def_effect_good [OF u(4)]] by blast
  have a: "alloc_ins (ctx_of xs lr) (i, xs ! i) st = Inr st3"
    using u(1,2) l(1) i by (simp add: alloc_ins_def enter_loop_def leave_loop_def)
  have "moves_ok xs i st st2 ld1 ds []"
    using moves_plain [OF u(3,4,6,7)] operand_not_def [OF wf i(1)] wf_program(7) [OF wf i(1)] by blast
  then have "moves_ok xs i st st3 ld1 ds []" using l by (simp add: moves_ok_def)
  moreover have "fst ` set (ld1 @ []) \<subseteq> set (all_defs (take i xs))" using u(5) operand_known(2) [OF wf i(1)] by auto
  moreover have "map_of (ra_reals st3) (k, v) = map_of (ra_reals st) (k, v)" if "k \<noteq> i" for k v
    using effects_reals [OF u(3,4) that] l(6) by simp
  moreover have "ra_live_ins st3 = ra_live_ins st" "ra_locals st2 = ra_locals st" using u(3,4) l(7) by (simp_all add: effect_def def_effect_def)
  ultimately have "step_ok xs i st st3" using l(2,8) i by (intro step_okI) (auto simp: loops_ok_def)
  then show ?thesis using a by blast
qed

section \<open>The start of a loop\<close>

lemma used_in_loop_ok:
  assumes wf: "well_formed xs" and lr: "all_ranges xs lr" and g: "good_state xs st"
  shows "\<exists>vs. used_in_loop (ctx_of xs lr) i e st = Inr vs \<and> distinct (map fst vs)
    \<and> (\<forall>(v, js) \<in> set vs. map_of lr v = Some js)
    \<and> (\<forall>v. v \<in> fst ` set vs \<longleftrightarrow> (live_map st v \<noteq> None \<or> v \<in> dom (map_of (ra_spills st)))
         \<and> (\<exists>js. map_of lr v = Some js \<and> (\<exists>l \<in> set js. i \<le> l \<and> l < e)))"
proof -
  let ?ks = "first_occurrences (map fst (ra_live st) @ map fst (ra_spills st))"
  have f: "frame_ok xs (ra_spills st) (ra_stack st) (ra_locals st)" using g by (simp add: good_state_def)
  have ks: "v \<in> set ?ks \<longleftrightarrow> live_map st v \<noteq> None \<or> v \<in> dom (map_of (ra_spills st))" for v
    using map_of_eq_None_iff [of "ra_live st" v] by (auto simp: dom_map_of_conv_image_fst)
  have known: "v \<in> set (all_defs xs)" if "v \<in> set ?ks" for v
  proof (cases "live_map st v")
    case None
    then have "v \<in> dom (map_of (ra_spills st))" using that ks [of v] by simp
    then obtain off where "(v, off) \<in> set (ra_spills st)" by (auto dest: map_of_SomeD)
    then show ?thesis using frame_okD(3) [OF f] by blast
  next
    case (Some r)
    then show ?thesis using g unfolding good_state_def by blast
  qed
  have lrk: "\<exists>js. map_of lr v = Some js" if "v \<in> set ?ks" for v
    using all_defsD [OF known [OF that]] range_starts [OF wf lr] by blast
  let ?vs = "filter (\<lambda>(v, js). list_ex (\<lambda>l. i \<le> l \<and> l < e) js) (map (\<lambda>v. (v, the (map_of lr v))) ?ks)"
  have "rmap (\<lambda>v. rbind (dget (cx_lr (ctx_of xs lr)) v) (\<lambda>js. Inr (v, js))) ?ks = Inr (map (\<lambda>v. (v, the (map_of lr v))) ?ks)"
    by (rule rmap_total) (use lrk in \<open>force simp: ctx_of_def dget_def\<close>)
  then have "used_in_loop (ctx_of xs lr) i e st = Inr ?vs" by (simp add: used_in_loop_def)
  moreover have "distinct (map fst ?vs)"
    by (rule distinct_map_filter) (simp add: comp_def)
  moreover have "\<forall>(v, js) \<in> set ?vs. map_of lr v = Some js" using lrk by fastforce
  moreover have "v \<in> fst ` set ?vs \<longleftrightarrow> v \<in> set ?ks \<and> (\<exists>js. map_of lr v = Some js \<and> (\<exists>l \<in> set js. i \<le> l \<and> l < e))" for v
    using lrk [of v] by (force simp: list_ex_iff)
  ultimately show ?thesis using ks by blast
qed

lemma loop_counter:
  assumes wf: "well_formed xs" and i: "i < length xs" "in_op (xs ! i) = ''RANGE''"
  shows "in_defs (xs ! i) = [loop_reg (xs ! i)]" "defs_at (xs ! i) = [loop_reg (xs ! i)]"
proof -
  have "length (in_defs (xs ! i)) = 1" using wf_program(1) [OF wf] i unfolding structured_def by blast
  then show d: "in_defs (xs ! i) = [loop_reg (xs ! i)]" by (cases "in_defs (xs ! i)") (auto simp: loop_reg_def)
  show "defs_at (xs ! i) = [loop_reg (xs ! i)]" using i pseudo_facts d by (auto simp: defs_at_def)
qed

lemma loop_end_ok:
  assumes wf: "well_formed xs" and lr: "all_ranges xs lr" and i: "i < length xs" "in_op (xs ! i) = ''RANGE''"
  shows "\<exists>js e. map_of lr (loop_reg (xs ! i)) = Some (i # js) \<and> loop_end (ctx_of xs lr) (xs ! i) = Inr e \<and> i < e
    \<and> (\<forall>k < length xs. loop_reg (xs ! i) \<in> set (live_at (xs ! k)) \<longrightarrow> k \<le> e)"
proof -
  let ?c = "loop_reg (xs ! i)"
  have c: "?c \<in> set (defs_at (xs ! i))" using loop_counter(2) [OF wf i] by simp
  obtain js where js: "map_of lr ?c = Some (i # js)" "sorted (i # js)" using range_starts [OF wf lr i(1) c] by blast
  have e: "loop_end (ctx_of xs lr) (xs ! i) = Inr (last (i # js))"
    using js loop_counter(1) [OF wf i] by (simp add: loop_end_def ctx_of_def dget_def)
  have le: "k \<le> last (i # js)" if "k < length xs" "?c \<in> set (live_at (xs ! k))" for k
  proof -
    have "?c \<in> points (xs ! k)" using that(2) by (simp add: points_def)
    then have "k \<in> set (i # js)" using lr that(1) js(1) unfolding all_ranges_def by fastforce
    then show ?thesis by (rule sorted_last [OF js(2)])
  qed
  obtain k where k: "k < length xs" "i < k" "?c \<in> set (live_at (xs ! k))"
    using wf_program(1) [OF wf] i unfolding structured_def by blast
  then have "i < last (i # js)" using le [OF k(1,3)] by linarith
  then show ?thesis using js(1) e le by blast
qed

lemma recorded_ok:
  assumes wf: "well_formed xs" and lr: "all_ranges xs lr" and i: "i < length xs" "in_op (xs ! i) = ''RANGE''"
    and e: "entered xs i st2 P live_in st' ld" and live: "live_map st2 (loop_reg (xs ! i)) = Some r0"
    and le: "\<And>k. k < length xs \<Longrightarrow> loop_reg (xs ! i) \<in> set (live_at (xs ! k)) \<Longrightarrow> k \<le> n" and n: "i < n"
    and P: "\<And>v. v \<in> P \<longleftrightarrow> (live_map st2 v \<noteq> None \<or> v \<in> dom (map_of (ra_spills st2))) \<and> (\<exists>js. map_of lr v = Some js \<and> (\<exists>l \<in> set js. i \<le> l \<and> l < n))"
    and known: "known_before xs (Suc i) st2"
  shows "recorded xs i live_in (live_map st')"
proof -
  note E = enteredD [OF e]
  let ?c = "loop_reg (xs ! i)"
  have c: "?c \<in> points (xs ! i)" using loop_counter(2) [OF wf i] by (simp add: points_def)
  have busy: "?c \<in> busy xs i" using loop_counter(2) [OF wf i] by (simp add: busy_def)
  have "\<exists>js. map_of lr ?c = Some js \<and> i \<in> set js" using lr i(1) c unfolding all_ranges_def by blast
  then have "?c \<in> P" using P [of ?c] live n by auto
  moreover have "live_map st' ?c = Some r0" by (rule E(9) [OF busy live])
  ultimately have keys: "?c \<in> fst ` set live_in" using E(7) [of ?c] by auto
  have free: "unused_in xs i k v" if v: "v \<notin> fst ` set live_in" "live_map st' v = Some r" and k: "k < length xs" "in_op (xs ! k) = ''END''" "live_at (xs ! k) = [?c]" for v r k
    unfolding unused_in_def
  proof (intro allI impI notI)
    fix p assume p: "p < length xs" "i \<le> p" "p \<le> k" "v \<in> points (xs ! p)"
    have kn: "k \<le> n" using le [OF k(1)] k(3) by simp
    have "v \<notin> P" using E(7) [of v] v by auto
    then have "v \<in> dom (live_map st2)" using E(12) v(2) by auto
    moreover obtain js where js: "map_of lr v = Some js" "p \<in> set js" using lr p(1,4) unfolding all_ranges_def by blast
    ultimately have "\<not> p < n" using P [of v] \<open>v \<notin> P\<close> p(2) by auto
    then have "p = k" using p(3) kn by linarith
    moreover have "defs_at (xs ! k) = []" using wf_program(1) [OF wf] k unfolding structured_def defs_at_def by simp
    ultimately have "v = ?c" using p(4) k(3) by (simp add: points_def)
    then show False using v(1) keys by simp
  qed
  have mem: "v \<in> set (all_defs (take (Suc i) xs))" if "(v, r) \<in> set live_in" for v r
  proof -
    have "v \<in> P" using E(3) that by force
    then show ?thesis using P [of v] known unfolding known_before_def by blast
  qed
  show ?thesis
    unfolding recorded_def
  proof (intro conjI)
    show "distinct (map fst live_in)" by (rule E(4))
    show "\<forall>(v, r) \<in> set live_in. v \<in> set (all_defs (take (Suc i) xs)) \<and> r \<in> set (cons_of v)" using mem E(5) by auto
    show "\<forall>L' v r. settled live_in L' \<longrightarrow> v \<in> fst ` set live_in \<longrightarrow> live_map st' v = Some r \<longrightarrow> L' v = Some r"
      by (intro allI impI) (rule settled_entered [OF e])
    show "?c \<in> fst ` set live_in" by (rule keys)
    show "\<forall>v r. v \<notin> fst ` set live_in \<longrightarrow> live_map st' v = Some r \<longrightarrow> (\<forall>e < length xs. in_op (xs ! e) = ''END'' \<longrightarrow> live_at (xs ! e) = [?c] \<longrightarrow> unused_in xs i e v)"
      by (intro allI impI) (rule free)
  qed
qed

end
