(* ===== verification/RegallocRun.thy ===== *)
theory RegallocRun
  imports RegallocStep
begin

text \<open>The start and the end of a loop, and the whole forward pass: it never fails on a well-formed program.\<close>

lemma def_singleton:
  assumes "map fst ds = [c]"
  shows "\<exists>r. ds = [(c, r)]"
  using assms by (cases ds) auto

lemma sorted_split: "sorted (map f xs) \<Longrightarrow> (\<And>x y. P y \<Longrightarrow> f x \<le> f y \<Longrightarrow> P x) \<Longrightarrow> xs = filter P xs @ filter (\<lambda>x. \<not> P x) xs"
proof (induction xs)
  case (Cons x xs)
  then have IH: "xs = filter P xs @ filter (\<lambda>x. \<not> P x) xs" and le: "\<forall>y \<in> set xs. f x \<le> f y" by auto
  show ?case
  proof (cases "P x")
    case True
    then show ?thesis using IH by simp
  next
    case False
    then have "filter P xs = []" using le Cons.prems(2) by (auto simp: filter_empty_conv)
    then show ?thesis using IH False by simp
  qed
qed simp

text \<open>The values that the head of the loop itself uses have distance 0 and are sorted to the front.\<close>

lemma busy_first:
  assumes wf: "well_formed xs" and lr: "all_ranges xs lr" and i: "i < length xs" "in_op (xs ! i) = ''RANGE''" and n: "i < n"
    and js: "\<forall>(v, js) \<in> set vs. map_of lr v = Some js"
    and vs: "\<And>v. v \<in> fst ` set vs \<longleftrightarrow> (live_map st v \<noteq> None \<or> v \<in> dom (map_of (ra_spills st)))
         \<and> (\<exists>js. map_of lr v = Some js \<and> (\<exists>l \<in> set js. i \<le> l \<and> l < n))"
    and live: "\<And>w. w \<in> busy xs i \<Longrightarrow> live_map st w \<noteq> None"
  shows "\<exists>A B. sort_key (loop_key i) vs = A @ B \<and> busy xs i = fst ` set A"
proof -
  let ?P = "\<lambda>p. fst (loop_key i p) = 0"
  let ?A = "filter ?P (sort_key (loop_key i) vs)"
  have split: "sort_key (loop_key i) vs = ?A @ filter (\<lambda>p. \<not> ?P p) (sort_key (loop_key i) vs)"
    by (rule sorted_split [of "loop_key i"]) (auto simp: less_eq_prod_def)
  have ne: "in_op (xs ! i) \<noteq> ''END''" using i(2) by simp
  have key: "?P (v, js) \<longleftrightarrow> v \<in> busy xs i" if m: "(v, js) \<in> set vs" for v js
  proof -
    have l: "map_of lr v = Some js" using js m by auto
    have "v \<in> fst ` set vs" using m by force
    then obtain p where p: "p \<in> set js" "i \<le> p" using vs [of v] l by auto
    have b: "i \<in> set js \<longleftrightarrow> v \<in> busy xs i"
      using range_mem [OF lr i(1) ne l] busy_points [OF wf i(1) ne] by simp
    have s: "sorted js" using lr l unfolding all_ranges_def range_ok_def by blast
    obtain q where q: "List.find (\<lambda>l. i \<le> l) js = Some q" using p by (cases "List.find (\<lambda>l. i \<le> l) js") (auto simp: find_None_iff)
    have "q \<in> set js" "i \<le> q" using q by (auto simp: find_Some_iff)
    moreover have "q = i" if here: "i \<in> set js"
    proof -
      obtain d where "next_use lr (length xs) i v = Inr d" "d = 0" using next_use_at [OF l s, of "length xs" i] here by blast
      then show ?thesis using l q \<open>i \<le> q\<close> by (simp add: next_use_def dget_def)
    qed
    ultimately have "q - i = 0 \<longleftrightarrow> i \<in> set js" by auto
    then show ?thesis using b q by (simp add: loop_key_def)
  qed
  have "busy xs i = fst ` set ?A"
  proof
    show "fst ` set ?A \<subseteq> busy xs i" using key by auto
    show "busy xs i \<subseteq> fst ` set ?A"
    proof
      fix w assume w: "w \<in> busy xs i"
      then have "w \<in> points (xs ! i)" using busy_points [OF wf i(1) ne] by simp
      then obtain js' where "map_of lr w = Some js'" "i \<in> set js'" using lr i(1) unfolding all_ranges_def by blast
      then have "w \<in> fst ` set vs" using vs [of w] live [OF w] n by auto
      then obtain js where m: "(w, js) \<in> set vs" by auto
      then have "(w, js) \<in> set ?A" using key [OF m] w by simp
      then show "w \<in> fst ` set ?A" by force
    qed
  qed
  then show ?thesis using split by blast
qed

lemma step_range:
  assumes wf: "well_formed xs" and lr: "all_ranges xs lr" and i: "i < length xs" "in_op (xs ! i) = ''RANGE''"
    and g: "good_state xs st" and known: "known_before xs i st"
  shows "\<exists>st'. alloc_ins (ctx_of xs lr) (i, xs ! i) st = Inr st' \<and> step_ok xs i st st'"
proof -
  let ?c = "loop_reg (xs ! i)"
  have np: "\<not> in_pseudo (xs ! i)" and ne: "in_op (xs ! i) \<noteq> ''END''" using i(2) pseudo_facts by auto
  have D: "defs_at (xs ! i) = [?c]" by (rule loop_counter(2) [OF wf i])
  obtain st1 ld1 st2 ds where u: "rfold (use_src (ctx_of xs lr) i) (in_srcs (xs ! i)) st = Inr st1"
      "rfold (define_reg (ctx_of xs lr) i (xs ! i)) (enumerate 0 (in_defs (xs ! i))) st1 = Inr st2"
      "effect xs i st st1 ld1" "def_effect xs i st1 st2 ds" "fst ` set ld1 \<subseteq> set (operands (xs ! i))" "map fst ds = defs_at (xs ! i)"
      "\<forall>v \<in> set (operands (xs ! i)). \<exists>r. live_map st1 v = Some r \<and> map_of (ra_reals st1) (i, v) = Some r"
      "in_op (xs ! i) = ''RANGE'' \<longrightarrow> length ds = 1 \<longrightarrow> (\<forall>w \<in> busy xs i. live_map st1 w \<noteq> Some (snd (hd ds)))"
    using use_and_define [OF wf lr i(1) np ne g known_no_defs [OF wf i(1) known]] by blast
  have m1: "moves_ok xs i st st2 ld1 ds []"
    using moves_plain [OF u(3,4,6,7)] operand_not_def [OF wf i(1)] wf_program(7) [OF wf i(1)] by blast
  obtain r0 where ds: "ds = [(?c, r0)]" using def_singleton u(6) D by metis
  have g2: "good_state xs st2" by (rule def_effect_good [OF u(4)])
  have L2: "live_map st2 = put ?c r0 (live_map st1)" using u(4) ds by (simp add: def_effect_def)
  obtain n where n: "loop_end (ctx_of xs lr) (xs ! i) = Inr n" "i < n" "\<And>k. k < length xs \<Longrightarrow> ?c \<in> set (live_at (xs ! k)) \<Longrightarrow> k \<le> n"
    using loop_end_ok [OF wf lr i] by blast
  obtain vs where vs: "used_in_loop (ctx_of xs lr) i n st2 = Inr vs" "distinct (map fst vs)"
      "\<And>v. v \<in> fst ` set vs \<longleftrightarrow> (live_map st2 v \<noteq> None \<or> v \<in> dom (map_of (ra_spills st2)))
         \<and> (\<exists>js. map_of lr v = Some js \<and> (\<exists>l \<in> set js. i \<le> l \<and> l < n))"
      "\<forall>(v, js) \<in> set vs. map_of lr v = Some js"
    using used_in_loop_ok [OF wf lr g2, of i n] by blast
  let ?ws = "sort_key (loop_key i) vs"
  have ws: "distinct (map fst ?ws)" "fst ` set ?ws = fst ` set vs" using vs(2) by (simp_all add: distinct_map)
  have blive: "live_map st2 w \<noteq> None" if w: "w \<in> busy xs i" for w
  proof (cases "w = ?c")
    case True
    then show ?thesis by (simp add: L2 put_def)
  next
    case False
    then have o: "w \<in> set (operands (xs ! i))" using w D by (simp add: busy_def)
    then obtain r where "live_map st1 w = Some r" using u(7) by blast
    moreover have "live_map st1 w \<noteq> Some r0" using u(8) i(2) ds w by simp
    ultimately show ?thesis using False by (simp add: L2 put_def)
  qed
  have spills2: "dom (map_of (ra_spills st2)) = dom (map_of (ra_spills st)) \<union> fst ` set ld1" using m1 by (simp add: moves_ok_def)
  have known2: "known_before xs (Suc i) st2"
    unfolding known_before_def
  proof (intro allI impI)
    fix v assume "live_map st2 v \<noteq> None \<or> v \<in> dom (map_of (ra_spills st2))"
    moreover have "live_map st2 = puts (ld1 @ ds) (live_map st)" using m1 by (simp add: moves_ok_def puts_append)
    ultimately consider "live_map st v \<noteq> None" | "v \<in> fst ` set ld1" | "v = ?c" | "v \<in> dom (map_of (ra_spills st))"
      using puts_dom [of "ld1 @ ds" "live_map st" v] spills2 ds by auto
    then show "v \<in> set (all_defs (take (Suc i) xs))"
      unfolding all_defs_take_Suc [OF i(1)] using known u(5) operand_known(2) [OF wf i(1)] D by cases (auto simp: known_before_def)
  qed
  have "fst ` set ?ws \<subseteq> set (all_defs xs)"
  proof
    fix v assume "v \<in> fst ` set ?ws"
    then have "live_map st2 v \<noteq> None \<or> v \<in> dom (map_of (ra_spills st2))" using vs(3) [of v] ws(2) by simp
    then have "v \<in> set (all_defs (take (Suc i) xs))" by (rule knownD [OF known2])
    then show "v \<in> set (all_defs xs)" by (rule all_defs_take)
  qed
  moreover have "\<exists>A B. ?ws = A @ B \<and> busy xs i = fst ` set A" by (rule busy_first [OF wf lr i n(2) vs(4,3) blive])
  ultimately obtain live_in st3 ld2 where e: "rfold (enter_loop_value (ctx_of xs lr) i) ?ws ([], st2) = Inr (live_in, st3)"
      "entered xs i st2 (fst ` set vs) live_in st3 ld2"
    using enter_all_ok [OF wf lr i(1) ne g2 _ ws(1) _ _ blive] ws(2) by metis
  note E = enteredD [OF e(2)]
  let ?st = "st3\<lparr>ra_live_ins := live_in # ra_live_ins st3\<rparr>"
  have a: "alloc_ins (ctx_of xs lr) (i, xs ! i) st = Inr ?st"
    using u(1,2) n(1) vs(1) e(1) i(2) np by (simp add: alloc_ins_def alloc_local_def enter_loop_def leave_loop_def)
  have cb: "?c \<in> busy xs i" using D by (simp add: busy_def)
  have lc: "live_map st2 ?c = Some r0" by (simp add: L2 put_def)
  have clear_c: "clear_of ld2 ?c r0" unfolding clear_of_def using E(10) [OF cb lc] by blast
  have o2: "live_map st2 v = Some r" "live_map st3 v = Some r" "clear_of ld2 v r"
    if v: "v \<in> set (operands (xs ! i))" "live_map st1 v = Some r" for v r
  proof -
    have vb: "v \<in> busy xs i" using v(1) by (simp add: busy_def)
    have "r \<noteq> r0" using u(8) i(2) ds vb v(2) by auto
    moreover have "v \<noteq> ?c" using operand_not_def [OF wf i(1) v(1)] D by auto
    ultimately show l2: "live_map st2 v = Some r" using v(2) by (simp add: L2 put_def)
    show "live_map st3 v = Some r" by (rule E(9) [OF vb l2])
    show "clear_of ld2 v r" unfolding clear_of_def using E(10) [OF vb l2] by blast
  qed
  have reals: "ra_reals st3 = ra_reals st2" and eff: "effect xs i st2 st3 ld2" using E(1,2) by simp_all
  have "moves_ok xs i st ?st ld1 ds ld2"
  proof -
    have "\<forall>v \<in> set (operands (xs ! i)). \<exists>r. puts ld1 (live_map st) v = Some r \<and> map_of (ra_reals ?st) (i, v) = Some r \<and> clear_of ld2 v r"
    proof
      fix v assume v: "v \<in> set (operands (xs ! i))"
      obtain r where r: "puts ld1 (live_map st) v = Some r" "map_of (ra_reals st2) (i, v) = Some r"
        using m1 v unfolding moves_ok_def by blast
      have "live_map st1 v = Some r" using r(1) u(3) by (simp add: effect_def)
      then show "\<exists>r. puts ld1 (live_map st) v = Some r \<and> map_of (ra_reals ?st) (i, v) = Some r \<and> clear_of ld2 v r"
        using r reals o2(3) [OF v] by auto
    qed
    moreover have "\<forall>(v, r) \<in> set ds. map_of (ra_reals ?st) (i, v) = Some r \<and> clear_of ld2 v r"
      using m1 ds reals clear_c by (simp add: moves_ok_def)
    moreover have "def_apart (xs ! i) (\<lambda>v. map_of (ra_reals ?st) (i, v)) ds" using m1 reals by (simp add: moves_ok_def)
    ultimately show ?thesis using m1 eff unfolding moves_ok_def effect_def by (auto intro: map_le_trans)
  qed
  moreover have "fst ` set (ld1 @ ld2) \<subseteq> set (all_defs (take i xs))"
  proof
    fix v assume "v \<in> fst ` set (ld1 @ ld2)"
    then consider "v \<in> fst ` set ld1" | "v \<in> fst ` set ld2" by auto
    then show "v \<in> set (all_defs (take i xs))"
    proof cases
      case 1
      then show ?thesis using u(5) operand_known(2) [OF wf i(1)] by blast
    next
      case 2
      then have "v \<noteq> ?c" using clear_c by (auto simp: clear_of_def)
      moreover have "v \<in> set (all_defs (take (Suc i) xs))" using 2 E(11) vs(3) known2 unfolding known_before_def by blast
      ultimately show ?thesis unfolding all_defs_take_Suc [OF i(1)] using D by simp
    qed
  qed
  moreover have "good_state xs ?st" using effect_good [OF eff] by (simp add: good_state_def)
  moreover have "loops_ok xs i st ?st"
  proof -
    have "ra_live_ins st3 = ra_live_ins st" using eff u(3,4) by (simp add: effect_def def_effect_def)
    moreover have "recorded xs i live_in (live_map st3)" by (rule recorded_ok [OF wf lr i e(2) lc n(3,2) vs(3) known2])
    moreover have "live_map st3 v = map_of (ra_reals st3) (i, v)" if v: "v \<in> set (operands (xs ! i))" for v
    proof -
      obtain r where "puts ld1 (live_map st) v = Some r" "map_of (ra_reals st2) (i, v) = Some r"
        using m1 v unfolding moves_ok_def by blast
      then show ?thesis using o2(2) [OF v] u(3) reals by (simp add: effect_def)
    qed
    ultimately show ?thesis using i(2) by (simp add: loops_ok_def)
  qed
  moreover have "map_of (ra_reals ?st) (k, v) = map_of (ra_reals st) (k, v)"
    if "k \<noteq> i \<or> in_pseudo (xs ! i) \<or> in_op (xs ! i) = ''END''" for k v
    using effects_reals [OF u(3,4), of k v] that np ne reals by simp
  moreover have "ra_locals ?st = ra_locals st" using eff u(3,4) by (simp add: effect_def def_effect_def)
  ultimately have "step_ok xs i st ?st" using i(2) by (intro step_okI) simp_all
  then show ?thesis using a by blast
qed

section \<open>The end of a loop\<close>

lemma end_loop:
  assumes wf: "well_formed xs" and i: "i < length xs" "in_op (xs ! i) = ''END''"
  shows "\<exists>l ls. open_loops xs i = Some (l # ls) \<and> live_at (xs ! i) = [loop_reg (xs ! l)] \<and> reads (xs ! i) = [loop_reg (xs ! l)] \<and> in_defs (xs ! i) = []"
proof -
  have "\<forall>i < length xs. in_op (xs ! i) = ''END'' \<longrightarrow> in_defs (xs ! i) = []
      \<and> (case open_loops xs i of Some (l # ls) \<Rightarrow> live_at (xs ! i) = [loop_reg (xs ! l)] \<and> reads (xs ! i) = [loop_reg (xs ! l)] | _ \<Rightarrow> False)"
    using wf_program(1) [OF wf] unfolding structured_def by (elim conjE)
  from this [rule_format, OF i] show ?thesis by (cases "open_loops xs i"; cases "the (open_loops xs i)"; force)
qed

lemma step_end:
  assumes wf: "well_formed xs" and lr: "all_ranges xs lr" and i: "i < length xs" "in_op (xs ! i) = ''END''"
    and g: "good_state xs st" and live_ins: "ra_live_ins st = live_in # rest" and rec: "recorded xs l live_in L" and l: "l < i"
  shows "\<exists>st'. alloc_ins (ctx_of xs lr) (i, xs ! i) st = Inr st' \<and> step_ok xs i st st'"
proof -
  have np: "\<not> in_pseudo (xs ! i)" using i(2) pseudo_facts by auto
  have D: "in_defs (xs ! i) = []" using wf_program(1) [OF wf] i unfolding structured_def by simp
  let ?st = "st\<lparr>ra_live_ins := rest\<rparr>"
  have g1: "good_state xs ?st" using g by (simp add: good_state_def)
  have li1: "distinct (map fst live_in)" using rec unfolding recorded_def by (elim conjE)
  have "\<forall>(v, r) \<in> set live_in. v \<in> set (all_defs (take (Suc l) xs)) \<and> r \<in> set (cons_of v)"
    using rec unfolding recorded_def by (elim conjE)
  then have li2: "v \<in> set (all_defs (take (Suc l) xs)) \<and> r \<in> set (cons_of v)" if "(v, r) \<in> set live_in" for v r using that by fast
  note li = li1 li2
  have "\<forall>(v, r) \<in> set live_in. v \<in> set (all_defs xs) \<and> r \<in> set (cons_of v)" using li(2) all_defs_take by blast
  then obtain st' ld where s: "rfold (restore_value (ctx_of xs lr) i) live_in ?st = Inr st'" "effect xs i ?st st' ld" "ra_reals st' = ra_reals ?st"
      "fst ` set ld \<subseteq> fst ` set live_in" "settled live_in (live_map st')"
    using restores_ok [OF wf lr g1 _ li(1), of i] by blast
  have a: "alloc_ins (ctx_of xs lr) (i, xs ! i) st = Inr st'"
    using i(2) np D live_ins s(1) by (simp add: alloc_ins_def alloc_local_def enter_loop_def leave_loop_def)
  have "moves_ok xs i st st' ld [] []"
    using s(2) D i(2) by (simp add: moves_ok_def effect_def defs_at_def operands_def)
  moreover have "fst ` set (ld @ []) \<subseteq> set (all_defs (take i xs))"
  proof
    fix v assume "v \<in> fst ` set (ld @ [])"
    then obtain r where "(v, r) \<in> set live_in" using s(4) by auto
    then show "v \<in> set (all_defs (take i xs))" using li(2) all_defs_take_mono [of "Suc l" i xs] l by auto
  qed
  moreover have "loops_ok xs i st st'"
    unfolding loops_ok_def using s(2,5) i(2) live_ins by (auto simp: effect_def)
  moreover have "ra_locals st' = ra_locals st" using s(2) by (simp add: effect_def)
  ultimately have "step_ok xs i st st'" using effect_good [OF s(2)] s(3) i(2) by (intro step_okI) auto
  then show ?thesis using a by blast
qed

section \<open>The whole pass\<close>

definition state_at :: "ins list \<Rightarrow> ranges \<Rightarrow> nat \<Rightarrow> ralloc" where
  "state_at xs lr i = (case rfold (alloc_ins (ctx_of xs lr)) (enumerate 0 (take i xs)) empty_ralloc of Inr st \<Rightarrow> st | Inl _ \<Rightarrow> empty_ralloc)"

definition live_in_of :: "ins list \<Rightarrow> ranges \<Rightarrow> nat \<Rightarrow> (register, register) dict" where
  "live_in_of xs lr l = hd (ra_live_ins (state_at xs lr (Suc l)))"

definition run_inv :: "ins list \<Rightarrow> ranges \<Rightarrow> nat \<Rightarrow> bool" where
  "run_inv xs lr i \<longleftrightarrow> rfold (alloc_ins (ctx_of xs lr)) (enumerate 0 (take i xs)) empty_ralloc = Inr (state_at xs lr i)
     \<and> good_state xs (state_at xs lr i) \<and> known_before xs i (state_at xs lr i)
     \<and> (\<exists>ls. open_loops xs i = Some ls \<and> ra_live_ins (state_at xs lr i) = map (live_in_of xs lr) ls)
     \<and> (\<forall>l < i. step_ok xs l (state_at xs lr l) (state_at xs lr (Suc l)))
     \<and> (\<forall>k v. i \<le> k \<longrightarrow> map_of (ra_reals (state_at xs lr i)) (k, v) = None)"

lemma run_invD:
  assumes "run_inv xs lr i"
  shows "rfold (alloc_ins (ctx_of xs lr)) (enumerate 0 (take i xs)) empty_ralloc = Inr (state_at xs lr i)"
    "good_state xs (state_at xs lr i)" "known_before xs i (state_at xs lr i)"
    "\<exists>ls. open_loops xs i = Some ls \<and> ra_live_ins (state_at xs lr i) = map (live_in_of xs lr) ls"
    "\<And>l. l < i \<Longrightarrow> step_ok xs l (state_at xs lr l) (state_at xs lr (Suc l))"
    "\<And>k v. i \<le> k \<Longrightarrow> map_of (ra_reals (state_at xs lr i)) (k, v) = None"
  using assms by (simp_all add: run_inv_def)

lemma recorded_at:
  assumes s: "step_ok xs l (state_at xs lr l) (state_at xs lr (Suc l))" and l: "in_op (xs ! l) = ''RANGE''"
  shows "recorded xs l (live_in_of xs lr l) (live_map (state_at xs lr (Suc l)))"
    and "ra_live_ins (state_at xs lr (Suc l)) = live_in_of xs lr l # ra_live_ins (state_at xs lr l)"
  using assms unfolding step_ok_def loops_ok_def live_in_of_def by auto

lemma run_step:
  assumes wf: "well_formed xs" and lr: "all_ranges xs lr" and i: "i < length xs" and inv: "run_inv xs lr i"
  shows "\<exists>st'. alloc_ins (ctx_of xs lr) (i, xs ! i) (state_at xs lr i) = Inr st' \<and> step_ok xs i (state_at xs lr i) st'"
proof -
  let ?st = "state_at xs lr i"
  have g: "good_state xs ?st" and k: "known_before xs i ?st" by (rule run_invD(2) [OF inv], rule run_invD(3) [OF inv])
  consider "in_pseudo (xs ! i)" | "in_op (xs ! i) = ''RANGE''" | "in_op (xs ! i) = ''END''"
    | "\<not> in_pseudo (xs ! i)" "in_op (xs ! i) \<noteq> ''END''" "in_op (xs ! i) \<noteq> ''RANGE''" by blast
  then show ?thesis
  proof cases
    case 1
    then show ?thesis using step_pseudo [OF g] by blast
  next
    case 2
    then show ?thesis using step_range [OF wf lr i _ g k] by blast
  next
    case 3
    obtain ls where ls: "open_loops xs i = Some ls" "ra_live_ins ?st = map (live_in_of xs lr) ls" using run_invD(4) [OF inv] by blast
    moreover from end_loop [OF wf i 3] obtain l ls' where l: "open_loops xs i = Some (l # ls')" by blast
    ultimately have l: "ls = l # ls'" by simp
    then have h: "l < i" "in_op (xs ! l) = ''RANGE''" using open_loops_head [of xs i l ls'] ls(1) by simp_all
    have "step_ok xs l (state_at xs lr l) (state_at xs lr (Suc l))" by (rule run_invD(5) [OF inv h(1)])
    from recorded_at(1) [OF this h(2)] show ?thesis by (intro step_end [OF wf lr i 3 g _ _ h(1)]) (simp add: ls(2) l)
  next
    case 4
    then show ?thesis using step_plain [OF wf lr i _ _ _ g k] by blast
  qed
qed

lemma run_inv_Suc:
  assumes wf: "well_formed xs" and lr: "all_ranges xs lr" and i: "i < length xs" and inv: "run_inv xs lr i"
  shows "run_inv xs lr (Suc i)"
proof -
  let ?S = "state_at xs lr"
  obtain st' where s: "alloc_ins (ctx_of xs lr) (i, xs ! i) (?S i) = Inr st'" "step_ok xs i (?S i) st'"
    using run_step [OF assms] by blast
  have r: "rfold (alloc_ins (ctx_of xs lr)) (enumerate 0 (take i xs)) empty_ralloc = Inr (?S i)" and k: "known_before xs i (?S i)"
    and old: "\<And>l. l < i \<Longrightarrow> step_ok xs l (?S l) (?S (Suc l))" and none: "\<And>k v. i \<le> k \<Longrightarrow> map_of (ra_reals (?S i)) (k, v) = None"
    by (rule run_invD [OF inv]; assumption)+
  have r': "rfold (alloc_ins (ctx_of xs lr)) (enumerate 0 (take (Suc i) xs)) empty_ralloc = Inr st'"
    using r s(1) i by (simp add: take_Suc_conv_app_nth enumerate_append_eq rfold_append)
  then have st': "?S (Suc i) = st'" by (simp add: state_at_def)
  have step: "step_ok xs i (?S i) (?S (Suc i))" using s(2) st' by simp
  obtain ls where ls: "open_loops xs i = Some ls" "ra_live_ins (?S i) = map (live_in_of xs lr) ls" using run_invD(4) [OF inv] by blast
  have "\<exists>ls'. open_loops xs (Suc i) = Some ls' \<and> ra_live_ins (?S (Suc i)) = map (live_in_of xs lr) ls'"
  proof (cases "in_op (xs ! i) = ''RANGE''")
    case True
    then show ?thesis using recorded_at(2) [OF step True] ls by simp
  next
    case F: False
    show ?thesis
    proof (cases "in_op (xs ! i) = ''END''")
      case True
      then obtain live_in where "ra_live_ins (?S i) = live_in # ra_live_ins (?S (Suc i))" using step F unfolding step_ok_def loops_ok_def by auto
      then show ?thesis using True F ls by (cases ls) auto
    next
      case False
      then show ?thesis using step F ls unfolding step_ok_def loops_ok_def by simp
    qed
  qed
  moreover have "step_ok xs l (?S l) (?S (Suc l))" if "l < Suc i" for l
    using that old step by (cases "l = i") auto
  moreover have "map_of (ra_reals (?S (Suc i))) (k, v) = None" if "Suc i \<le> k" for k v
    using step none [of k v] that unfolding step_ok_def by auto
  moreover have "good_state xs (?S (Suc i))" using step by (simp add: step_ok_def)
  ultimately show ?thesis using known_step [OF step k i] r' st' unfolding run_inv_def by blast
qed

lemma run_inv_all:
  assumes wf: "well_formed xs" and lr: "all_ranges xs lr"
  shows "i \<le> length xs \<Longrightarrow> run_inv xs lr i"
proof (induction i)
  case 0
  have "good_state xs empty_ralloc" by (simp add: good_state_def empty_ralloc_def frame_empty)
  then show ?case by (simp add: run_inv_def state_at_def known_before_def) (simp add: empty_ralloc_def)
next
  case (Suc i)
  then show ?case using run_inv_Suc [OF wf lr] by simp
qed

lemma linear_scan_ok:
  assumes wf: "well_formed xs"
  shows "\<exists>lr. live_ranges xs = Inr lr \<and> all_ranges xs lr \<and> linear_scan xs = Inr (state_at xs lr (length xs))"
proof -
  obtain lr where lr: "live_ranges xs = Inr lr" "all_ranges xs lr" using live_ranges_ok [OF wf] by blast
  have "run_inv xs lr (length xs)" by (rule run_inv_all [OF wf lr(2)]) simp
  then show ?thesis using lr by (auto simp: linear_scan_def run_inv_def ctx_of_def)
qed

end
