(* ===== verification/RegallocMachine.thy ===== *)
theory RegallocMachine
  imports RegallocCode RegallocRun
begin

text \<open>
  Two machines.  The virtual machine runs the program on its virtual registers; the physical machine runs the
  rewritten code on physical registers and stack slots.  What an instruction computes is a parameter: any
  function of all that was read so far, so memory and other effects are included.  A run follows a path of
  instruction numbers, which at an \<open>END\<close> either goes on or returns to the head of the loop, where the counter
  has its next value and is compared with the sources of the \<open>RANGE\<close>, and the spills that follow it are executed
  again.  It stops at the \<open>SINK\<close>.
\<close>

type_synonym 'a trace = "(nat \<times> 'a list) list"

definition succ_of :: "ins list \<Rightarrow> nat \<Rightarrow> nat \<Rightarrow> bool" where
  "succ_of xs i j \<longleftrightarrow> j = Suc i \<or> in_op (xs ! i) = ''END'' \<and> (case open_loops xs i of Some (l # ls) \<Rightarrow> j = Suc l | _ \<Rightarrow> False)"

fun path_from :: "ins list \<Rightarrow> nat \<Rightarrow> nat list \<Rightarrow> bool" where
  "path_from xs i [] = True"
| "path_from xs i (j # ps) = (i = j \<and> i < length xs \<and> in_op (xs ! i) \<noteq> ''SINK'' \<and> (case ps of [] \<Rightarrow> True | k # _ \<Rightarrow> succ_of xs i k \<and> path_from xs k ps))"

section \<open>The program on virtual registers\<close>

definition write_all :: "('a trace \<Rightarrow> nat \<Rightarrow> 'a) \<Rightarrow> 'a trace \<Rightarrow> register list \<Rightarrow> (register \<Rightarrow> 'a) \<Rightarrow> register \<Rightarrow> 'a" where
  "write_all f tr rs V = fold (\<lambda>(k, r) V. V(r := f tr k)) (enumerate 0 rs) V"

definition virtual_exec :: "('a trace \<Rightarrow> nat \<Rightarrow> 'a) \<Rightarrow> ins list \<Rightarrow> nat \<Rightarrow> 'a trace \<times> (register \<Rightarrow> 'a) \<Rightarrow> 'a trace \<times> (register \<Rightarrow> 'a)" where
  "virtual_exec f xs i = (\<lambda>(tr, V). if in_pseudo (xs ! i) then (tr, V)
     else let tr = tr @ [(i, map V (reads (xs ! i)))] in (tr, write_all f tr (defs_at (xs ! i)) V))"

definition virtual_jump :: "('a trace \<Rightarrow> 'a) \<Rightarrow> ins list \<Rightarrow> nat \<Rightarrow> nat \<Rightarrow> 'a trace \<times> (register \<Rightarrow> 'a) \<Rightarrow> 'a trace \<times> (register \<Rightarrow> 'a)" where
  "virtual_jump g xs i j = (\<lambda>(tr, V). if j = Suc i then (tr, V) else
     let x = xs ! (j - 1); V = V(loop_reg x := g tr) in (tr @ [(j - 1, map V (loop_reg x # reads x))], V))"

fun virtual_run :: "('a trace \<Rightarrow> nat \<Rightarrow> 'a) \<Rightarrow> ('a trace \<Rightarrow> 'a) \<Rightarrow> ins list \<Rightarrow> nat list \<Rightarrow> 'a trace \<times> (register \<Rightarrow> 'a) \<Rightarrow> 'a trace \<times> (register \<Rightarrow> 'a)" where
  "virtual_run f g xs [] s = s"
| "virtual_run f g xs (i # ps) s = virtual_run f g xs ps
     (case ps of [] \<Rightarrow> virtual_exec f xs i s | j # _ \<Rightarrow> virtual_jump g xs i j (virtual_exec f xs i s))"

section \<open>The code on physical registers\<close>

record 'a machine =
  m_trace :: "'a trace"
  m_regs :: "register \<Rightarrow> 'a"
  m_sp :: int
  m_stack :: "int \<Rightarrow> 'a"

text \<open>The sources that the lowered instruction reads; those of an \<open>END\<close> other than its loop are not operands.\<close>

definition read_regs :: "ins \<Rightarrow> register option list \<Rightarrow> register list" where
  "read_regs x srcs = List.map_filter (\<lambda>(s, r). case s of None \<Rightarrow> None
     | Some v \<Rightarrow> if r_fixed v \<or> in_op x = ''END'' \<and> Some v \<notin> set (in_live x) then None else r) (zip (in_srcs x) srcs)"

text \<open>A two-address instruction works on the register of its definition: when the first source is in another
  register, or is not in a register at all, it is copied there before the instruction reads.\<close>

definition copied :: "('a trace \<Rightarrow> nat \<Rightarrow> 'a) \<Rightarrow> 'a trace \<Rightarrow> ins \<Rightarrow> register option list \<Rightarrow> register list \<Rightarrow> (register \<Rightarrow> 'a)
    \<Rightarrow> register option list \<times> (register \<Rightarrow> 'a)" where
  "copied f tr x srcs defs R = (case (srcs, defs) of
       (s # ss, d # ds) \<Rightarrow> if in_two_address x then (Some d # ss, R(d := (case s of Some r \<Rightarrow> R r | None \<Rightarrow> f tr 0))) else (srcs, R)
     | _ \<Rightarrow> (srcs, R))"

fun emit_exec :: "('a trace \<Rightarrow> nat \<Rightarrow> 'a) \<Rightarrow> ins list \<Rightarrow> emit \<Rightarrow> 'a machine \<Rightarrow> 'a machine" where
  "emit_exec f xs (Fill off r) m = m\<lparr>m_regs := (m_regs m)(r := m_stack m (m_sp m + off))\<rparr>"
| "emit_exec f xs (Spill off r) m = m\<lparr>m_stack := (m_stack m)(m_sp m + off := m_regs m r)\<rparr>"
| "emit_exec f xs (Again k srcs r) m = m\<lparr>m_regs := (m_regs m)(r := f [(k, map (m_regs m) (read_regs (xs ! k) srcs))] 0)\<rparr>"
| "emit_exec f xs (PushFrame n) m = m\<lparr>m_sp := m_sp m - n\<rparr>"
| "emit_exec f xs (PopFrame n) m = m\<lparr>m_sp := m_sp m + n\<rparr>"
| "emit_exec f xs (Instr i srcs defs) m =
     (let (srcs, R) = copied f (m_trace m) (xs ! i) srcs defs (m_regs m); tr = m_trace m @ [(i, map R (read_regs (xs ! i) srcs))]
      in m\<lparr>m_trace := tr, m_regs := write_all f tr defs R\<rparr>)"
| "emit_exec f xs (Frame i off defs) m =
     (let tr = m_trace m @ [(i, [])] in m\<lparr>m_trace := tr, m_regs := write_all f tr defs (m_regs m)\<rparr>)"

type_synonym block = "emit list \<times> emit list \<times> emit list"

definition physical_exec :: "('a trace \<Rightarrow> nat \<Rightarrow> 'a) \<Rightarrow> ins list \<Rightarrow> block list \<Rightarrow> nat \<Rightarrow> 'a machine \<Rightarrow> 'a machine" where
  "physical_exec f xs code i m = (case code ! i of (before, main, after) \<Rightarrow> fold (emit_exec f xs) (before @ main @ after) m)"

text \<open>The lowered \<open>END\<close> advances the register of its loop and goes back to the label in the lowered \<open>RANGE\<close>, where the
  counter is compared with the bound again.\<close>

definition physical_jump :: "('a trace \<Rightarrow> nat \<Rightarrow> 'a) \<Rightarrow> ('a trace \<Rightarrow> 'a) \<Rightarrow> ins list \<Rightarrow> block list \<Rightarrow> nat \<Rightarrow> nat \<Rightarrow> 'a machine \<Rightarrow> 'a machine" where
  "physical_jump f g xs code i j m = (if j = Suc i then m else
     (case (code ! i, code ! (j - 1)) of ((_, main, _), (_, start, after)) \<Rightarrow>
       (case (main, start) of ([Instr k srcs defs], [Instr l bounds counter]) \<Rightarrow>
          let m = m\<lparr>m_regs := (m_regs m)(hd (read_regs (xs ! i) srcs) := g (m_trace m))\<rparr> in
          fold (emit_exec f xs) after (m\<lparr>m_trace := m_trace m @ [(l, map (m_regs m) (counter @ read_regs (xs ! l) bounds))]\<rparr>)
        | _ \<Rightarrow> m)))"

fun physical_run :: "('a trace \<Rightarrow> nat \<Rightarrow> 'a) \<Rightarrow> ('a trace \<Rightarrow> 'a) \<Rightarrow> ins list \<Rightarrow> block list \<Rightarrow> nat list \<Rightarrow> 'a machine \<Rightarrow> 'a machine" where
  "physical_run f g xs code [] m = m"
| "physical_run f g xs code (i # ps) m = physical_run f g xs code ps
     (case ps of [] \<Rightarrow> physical_exec f xs code i m | j # _ \<Rightarrow> physical_jump f g xs code i j (physical_exec f xs code i m))"

section \<open>What the final state says of an instruction\<close>

abbreviation final_at :: "ins list \<Rightarrow> ranges \<Rightarrow> ralloc" where
  "final_at xs lr \<equiv> state_at xs lr (length xs)"

lemma steps:
  assumes wf: "well_formed xs" and lr: "all_ranges xs lr" and i: "i < length xs"
  shows "step_ok xs i (state_at xs lr i) (state_at xs lr (Suc i))"
  by (rule run_invD(5) [OF run_inv_all [OF wf lr, of "length xs"] i]) simp

lemma good_at: "well_formed xs \<Longrightarrow> all_ranges xs lr \<Longrightarrow> i \<le> length xs \<Longrightarrow> good_state xs (state_at xs lr i)"
  by (rule run_invD(2) [OF run_inv_all])

lemma known_at: "well_formed xs \<Longrightarrow> all_ranges xs lr \<Longrightarrow> i \<le> length xs \<Longrightarrow> known_before xs i (state_at xs lr i)"
  by (rule run_invD(3) [OF run_inv_all])

lemma reals_final:
  assumes wf: "well_formed xs" and lr: "all_ranges xs lr" and i: "i < j"
  shows "j \<le> length xs \<Longrightarrow> map_of (ra_reals (state_at xs lr j)) (i, v) = map_of (ra_reals (state_at xs lr (Suc i))) (i, v)"
  using i
proof (induction j)
  case (Suc j)
  show ?case
  proof (cases "i = j")
    case False
    have "map_of (ra_reals (state_at xs lr (Suc j))) (i, v) = map_of (ra_reals (state_at xs lr j)) (i, v)"
      using steps [OF wf lr, of j] Suc.prems(1) False unfolding step_ok_def by auto
    then show ?thesis using Suc False by simp
  qed simp
qed simp

lemma spills_final:
  assumes wf: "well_formed xs" and lr: "all_ranges xs lr" and i: "i \<le> j"
  shows "j \<le> length xs \<Longrightarrow> map_of (ra_spills (state_at xs lr i)) \<subseteq>\<^sub>m map_of (ra_spills (state_at xs lr j))"
  using i
proof (induction j)
  case (Suc j)
  show ?case
  proof (cases "i = Suc j")
    case False
    have "map_of (ra_spills (state_at xs lr j)) \<subseteq>\<^sub>m map_of (ra_spills (state_at xs lr (Suc j)))"
      using steps [OF wf lr, of j] Suc.prems(1) unfolding step_ok_def moves_ok_def by auto
    moreover have "map_of (ra_spills (state_at xs lr i)) \<subseteq>\<^sub>m map_of (ra_spills (state_at xs lr j))" using Suc False by simp
    ultimately show ?thesis by (rule map_le_trans [rotated])
  qed simp
qed simp

lemma before_final:
  assumes wf: "well_formed xs" and lr: "all_ranges xs lr"
    and m: "moves_ok xs i (state_at xs lr i) (state_at xs lr (Suc i)) ld1 ds ld2"
  shows "j \<le> length xs \<Longrightarrow> (i < j \<longrightarrow> filter (\<lambda>e. fst e = i) (ra_before (state_at xs lr j)) = map (\<lambda>(v, r). (i, v, r)) (ld1 @ ld2))
    \<and> (j \<le> i \<longrightarrow> filter (\<lambda>e. fst e = i) (ra_before (state_at xs lr j)) = [])"
proof (induction j)
  case 0
  then show ?case by (simp add: state_at_def empty_ralloc_def)
next
  case (Suc j)
  have here: "filter (\<lambda>e. fst e = k) (map (\<lambda>(v, r). (k', v, r)) l) = (if k = k' then map (\<lambda>(v, r). (k', v, r)) l else [])"
    for k k' :: nat and l :: "(register \<times> register) list" by (induction l) auto
  show ?case
  proof (cases "j = i")
    case True
    then show ?thesis using Suc m by (simp add: moves_ok_def here del: map_append)
  next
    case False
    obtain a b c where "moves_ok xs j (state_at xs lr j) (state_at xs lr (Suc j)) a b c"
      using steps [OF wf lr, of j] Suc.prems unfolding step_ok_def by auto
    then show ?thesis using Suc False by (auto simp: moves_ok_def here simp del: map_append)
  qed
qed

end
