(* ===== verification/RegallocBlocks.thy ===== *)
theory RegallocBlocks
  imports RegallocMachine
begin

text \<open>What the code emitted for one instruction of a well-formed program is.\<close>

lemma puts_notin: "v \<notin> fst ` set ld \<Longrightarrow> puts ld L v = Some r \<Longrightarrow> L v = Some r"
proof (induction ld arbitrary: L)
  case (Cons p ld)
  obtain w s where p: "p = (w, s)" by (cases p)
  have "put w s L v = Some r" using Cons p by (simp add: puts_def)
  then show ?case using Cons.prems(1) p by (simp add: put_def split: if_splits)
qed simp

lemma puts_clear: "clear_of ld v r \<Longrightarrow> L v = Some r \<Longrightarrow> puts ld L v = Some r"
proof (induction ld arbitrary: L)
  case (Cons p ld)
  obtain w s where p: "p = (w, s)" by (cases p)
  have "put w s L v = Some r" using Cons.prems p by (auto simp: clear_of_def put_def)
  moreover have "clear_of ld v r" using Cons.prems(1) by (simp add: clear_of_def)
  ultimately show ?case using Cons.IH p by (simp add: puts_def)
qed simp

lemma moves_at:
  assumes wf: "well_formed xs" and lr: "all_ranges xs lr" and i: "i < length xs"
  shows "\<exists>ld1 ds ld2. moves_ok xs i (state_at xs lr i) (state_at xs lr (Suc i)) ld1 ds ld2
    \<and> fst ` set (ld1 @ ld2) \<subseteq> set (all_defs (take i xs)) \<and> length ds \<le> 1"
proof -
  obtain ld1 ds ld2 where m: "moves_ok xs i (state_at xs lr i) (state_at xs lr (Suc i)) ld1 ds ld2"
      "fst ` set (ld1 @ ld2) \<subseteq> set (all_defs (take i xs))"
    using steps [OF assms] unfolding step_ok_def by blast
  have "map fst ds = defs_at (xs ! i)" using m(1) by (simp add: moves_ok_def)
  then have "length ds \<le> 1" using wf_program(7) [OF wf i] by (metis length_map)
  then show ?thesis using m by blast
qed

lemma moves_okD:
  assumes "moves_ok xs i st st' ld1 ds ld2"
  shows "live_map st' = puts ld2 (puts ds (puts ld1 (live_map st)))"
    "dom (map_of (ra_spills st')) = dom (map_of (ra_spills st)) \<union> fst ` set (ld1 @ ld2)"
    "map fst ds = defs_at (xs ! i)"
    "\<And>v r. (v, r) \<in> set ds \<Longrightarrow> map_of (ra_reals st') (i, v) = Some r \<and> clear_of ld2 v r"
    "\<And>v. v \<in> set (operands (xs ! i)) \<Longrightarrow> \<exists>r. puts ld1 (live_map st) v = Some r \<and> map_of (ra_reals st') (i, v) = Some r \<and> clear_of ld2 v r"
  using assms unfolding moves_ok_def by (elim conjE; blast)+

lemma def_real:
  assumes wf: "well_formed xs" and lr: "all_ranges xs lr" and d: "d < length xs" "v \<in> set (defs_at (xs ! d))"
  shows "\<exists>r. live_map (state_at xs lr (Suc d)) v = Some r \<and> map_of (ra_reals (final_at xs lr)) (d, v) = Some r"
proof -
  obtain ld1 ds ld2 where m: "moves_ok xs d (state_at xs lr d) (state_at xs lr (Suc d)) ld1 ds ld2" "length ds \<le> 1"
    using moves_at [OF wf lr d(1)] by blast
  note M = moves_okD [OF m(1)]
  have "v \<in> set (map fst ds)" using M(3) d(2) by simp
  then obtain r where ds: "ds = [(v, r)]" using m(2) by (cases ds) auto
  have "map_of (ra_reals (state_at xs lr (Suc d))) (d, v) = Some r" "clear_of ld2 v r" using M(4) ds by auto
  moreover have "live_map (state_at xs lr (Suc d)) v = Some r"
    unfolding M(1) by (rule puts_clear [OF calculation(2)]) (simp add: ds put_def)
  ultimately show ?thesis using reals_final [OF wf lr d(1) order_refl, of v] by auto
qed

text \<open>A value that has not been spilled is still where its definition put it.\<close>

lemma unspilled_home:
  assumes wf: "well_formed xs" and lr: "all_ranges xs lr" and d: "d < length xs" "v \<in> set (defs_at (xs ! d))"
  shows "j \<le> length xs \<Longrightarrow> live_map (state_at xs lr j) v = Some r \<Longrightarrow> map_of (ra_spills (state_at xs lr j)) v = None \<Longrightarrow>
    map_of (ra_reals (final_at xs lr)) (d, v) = Some r"
proof (induction j)
  case 0
  then show ?case by (simp add: state_at_def empty_ralloc_def)
next
  case (Suc j)
  then have j: "j < length xs" by simp
  obtain ld1 ds ld2 where m: "moves_ok xs j (state_at xs lr j) (state_at xs lr (Suc j)) ld1 ds ld2"
    using moves_at [OF wf lr j] by blast
  note M = moves_okD [OF m]
  show ?case
  proof (cases "v \<in> set (defs_at (xs ! j))")
    case True
    then have "d = j" using def_unique [OF wf_program(2) [OF wf] d(1) j d(2)] by simp
    then show ?thesis using def_real [OF wf lr d] Suc.prems(2) by auto
  next
    case False
    have "v \<notin> dom (map_of (ra_spills (state_at xs lr (Suc j))))" using Suc.prems(3) by auto
    then have n: "v \<notin> fst ` set (ld1 @ ld2)" "v \<notin> dom (map_of (ra_spills (state_at xs lr j)))" using M(2) by blast+
    moreover have "v \<notin> fst ` set ds" using False M(3) by (metis set_map)
    ultimately have "v \<notin> fst ` set (ld1 @ ds @ ld2)" by auto
    moreover have "puts (ld1 @ ds @ ld2) (live_map (state_at xs lr j)) v = Some r" using Suc.prems(2) M(1) by (simp add: puts_append)
    ultimately have "live_map (state_at xs lr j) v = Some r" by (rule puts_notin)
    then show ?thesis using Suc.IH j n(2) by (auto simp: domIff)
  qed
qed

section \<open>Operands\<close>

lemma def_index_ok:
  assumes wf: "well_formed xs" and lr: "all_ranges xs lr" and d: "d < length xs" "v \<in> set (defs_at (xs ! d))"
  shows "def_index (ctx_of xs lr) v = Inr d"
  using range_starts [OF assms] by (auto simp: def_index_def ctx_of_def dget_def lget_def)

lemma no_remats: "good_state xs st \<Longrightarrow> ra_remats st = [] \<and> ra_remat_before st = []"
  by (simp add: good_state_def)

lemma has_realI: "map_of (ra_reals st) (i, v) = Some r \<Longrightarrow> has_real st i"
  by (force simp: list_ex_iff dest: map_of_SomeD)

lemma has_no_real: "(\<And>v. map_of (ra_reals st) (i, v) = None) \<Longrightarrow> \<not> has_real st i"
  by (force simp: list_ex_iff map_of_eq_None_iff)

lemma operand_read:
  assumes wf: "well_formed xs" and lr: "all_ranges xs lr" and i: "i < length xs"
    and m: "moves_ok xs i (state_at xs lr i) (state_at xs lr (Suc i)) ld1 ds ld2" and v: "v \<in> set (operands (xs ! i))"
  shows "\<exists>r. puts ld1 (live_map (state_at xs lr i)) v = Some r \<and> clear_of ld2 v r
    \<and> operand (ctx_of xs lr) (final_at xs lr) i (Some v) = Inr ([], Some r)"
proof -
  let ?fin = "final_at xs lr"
  note M = moves_okD [OF m]
  obtain r where r: "puts ld1 (live_map (state_at xs lr i)) v = Some r" "map_of (ra_reals (state_at xs lr (Suc i))) (i, v) = Some r"
      "clear_of ld2 v r" using M(5) [OF v] by blast
  have real: "map_of (ra_reals ?fin) (i, v) = Some r" using reals_final [OF wf lr i order_refl, of v] r(2) by simp
  have k: "v \<in> set (all_defs (take i xs))" by (rule operand_known(2) [OF wf i v])
  then have vd: "v \<in> set (all_defs xs)" by (rule all_defs_take)
  then have fixed: "\<not> r_fixed v" using wf_program(3) [OF wf] by blast
  obtain d where d: "d < length xs" "v \<in> set (defs_at (xs ! d))" using all_defsD [OF vd] by blast
  have remats: "ra_remats ?fin = []" using no_remats [OF good_at [OF wf lr order_refl]] by simp
  have "operand (ctx_of xs lr) ?fin i (Some v) = Inr ([], Some r)"
  proof (cases "map_of (ra_spills ?fin) v")
    case None
    have "map_of (ra_spills (state_at xs lr (Suc i))) \<subseteq>\<^sub>m map_of (ra_spills ?fin)"
      using spills_final [OF wf lr, of "Suc i" "length xs"] i by simp
    then have "v \<notin> dom (map_of (ra_spills (state_at xs lr (Suc i))))" using None by (force simp: map_le_def)
    then have n: "v \<notin> fst ` set ld1" "v \<notin> dom (map_of (ra_spills (state_at xs lr i)))" using M(2) by auto
    have "live_map (state_at xs lr i) v = Some r" by (rule puts_notin [OF n(1) r(1)])
    then have "map_of (ra_reals ?fin) (d, v) = Some r" using unspilled_home [OF wf lr d, of i r] i n(2) by (auto simp: domIff)
    then show ?thesis using None fixed remats def_index_ok [OF wf lr d] by (simp add: operand_def dget_def)
  next
    case (Some off)
    then show ?thesis using fixed real has_realI [OF real] by (simp add: operand_def dget_def)
  qed
  then show ?thesis using r by blast
qed

lemma no_real:
  assumes wf: "well_formed xs" and lr: "all_ranges xs lr" and i: "i < length xs" "in_op (xs ! i) = ''END''"
  shows "\<not> has_real (final_at xs lr) i"
proof (rule has_no_real)
  fix v
  have "map_of (ra_reals (state_at xs lr (Suc i))) (i, v) = map_of (ra_reals (state_at xs lr i)) (i, v)"
    using steps [OF wf lr i(1)] i(2) unfolding step_ok_def by blast
  also have "\<dots> = None" using run_invD(6) [OF run_inv_all [OF wf lr, of i]] i(1) by simp
  finally show "map_of (ra_reals (final_at xs lr)) (i, v) = None" using reals_final [OF wf lr i(1) order_refl] by simp
qed

lemma operand_at_end:
  assumes wf: "well_formed xs" and lr: "all_ranges xs lr" and i: "i < length xs" "in_op (xs ! i) = ''END''"
    and d: "d < length xs" "v \<in> set (defs_at (xs ! d))"
  shows "\<exists>r. live_map (state_at xs lr (Suc d)) v = Some r \<and> operand (ctx_of xs lr) (final_at xs lr) i (Some v) = Inr ([], Some r)"
proof -
  obtain r where r: "live_map (state_at xs lr (Suc d)) v = Some r" "map_of (ra_reals (final_at xs lr)) (d, v) = Some r"
    using def_real [OF wf lr d] by blast
  have "\<not> r_fixed v" using wf_program(3) [OF wf all_defs_nth [OF d]] by blast
  moreover have "ra_remats (final_at xs lr) = []" using no_remats [OF good_at [OF wf lr order_refl]] by simp
  ultimately have "operand (ctx_of xs lr) (final_at xs lr) i (Some v) = Inr ([], Some r)"
    using r(2) no_real [OF wf lr i] def_index_ok [OF wf lr d] by (simp add: operand_def dget_def)
  then show ?thesis using r(1) by blast
qed

definition reg_at :: "ins list \<Rightarrow> ranges \<Rightarrow> nat \<Rightarrow> register \<Rightarrow> register" where
  "reg_at xs lr i v = (case operand (ctx_of xs lr) (final_at xs lr) i (Some v) of Inr (es, Some r) \<Rightarrow> r | _ \<Rightarrow> v)"

definition src_at :: "ins list \<Rightarrow> ranges \<Rightarrow> nat \<Rightarrow> register option \<Rightarrow> register option" where
  "src_at xs lr i s = (case s of None \<Rightarrow> None | Some v \<Rightarrow> if r_fixed v then Some v else Some (reg_at xs lr i v))"

lemma operands_ok:
  assumes wf: "well_formed xs" and lr: "all_ranges xs lr" and i: "i < length xs" "\<not> in_pseudo (xs ! i)"
  shows "rmap (operand (ctx_of xs lr) (final_at xs lr) i) (in_srcs (xs ! i)) = Inr (map (\<lambda>s. ([], src_at xs lr i s)) (in_srcs (xs ! i)))"
proof (rule rmap_total)
  fix s assume s: "s \<in> set (in_srcs (xs ! i))"
  show "operand (ctx_of xs lr) (final_at xs lr) i s = Inr ([], src_at xs lr i s)"
  proof (cases "\<exists>v. s = Some v \<and> \<not> r_fixed v")
    case True
    then obtain v where v: "s = Some v" "\<not> r_fixed v" by blast
    then have m: "v \<in> set (virtuals (in_srcs (xs ! i)))" using s by (simp add: in_live_virtuals)
    have "\<exists>r. operand (ctx_of xs lr) (final_at xs lr) i (Some v) = Inr ([], Some r)"
    proof (cases "in_op (xs ! i) = ''END''")
      case True
      then have "v \<in> set (all_defs xs)" using wf_program(10) [OF wf i(1)] m by blast
      then obtain d where "d < length xs" "v \<in> set (defs_at (xs ! d))" using all_defsD by blast
      then show ?thesis using operand_at_end [OF wf lr i(1) True] by blast
    next
      case False
      then have "v \<in> set (operands (xs ! i))" using m i(2) by (simp add: operands_def)
      moreover obtain ld1 ds ld2 where mv: "moves_ok xs i (state_at xs lr i) (state_at xs lr (Suc i)) ld1 ds ld2"
        using moves_at [OF wf lr i(1)] by blast
      ultimately show ?thesis using operand_read [OF wf lr i(1) mv] by blast
    qed
    then show ?thesis using v by (auto simp: src_at_def reg_at_def)
  next
    case False
    then show ?thesis by (auto simp: src_at_def operand_def split: option.splits)
  qed
qed

lemma read_regs_map: "read_regs x (map (src_at xs lr i) (in_srcs x))
  = map (reg_at xs lr i) (virtuals (if in_op x = ''END'' then filter (\<lambda>s. s \<in> set (in_live x)) (in_srcs x) else in_srcs x))"
proof -
  have "List.map_filter (\<lambda>(s, r). case s of None \<Rightarrow> None
      | Some v \<Rightarrow> if r_fixed v \<or> in_op x = ''END'' \<and> Some v \<notin> set (in_live x) then None else r) (zip ss (map (src_at xs lr i) ss))
    = map (reg_at xs lr i) (virtuals (if in_op x = ''END'' then filter (\<lambda>s. s \<in> set (in_live x)) ss else ss))" for ss
  proof (induction ss)
    case Nil
    then show ?case by (simp add: virtuals_def List.map_filter_def)
  next
    case (Cons s ss)
    then show ?case by (cases s) (simp_all add: virtuals_def List.map_filter_def src_at_def)
  qed
  then show ?thesis unfolding read_regs_def .
qed

section \<open>Blocks\<close>

definition slot_of :: "ins list \<Rightarrow> ranges \<Rightarrow> register \<Rightarrow> int" where
  "slot_of xs lr v = the (map_of (ra_spills (final_at xs lr)) v)"

definition spill_of :: "ins list \<Rightarrow> ranges \<Rightarrow> register \<times> register \<Rightarrow> emit list" where
  "spill_of xs lr = (\<lambda>(v, r). case map_of (ra_spills (final_at xs lr)) v of None \<Rightarrow> [] | Some off \<Rightarrow> [Spill off r])"

definition fill_of :: "ins list \<Rightarrow> ranges \<Rightarrow> register \<times> register \<Rightarrow> emit" where
  "fill_of xs lr = (\<lambda>(v, r). Fill (slot_of xs lr v) r)"

lemma fills_ok:
  assumes wf: "well_formed xs" and lr: "all_ranges xs lr" and i: "i < length xs"
    and m: "moves_ok xs i (state_at xs lr i) (state_at xs lr (Suc i)) ld1 ds ld2"
  shows "fills_at (final_at xs lr) i = Inr (map (fill_of xs lr) (ld1 @ ld2))"
proof -
  let ?fin = "final_at xs lr"
  have sub: "map_of (ra_spills (state_at xs lr (Suc i))) \<subseteq>\<^sub>m map_of (ra_spills ?fin)"
    using spills_final [OF wf lr, of "Suc i" "length xs"] i by simp
  have f: "filter (\<lambda>e. fst e = i) (ra_before ?fin) = map (\<lambda>(v, r). (i, v, r)) (ld1 @ ld2)"
    using before_final [OF wf lr m, of "length xs"] i by blast
  have s: "map_of (ra_spills ?fin) v = Some (slot_of xs lr v)" if "(v, r) \<in> set (ld1 @ ld2)" for v r
  proof -
    have "v \<in> fst ` set (ld1 @ ld2)" using that by force
    then have "v \<in> dom (map_of (ra_spills (state_at xs lr (Suc i))))" using moves_okD(2) [OF m] by blast
    then have "map_of (ra_spills ?fin) v \<noteq> None" using sub by (force simp: map_le_def)
    then show ?thesis by (auto simp: slot_of_def)
  qed
  have "rmap (\<lambda>(k, v, r). rbind (dget (ra_spills ?fin) v) (\<lambda>off. Inr (Fill off r))) (map (\<lambda>(v, r). (i, v, r)) (ld1 @ ld2))
      = Inr (map (\<lambda>(k, v, r). Fill (slot_of xs lr v) r) (map (\<lambda>(v, r). (i, v, r)) (ld1 @ ld2)))"
    by (rule rmap_total) (use s in \<open>force simp: dget_def\<close>)
  then show ?thesis unfolding fills_at_def f by (simp add: fill_of_def case_prod_beta comp_def)
qed

lemma remats_none:
  assumes wf: "well_formed xs" and lr: "all_ranges xs lr"
  shows "remats_at c (final_at xs lr) i = Inr []"
  using no_remats [OF good_at [OF wf lr order_refl]] by (simp add: remats_at_def)

lemma local_at:
  assumes wf: "well_formed xs" and lr: "all_ranges xs lr" and i: "in_op (xs ! i) = ''DEFINE_LOCAL''"
  shows "j \<le> length xs \<Longrightarrow> i < j \<Longrightarrow> i \<in> set (map fst (ra_locals (state_at xs lr j)))"
proof (induction j)
  case (Suc j)
  have "map fst (ra_locals (state_at xs lr (Suc j))) = map fst (ra_locals (state_at xs lr j)) @ (if in_op (xs ! j) = ''DEFINE_LOCAL'' then [j] else [])"
    using steps [OF wf lr, of j] Suc.prems(1) unfolding step_ok_def by (simp only: Suc_le_eq)
  then show ?case using Suc i by (cases "i = j") auto
qed simp

lemma emit_fill: "fold (emit_exec f xs) (map (fill_of ys lr) ld) m
  = m\<lparr>m_regs := fold (\<lambda>(v, r) R. R(r := m_stack m (m_sp m + slot_of ys lr v))) ld (m_regs m)\<rparr>"
  by (induction ld arbitrary: m) (auto simp: fill_of_def)

text \<open>What the emitted instruction does: it reads the registers of the operands and writes those of the definitions.\<close>

definition main_ok :: "ins list \<Rightarrow> ranges \<Rightarrow> nat \<Rightarrow> (register \<times> register) list \<Rightarrow> emit \<Rightarrow> bool" where
  "main_ok xs lr i ds nx \<longleftrightarrow>
     (if in_op (xs ! i) = ''DEFINE_LOCAL'' then \<exists>off. nx = Frame i off (map snd ds)
      else nx = Instr i (map (src_at xs lr i) (in_srcs (xs ! i))) (map snd ds))"

lemma read_regs_Cons: "in_op x \<noteq> ''END'' \<Longrightarrow> in_srcs x = s # ss \<Longrightarrow> read_regs x (q # map (src_at xs lr i) ss)
  = (case s of None \<Rightarrow> [] | Some u \<Rightarrow> if r_fixed u then [] else (case q of None \<Rightarrow> [] | Some d \<Rightarrow> [d])) @ map (reg_at xs lr i) (virtuals ss)"
proof -
  assume x: "in_op x \<noteq> ''END''" "in_srcs x = s # ss"
  have "List.map_filter (\<lambda>(s, r). case s of None \<Rightarrow> None | Some v \<Rightarrow> if r_fixed v then None else r) (zip ts (map (src_at xs lr i) ts))
    = map (reg_at xs lr i) (virtuals ts)" for ts
  proof (induction ts)
    case Nil
    then show ?case by (simp add: virtuals_def List.map_filter_def)
  next
    case (Cons s ts)
    then show ?case by (cases s) (simp_all add: virtuals_def List.map_filter_def src_at_def)
  qed
  moreover have "read_regs x (q # map (src_at xs lr i) ss) = List.map_filter (\<lambda>(s, r). case s of None \<Rightarrow> None
      | Some v \<Rightarrow> if r_fixed v then None else r) ((s, q) # zip ss (map (src_at xs lr i) ss))"
  proof -
    have e: "(in_op x = ''END'') = False" using x(1) by simp
    show ?thesis unfolding read_regs_def x(2) e simp_thms by (simp del: List.map_filter_simps)
  qed
  ultimately show ?thesis by (simp add: List.map_filter_simps split: option.splits)
qed

text \<open>The copy before a two-address instruction changes none of the values that it reads.\<close>

lemma copied_ok:
  assumes x: "\<not> in_pseudo x" "in_op x = ''END'' \<longrightarrow> ds = []" "in_op x \<noteq> ''DEFINE_LOCAL''" and d: "length ds \<le> 1"
    and apart: "def_apart x (\<lambda>v. Some (reg_at xs lr i v)) ds"
    and c: "copied f tr x (map (src_at xs lr i) (in_srcs x)) (map snd ds) R = (srcs, R')"
  shows "map R' (read_regs x srcs) = map (\<lambda>v. R (reg_at xs lr i v)) (reads x)"
    and "write_all f tr' (map snd ds) R' = write_all f tr' (map snd ds) R"
proof -
  have "map R' (read_regs x srcs) = map (\<lambda>v. R (reg_at xs lr i v)) (reads x)
      \<and> write_all f tr' (map snd ds) R' = write_all f tr' (map snd ds) R"
  proof (cases "in_two_address x \<and> ds \<noteq> [] \<and> in_srcs x \<noteq> []")
    case False
    then have "srcs = map (src_at xs lr i) (in_srcs x)" "R' = R" using c by (auto simp: copied_def split: list.splits)
    then show ?thesis using x by (simp add: read_regs_map reads_def comp_def)
  next
    case True
    then obtain v r where ds: "ds = [(v, r)]" using d by (cases ds) auto
    obtain s ss where s: "in_srcs x = s # ss" using True by (cases "in_srcs x") auto
    have ne: "in_op x \<noteq> ''END''" using x(2) ds by auto
    have srcs: "srcs = Some r # map (src_at xs lr i) ss"
      and R': "R' = R(r := (case src_at xs lr i s of Some q \<Rightarrow> R q | None \<Rightarrow> f tr 0))" using c True ds s by (auto simp: copied_def)
    have rd: "reads x = virtuals (s # ss)" and op: "operands x = virtuals (s # ss)" using x(1,3) ne s by (simp_all add: reads_def operands_def)
    have vs: "virtuals (s # ss) = (case s of None \<Rightarrow> [] | Some u \<Rightarrow> if r_fixed u then [] else [u]) @ virtuals ss"
      by (auto simp: virtuals_def List.map_filter_def split: option.splits)
    have rest: "R' (reg_at xs lr i w) = R (reg_at xs lr i w)" if w: "w \<in> set (virtuals ss)" for w
    proof -
      consider u where "u \<in> set (operands x)" "s = Some u" "reg_at xs lr i u = r" | "\<forall>u \<in> set (operands x). reg_at xs lr i u \<noteq> r"
        using apart True ds s by (auto simp: def_apart_def)
      then show ?thesis
      proof cases
        case 1
        then have "src_at xs lr i s = Some r" by (auto simp: op in_live_virtuals src_at_def)
        then show ?thesis by (simp add: R')
      next
        case 2
        then have "reg_at xs lr i w \<noteq> r" using w by (simp add: op vs)
        then show ?thesis by (simp add: R')
      qed
    qed
    have "map R' (read_regs x srcs) = map (\<lambda>v. R (reg_at xs lr i v)) (reads x)"
      unfolding srcs rd vs read_regs_Cons [OF ne s] using rest by (auto simp: R' src_at_def split: option.splits)
    moreover have "write_all f tr' (map snd ds) R' = write_all f tr' (map snd ds) R" by (simp add: ds write_all_def R')
    ultimately show ?thesis ..
  qed
  then show "map R' (read_regs x srcs) = map (\<lambda>v. R (reg_at xs lr i v)) (reads x)"
    "write_all f tr' (map snd ds) R' = write_all f tr' (map snd ds) R" by blast+
qed

lemma apart_at:
  assumes wf: "well_formed xs" and lr: "all_ranges xs lr" and i: "i < length xs"
    and m: "moves_ok xs i (state_at xs lr i) (state_at xs lr (Suc i)) ld1 ds ld2"
  shows "def_apart (xs ! i) (\<lambda>v. Some (reg_at xs lr i v)) ds"
proof -
  have "map_of (ra_reals (state_at xs lr (Suc i))) (i, u) = Some (reg_at xs lr i u)" if u: "u \<in> set (operands (xs ! i))" for u
    using moves_okD(5) [OF m u] operand_read [OF wf lr i m u] by (auto simp: reg_at_def)
  moreover have "def_apart (xs ! i) (\<lambda>v. map_of (ra_reals (state_at xs lr (Suc i))) (i, v)) ds"
    using m unfolding moves_ok_def by (elim conjE)
  ultimately show ?thesis unfolding def_apart_def by (simp cong: conj_cong)
qed

lemma main_exec:
  assumes m: "main_ok xs lr i ds nx" and np: "\<not> in_pseudo (xs ! i)" and e: "in_op (xs ! i) = ''END'' \<longrightarrow> ds = []" and d: "length ds \<le> 1"
    and apart: "def_apart (xs ! i) (\<lambda>v. Some (reg_at xs lr i v)) ds"
  shows "emit_exec f xs nx m = (let tr = m_trace m @ [(i, map (\<lambda>v. m_regs m (reg_at xs lr i v)) (reads (xs ! i)))] in
    m\<lparr>m_trace := tr, m_regs := write_all f tr (map snd ds) (m_regs m)\<rparr>)"
proof (cases "in_op (xs ! i) = ''DEFINE_LOCAL''")
  case True
  then show ?thesis using m np by (auto simp: main_ok_def reads_def Let_def)
next
  case False
  obtain srcs R where c: "copied f (m_trace m) (xs ! i) (map (src_at xs lr i) (in_srcs (xs ! i))) (map snd ds) (m_regs m) = (srcs, R)"
    by (cases "copied f (m_trace m) (xs ! i) (map (src_at xs lr i) (in_srcs (xs ! i))) (map snd ds) (m_regs m)")
  have nx: "nx = Instr i (map (src_at xs lr i) (in_srcs (xs ! i))) (map snd ds)" using m False by (simp add: main_ok_def)
  show ?thesis unfolding nx using copied_ok [OF np e False d apart c] c by (simp add: Let_def)
qed

definition push_at :: "ins list \<Rightarrow> ranges \<Rightarrow> nat \<Rightarrow> emit list" where
  "push_at xs lr i = (if 0 < ra_stack (final_at xs lr) \<and> i = 0 then [PushFrame (ra_stack (final_at xs lr))] else [])"

definition pop_at :: "ins list \<Rightarrow> ranges \<Rightarrow> nat \<Rightarrow> emit list" where
  "pop_at xs lr i = (if 0 < ra_stack (final_at xs lr) \<and> i = length xs - 2 then [PopFrame (ra_stack (final_at xs lr))] else [])"

lemma emitted_block:
  assumes wf: "well_formed xs" and lr: "all_ranges xs lr" and i: "i < length xs" "\<not> in_pseudo (xs ! i)" "in_op (xs ! i) \<in> set rewrite_ops"
    and m: "moves_ok xs i (state_at xs lr i) (state_at xs lr (Suc i)) ld1 ds ld2" "length ds \<le> 1"
  shows "\<exists>before nx. rewrite_ins (ctx_of xs lr) (final_at xs lr) (i, xs ! i) = Inr (before, [nx], concat (map (spill_of xs lr) ds))
    \<and> main_ok xs lr i ds nx
    \<and> before = push_at xs lr i @ map (fill_of xs lr) (ld1 @ ld2) @ pop_at xs lr i"
proof -
  let ?fin = "final_at xs lr" and ?c = "ctx_of xs lr"
  note M = moves_okD [OF m(1)]
  have defs: "in_defs (xs ! i) = map fst ds" using M(3) i(2) by (simp add: defs_at_def)
  have real: "map_of (ra_reals ?fin) (i, v) = Some r" if "(v, r) \<in> set ds" for v r
    using M(4) [OF that] reals_final [OF wf lr i(1) order_refl, of v] by simp
  have d: "rmap (\<lambda>v. dget (ra_reals ?fin) (i, v)) (in_defs (xs ! i)) = Inr (map snd ds)"
    using m(2) real unfolding defs by (cases ds) (auto simp: dget_def)
  have a: "rmap (\<lambda>v. case map_of (ra_spills ?fin) v of None \<Rightarrow> Inr [] | Some off \<Rightarrow> rbind (lget (map snd ds) 0) (\<lambda>r. Inr [Spill off r])) (in_defs (xs ! i))
      = Inr (map (spill_of xs lr) ds)"
    using m(2) unfolding defs by (cases ds) (auto simp: lget_def spill_of_def split: option.splits)
  obtain nx where nx: "(if in_op (xs ! i) = ''DEFINE_LOCAL'' then rbind (dget (ra_locals ?fin) i) (\<lambda>off. Inr (Frame i off (map snd ds)))
      else Inr (Instr i (map (src_at xs lr i) (in_srcs (xs ! i))) (map snd ds))) = Inr nx" "main_ok xs lr i ds nx"
  proof (cases "in_op (xs ! i) = ''DEFINE_LOCAL''")
    case True
    have "i \<in> set (map fst (ra_locals ?fin))" using local_at [OF wf lr True order_refl] i(1) by simp
    then obtain off where off: "map_of (ra_locals ?fin) i = Some off" by (metis image_set map_of_eq_None_iff not_Some_eq)
    show ?thesis by (rule that [of "Frame i off (map snd ds)"]) (use True off in \<open>simp_all add: main_ok_def dget_def\<close>)
  next
    case False
    show ?thesis by (rule that) (use False in \<open>simp_all add: main_ok_def\<close>)
  qed
  have nil: "concat (map (\<lambda>s. []) l) = []" for l :: "register option list" by (induction l) auto
  let ?before = "map (fill_of xs lr) (ld1 @ ld2)"
  let ?b = "if 0 < ra_stack ?fin \<and> i = 0 then PushFrame (ra_stack ?fin) # ?before
    else if 0 < ra_stack ?fin \<and> int i = int (cx_n ?c) - 2 then ?before @ [PopFrame (ra_stack ?fin)] else ?before"
  have "\<not> (in_pseudo (xs ! i) \<or> in_op (xs ! i) \<notin> set rewrite_ops)" using i(2,3) by simp
  then have "rewrite_ins ?c ?fin (i, xs ! i) = Inr (?b, [nx], concat (map (spill_of xs lr) ds))"
    by (simp only: rewrite_ins_def prod.case if_False operands_ok [OF wf lr i(1,2)] rbind_Inr d map_map comp_def fst_conv snd_conv nx(1)
      remats_none [OF wf lr] fills_ok [OF wf lr i(1) m(1)] a Let_def nil append_Nil2 append_Nil)
  moreover have "?b = push_at xs lr i @ ?before @ pop_at xs lr i"
  proof -
    have n: "3 \<le> length xs" using wf_program(11) [OF wf] by (simp add: ends_well_def)
    then have A: "int i = int (cx_n ?c) - 2 \<longleftrightarrow> i = length xs - 2" by (simp add: cx_n_def ctx_of_def) linarith
    have B: "length xs - 2 \<noteq> 0" using n by simp
    show ?thesis unfolding push_at_def pop_at_def A
      by (cases "0 < ra_stack ?fin"; cases "i = 0"; cases "i = length xs - 2") (simp_all only: B simp_thms if_True if_False append_Nil append_Nil2 append_Cons refl)
  qed
  ultimately show ?thesis using nx(2) by (intro exI [of _ ?b] exI [of _ nx]) simp
qed

lemma code_ok:
  assumes wf: "well_formed xs"
  shows "\<exists>lr code. live_ranges xs = Inr lr \<and> all_ranges xs lr \<and> compile_regs xs = Inr code \<and> length code = length xs
    \<and> (\<forall>i < length xs. rewrite_ins (ctx_of xs lr) (final_at xs lr) (i, xs ! i) = Inr (code ! i))"
proof -
  obtain lr where lr: "live_ranges xs = Inr lr" "all_ranges xs lr" "linear_scan xs = Inr (final_at xs lr)"
    using linear_scan_ok [OF wf] by blast
  let ?rw = "\<lambda>p. case rewrite_ins (ctx_of xs lr) (final_at xs lr) p of Inr b \<Rightarrow> b | Inl _ \<Rightarrow> ([], [], [])"
  have ok: "rewrite_ins (ctx_of xs lr) (final_at xs lr) (i, xs ! i) = Inr (?rw (i, xs ! i))" if i: "i < length xs" for i
  proof (cases "in_pseudo (xs ! i) \<or> in_op (xs ! i) \<notin> set rewrite_ops")
    case True
    then show ?thesis by (simp add: rewrite_ins_def)
  next
    case False
    obtain ld1 ds ld2 where "moves_ok xs i (state_at xs lr i) (state_at xs lr (Suc i)) ld1 ds ld2" "length ds \<le> 1"
      using moves_at [OF wf lr(2) i] by blast
    moreover have "\<not> in_pseudo (xs ! i)" "in_op (xs ! i) \<in> set rewrite_ops" using False by simp_all
    ultimately obtain before nx where "rewrite_ins (ctx_of xs lr) (final_at xs lr) (i, xs ! i) = Inr (before, [nx], concat (map (spill_of xs lr) ds))"
      using emitted_block [OF wf lr(2) i] by metis
    then show ?thesis by simp
  qed
  have "rmap (rewrite_ins (ctx_of xs lr) (final_at xs lr)) (enumerate 0 xs) = Inr (map ?rw (enumerate 0 xs))"
    by (rule rmap_total) (use ok in \<open>auto simp: in_set_enumerate_eq\<close>)
  then have "compile_regs xs = Inr (map ?rw (enumerate 0 xs))"
    using lr(1,3) by (simp add: compile_regs_def linear_scan_def ctx_of_def)
  moreover have "map ?rw (enumerate 0 xs) ! i = ?rw (i, xs ! i)" if "i < length xs" for i
    using that by (simp add: nth_enumerate_eq)
  ultimately show ?thesis using lr(1,2) ok by (intro exI [of _ lr] exI [of _ "map ?rw (enumerate 0 xs)"]) simp
qed

end
