(* ===== verification/RegallocSpec.thy ===== *)
theory RegallocSpec
  imports RegallocBlocks
begin

text \<open>
  The rewritten code computes what the program computes: along every path the two machines read the same
  operand values at every instruction.
\<close>

section \<open>Registers that agree\<close>

text \<open>Register \<open>r\<close> is lost to \<open>v\<close> in a loop that does not use \<open>v\<close>: it is still recorded as live in the first
  pass over the body, was taken before the end, and so may hold another value in a later iteration.\<close>

definition lost :: "ins list \<Rightarrow> ranges \<Rightarrow> nat \<Rightarrow> register \<Rightarrow> register \<Rightarrow> bool" where
  "lost xs lr i v r \<longleftrightarrow> (\<exists>l e ls os. e < length xs \<and> i \<le> e \<and> in_op (xs ! e) = ''END'' \<and> open_loops xs e = Some (l # ls)
     \<and> open_loops xs i = Some os \<and> l \<in> set os \<and> unused_in xs l e v \<and> live_map (state_at xs lr (Suc e)) v \<noteq> Some r)"

definition agree :: "(register \<Rightarrow> register \<Rightarrow> bool) \<Rightarrow> (register \<Rightarrow> register option) \<Rightarrow> (register \<Rightarrow> 'a) \<Rightarrow> (register \<Rightarrow> 'a) \<Rightarrow> bool" where
  "agree B L R V \<longleftrightarrow> (\<forall>v r. L v = Some r \<longrightarrow> R r = V v \<or> B v r)"

definition stored :: "ins list \<Rightarrow> ranges \<Rightarrow> nat \<Rightarrow> (int \<Rightarrow> 'a) \<Rightarrow> (register \<Rightarrow> 'a) \<Rightarrow> bool" where
  "stored xs lr i M V \<longleftrightarrow> (\<forall>v off. map_of (ra_spills (final_at xs lr)) v = Some off \<longrightarrow> v \<in> set (all_defs (take i xs)) \<longrightarrow> M off = V v)"

text \<open>The frame: its base, the stack pointer before instruction \<open>i\<close>, and its contents by offset.\<close>

definition base_of :: "ins list \<Rightarrow> ranges \<Rightarrow> int \<Rightarrow> int" where
  "base_of xs lr sp = sp - ra_stack (final_at xs lr)"

definition sp_at :: "ins list \<Rightarrow> ranges \<Rightarrow> int \<Rightarrow> nat \<Rightarrow> int" where
  "sp_at xs lr sp i = (if 0 < i \<and> i < length xs - 1 then base_of xs lr sp else sp)"

definition frame_of :: "int \<Rightarrow> 'a machine \<Rightarrow> int \<Rightarrow> 'a" where
  "frame_of b m = (\<lambda>off. m_stack m (b + off))"

definition sim :: "ins list \<Rightarrow> ranges \<Rightarrow> int \<Rightarrow> nat \<Rightarrow> 'a trace \<times> (register \<Rightarrow> 'a) \<Rightarrow> 'a machine \<Rightarrow> bool" where
  "sim xs lr sp i s m \<longleftrightarrow> m_trace m = fst s \<and> agree (lost xs lr i) (live_map (state_at xs lr i)) (m_regs m) (snd s)
     \<and> stored xs lr i (frame_of (base_of xs lr sp) m) (snd s) \<and> m_sp m = sp_at xs lr sp i"

definition filled :: "(register \<Rightarrow> 'a) \<Rightarrow> (register \<times> register) list \<Rightarrow> (register \<Rightarrow> 'a) \<Rightarrow> register \<Rightarrow> 'a" where
  "filled V ld R = fold (\<lambda>(v, r) R. R(r := V v)) ld R"

lemma filled_Nil: "filled V [] R = R" by (simp add: filled_def)

lemma filled_Cons: "filled V ((v, r) # ld) R = filled V ld (R(r := V v))" by (simp only: filled_def fold.simps prod.case comp_apply)

lemma puts_Cons: "puts ((v, r) # ld) L = puts ld (put v r L)" by (simp add: puts_def)

lemma filled_append: "filled V (a @ b) R = filled V b (filled V a R)" by (simp add: filled_def)

lemma agree_put: "agree B L R V \<Longrightarrow> x = V v \<Longrightarrow> agree B (put v r L) (R(r := x)) V"
  by (auto simp: agree_def put_def)

lemma agree_fill: "agree B L R V \<Longrightarrow> agree B (puts ld L) (filled V ld R) V"
proof (induction ld arbitrary: L R)
  case (Cons p ld)
  obtain v r where p: "p = (v, r)" by (cases p)
  have "agree B (put v r L) (R(r := V v)) V" using Cons.prems by (rule agree_put) simp
  from Cons.IH [OF this] show ?case by (simp only: p puts_Cons filled_Cons)
qed (simp add: filled_def)

lemma agree_def_reg: "agree B L R V \<Longrightarrow> agree B (put v r L) (R(r := x)) (V(v := x))"
  by (auto simp: agree_def put_def)

lemma filled_other: "clear_of ld v r \<Longrightarrow> filled V ld R r = R r"
proof (induction ld arbitrary: R)
  case (Cons p ld)
  obtain w s where p: "p = (w, s)" by (cases p)
  have "clear_of ld v r" "s \<noteq> r" using Cons.prems p by (auto simp: clear_of_def)
  then have "filled V ld (R(s := V w)) r = (R(s := V w)) r" by (intro Cons.IH)
  also have "\<dots> = R r" using \<open>s \<noteq> r\<close> by simp
  finally show ?case by (simp only: p filled_Cons)
qed (simp add: filled_def)

lemma filled_commute: "clear_of ld v r \<Longrightarrow> filled (V(v := x)) ld (R(r := x)) = (filled V ld R)(r := x)"
proof (induction ld arbitrary: R)
  case (Cons p ld)
  obtain w s where p: "p = (w, s)" by (cases p)
  have c: "clear_of ld v r" "s \<noteq> r" "w \<noteq> v" using Cons.prems p by (auto simp: clear_of_def)
  have "(R(r := x))(s := (V(v := x)) w) = (R(s := V w))(r := x)" using c(2,3) by (auto simp: fun_eq_iff)
  then have "filled (V(v := x)) (p # ld) (R(r := x)) = filled (V(v := x)) ld ((R(s := V w))(r := x))" by (simp only: p filled_Cons)
  also have "\<dots> = (filled V ld (R(s := V w)))(r := x)" by (rule Cons.IH [OF c(1)])
  finally show ?case by (simp only: p filled_Cons)
qed (simp add: filled_def)

section \<open>Lost registers\<close>

lemma open_at:
  assumes wf: "well_formed xs" and i: "i \<le> length xs"
  shows "\<exists>ls. open_loops xs i = Some ls"
  using open_loops_prefix [OF _ i] wf_program(1) [OF wf] unfolding structured_def by auto

lemma loop_closed:
  assumes e: "open_loops xs e = Some (l # ls)" "in_op (xs ! e) = ''END''" and e': "e < e'" "open_loops xs e' = Some (l' # ls')"
  shows "l' \<noteq> l"
proof
  assume l: "l' = l"
  have h: "l < e" "open_loops xs l = Some ls" "in_op (xs ! l) = ''RANGE''" using open_loops_head [OF e(1)] by simp_all
  have S: "open_loops xs (Suc e) = Some ls" using e h(3) by simp
  obtain ms where ms: "open_loops xs (Suc e) = Some ms" "l \<in> set ms"
    using open_loops_between [OF e'(2), of l "Suc e"] l h(1) e'(1) by (auto simp del: open_loops.simps)
  have "ms = ls" using S ms(1) by (simp only: option.inject)
  then have "l < l" using open_loops_less [OF h(2), of l] ms(2) by simp
  then show False by simp
qed

text \<open>A register that is lost and still live after the next instruction is lost there too.\<close>

lemma lost_next:
  assumes i: "i < length xs" and b: "lost xs lr i v r" and live: "live_map (state_at xs lr (Suc i)) v = Some r"
    and os: "open_loops xs (Suc i) = Some os'"
  shows "lost xs lr (Suc i) v r"
proof -
  obtain l e ls os where b: "e < length xs" "i \<le> e" "in_op (xs ! e) = ''END''" "open_loops xs e = Some (l # ls)"
      "open_loops xs i = Some os" "l \<in> set os" "unused_in xs l e v" "live_map (state_at xs lr (Suc e)) v \<noteq> Some r"
    using b unfolding lost_def by blast
  have ne: "e \<noteq> i" using b(8) live by auto
  have "l \<in> set os'"
  proof (cases "in_op (xs ! i) = ''END''")
    case True
    then obtain l0 where l0: "os = l0 # os'" using b(5) os by (auto split: list.splits if_splits)
    then have "l \<noteq> l0" using loop_closed [of xs i l0 os' e l ls] b(2,4,5) True ne by auto
    then show ?thesis using b(6) l0 by simp
  next
    case False
    then show ?thesis using b(5,6) os by (auto split: if_splits)
  qed
  moreover have "Suc i \<le> e" using b(2) ne by simp
  ultimately show ?thesis unfolding lost_def using b os by blast
qed

lemma lost_unused:
  assumes b: "lost xs lr i v r" and i: "i < length xs"
  shows "v \<notin> points (xs ! i)"
proof -
  obtain l e ls os where b: "e < length xs" "i \<le> e" "in_op (xs ! e) = ''END''" "open_loops xs e = Some (l # ls)"
      "open_loops xs i = Some os" "l \<in> set os" "unused_in xs l e v"
    using b unfolding lost_def by blast
  have "l \<le> i" using open_loops_less [OF b(5,6)] by simp
  then show ?thesis using b(2,7) i unfolding unused_in_def by blast
qed

section \<open>One instruction\<close>

lemma write_one: "length ds \<le> 1 \<Longrightarrow> write_all f tr (map fst ds) V = (case ds of [] \<Rightarrow> V | p # _ \<Rightarrow> V(fst p := f tr 0))"
    "length ds \<le> 1 \<Longrightarrow> write_all f tr (map snd ds) R = (case ds of [] \<Rightarrow> R | p # _ \<Rightarrow> R(snd p := f tr 0))"
  by (cases ds; simp add: write_all_def)+

lemma stored_fill:
  assumes wf: "well_formed xs" and lr: "all_ranges xs lr" and i: "i < length xs"
    and m: "moves_ok xs i (state_at xs lr i) (state_at xs lr (Suc i)) ld1 ds ld2" "fst ` set (ld1 @ ld2) \<subseteq> set (all_defs (take i xs))"
    and s: "stored xs lr i M V"
  shows "fold (\<lambda>(v, r) R. R(r := M (slot_of xs lr v))) (ld1 @ ld2) R = filled V (ld1 @ ld2) R"
proof -
  have "M (slot_of xs lr v) = V v" if "v \<in> fst ` set (ld1 @ ld2)" for v
  proof -
    have "v \<in> dom (map_of (ra_spills (state_at xs lr (Suc i))))" using that moves_okD(2) [OF m(1)] by blast
    moreover have "map_of (ra_spills (state_at xs lr (Suc i))) \<subseteq>\<^sub>m map_of (ra_spills (final_at xs lr))"
      using spills_final [OF wf lr, of "Suc i" "length xs"] i by simp
    ultimately obtain off where off: "map_of (ra_spills (final_at xs lr)) v = Some off" by (force simp: map_le_def)
    moreover have "v \<in> set (all_defs (take i xs))" using that m(2) by blast
    ultimately show ?thesis using s unfolding stored_def slot_of_def by auto
  qed
  then show ?thesis unfolding filled_def by (intro fold_cong) force+
qed

text \<open>The state after the fills, the reads and the writes of an instruction, before it decides where to go.\<close>

lemma exec_spills:
  assumes v: "r = snd p" "v = fst p"
  shows "fold (emit_exec f ys) (spill_of xs lr p) m = (case map_of (ra_spills (final_at xs lr)) v of None \<Rightarrow> m
    | Some off \<Rightarrow> m\<lparr>m_stack := (m_stack m)(m_sp m + off := m_regs m r)\<rparr>)"
  using v by (cases p) (simp add: spill_of_def split: option.splits)

lemma frame_spilled:
  assumes sp: "m_sp m = b"
  shows "frame_of b (fold (emit_exec f ys) (spill_of xs lr (w, r)) m)
      = (case map_of (ra_spills (final_at xs lr)) w of None \<Rightarrow> frame_of b m | Some off \<Rightarrow> (frame_of b m)(off := m_regs m r))"
    and "m_trace (fold (emit_exec f ys) (spill_of xs lr (w, r)) m) = m_trace m"
    and "m_regs (fold (emit_exec f ys) (spill_of xs lr (w, r)) m) = m_regs m"
    and "m_sp (fold (emit_exec f ys) (spill_of xs lr (w, r)) m) = m_sp m"
  using sp by (auto simp: exec_spills [of r "(w, r)" w] frame_of_def fun_eq_iff split: option.splits)

text \<open>The frame is pushed before the first instruction and popped before the last.\<close>

lemma long_program: "well_formed xs \<Longrightarrow> 3 \<le> length xs"
  using wf_program(11) by (simp add: ends_well_def)

lemma exec_push:
  assumes wf: "well_formed xs" and i: "i < length xs - 1" and sp: "m_sp m = sp_at xs lr sp i" and n: "0 \<le> ra_stack (final_at xs lr)"
  shows "fold (emit_exec f ys) (push_at xs lr i) m = m\<lparr>m_sp := base_of xs lr sp\<rparr>"
  using assms by (cases "i = 0"; cases "0 < ra_stack (final_at xs lr)") (auto simp: push_at_def sp_at_def base_of_def)

lemma exec_pop:
  assumes wf: "well_formed xs" and i: "i < length xs - 1" and sp: "m_sp m = base_of xs lr sp" and n: "0 \<le> ra_stack (final_at xs lr)"
  shows "fold (emit_exec f ys) (pop_at xs lr i) m = m\<lparr>m_sp := sp_at xs lr sp (Suc i)\<rparr>"
proof (cases "i = length xs - 2")
  case True
  then have "\<not> Suc i < length xs - 1" using long_program [OF wf] by linarith
  then show ?thesis using True sp n by (cases "0 < ra_stack (final_at xs lr)") (auto simp: pop_at_def sp_at_def base_of_def)
next
  case False
  then have "Suc i < length xs - 1" using i by linarith
  then show ?thesis using False sp by (simp add: pop_at_def sp_at_def)
qed

lemma stack_nonneg: "well_formed xs \<Longrightarrow> all_ranges xs lr \<Longrightarrow> 0 \<le> ra_stack (final_at xs lr)"
  using good_at [OF _ _ order_refl, of xs lr] frame_okD(1) unfolding good_state_def by blast

lemma stored_write:
  assumes wf: "well_formed xs" and lr: "all_ranges xs lr"
    and s: "\<forall>w off. map_of (ra_spills (final_at xs lr)) w = Some off \<longrightarrow> w \<in> W \<longrightarrow> w \<noteq> v \<longrightarrow> M off = V w"
  shows "\<forall>w off. map_of (ra_spills (final_at xs lr)) w = Some off \<longrightarrow> w \<in> W \<longrightarrow>
    (case map_of (ra_spills (final_at xs lr)) v of None \<Rightarrow> M | Some o' \<Rightarrow> M(o' := x)) off = (V(v := x)) w"
proof (intro allI impI)
  fix w off assume w: "map_of (ra_spills (final_at xs lr)) w = Some off" "w \<in> W"
  have f: "frame_ok xs (ra_spills (final_at xs lr)) (ra_stack (final_at xs lr)) (ra_locals (final_at xs lr))"
    using good_at [OF wf lr order_refl] by (simp add: good_state_def)
  show "(case map_of (ra_spills (final_at xs lr)) v of None \<Rightarrow> M | Some o' \<Rightarrow> M(o' := x)) off = (V(v := x)) w"
  proof (cases "w = v")
    case True
    then show ?thesis using w(1) by simp
  next
    case False
    then have M: "M off = V w" using s w by blast
    show ?thesis
    proof (cases "map_of (ra_spills (final_at xs lr)) v")
      case None
      then show ?thesis using False M by simp
    next
      case (Some o')
      then have "off \<noteq> o'" using slots_differ [OF f w(1) Some False] by simp
      then show ?thesis using Some False M by simp
    qed
  qed
qed

lemma recorded_run:
  assumes wf: "well_formed xs" and lr: "all_ranges xs lr" and l: "l < length xs" "in_op (xs ! l) = ''RANGE''"
  shows "recorded xs l (live_in_of xs lr l) (live_map (state_at xs lr (Suc l)))"
  by (rule recorded_at(1) [OF steps [OF wf lr l(1)] l(2)])

lemma end_settled:
  assumes wf: "well_formed xs" and lr: "all_ranges xs lr" and i: "i < length xs" "in_op (xs ! i) = ''END''" "open_loops xs i = Some (l # ls)"
  shows "settled (live_in_of xs lr l) (live_map (state_at xs lr (Suc i)))"
proof -
  have np: "in_op (xs ! i) \<noteq> ''RANGE''" using i(2) by simp
  obtain live_in where s: "ra_live_ins (state_at xs lr i) = live_in # ra_live_ins (state_at xs lr (Suc i))"
      "settled live_in (live_map (state_at xs lr (Suc i)))"
    using steps [OF wf lr i(1)] i(2) np unfolding step_ok_def loops_ok_def by auto
  obtain os where "open_loops xs i = Some os" "ra_live_ins (state_at xs lr i) = map (live_in_of xs lr) os"
    using run_invD(4) [OF run_inv_all [OF wf lr, of i]] i(1) by auto
  then have "ra_live_ins (state_at xs lr i) = map (live_in_of xs lr) (l # ls)" using i(3) by simp
  then have "live_in = live_in_of xs lr l" using s(1) by simp
  then show ?thesis using s(2) by simp
qed

lemma end_keeps:
  assumes wf: "well_formed xs" and lr: "all_ranges xs lr" and i: "i < length xs" "in_op (xs ! i) = ''END''" "open_loops xs i = Some (l # ls)"
    and v: "v \<in> fst ` set (live_in_of xs lr l)" "live_map (state_at xs lr (Suc l)) v = Some r"
  shows "live_map (state_at xs lr (Suc i)) v = Some r"
proof -
  have l: "l < length xs" "in_op (xs ! l) = ''RANGE''" using open_loops_head [OF i(3)] i(1) by simp_all
  have "\<forall>L' v r. settled (live_in_of xs lr l) L' \<longrightarrow> v \<in> fst ` set (live_in_of xs lr l) \<longrightarrow>
      live_map (state_at xs lr (Suc l)) v = Some r \<longrightarrow> L' v = Some r"
    using recorded_run [OF wf lr l] unfolding recorded_def by (elim conjE)
  then show ?thesis using end_settled [OF wf lr i] v by blast
qed

lemma counter_recorded:
  assumes wf: "well_formed xs" and lr: "all_ranges xs lr" and l: "l < length xs" "in_op (xs ! l) = ''RANGE''"
  shows "loop_reg (xs ! l) \<in> fst ` set (live_in_of xs lr l)"
  using recorded_run [OF wf lr l] unfolding recorded_def by (elim conjE)

lemma end_operand:
  assumes wf: "well_formed xs" and lr: "all_ranges xs lr" and i: "i < length xs" "in_op (xs ! i) = ''END''" "open_loops xs i = Some (l # ls)"
  shows "live_map (state_at xs lr (Suc l)) (loop_reg (xs ! l)) = Some (reg_at xs lr i (loop_reg (xs ! l)))"
    and "live_map (state_at xs lr (Suc i)) (loop_reg (xs ! l)) = Some (reg_at xs lr i (loop_reg (xs ! l)))"
proof -
  have l: "l < length xs" "in_op (xs ! l) = ''RANGE''" using open_loops_head [OF i(3)] i(1) by simp_all
  have "loop_reg (xs ! l) \<in> set (defs_at (xs ! l))" using loop_counter(2) [OF wf l] by simp
  then obtain r where "live_map (state_at xs lr (Suc l)) (loop_reg (xs ! l)) = Some r"
      "operand (ctx_of xs lr) (final_at xs lr) i (Some (loop_reg (xs ! l))) = Inr ([], Some r)"
    using operand_at_end [OF wf lr i(1,2) l(1)] by blast
  then show a: "live_map (state_at xs lr (Suc l)) (loop_reg (xs ! l)) = Some (reg_at xs lr i (loop_reg (xs ! l)))" by (simp add: reg_at_def)
  show "live_map (state_at xs lr (Suc i)) (loop_reg (xs ! l)) = Some (reg_at xs lr i (loop_reg (xs ! l)))"
    by (rule end_keeps [OF wf lr i counter_recorded [OF wf lr l] a])
qed

text \<open>After the fills, the registers of the operands hold the operands.\<close>

lemma reads_agree:
  assumes wf: "well_formed xs" and lr: "all_ranges xs lr" and i: "i < length xs" "\<not> in_pseudo (xs ! i)"
    and m: "moves_ok xs i (state_at xs lr i) (state_at xs lr (Suc i)) ld1 ds ld2"
    and a: "agree (lost xs lr i) (live_map (state_at xs lr i)) R V" and v: "v \<in> set (reads (xs ! i))"
  shows "filled V (ld1 @ ld2) R (reg_at xs lr i v) = V v"
proof (cases "in_op (xs ! i) = ''END''")
  case True
  obtain l ls where l: "open_loops xs i = Some (l # ls)" "live_at (xs ! i) = [loop_reg (xs ! l)]" "reads (xs ! i) = [loop_reg (xs ! l)]"
      "in_defs (xs ! i) = []"
    using end_loop [OF wf i(1) True] by blast
  then have c: "v = loop_reg (xs ! l)" "v \<in> points (xs ! i)" using v by (simp_all add: points_def)
  have "map fst ds = []" using moves_okD(3) [OF m] l(4) by (simp add: defs_at_def split: if_splits)
  then have "ds = []" by simp
  then have "live_map (state_at xs lr (Suc i)) = puts (ld1 @ ld2) (live_map (state_at xs lr i))"
    using moves_okD(1) [OF m] by (simp add: puts_append)
  then have "agree (lost xs lr i) (live_map (state_at xs lr (Suc i))) (filled V (ld1 @ ld2) R) V" using agree_fill [OF a] by simp
  moreover have "live_map (state_at xs lr (Suc i)) v = Some (reg_at xs lr i v)" using end_operand(2) [OF wf lr i(1) True l(1)] c(1) by simp
  ultimately show ?thesis using lost_unused [OF _ i(1)] c(2) unfolding agree_def by blast
next
  case False
  have v: "v \<in> set (operands (xs ! i))" using v False i(2) by (auto simp: reads_def operands_def split: if_splits)
  obtain r where r: "puts ld1 (live_map (state_at xs lr i)) v = Some r" "clear_of ld2 v r"
      "operand (ctx_of xs lr) (final_at xs lr) i (Some v) = Inr ([], Some r)"
    using operand_read [OF wf lr i(1) m v] by blast
  have "agree (lost xs lr i) (puts ld1 (live_map (state_at xs lr i))) (filled V ld1 R) V" using agree_fill [OF a] by simp
  moreover have "v \<in> points (xs ! i)" using wf_program(5) [OF wf i(1) False] v by (simp add: points_def)
  ultimately have "filled V ld1 R r = V v" using r(1) lost_unused [OF _ i(1)] unfolding agree_def by blast
  then show ?thesis using r(3) filled_other [OF r(2), of V "filled V ld1 R"] by (simp add: reg_at_def filled_append)
qed

lemma in_rewrite:
  assumes wf: "well_formed xs" and i: "i < length xs" "in_op (xs ! i) \<noteq> ''SINK''"
  shows "in_op (xs ! i) \<in> set rewrite_ops" "i < length xs - 1"
proof -
  have "\<forall>i < length xs. if i = length xs - 1 then in_op (xs ! i) = ''SINK'' else in_op (xs ! i) \<in> set rewrite_ops"
    using wf_program(11) [OF wf] unfolding ends_well_def by (elim conjE)
  then have "if i = length xs - 1 then in_op (xs ! i) = ''SINK'' else in_op (xs ! i) \<in> set rewrite_ops" using i(1) by blast
  then show "in_op (xs ! i) \<in> set rewrite_ops" "i < length xs - 1" using i by (auto split: if_splits)
qed

definition exec_sim :: "ins list \<Rightarrow> ranges \<Rightarrow> int \<Rightarrow> nat \<Rightarrow> 'a trace \<times> (register \<Rightarrow> 'a) \<Rightarrow> 'a machine \<Rightarrow> bool" where
  "exec_sim xs lr sp i s m \<longleftrightarrow> m_trace m = fst s \<and> agree (lost xs lr i) (live_map (state_at xs lr (Suc i))) (m_regs m) (snd s)
     \<and> stored xs lr (Suc i) (frame_of (base_of xs lr sp) m) (snd s) \<and> m_sp m = sp_at xs lr sp (Suc i)"

lemma exec_kept:
  assumes wf: "well_formed xs" and lr: "all_ranges xs lr" and i: "i < length xs" "in_pseudo (xs ! i)"
    and code: "rewrite_ins (ctx_of xs lr) (final_at xs lr) (i, xs ! i) = Inr (code ! i)" and s: "sim xs lr sp i s m"
    and mid: "0 < i" "Suc i < length xs - 1"
  shows "exec_sim xs lr sp i (virtual_exec f xs i s) (physical_exec f xs code i m)"
proof -
  have "code ! i = ([], [], [])" using code i(2) by (simp add: rewrite_ins_def)
  then have same: "physical_exec f xs code i m = m" "virtual_exec f xs i s = s" using i(2)
    by (simp_all add: physical_exec_def virtual_exec_def case_prod_beta)
  have "all_defs (take (Suc i) xs) = all_defs (take i xs)" using i by (simp add: all_defs_def take_Suc_conv_app_nth defs_at_def)
  moreover have "state_at xs lr (Suc i) = state_at xs lr i"
  proof -
    have "alloc_ins (ctx_of xs lr) (i, xs ! i) (state_at xs lr i) = Inr (state_at xs lr i)" using i(2) by (simp add: alloc_ins_def)
    moreover have "rfold (alloc_ins (ctx_of xs lr)) (enumerate 0 (take i xs)) empty_ralloc = Inr (state_at xs lr i)"
      using run_invD(1) [OF run_inv_all [OF wf lr, of i]] i by simp
    ultimately have "rfold (alloc_ins (ctx_of xs lr)) (enumerate 0 (take (Suc i) xs)) empty_ralloc = Inr (state_at xs lr i)"
      using i(1) by (simp add: take_Suc_conv_app_nth enumerate_append_eq rfold_append)
    then show ?thesis by (simp only: state_at_def [of xs lr "Suc i"] sum.case)
  qed
  ultimately show ?thesis using s same mid by (simp add: sim_def exec_sim_def stored_def sp_at_def)
qed

lemma exec_ok:
  assumes wf: "well_formed xs" and lr: "all_ranges xs lr" and i: "i < length xs" "\<not> in_pseudo (xs ! i)" "in_op (xs ! i) \<noteq> ''SINK''"
    and code: "rewrite_ins (ctx_of xs lr) (final_at xs lr) (i, xs ! i) = Inr (code ! i)" and s: "sim xs lr sp i s m"
  shows "exec_sim xs lr sp i (virtual_exec f xs i s) (physical_exec f xs code i m)"
proof -
  obtain tr V where sv: "s = (tr, V)" by (cases s)
  let ?R = "m_regs m" and ?base = "base_of xs lr sp"
  let ?M = "frame_of ?base m"
  have s: "m_trace m = tr" "agree (lost xs lr i) (live_map (state_at xs lr i)) ?R V" "stored xs lr i ?M V" "m_sp m = sp_at xs lr sp i"
    using s sv by (simp_all add: sim_def)
  have op: "in_op (xs ! i) \<in> set rewrite_ops" "i < length xs - 1" using in_rewrite [OF wf i(1,3)] by simp_all
  obtain ld1 ds ld2 where mv: "moves_ok xs i (state_at xs lr i) (state_at xs lr (Suc i)) ld1 ds ld2"
      "fst ` set (ld1 @ ld2) \<subseteq> set (all_defs (take i xs))" "length ds \<le> 1"
    using moves_at [OF wf lr i(1)] by blast
  note M = moves_okD [OF mv(1)]
  have T: "set (all_defs (take (Suc i) xs)) = set (all_defs (take i xs)) \<union> set (map fst ds)"
    using all_defs_take_Suc [OF i(1)] M(3) by simp
  have L: "live_map (state_at xs lr (Suc i)) = puts ld2 (puts ds (puts ld1 (live_map (state_at xs lr i))))" by (rule M(1))
  let ?F = "filled V (ld1 @ ld2) ?R"
  obtain before nx where b: "code ! i = (before, [nx], concat (map (spill_of xs lr) ds))" "main_ok xs lr i ds nx"
      "before = push_at xs lr i @ map (fill_of xs lr) (ld1 @ ld2) @ pop_at xs lr i"
    using emitted_block [OF wf lr i(1,2) op(1) mv(1,3)] code by (metis sum.inject(2))
  let ?sp = "sp_at xs lr sp (Suc i)"
  let ?m1 = "m\<lparr>m_regs := ?F, m_sp := ?sp\<rparr>"
  note nn = stack_nonneg [OF wf lr]
  have "fold (emit_exec f xs) (map (fill_of xs lr) (ld1 @ ld2)) (m\<lparr>m_sp := ?base\<rparr>) = m\<lparr>m_regs := ?F, m_sp := ?base\<rparr>"
    using stored_fill [OF wf lr i(1) mv(1,2) s(3), of ?R] unfolding emit_fill by (simp add: frame_of_def)
  then have m1: "fold (emit_exec f xs) before m = ?m1"
    unfolding b(3) fold_append comp_apply exec_push [OF wf op(2) s(4) nn] by (simp add: exec_pop [OF wf op(2) _ nn])
  have "map (\<lambda>v. ?F (reg_at xs lr i v)) (reads (xs ! i)) = map V (reads (xs ! i))"
    using reads_agree [OF wf lr i(1,2) mv(1) s(2)] by simp
  then have reads: "map (\<lambda>v. m_regs ?m1 (reg_at xs lr i v)) (reads (xs ! i)) = map V (reads (xs ! i))" by simp
  let ?tr = "tr @ [(i, map V (reads (xs ! i)))]"
  let ?m2 = "m\<lparr>m_trace := ?tr, m_regs := write_all f ?tr (map snd ds) ?F, m_sp := ?sp\<rparr>"
  have end_defs: "in_op (xs ! i) = ''END'' \<longrightarrow> ds = []"
    using end_loop [OF wf i(1)] M(3) by (auto simp: defs_at_def split: if_splits)
  have m2: "emit_exec f xs nx ?m1 = ?m2" unfolding main_exec [OF b(2) i(2) end_defs mv(3) apart_at [OF wf lr i(1) mv(1)]] reads by (simp add: s(1) Let_def)
  have p: "physical_exec f xs code i m = fold (emit_exec f xs) (concat (map (spill_of xs lr) ds)) ?m2"
    unfolding physical_exec_def b(1) prod.case fold_append comp_apply m1 by (simp only: fold.simps comp_apply id_apply m2)
  have v: "virtual_exec f xs i s = (?tr, write_all f ?tr (map fst ds) V)"
    using i(2) M(3) sv by (simp add: virtual_exec_def Let_def)
  show ?thesis
  proof (cases ds)
    case Nil
    have "agree (lost xs lr i) (live_map (state_at xs lr (Suc i))) ?F V"
      using agree_fill [OF agree_fill [OF s(2)], of ld2 ld1] L Nil by (simp add: filled_append)
    then show ?thesis using p v Nil s(3) T by (simp add: exec_sim_def write_all_def stored_def frame_of_def)
  next
    case (Cons q rest)
    obtain w r where ds: "ds = [(w, r)]" using Cons mv(3) by (cases q) auto
    let ?x = "f ?tr 0"
    have c: "clear_of ld2 w r" using M(4) ds by auto
    have "agree (lost xs lr i) (puts ds (puts ld1 (live_map (state_at xs lr i)))) ((filled V ld1 ?R)(r := ?x)) (V(w := ?x))"
      unfolding ds puts_simps by (rule agree_def_reg [OF agree_fill [OF s(2)]])
    from agree_fill [OF this, of ld2]
    have ag: "agree (lost xs lr i) (live_map (state_at xs lr (Suc i))) (?F(r := ?x)) (V(w := ?x))"
      by (simp only: L filled_commute [OF c] filled_append)
    let ?m3 = "m\<lparr>m_trace := ?tr, m_regs := ?F(r := ?x), m_sp := ?sp\<rparr>"
    have p': "physical_exec f xs code i m = fold (emit_exec f xs) (spill_of xs lr (w, r)) ?m3"
      unfolding p write_one(2) [OF mv(3)] by (simp add: ds)
    have v': "virtual_exec f xs i s = (?tr, V(w := ?x))" unfolding v write_one(1) [OF mv(3)] by (simp add: ds)
    have st: "stored xs lr (Suc i) (case map_of (ra_spills (final_at xs lr)) w of None \<Rightarrow> ?M | Some o' \<Rightarrow> ?M(o' := ?x)) (V(w := ?x))"
      unfolding stored_def by (rule stored_write [OF wf lr]) (use s(3) T ds in \<open>auto simp: stored_def\<close>)
    have "defs_at (xs ! i) \<noteq> []" using M(3) ds by auto
    then have "i \<noteq> length xs - 2" using wf_program(11) [OF wf] by (auto simp: ends_well_def)
    then have "Suc i < length xs - 1" using op(2) by linarith
    then have sp: "m_sp ?m3 = ?base" by (simp add: sp_at_def)
    have m3: "frame_of ?base ?m3 = ?M" "m_regs ?m3 r = ?x" by (simp_all add: frame_of_def)
    have "stored xs lr (Suc i) (frame_of ?base (fold (emit_exec f xs) (spill_of xs lr (w, r)) ?m3)) (V(w := ?x))"
      using st unfolding frame_spilled(1) [OF sp] m3 .
    moreover have "agree (lost xs lr i) (live_map (state_at xs lr (Suc i))) (m_regs (fold (emit_exec f xs) (spill_of xs lr (w, r)) ?m3)) (V(w := ?x))"
      using ag unfolding frame_spilled(3) [OF sp] by simp
    moreover have "m_trace (fold (emit_exec f xs) (spill_of xs lr (w, r)) ?m3) = ?tr" unfolding frame_spilled(2) [OF sp] by simp
    moreover have "m_sp (fold (emit_exec f xs) (spill_of xs lr (w, r)) ?m3) = ?sp" unfolding frame_spilled(4) [OF sp] by simp
    ultimately show ?thesis unfolding exec_sim_def p' v' fst_conv snd_conv by (intro conjI)
  qed
qed

section \<open>Runs\<close>

lemma agree_mono: "agree B L R V \<Longrightarrow> (\<And>v r. L v = Some r \<Longrightarrow> B v r \<Longrightarrow> B' v r) \<Longrightarrow> agree B' L R V"
  unfolding agree_def by blast

lemma go_on:
  assumes wf: "well_formed xs" and lr: "all_ranges xs lr" and i: "i < length xs" and s: "exec_sim xs lr sp i s m"
  shows "sim xs lr sp (Suc i) s m"
proof -
  obtain os where os: "open_loops xs (Suc i) = Some os" using open_at [OF wf, of "Suc i"] i by auto
  have "agree (lost xs lr i) (live_map (state_at xs lr (Suc i))) (m_regs m) (snd s)" using s by (simp add: exec_sim_def)
  then have "agree (lost xs lr (Suc i)) (live_map (state_at xs lr (Suc i))) (m_regs m) (snd s)"
    by (rule agree_mono) (rule lost_next [OF i _ _ os])
  then show ?thesis using s by (simp add: sim_def exec_sim_def)
qed

text \<open>At the head of the loop, after the end of its body: the recorded values are back, and the others that
  are live there are lost or were never touched.\<close>

lemma back_agree:
  assumes wf: "well_formed xs" and lr: "all_ranges xs lr" and i: "i < length xs" "in_op (xs ! i) = ''END''" "open_loops xs i = Some (l # ls)"
    and a: "agree (lost xs lr i) (live_map (state_at xs lr (Suc i))) R V"
  shows "agree (lost xs lr (Suc l)) (live_map (state_at xs lr (Suc l))) R V"
  unfolding agree_def
proof (intro allI impI)
  fix v r assume live: "live_map (state_at xs lr (Suc l)) v = Some r"
  have h: "l < i" "in_op (xs ! l) = ''RANGE''" "open_loops xs l = Some ls" using open_loops_head [OF i(3)] by simp_all
  then have l: "l < length xs" and os: "open_loops xs (Suc l) = Some (l # ls)" using i(1) by simp_all
  show "R r = V v \<or> lost xs lr (Suc l) v r"
  proof (cases "live_map (state_at xs lr (Suc i)) v = Some r")
    case True
    have "lost xs lr (Suc l) v r" if b: "lost xs lr i v r"
    proof -
      obtain l' e ls' os' where b: "e < length xs" "i \<le> e" "in_op (xs ! e) = ''END''" "open_loops xs e = Some (l' # ls')"
          "open_loops xs i = Some os'" "l' \<in> set os'" "unused_in xs l' e v" "live_map (state_at xs lr (Suc e)) v \<noteq> Some r"
        using b unfolding lost_def by blast
      have "l' \<in> set (l # ls)" "Suc l \<le> e" using b(2,5,6) i(3) h(1) by auto
      then show ?thesis unfolding lost_def using b os by blast
    qed
    then show ?thesis using a True unfolding agree_def by blast
  next
    case False
    then have n: "v \<notin> fst ` set (live_in_of xs lr l)" using end_keeps [OF wf lr i _ live] by blast
    have "\<forall>v r. v \<notin> fst ` set (live_in_of xs lr l) \<longrightarrow> live_map (state_at xs lr (Suc l)) v = Some r \<longrightarrow>
        (\<forall>e < length xs. in_op (xs ! e) = ''END'' \<longrightarrow> live_at (xs ! e) = [loop_reg (xs ! l)] \<longrightarrow> unused_in xs l e v)"
      using recorded_run [OF wf lr l h(2)] unfolding recorded_def by (elim conjE)
    moreover have "live_at (xs ! i) = [loop_reg (xs ! l)]" using end_loop [OF wf i(1,2)] i(3) by auto
    ultimately have "unused_in xs l i v" using n live i(1,2) by blast
    then have "lost xs lr (Suc l) v r" unfolding lost_def using i h(1) os False by (metis Suc_leI list.set_intros(1))
    then show ?thesis ..
  qed
qed

text \<open>The sources of the \<open>RANGE\<close> are in their registers whenever the head of the loop is reached.\<close>

lemma head_reads:
  assumes wf: "well_formed xs" and lr: "all_ranges xs lr" and l: "l < length xs" "in_op (xs ! l) = ''RANGE''"
    and a: "agree (lost xs lr (Suc l)) (live_map (state_at xs lr (Suc l))) R V" and v: "v \<in> set (reads (xs ! l))"
  shows "R (reg_at xs lr l v) = V v"
proof -
  have np: "\<not> in_pseudo (xs ! l)" and ne: "in_op (xs ! l) \<noteq> ''END''" using l(2) pseudo_facts by auto
  have o: "v \<in> set (operands (xs ! l))" using v l(2) np by (simp add: reads_def operands_def)
  obtain ld1 ds ld2 where m: "moves_ok xs l (state_at xs lr l) (state_at xs lr (Suc l)) ld1 ds ld2"
    using moves_at [OF wf lr l(1)] by blast
  obtain r where r: "map_of (ra_reals (state_at xs lr (Suc l))) (l, v) = Some r" "puts ld1 (live_map (state_at xs lr l)) v = Some r"
    using moves_okD(5) [OF m o] by blast
  have "live_map (state_at xs lr (Suc l)) v = Some r" using steps [OF wf lr l(1)] l(2) o r(1) unfolding step_ok_def loops_ok_def by simp
  moreover have "reg_at xs lr l v = r" using operand_read [OF wf lr l(1) m o] r(2) by (auto simp: reg_at_def)
  moreover have "\<not> lost xs lr (Suc l) v r"
  proof
    assume "lost xs lr (Suc l) v r"
    then obtain k e os where b: "Suc l \<le> e" "open_loops xs (Suc l) = Some os" "k \<in> set os" "unused_in xs k e v" unfolding lost_def by blast
    have "k \<le> l" using open_loops_less [OF b(2,3)] by simp
    moreover have "v \<in> points (xs ! l)" using wf_program(5) [OF wf l(1) ne] o by (simp add: points_def)
    ultimately show False using b(1,4) l(1) unfolding unused_in_def by simp
  qed
  ultimately show ?thesis using a unfolding agree_def by blast
qed

lemma go_back:
  assumes wf: "well_formed xs" and lr: "all_ranges xs lr" and i: "i < length xs" "in_op (xs ! i) = ''END''" "open_loops xs i = Some (l # ls)"
    and code: "\<And>k. k < length xs \<Longrightarrow> rewrite_ins (ctx_of xs lr) (final_at xs lr) (k, xs ! k) = Inr (code ! k)"
    and s: "exec_sim xs lr sp i s m"
  shows "sim xs lr sp (Suc l) (virtual_jump g xs i (Suc l) s) (physical_jump f g xs code i (Suc l) m)"
proof -
  let ?c = "loop_reg (xs ! l)" and ?r = "reg_at xs lr i (loop_reg (xs ! l))" and ?y = "g (m_trace m)" and ?base = "base_of xs lr sp"
  let ?R = "(m_regs m)(?r := ?y)" and ?V = "(snd s)(?c := ?y)"
  have s: "m_trace m = fst s" "agree (lost xs lr i) (live_map (state_at xs lr (Suc i))) (m_regs m) (snd s)"
      "stored xs lr (Suc i) (frame_of ?base m) (snd s)" "m_sp m = sp_at xs lr sp (Suc i)" using s by (simp_all add: exec_sim_def)
  have h: "l < i" "in_op (xs ! l) = ''RANGE''" using open_loops_head [OF i(3)] by simp_all
  then have l: "l < length xs" using i(1) by simp
  have np: "\<not> in_pseudo (xs ! i)" "\<not> in_pseudo (xs ! l)" using i(2) h(2) pseudo_facts by auto
  have ns: "in_op (xs ! i) \<noteq> ''SINK''" "in_op (xs ! l) \<noteq> ''SINK''" using i(2) h(2) by simp_all
  have "i \<noteq> length xs - 2" using wf_program(11) [OF wf] i(3) by (auto simp: ends_well_def)
  then have mid: "Suc i < length xs - 1" using in_rewrite(2) [OF wf i(1) ns(1)] by linarith
  then have sp: "m_sp m = ?base" "sp_at xs lr sp (Suc l) = ?base" using s(4) h(1) by (simp_all add: sp_at_def)
  obtain a1 ds1 b1 where 1: "moves_ok xs i (state_at xs lr i) (state_at xs lr (Suc i)) a1 ds1 b1" "length ds1 \<le> 1"
    using moves_at [OF wf lr i(1)] by blast
  obtain be nx where blk: "code ! i = (be, [nx], concat (map (spill_of xs lr) ds1))" "main_ok xs lr i ds1 nx"
    using emitted_block [OF wf lr i(1) np(1) in_rewrite(1) [OF wf i(1) ns(1)] 1] code [OF i(1)] by (metis sum.inject(2))
  obtain a2 ds2 b2 where 2: "moves_ok xs l (state_at xs lr l) (state_at xs lr (Suc l)) a2 ds2 b2" "length ds2 \<le> 1"
    using moves_at [OF wf lr l] by blast
  obtain be2 nx2 where blk2: "code ! l = (be2, [nx2], concat (map (spill_of xs lr) ds2))" "main_ok xs lr l ds2 nx2"
    using emitted_block [OF wf lr l np(2) in_rewrite(1) [OF wf l ns(2)] 2] code [OF l] by (metis sum.inject(2))
  have "map fst ds2 = [?c]" using moves_okD(3) [OF 2(1)] loop_counter(2) [OF wf l h(2)] by simp
  then obtain r2 where ds2: "ds2 = [(?c, r2)]" using def_singleton [of ds2 ?c] by auto
  have "live_map (state_at xs lr (Suc l)) ?c = Some r2"
    unfolding moves_okD(1) [OF 2(1)] by (rule puts_clear) (use moves_okD(4) [OF 2(1)] ds2 in \<open>simp_all add: put_def\<close>)
  then have r2: "r2 = ?r" using end_operand(1) [OF wf lr i] by simp
  have "nx = Instr i (map (src_at xs lr i) (in_srcs (xs ! i))) (map snd ds1)" using blk(2) i(2) by (simp add: main_ok_def)
  moreover have "read_regs (xs ! i) (map (src_at xs lr i) (in_srcs (xs ! i))) = [?r]"
  proof -
    have "reads (xs ! i) = [?c]" using end_loop [OF wf i(1,2)] i(3) by auto
    then show ?thesis using i(2) np(1) by (simp add: read_regs_map reads_def)
  qed
  moreover have "nx2 = Instr l (map (src_at xs lr l) (in_srcs (xs ! l))) [?r]" using blk2(2) h(2) ds2 r2 by (simp add: main_ok_def)
  moreover have "read_regs (xs ! l) (map (src_at xs lr l) (in_srcs (xs ! l))) = map (reg_at xs lr l) (reads (xs ! l))"
    using h(2) np(2) by (simp add: read_regs_map reads_def)
  ultimately have pj: "physical_jump f g xs code i (Suc l) m = fold (emit_exec f xs) (spill_of xs lr (?c, ?r))
      (m\<lparr>m_regs := ?R, m_trace := m_trace m @ [(l, map ?R (?r # map (reg_at xs lr l) (reads (xs ! l))))]\<rparr>)"
    using h(1) blk(1) blk2(1) ds2 r2 by (simp add: physical_jump_def Let_def)
  have vj: "virtual_jump g xs i (Suc l) s = (fst s @ [(l, map ?V (?c # reads (xs ! l)))], ?V)"
    using h(1) s(1) by (simp add: virtual_jump_def case_prod_beta Let_def)
  let ?M = "case map_of (ra_spills (final_at xs lr)) ?c of None \<Rightarrow> frame_of ?base m | Some o' \<Rightarrow> (frame_of ?base m)(o' := ?y)"
  have "agree (lost xs lr (Suc l)) (live_map (state_at xs lr (Suc l))) (m_regs m) (snd s)" by (rule back_agree [OF wf lr i s(2)])
  moreover have "v = ?c" if "live_map (state_at xs lr (Suc l)) v = Some ?r" for v
    using good_at [OF wf lr, of "Suc l"] l that end_operand(1) [OF wf lr i] unfolding good_state_def by (metis Suc_leI)
  ultimately have ag: "agree (lost xs lr (Suc l)) (live_map (state_at xs lr (Suc l))) ?R ?V"
    using end_operand(1) [OF wf lr i] unfolding agree_def by (auto simp: fun_upd_def)
  have "map ?R (map (reg_at xs lr l) (reads (xs ! l))) = map ?V (reads (xs ! l))"
    using head_reads [OF wf lr l h(2) ag] by simp
  then have heads: "map ?R (?r # map (reg_at xs lr l) (reads (xs ! l))) = map ?V (?c # reads (xs ! l))" by (simp only: list.map fun_upd_same)
  have st: "stored xs lr (Suc l) ?M ((snd s)(?c := ?y))"
    unfolding stored_def
  proof (rule stored_write [OF wf lr])
    have "set (all_defs (take (Suc l) xs)) \<subseteq> set (all_defs (take (Suc i) xs))" using all_defs_take_mono [of "Suc l" "Suc i" xs] h(1) by simp
    then show "\<forall>w off. map_of (ra_spills (final_at xs lr)) w = Some off \<longrightarrow> w \<in> set (all_defs (take (Suc l) xs)) \<longrightarrow> w \<noteq> ?c
        \<longrightarrow> frame_of ?base m off = snd s w"
      using s(3) unfolding stored_def by blast
  qed
  let ?tr = "fst s @ [(l, map ?V (?c # reads (xs ! l)))]"
  let ?m = "m\<lparr>m_regs := ?R, m_trace := ?tr\<rparr>"
  have m: "m_sp ?m = ?base" "frame_of ?base ?m = frame_of ?base m" "m_regs ?m ?r = ?y" using sp(1) by (simp_all add: frame_of_def)
  have st': "stored xs lr (Suc l) (frame_of ?base (fold (emit_exec f xs) (spill_of xs lr (?c, ?r)) ?m)) ((snd s)(?c := ?y))"
    using st unfolding frame_spilled(1) [OF m(1)] m(2,3) .
  have ag': "agree (lost xs lr (Suc l)) (live_map (state_at xs lr (Suc l))) (m_regs (fold (emit_exec f xs) (spill_of xs lr (?c, ?r)) ?m)) ((snd s)(?c := ?y))"
    using ag unfolding frame_spilled(3) [OF m(1)] by simp
  have tr: "m_trace (fold (emit_exec f xs) (spill_of xs lr (?c, ?r)) ?m) = ?tr" unfolding frame_spilled(2) [OF m(1)] by simp
  have "m_sp (fold (emit_exec f xs) (spill_of xs lr (?c, ?r)) ?m) = sp_at xs lr sp (Suc l)"
    unfolding frame_spilled(4) [OF m(1)] m(1) by (rule sp(2) [symmetric])
  moreover have "physical_jump f g xs code i (Suc l) m = fold (emit_exec f xs) (spill_of xs lr (?c, ?r)) ?m"
    by (simp only: pj heads [unfolded s(1)] s(1))
  ultimately show ?thesis using ag' st' tr unfolding vj sim_def fst_conv snd_conv by (simp only: simp_thms)
qed

lemma exec_any:
  assumes wf: "well_formed xs" and lr: "all_ranges xs lr" and i: "i < length xs" "in_op (xs ! i) \<noteq> ''SINK''"
    and code: "rewrite_ins (ctx_of xs lr) (final_at xs lr) (i, xs ! i) = Inr (code ! i)" and s: "sim xs lr sp i s m"
  shows "exec_sim xs lr sp i (virtual_exec f xs i s) (physical_exec f xs code i m)"
proof (cases "in_pseudo (xs ! i)")
  case True
  have "\<not> in_pseudo (xs ! 0)" "\<not> in_pseudo (xs ! (length xs - 2))" using wf_program(11) [OF wf] unfolding ends_well_def by simp_all
  then have "i \<noteq> 0" "i \<noteq> length xs - 2" using True by metis+
  then have "0 < i" "Suc i < length xs - 1" using in_rewrite(2) [OF wf i] by linarith+
  then show ?thesis using exec_kept [OF wf lr i(1) True code s] by blast
next
  case False
  then show ?thesis using exec_ok [OF wf lr i(1) _ i(2) code s] by blast
qed

lemma step_sim:
  assumes wf: "well_formed xs" and lr: "all_ranges xs lr" and i: "i < length xs" "in_op (xs ! i) \<noteq> ''SINK''" and j: "succ_of xs i j"
    and code: "\<And>k. k < length xs \<Longrightarrow> rewrite_ins (ctx_of xs lr) (final_at xs lr) (k, xs ! k) = Inr (code ! k)"
    and s: "sim xs lr sp i s m"
  shows "sim xs lr sp j (virtual_jump g xs i j (virtual_exec f xs i s)) (physical_jump f g xs code i j (physical_exec f xs code i m))"
proof (cases "j = Suc i")
  case True
  then show ?thesis using go_on [OF wf lr i(1) exec_any [OF wf lr i code [OF i(1)] s, of f]]
    by (simp add: virtual_jump_def physical_jump_def case_prod_beta)
next
  case False
  then obtain l ls where l: "in_op (xs ! i) = ''END''" "open_loops xs i = Some (l # ls)" "j = Suc l"
    using j by (auto simp: succ_of_def split: option.splits list.splits)
  show ?thesis unfolding l(3) by (rule go_back [OF wf lr i(1) l(1,2) code exec_any [OF wf lr i code [OF i(1)] s, of f]])
qed

lemma run_sim:
  assumes wf: "well_formed xs" and lr: "all_ranges xs lr"
    and code: "\<And>k. k < length xs \<Longrightarrow> rewrite_ins (ctx_of xs lr) (final_at xs lr) (k, xs ! k) = Inr (code ! k)"
  shows "path_from xs i ps \<Longrightarrow> sim xs lr sp i s m \<Longrightarrow> m_trace (physical_run f g xs code ps m) = fst (virtual_run f g xs ps s)
    \<and> (ps \<noteq> [] \<longrightarrow> m_sp (physical_run f g xs code ps m) = sp_at xs lr sp (Suc (last ps)))"
proof (induction ps arbitrary: i s m)
  case Nil
  then show ?case by (simp add: sim_def)
next
  case (Cons k ps)
  then have i: "k = i" "i < length xs" "in_op (xs ! i) \<noteq> ''SINK''" by auto
  show ?case
  proof (cases ps)
    case Nil
    then show ?thesis using exec_any [OF wf lr i(2,3) code [OF i(2)] Cons.prems(2), of f] i(1) by (simp add: exec_sim_def)
  next
    case (Cons j qs)
    then have p: "succ_of xs i j" "path_from xs j ps" using Cons.prems(1) i(1) by auto
    from Cons.IH [OF p(2) step_sim [OF wf lr i(2,3) p(1) code Cons.prems(2), of g f]] show ?thesis using Cons i(1) by simp
  qed
qed

lemma sim_start: "sim xs lr (m_sp m) 0 (m_trace m, V) m"
proof -
  have "live_map (state_at xs lr 0) = Map.empty" by (simp add: state_at_def empty_ralloc_def)
  then show ?thesis by (simp add: sim_def agree_def stored_def sp_at_def all_defs_def)
qed

end
