(* ===== verification/RegallocProps.thy ===== *)
theory RegallocProps
  imports RegallocSpec
begin

text \<open>The properties of the register allocator, their witnesses, and programs that it does not treat well.\<close>

section \<open>Programs\<close>

definition phys :: "int \<Rightarrow> register" where
  "phys k = Register ''r'' k [] \<lparr>span_count = 1, span_alignment = 1\<rparr> False"

definition virt :: "int list \<Rightarrow> int \<Rightarrow> register" where
  "virt ks k = Register ''v'' k (map phys ks) \<lparr>span_count = 1, span_alignment = 1\<rparr> False"

definition node_of :: "op \<Rightarrow> register list \<Rightarrow> register list \<Rightarrow> ins" where
  "node_of op ds ss = \<lparr>in_op = op, in_defs = ds, in_srcs = map Some ss, in_live = map Some ss, in_bytes = 4, in_local = Inr 0,
     in_two_address = False, in_remat = False\<rparr>"

abbreviation value_of :: "int \<Rightarrow> register" where
  "value_of \<equiv> virt [0, 1, 2]"

text \<open>Three values are used in a loop whose counter takes one of the three registers.\<close>

definition spill_program :: "ins list" where
  "spill_program = [node_of ''INS'' [value_of 0] [], node_of ''INS'' [value_of 1] [], node_of ''INS'' [value_of 2] [],
     node_of ''RANGE'' [value_of 3] [], node_of ''INS'' [] [value_of 0], node_of ''INS'' [] [value_of 1],
     node_of ''INS'' [] [value_of 2], node_of ''END'' [] [value_of 3], node_of ''INS'' [] [value_of 0], node_of ''INS'' [] [], node_of ''SINK'' [] []]"

lemma spill_program_ok: "well_formed spill_program"
  by code_simp

section \<open>Programs outside the conditions\<close>

text \<open>Both definitions of one instruction are spilled: the second slot receives the first register.\<close>

definition pair_program :: "ins list" where
  "pair_program = [node_of ''INS'' [value_of 0, value_of 1] [], node_of ''INS'' [value_of 2] [], node_of ''INS'' [value_of 3] [],
     node_of ''INS'' [value_of 4] [], node_of ''INS'' [] [value_of 2], node_of ''INS'' [] [value_of 3], node_of ''INS'' [] [value_of 4],
     node_of ''INS'' [] [value_of 0], node_of ''INS'' [] [value_of 1], node_of ''INS'' [] [], node_of ''SINK'' [] []]"

lemma second_spill_takes_first_register:
  "case compile_regs pair_program of Inr ((before, main, after) # _) \<Rightarrow>
     main = [Instr 0 [] [phys 0, phys 1]] \<and> after = [Spill 0 (phys 0), Spill 4 (phys 0)] | _ \<Rightarrow> False"
  by code_simp

text \<open>A pseudo node comes first: the frame is popped but was never pushed.\<close>

definition moves_sp :: "emit \<Rightarrow> bool" where
  "moves_sp e = (case e of PushFrame n \<Rightarrow> True | PopFrame n \<Rightarrow> True | _ \<Rightarrow> False)"

lemma frame_popped_not_pushed:
  "case compile_regs (node_of ''NOOP'' [] [] # spill_program) of
     Inr blocks \<Rightarrow> filter moves_sp (concat (map fst blocks)) = [PopFrame 8] | _ \<Rightarrow> False"
  by code_simp

text \<open>A loop whose body loads a value for the first time: when the body does not run at all, the code after
  the loop reads that register without the load.\<close>

definition skip_program :: "ins list" where
  "skip_program = [node_of ''INS'' [virt [1, 2] 0] [], node_of ''INS'' [virt [1] 1] [], node_of ''RANGE'' [virt [2] 2] [],
     node_of ''INS'' [] [virt [1, 2] 0], node_of ''END'' [] [virt [2] 2], node_of ''INS'' [] [virt [1, 2] 0],
     node_of ''INS'' [] [virt [1] 1], node_of ''INS'' [] [], node_of ''SINK'' [] []]"

lemma skipped_loop_reads_other_value:
  "well_formed skip_program"
  "fst (virtual_exec (\<lambda>tr k. length tr) skip_program 5 (virtual_run (\<lambda>tr k. length tr) length skip_program [0, 1, 2] ([], \<lambda>v. 0)))
     = [(0, []), (1, []), (2, []), (5, [1])]"
  "case compile_regs skip_program of Inr code \<Rightarrow>
     m_trace (physical_exec (\<lambda>tr k. length tr) skip_program code 5 (physical_run (\<lambda>tr k. length tr) length skip_program code [0, 1, 2]
       \<lparr>m_trace = [], m_regs = (\<lambda>r. 0), m_sp = 64, m_stack = (\<lambda>a. 0)\<rparr>)) = [(0, []), (1, []), (2, []), (5, [2])] | _ \<Rightarrow> False"
  by code_simp+

section \<open>Properties\<close>

text \<open>Property C7.  Linear-scan register allocation is correct: for a well-formed program the allocator and the
  rewrite succeed, and on every path through the program the rewritten code, started with any registers, stack
  and stack pointer, reads at every instruction, and at every return to the head of a loop, the operand values
  that the program reads from its virtual registers, through all spills, reloads, copies and loop iterations; on reaching the last instruction the stack
  pointer is back.  What instructions compute is arbitrary, and may depend on everything read before.\<close>

theorem register_allocation_correct:
  assumes "well_formed xs" and "path_from xs 0 ps"
  shows "\<exists>code. compile_regs xs = Inr code
    \<and> m_trace (physical_run f g xs code ps \<lparr>m_trace = [], m_regs = R, m_sp = sp, m_stack = M\<rparr>) = fst (virtual_run f g xs ps ([], V))
    \<and> (ps \<noteq> [] \<longrightarrow> last ps = length xs - 2 \<longrightarrow>
        m_sp (physical_run f g xs code ps \<lparr>m_trace = [], m_regs = R, m_sp = sp, m_stack = M\<rparr>) = sp)"
proof -
  obtain lr code where c: "all_ranges xs lr" "compile_regs xs = Inr code"
      "\<And>i. i < length xs \<Longrightarrow> rewrite_ins (ctx_of xs lr) (final_at xs lr) (i, xs ! i) = Inr (code ! i)"
    using code_ok [OF assms(1)] by blast
  let ?m = "\<lparr>m_trace = [], m_regs = R, m_sp = sp, m_stack = M\<rparr>"
  have "sim xs lr sp 0 ([], V) ?m" using sim_start [of xs lr ?m V] by simp
  from run_sim [OF assms(1) c(1,3) assms(2) this, of f g]
  have "m_trace (physical_run f g xs code ps ?m) = fst (virtual_run f g xs ps ([], V))"
      "ps \<noteq> [] \<Longrightarrow> m_sp (physical_run f g xs code ps ?m) = sp_at xs lr sp (Suc (last ps))" by simp_all
  moreover have "sp_at xs lr sp (Suc (length xs - 2)) = sp" using long_program [OF assms(1)] by (auto simp: sp_at_def)
  ultimately show ?thesis using c(2) by auto
qed

lemma register_allocation_correct_witness:
  "let ps = [0, 1, 2, 3, 4, 5, 6, 7, 4, 5, 6, 7, 8, 9] in \<exists>code. compile_regs spill_program = Inr code
    \<and> m_trace (physical_run (\<lambda>tr k. length tr) length spill_program code ps \<lparr>m_trace = [], m_regs = (\<lambda>r. 0), m_sp = 64, m_stack = (\<lambda>a. 0)\<rparr>)
      = fst (virtual_run (\<lambda>tr k. length tr) length spill_program ps ([], \<lambda>v. 0))
    \<and> m_sp (physical_run (\<lambda>tr k. length tr) length spill_program code ps \<lparr>m_trace = [], m_regs = (\<lambda>r. 0), m_sp = 64, m_stack = (\<lambda>a. 0)\<rparr>) = 64"
proof -
  have p: "path_from spill_program 0 [0, 1, 2, 3, 4, 5, 6, 7, 4, 5, 6, 7, 8, 9]" by code_simp
  have n: "length spill_program = 11" by (simp add: spill_program_def)
  show ?thesis
    using register_allocation_correct [OF spill_program_ok p, of "\<lambda>tr k. length tr" length "\<lambda>r. 0" 64 "\<lambda>a. 0" "\<lambda>v. 0"]
    by (simp add: Let_def n)
qed

text \<open>Property C8.  The stack frame of an allocation: every spill slot is aligned to its size, every slot and
  every local array lies inside the frame, and no two of them overlap.\<close>

theorem spill_slots_disjoint:
  assumes "well_formed xs" and "linear_scan xs = Inr st"
  shows "(\<forall>(off, sz) \<in> set (areas xs (ra_spills st) (ra_locals st)). 0 \<le> off \<and> off + sz \<le> ra_stack st)
    \<and> sorted_wrt apart (areas xs (ra_spills st) (ra_locals st))
    \<and> (\<forall>(v, off) \<in> set (ra_spills st). 0 < slot_bytes xs v \<and> slot_bytes xs v dvd off)"
proof -
  obtain lr where "all_ranges xs lr" "st = final_at xs lr" using linear_scan_ok [OF assms(1)] assms(2) by auto
  then have "good_state xs st" using good_at [OF assms(1) _ order_refl] by simp
  then have "frame_ok xs (ra_spills st) (ra_stack st) (ra_locals st)" by (simp add: good_state_def)
  from frame_okD [OF this] show ?thesis by fastforce
qed

lemma spill_slots_disjoint_witness: "\<exists>st. linear_scan spill_program = Inr st \<and> sorted_wrt apart (areas spill_program (ra_spills st) (ra_locals st))"
proof -
  obtain lr where "linear_scan spill_program = Inr (final_at spill_program lr)" using linear_scan_ok [OF spill_program_ok] by blast
  then show ?thesis using spill_slots_disjoint [OF spill_program_ok] by blast
qed

end
