(* ===== verification/Spec2Isabelle.thy ===== *)
theory Spec2Isabelle
  imports TlsfSpec AdmissionSpec RegistersSpec PipelineSpec DTypesSpec SchedulingSpec RouteSpec MovementReads DecompSpec
    Long32Spec MemPlanSpec RegallocProps
begin

text \<open>
  A verification development for tinygrad, a tensor compiler with a language-model front end, written in
  Python.  All file names are relative to the directory \<open>src/\<close>.

  \<^bold>\<open>The program\<close>

  A tensor program is a graph of nodes (\<open>UOp\<close>, \<open>tinygrad/uop/ops.py\<close>) that carry an operation, a data type
  (\<open>tinygrad/dtype.py\<close>), sources and an argument.  Movement operations (\<open>tinygrad/mixin/movement.py\<close>) change
  the shape and the index map of a tensor without moving data.  The compiler bounds integer expressions
  (\<open>UOp._min_max\<close>), lowers the operations that hardware lacks (\<open>tinygrad/uop/decompositions.py\<close>), orders the
  instructions and allocates registers (\<open>tinygrad/codegen/late/\<close>), leases physical registers (\<open>tinygrad/renderer/isa/\<close>) and stages
  memory traffic through pipelines (\<open>tinygrad/codegen/opt/\<close>).  Buffers live in ranges that allocators hand out
  (\<open>tinygrad/runtime/support/memory.py\<close>).  The language-model side (\<open>tinygrad/llm/\<close>) scans a model file and
  the device, plans the memory of the weights, the cache and the prefill strategy, refuses what does not
  fit, and chooses a kernel route for every weight.

  \<^bold>\<open>Conventions\<close> (theories \<open>Prelude\<close>, \<open>PyVal\<close>, \<open>Helpers\<close>)

  A function that may raise returns \<open>py_error + 'a\<close>; every \<open>raise\<close>, failed \<open>assert\<close>, missing key and
  exhausted loop of the source is a branch of its definition.  Python integers are \<open>int\<close>; fields of a fixed
  width are words.  Dictionaries that are iterated are association lists in insertion order.  Values that the
  source checks at run time (constructor arguments, decoded JSON, probe results) are the dynamic values of
  \<open>PyVal\<close>.  \<open>Helpers\<close> holds the arithmetic of \<open>tinygrad/helpers.py\<close>.

  \<^bold>\<open>Theories and code\<close>

  \<^item> \<open>Tlsf\<close>: \<open>BumpAllocator\<close> and \<open>TLSFAllocator\<close> with the fields of the Python objects.  \<open>Tiling\<close> is the view of
    the block dictionary as a tiling of the range, \<open>TlsfLists\<close> relates free lists and counters to it,
    \<open>TlsfCorrect\<close> and \<open>TlsfAlloc\<close> prove every operation, \<open>TlsfSpec\<close> states the contract a client sees (locale
    \<open>range_allocator\<close>, interpreted by the allocator) and the properties.
  \<^item> \<open>MemPlan\<close>, \<open>MemPlanSpec\<close>: the planner of \<open>tinygrad/schedule/memory.py\<close>, a client of that contract: buffers
    get lifetimes, and their allocations and releases are replayed on one allocator per lane.
  \<^item> \<open>MemoryLedger\<close>, \<open>GgufScan\<close>, \<open>PrefillPlan\<close>, \<open>DeviceFacts\<close>, \<open>Admission\<close>: the files of the same names in
    \<open>tinygrad/llm/\<close>, every validation included.  The ledger and the planner are two interpretations of one
    contract (\<open>fail_closed_gate\<close>: a decision is positive only when no reason speaks against it).
    \<open>LedgerSpec\<close> and \<open>AdmissionSpec\<close> prove that a positive answer implies known facts and bytes that fit.
  \<^item> \<open>ModelFacts\<close>, \<open>RoutePlan\<close>, \<open>RouteSpec\<close>: the role vocabulary, the policy loader and the route plan
    (\<open>model_facts.py\<close>, \<open>model_route_plan.py\<close>).
  \<^item> \<open>Registers\<close>, \<open>RegistersSpec\<close>: register descriptors, leases and the first-fit allocator with its stage-buffer
    client, against the contract \<open>interval_placer\<close>.
  \<^item> \<open>Pipeline\<close>, \<open>PipelineSpec\<close>: the pipeline policies and plans.  The storage monitor that the lifecycle events
    of a hierarchical plan must satisfy is an abstract specification, and the events are shown to refine it.
  \<^item> \<open>DTypes\<close>, \<open>DTypesSpec\<close>: the type lattice, lossless casts and the eight-bit floats.
  \<^item> \<open>UOps\<close>, \<open>UOpsSpec\<close>: nodes and the iterative topological sort, equal to a recursive depth-first order.
  \<^item> \<open>Scheduling\<close>, \<open>SchedulingSpec\<close>: five schedulers as policies of one loop.  The locales \<open>ready_policy\<close>,
    \<open>block_policy\<close> and \<open>block_scheduler\<close> are interpreted by the schedulers' own definitions.
  \<^item> \<open>Regalloc\<close>: \<open>LinearScanRegallocContext\<close> (\<open>tinygrad/codegen/late/regalloc.py\<close>), live ranges and the forward pass
    with eviction, spill slots, rematerialisation and the values carried through loops; \<open>RegallocCode\<close>:
    \<open>regalloc_rewrite\<close>, the code that an allocation stands for.  \<open>RegallocMachine\<close> defines the two machines that
    are compared, one on virtual registers and one on physical registers, a stack and a stack pointer, and the
    paths through a program; it executes the copy before a two-address instruction and the comparison at the
    head of a loop as the back ends lower them.  \<open>RegallocRanges\<close> proves what live ranges cover, \<open>RegallocFrame\<close> the layout of the
    frame, \<open>RegallocLive\<close>, \<open>RegallocLoops\<close>, \<open>RegallocStep\<close> and \<open>RegallocRun\<close> the state at every instruction, \<open>RegallocBlocks\<close>
    the emitted code, \<open>RegallocSpec\<close> the simulation and \<open>RegallocProps\<close> the properties.  They hold for
    \<open>well_formed\<close> programs: single assignment, at most one definition to an instruction and one register to a value,
    no rematerialisation, pools with room for the operands of an instruction, and structured loops that are
    executed at least once.  \<open>RegallocProps\<close> also shows what happens outside these conditions.
  \<^item> \<open>Movement\<close>, \<open>MovementViews\<close>, \<open>MovementSpec\<close>, \<open>MovementReads\<close>: shapes and index maps of the movement operations
    and of basic indexing; a tensor is a base shape under a stack of operations, and \<open>locate\<close> says which base
    element, if any, an index reads.
  \<^item> \<open>IntRange\<close>, \<open>IntRangeSpec\<close>: interval analysis and the evaluator of scalar operations, sound with respect to
    each other.  \<open>Decomp\<close>, \<open>DecompSpec\<close>: division by constants and floor division on the same expressions.
  \<^item> \<open>Long32\<close>, \<open>Long32Spec\<close>: 64-bit integers on 32-bit halves, refined to 64-bit words, and the counter-based
    random generator.

  \<^bold>\<open>Bounds and fuel\<close>

  The merge loops of \<open>TLSFAllocator\<close> take the number of blocks plus one (\<open>tlsf_free_ok\<close>: never exhausted under
  the invariant).  \<open>lattice_fuel\<close> is 13, one more than the longest chain of the promotion lattice
  (\<open>recursive_parents_enough\<close>).  The ready loop of the schedulers takes the number of its nodes, and the
  topological sort a measure on the pending part of the graph; both are shown to end with every node.  The
  magic multiplier is searched below twice the bit length, and the search is shown to succeed.  \<open>fill\<close> and \<open>remat\<close> of the
  register allocator recurse along definitions, with the number of instructions plus one as fuel; a
  well-formed program uses one unit of it, and its allocation is shown to succeed.  No property
  is stated only for the runs that end.

  \<^bold>\<open>Parameters\<close>

  Hashes, probes of the device, the parsed policy file and the evaluation of variables are arguments of the
  definitions that use them; nothing is assumed of them beyond their type.  So are the tests
  \<open>is_two_address\<close> and \<open>is_rematerializable\<close> of a renderer and, in the machines, what an instruction computes.

  \<^bold>\<open>Not modelled\<close>

  The pattern matcher and the rewrite rules written in it (symbolic simplification, rangeify, the kernel
  optimiser, the renderers) need a model of Python closures over the whole graph language.  Drivers,
  register programming, foreign functions, compilers and the page tables are device I/O.  Tensor
  functions, layers and kernels of the models compute on floating-point data; of the float code only the
  eight-bit formats and the bfloat16 rounding are modelled, on bit patterns.  Generated bindings, viewers,
  benchmarks and tests carry no logic of the program.
\<close>

end
